(* ===== verification/Maho_Prelude.thy ===== *)
theory Maho_Prelude
  imports Main "HOL-Library.Word"
begin

unbundle bit_operations_syntax

text \<open>
  Shared vocabulary of the MahoRD development.

  \<^item> The machine integers of the Rust sources at their width (\<open>u8\<close> to \<open>u64\<close>, \<open>i32\<close> as the
    same 32 bits read through \<^const>\<open>sint\<close>), byte slices and vectors as lists of \<open>u8\<close>, lengths
    and offsets (\<open>usize\<close>) as \<^typ>\<open>nat\<close>, and \<open>f32\<close> as its IEEE-754 bit pattern, which is what
    \<open>f32::to_bits\<close> and \<open>f32::from_bits\<close> move to and from the wire.
  \<^item> \<open>Result<T, E>\<close> as the sum \<open>'e + 'a\<close> (\<^const>\<open>Inl\<close> is \<open>Err\<close>, \<^const>\<open>Inr\<close> is \<open>Ok\<close>) with the
    propagation that the \<open>?\<close> operator performs.
  \<^item> \<open>to_le_bytes\<close>, \<open>from_le_bytes\<close> and their big-endian twins, with the two round trips every
    codec of the development rests on.
  \<^item> The named collections that the component proofs hand to the simplifier.
\<close>

section \<open>Types\<close>

type_synonym u8 = "8 word"
type_synonym u16 = "16 word"
type_synonym u32 = "32 word"
type_synonym u64 = "64 word"
type_synonym i32 = "32 word"
type_synonym f32 = "32 word"
type_synonym usize = nat
type_synonym bytes = "u8 list"

text \<open>A Rust \<open>String\<close> is the list of its bytes; that they are valid UTF-8 is the type
  invariant, stated with the validator of the codec theory.\<close>

type_synonym rstring = bytes

text \<open>An \<open>Instant\<close> and a \<open>Duration\<close> are numbers of nanoseconds;
  \<open>saturating_duration_since\<close> is the truncated subtraction of \<^typ>\<open>nat\<close>.\<close>

type_synonym instant = nat
type_synonym duration = nat

abbreviation from_secs :: "nat \<Rightarrow> duration" where
  "from_secs s \<equiv> s * 1000000000"

section \<open>Named collections\<close>

named_theorems codec_defs \<open>definitions of encoders and decoders\<close>
named_theorems dec_view \<open>what a decoder does to the remaining slice\<close>
named_theorems dec_local \<open>decoders that depend on the remaining slice only\<close>
named_theorems dec_inv \<open>what a successful decode says about the input\<close>

section \<open>Results\<close>

text \<open>The \<open>?\<close> operator: an error returns at once, a value goes on.\<close>

definition try_bind :: "'e + 'a \<Rightarrow> ('a \<Rightarrow> 'e + 'b) \<Rightarrow> 'e + 'b" where
  "try_bind r f = (case r of Inl e \<Rightarrow> Inl e | Inr x \<Rightarrow> f x)"

lemma try_bind_simps [simp]:
  "try_bind (Inl e) f = Inl e"
  "try_bind (Inr x) f = f x"
  by (simp_all add: try_bind_def)

lemma try_bind_eq_Inr [simp]: "try_bind r f = Inr y \<longleftrightarrow> (\<exists>x. r = Inr x \<and> f x = Inr y)"
  by (cases r) auto

lemma try_bind_eq_Inl: "try_bind r f = Inl e \<longleftrightarrow> r = Inl e \<or> (\<exists>x. r = Inr x \<and> f x = Inl e)"
  by (cases r) auto

text \<open>The fallible constructors of the sources test, return the error early and go on.\<close>

definition ensure :: "bool \<Rightarrow> 'e \<Rightarrow> 'e + unit" where
  "ensure c e = (if c then Inr () else Inl e)"

lemma ensure_simps [simp]:
  "ensure True e = Inr ()"
  "ensure False e = Inl e"
  "ensure c e = Inr u \<longleftrightarrow> c"
  by (auto simp: ensure_def)

text \<open>The values of the successful results of a sequence.\<close>

fun oks :: "('e + 'a) list \<Rightarrow> 'a list" where
  "oks [] = []"
| "oks (Inr x # rs) = x # oks rs"
| "oks (Inl _ # rs) = oks rs"

lemma set_oks [simp]: "x \<in> set (oks rs) \<longleftrightarrow> Inr x \<in> set rs"
  by (induction rs rule: oks.induct) auto

section \<open>Bytes of a word\<close>

text \<open>\<open>le_bytes n w\<close> is the little-endian representation in \<open>n\<close> bytes, \<open>le_word bs\<close> reads one
  back: \<open>to_le_bytes\<close> and \<open>from_le_bytes\<close> of the integer types.\<close>

primrec le_bytes :: "nat \<Rightarrow> 'a::len word \<Rightarrow> bytes" where
  "le_bytes 0 w = []"
| "le_bytes (Suc n) w = ucast w # le_bytes n (drop_bit 8 w)"

primrec le_word :: "bytes \<Rightarrow> 'a::len word" where
  "le_word [] = 0"
| "le_word (b # bs) = ucast b OR push_bit 8 (le_word bs)"

definition be_bytes :: "nat \<Rightarrow> 'a::len word \<Rightarrow> bytes" where
  "be_bytes n w = rev (le_bytes n w)"

definition be_word :: "bytes \<Rightarrow> 'a::len word" where
  "be_word bs = le_word (rev bs)"

lemma length_le_bytes [simp]: "length (le_bytes n w) = n"
  by (induction n arbitrary: w) auto

lemma length_be_bytes [simp]: "length (be_bytes n w) = n"
  by (simp add: be_bytes_def)

lemma le_bytes_eq_Nil [simp]: "le_bytes n w = [] \<longleftrightarrow> n = 0"
  by (cases n) auto

lemma le_bytes_numeral:
  "le_bytes (numeral k) w = ucast w # le_bytes (pred_numeral k) (drop_bit 8 w)"
  by (simp add: numeral_eq_Suc)

lemma bit_le_word:
  "bit (le_word bs :: 'a::len word) k \<longleftrightarrow>
     k < LENGTH('a) \<and> k < 8 * length bs \<and> bit (bs ! (k div 8)) (k mod 8)"
proof (induction bs arbitrary: k)
  case Nil
  then show ?case by simp
next
  case (Cons b bs)
  show ?case
  proof (cases "k < 8")
    case True
    then show ?thesis
      by (auto simp: bit_or_iff bit_push_bit_iff bit_unsigned_iff dest: bit_imp_le_length)
  next
    case False
    then have "k div 8 = Suc ((k - 8) div 8)" and "(k - 8) mod 8 = k mod 8"
      by (simp_all add: le_div_geq le_mod_geq)
    moreover have "\<not> bit b k"
      using False by (auto dest: bit_imp_le_length)
    ultimately show ?thesis
      using False Cons.IH [of "k - 8"]
      by (auto simp: bit_or_iff bit_push_bit_iff bit_unsigned_iff)
  qed
qed

lemma nth_le_bytes: "i < n \<Longrightarrow> le_bytes n w ! i = ucast (drop_bit (8 * i) w)"
proof (induction n arbitrary: i w)
  case 0
  then show ?case by simp
next
  case (Suc n)
  then show ?case
    by (cases i) (simp_all add: add.commute)
qed

lemma le_word_le_bytes:
  assumes "LENGTH('a::len) \<le> 8 * n"
  shows "le_word (le_bytes n w) = (w :: 'a word)"
proof (rule bit_word_eqI)
  fix k assume k: "k < LENGTH('a)"
  with assms have "k div 8 < n" by simp
  then show "bit (le_word (le_bytes n w) :: 'a word) k \<longleftrightarrow> bit w k"
    using k assms
    by (simp add: bit_le_word nth_le_bytes bit_unsigned_iff bit_drop_bit_eq)
qed

lemma le_bytes_le_word:
  assumes "8 * length bs \<le> LENGTH('a::len)"
  shows "le_bytes (length bs) (le_word bs :: 'a word) = bs"
proof (rule nth_equalityI)
  fix i assume i: "i < length (le_bytes (length bs) (le_word bs :: 'a word))"
  then have "8 * i + k < 8 * length bs" if "k < 8" for k
    using that by simp
  then show "le_bytes (length bs) (le_word bs :: 'a word) ! i = bs ! i"
    using i assms
    by (auto intro!: bit_word_eqI
        simp: nth_le_bytes bit_unsigned_iff bit_drop_bit_eq bit_le_word order_less_le_trans)
qed simp

lemma le_bytes_inject:
  assumes "LENGTH('a::len) \<le> 8 * n"
  shows "le_bytes n v = le_bytes n (w :: 'a word) \<longleftrightarrow> v = w"
  by (metis assms le_word_le_bytes)

lemma be_word_be_bytes:
  "LENGTH('a::len) \<le> 8 * n \<Longrightarrow> be_word (be_bytes n w) = (w :: 'a word)"
  by (simp add: be_word_def be_bytes_def le_word_le_bytes)

lemma be_bytes_be_word:
  "8 * length bs \<le> LENGTH('a::len) \<Longrightarrow> be_bytes (length bs) (be_word bs :: 'a word) = bs"
  using le_bytes_le_word [of "rev bs", where 'a = 'a] by (simp add: be_word_def be_bytes_def)

lemma unat_less_256 [simp]: "unat (b :: u8) < 256"
  using unsigned_less [of b] by simp

lemma unat_less_65536 [simp]: "unat (w :: u16) < 65536"
  using unsigned_less [of w] by simp

lemma unat_less_u32 [simp]: "unat (w :: u32) < 4294967296"
  using unsigned_less [of w] by simp

lemma unat_le_max [simp]:
  "unat (b :: u8) \<le> 255" "unat (h :: u16) \<le> 65535" "unat (w :: u32) \<le> 4294967295"
  using unat_less_256 [of b] unat_less_65536 [of h] unat_less_u32 [of w] by linarith+

lemma unat_of_nat_bounded:
  "n < 2 ^ LENGTH('a::len) \<Longrightarrow> unat (word_of_nat n :: 'a word) = n"
  by (simp add: unat_of_nat take_bit_nat_eq_self)

lemma unat_plus_one: "(w :: 'a::len word) \<noteq> - 1 \<Longrightarrow> unat (w + 1) = unat w + 1"
  using unatSuc [of w] by (metis Suc_eq_plus1 add.commute add_eq_0_iff)

text \<open>Decimal digits in ASCII.\<close>

fun decimal :: "nat \<Rightarrow> rstring" where
  "decimal n = (if n < 10 then [word_of_nat (n + 48)] else decimal (n div 10) @ [word_of_nat (n mod 10 + 48)])"

declare decimal.simps [simp del]

end
