(* ===== verification/Codec.thy ===== *)
theory Codec
  imports Maho_Prelude
begin

unbundle bit_operations_syntax

text \<open>
  The wire codec layer of \<open>maho-proto\<close>: \<open>error.rs\<close> (the error enum), \<open>codec.rs\<close> (the
  \<open>Decoder\<close> cursor, its readers and the \<open>push_*\<close> writers) and the \<open>WireCodec\<close> trait of
  \<open>lib.rs\<close>, which becomes the locale \<open>wire_codec\<close>.

  The decoder keeps the source's two fields, the whole input and an offset. Its readers are
  chained by \<open>dbind\<close>, the \<open>?\<close> operator over the mutable cursor. The lemmas of the second half
  show that a decoder built from these readers sees nothing of its state but the bytes that
  remain (\<open>slice_local\<close>), never moves its offset out of the input, and give for every reader
  the equation and the inversion rule over that remaining slice (\<open>view\<close>) from which the round
  trips of all messages follow by simplification.
\<close>

section \<open>Errors\<close>

datatype codec_error =
    Truncated string usize usize
  | InvalidMagic u16
  | UnknownPacketType u8
  | UnsupportedVersion u8
  | UnknownInputEventType u8
  | UnknownControlMessageType u8
  | UnknownPairingRejectReason u8
  | UnknownStreamConfigurationErrorCode u8
  | UnknownClipboardDirection u8
  | UnknownClipboardOrigin u8
  | UnknownColorRange u8
  | UnknownColorMatrix u8
  | UnknownChromaSubsampling u8
  | InvalidUtf8 string
  | InvalidLength string usize usize
  | LengthLimit string usize usize
  | InvalidValue string u64
  | TrailingBytes string usize
  | InvalidFrameLength u32
  | UnknownRelayChannel u8

section \<open>UTF-8 validity, as \<open>std::str::from_utf8\<close> decides it\<close>

definition utf8_cont :: "u8 \<Rightarrow> bool" where
  "utf8_cont b \<longleftrightarrow> 0x80 \<le> b \<and> b \<le> 0xBF"

text \<open>The well-formed byte sequences of the Unicode standard (table 3-7): one to four bytes
  with the ranges that exclude overlong forms, surrogates and values above 10FFFF.\<close>

fun utf8_valid :: "bytes \<Rightarrow> bool" where
  "utf8_valid [] = True"
| "utf8_valid (b # bs) =
     (if b < 0x80 then utf8_valid bs
      else if 0xC2 \<le> b \<and> b \<le> 0xDF then
        (case bs of c1 # r \<Rightarrow> utf8_cont c1 \<and> utf8_valid r | _ \<Rightarrow> False)
      else if b = 0xE0 then
        (case bs of c1 # c2 # r \<Rightarrow> 0xA0 \<le> c1 \<and> c1 \<le> 0xBF \<and> utf8_cont c2 \<and> utf8_valid r | _ \<Rightarrow> False)
      else if b = 0xED then
        (case bs of c1 # c2 # r \<Rightarrow> 0x80 \<le> c1 \<and> c1 \<le> 0x9F \<and> utf8_cont c2 \<and> utf8_valid r | _ \<Rightarrow> False)
      else if 0xE1 \<le> b \<and> b \<le> 0xEF then
        (case bs of c1 # c2 # r \<Rightarrow> utf8_cont c1 \<and> utf8_cont c2 \<and> utf8_valid r | _ \<Rightarrow> False)
      else if b = 0xF0 then
        (case bs of c1 # c2 # c3 # r \<Rightarrow>
           0x90 \<le> c1 \<and> c1 \<le> 0xBF \<and> utf8_cont c2 \<and> utf8_cont c3 \<and> utf8_valid r | _ \<Rightarrow> False)
      else if 0xF1 \<le> b \<and> b \<le> 0xF3 then
        (case bs of c1 # c2 # c3 # r \<Rightarrow>
           utf8_cont c1 \<and> utf8_cont c2 \<and> utf8_cont c3 \<and> utf8_valid r | _ \<Rightarrow> False)
      else if b = 0xF4 then
        (case bs of c1 # c2 # c3 # r \<Rightarrow>
           0x80 \<le> c1 \<and> c1 \<le> 0x8F \<and> utf8_cont c2 \<and> utf8_cont c3 \<and> utf8_valid r | _ \<Rightarrow> False)
      else False)"

section \<open>The decoder\<close>

record decoder =
  dec_input :: bytes
  dec_offset :: usize

type_synonym 'a decode = "decoder \<Rightarrow> codec_error + 'a \<times> decoder"

definition decoder_new :: "bytes \<Rightarrow> decoder" where
  "decoder_new input = \<lparr>dec_input = input, dec_offset = 0\<rparr>"

definition dec_remaining :: "decoder \<Rightarrow> usize" where
  "dec_remaining d = length (dec_input d) - dec_offset d"

definition dec_finish :: "string \<Rightarrow> unit decode" where
  "dec_finish field d =
     (if dec_remaining d = 0 then Inr ((), d) else Inl (TrailingBytes field (dec_remaining d)))"

definition dec_take :: "usize \<Rightarrow> string \<Rightarrow> bytes decode" where
  "dec_take len field d =
     (if dec_remaining d < len then Inl (Truncated field len (dec_remaining d))
      else let start = dec_offset d; d' = d\<lparr>dec_offset := dec_offset d + len\<rparr>
           in Inr (take (dec_offset d' - start) (drop start (dec_input d)), d'))"

definition dec_take_remaining :: "bytes decode" where
  "dec_take_remaining d =
     Inr (drop (dec_offset d) (dec_input d), d\<lparr>dec_offset := length (dec_input d)\<rparr>)"

text \<open>Sequencing over the cursor with early return, a value, an error, and a fallible
  conversion (\<open>T::try_from(..)?\<close>) that does not touch the cursor.\<close>

definition dbind :: "'a decode \<Rightarrow> ('a \<Rightarrow> 'b decode) \<Rightarrow> 'b decode" where
  "dbind m f d = (case m d of Inl e \<Rightarrow> Inl e | Inr (x, d') \<Rightarrow> f x d')"

definition dret :: "'a \<Rightarrow> 'a decode" where
  "dret x d = Inr (x, d)"

definition derr :: "codec_error \<Rightarrow> 'a decode" where
  "derr e d = Inl e"

definition dlift :: "codec_error + 'a \<Rightarrow> 'a decode" where
  "dlift r d = (case r of Inl e \<Rightarrow> Inl e | Inr x \<Rightarrow> Inr (x, d))"

definition dec_u8 :: "string \<Rightarrow> u8 decode" where
  "dec_u8 field = dbind (dec_take 1 field) (\<lambda>bytes. dret (bytes ! 0))"

definition dec_u16 :: "string \<Rightarrow> u16 decode" where
  "dec_u16 field = dbind (dec_take 2 field) (\<lambda>bytes. dret (le_word [bytes ! 0, bytes ! 1]))"

definition dec_u32 :: "string \<Rightarrow> u32 decode" where
  "dec_u32 field = dbind (dec_take 4 field)
     (\<lambda>bytes. dret (le_word [bytes ! 0, bytes ! 1, bytes ! 2, bytes ! 3]))"

definition dec_i32 :: "string \<Rightarrow> i32 decode" where
  "dec_i32 field = dbind (dec_take 4 field)
     (\<lambda>bytes. dret (le_word [bytes ! 0, bytes ! 1, bytes ! 2, bytes ! 3]))"

definition dec_u64 :: "string \<Rightarrow> u64 decode" where
  "dec_u64 field = dbind (dec_take 8 field)
     (\<lambda>bytes. dret (le_word [bytes ! 0, bytes ! 1, bytes ! 2, bytes ! 3,
                              bytes ! 4, bytes ! 5, bytes ! 6, bytes ! 7]))"

definition dec_f32 :: "string \<Rightarrow> f32 decode" where
  "dec_f32 field = dbind (dec_u32 field) (\<lambda>bits. dret bits)"

definition dec_utf8 :: "usize \<Rightarrow> string \<Rightarrow> rstring decode" where
  "dec_utf8 len field = dbind (dec_take len field)
     (\<lambda>bytes. if utf8_valid bytes then dret bytes else derr (InvalidUtf8 field))"

text \<open>\<open>decoder.remaining()\<close> read in the middle of a decode, and the loop
  \<open>for _ in 0..count { values.push(..?) }\<close>.\<close>

definition dec_get_remaining :: "usize decode" where
  "dec_get_remaining d = Inr (dec_remaining d, d)"

primrec dec_repeat :: "nat \<Rightarrow> 'a decode \<Rightarrow> 'a list decode" where
  "dec_repeat 0 m = dret []"
| "dec_repeat (Suc n) m = dbind m (\<lambda>x. dbind (dec_repeat n m) (\<lambda>xs. dret (x # xs)))"

text \<open>A complete decode: \<open>Decoder::new\<close> on the input, then the body.\<close>

definition run_decoder :: "'a decode \<Rightarrow> bytes \<Rightarrow> codec_error + 'a" where
  "run_decoder m input = map_sum id fst (m (decoder_new input))"

section \<open>Writers and length checks\<close>

definition checked_bytes :: "rstring \<Rightarrow> string \<Rightarrow> usize \<Rightarrow> codec_error + bytes" where
  "checked_bytes val field limit =
     (if length val > limit then Inl (LengthLimit field (length val) limit) else Inr val)"

definition push :: "bytes \<Rightarrow> u8 \<Rightarrow> bytes" where
  "push output val = output @ [val]"

definition extend_from_slice :: "bytes \<Rightarrow> bytes \<Rightarrow> bytes" where
  "extend_from_slice output bs = output @ bs"

definition push_u16 :: "bytes \<Rightarrow> u16 \<Rightarrow> bytes" where
  "push_u16 output val = output @ le_bytes 2 val"

definition push_u32 :: "bytes \<Rightarrow> u32 \<Rightarrow> bytes" where
  "push_u32 output val = output @ le_bytes 4 val"

definition push_i32 :: "bytes \<Rightarrow> i32 \<Rightarrow> bytes" where
  "push_i32 output val = output @ le_bytes 4 val"

definition push_u64 :: "bytes \<Rightarrow> u64 \<Rightarrow> bytes" where
  "push_u64 output val = output @ le_bytes 8 val"

definition push_f32 :: "bytes \<Rightarrow> f32 \<Rightarrow> bytes" where
  "push_f32 output val = push_u32 output val"

definition usize_to_u8 :: "usize \<Rightarrow> string \<Rightarrow> codec_error + u8" where
  "usize_to_u8 val field =
     (if val < 2 ^ 8 then Inr (word_of_nat val) else Inl (LengthLimit field val (2 ^ 8 - 1)))"

definition usize_to_u16 :: "usize \<Rightarrow> string \<Rightarrow> codec_error + u16" where
  "usize_to_u16 val field =
     (if val < 2 ^ 16 then Inr (word_of_nat val) else Inl (LengthLimit field val (2 ^ 16 - 1)))"

definition usize_to_u32 :: "usize \<Rightarrow> string \<Rightarrow> codec_error + u32" where
  "usize_to_u32 val field =
     (if val < 2 ^ 32 then Inr (word_of_nat val) else Inl (LengthLimit field val (2 ^ 32 - 1)))"

text \<open>A loop \<open>for x in &xs\<close> that appends to the output and may return an error.\<close>

primrec for_each :: "('a \<Rightarrow> bytes \<Rightarrow> codec_error + bytes) \<Rightarrow> 'a list \<Rightarrow> bytes \<Rightarrow> codec_error + bytes" where
  "for_each body [] output = Inr output"
| "for_each body (x # xs) output = try_bind (body x output) (for_each body xs)"

text \<open>\<open>bool as u8\<close>.\<close>

definition bool_u8 :: "bool \<Rightarrow> u8" where
  "bool_u8 b = (if b then 1 else 0)"

lemmas push_defs =
  push_def extend_from_slice_def push_u16_def push_u32_def push_i32_def push_u64_def push_f32_def

declare push_defs [codec_defs]

section \<open>Decoders see only the remaining slice\<close>

definition rest :: "decoder \<Rightarrow> bytes" where
  "rest d = drop (dec_offset d) (dec_input d)"

definition in_bounds :: "decoder \<Rightarrow> bool" where
  "in_bounds d \<longleftrightarrow> dec_offset d \<le> length (dec_input d)"

definition view :: "'a decode \<Rightarrow> bytes \<Rightarrow> codec_error + 'a \<times> bytes" where
  "view m bs = map_sum id (map_prod id rest) (m (decoder_new bs))"

text \<open>The contract of a decoder: from every state whose offset is inside the input it gives the
  result that \<open>view\<close> describes, leaves the input alone and keeps the offset inside.\<close>

definition slice_local :: "'a decode \<Rightarrow> bool" where
  "slice_local m \<longleftrightarrow> (\<forall>d. in_bounds d \<longrightarrow>
     map_sum id (map_prod id rest) (m d) = view m (rest d) \<and>
     (\<forall>x d'. m d = Inr (x, d') \<longrightarrow>
        in_bounds d' \<and> dec_input d' = dec_input d \<and> dec_offset d \<le> dec_offset d'))"

lemma rest_new [simp]: "rest (decoder_new bs) = bs"
  by (simp add: rest_def decoder_new_def)

lemma in_bounds_new [simp]: "in_bounds (decoder_new bs)"
  by (simp add: in_bounds_def decoder_new_def)

lemma length_rest: "length (rest d) = dec_remaining d"
  by (simp add: rest_def dec_remaining_def)

lemma slice_localD:
  assumes "slice_local m" and "in_bounds d"
  shows "map_sum id (map_prod id rest) (m d) = view m (rest d)"
    and "m d = Inr (x, d') \<Longrightarrow> in_bounds d'"
    and "m d = Inr (x, d') \<Longrightarrow> dec_input d' = dec_input d"
    and "m d = Inr (x, d') \<Longrightarrow> dec_offset d \<le> dec_offset d'"
  using assms unfolding slice_local_def by blast+

lemma view_take [dec_view]:
  "view (dec_take n f) bs =
     (if length bs < n then Inl (Truncated f n (length bs)) else Inr (take n bs, drop n bs))"
  by (simp add: view_def dec_take_def decoder_new_def dec_remaining_def rest_def)

lemma view_finish [dec_view]:
  "view (dec_finish f) bs =
     (if bs = [] then Inr ((), []) else Inl (TrailingBytes f (length bs)))"
  by (simp add: view_def dec_finish_def decoder_new_def dec_remaining_def rest_def)

lemma view_take_remaining [dec_view, dec_inv]: "view dec_take_remaining bs = Inr (bs, [])"
  by (simp add: view_def dec_take_remaining_def decoder_new_def rest_def)

lemma view_ret [dec_view, dec_inv]: "view (dret x) bs = Inr (x, bs)"
  by (simp add: view_def dret_def)

lemma view_err [dec_view, dec_inv]: "view (derr e) bs = Inl e"
  by (simp add: view_def derr_def)

lemma view_lift [dec_view]: "view (dlift r) bs = (case r of Inl e \<Rightarrow> Inl e | Inr x \<Rightarrow> Inr (x, bs))"
  by (cases r) (simp_all add: view_def dlift_def)

lemma view_if [dec_view, dec_inv]: "view (if c then m else n) bs = (if c then view m bs else view n bs)"
  by simp

lemma slice_local_take [dec_local]: "slice_local (dec_take n f)"
  by (auto simp: slice_local_def in_bounds_def view_take)
     (auto simp: dec_take_def rest_def dec_remaining_def in_bounds_def Let_def add.commute
       split: if_splits)

lemma slice_local_finish [dec_local]: "slice_local (dec_finish f)"
  by (auto simp: slice_local_def view_finish)
     (auto simp: dec_finish_def rest_def dec_remaining_def in_bounds_def split: if_splits)

lemma slice_local_take_remaining [dec_local]: "slice_local dec_take_remaining"
  by (auto simp: slice_local_def view_take_remaining dec_take_remaining_def in_bounds_def rest_def)

lemma slice_local_ret [dec_local]: "slice_local (dret x)"
  by (auto simp: slice_local_def view_ret dret_def)

lemma slice_local_err [dec_local]: "slice_local (derr e)"
  by (auto simp: slice_local_def view_err derr_def)

lemma slice_local_lift [dec_local]: "slice_local (dlift r)"
  by (cases r) (auto simp: slice_local_def view_lift dlift_def)

lemma view_bind [dec_view]:
  assumes "slice_local m" and "\<And>x. slice_local (f x)"
  shows "view (dbind m f) bs = (case view m bs of Inl e \<Rightarrow> Inl e | Inr (x, r) \<Rightarrow> view (f x) r)"
proof (cases "m (decoder_new bs)")
  case (Inl e)
  then show ?thesis by (simp add: view_def dbind_def)
next
  case (Inr p)
  obtain x d where p: "p = (x, d)" by (cases p)
  with Inr have "in_bounds d"
    using slice_localD(2) [OF assms(1) in_bounds_new] by blast
  from slice_localD(1) [OF assms(2) this] Inr p show ?thesis
    by (simp add: view_def [of "dbind m f"] view_def [of m] dbind_def)
qed

lemma slice_local_bind [dec_local]:
  assumes m: "slice_local m" and f: "\<And>x. slice_local (f x)"
  shows "slice_local (dbind m f)"
  unfolding slice_local_def
proof (intro allI impI)
  fix d assume d: "in_bounds d"
  note m' = slice_localD [OF m d]
  show "map_sum id (map_prod id rest) (dbind m f d) = view (dbind m f) (rest d) \<and>
    (\<forall>x d'. dbind m f d = Inr (x, d') \<longrightarrow>
       in_bounds d' \<and> dec_input d' = dec_input d \<and> dec_offset d \<le> dec_offset d')"
  proof (cases "m d")
    case (Inl e)
    with m'(1) have "view m (rest d) = Inl e" by simp
    with Inl show ?thesis by (simp add: view_bind m f dbind_def)
  next
    case (Inr p)
    obtain y e where p: "p = (y, e)" by (cases p)
    with Inr m'(1) have v: "view m (rest d) = Inr (y, rest e)" by (simp add: eq_commute)
    have e: "in_bounds e" "dec_input e = dec_input d" "dec_offset d \<le> dec_offset e"
      using Inr m'(2-4) [of y e] unfolding p by simp_all
    note fe = slice_localD [OF f e(1), of y]
    have run: "dbind m f d = f y e" by (simp add: dbind_def Inr p)
    have slice: "view (dbind m f) (rest d) = view (f y) (rest e)"
      by (simp add: view_bind m f v)
    have ok: "in_bounds d' \<and> dec_input d' = dec_input d \<and> dec_offset d \<le> dec_offset d'"
      if "f y e = Inr (x, d')" for x d'
      using fe(2-4) [OF that] e(2,3) by simp
    show ?thesis
      unfolding run slice using fe(1) ok by blast
  qed
qed

lemma slice_local_if [dec_local]:
  "slice_local m \<Longrightarrow> slice_local n \<Longrightarrow> slice_local (if c then m else n)"
  by simp

lemma view_bind_Inr [dec_inv]:
  "slice_local m \<Longrightarrow> (\<And>x. slice_local (f x)) \<Longrightarrow>
     view (dbind m f) bs = Inr (y, r) \<longleftrightarrow>
       (\<exists>x s. view m bs = Inr (x, s) \<and> view (f x) s = Inr (y, r))"
  by (auto simp: view_bind split: sum.splits)

lemma view_take_Inr [dec_inv]:
  "view (dec_take n f) bs = Inr (s, r) \<longleftrightarrow> bs = s @ r \<and> length s = n"
  by (auto simp: view_take)

lemma view_finish_Inr [dec_inv]: "view (dec_finish f) bs = Inr (u, r) \<longleftrightarrow> bs = [] \<and> r = []"
  by (auto simp: view_finish)

lemma view_lift_Inr [dec_inv]: "view (dlift q) bs = Inr (x, r) \<longleftrightarrow> q = Inr x \<and> r = bs"
  by (auto simp: view_lift split: sum.splits)

lemma view_take_append [dec_view]:
  "length s = n \<Longrightarrow> view (dec_take n f) (s @ r) = Inr (s, r)"
  "length s = n \<Longrightarrow> view (dec_take n f) s = Inr (s, [])"
  by (auto simp: view_take)

subsection \<open>Integers\<close>

lemma list_of_nths:
  "length xs = 1 \<Longrightarrow> [xs ! 0] = xs"
  "length xs = 2 \<Longrightarrow> [xs ! 0, xs ! 1] = xs"
  "length xs = 4 \<Longrightarrow> [xs ! 0, xs ! 1, xs ! 2, xs ! 3] = xs"
  "length xs = 8 \<Longrightarrow>
     [xs ! 0, xs ! 1, xs ! 2, xs ! 3, xs ! 4, xs ! 5, xs ! 6, xs ! 7] = xs"
  by (auto simp: numeral_eq_Suc length_Suc_conv)

lemma slice_local_readers [dec_local]:
  "slice_local (dec_u8 f)" "slice_local (dec_u16 f)" "slice_local (dec_u32 f)"
  "slice_local (dec_i32 f)" "slice_local (dec_u64 f)" "slice_local (dec_f32 f)"
  "slice_local (dec_utf8 n f)"
  by (simp_all add: dec_u8_def dec_u16_def dec_u32_def dec_i32_def dec_u64_def dec_f32_def
      dec_utf8_def dec_local)

text \<open>What a fixed-width reader does: take the bytes and convert them.\<close>

lemma view_read:
  "view (dbind (dec_take n f) (\<lambda>bs. dret (g bs))) bs =
     (if length bs < n then Inl (Truncated f n (length bs)) else Inr (g (take n bs), drop n bs))"
  by (simp add: dec_view dec_local)

lemma view_u8: "view (dec_u8 f) bs =
     (case bs of [] \<Rightarrow> Inl (Truncated f 1 0) | b # r \<Rightarrow> Inr (b, r))"
  by (cases bs) (simp_all add: dec_u8_def view_read)

lemma view_u16: "view (dec_u16 f) bs =
     (if length bs < 2 then Inl (Truncated f 2 (length bs)) else Inr (le_word (take 2 bs), drop 2 bs))"
  by (simp add: dec_u16_def view_read list_of_nths(2) del: nth_take le_word.simps One_nat_def)

lemma view_u32: "view (dec_u32 f) bs =
     (if length bs < 4 then Inl (Truncated f 4 (length bs)) else Inr (le_word (take 4 bs), drop 4 bs))"
  by (simp add: dec_u32_def view_read list_of_nths(3) del: nth_take le_word.simps One_nat_def)

lemma view_i32: "view (dec_i32 f) bs =
     (if length bs < 4 then Inl (Truncated f 4 (length bs)) else Inr (le_word (take 4 bs), drop 4 bs))"
  by (simp add: dec_i32_def view_read list_of_nths(3) del: nth_take le_word.simps One_nat_def)

lemma view_u64: "view (dec_u64 f) bs =
     (if length bs < 8 then Inl (Truncated f 8 (length bs)) else Inr (le_word (take 8 bs), drop 8 bs))"
  by (simp add: dec_u64_def view_read list_of_nths(4) del: nth_take le_word.simps One_nat_def)

lemma view_f32: "view (dec_f32 f) = view (dec_u32 f)"
proof
  fix bs
  show "view (dec_f32 f) bs = view (dec_u32 f) bs"
    by (simp add: dec_f32_def dec_view dec_local split: sum.split)
qed

text \<open>A word reader succeeds exactly on the bytes of a word.\<close>

lemma le_word_take_iff:
  assumes "LENGTH('a::len) = 8 * n"
  shows "n \<le> length bs \<and> (le_word (take n bs) :: 'a word) = w \<and> drop n bs = r \<longleftrightarrow>
    bs = le_bytes n w @ r"
proof
  assume *: "n \<le> length bs \<and> (le_word (take n bs) :: 'a word) = w \<and> drop n bs = r"
  then have "le_bytes n w = take n bs"
    using le_bytes_le_word [of "take n bs", where 'a = 'a] assms by (auto simp: min.absorb2)
  with * show "bs = le_bytes n w @ r"
    using append_take_drop_id by metis
next
  assume "bs = le_bytes n w @ r"
  then show "n \<le> length bs \<and> (le_word (take n bs) :: 'a word) = w \<and> drop n bs = r"
    using assms by (simp add: le_word_le_bytes)
qed

lemma view_u8_Inr [dec_inv]: "view (dec_u8 f) bs = Inr (b, r) \<longleftrightarrow> bs = b # r"
  by (auto simp: view_u8 split: list.splits)

lemma view_u16_Inr [dec_inv]: "view (dec_u16 f) bs = Inr (w, r) \<longleftrightarrow> bs = le_bytes 2 w @ r"
  using le_word_take_iff [of 2 bs w r] by (auto simp: view_u16)

lemma view_u32_Inr [dec_inv]: "view (dec_u32 f) bs = Inr (w, r) \<longleftrightarrow> bs = le_bytes 4 w @ r"
  using le_word_take_iff [of 4 bs w r] by (auto simp: view_u32)

lemma view_i32_Inr [dec_inv]: "view (dec_i32 f) bs = Inr (w, r) \<longleftrightarrow> bs = le_bytes 4 w @ r"
  using le_word_take_iff [of 4 bs w r] by (auto simp: view_i32)

lemma view_u64_Inr [dec_inv]: "view (dec_u64 f) bs = Inr (w, r) \<longleftrightarrow> bs = le_bytes 8 w @ r"
  using le_word_take_iff [of 8 bs w r] by (auto simp: view_u64)

lemma view_f32_Inr [dec_inv]: "view (dec_f32 f) bs = Inr (w, r) \<longleftrightarrow> bs = le_bytes 4 w @ r"
  by (simp add: view_f32 view_u32_Inr)

lemma view_utf8_Inr [dec_inv]:
  "view (dec_utf8 n f) bs = Inr (s, r) \<longleftrightarrow> bs = s @ r \<and> length s = n \<and> utf8_valid s"
  by (auto simp: dec_utf8_def dec_inv dec_local split: if_splits)

lemma le_bytes_eq [simp]:
  "le_bytes 2 v16 = le_bytes 2 (w16 :: u16) \<longleftrightarrow> v16 = w16"
  "le_bytes 4 v32 = le_bytes 4 (w32 :: u32) \<longleftrightarrow> v32 = w32"
  "le_bytes 8 v64 = le_bytes 8 (w64 :: u64) \<longleftrightarrow> v64 = w64"
  by (simp_all add: le_bytes_inject)

lemma view_words [dec_view]:
  "view (dec_u8 f) (b # r) = Inr (b, r)"
  "view (dec_u16 f) (le_bytes 2 w16 @ r) = Inr (w16, r)"
  "view (dec_u16 f) (le_bytes 2 w16) = Inr (w16, [])"
  "view (dec_u32 f) (le_bytes 4 w32 @ r) = Inr (w32, r)"
  "view (dec_u32 f) (le_bytes 4 w32) = Inr (w32, [])"
  "view (dec_i32 f) (le_bytes 4 i @ r) = Inr (i, r)"
  "view (dec_i32 f) (le_bytes 4 i) = Inr (i, [])"
  "view (dec_u64 f) (le_bytes 8 w64 @ r) = Inr (w64, r)"
  "view (dec_u64 f) (le_bytes 8 w64) = Inr (w64, [])"
  "view (dec_f32 f) (le_bytes 4 x @ r) = Inr (x, r)"
  "view (dec_f32 f) (le_bytes 4 x) = Inr (x, [])"
  by (simp_all add: dec_inv)

lemma view_utf8 [dec_view]:
  "length s = n \<Longrightarrow> utf8_valid s \<Longrightarrow> view (dec_utf8 n f) (s @ r) = Inr (s, r)"
  "length s = n \<Longrightarrow> utf8_valid s \<Longrightarrow> view (dec_utf8 n f) s = Inr (s, [])"
  by (simp_all add: dec_inv)

lemma view_get_remaining [dec_view, dec_inv]: "view dec_get_remaining bs = Inr (length bs, bs)"
  by (simp add: view_def dec_get_remaining_def dec_remaining_def decoder_new_def rest_def)

lemma slice_local_get_remaining [dec_local]: "slice_local dec_get_remaining"
  by (auto simp: slice_local_def view_get_remaining length_rest)
     (auto simp: dec_get_remaining_def)

lemma slice_local_repeat [dec_local]: "slice_local m \<Longrightarrow> slice_local (dec_repeat n m)"
  by (induction n) (simp_all add: dec_local)

text \<open>A loop over elements that are read from their own encodings reads the concatenation.\<close>

lemma view_repeat_Inr:
  assumes m: "slice_local m"
    and elem: "\<And>bs x r. view m bs = Inr (x, r) \<longleftrightarrow> ok x \<and> bs = e x @ r"
  shows "view (dec_repeat n m) bs = Inr (xs, r) \<longleftrightarrow>
    length xs = n \<and> list_all ok xs \<and> bs = concat (map e xs) @ r"
proof (induction n arbitrary: bs xs)
  case 0
  then show ?case by (auto simp: dec_view)
next
  case (Suc n)
  have "view (dec_repeat (Suc n) m) bs = Inr (xs, r) \<longleftrightarrow>
    (\<exists>x ys s. xs = x # ys \<and> view m bs = Inr (x, s) \<and> view (dec_repeat n m) s = Inr (ys, r))"
    by (auto simp: dec_inv dec_local m)
  then show ?case
    by (auto simp: Suc elem length_Suc_conv)
qed

lemma for_each_Inr:
  assumes "\<And>x out out'. body x out = Inr out' \<longleftrightarrow> ok x \<and> out' = out @ e x"
  shows "for_each body xs out = Inr out' \<longleftrightarrow> list_all ok xs \<and> out' = out @ concat (map e xs)"
  by (induction xs arbitrary: out) (auto simp: assms)

lemma run_decoder_view: "run_decoder m bs = map_sum id fst (view m bs)"
  by (cases "m (decoder_new bs)") (auto simp: run_decoder_def view_def)

lemma run_decoder_Inr [dec_inv]: "run_decoder m bs = Inr v \<longleftrightarrow> (\<exists>r. view m bs = Inr (v, r))"
  by (cases "view m bs") (auto simp: run_decoder_view)

lemma run_decoder_eq_InrI: "view m bs = Inr (v, r) \<Longrightarrow> run_decoder m bs = Inr v"
  by (auto simp: run_decoder_Inr)

lemma checked_bytes_Inr [simp]: "checked_bytes s f n = Inr bs \<longleftrightarrow> length s \<le> n \<and> bs = s"
  by (auto simp: checked_bytes_def)

lemma usize_to_Inr [simp]:
  "usize_to_u8 n f = Inr b \<longleftrightarrow> n < 2 ^ 8 \<and> b = word_of_nat n"
  "usize_to_u16 n f = Inr h \<longleftrightarrow> n < 2 ^ 16 \<and> h = word_of_nat n"
  "usize_to_u32 n f = Inr w \<longleftrightarrow> n < 2 ^ 32 \<and> w = word_of_nat n"
  by (auto simp: usize_to_u8_def usize_to_u16_def usize_to_u32_def)

lemma unat_word_of_nat [simp]:
  "n < 256 \<Longrightarrow> unat (word_of_nat n :: u8) = n"
  "n < 65536 \<Longrightarrow> unat (word_of_nat n :: u16) = n"
  "n < 4294967296 \<Longrightarrow> unat (word_of_nat n :: u32) = n"
  by (simp_all add: unat_of_nat_bounded)

lemma bool_u8_eq [simp]:
  "bool_u8 b = 0 \<longleftrightarrow> \<not> b" "bool_u8 b = 1 \<longleftrightarrow> b" "bool_u8 b = bool_u8 c \<longleftrightarrow> b = c"
  "bool_u8 False = 0" "bool_u8 True = 1"
  by (auto simp: bool_u8_def)

section \<open>The interface of a wire type\<close>

text \<open>
  The \<open>WireCodec\<close> trait: \<open>encode\<close> and \<open>decode\<close> of one wire type, with the type invariant of
  its Rust values (strings are UTF-8, arrays have their length). A provider promises that what
  it encodes decodes to the same value, and that what it decodes is a value of the type that it
  would encode.
\<close>

locale wire_codec =
  fixes encode :: "'a \<Rightarrow> codec_error + bytes"
    and decode :: "bytes \<Rightarrow> codec_error + 'a"
    and inv :: "'a \<Rightarrow> bool"
  assumes roundtrip: "inv v \<Longrightarrow> encode v = Inr bs \<Longrightarrow> decode bs = Inr v"
    and decode_inv: "decode bs = Inr v \<Longrightarrow> inv v"
    and decode_encodable: "decode bs = Inr v \<Longrightarrow> \<exists>bs'. encode v = Inr bs'"
begin

lemma encode_inject: "inv v \<Longrightarrow> inv w \<Longrightarrow> encode v = Inr bs \<Longrightarrow> encode w = Inr bs \<Longrightarrow> v = w"
  using roundtrip [of v bs] roundtrip [of w bs] by simp

lemma decode_normalises: "decode bs = Inr v \<Longrightarrow> \<exists>bs'. encode v = Inr bs' \<and> decode bs' = Inr v"
  using decode_encodable decode_inv roundtrip by blast

end

text \<open>A canonical wire type has one representation per value: decoding accepts nothing but the
  encoder's output.\<close>

locale canonical_codec = wire_codec +
  assumes canonical: "decode bs = Inr v \<Longrightarrow> encode v = Inr bs"
begin

lemma decode_iff: "decode bs = Inr v \<longleftrightarrow> inv v \<and> encode v = Inr bs"
  using canonical decode_inv roundtrip by blast

lemma decode_inject: "decode bs = Inr v \<Longrightarrow> decode cs = Inr v \<Longrightarrow> bs = cs"
  using canonical [of bs v] canonical [of cs v] by simp

end

end
