(* ===== verification/Packet.thy ===== *)
theory Packet
  imports Codec
begin

text \<open>
  The packet header of \<open>maho-proto/src/packet.rs\<close>: magic, packet type, sequence number,
  timestamp and flags in twelve bytes, in front of every datagram and every TCP payload.
\<close>

definition MAGIC :: u16 where
  "MAGIC = 0xec1d"

definition PROTOCOL_VERSION :: u8 where
  "PROTOCOL_VERSION = 3"

datatype packet_type =
    Handshake_Pkt
  | HandshakeAck_Pkt
  | FrameHeader_Pkt
  | FrameChunk_Pkt
  | CursorUpdate_Pkt
  | InputEvent_Pkt
  | Control_Pkt
  | Ping_Pkt
  | AudioFrame_Pkt
  | PairingRequest_Pkt
  | PairingGrant_Pkt
  | PairingReject_Pkt

text \<open>The discriminants (\<open>packet_type as u8\<close>) and \<open>TryFrom<u8>\<close>.\<close>

fun packet_type_u8 :: "packet_type \<Rightarrow> u8" where
  "packet_type_u8 Handshake_Pkt = 0"
| "packet_type_u8 HandshakeAck_Pkt = 1"
| "packet_type_u8 FrameHeader_Pkt = 2"
| "packet_type_u8 FrameChunk_Pkt = 3"
| "packet_type_u8 CursorUpdate_Pkt = 4"
| "packet_type_u8 InputEvent_Pkt = 5"
| "packet_type_u8 Control_Pkt = 6"
| "packet_type_u8 Ping_Pkt = 7"
| "packet_type_u8 AudioFrame_Pkt = 8"
| "packet_type_u8 PairingRequest_Pkt = 9"
| "packet_type_u8 PairingGrant_Pkt = 10"
| "packet_type_u8 PairingReject_Pkt = 11"

definition packet_type_ALL :: "packet_type list" where
  "packet_type_ALL =
     [Handshake_Pkt, HandshakeAck_Pkt, FrameHeader_Pkt, FrameChunk_Pkt, CursorUpdate_Pkt,
      InputEvent_Pkt, Control_Pkt, Ping_Pkt, AudioFrame_Pkt, PairingRequest_Pkt,
      PairingGrant_Pkt, PairingReject_Pkt]"

definition packet_type_try_from :: "u8 \<Rightarrow> codec_error + packet_type" where
  "packet_type_try_from val =
     (if val = 0 then Inr Handshake_Pkt
      else if val = 1 then Inr HandshakeAck_Pkt
      else if val = 2 then Inr FrameHeader_Pkt
      else if val = 3 then Inr FrameChunk_Pkt
      else if val = 4 then Inr CursorUpdate_Pkt
      else if val = 5 then Inr InputEvent_Pkt
      else if val = 6 then Inr Control_Pkt
      else if val = 7 then Inr Ping_Pkt
      else if val = 8 then Inr AudioFrame_Pkt
      else if val = 9 then Inr PairingRequest_Pkt
      else if val = 10 then Inr PairingGrant_Pkt
      else if val = 11 then Inr PairingReject_Pkt
      else Inl (UnknownPacketType val))"

record packet_header =
  ph_packet_type :: packet_type
  ph_sequence :: u32
  ph_timestamp_ms :: u32
  ph_flags :: u8

definition packet_header_new :: "packet_type \<Rightarrow> u32 \<Rightarrow> u32 \<Rightarrow> u8 \<Rightarrow> packet_header" where
  "packet_header_new ty sequence timestamp_ms flags =
     \<lparr>ph_packet_type = ty, ph_sequence = sequence, ph_timestamp_ms = timestamp_ms, ph_flags = flags\<rparr>"

definition packet_header_SIZE :: usize where
  "packet_header_SIZE = 12"

text \<open>\<open>to_bytes\<close> fills a zeroed array of \<open>SIZE\<close> bytes slice by slice.\<close>

definition copy_at :: "nat \<Rightarrow> bytes \<Rightarrow> bytes \<Rightarrow> bytes" where
  "copy_at i src output = take i output @ src @ drop (i + length src) output"

definition packet_header_to_bytes :: "packet_header \<Rightarrow> bytes" where
  "packet_header_to_bytes h =
     (let output = replicate packet_header_SIZE 0;
          output = copy_at 0 (le_bytes 2 MAGIC) output;
          output = output[2 := packet_type_u8 (ph_packet_type h)];
          output = copy_at 3 (le_bytes 4 (ph_sequence h)) output;
          output = copy_at 7 (le_bytes 4 (ph_timestamp_ms h)) output;
          output = output[11 := ph_flags h]
      in output)"

definition encode_packet_header :: "packet_header \<Rightarrow> codec_error + bytes" where
  "encode_packet_header h = Inr (packet_header_to_bytes h)"

definition decode_packet_header :: "bytes \<Rightarrow> codec_error + packet_header" where
  "decode_packet_header input = run_decoder (
     dbind (dec_u16 ''packet magic'') (\<lambda>magic.
     if magic \<noteq> MAGIC then derr (InvalidMagic magic)
     else
     dbind (dec_u8 ''packet type'') (\<lambda>val.
     dbind (dlift (packet_type_try_from val)) (\<lambda>packet_type.
     dbind (dec_u32 ''packet sequence'') (\<lambda>sequence.
     dbind (dec_u32 ''packet timestamp'') (\<lambda>timestamp_ms.
     dbind (dec_u8 ''packet flags'') (\<lambda>flags.
     dbind (dec_finish ''packet header'') (\<lambda>_.
     dret \<lparr>ph_packet_type = packet_type, ph_sequence = sequence,
           ph_timestamp_ms = timestamp_ms, ph_flags = flags\<rparr>)))))))) input"

section \<open>Lemmas\<close>

lemma packet_type_try_from_u8 [simp]: "packet_type_try_from (packet_type_u8 t) = Inr t"
  by (cases t) (simp_all add: packet_type_try_from_def)

lemma packet_type_try_from_Inr: "packet_type_try_from v = Inr t \<longleftrightarrow> v = packet_type_u8 t"
  by (cases t) (auto simp: packet_type_try_from_def split: if_splits)

lemma packet_type_u8_inject [simp]: "packet_type_u8 s = packet_type_u8 t \<longleftrightarrow> s = t"
  by (metis packet_type_try_from_u8 sum.inject(2))

text \<open>The array that \<open>to_bytes\<close> fills holds the five fields one after the other.\<close>

lemma packet_header_to_bytes_eq:
  "packet_header_to_bytes h =
     le_bytes 2 MAGIC @ [packet_type_u8 (ph_packet_type h)] @ le_bytes 4 (ph_sequence h) @
     le_bytes 4 (ph_timestamp_ms h) @ [ph_flags h]"
  by (simp add: packet_header_to_bytes_def Let_def copy_at_def packet_header_SIZE_def
      numeral_eq_Suc)

lemma length_packet_header_to_bytes [simp]: "length (packet_header_to_bytes h) = 12"
  by (simp add: packet_header_to_bytes_eq)

lemma decode_packet_header_Inr:
  "decode_packet_header bs = Inr h \<longleftrightarrow> bs = packet_header_to_bytes h"
proof
  assume "decode_packet_header bs = Inr h"
  then show "bs = packet_header_to_bytes h"
    by (auto simp: decode_packet_header_def dec_inv dec_local packet_header_to_bytes_eq
        packet_type_try_from_Inr split: if_splits)
next
  assume "bs = packet_header_to_bytes h"
  then show "decode_packet_header bs = Inr h"
    by (simp add: decode_packet_header_def packet_header_to_bytes_eq run_decoder_view dec_view
        dec_local)
qed

interpretation packet_header: canonical_codec encode_packet_header decode_packet_header "\<lambda>_. True"
  by unfold_locales (simp_all add: encode_packet_header_def decode_packet_header_Inr)

section \<open>Properties\<close>

text \<open>Packet headers: a datagram prefix decodes exactly when it is the 12-byte encoding of the
  header it decodes to, so the magic, every field and the absence of trailing bytes are checked.\<close>

theorem packet_header_decode_iff:
  "decode_packet_header bs = Inr h \<longleftrightarrow> encode_packet_header h = Inr bs \<and> length bs = packet_header_SIZE"
  using packet_header.decode_iff [of bs h]
  by (auto simp: encode_packet_header_def packet_header_SIZE_def)

end
