(* ===== verification/Framing.thy ===== *)
theory Framing
  imports Codec
begin

text \<open>
  TCP length-prefix framing, \<open>maho-proto/src/framing.rs\<close>: \<open>TcpFrameWriter::encode\<close> and the
  incremental \<open>TcpFrameReader\<close>, whose \<open>push\<close> keeps the source's loop over a buffer and an
  offset. The counters that exist under \<open>cfg(test)\<close> only are left out.

  \<open>parse_frames\<close> is the reference: it reads frames off the front of a byte list.
  \<open>tcp_reader_push_parse\<close> shows that the offset loop with its final compaction computes it. The
  locale \<open>byte_feed\<close> is the interface of a reader that is fed in pieces; its lemma
  \<open>feed_all_concat\<close> says that the pieces do not matter, and the reader is an instance.
\<close>

definition MAX_TCP_FRAME_SIZE :: usize where
  "MAX_TCP_FRAME_SIZE = 16 * 1024 * 1024"

definition tcp_frame_encode :: "bytes \<Rightarrow> codec_error + bytes" where
  "tcp_frame_encode payload =
     (if payload = [] \<or> length payload > MAX_TCP_FRAME_SIZE
      then Inl (InvalidFrameLength
             (if length payload < 2 ^ 32 then word_of_nat (length payload) else - 1))
      else try_bind (usize_to_u32 (length payload) ''TCP frame'') (\<lambda>len.
        let output = [];
            output = extend_from_slice output (le_bytes 4 len);
            output = extend_from_slice output payload
        in Inr output))"

datatype tcp_frame_event = Frame bytes | DroppedInvalidLength u32

record tcp_frame_reader =
  fr_buffer :: bytes

definition tcp_reader_new :: tcp_frame_reader where
  "tcp_reader_new = \<lparr>fr_buffer = []\<rparr>"

definition tcp_reader_buffered_len :: "tcp_frame_reader \<Rightarrow> usize" where
  "tcp_reader_buffered_len r = length (fr_buffer r)"

definition tcp_reader_clear :: "tcp_frame_reader \<Rightarrow> tcp_frame_reader" where
  "tcp_reader_clear r = r\<lparr>fr_buffer := []\<rparr>"

text \<open>The \<open>while\<close> loop of \<open>push\<close>: the events so far and \<open>Some\<close> of the offset where it stops, or
  \<open>None\<close> for the early return on an invalid length.\<close>

function push_loop ::
  "bytes \<Rightarrow> nat \<Rightarrow> tcp_frame_event list \<Rightarrow> tcp_frame_event list \<times> nat option" where
  "push_loop buffer offset events =
     (if length buffer - offset \<ge> 4 then
        let len = le_word [buffer ! offset, buffer ! (offset + 1),
                           buffer ! (offset + 2), buffer ! (offset + 3)] :: u32
        in if len = 0 \<or> unat len > MAX_TCP_FRAME_SIZE
           then (events @ [DroppedInvalidLength len], None)
           else let frame_end = 4 + unat len
             in if length buffer - offset < frame_end then (events, Some offset)
                else let payload = take (frame_end - 4) (drop (offset + 4) buffer)
                  in push_loop buffer (offset + frame_end) (events @ [Frame payload])
      else (events, Some offset))"
  by pat_completeness auto
termination
  by (relation "measure (\<lambda>(buffer, offset, events). length buffer - offset)") auto

declare push_loop.simps [simp del]

definition tcp_reader_push ::
  "tcp_frame_reader \<Rightarrow> bytes \<Rightarrow> tcp_frame_reader \<times> tcp_frame_event list" where
  "tcp_reader_push r input =
     (let buffer = fr_buffer r @ input
      in case push_loop buffer 0 [] of
           (events, None) \<Rightarrow> (r\<lparr>fr_buffer := []\<rparr>, events)
         | (events, Some offset) \<Rightarrow>
             (r\<lparr>fr_buffer := (if offset = length buffer then []
                              else if offset > 0 then drop offset buffer else buffer)\<rparr>, events))"

section \<open>A reader fed in pieces\<close>

primrec feed_all :: "('s \<Rightarrow> 'i list \<Rightarrow> 's \<times> 'e list) \<Rightarrow> 's \<Rightarrow> 'i list list \<Rightarrow> 's \<times> 'e list" where
  "feed_all feed s [] = (s, [])"
| "feed_all feed s (c # cs) =
     (let (s', es) = feed s c; (s'', es') = feed_all feed s' cs in (s'', es @ es'))"

locale byte_feed =
  fixes feed :: "'s \<Rightarrow> 'i list \<Rightarrow> 's \<times> 'e list"
    and idle :: "'s \<Rightarrow> bool"
    and fatal :: "'e \<Rightarrow> bool"
  assumes feed_nil: "idle s \<Longrightarrow> feed s [] = (s, [])"
    and feed_idle: "idle s \<Longrightarrow> idle (fst (feed s xs))"
    and feed_append: "feed s xs = (s', es) \<Longrightarrow> \<not> list_ex fatal es \<Longrightarrow>
      feed s (xs @ ys) = (fst (feed s' ys), es @ snd (feed s' ys))"
    and feed_fatal: "list_ex fatal (snd (feed s xs)) \<Longrightarrow> list_ex fatal (snd (feed s (xs @ ys)))"
begin

lemma feed_all_idle: "idle s \<Longrightarrow> idle (fst (feed_all feed s cs))"
proof (induction cs arbitrary: s)
  case Nil
  then show ?case by simp
next
  case (Cons c cs)
  then show ?case
    using feed_idle [of s c] by (simp add: Let_def case_prod_unfold)
qed

lemma feed_all_concat:
  "idle s \<Longrightarrow> \<not> list_ex fatal (snd (feed s (concat cs))) \<Longrightarrow> feed_all feed s cs = feed s (concat cs)"
proof (induction cs arbitrary: s)
  case Nil
  then show ?case by (simp add: feed_nil)
next
  case (Cons c cs)
  obtain s' es where c: "feed s c = (s', es)" by (cases "feed s c")
  have clean: "\<not> list_ex fatal es"
    using Cons.prems(2) feed_fatal [of s c "concat cs"] c by auto
  note split = feed_append [OF c clean, of "concat cs"]
  moreover have "idle s'" using feed_idle [OF Cons.prems(1), of c] c by simp
  moreover have "\<not> list_ex fatal (snd (feed s' (concat cs)))"
    using Cons.prems(2) split by simp
  ultimately show ?case
    using Cons.IH [of s'] by (simp add: c Let_def split: prod.split)
qed

end

section \<open>The reference parser\<close>

function parse_frames :: "bytes \<Rightarrow> tcp_frame_event list \<times> bytes option" where
  "parse_frames bs =
     (if length bs < 4 then ([], Some bs)
      else let len = le_word (take 4 bs) :: u32
        in if len = 0 \<or> unat len > MAX_TCP_FRAME_SIZE then ([DroppedInvalidLength len], None)
           else if length bs < 4 + unat len then ([], Some bs)
           else let (events, left) = parse_frames (drop (4 + unat len) bs)
             in (Frame (take (unat len) (drop 4 bs)) # events, left))"
  by pat_completeness auto
termination
  by (relation "measure length") auto

declare parse_frames.simps [simp del]

definition reader_idle :: "tcp_frame_reader \<Rightarrow> bool" where
  "reader_idle r \<longleftrightarrow> parse_frames (fr_buffer r) = ([], Some (fr_buffer r))"

fun is_dropped :: "tcp_frame_event \<Rightarrow> bool" where
  "is_dropped (DroppedInvalidLength _) = True"
| "is_dropped (Frame _) = False"

definition prepend :: "'e list \<Rightarrow> 'e list \<times> 'r \<Rightarrow> 'e list \<times> 'r" where
  "prepend es p = (es @ fst p, snd p)"

lemma prepend_simps [simp]:
  "prepend [] p = p" "fst (prepend es p) = es @ fst p" "snd (prepend es p) = snd p"
  "prepend es (prepend es' p) = prepend (es @ es') p"
  "prepend es (es', r) = (es @ es', r)"
  by (simp_all add: prepend_def)

lemma prepend_eq [simp]: "prepend es p = (es', r) \<longleftrightarrow> es' = es @ fst p \<and> r = snd p"
  by (auto simp: prepend_def)

lemma parse_frames_short: "length bs < 4 \<Longrightarrow> parse_frames bs = ([], Some bs)"
  by (subst parse_frames.simps) simp

text \<open>One step of the parser on a buffer that holds a whole length prefix.\<close>

lemma parse_frames_step:
  "parse_frames (le_bytes 4 (len :: u32) @ bs) =
     (if len = 0 \<or> unat len > MAX_TCP_FRAME_SIZE then ([DroppedInvalidLength len], None)
      else if length bs < unat len then ([], Some (le_bytes 4 len @ bs))
      else prepend [Frame (take (unat len) bs)] (parse_frames (drop (unat len) bs)))"
  by (subst parse_frames.simps) (auto simp: Let_def le_word_le_bytes prepend_def split: prod.split)

lemma long_buffer_cases:
  assumes "4 \<le> length bs"
  obtains len :: u32 and cs where "bs = le_bytes 4 len @ cs"
  using le_word_take_iff [of 4 bs "le_word (take 4 bs) :: u32" "drop 4 bs"] assms by auto

lemma parse_frames_induct [case_names short long]:
  assumes short: "\<And>bs. length bs < 4 \<Longrightarrow> P bs"
    and long: "\<And>(len :: u32) bs.
      (len \<noteq> 0 \<Longrightarrow> unat len \<le> MAX_TCP_FRAME_SIZE \<Longrightarrow> unat len \<le> length bs \<Longrightarrow>
         P (drop (unat len) bs)) \<Longrightarrow> P (le_bytes 4 len @ bs)"
  shows "P bs"
proof (induction bs rule: length_induct)
  case (1 bs)
  show ?case
  proof (cases "length bs < 4")
    case True
    then show ?thesis by (rule short)
  next
    case False
    then obtain len :: u32 and cs where bs: "bs = le_bytes 4 len @ cs"
      using long_buffer_cases [of bs] by auto
    show ?thesis
      unfolding bs using 1 by (intro long) (simp add: bs)
  qed
qed

text \<open>More input extends the result of a parse; after an invalid length it changes nothing.\<close>

lemma parse_frames_append:
  "parse_frames (bs @ cs) =
     (case parse_frames bs of
        (events, None) \<Rightarrow> (events, None)
      | (events, Some left) \<Rightarrow> prepend events (parse_frames (left @ cs)))"
proof (induction bs rule: parse_frames_induct)
  case (short bs)
  then show ?case by (simp add: parse_frames_short)
next
  case (long len bs)
  show ?case
  proof (cases "len = 0 \<or> unat len > MAX_TCP_FRAME_SIZE \<or> length bs < unat len")
    case True
    then show ?thesis
      by (auto simp: parse_frames_step)
  next
    case False
    then show ?thesis
      using long.IH
      by (cases "parse_frames (drop (unat len) bs)")
         (auto simp: parse_frames_step split: option.splits)
  qed
qed

lemma parse_frames_left_idle:
  "parse_frames bs = (events, Some left) \<Longrightarrow> parse_frames left = ([], Some left)"
proof (induction bs arbitrary: events rule: parse_frames_induct)
  case (short bs)
  then show ?case by (simp add: parse_frames_short)
next
  case (long len bs)
  then show ?case
    by (cases "parse_frames (drop (unat len) bs)") (auto simp: parse_frames_step split: if_splits)
qed

lemma parse_frames_suffix:
  "parse_frames bs = (events, Some left) \<Longrightarrow> \<exists>k. k \<le> length bs \<and> left = drop k bs"
proof (induction bs arbitrary: events rule: parse_frames_induct)
  case (short bs)
  then show ?case by (auto simp: parse_frames_short intro: exI [of _ 0])
next
  case (long len bs)
  show ?case
  proof (cases "length bs < unat len")
    case True
    with long.prems show ?thesis
      by (auto simp: parse_frames_step intro: exI [of _ 0] split: if_splits)
  next
    case False
    with long.prems obtain a where "len \<noteq> 0" "unat len \<le> MAX_TCP_FRAME_SIZE"
      "parse_frames (drop (unat len) bs) = (a, Some left)"
      by (cases "parse_frames (drop (unat len) bs)") (auto simp: parse_frames_step split: if_splits)
    with long.IH [of a] False obtain k where "k \<le> length bs - unat len" "left = drop (k + unat len) bs"
      by auto
    then show ?thesis
      using False by (intro exI [of _ "4 + (k + unat len)"]) simp
  qed
qed

lemma parse_frames_dropped:
  "list_ex is_dropped (fst (parse_frames bs)) \<longleftrightarrow> snd (parse_frames bs) = None"
proof (induction bs rule: parse_frames_induct)
  case (short bs)
  then show ?case by (simp add: parse_frames_short)
next
  case (long len bs)
  then show ?case by (auto simp: parse_frames_step)
qed

lemma parse_frames_last_dropped:
  "DroppedInvalidLength len \<in> set (fst (parse_frames bs)) \<Longrightarrow>
     snd (parse_frames bs) = None \<and> last (fst (parse_frames bs)) = DroppedInvalidLength len \<and>
     list_all (\<lambda>e. \<not> is_dropped e) (butlast (fst (parse_frames bs))) \<and>
     (len = 0 \<or> unat len > MAX_TCP_FRAME_SIZE)"
proof (induction bs rule: parse_frames_induct)
  case (short bs)
  then show ?case by (simp add: parse_frames_short)
next
  case (long n bs)
  then show ?case
    by (auto simp: parse_frames_step split: if_splits)
qed

lemma parse_frames_sizes:
  "Frame p \<in> set (fst (parse_frames bs)) \<Longrightarrow> 0 < length p \<and> length p \<le> MAX_TCP_FRAME_SIZE"
proof (induction bs rule: parse_frames_induct)
  case (short bs)
  then show ?case by (simp add: parse_frames_short)
next
  case (long len bs)
  then show ?case
    by (auto simp: parse_frames_step unat_eq_zero split: if_splits)
qed

lemma idle_buffer_bound:
  assumes "parse_frames bs = ([], Some bs)"
  shows "length bs < 4 + MAX_TCP_FRAME_SIZE"
proof (cases "length bs < 4")
  case False
  then obtain len :: u32 and cs where bs: "bs = le_bytes 4 len @ cs"
    using long_buffer_cases [of bs] by auto
  with assms show ?thesis
    by (auto simp: parse_frames_step split: if_splits)
qed simp

section \<open>The reader implements the parser\<close>

lemma push_loop_step:
  assumes bs: "drop offset buffer = le_bytes 4 (len :: u32) @ bs"
  shows "push_loop buffer offset events =
    (if len = 0 \<or> unat len > MAX_TCP_FRAME_SIZE then (events @ [DroppedInvalidLength len], None)
     else if length bs < unat len then (events, Some offset)
     else push_loop buffer (offset + (4 + unat len)) (events @ [Frame (take (unat len) bs)]))"
proof -
  have left: "length buffer - offset = 4 + length bs" "drop (offset + 4) buffer = bs"
    using arg_cong [OF bs, of length] arg_cong [OF bs, of "drop 4"] by (simp_all add: add.commute)
  then have "[buffer ! offset, buffer ! (offset + 1), buffer ! (offset + 2),
      buffer ! (offset + 3)] = take 4 (drop offset buffer)"
    using list_of_nths(3) [of "take 4 (drop offset buffer)"] by simp
  then have len: "le_word [buffer ! offset, buffer ! (offset + 1), buffer ! (offset + 2),
      buffer ! (offset + 3)] = len"
    unfolding bs by (simp only:) (simp add: le_word_le_bytes)
  show ?thesis
    by (subst push_loop.simps) (simp only: len left Let_def, simp)
qed

lemma push_loop_parse:
  "offset \<le> length buffer \<Longrightarrow>
     push_loop buffer offset events =
       (events @ fst (parse_frames (drop offset buffer)),
        map_option (\<lambda>left. length buffer - length left) (snd (parse_frames (drop offset buffer))))"
proof (induction "length buffer - offset" arbitrary: offset events rule: less_induct)
  case less
  show ?case
  proof (cases "length (drop offset buffer) < 4")
    case True
    then show ?thesis
      using less.prems by (subst push_loop.simps) (simp add: parse_frames_short)
  next
    case False
    then obtain len :: u32 and bs where bs: "drop offset buffer = le_bytes 4 len @ bs"
      using long_buffer_cases [of "drop offset buffer"] by auto
    from arg_cong [OF bs, of length] have left: "length buffer - offset = 4 + length bs" by simp
    have next_drop: "drop (offset + (4 + unat len)) buffer = drop (unat len) bs"
      using arg_cong [OF bs, of "drop (4 + unat len)"] by (simp add: ac_simps)
    show ?thesis
    proof (cases "len = 0 \<or> unat len > MAX_TCP_FRAME_SIZE \<or> length bs < unat len")
      case True
      then show ?thesis
        using less.prems left by (auto simp: push_loop_step [OF bs] bs parse_frames_step)
    next
      case False
      then have "length buffer - (offset + (4 + unat len)) < length buffer - offset"
        and "offset + (4 + unat len) \<le> length buffer"
        using left less.prems by auto
      with False show ?thesis
        by (simp add: push_loop_step [OF bs] bs parse_frames_step less.hyps next_drop)
    qed
  qed
qed

theorem tcp_reader_push_parse:
  "tcp_reader_push r input =
     (let (events, left) = parse_frames (fr_buffer r @ input)
      in (r\<lparr>fr_buffer := (case left of None \<Rightarrow> [] | Some bs \<Rightarrow> bs)\<rparr>, events))"
proof -
  define buffer where "buffer = fr_buffer r @ input"
  obtain events left where p: "parse_frames buffer = (events, left)"
    by (cases "parse_frames buffer")
  show ?thesis
  proof (cases left)
    case None
    then show ?thesis
      by (simp add: tcp_reader_push_def push_loop_parse p buffer_def [symmetric])
  next
    case (Some bs)
    then obtain k where "k \<le> length buffer" and "bs = drop k buffer"
      using parse_frames_suffix p by blast
    then show ?thesis
      by (auto simp: tcp_reader_push_def push_loop_parse p Some buffer_def [symmetric] Let_def)
  qed
qed

lemma tcp_reader_push_idle: "reader_idle (fst (tcp_reader_push r input))"
  by (auto simp: reader_idle_def tcp_reader_push_parse Let_def parse_frames_short
      dest: parse_frames_left_idle split: prod.splits option.splits)

interpretation tcp_reader: byte_feed tcp_reader_push reader_idle is_dropped
proof
  show "tcp_reader_push s [] = (s, [])" if "reader_idle s" for s
    using that by (simp add: reader_idle_def tcp_reader_push_parse)
  show "reader_idle (fst (tcp_reader_push s xs))" for s xs
    by (rule tcp_reader_push_idle)
  show "tcp_reader_push s (xs @ ys) = (fst (tcp_reader_push s' ys), es @ snd (tcp_reader_push s' ys))"
    if "tcp_reader_push s xs = (s', es)" and "\<not> list_ex is_dropped es" for s xs s' es ys
    using that parse_frames_append [of "fr_buffer s @ xs" ys] parse_frames_dropped [of "fr_buffer s @ xs"]
    by (auto simp: tcp_reader_push_parse Let_def prepend_def split: prod.splits option.splits)
  show "list_ex is_dropped (snd (tcp_reader_push s (xs @ ys)))"
    if "list_ex is_dropped (snd (tcp_reader_push s xs))" for s xs ys
    using that parse_frames_append [of "fr_buffer s @ xs" ys]
    by (auto simp: tcp_reader_push_parse Let_def split: prod.splits option.splits)
qed

lemma reader_new_idle [simp]: "reader_idle tcp_reader_new"
  by (simp add: reader_idle_def tcp_reader_new_def parse_frames_short)

lemma tcp_frame_encode_Inr:
  "tcp_frame_encode p = Inr f \<longleftrightarrow>
     p \<noteq> [] \<and> length p \<le> MAX_TCP_FRAME_SIZE \<and> f = le_bytes 4 (word_of_nat (length p) :: u32) @ p"
  by (auto simp: tcp_frame_encode_def extend_from_slice_def MAX_TCP_FRAME_SIZE_def)

lemma parse_frames_encoded:
  "list_all2 (\<lambda>p f. tcp_frame_encode p = Inr f) ps fs \<Longrightarrow>
     parse_frames (concat fs) = (map Frame ps, Some [])"
proof (induction ps fs rule: list_all2_induct)
  case Nil
  then show ?case by (simp add: parse_frames_short)
next
  case (Cons p ps f fs)
  from Cons(1) have "0 < length p" and "length p < 4294967296" "length p \<le> MAX_TCP_FRAME_SIZE"
    by (simp_all add: tcp_frame_encode_Inr MAX_TCP_FRAME_SIZE_def)
  moreover from this have "(word_of_nat (length p) :: u32) \<noteq> 0"
    by (metis less_not_refl unat_0 unat_word_of_nat(3))
  ultimately show ?case
    using Cons by (simp add: tcp_frame_encode_Inr parse_frames_step)
qed

lemma not_dropped_map_Frame [simp]: "\<not> list_ex is_dropped (map Frame ps)"
  by (induction ps) auto

section \<open>Properties\<close>

text \<open>C34. Framing round trip over any segmentation: when the frames written for the payloads
  \<open>ps\<close> arrive as a byte stream cut into arbitrary pieces \<open>cs\<close> (a TCP receiver chooses none of
  the boundaries), a fresh reader delivers exactly the payloads, in order, and keeps nothing
  buffered.\<close>

theorem tcp_stream_roundtrip:
  assumes "list_all2 (\<lambda>p f. tcp_frame_encode p = Inr f) ps fs"
    and "concat cs = concat fs"
  shows "feed_all tcp_reader_push tcp_reader_new cs = (tcp_reader_new, map Frame ps)"
proof -
  have "tcp_reader_push tcp_reader_new (concat cs) = (tcp_reader_new, map Frame ps)"
    using parse_frames_encoded [OF assms(1)] assms(2)
    by (simp add: tcp_reader_push_parse tcp_reader_new_def)
  then show ?thesis
    using tcp_reader.feed_all_concat [of tcp_reader_new cs] by simp
qed

theorem tcp_stream_roundtrip_witness:
  "feed_all tcp_reader_push tcp_reader_new [[2, 0], [0, 0, 7], [8, 1, 0, 0, 0, 9]] =
     (tcp_reader_new, [Frame [7, 8], Frame [9]])"
proof -
  have enc: "tcp_frame_encode [7, 8] = Inr [2, 0, 0, 0, 7, 8]"
    "tcp_frame_encode [9] = Inr [1, 0, 0, 0, 9]"
    by (simp_all add: tcp_frame_encode_def extend_from_slice_def MAX_TCP_FRAME_SIZE_def
        usize_to_u32_def le_bytes_numeral)
  show ?thesis
    using tcp_stream_roundtrip [of "[[7, 8], [9]]" "[[2, 0, 0, 0, 7, 8], [1, 0, 0, 0, 9]]"
        "[[2, 0], [0, 0, 7], [8, 1, 0, 0, 0, 9]]"] enc
    by simp
qed

text \<open>C35. Segmentation independence of the reader from any idle state, also for a stream that
  ends in the middle of a frame: as long as the stream holds no invalid length prefix, feeding it
  piece by piece leaves the same reader and delivers the same events as feeding it at once.\<close>

theorem tcp_reader_segmentation:
  assumes "reader_idle r"
    and "\<not> list_ex is_dropped (snd (tcp_reader_push r (concat cs)))"
  shows "feed_all tcp_reader_push r cs = tcp_reader_push r (concat cs)"
  using assms by (rule tcp_reader.feed_all_concat)

theorem tcp_reader_segmentation_witness:
  "feed_all tcp_reader_push tcp_reader_new [[1, 0, 0], [0, 9, 3]] =
     tcp_reader_push tcp_reader_new (concat [[1, 0, 0], [0, 9, 3]])"
  by (rule tcp_reader_segmentation)
     (simp, simp add: tcp_reader_push_def tcp_reader_new_def push_loop.simps MAX_TCP_FRAME_SIZE_def)

text \<open>Memory bound: whatever bytes a peer sends and however they are cut, the reader never
  keeps \<open>4 + MAX_TCP_FRAME_SIZE\<close> bytes or more between two pushes, and every frame it delivers is
  non-empty and at most \<open>MAX_TCP_FRAME_SIZE\<close> long.\<close>

theorem tcp_reader_bounds:
  "tcp_reader_buffered_len (fst (feed_all tcp_reader_push tcp_reader_new cs))
     < 4 + MAX_TCP_FRAME_SIZE \<and>
   (Frame p \<in> set (snd (tcp_reader_push r input)) \<longrightarrow>
      0 < length p \<and> length p \<le> MAX_TCP_FRAME_SIZE)"
proof
  have "reader_idle (fst (feed_all tcp_reader_push tcp_reader_new cs))"
    by (rule tcp_reader.feed_all_idle) simp
  then show "tcp_reader_buffered_len (fst (feed_all tcp_reader_push tcp_reader_new cs))
      < 4 + MAX_TCP_FRAME_SIZE"
    unfolding reader_idle_def tcp_reader_buffered_len_def by (rule idle_buffer_bound)
  show "Frame p \<in> set (snd (tcp_reader_push r input)) \<longrightarrow>
      0 < length p \<and> length p \<le> MAX_TCP_FRAME_SIZE"
    using parse_frames_sizes [of p "fr_buffer r @ input"]
    by (auto simp: tcp_reader_push_parse Let_def split: prod.splits)
qed

theorem tcp_reader_bounds_witness:
  "tcp_reader_buffered_len (fst (feed_all tcp_reader_push tcp_reader_new [[9, 0, 0, 0, 1]])) = 5 \<and>
   5 < 4 + MAX_TCP_FRAME_SIZE \<and>
   Frame [9] \<in> set (snd (tcp_reader_push tcp_reader_new [1, 0, 0, 0, 9])) \<and>
   length [9 :: u8] \<le> MAX_TCP_FRAME_SIZE"
proof -
  have idle: "fst (feed_all tcp_reader_push tcp_reader_new [[9, 0, 0, 0, 1]]) =
      \<lparr>fr_buffer = [9, 0, 0, 0, 1]\<rparr>"
    by (simp add: tcp_reader_push_def tcp_reader_new_def push_loop.simps MAX_TCP_FRAME_SIZE_def)
  have frame: "Frame [9] \<in> set (snd (tcp_reader_push tcp_reader_new [1, 0, 0, 0, 9]))"
    by (simp add: tcp_reader_push_def tcp_reader_new_def push_loop.simps MAX_TCP_FRAME_SIZE_def)
  show ?thesis
    using tcp_reader_bounds [of "[[9, 0, 0, 0, 1]]" "[9]" tcp_reader_new "[1, 0, 0, 0, 9]"] idle frame
    by (simp add: tcp_reader_buffered_len_def)
qed

text \<open>C38. Recovery after a bad length prefix: a \<open>DroppedInvalidLength\<close> event carries a length of
  zero or above the maximum, is the last event of its push, and leaves the buffer empty.\<close>

theorem tcp_reader_dropped:
  assumes "tcp_reader_push r input = (r', events)"
    and "DroppedInvalidLength len \<in> set events"
  shows "fr_buffer r' = [] \<and> last events = DroppedInvalidLength len \<and>
    list_all (\<lambda>e. \<not> is_dropped e) (butlast events) \<and>
    (len = 0 \<or> unat len > MAX_TCP_FRAME_SIZE)"
  using assms parse_frames_last_dropped [of len "fr_buffer r @ input"]
  by (auto simp: tcp_reader_push_parse Let_def split: prod.splits)

theorem tcp_reader_dropped_witness:
  "tcp_reader_push tcp_reader_new [1, 0, 0, 0, 9, 0, 0, 0, 0, 5] =
     (tcp_reader_new, [Frame [9], DroppedInvalidLength 0]) \<and>
   last [Frame [9], DroppedInvalidLength 0] = DroppedInvalidLength 0"
proof -
  have push: "tcp_reader_push tcp_reader_new [1, 0, 0, 0, 9, 0, 0, 0, 0, 5] =
     (tcp_reader_new, [Frame [9], DroppedInvalidLength 0])"
    by (simp add: tcp_reader_push_def tcp_reader_new_def push_loop.simps MAX_TCP_FRAME_SIZE_def)
  show ?thesis
    using tcp_reader_dropped [OF push, of 0] push by simp
qed

end
