(* ===== verification/F32.thy ===== *)
theory F32
  imports Maho_Prelude
begin

unbundle bit_operations_syntax

text \<open>
  The operations on \<open>f32\<close> that the modelled code decides by, on IEEE-754 bit patterns: the
  comparisons (exact: they order finite values and infinities by sign and magnitude and are false
  on a NaN), \<open>is_finite\<close>, \<open>clamp\<close> and the saturating conversion \<open>as i16\<close>. Arithmetic that rounds
  is not modelled.
\<close>

definition f32_mag :: "f32 \<Rightarrow> nat" where
  "f32_mag x = unat x mod 2 ^ 31"

definition f32_neg :: "f32 \<Rightarrow> bool" where
  "f32_neg x \<longleftrightarrow> 2 ^ 31 \<le> unat x"

text \<open>The magnitude bits of infinity are \<open>0x7f800000\<close>; above them are the NaNs.\<close>

definition f32_is_nan :: "f32 \<Rightarrow> bool" where
  "f32_is_nan x \<longleftrightarrow> f32_mag x > 0x7f800000"

definition f32_is_finite :: "f32 \<Rightarrow> bool" where
  "f32_is_finite x \<longleftrightarrow> f32_mag x < 0x7f800000"

definition f32_key :: "f32 \<Rightarrow> int" where
  "f32_key x = (if f32_neg x then - int (f32_mag x) else int (f32_mag x))"

definition f32_lt :: "f32 \<Rightarrow> f32 \<Rightarrow> bool" where
  "f32_lt x y \<longleftrightarrow> \<not> f32_is_nan x \<and> \<not> f32_is_nan y \<and> f32_key x < f32_key y"

definition f32_le :: "f32 \<Rightarrow> f32 \<Rightarrow> bool" where
  "f32_le x y \<longleftrightarrow> \<not> f32_is_nan x \<and> \<not> f32_is_nan y \<and> f32_key x \<le> f32_key y"

definition f32_clamp :: "f32 \<Rightarrow> f32 \<Rightarrow> f32 \<Rightarrow> f32" where
  "f32_clamp x lo hi = (if f32_lt x lo then lo else if f32_lt hi x then hi else x)"

text \<open>Truncation towards zero: the significand shifted by the exponent.\<close>

definition f32_trunc :: "f32 \<Rightarrow> int" where
  "f32_trunc x =
     (let expo = f32_mag x div 2 ^ 23; frac = f32_mag x mod 2 ^ 23;
          sig = (if expo = 0 then frac else 2 ^ 23 + frac); e = max 1 expo;
          m = (if 150 \<le> e then sig * 2 ^ (e - 150) else sig div 2 ^ (150 - e))
      in if f32_neg x then - int m else int m)"

definition f32_to_i16 :: "f32 \<Rightarrow> int" where
  "f32_to_i16 x = (if f32_is_nan x then 0 else max (- 32768) (min 32767 (f32_trunc x)))"

abbreviation "f32_zero \<equiv> (0 :: f32)"
abbreviation "f32_one \<equiv> (0x3F800000 :: f32)"
abbreviation "f32_minus_one \<equiv> (0xBF800000 :: f32)"
abbreviation "f32_ninety \<equiv> (0x42B40000 :: f32)"
abbreviation "f32_minus_ninety \<equiv> (0xC2B40000 :: f32)"

lemmas f32_order_defs = f32_lt_def f32_le_def f32_key_def f32_neg_def f32_mag_def f32_is_nan_def

lemma f32_clamp_range:
  assumes "f32_le lo hi" and "\<not> f32_is_nan x"
  shows "f32_le lo (f32_clamp x lo hi)" and "f32_le (f32_clamp x lo hi) hi"
  using assms by (auto simp: f32_clamp_def f32_lt_def f32_le_def)

lemma f32_clamp_nan: "f32_is_nan x \<Longrightarrow> f32_clamp x lo hi = x"
  by (simp add: f32_clamp_def f32_lt_def)

lemma f32_le_consts [simp]: "f32_le f32_zero f32_one" "f32_le f32_minus_ninety f32_ninety"
  by (simp_all add: f32_order_defs)

lemma signed_magnitude_range: "m \<le> b \<Longrightarrow> (if neg then - int m else int m) \<in> {- int b..int b}"
  by auto

text \<open>A clamp to plus or minus ninety survives the conversion to an integer.\<close>

lemma f32_trunc_ninety:
  assumes "f32_mag x \<le> 0x42B40000"
  shows "f32_trunc x \<in> {- int 90..int 90}"
proof -
  let ?e = "f32_mag x div 2 ^ 23" and ?f = "f32_mag x mod 2 ^ 23"
  let ?s = "if ?e = 0 then ?f else 2 ^ 23 + ?f" and ?k = "max 1 ?e"
  have split: "f32_mag x = ?e * 2 ^ 23 + ?f" and f: "?f < 2 ^ 23" by simp_all
  have e: "?e \<le> 133" using div_le_mono [OF assms, of "2 ^ 23"] by simp
  have "?s div 2 ^ (150 - ?k) \<le> 90"
  proof (cases "?e = 133")
    case True
    then have "?f \<le> 0x340000" using assms split by simp
    then have "?s \<le> 0xB40000" using True by simp
    from div_le_mono [OF this, of "2 ^ 17"] True show ?thesis by simp
  next
    case False
    then have "18 \<le> 150 - ?k" using e by simp
    then have "(2 :: nat) ^ 18 \<le> 2 ^ (150 - ?k)" by (rule power_increasing) simp
    then have "?s div 2 ^ (150 - ?k) \<le> ?s div 2 ^ 18" by (intro div_le_mono2) simp_all
    moreover have "?s div 2 ^ 18 \<le> 63"
    proof -
      have "f32_mag x mod 8388608 < 8388608" by (rule mod_less_divisor) simp
      then have "f32_mag x mod 8388608 \<le> 8388607" by linarith
      then have "8388608 + ?f \<le> 16777215" by simp
      moreover have "?s \<le> 8388608 + ?f" by simp
      ultimately have "?s \<le> 16777215" by (rule order.trans [rotated])
      from div_le_mono [OF this, of "2 ^ 18"] show ?thesis by simp
    qed
    ultimately show ?thesis by linarith
  qed
  moreover have "\<not> 150 \<le> ?k" using e by simp
  then have "f32_trunc x = (if f32_neg x then - int (?s div 2 ^ (150 - ?k)) else int (?s div 2 ^ (150 - ?k)))"
    unfolding f32_trunc_def Let_def by (simp only: if_False)
  ultimately show ?thesis by (simp only: signed_magnitude_range)
qed

lemma f32_clamp_to_i16: "f32_to_i16 (f32_clamp x f32_minus_ninety f32_ninety) \<in> {- 90..90}"
proof (cases "f32_is_nan x")
  case True
  then show ?thesis by (simp add: f32_clamp_nan f32_to_i16_def)
next
  case False
  let ?c = "f32_clamp x f32_minus_ninety f32_ninety"
  from f32_clamp_range [OF f32_le_consts(2) False]
  have "f32_mag ?c \<le> 0x42B40000"
    by (auto simp: f32_le_def f32_key_def f32_neg_def [of f32_minus_ninety] f32_neg_def [of f32_ninety]
        f32_mag_def [of f32_minus_ninety] f32_mag_def [of f32_ninety] split: if_splits)
  from f32_trunc_ninety [OF this] show ?thesis by (auto simp: f32_to_i16_def)
qed

end
