(* ===== verification/Input_Event.thy ===== *)
theory Input_Event
  imports Codec F32
begin

unbundle bit_operations_syntax

text \<open>
  Input events, \<open>maho-proto/src/input.rs\<close>: the event types, the modifier bit set, the 21-byte
  \<open>InputEvent\<close> with its constructors and its codec, and the extended key codes.
  \<open>normalize_client_coordinates\<close> and \<open>map_to_host_pixels\<close>, which are rounding \<open>f32\<close> arithmetic,
  are not modelled.
\<close>

definition MEDIA_PLAY_PAUSE :: u16 where "MEDIA_PLAY_PAUSE = 0x0100"
definition MEDIA_NEXT :: u16 where "MEDIA_NEXT = 0x0101"
definition MEDIA_PREVIOUS :: u16 where "MEDIA_PREVIOUS = 0x0102"
definition MEDIA_STOP :: u16 where "MEDIA_STOP = 0x0103"
definition BROWSER_BACK :: u16 where "BROWSER_BACK = 0x0104"
definition BROWSER_FORWARD :: u16 where "BROWSER_FORWARD = 0x0105"
definition BROWSER_REFRESH :: u16 where "BROWSER_REFRESH = 0x0106"
definition BROWSER_STOP :: u16 where "BROWSER_STOP = 0x0107"
definition BROWSER_SEARCH :: u16 where "BROWSER_SEARCH = 0x0108"
definition BROWSER_FAVORITES :: u16 where "BROWSER_FAVORITES = 0x0109"
definition BROWSER_HOME :: u16 where "BROWSER_HOME = 0x010a"
definition KEY_F21 :: u16 where "KEY_F21 = 0x010b"
definition KEY_F22 :: u16 where "KEY_F22 = 0x010c"
definition KEY_F23 :: u16 where "KEY_F23 = 0x010d"
definition KEY_F24 :: u16 where "KEY_F24 = 0x010e"

datatype input_event_type =
    MouseMove
  | LeftMouseDown
  | LeftMouseUp
  | RightMouseDown
  | RightMouseUp
  | ScrollWheel
  | KeyDown
  | KeyUp
  | FlagsChanged
  | LeftMouseDragged
  | RightMouseDragged
  | MiddleMouseDown
  | MiddleMouseUp
  | InputReset
  | RelativeMove
  | GamepadAxis
  | GamepadButtonDown
  | GamepadButtonUp
  | PenMove
  | PenDown
  | PenUp
  | UnicodeChar

fun input_event_type_u8 :: "input_event_type \<Rightarrow> u8" where
  "input_event_type_u8 MouseMove = 0"
| "input_event_type_u8 LeftMouseDown = 1"
| "input_event_type_u8 LeftMouseUp = 2"
| "input_event_type_u8 RightMouseDown = 3"
| "input_event_type_u8 RightMouseUp = 4"
| "input_event_type_u8 ScrollWheel = 5"
| "input_event_type_u8 KeyDown = 6"
| "input_event_type_u8 KeyUp = 7"
| "input_event_type_u8 FlagsChanged = 8"
| "input_event_type_u8 LeftMouseDragged = 9"
| "input_event_type_u8 RightMouseDragged = 10"
| "input_event_type_u8 MiddleMouseDown = 11"
| "input_event_type_u8 MiddleMouseUp = 12"
| "input_event_type_u8 InputReset = 13"
| "input_event_type_u8 RelativeMove = 14"
| "input_event_type_u8 GamepadAxis = 15"
| "input_event_type_u8 GamepadButtonDown = 16"
| "input_event_type_u8 GamepadButtonUp = 17"
| "input_event_type_u8 PenMove = 18"
| "input_event_type_u8 PenDown = 19"
| "input_event_type_u8 PenUp = 20"
| "input_event_type_u8 UnicodeChar = 21"

definition input_event_type_ALL :: "input_event_type list" where
  "input_event_type_ALL =
     [MouseMove, LeftMouseDown, LeftMouseUp, RightMouseDown, RightMouseUp, ScrollWheel, KeyDown,
      KeyUp, FlagsChanged, LeftMouseDragged, RightMouseDragged, MiddleMouseDown, MiddleMouseUp,
      InputReset, RelativeMove, GamepadAxis, GamepadButtonDown, GamepadButtonUp, PenMove, PenDown,
      PenUp, UnicodeChar]"

definition input_event_type_try_from :: "u8 \<Rightarrow> codec_error + input_event_type" where
  "input_event_type_try_from val =
     (if val = 0 then Inr MouseMove
      else if val = 1 then Inr LeftMouseDown
      else if val = 2 then Inr LeftMouseUp
      else if val = 3 then Inr RightMouseDown
      else if val = 4 then Inr RightMouseUp
      else if val = 5 then Inr ScrollWheel
      else if val = 6 then Inr KeyDown
      else if val = 7 then Inr KeyUp
      else if val = 8 then Inr FlagsChanged
      else if val = 9 then Inr LeftMouseDragged
      else if val = 10 then Inr RightMouseDragged
      else if val = 11 then Inr MiddleMouseDown
      else if val = 12 then Inr MiddleMouseUp
      else if val = 13 then Inr InputReset
      else if val = 14 then Inr RelativeMove
      else if val = 15 then Inr GamepadAxis
      else if val = 16 then Inr GamepadButtonDown
      else if val = 17 then Inr GamepadButtonUp
      else if val = 18 then Inr PenMove
      else if val = 19 then Inr PenDown
      else if val = 20 then Inr PenUp
      else if val = 21 then Inr UnicodeChar
      else Inl (UnknownInputEventType val))"

section \<open>Modifiers\<close>

text \<open>\<open>struct Modifiers(u16)\<close>: the newtype is its bits.\<close>

type_synonym modifiers = u16

definition MOD_SHIFT :: modifiers where "MOD_SHIFT = push_bit 0 1"
definition MOD_CONTROL :: modifiers where "MOD_CONTROL = push_bit 1 1"
definition MOD_OPTION :: modifiers where "MOD_OPTION = push_bit 2 1"
definition MOD_COMMAND :: modifiers where "MOD_COMMAND = push_bit 3 1"
definition MOD_CAPS_LOCK :: modifiers where "MOD_CAPS_LOCK = push_bit 4 1"

definition modifiers_empty :: modifiers where
  "modifiers_empty = 0"

definition modifiers_from_bits_retain :: "u16 \<Rightarrow> modifiers" where
  "modifiers_from_bits_retain bits = bits"

definition modifiers_bits :: "modifiers \<Rightarrow> u16" where
  "modifiers_bits m = m"

definition modifiers_contains :: "modifiers \<Rightarrow> modifiers \<Rightarrow> bool" where
  "modifiers_contains m other \<longleftrightarrow> m AND other = other"

definition modifiers_bitor :: "modifiers \<Rightarrow> modifiers \<Rightarrow> modifiers" where
  "modifiers_bitor m rhs = m OR rhs"

section \<open>Input events\<close>

record input_event =
  ie_event_type :: input_event_type
  ie_x :: f32
  ie_y :: f32
  ie_key_code :: u16
  ie_modifiers :: modifiers
  ie_scroll_dx :: f32
  ie_scroll_dy :: f32

definition input_event_SIZE :: usize where
  "input_event_SIZE = 21"

definition unicode_char :: "u16 \<Rightarrow> f32 \<Rightarrow> f32 \<Rightarrow> input_event" where
  "unicode_char code_unit x y =
     \<lparr>ie_event_type = UnicodeChar, ie_x = x, ie_y = y, ie_key_code = code_unit,
      ie_modifiers = modifiers_empty, ie_scroll_dx = f32_zero, ie_scroll_dy = f32_zero\<rparr>"

definition pen_move :: "f32 \<Rightarrow> f32 \<Rightarrow> f32 \<Rightarrow> f32 \<Rightarrow> f32 \<Rightarrow> input_event" where
  "pen_move x y pressure tilt_x tilt_y =
     \<lparr>ie_event_type = PenMove, ie_x = x, ie_y = y,
      ie_key_code = word_of_int (f32_to_i16 (f32_clamp tilt_y f32_minus_ninety f32_ninety)),
      ie_modifiers = modifiers_empty,
      ie_scroll_dx = f32_clamp pressure f32_zero f32_one,
      ie_scroll_dy = f32_clamp tilt_x f32_minus_ninety f32_ninety\<rparr>"

definition pen_down :: "f32 \<Rightarrow> f32 \<Rightarrow> f32 \<Rightarrow> f32 \<Rightarrow> f32 \<Rightarrow> input_event" where
  "pen_down x y pressure tilt_x tilt_y =
     \<lparr>ie_event_type = PenDown, ie_x = x, ie_y = y,
      ie_key_code = word_of_int (f32_to_i16 (f32_clamp tilt_y f32_minus_ninety f32_ninety)),
      ie_modifiers = modifiers_empty,
      ie_scroll_dx = f32_clamp pressure f32_zero f32_one,
      ie_scroll_dy = f32_clamp tilt_x f32_minus_ninety f32_ninety\<rparr>"

definition pen_up :: "f32 \<Rightarrow> f32 \<Rightarrow> input_event" where
  "pen_up x y =
     \<lparr>ie_event_type = PenUp, ie_x = x, ie_y = y, ie_key_code = 0,
      ie_modifiers = modifiers_empty, ie_scroll_dx = f32_zero, ie_scroll_dy = f32_zero\<rparr>"

definition gamepad_axis :: "u8 \<Rightarrow> u8 \<Rightarrow> f32 \<Rightarrow> f32 \<Rightarrow> input_event" where
  "gamepad_axis gamepad_id axis_id x y =
     (let code = push_bit 8 (ucast gamepad_id) OR ucast axis_id
      in \<lparr>ie_event_type = GamepadAxis, ie_x = x, ie_y = y, ie_key_code = code,
          ie_modifiers = modifiers_empty, ie_scroll_dx = f32_zero, ie_scroll_dy = f32_zero\<rparr>)"

definition gamepad_button :: "u8 \<Rightarrow> u8 \<Rightarrow> bool \<Rightarrow> input_event" where
  "gamepad_button gamepad_id button_id pressed =
     (let code = push_bit 8 (ucast gamepad_id) OR ucast button_id;
          event_type = (if pressed then GamepadButtonDown else GamepadButtonUp)
      in \<lparr>ie_event_type = event_type, ie_x = f32_zero, ie_y = f32_zero, ie_key_code = code,
          ie_modifiers = modifiers_empty, ie_scroll_dx = f32_zero, ie_scroll_dy = f32_zero\<rparr>)"

definition encode_input_event :: "input_event \<Rightarrow> codec_error + bytes" where
  "encode_input_event v =
     (let output = [];
          output = push output (input_event_type_u8 (ie_event_type v));
          output = push_f32 output (ie_x v);
          output = push_f32 output (ie_y v);
          output = push_u16 output (ie_key_code v);
          output = push_u16 output (modifiers_bits (ie_modifiers v));
          output = push_f32 output (ie_scroll_dx v);
          output = push_f32 output (ie_scroll_dy v)
      in Inr output)"

definition decode_input_event :: "bytes \<Rightarrow> codec_error + input_event" where
  "decode_input_event input = run_decoder (
     dbind (dec_u8 ''input event type'') (\<lambda>val.
     dbind (dlift (input_event_type_try_from val)) (\<lambda>event_type.
     dbind (dec_f32 ''input x'') (\<lambda>x.
     dbind (dec_f32 ''input y'') (\<lambda>y.
     dbind (dec_u16 ''input key code'') (\<lambda>key_code.
     dbind (dec_u16 ''input modifiers'') (\<lambda>bits.
     dbind (dec_f32 ''input scroll dx'') (\<lambda>scroll_dx.
     dbind (dec_f32 ''input scroll dy'') (\<lambda>scroll_dy.
     dbind (dec_finish ''input event'') (\<lambda>_.
     dret \<lparr>ie_event_type = event_type, ie_x = x, ie_y = y, ie_key_code = key_code,
           ie_modifiers = modifiers_from_bits_retain bits,
           ie_scroll_dx = scroll_dx, ie_scroll_dy = scroll_dy\<rparr>))))))))) ) input"

section \<open>Lemmas\<close>

lemma input_event_type_try_from_Inr:
  "input_event_type_try_from v = Inr t \<longleftrightarrow> v = input_event_type_u8 t"
  by (cases t) (auto simp: input_event_type_try_from_def split: if_splits)

lemma input_event_type_try_from_u8 [simp]:
  "input_event_type_try_from (input_event_type_u8 t) = Inr t"
  by (simp add: input_event_type_try_from_Inr)

lemma decode_input_event_Inr: "decode_input_event bs = Inr v \<longleftrightarrow> encode_input_event v = Inr bs"
proof
  assume "decode_input_event bs = Inr v"
  then show "encode_input_event v = Inr bs"
    by (auto simp: decode_input_event_def encode_input_event_def dec_inv dec_local codec_defs
        input_event_type_try_from_Inr modifiers_from_bits_retain_def modifiers_bits_def)
next
  assume "encode_input_event v = Inr bs"
  then show "decode_input_event bs = Inr v"
    by (auto simp: decode_input_event_def encode_input_event_def run_decoder_view dec_view dec_local
        codec_defs modifiers_from_bits_retain_def modifiers_bits_def)
qed

interpretation input_event: canonical_codec encode_input_event decode_input_event "\<lambda>_. True"
proof
  show "\<exists>bs'. encode_input_event v = Inr bs'" for v
    by (simp add: encode_input_event_def Let_def)
qed (simp_all add: decode_input_event_Inr)

lemma encode_input_event_size: "encode_input_event v = Inr bs \<Longrightarrow> length bs = input_event_SIZE"
  by (auto simp: encode_input_event_def codec_defs input_event_SIZE_def)

section \<open>Properties\<close>

text \<open>Input events: every event encodes to 21 bytes and decodes exactly from them.\<close>

theorem input_event_decode_iff:
  "(\<exists>bs. encode_input_event v = Inr bs \<and> length bs = 21 \<and>
     (\<forall>cs. decode_input_event cs = Inr v \<longleftrightarrow> cs = bs))"
proof -
  obtain bs where bs: "encode_input_event v = Inr bs"
    by (simp add: encode_input_event_def Let_def)
  with encode_input_event_size [OF this] input_event.decode_iff [of _ v] show ?thesis
    by (auto simp: input_event_SIZE_def)
qed

text \<open>Pen events: whatever the pen reports, NaN and infinities included, the tilt that travels
  in the key code is between -90 and 90 degrees, and a pressure or tilt that is not a NaN is clamped
  to its range.\<close>

theorem pen_event_ranges:
  "sint (ie_key_code (pen_move x y p tx ty)) \<in> {- 90..90} \<and>
   (f32_is_nan p \<or> f32_le f32_zero (ie_scroll_dx (pen_move x y p tx ty)) \<and>
      f32_le (ie_scroll_dx (pen_move x y p tx ty)) f32_one) \<and>
   (f32_is_nan tx \<or> f32_le f32_minus_ninety (ie_scroll_dy (pen_move x y p tx ty)) \<and>
      f32_le (ie_scroll_dy (pen_move x y p tx ty)) f32_ninety)"
proof -
  let ?t = "f32_to_i16 (f32_clamp ty f32_minus_ninety f32_ninety)"
  have range: "?t \<in> {- 90..90}" by (rule f32_clamp_to_i16)
  then have "sint (word_of_int ?t :: u16) = ?t"
    by (simp add: signed_of_int signed_take_bit_int_eq_self)
  with range show ?thesis
    by (auto simp: pen_move_def f32_clamp_range)
qed

end
