(* ===== verification/Handshake.thy ===== *)
theory Handshake
  imports Packet
begin

unbundle bit_operations_syntax

text \<open>
  The handshake of \<open>maho-proto/src/handshake.rs\<close>: the capability bit set that gates the optional
  features and the handshake message itself (name, geometry, version, capabilities, pairing id and
  session salt).
\<close>

definition MAX_HANDSHAKE_NAME_BYTES :: usize where "MAX_HANDSHAKE_NAME_BYTES = 1024"
definition MAX_PAIRING_ID_BYTES :: usize where "MAX_PAIRING_ID_BYTES = 256"
definition SESSION_SALT_SIZE :: usize where "SESSION_SALT_SIZE = 16"

section \<open>Capabilities\<close>

text \<open>\<open>struct Capabilities(u64)\<close>: the newtype is its bits.\<close>

type_synonym capabilities = u64

definition STREAM_CONFIGURATION :: capabilities where "STREAM_CONFIGURATION = push_bit 0 1"
definition CLIPBOARD_SYNC :: capabilities where "CLIPBOARD_SYNC = push_bit 1 1"
definition TEXT_CLIPBOARD_SYNC :: capabilities where "TEXT_CLIPBOARD_SYNC = push_bit 2 1"
definition COLOR_444 :: capabilities where "COLOR_444 = push_bit 3 1"
definition COLOR_HDR :: capabilities where "COLOR_HDR = push_bit 4 1"
definition GAMEPAD :: capabilities where "GAMEPAD = push_bit 5 1"
definition PEN_INPUT :: capabilities where "PEN_INPUT = push_bit 6 1"
definition AUTHENTICATED_UDP_REGISTRATION :: capabilities where
  "AUTHENTICATED_UDP_REGISTRATION = push_bit 7 1"
definition STREAM_OPTIONS :: capabilities where "STREAM_OPTIONS = push_bit 8 1"
definition SECURE_ATTENTION :: capabilities where "SECURE_ATTENTION = push_bit 9 1"
definition HOST_STATUS :: capabilities where "HOST_STATUS = push_bit 10 1"
definition SESSION_ENDED :: capabilities where "SESSION_ENDED = push_bit 11 1"
definition GUEST_PERMISSIONS :: capabilities where "GUEST_PERMISSIONS = push_bit 12 1"
definition PAIRING_TRUST :: capabilities where "PAIRING_TRUST = push_bit 13 1"
definition CLIPBOARD_IMAGE :: capabilities where "CLIPBOARD_IMAGE = push_bit 14 1"
definition RTT_PROBE :: capabilities where "RTT_PROBE = push_bit 15 1"

lemmas capability_defs =
  STREAM_CONFIGURATION_def CLIPBOARD_SYNC_def TEXT_CLIPBOARD_SYNC_def COLOR_444_def COLOR_HDR_def
  GAMEPAD_def PEN_INPUT_def AUTHENTICATED_UDP_REGISTRATION_def STREAM_OPTIONS_def
  SECURE_ATTENTION_def HOST_STATUS_def SESSION_ENDED_def GUEST_PERMISSIONS_def PAIRING_TRUST_def
  CLIPBOARD_IMAGE_def RTT_PROBE_def

definition capabilities_empty :: capabilities where
  "capabilities_empty = 0"

definition capabilities_all :: capabilities where
  "capabilities_all =
     STREAM_CONFIGURATION OR CLIPBOARD_SYNC OR TEXT_CLIPBOARD_SYNC OR COLOR_444 OR COLOR_HDR OR
     GAMEPAD OR PEN_INPUT OR AUTHENTICATED_UDP_REGISTRATION OR STREAM_OPTIONS OR
     SECURE_ATTENTION OR HOST_STATUS OR SESSION_ENDED OR GUEST_PERMISSIONS OR PAIRING_TRUST OR
     CLIPBOARD_IMAGE OR RTT_PROBE"

definition capabilities_from_bits_retain :: "u64 \<Rightarrow> capabilities" where
  "capabilities_from_bits_retain bits = bits"

definition capabilities_bits :: "capabilities \<Rightarrow> u64" where
  "capabilities_bits c = c"

definition capabilities_contains :: "capabilities \<Rightarrow> capabilities \<Rightarrow> bool" where
  "capabilities_contains c other \<longleftrightarrow> c AND other = other"

definition capabilities_bitor :: "capabilities \<Rightarrow> capabilities \<Rightarrow> capabilities" where
  "capabilities_bitor c rhs = c OR rhs"

section \<open>The handshake message\<close>

record handshake =
  hs_name :: rstring
  hs_width :: u16
  hs_height :: u16
  hs_scale :: f32
  hs_version :: u8
  hs_capabilities :: capabilities
  hs_pairing_id :: rstring
  hs_session_salt :: bytes

definition handshake_inv :: "handshake \<Rightarrow> bool" where
  "handshake_inv h \<longleftrightarrow> utf8_valid (hs_name h) \<and> utf8_valid (hs_pairing_id h) \<and>
     length (hs_session_salt h) = SESSION_SALT_SIZE"

definition encode_handshake :: "handshake \<Rightarrow> codec_error + bytes" where
  "encode_handshake h =
     (if hs_version h \<noteq> PROTOCOL_VERSION then Inl (UnsupportedVersion (hs_version h))
      else
      try_bind (checked_bytes (hs_name h) ''handshake name'' MAX_HANDSHAKE_NAME_BYTES) (\<lambda>name.
      try_bind (checked_bytes (hs_pairing_id h) ''handshake pairing ID'' MAX_PAIRING_ID_BYTES)
        (\<lambda>pairing_id.
      try_bind (usize_to_u16 (length name) ''handshake name'') (\<lambda>name_length.
      let output = [];
          output = push_u16 output name_length;
          output = extend_from_slice output name;
          output = push_u16 output (hs_width h);
          output = push_u16 output (hs_height h);
          output = push_f32 output (hs_scale h);
          output = push output (hs_version h);
          output = push_u64 output (capabilities_bits (hs_capabilities h))
      in
      try_bind (usize_to_u16 (length pairing_id) ''handshake pairing ID'') (\<lambda>pairing_id_length.
      let output = push_u16 output pairing_id_length;
          output = extend_from_slice output pairing_id;
          output = extend_from_slice output (hs_session_salt h)
      in Inr output)))))"

definition decode_handshake :: "bytes \<Rightarrow> codec_error + handshake" where
  "decode_handshake input = run_decoder (
     dbind (dec_u16 ''handshake name length'') (\<lambda>name_length.
     if unat name_length > MAX_HANDSHAKE_NAME_BYTES
     then derr (LengthLimit ''handshake name'' (unat name_length) MAX_HANDSHAKE_NAME_BYTES)
     else
     dbind (dec_utf8 (unat name_length) ''handshake name'') (\<lambda>name.
     dbind (dec_u16 ''handshake width'') (\<lambda>width.
     dbind (dec_u16 ''handshake height'') (\<lambda>height.
     dbind (dec_f32 ''handshake scale'') (\<lambda>scale.
     dbind (dec_u8 ''handshake version'') (\<lambda>version.
     if version \<noteq> PROTOCOL_VERSION then derr (UnsupportedVersion version)
     else
     dbind (dec_u64 ''handshake capabilities'') (\<lambda>bits.
     dbind (dec_u16 ''handshake pairing ID length'') (\<lambda>pairing_id_length.
     if unat pairing_id_length > MAX_PAIRING_ID_BYTES
     then derr (LengthLimit ''handshake pairing ID'' (unat pairing_id_length) MAX_PAIRING_ID_BYTES)
     else
     dbind (dec_utf8 (unat pairing_id_length) ''handshake pairing ID'') (\<lambda>pairing_id.
     dbind (dec_take SESSION_SALT_SIZE ''handshake session salt'') (\<lambda>salt.
     dbind (dec_finish ''handshake'') (\<lambda>_.
     dret \<lparr>hs_name = name, hs_width = width, hs_height = height, hs_scale = scale,
           hs_version = version, hs_capabilities = capabilities_from_bits_retain bits,
           hs_pairing_id = pairing_id, hs_session_salt = salt\<rparr>))))))))))) ) input"

section \<open>Lemmas\<close>

lemmas handshake_limits =
  MAX_HANDSHAKE_NAME_BYTES_def MAX_PAIRING_ID_BYTES_def SESSION_SALT_SIZE_def
  capabilities_bits_def capabilities_from_bits_retain_def

lemma decode_handshake_Inr:
  "decode_handshake bs = Inr h \<longleftrightarrow> handshake_inv h \<and> encode_handshake h = Inr bs"
proof
  assume "decode_handshake bs = Inr h"
  then show "handshake_inv h \<and> encode_handshake h = Inr bs"
    by (auto simp: decode_handshake_def encode_handshake_def handshake_inv_def dec_inv dec_local
        codec_defs handshake_limits Let_def split: if_splits)
next
  assume "handshake_inv h \<and> encode_handshake h = Inr bs"
  then show "decode_handshake bs = Inr h"
    by (auto simp: decode_handshake_def encode_handshake_def handshake_inv_def run_decoder_view
        dec_view dec_local codec_defs handshake_limits Let_def split: if_splits)
qed

lemma encode_handshake_defined:
  "hs_version h = PROTOCOL_VERSION \<Longrightarrow> length (hs_name h) \<le> MAX_HANDSHAKE_NAME_BYTES \<Longrightarrow>
   length (hs_pairing_id h) \<le> MAX_PAIRING_ID_BYTES \<Longrightarrow> \<exists>bs. encode_handshake h = Inr bs"
  by (auto simp: encode_handshake_def handshake_limits Let_def)

interpretation handshake: canonical_codec encode_handshake decode_handshake handshake_inv
  by unfold_locales (auto simp: decode_handshake_Inr)

lemma capabilities_contains_bitor:
  "capabilities_contains c (capabilities_bitor a b) \<longleftrightarrow>
     capabilities_contains c a \<and> capabilities_contains c b"
  unfolding capabilities_contains_def capabilities_bitor_def
  by (auto simp: bit_eq_iff bit_and_iff bit_or_iff)

section \<open>Properties\<close>

text \<open>Handshakes: an input decodes to a handshake exactly when it is its encoding and the
  handshake is well formed; the decoded version is then the protocol's, names and ids are within
  their limits and valid UTF-8, and the salt has 16 bytes.\<close>

theorem handshake_decode_iff:
  "(decode_handshake bs = Inr h \<longleftrightarrow> handshake_inv h \<and> encode_handshake h = Inr bs) \<and>
   (encode_handshake h = Inr bs \<longrightarrow> hs_version h = PROTOCOL_VERSION \<and>
      length (hs_name h) \<le> MAX_HANDSHAKE_NAME_BYTES \<and>
      length (hs_pairing_id h) \<le> MAX_PAIRING_ID_BYTES)"
  using handshake.decode_iff [of bs h]
  by (auto simp: encode_handshake_def Let_def split: if_splits)

definition sample_handshake :: handshake where
  "sample_handshake = \<lparr>hs_name = [0x61], hs_width = 1, hs_height = 2, hs_scale = 0, hs_version = 3,
     hs_capabilities = GAMEPAD, hs_pairing_id = [], hs_session_salt = replicate 16 5\<rparr>"

theorem handshake_decode_iff_witness:
  "\<exists>bs. encode_handshake sample_handshake = Inr bs \<and> decode_handshake bs = Inr sample_handshake \<and>
     hs_version sample_handshake = PROTOCOL_VERSION"
proof -
  obtain bs where bs: "encode_handshake sample_handshake = Inr bs"
    using encode_handshake_defined [of sample_handshake]
    by (auto simp: sample_handshake_def PROTOCOL_VERSION_def handshake_limits)
  moreover have "handshake_inv sample_handshake"
    by (simp add: handshake_inv_def sample_handshake_def SESSION_SALT_SIZE_def)
  ultimately show ?thesis using handshake_decode_iff [of bs sample_handshake] by blast
qed

end
