(* ===== verification/Pairing.thy ===== *)
theory Pairing
  imports Codec
begin

text \<open>
  The pairing messages of \<open>maho-proto/src/pairing.rs\<close>: request, grant with its 32-byte key, and
  rejection.
\<close>

definition MAX_PAIRING_NAME_BYTES :: usize where "MAX_PAIRING_NAME_BYTES = 1024"
definition PAIRING_KEY_SIZE :: usize where "PAIRING_KEY_SIZE = 32"

record pairing_request =
  preq_name :: rstring

definition encode_pairing_request :: "pairing_request \<Rightarrow> codec_error + bytes" where
  "encode_pairing_request v =
     try_bind (checked_bytes (preq_name v) ''pairing request name'' MAX_PAIRING_NAME_BYTES) (\<lambda>name.
     let output = [] in
     try_bind (usize_to_u16 (length name) ''pairing request name'') (\<lambda>len.
     let output = push_u16 output len;
         output = extend_from_slice output name
     in Inr output))"

definition decode_pairing_request :: "bytes \<Rightarrow> codec_error + pairing_request" where
  "decode_pairing_request input = run_decoder (
     dbind (dec_u16 ''pairing request name length'') (\<lambda>len.
     if unat len > MAX_PAIRING_NAME_BYTES
     then derr (LengthLimit ''pairing request name'' (unat len) MAX_PAIRING_NAME_BYTES)
     else
     dbind (dec_utf8 (unat len) ''pairing request name'') (\<lambda>name.
     dbind (dec_finish ''pairing request'') (\<lambda>_.
     dret \<lparr>preq_name = name\<rparr>)))) input"

record pairing_grant =
  pg_pairing_id :: rstring
  pg_host_name :: rstring
  pg_key :: bytes

definition encode_pairing_grant :: "pairing_grant \<Rightarrow> codec_error + bytes" where
  "encode_pairing_grant v =
     try_bind (checked_bytes (pg_pairing_id v) ''pairing grant ID'' (2 ^ 8 - 1)) (\<lambda>pairing_id.
     try_bind (checked_bytes (pg_host_name v) ''pairing grant host name'' (2 ^ 16 - 1)) (\<lambda>host_name.
     let output = [] in
     try_bind (usize_to_u8 (length pairing_id) ''pairing grant ID'') (\<lambda>id_len.
     let output = push output id_len;
         output = extend_from_slice output pairing_id
     in
     try_bind (usize_to_u16 (length host_name) ''pairing grant host name'') (\<lambda>name_len.
     let output = push_u16 output name_len;
         output = extend_from_slice output host_name;
         output = push output (word_of_nat PAIRING_KEY_SIZE);
         output = extend_from_slice output (pg_key v)
     in Inr output))))"

definition decode_pairing_grant :: "bytes \<Rightarrow> codec_error + pairing_grant" where
  "decode_pairing_grant input = run_decoder (
     dbind (dec_u8 ''pairing grant ID length'') (\<lambda>pairing_id_length.
     dbind (dec_utf8 (unat pairing_id_length) ''pairing grant ID'') (\<lambda>pairing_id.
     dbind (dec_u16 ''pairing grant host name length'') (\<lambda>host_name_length.
     dbind (dec_utf8 (unat host_name_length) ''pairing grant host name'') (\<lambda>host_name.
     dbind (dec_u8 ''pairing key length'') (\<lambda>key_length.
     if unat key_length \<noteq> PAIRING_KEY_SIZE
     then derr (InvalidLength ''pairing key'' (unat key_length) PAIRING_KEY_SIZE)
     else
     dbind (dec_take (unat key_length) ''pairing key'') (\<lambda>key.
     dbind (dec_finish ''pairing grant'') (\<lambda>_.
     dret \<lparr>pg_pairing_id = pairing_id, pg_host_name = host_name, pg_key = key\<rparr>)))))))) input"

datatype pairing_reject_reason = DeniedByHost | LockedOut | PairingDisabled

fun pairing_reject_reason_u8 :: "pairing_reject_reason \<Rightarrow> u8" where
  "pairing_reject_reason_u8 DeniedByHost = 0"
| "pairing_reject_reason_u8 LockedOut = 1"
| "pairing_reject_reason_u8 PairingDisabled = 2"

definition pairing_reject_reason_ALL :: "pairing_reject_reason list" where
  "pairing_reject_reason_ALL = [DeniedByHost, LockedOut, PairingDisabled]"

definition pairing_reject_reason_try_from :: "u8 \<Rightarrow> codec_error + pairing_reject_reason" where
  "pairing_reject_reason_try_from val =
     (if val = 0 then Inr DeniedByHost
      else if val = 1 then Inr LockedOut
      else if val = 2 then Inr PairingDisabled
      else Inl (UnknownPairingRejectReason val))"

record pairing_reject =
  prej_reason :: pairing_reject_reason

definition encode_pairing_reject :: "pairing_reject \<Rightarrow> codec_error + bytes" where
  "encode_pairing_reject v = Inr [pairing_reject_reason_u8 (prej_reason v)]"

definition decode_pairing_reject :: "bytes \<Rightarrow> codec_error + pairing_reject" where
  "decode_pairing_reject input = run_decoder (
     dbind (dec_u8 ''pairing reject reason'') (\<lambda>val.
     dbind (dlift (pairing_reject_reason_try_from val)) (\<lambda>reason.
     dbind (dec_finish ''pairing reject'') (\<lambda>_.
     dret \<lparr>prej_reason = reason\<rparr>)))) input"

section \<open>Lemmas\<close>

definition pairing_request_inv :: "pairing_request \<Rightarrow> bool" where
  "pairing_request_inv v \<longleftrightarrow> utf8_valid (preq_name v)"

definition pairing_grant_inv :: "pairing_grant \<Rightarrow> bool" where
  "pairing_grant_inv v \<longleftrightarrow> utf8_valid (pg_pairing_id v) \<and> utf8_valid (pg_host_name v) \<and>
     length (pg_key v) = PAIRING_KEY_SIZE"

lemma decode_pairing_request_Inr:
  "decode_pairing_request bs = Inr v \<longleftrightarrow> pairing_request_inv v \<and> encode_pairing_request v = Inr bs"
proof
  assume "decode_pairing_request bs = Inr v"
  then show "pairing_request_inv v \<and> encode_pairing_request v = Inr bs"
    by (auto simp: decode_pairing_request_def encode_pairing_request_def pairing_request_inv_def
        dec_inv dec_local codec_defs MAX_PAIRING_NAME_BYTES_def Let_def split: if_splits)
next
  assume "pairing_request_inv v \<and> encode_pairing_request v = Inr bs"
  then show "decode_pairing_request bs = Inr v"
    by (auto simp: decode_pairing_request_def encode_pairing_request_def pairing_request_inv_def
        run_decoder_view dec_view dec_local codec_defs MAX_PAIRING_NAME_BYTES_def Let_def)
qed

interpretation pairing_request: canonical_codec
  encode_pairing_request decode_pairing_request pairing_request_inv
  by unfold_locales (auto simp: decode_pairing_request_Inr)

lemma decode_pairing_grant_Inr:
  "decode_pairing_grant bs = Inr v \<longleftrightarrow> pairing_grant_inv v \<and> encode_pairing_grant v = Inr bs"
proof
  assume "decode_pairing_grant bs = Inr v"
  then obtain idl idn hn kl k and hnl :: u16 where
    "bs = idl # idn @ le_bytes 2 hnl @ hn @ kl # k" and
    len: "length idn = unat idl" "length hn = unat hnl" "unat kl = PAIRING_KEY_SIZE" "length k = unat kl"
    and "utf8_valid idn" "utf8_valid hn"
    and "v = \<lparr>pg_pairing_id = idn, pg_host_name = hn, pg_key = k\<rparr>"
    by (auto simp: decode_pairing_grant_def dec_inv dec_local split: if_splits)
  moreover have "kl = word_of_nat PAIRING_KEY_SIZE"
    using len(3) by (metis of_nat_unat ucast_id)
  ultimately show "pairing_grant_inv v \<and> encode_pairing_grant v = Inr bs"
    by (simp add: encode_pairing_grant_def pairing_grant_inv_def codec_defs)
next
  assume "pairing_grant_inv v \<and> encode_pairing_grant v = Inr bs"
  then show "decode_pairing_grant bs = Inr v"
    by (auto simp: decode_pairing_grant_def encode_pairing_grant_def pairing_grant_inv_def
        run_decoder_view dec_view dec_local codec_defs PAIRING_KEY_SIZE_def Let_def)
qed

interpretation pairing_grant: canonical_codec
  encode_pairing_grant decode_pairing_grant pairing_grant_inv
  by unfold_locales (auto simp: decode_pairing_grant_Inr)

lemma pairing_reject_reason_try_from_Inr:
  "pairing_reject_reason_try_from v = Inr t \<longleftrightarrow> v = pairing_reject_reason_u8 t"
  by (cases t) (auto simp: pairing_reject_reason_try_from_def split: if_splits)

lemma decode_pairing_reject_Inr:
  "decode_pairing_reject bs = Inr v \<longleftrightarrow> encode_pairing_reject v = Inr bs"
proof
  assume "decode_pairing_reject bs = Inr v"
  then show "encode_pairing_reject v = Inr bs"
    by (auto simp: decode_pairing_reject_def encode_pairing_reject_def dec_inv dec_local
        pairing_reject_reason_try_from_Inr)
next
  assume "encode_pairing_reject v = Inr bs"
  moreover have "pairing_reject_reason_try_from (pairing_reject_reason_u8 t) = Inr t" for t
    by (simp add: pairing_reject_reason_try_from_Inr)
  ultimately show "decode_pairing_reject bs = Inr v"
    by (auto simp: decode_pairing_reject_def encode_pairing_reject_def run_decoder_view dec_view
        dec_local)
qed

interpretation pairing_reject: canonical_codec
  encode_pairing_reject decode_pairing_reject "\<lambda>_. True"
  by unfold_locales (auto simp: decode_pairing_reject_Inr encode_pairing_reject_def)

section \<open>Properties\<close>

text \<open>Pairing grants: a grant decodes exactly from its encoding, with UTF-8 names within their
  length prefixes and a key of 32 bytes.\<close>

theorem pairing_grant_decode_iff:
  "decode_pairing_grant bs = Inr g \<longleftrightarrow>
     utf8_valid (pg_pairing_id g) \<and> utf8_valid (pg_host_name g) \<and> length (pg_key g) = 32 \<and>
     length (pg_pairing_id g) \<le> 255 \<and> length (pg_host_name g) \<le> 65535 \<and>
     bs = word_of_nat (length (pg_pairing_id g)) # pg_pairing_id g @
       le_bytes 2 (word_of_nat (length (pg_host_name g)) :: u16) @ pg_host_name g @ 32 # pg_key g"
  using pairing_grant.decode_iff [of bs g]
  by (auto simp: encode_pairing_grant_def pairing_grant_inv_def PAIRING_KEY_SIZE_def codec_defs Let_def)

end
