(* ===== verification/Media_Wire.thy ===== *)
theory Media_Wire
  imports Codec
begin

text \<open>
  The media messages of \<open>maho-proto/src/media.rs\<close>: frame headers and chunks, cursor updates,
  audio fragments, colour metadata and the legacy timestamp statistics.
\<close>

definition MAX_CHUNKS_PER_FRAME :: u16 where "MAX_CHUNKS_PER_FRAME = 8192"
definition MAX_FRAME_BYTES :: u32 where "MAX_FRAME_BYTES = 32 * 1024 * 1024"
definition MAX_VIDEO_CHUNK_BYTES :: usize where "MAX_VIDEO_CHUNK_BYTES = 1382"
definition MAX_AUDIO_FRAGMENT_BYTES :: usize where "MAX_AUDIO_FRAGMENT_BYTES = 1380"

section \<open>Timestamp statistics\<close>

text \<open>The magic \<open>b"ERDTS1"\<close>.\<close>

definition TIMESTAMP_STATS_MAGIC :: bytes where
  "TIMESTAMP_STATS_MAGIC = [0x45, 0x52, 0x44, 0x54, 0x53, 0x31]"

record timestamp_stats =
  ts_frame_id :: u32
  ts_capture_us :: u64
  ts_encode_start_us :: u64
  ts_encode_end_us :: u64
  ts_send_us :: u64

definition timestamp_stats_SIZE :: usize where
  "timestamp_stats_SIZE = 6 + 4 + 8 * 4"

definition encode_timestamp_stats :: "timestamp_stats \<Rightarrow> bytes" where
  "encode_timestamp_stats v =
     (let output = [];
          output = extend_from_slice output TIMESTAMP_STATS_MAGIC;
          output = extend_from_slice output (le_bytes 4 (ts_frame_id v));
          output = extend_from_slice output (le_bytes 8 (ts_capture_us v));
          output = extend_from_slice output (le_bytes 8 (ts_encode_start_us v));
          output = extend_from_slice output (le_bytes 8 (ts_encode_end_us v));
          output = extend_from_slice output (le_bytes 8 (ts_send_us v))
      in output)"

text \<open>A slice \<open>bytes[i..j]\<close>.\<close>

definition slice :: "nat \<Rightarrow> nat \<Rightarrow> bytes \<Rightarrow> bytes" where
  "slice i j bs = take (j - i) (drop i bs)"

definition decode_timestamp_stats :: "bytes \<Rightarrow> timestamp_stats option" where
  "decode_timestamp_stats bs =
     (if length bs \<noteq> timestamp_stats_SIZE \<or> take 6 bs \<noteq> TIMESTAMP_STATS_MAGIC then None
      else Some
        \<lparr>ts_frame_id = le_word (slice 6 10 bs),
         ts_capture_us = le_word (slice 10 18 bs),
         ts_encode_start_us = le_word (slice 18 26 bs),
         ts_encode_end_us = le_word (slice 26 34 bs),
         ts_send_us = le_word (slice 34 42 bs)\<rparr>)"

section \<open>Frame headers\<close>

record frame_header =
  fh_frame_id :: u32
  fh_width :: u16
  fh_height :: u16
  fh_is_key_frame :: bool
  fh_total_chunks :: u16
  fh_total_size :: u32

definition frame_header_SIZE :: usize where
  "frame_header_SIZE = 16"

text \<open>The product of the last check is a \<open>u32\<close> multiplication; \<open>chunk_capacity_exact\<close> below
  shows that it cannot wrap.\<close>

definition frame_header_validate :: "frame_header \<Rightarrow> codec_error + unit" where
  "frame_header_validate h =
     (if fh_total_chunks h > MAX_CHUNKS_PER_FRAME
      then Inl (LengthLimit ''frame chunks'' (unat (fh_total_chunks h)) (unat MAX_CHUNKS_PER_FRAME))
      else if fh_total_size h > MAX_FRAME_BYTES
      then Inl (LengthLimit ''frame bytes'' (unat (fh_total_size h)) (unat MAX_FRAME_BYTES))
      else
      let chunk_capacity = (ucast (fh_total_chunks h) :: u32) * word_of_nat MAX_VIDEO_CHUNK_BYTES
      in if fh_total_size h > chunk_capacity
         then Inl (LengthLimit ''frame bytes for chunk count''
                     (unat (fh_total_size h)) (unat chunk_capacity))
         else Inr ())"

definition encode_frame_header :: "frame_header \<Rightarrow> codec_error + bytes" where
  "encode_frame_header v =
     try_bind (frame_header_validate v) (\<lambda>_.
     let output = [];
         output = push_u32 output (fh_frame_id v);
         output = push_u16 output (fh_width v);
         output = push_u16 output (fh_height v);
         output = push output (bool_u8 (fh_is_key_frame v));
         output = push_u16 output (fh_total_chunks v);
         output = push output 0;
         output = push_u32 output (fh_total_size v)
     in Inr output)"

definition decode_frame_header :: "bytes \<Rightarrow> codec_error + frame_header" where
  "decode_frame_header input = run_decoder (
     dbind (dec_u32 ''frame ID'') (\<lambda>frame_id.
     dbind (dec_u16 ''frame width'') (\<lambda>width.
     dbind (dec_u16 ''frame height'') (\<lambda>height.
     dbind (dec_u8 ''frame key flag'') (\<lambda>key.
     dbind (dec_u16 ''frame chunk count'') (\<lambda>total_chunks.
     dbind (dec_u8 ''frame padding'') (\<lambda>_.
     dbind (dec_u32 ''frame total size'') (\<lambda>total_size.
     let val = \<lparr>fh_frame_id = frame_id, fh_width = width, fh_height = height,
                fh_is_key_frame = (key \<noteq> 0), fh_total_chunks = total_chunks,
                fh_total_size = total_size\<rparr>
     in
     dbind (dec_finish ''frame header'') (\<lambda>_.
     dbind (dlift (frame_header_validate val)) (\<lambda>_.
     dret val)))))))))) input"

section \<open>Frame chunks\<close>

record frame_chunk =
  fc_frame_id :: u32
  fc_chunk_index :: u16
  fc_data :: bytes

definition frame_chunk_HEADER_SIZE :: usize where
  "frame_chunk_HEADER_SIZE = 6"

definition frame_chunk_validate :: "frame_chunk \<Rightarrow> codec_error + unit" where
  "frame_chunk_validate c =
     (if fc_chunk_index c \<ge> MAX_CHUNKS_PER_FRAME
      then Inl (InvalidValue ''frame chunk index'' (ucast (fc_chunk_index c)))
      else if length (fc_data c) > MAX_VIDEO_CHUNK_BYTES
      then Inl (LengthLimit ''video chunk data'' (length (fc_data c)) MAX_VIDEO_CHUNK_BYTES)
      else Inr ())"

definition encode_frame_chunk :: "frame_chunk \<Rightarrow> codec_error + bytes" where
  "encode_frame_chunk v =
     try_bind (frame_chunk_validate v) (\<lambda>_.
     let output = [];
         output = push_u32 output (fc_frame_id v);
         output = push_u16 output (fc_chunk_index v);
         output = extend_from_slice output (fc_data v)
     in Inr output)"

definition decode_frame_chunk :: "bytes \<Rightarrow> codec_error + frame_chunk" where
  "decode_frame_chunk input = run_decoder (
     dbind (dec_u32 ''frame chunk ID'') (\<lambda>frame_id.
     dbind (dec_u16 ''frame chunk index'') (\<lambda>chunk_index.
     if chunk_index \<ge> MAX_CHUNKS_PER_FRAME
     then derr (InvalidValue ''frame chunk index'' (ucast chunk_index))
     else
     dbind dec_take_remaining (\<lambda>data.
     if length data > MAX_VIDEO_CHUNK_BYTES
     then derr (LengthLimit ''video chunk data'' (length data) MAX_VIDEO_CHUNK_BYTES)
     else
     dret \<lparr>fc_frame_id = frame_id, fc_chunk_index = chunk_index, fc_data = data\<rparr>)))) input"

section \<open>Cursor updates\<close>

record cursor_update =
  cu_x :: f32
  cu_y :: f32
  cu_cursor_type :: u8

definition cursor_update_SIZE :: usize where
  "cursor_update_SIZE = 9"

definition encode_cursor_update :: "cursor_update \<Rightarrow> codec_error + bytes" where
  "encode_cursor_update v =
     (let output = [];
          output = push_f32 output (cu_x v);
          output = push_f32 output (cu_y v);
          output = push output (cu_cursor_type v)
      in Inr output)"

definition decode_cursor_update :: "bytes \<Rightarrow> codec_error + cursor_update" where
  "decode_cursor_update input = run_decoder (
     dbind (dec_f32 ''cursor x'') (\<lambda>x.
     dbind (dec_f32 ''cursor y'') (\<lambda>y.
     dbind (dec_u8 ''cursor type'') (\<lambda>cursor_type.
     dbind (dec_finish ''cursor update'') (\<lambda>_.
     dret \<lparr>cu_x = x, cu_y = y, cu_cursor_type = cursor_type\<rparr>))))) input"

section \<open>Audio fragments\<close>

record audio_fragment_header =
  ah_frame_id :: u32
  ah_fragment_index :: u16
  ah_fragment_count :: u16

definition audio_fragment_header_SIZE :: usize where
  "audio_fragment_header_SIZE = 8"

definition audio_fragment_header_validate :: "audio_fragment_header \<Rightarrow> codec_error + unit" where
  "audio_fragment_header_validate h =
     (if ah_fragment_count h = 0 then Inl (InvalidValue ''audio fragment count'' 0)
      else if ah_fragment_index h \<ge> ah_fragment_count h
      then Inl (InvalidValue ''audio fragment index'' (ucast (ah_fragment_index h)))
      else Inr ())"

definition audio_fragment_header_to_bytes :: "audio_fragment_header \<Rightarrow> codec_error + bytes" where
  "audio_fragment_header_to_bytes h =
     try_bind (audio_fragment_header_validate h) (\<lambda>_.
       Inr (le_bytes 4 (ah_frame_id h) @ le_bytes 2 (ah_fragment_index h) @
            le_bytes 2 (ah_fragment_count h)))"

definition encode_audio_fragment_header :: "audio_fragment_header \<Rightarrow> codec_error + bytes" where
  "encode_audio_fragment_header h = try_bind (audio_fragment_header_to_bytes h) Inr"

definition decode_audio_fragment_header :: "bytes \<Rightarrow> codec_error + audio_fragment_header" where
  "decode_audio_fragment_header input = run_decoder (
     dbind (dec_u32 ''audio frame ID'') (\<lambda>frame_id.
     dbind (dec_u16 ''audio fragment index'') (\<lambda>fragment_index.
     dbind (dec_u16 ''audio fragment count'') (\<lambda>fragment_count.
     let val = \<lparr>ah_frame_id = frame_id, ah_fragment_index = fragment_index,
                ah_fragment_count = fragment_count\<rparr>
     in
     dbind (dec_finish ''audio fragment header'') (\<lambda>_.
     dbind (dlift (audio_fragment_header_validate val)) (\<lambda>_.
     dret val)))))) input"

record audio_fragment =
  af_header :: audio_fragment_header
  af_data :: bytes

definition audio_fragment_validate :: "audio_fragment \<Rightarrow> codec_error + unit" where
  "audio_fragment_validate v =
     try_bind (audio_fragment_header_validate (af_header v)) (\<lambda>_.
     if length (af_data v) > MAX_AUDIO_FRAGMENT_BYTES
     then Inl (LengthLimit ''audio fragment data'' (length (af_data v)) MAX_AUDIO_FRAGMENT_BYTES)
     else Inr ())"

definition encode_audio_fragment :: "audio_fragment \<Rightarrow> codec_error + bytes" where
  "encode_audio_fragment v =
     try_bind (audio_fragment_validate v) (\<lambda>_.
     try_bind (encode_audio_fragment_header (af_header v)) (\<lambda>output.
     Inr (extend_from_slice output (af_data v))))"

definition decode_audio_fragment :: "bytes \<Rightarrow> codec_error + audio_fragment" where
  "decode_audio_fragment input = run_decoder (
     dbind (dec_u32 ''audio frame ID'') (\<lambda>frame_id.
     dbind (dec_u16 ''audio fragment index'') (\<lambda>fragment_index.
     dbind (dec_u16 ''audio fragment count'') (\<lambda>fragment_count.
     let header = \<lparr>ah_frame_id = frame_id, ah_fragment_index = fragment_index,
                   ah_fragment_count = fragment_count\<rparr>
     in
     dbind (dlift (audio_fragment_header_validate header)) (\<lambda>_.
     dbind dec_take_remaining (\<lambda>data.
     if length data > MAX_AUDIO_FRAGMENT_BYTES
     then derr (LengthLimit ''audio fragment data'' (length data) MAX_AUDIO_FRAGMENT_BYTES)
     else dret \<lparr>af_header = header, af_data = data\<rparr>)))))) input"

section \<open>Colour metadata\<close>

datatype color_range = Limited | Full
datatype color_matrix = Bt709 | Bt601 | Bt2020
datatype chroma_subsampling = Yuv420 | Yuv444

fun color_range_u8 :: "color_range \<Rightarrow> u8" where
  "color_range_u8 Limited = 0"
| "color_range_u8 Full = 1"

fun color_matrix_u8 :: "color_matrix \<Rightarrow> u8" where
  "color_matrix_u8 Bt709 = 0"
| "color_matrix_u8 Bt601 = 1"
| "color_matrix_u8 Bt2020 = 2"

fun chroma_subsampling_u8 :: "chroma_subsampling \<Rightarrow> u8" where
  "chroma_subsampling_u8 Yuv420 = 0"
| "chroma_subsampling_u8 Yuv444 = 1"

record color_metadata =
  cm_range :: color_range
  cm_matrix :: color_matrix
  cm_chroma :: chroma_subsampling

definition color_metadata_SIZE :: usize where
  "color_metadata_SIZE = 3"

definition color_metadata_encode_into :: "color_metadata \<Rightarrow> bytes \<Rightarrow> bytes" where
  "color_metadata_encode_into v output =
     (let output = push output (color_range_u8 (cm_range v));
          output = push output (color_matrix_u8 (cm_matrix v));
          output = push output (chroma_subsampling_u8 (cm_chroma v))
      in output)"

definition color_metadata_decode_from :: "color_metadata decode" where
  "color_metadata_decode_from =
     dbind (dec_u8 ''color range'') (\<lambda>r.
     dbind (dlift (if r = 0 then Inr Limited else if r = 1 then Inr Full
                   else Inl (UnknownColorRange r))) (\<lambda>range.
     dbind (dec_u8 ''color matrix'') (\<lambda>m.
     dbind (dlift (if m = 0 then Inr Bt709 else if m = 1 then Inr Bt601
                   else if m = 2 then Inr Bt2020 else Inl (UnknownColorMatrix m))) (\<lambda>matrix.
     dbind (dec_u8 ''chroma subsampling'') (\<lambda>c.
     dbind (dlift (if c = 0 then Inr Yuv420 else if c = 1 then Inr Yuv444
                   else Inl (UnknownChromaSubsampling c))) (\<lambda>chroma.
     dret \<lparr>cm_range = range, cm_matrix = matrix, cm_chroma = chroma\<rparr>))))))"

definition encode_color_metadata :: "color_metadata \<Rightarrow> codec_error + bytes" where
  "encode_color_metadata v = Inr (color_metadata_encode_into v [])"

definition decode_color_metadata :: "bytes \<Rightarrow> codec_error + color_metadata" where
  "decode_color_metadata input = run_decoder (
     dbind color_metadata_decode_from (\<lambda>val.
     dbind (dec_finish ''color metadata'') (\<lambda>_. dret val))) input"

section \<open>Lemmas\<close>

lemmas media_limits =
  MAX_CHUNKS_PER_FRAME_def MAX_FRAME_BYTES_def MAX_VIDEO_CHUNK_BYTES_def
  MAX_AUDIO_FRAGMENT_BYTES_def

subsection \<open>Timestamp statistics\<close>

lemma slice_append:
  "i = length a \<Longrightarrow> j = i + length b \<Longrightarrow> slice i j (a @ b @ c) = b"
  "i = length a \<Longrightarrow> j = i + length b \<Longrightarrow> slice i j (a @ b) = b"
  by (simp_all add: slice_def)

lemma timestamp_stats_slices:
  assumes "length bs = timestamp_stats_SIZE"
  shows "bs = take 6 bs @ slice 6 10 bs @ slice 10 18 bs @ slice 18 26 bs @ slice 26 34 bs @ slice 34 42 bs"
proof -
  have "drop i bs = slice i j bs @ drop j bs" if "i \<le> j" for i j
    using that append_take_drop_id [of "j - i" "drop i bs"] by (simp add: slice_def)
  from this [of 6 10] this [of 10 18] this [of 18 26] this [of 26 34] this [of 34 42]
  show ?thesis
    using append_take_drop_id [of 6 bs] assms by (simp add: timestamp_stats_SIZE_def)
qed

lemma le_bytes_slice:
  "i + n \<le> length bs \<Longrightarrow> 8 * n \<le> LENGTH('a::len) \<Longrightarrow>
     le_bytes n (le_word (slice i (i + n) bs) :: 'a word) = slice i (i + n) bs"
  using le_bytes_le_word [of "slice i (i + n) bs", where 'a = 'a] by (simp add: slice_def)

lemma encode_timestamp_stats_app:
  "encode_timestamp_stats v =
     TIMESTAMP_STATS_MAGIC @ le_bytes 4 (ts_frame_id v) @ le_bytes 8 (ts_capture_us v) @
     le_bytes 8 (ts_encode_start_us v) @ le_bytes 8 (ts_encode_end_us v) @ le_bytes 8 (ts_send_us v)"
  by (simp add: encode_timestamp_stats_def codec_defs)

lemma decode_timestamp_stats_Some:
  "decode_timestamp_stats bs = Some v \<longleftrightarrow> bs = encode_timestamp_stats v"
proof
  assume dec: "decode_timestamp_stats bs = Some v"
  then have len: "length bs = timestamp_stats_SIZE" and magic: "take 6 bs = TIMESTAMP_STATS_MAGIC"
    by (auto simp: decode_timestamp_stats_def split: if_splits)
  note word = le_bytes_slice [of _ _ bs]
  from word [of 6 4, where 'a = 32] word [of 10 8, where 'a = 64] word [of 18 8, where 'a = 64]
    word [of 26 8, where 'a = 64] word [of 34 8, where 'a = 64]
  show "bs = encode_timestamp_stats v"
    using dec timestamp_stats_slices [OF len] len magic
    by (auto simp: decode_timestamp_stats_def encode_timestamp_stats_app timestamp_stats_SIZE_def
        split: if_splits)
next
  assume bs: "bs = encode_timestamp_stats v"
  have m: "length TIMESTAMP_STATS_MAGIC = 6" by (simp add: TIMESTAMP_STATS_MAGIC_def)
  have "slice 6 10 bs = le_bytes 4 (ts_frame_id v)" "slice 10 18 bs = le_bytes 8 (ts_capture_us v)"
    "slice 18 26 bs = le_bytes 8 (ts_encode_start_us v)" "slice 26 34 bs = le_bytes 8 (ts_encode_end_us v)"
    "slice 34 42 bs = le_bytes 8 (ts_send_us v)"
    unfolding bs encode_timestamp_stats_app slice_def by (simp_all add: m)
  moreover have "take 6 bs = TIMESTAMP_STATS_MAGIC" "length bs = timestamp_stats_SIZE"
    by (simp_all add: bs encode_timestamp_stats_app m timestamp_stats_SIZE_def)
  ultimately show "decode_timestamp_stats bs = Some v"
    by (simp add: decode_timestamp_stats_def le_word_le_bytes)
qed

subsection \<open>Frame headers\<close>

lemma chunk_capacity_exact:
  assumes "(c :: u16) \<le> MAX_CHUNKS_PER_FRAME"
  shows "unat ((ucast c :: u32) * word_of_nat MAX_VIDEO_CHUNK_BYTES) = unat c * MAX_VIDEO_CHUNK_BYTES"
proof -
  have "unat c \<le> 8192" using assms by (simp add: word_le_nat_alt MAX_CHUNKS_PER_FRAME_def)
  then show ?thesis
    by (simp add: unat_word_ariths MAX_VIDEO_CHUNK_BYTES_def unsigned_ucast_eq take_bit_nat_eq_self)
qed

lemma frame_header_validate_Inr:
  "frame_header_validate h = Inr u \<longleftrightarrow>
     unat (fh_total_chunks h) \<le> 8192 \<and>
     unat (fh_total_size h) \<le> unat (fh_total_chunks h) * MAX_VIDEO_CHUNK_BYTES"
  (is "?l \<longleftrightarrow> ?r")
proof (cases "fh_total_chunks h \<le> MAX_CHUNKS_PER_FRAME")
  case True
  then have c: "unat (fh_total_chunks h) \<le> 8192"
    by (simp add: word_le_nat_alt MAX_CHUNKS_PER_FRAME_def)
  then have "unat (fh_total_size h) \<le> unat MAX_FRAME_BYTES"
    if "unat (fh_total_size h) \<le> unat (fh_total_chunks h) * MAX_VIDEO_CHUNK_BYTES"
    using that by (simp add: media_limits)
  then show ?thesis
    using True c chunk_capacity_exact [OF True]
    by (auto simp: frame_header_validate_def Let_def word_less_nat_alt word_le_nat_alt not_less)
next
  case False
  then show ?thesis
    by (simp add: frame_header_validate_def word_le_nat_alt MAX_CHUNKS_PER_FRAME_def not_le
        word_less_nat_alt)
qed

lemma decode_frame_header_Inr:
  "decode_frame_header bs = Inr h \<longleftrightarrow>
     frame_header_validate h = Inr () \<and>
     (\<exists>key pad. bs = le_bytes 4 (fh_frame_id h) @ le_bytes 2 (fh_width h) @ le_bytes 2 (fh_height h) @
        key # le_bytes 2 (fh_total_chunks h) @ pad # le_bytes 4 (fh_total_size h) \<and>
        fh_is_key_frame h = (key \<noteq> 0))"
proof
  assume "decode_frame_header bs = Inr h"
  then show "frame_header_validate h = Inr () \<and>
     (\<exists>key pad. bs = le_bytes 4 (fh_frame_id h) @ le_bytes 2 (fh_width h) @ le_bytes 2 (fh_height h) @
        key # le_bytes 2 (fh_total_chunks h) @ pad # le_bytes 4 (fh_total_size h) \<and>
        fh_is_key_frame h = (key \<noteq> 0))"
    by (auto simp: decode_frame_header_def dec_inv dec_local Let_def)
next
  assume *: "frame_header_validate h = Inr () \<and>
     (\<exists>key pad. bs = le_bytes 4 (fh_frame_id h) @ le_bytes 2 (fh_width h) @ le_bytes 2 (fh_height h) @
        key # le_bytes 2 (fh_total_chunks h) @ pad # le_bytes 4 (fh_total_size h) \<and>
        fh_is_key_frame h = (key \<noteq> 0))"
  then obtain key pad where "bs = le_bytes 4 (fh_frame_id h) @ le_bytes 2 (fh_width h) @
      le_bytes 2 (fh_height h) @ key # le_bytes 2 (fh_total_chunks h) @ pad # le_bytes 4 (fh_total_size h)"
    "fh_is_key_frame h = (key \<noteq> 0)" by blast
  moreover have "frame_header_validate \<lparr>fh_frame_id = fh_frame_id h, fh_width = fh_width h,
      fh_height = fh_height h, fh_is_key_frame = fh_is_key_frame h,
      fh_total_chunks = fh_total_chunks h, fh_total_size = fh_total_size h\<rparr> = Inr ()"
    using * by (cases h) simp
  ultimately show "decode_frame_header bs = Inr h"
    by (simp add: decode_frame_header_def run_decoder_view dec_view dec_local Let_def)
qed

lemma encode_frame_header_Inr:
  "encode_frame_header h = Inr bs \<longleftrightarrow> frame_header_validate h = Inr () \<and>
     bs = le_bytes 4 (fh_frame_id h) @ le_bytes 2 (fh_width h) @ le_bytes 2 (fh_height h) @
       bool_u8 (fh_is_key_frame h) # le_bytes 2 (fh_total_chunks h) @ 0 # le_bytes 4 (fh_total_size h)"
  by (auto simp: encode_frame_header_def codec_defs Let_def)

interpretation frame_header: wire_codec encode_frame_header decode_frame_header "\<lambda>_. True"
proof unfold_locales
  fix h bs
  assume "encode_frame_header h = Inr bs"
  then show "decode_frame_header bs = Inr h"
    unfolding decode_frame_header_Inr encode_frame_header_Inr by auto
qed (auto simp: decode_frame_header_Inr encode_frame_header_Inr)

subsection \<open>Chunks, cursor updates and colour metadata\<close>

lemma decode_frame_chunk_Inr: "decode_frame_chunk bs = Inr v \<longleftrightarrow> encode_frame_chunk v = Inr bs"
proof
  assume "decode_frame_chunk bs = Inr v"
  then show "encode_frame_chunk v = Inr bs"
    by (auto simp: decode_frame_chunk_def encode_frame_chunk_def frame_chunk_validate_def dec_inv
        dec_local codec_defs Let_def split: if_splits)
next
  assume "encode_frame_chunk v = Inr bs"
  then show "decode_frame_chunk bs = Inr v"
    by (auto simp: decode_frame_chunk_def encode_frame_chunk_def frame_chunk_validate_def
        run_decoder_view dec_view dec_local codec_defs Let_def split: if_splits)
qed

interpretation frame_chunk: canonical_codec encode_frame_chunk decode_frame_chunk "\<lambda>_. True"
  by unfold_locales (auto simp: decode_frame_chunk_Inr)

lemma decode_cursor_update_Inr: "decode_cursor_update bs = Inr v \<longleftrightarrow> encode_cursor_update v = Inr bs"
proof
  assume "decode_cursor_update bs = Inr v"
  then show "encode_cursor_update v = Inr bs"
    by (auto simp: decode_cursor_update_def encode_cursor_update_def dec_inv dec_local codec_defs)
next
  assume "encode_cursor_update v = Inr bs"
  then show "decode_cursor_update bs = Inr v"
    by (auto simp: decode_cursor_update_def encode_cursor_update_def run_decoder_view dec_view
        dec_local codec_defs)
qed

interpretation cursor_update: canonical_codec encode_cursor_update decode_cursor_update "\<lambda>_. True"
  by unfold_locales (auto simp: decode_cursor_update_Inr)

lemma color_metadata_local [dec_local]: "slice_local color_metadata_decode_from"
  by (simp add: color_metadata_decode_from_def dec_local)

lemma view_color_metadata_Inr [dec_inv]:
  "view color_metadata_decode_from bs = Inr (v, r) \<longleftrightarrow> bs = color_metadata_encode_into v [] @ r"
proof
  assume "view color_metadata_decode_from bs = Inr (v, r)"
  then show "bs = color_metadata_encode_into v [] @ r"
    by (auto simp: color_metadata_decode_from_def color_metadata_encode_into_def dec_inv dec_local
        codec_defs split: if_splits)
next
  assume "bs = color_metadata_encode_into v [] @ r"
  then show "view color_metadata_decode_from bs = Inr (v, r)"
    by (cases "cm_range v"; cases "cm_matrix v"; cases "cm_chroma v"; cases v)
       (auto simp: color_metadata_decode_from_def color_metadata_encode_into_def dec_view dec_local
         codec_defs)
qed

lemma decode_color_metadata_Inr:
  "decode_color_metadata bs = Inr v \<longleftrightarrow> encode_color_metadata v = Inr bs"
  by (auto simp: decode_color_metadata_def encode_color_metadata_def dec_inv dec_local)

interpretation color_metadata: canonical_codec encode_color_metadata decode_color_metadata "\<lambda>_. True"
  by unfold_locales (auto simp: decode_color_metadata_Inr)

subsection \<open>Audio fragments\<close>

lemma decode_audio_fragment_header_Inr:
  "decode_audio_fragment_header bs = Inr v \<longleftrightarrow> encode_audio_fragment_header v = Inr bs"
proof
  assume "decode_audio_fragment_header bs = Inr v"
  then show "encode_audio_fragment_header v = Inr bs"
    by (auto simp: decode_audio_fragment_header_def encode_audio_fragment_header_def
        audio_fragment_header_to_bytes_def dec_inv dec_local codec_defs Let_def)
next
  assume "encode_audio_fragment_header v = Inr bs"
  then show "decode_audio_fragment_header bs = Inr v"
    by (cases v) (auto simp: decode_audio_fragment_header_def encode_audio_fragment_header_def
        audio_fragment_header_to_bytes_def run_decoder_view dec_view dec_local codec_defs Let_def)
qed

interpretation audio_fragment_header: canonical_codec
  encode_audio_fragment_header decode_audio_fragment_header "\<lambda>_. True"
  by unfold_locales (auto simp: decode_audio_fragment_header_Inr)

lemma decode_audio_fragment_Inr:
  "decode_audio_fragment bs = Inr v \<longleftrightarrow> encode_audio_fragment v = Inr bs"
proof
  assume "decode_audio_fragment bs = Inr v"
  then show "encode_audio_fragment v = Inr bs"
    by (auto simp: decode_audio_fragment_def encode_audio_fragment_def audio_fragment_validate_def
        encode_audio_fragment_header_def audio_fragment_header_to_bytes_def dec_inv dec_local
        codec_defs Let_def split: if_splits)
next
  assume "encode_audio_fragment v = Inr bs"
  moreover obtain h d where "v = \<lparr>af_header = h, af_data = d\<rparr>" by (cases v)
  ultimately show "decode_audio_fragment bs = Inr v"
    by (cases h) (auto simp: decode_audio_fragment_def encode_audio_fragment_def
        audio_fragment_validate_def encode_audio_fragment_header_def
        audio_fragment_header_to_bytes_def run_decoder_view dec_view dec_local codec_defs Let_def
        split: if_splits)
qed

interpretation audio_fragment: canonical_codec
  encode_audio_fragment decode_audio_fragment "\<lambda>_. True"
  by unfold_locales (auto simp: decode_audio_fragment_Inr)

section \<open>Properties\<close>

text \<open>Frame headers: a header that decodes has at most 8192 chunks and no more bytes than its
  chunks can carry, hence at most 11321344, below the byte cap; it encodes to 16 bytes that decode
  to it again. The capacity product of the check does not wrap.\<close>

theorem frame_header_decode_sound:
  assumes "decode_frame_header bs = Inr h"
  shows "unat (fh_total_chunks h) \<le> 8192 \<and>
    unat (fh_total_size h) \<le> unat (fh_total_chunks h) * 1382 \<and>
    unat (fh_total_size h) \<le> 11321344 \<and> length bs = frame_header_SIZE \<and>
    (\<exists>bs'. encode_frame_header h = Inr bs' \<and> decode_frame_header bs' = Inr h)"
proof -
  from assms have "frame_header_validate h = Inr ()" and len: "length bs = frame_header_SIZE"
    by (auto simp: decode_frame_header_Inr frame_header_SIZE_def)
  then have *: "unat (fh_total_chunks h) \<le> 8192"
    "unat (fh_total_size h) \<le> unat (fh_total_chunks h) * 1382"
    by (simp_all add: frame_header_validate_Inr MAX_VIDEO_CHUNK_BYTES_def)
  then have "unat (fh_total_size h) \<le> 11321344" by linarith
  with * len frame_header.decode_normalises [OF assms] show ?thesis by simp
qed

theorem frame_header_decode_sound_witness:
  "unat (fh_total_size \<lparr>fh_frame_id = 1, fh_width = 2, fh_height = 3, fh_is_key_frame = True,
     fh_total_chunks = 1, fh_total_size = 5\<rparr>) \<le> 11321344"
proof -
  have "decode_frame_header [1, 0, 0, 0, 2, 0, 3, 0, 9, 1, 0, 7, 5, 0, 0, 0] =
    Inr \<lparr>fh_frame_id = 1, fh_width = 2, fh_height = 3, fh_is_key_frame = True,
      fh_total_chunks = 1, fh_total_size = 5\<rparr>"
    unfolding decode_frame_header_Inr
    by (auto simp: frame_header_validate_Inr MAX_VIDEO_CHUNK_BYTES_def le_bytes_numeral)
  from frame_header_decode_sound [OF this] show ?thesis by simp
qed

text \<open>Audio fragments: an input decodes exactly when it encodes the fragment it decodes to,
  whose index is then below a non-zero count and whose data fits the datagram.\<close>

theorem audio_fragment_decode_iff:
  "(decode_audio_fragment bs = Inr v \<longleftrightarrow> encode_audio_fragment v = Inr bs) \<and>
   (encode_audio_fragment v = Inr bs \<longrightarrow>
      ah_fragment_index (af_header v) < ah_fragment_count (af_header v) \<and>
      length (af_data v) \<le> 1380 \<and> length bs = 8 + length (af_data v))"
  using audio_fragment.decode_iff [of bs v]
  by (auto simp: encode_audio_fragment_def audio_fragment_validate_def audio_fragment_header_validate_def
      encode_audio_fragment_header_def audio_fragment_header_to_bytes_def MAX_AUDIO_FRAGMENT_BYTES_def
      codec_defs not_le split: if_splits)

theorem audio_fragment_decode_iff_witness:
  "decode_audio_fragment [1, 0, 0, 0, 0, 0, 1, 0, 9] =
     Inr \<lparr>af_header = \<lparr>ah_frame_id = 1, ah_fragment_index = 0, ah_fragment_count = 1\<rparr>, af_data = [9]\<rparr>"
proof -
  have "encode_audio_fragment \<lparr>af_header = \<lparr>ah_frame_id = 1, ah_fragment_index = 0,
      ah_fragment_count = 1\<rparr>, af_data = [9]\<rparr> = Inr [1, 0, 0, 0, 0, 0, 1, 0, 9]"
    by (simp add: encode_audio_fragment_def audio_fragment_validate_def
        audio_fragment_header_validate_def encode_audio_fragment_header_def
        audio_fragment_header_to_bytes_def MAX_AUDIO_FRAGMENT_BYTES_def codec_defs le_bytes_numeral)
  with audio_fragment_decode_iff show ?thesis by blast
qed

text \<open>Timestamp statistics: the fixed 42-byte message decodes exactly from its encoding.\<close>

theorem timestamp_stats_roundtrip:
  "(decode_timestamp_stats bs = Some v \<longleftrightarrow> bs = encode_timestamp_stats v) \<and>
   length (encode_timestamp_stats v) = timestamp_stats_SIZE"
  by (simp add: decode_timestamp_stats_Some encode_timestamp_stats_app TIMESTAMP_STATS_MAGIC_def
      timestamp_stats_SIZE_def)

end
