(* ===== verification/Parity_Wire.thy ===== *)
theory Parity_Wire
  imports Codec
begin

text \<open>
  The parity messages of \<open>maho-proto/src/parity.rs\<close>: secure attention, host status, session
  end, guest permissions, pairing trust, clipboard image chunks and round-trip probes. Every one
  is a canonical codec.
\<close>

definition MAX_ACTIVE_GUESTS :: usize where "MAX_ACTIVE_GUESTS = 64"
definition MAX_GUEST_NAME_BYTES :: usize where "MAX_GUEST_NAME_BYTES = 1024"
definition MAX_CLIPBOARD_IMAGE_BYTES :: u32 where "MAX_CLIPBOARD_IMAGE_BYTES = 8 * 1024 * 1024"
definition MAX_CLIPBOARD_IMAGE_CHUNK_BYTES :: usize where "MAX_CLIPBOARD_IMAGE_CHUNK_BYTES = 64 * 1024"

definition PNG_SIGNATURE :: bytes where
  "PNG_SIGNATURE = [0x89, 0x50, 0x4E, 0x47, 0x0D, 0x0A, 0x1A, 0x0A]"

section \<open>Secure attention\<close>

record secure_attention_request =
  sareq_request_id :: u32

definition encode_secure_attention_request :: "secure_attention_request \<Rightarrow> codec_error + bytes" where
  "encode_secure_attention_request v = (let output = push_u32 [] (sareq_request_id v) in Inr output)"

definition decode_secure_attention_request :: "bytes \<Rightarrow> codec_error + secure_attention_request" where
  "decode_secure_attention_request input = run_decoder (
     dbind (dec_u32 ''secure attention request ID'') (\<lambda>request_id.
     dbind (dec_finish ''secure attention request'') (\<lambda>_.
     dret \<lparr>sareq_request_id = request_id\<rparr>))) input"

datatype secure_attention_result = Accepted | PermissionDenied | Unsupported | Failed

fun secure_attention_result_u8 :: "secure_attention_result \<Rightarrow> u8" where
  "secure_attention_result_u8 Accepted = 0"
| "secure_attention_result_u8 PermissionDenied = 1"
| "secure_attention_result_u8 Unsupported = 2"
| "secure_attention_result_u8 Failed = 3"

definition secure_attention_result_try_from :: "u8 \<Rightarrow> codec_error + secure_attention_result" where
  "secure_attention_result_try_from val =
     (if val = 0 then Inr Accepted
      else if val = 1 then Inr PermissionDenied
      else if val = 2 then Inr Unsupported
      else if val = 3 then Inr Failed
      else Inl (InvalidValue ''secure attention result'' (ucast val)))"

record secure_attention_response =
  sares_request_id :: u32
  sares_result :: secure_attention_result

definition encode_secure_attention_response :: "secure_attention_response \<Rightarrow> codec_error + bytes" where
  "encode_secure_attention_response v =
     (let output = push_u32 [] (sares_request_id v);
          output = push output (secure_attention_result_u8 (sares_result v))
      in Inr output)"

definition decode_secure_attention_response :: "bytes \<Rightarrow> codec_error + secure_attention_response" where
  "decode_secure_attention_response input = run_decoder (
     dbind (dec_u32 ''secure attention request ID'') (\<lambda>request_id.
     dbind (dec_u8 ''secure attention result'') (\<lambda>r.
     dbind (dlift (secure_attention_result_try_from r)) (\<lambda>result.
     dbind (dec_finish ''secure attention response'') (\<lambda>_.
     dret \<lparr>sares_request_id = request_id, sares_result = result\<rparr>))))) input"

section \<open>Host status\<close>

record host_status =
  hst_guest_names :: "rstring list"

definition active_guest_count :: "host_status \<Rightarrow> usize" where
  "active_guest_count v = length (hst_guest_names v)"

definition encode_guest_name :: "rstring \<Rightarrow> bytes \<Rightarrow> codec_error + bytes" where
  "encode_guest_name name output =
     try_bind (checked_bytes name ''guest name'' MAX_GUEST_NAME_BYTES) (\<lambda>bytes.
     try_bind (usize_to_u16 (length bytes) ''guest name'') (\<lambda>len.
     Inr (extend_from_slice (push_u16 output len) bytes)))"

definition encode_host_status :: "host_status \<Rightarrow> codec_error + bytes" where
  "encode_host_status v =
     (if length (hst_guest_names v) > MAX_ACTIVE_GUESTS
      then Inl (LengthLimit ''active guests'' (length (hst_guest_names v)) MAX_ACTIVE_GUESTS)
      else
      try_bind (usize_to_u16 (length (hst_guest_names v)) ''active guests'') (\<lambda>count.
      for_each encode_guest_name (hst_guest_names v) (push_u16 [] count)))"

definition decode_guest_name :: "rstring decode" where
  "decode_guest_name =
     dbind (dec_u16 ''guest name length'') (\<lambda>len.
     if unat len > MAX_GUEST_NAME_BYTES
     then derr (LengthLimit ''guest name'' (unat len) MAX_GUEST_NAME_BYTES)
     else dec_utf8 (unat len) ''guest name'')"

definition decode_host_status :: "bytes \<Rightarrow> codec_error + host_status" where
  "decode_host_status input = run_decoder (
     dbind (dec_u16 ''active guest count'') (\<lambda>count.
     if unat count > MAX_ACTIVE_GUESTS
     then derr (LengthLimit ''active guests'' (unat count) MAX_ACTIVE_GUESTS)
     else
     dbind (dec_repeat (unat count) decode_guest_name) (\<lambda>guest_names.
     dbind (dec_finish ''host status'') (\<lambda>_.
     dret \<lparr>hst_guest_names = guest_names\<rparr>)))) input"

section \<open>Session end\<close>

datatype session_end_reason = Kicked | HostStopped | PermissionRevoked | GuestExpired | HostShutdown

fun session_end_reason_u8 :: "session_end_reason \<Rightarrow> u8" where
  "session_end_reason_u8 Kicked = 0"
| "session_end_reason_u8 HostStopped = 1"
| "session_end_reason_u8 PermissionRevoked = 2"
| "session_end_reason_u8 GuestExpired = 3"
| "session_end_reason_u8 HostShutdown = 4"

definition session_end_reason_try_from :: "u8 \<Rightarrow> codec_error + session_end_reason" where
  "session_end_reason_try_from val =
     (if val = 0 then Inr Kicked
      else if val = 1 then Inr HostStopped
      else if val = 2 then Inr PermissionRevoked
      else if val = 3 then Inr GuestExpired
      else if val = 4 then Inr HostShutdown
      else Inl (InvalidValue ''session end reason'' (ucast val)))"

record session_ended =
  se_reason :: session_end_reason

definition encode_session_ended :: "session_ended \<Rightarrow> codec_error + bytes" where
  "encode_session_ended v = Inr [session_end_reason_u8 (se_reason v)]"

definition decode_session_ended :: "bytes \<Rightarrow> codec_error + session_ended" where
  "decode_session_ended input = run_decoder (
     dbind (dec_u8 ''session end reason'') (\<lambda>r.
     dbind (dlift (session_end_reason_try_from r)) (\<lambda>reason.
     dbind (dec_finish ''session ended'') (\<lambda>_.
     dret \<lparr>se_reason = reason\<rparr>)))) input"

section \<open>Guest permissions\<close>

record guest_permissions =
  gp_keyboard :: bool
  gp_mouse :: bool
  gp_gamepad :: bool
  gp_clipboard :: bool
  gp_audio :: bool

definition encode_guest_permissions :: "guest_permissions \<Rightarrow> codec_error + bytes" where
  "encode_guest_permissions v =
     Inr [bool_u8 (gp_keyboard v), bool_u8 (gp_mouse v), bool_u8 (gp_gamepad v),
          bool_u8 (gp_clipboard v), bool_u8 (gp_audio v)]"

text \<open>The closure \<open>read_bool\<close>; \<open>decode_bool\<close> of \<open>control.rs\<close> has the same body.\<close>

definition read_bool :: "string \<Rightarrow> bool decode" where
  "read_bool field =
     dbind (dec_u8 field) (\<lambda>val.
     if val = 0 then dret False
     else if val = 1 then dret True
     else derr (InvalidValue field (ucast val)))"

definition decode_guest_permissions :: "bytes \<Rightarrow> codec_error + guest_permissions" where
  "decode_guest_permissions input = run_decoder (
     dbind (read_bool ''guest keyboard'') (\<lambda>keyboard.
     dbind (read_bool ''guest mouse'') (\<lambda>mouse.
     dbind (read_bool ''guest gamepad'') (\<lambda>gamepad.
     dbind (read_bool ''guest clipboard'') (\<lambda>clipboard.
     dbind (read_bool ''guest audio'') (\<lambda>audio.
     dbind (dec_finish ''guest permissions'') (\<lambda>_.
     dret \<lparr>gp_keyboard = keyboard, gp_mouse = mouse, gp_gamepad = gamepad,
           gp_clipboard = clipboard, gp_audio = audio\<rparr>))))))) input"

section \<open>Pairing trust\<close>

datatype pairing_trust = Owner | GuestOnce | GuestExpiring u64

definition pairing_trust_default :: pairing_trust where
  "pairing_trust_default = Owner"

definition encode_pairing_trust :: "pairing_trust \<Rightarrow> codec_error + bytes" where
  "encode_pairing_trust v =
     try_bind (case v of
         Owner \<Rightarrow> Inr (0, 0)
       | GuestOnce \<Rightarrow> Inr (1, 0)
       | GuestExpiring expires_at_unix_ms \<Rightarrow>
           if expires_at_unix_ms = 0 then Inl (InvalidValue ''guest expiry'' 0)
           else Inr (2, expires_at_unix_ms))
       (\<lambda>(tag, expiry).
         let output = push [] tag;
             output = push_u64 output expiry
         in Inr output)"

definition pairing_trust_of :: "u8 \<Rightarrow> u64 \<Rightarrow> codec_error + pairing_trust" where
  "pairing_trust_of tag expiry =
     (if tag = 0 \<and> expiry = 0 then Inr Owner
      else if tag = 1 \<and> expiry = 0 then Inr GuestOnce
      else if tag = 2 \<and> 1 \<le> expiry then Inr (GuestExpiring expiry)
      else if tag \<le> 2 then Inl (InvalidValue ''guest expiry'' expiry)
      else Inl (InvalidValue ''pairing trust'' (ucast tag)))"

definition decode_pairing_trust :: "bytes \<Rightarrow> codec_error + pairing_trust" where
  "decode_pairing_trust input = run_decoder (
     dbind (dec_u8 ''pairing trust'') (\<lambda>tag.
     dbind (dec_u64 ''guest expiry'') (\<lambda>expiry.
     dbind (dec_finish ''pairing trust'') (\<lambda>_.
     dlift (pairing_trust_of tag expiry))))) input"

record pairing_trust_request =
  ptr_trust :: pairing_trust

definition encode_pairing_trust_request :: "pairing_trust_request \<Rightarrow> codec_error + bytes" where
  "encode_pairing_trust_request v = encode_pairing_trust (ptr_trust v)"

definition decode_pairing_trust_request :: "bytes \<Rightarrow> codec_error + pairing_trust_request" where
  "decode_pairing_trust_request input =
     try_bind (decode_pairing_trust input) (\<lambda>trust. Inr \<lparr>ptr_trust = trust\<rparr>)"

record pairing_trust_grant =
  ptg_trust :: pairing_trust

definition encode_pairing_trust_grant :: "pairing_trust_grant \<Rightarrow> codec_error + bytes" where
  "encode_pairing_trust_grant v = encode_pairing_trust (ptg_trust v)"

definition decode_pairing_trust_grant :: "bytes \<Rightarrow> codec_error + pairing_trust_grant" where
  "decode_pairing_trust_grant input =
     try_bind (decode_pairing_trust input) (\<lambda>trust. Inr \<lparr>ptg_trust = trust\<rparr>)"

section \<open>Clipboard image chunks\<close>

record clipboard_image_chunk =
  ci_transfer_id :: u32
  ci_total_bytes :: u32
  ci_offset :: u32
  ci_png_bytes :: bytes

text \<open>The sum \<open>u64::from(offset) + len as u64\<close> is taken at 64 bits.\<close>

definition clipboard_image_chunk_validate :: "clipboard_image_chunk \<Rightarrow> codec_error + unit" where
  "clipboard_image_chunk_validate c =
     (if ci_total_bytes c < word_of_nat (length PNG_SIGNATURE) \<or>
         ci_total_bytes c > MAX_CLIPBOARD_IMAGE_BYTES
      then Inl (InvalidValue ''clipboard image total bytes'' (ucast (ci_total_bytes c)))
      else if ci_png_bytes c = [] \<or> length (ci_png_bytes c) > MAX_CLIPBOARD_IMAGE_CHUNK_BYTES
      then Inl (LengthLimit ''clipboard image chunk'' (length (ci_png_bytes c))
                  MAX_CLIPBOARD_IMAGE_CHUNK_BYTES)
      else if (ucast (ci_offset c) :: u64) + word_of_nat (length (ci_png_bytes c)) >
              ucast (ci_total_bytes c)
      then Inl (InvalidValue ''clipboard image offset'' (ucast (ci_offset c)))
      else if ci_offset c = 0 \<and>
              take (length PNG_SIGNATURE) (ci_png_bytes c) \<noteq> PNG_SIGNATURE
      then Inl (InvalidValue ''PNG signature'' 0)
      else Inr ())"

definition encode_clipboard_image_chunk :: "clipboard_image_chunk \<Rightarrow> codec_error + bytes" where
  "encode_clipboard_image_chunk v =
     try_bind (clipboard_image_chunk_validate v) (\<lambda>_.
     let output = push_u32 [] (ci_transfer_id v);
         output = push_u32 output (ci_total_bytes v);
         output = push_u32 output (ci_offset v);
         output = extend_from_slice output (ci_png_bytes v)
     in Inr output)"

definition decode_clipboard_image_chunk :: "bytes \<Rightarrow> codec_error + clipboard_image_chunk" where
  "decode_clipboard_image_chunk input = run_decoder (
     dbind (dec_u32 ''clipboard image transfer ID'') (\<lambda>transfer_id.
     dbind (dec_u32 ''clipboard image total bytes'') (\<lambda>total_bytes.
     dbind (dec_u32 ''clipboard image offset'') (\<lambda>offset.
     dbind dec_get_remaining (\<lambda>remaining.
     if remaining > MAX_CLIPBOARD_IMAGE_CHUNK_BYTES
     then derr (LengthLimit ''clipboard image chunk'' remaining MAX_CLIPBOARD_IMAGE_CHUNK_BYTES)
     else
     dbind dec_take_remaining (\<lambda>png_bytes.
     let val = \<lparr>ci_transfer_id = transfer_id, ci_total_bytes = total_bytes, ci_offset = offset,
                ci_png_bytes = png_bytes\<rparr>
     in
     dbind (dlift (clipboard_image_chunk_validate val)) (\<lambda>_.
     dret val))))))) input"

section \<open>Round-trip probes\<close>

record rtt_probe =
  rtt_timestamp_us :: u64

definition encode_rtt_probe :: "rtt_probe \<Rightarrow> codec_error + bytes" where
  "encode_rtt_probe v = (let output = push_u64 [] (rtt_timestamp_us v) in Inr output)"

definition decode_rtt_probe :: "bytes \<Rightarrow> codec_error + rtt_probe" where
  "decode_rtt_probe input = run_decoder (
     dbind (dec_u64 ''RTT timestamp'') (\<lambda>timestamp_us.
     dbind (dec_finish ''RTT probe'') (\<lambda>_.
     dret \<lparr>rtt_timestamp_us = timestamp_us\<rparr>))) input"

section \<open>Lemmas\<close>

lemma decode_secure_attention_request_Inr:
  "decode_secure_attention_request bs = Inr v \<longleftrightarrow> encode_secure_attention_request v = Inr bs"
  by (cases v) (auto simp: decode_secure_attention_request_def encode_secure_attention_request_def
      dec_inv dec_local codec_defs)

interpretation secure_attention_request: canonical_codec
  encode_secure_attention_request decode_secure_attention_request "\<lambda>_. True"
  by unfold_locales (auto simp: decode_secure_attention_request_Inr)

lemma secure_attention_result_try_from_Inr:
  "secure_attention_result_try_from v = Inr t \<longleftrightarrow> v = secure_attention_result_u8 t"
  by (cases t) (auto simp: secure_attention_result_try_from_def split: if_splits)

lemma decode_secure_attention_response_Inr:
  "decode_secure_attention_response bs = Inr v \<longleftrightarrow> encode_secure_attention_response v = Inr bs"
  by (cases v) (auto simp: decode_secure_attention_response_def encode_secure_attention_response_def
      secure_attention_result_try_from_Inr dec_inv dec_local codec_defs)

interpretation secure_attention_response: canonical_codec
  encode_secure_attention_response decode_secure_attention_response "\<lambda>_. True"
  by unfold_locales (auto simp: decode_secure_attention_response_Inr)

subsection \<open>Host status\<close>

definition guest_name_wire :: "rstring \<Rightarrow> bytes" where
  "guest_name_wire name = le_bytes 2 (word_of_nat (length name) :: u16) @ name"

lemma encode_guest_name_Inr:
  "encode_guest_name name out = Inr out' \<longleftrightarrow>
     length name \<le> MAX_GUEST_NAME_BYTES \<and> out' = out @ guest_name_wire name"
  by (auto simp: encode_guest_name_def guest_name_wire_def codec_defs MAX_GUEST_NAME_BYTES_def)

lemma decode_guest_name_local [dec_local]: "slice_local decode_guest_name"
  by (simp add: decode_guest_name_def dec_local)

lemma view_guest_name_Inr:
  "view decode_guest_name bs = Inr (name, r) \<longleftrightarrow>
     (length name \<le> MAX_GUEST_NAME_BYTES \<and> utf8_valid name) \<and> bs = guest_name_wire name @ r"
proof
  assume "view decode_guest_name bs = Inr (name, r)"
  then show "(length name \<le> MAX_GUEST_NAME_BYTES \<and> utf8_valid name) \<and> bs = guest_name_wire name @ r"
    by (auto simp: decode_guest_name_def guest_name_wire_def dec_inv dec_local split: if_splits)
next
  assume "(length name \<le> MAX_GUEST_NAME_BYTES \<and> utf8_valid name) \<and> bs = guest_name_wire name @ r"
  then show "view decode_guest_name bs = Inr (name, r)"
    by (auto simp: decode_guest_name_def guest_name_wire_def dec_view dec_local
        MAX_GUEST_NAME_BYTES_def)
qed

definition host_status_inv :: "host_status \<Rightarrow> bool" where
  "host_status_inv v \<longleftrightarrow> list_all utf8_valid (hst_guest_names v)"

lemma decode_host_status_Inr:
  "decode_host_status bs = Inr v \<longleftrightarrow> host_status_inv v \<and> encode_host_status v = Inr bs"
proof
  note names = view_repeat_Inr [OF decode_guest_name_local view_guest_name_Inr]
  assume "decode_host_status bs = Inr v"
  then show "host_status_inv v \<and> encode_host_status v = Inr bs"
    by (auto simp: decode_host_status_def encode_host_status_def host_status_inv_def dec_inv dec_local
        names for_each_Inr [OF encode_guest_name_Inr] codec_defs MAX_ACTIVE_GUESTS_def
        list_all_iff split: if_splits)
next
  note names = view_repeat_Inr [OF decode_guest_name_local view_guest_name_Inr]
  assume *: "host_status_inv v \<and> encode_host_status v = Inr bs"
  then have n: "length (hst_guest_names v) \<le> 64"
    and bs: "bs = le_bytes 2 (word_of_nat (length (hst_guest_names v)) :: u16) @
      concat (map guest_name_wire (hst_guest_names v))"
    and ok: "list_all (\<lambda>n. length n \<le> MAX_GUEST_NAME_BYTES \<and> utf8_valid n) (hst_guest_names v)"
    by (auto simp: encode_host_status_def host_status_inv_def for_each_Inr [OF encode_guest_name_Inr]
        codec_defs MAX_ACTIVE_GUESTS_def list_all_iff split: if_splits)
  then have "view (dec_repeat (length (hst_guest_names v)) decode_guest_name)
      (concat (map guest_name_wire (hst_guest_names v))) = Inr (hst_guest_names v, [])"
    by (simp add: names)
  with n show "decode_host_status bs = Inr v"
    unfolding bs
    by (simp add: decode_host_status_def run_decoder_view dec_view dec_local MAX_ACTIVE_GUESTS_def)
qed

interpretation host_status: canonical_codec encode_host_status decode_host_status host_status_inv
  by unfold_locales (auto simp: decode_host_status_Inr)

subsection \<open>Session end and guest permissions\<close>

lemma session_end_reason_try_from_Inr:
  "session_end_reason_try_from v = Inr t \<longleftrightarrow> v = session_end_reason_u8 t"
  by (cases t) (auto simp: session_end_reason_try_from_def split: if_splits)

lemma decode_session_ended_Inr: "decode_session_ended bs = Inr v \<longleftrightarrow> encode_session_ended v = Inr bs"
  by (cases v) (auto simp: decode_session_ended_def encode_session_ended_def
      session_end_reason_try_from_Inr dec_inv dec_local)

interpretation session_ended: canonical_codec encode_session_ended decode_session_ended "\<lambda>_. True"
  by unfold_locales (auto simp: decode_session_ended_Inr)

lemma read_bool_local [dec_local]: "slice_local (read_bool f)"
  by (simp add: read_bool_def dec_local)

lemma view_read_bool_Inr [dec_inv]:
  "view (read_bool f) bs = Inr (b, r) \<longleftrightarrow> bs = bool_u8 b # r"
  by (cases bs; cases b) (auto simp: read_bool_def dec_view view_u8 dec_local)

lemma decode_guest_permissions_Inr:
  "decode_guest_permissions bs = Inr v \<longleftrightarrow> encode_guest_permissions v = Inr bs"
  by (cases v) (auto simp: decode_guest_permissions_def encode_guest_permissions_def dec_inv dec_local)

interpretation guest_permissions: canonical_codec
  encode_guest_permissions decode_guest_permissions "\<lambda>_. True"
  by unfold_locales (auto simp: decode_guest_permissions_Inr)

subsection \<open>Pairing trust\<close>

lemma pairing_trust_of_Inr:
  "pairing_trust_of tag expiry = Inr v \<longleftrightarrow>
     (case v of Owner \<Rightarrow> tag = 0 \<and> expiry = 0 | GuestOnce \<Rightarrow> tag = 1 \<and> expiry = 0
      | GuestExpiring e \<Rightarrow> tag = 2 \<and> e = expiry \<and> e \<noteq> 0)"
  by (auto simp: pairing_trust_of_def word_le_nat_alt Suc_le_eq unat_gt_0
      split: pairing_trust.splits if_splits)

lemma decode_pairing_trust_Inr:
  "decode_pairing_trust bs = Inr v \<longleftrightarrow> encode_pairing_trust v = Inr bs"
  by (auto simp: decode_pairing_trust_def encode_pairing_trust_def dec_inv dec_local codec_defs
      pairing_trust_of_Inr split: pairing_trust.splits if_splits)

interpretation pairing_trust: canonical_codec encode_pairing_trust decode_pairing_trust "\<lambda>_. True"
  by unfold_locales (auto simp: decode_pairing_trust_Inr)

lemma decode_pairing_trust_request_Inr:
  "decode_pairing_trust_request bs = Inr v \<longleftrightarrow> encode_pairing_trust_request v = Inr bs"
  by (cases v) (auto simp: decode_pairing_trust_request_def encode_pairing_trust_request_def
      decode_pairing_trust_Inr)

interpretation pairing_trust_request: canonical_codec
  encode_pairing_trust_request decode_pairing_trust_request "\<lambda>_. True"
  by unfold_locales (auto simp: decode_pairing_trust_request_Inr)

lemma decode_pairing_trust_grant_Inr:
  "decode_pairing_trust_grant bs = Inr v \<longleftrightarrow> encode_pairing_trust_grant v = Inr bs"
  by (cases v) (auto simp: decode_pairing_trust_grant_def encode_pairing_trust_grant_def
      decode_pairing_trust_Inr)

interpretation pairing_trust_grant: canonical_codec
  encode_pairing_trust_grant decode_pairing_trust_grant "\<lambda>_. True"
  by unfold_locales (auto simp: decode_pairing_trust_grant_Inr)

subsection \<open>Clipboard image chunks and probes\<close>

lemma clipboard_offset_exact:
  assumes "length bs \<le> MAX_CLIPBOARD_IMAGE_CHUNK_BYTES"
  shows "unat ((ucast (off :: u32) :: u64) + word_of_nat (length bs)) = unat off + length bs"
proof -
  have "unat off + length bs < 2 ^ 64"
    using assms unat_less_u32 [of off]
    by (simp add: MAX_CLIPBOARD_IMAGE_CHUNK_BYTES_def del: unat_less_u32)
  moreover have "(ucast off :: u64) + word_of_nat (length bs) = word_of_nat (unat off + length bs)"
    by simp
  ultimately show ?thesis
    using unat_of_nat_bounded [of "unat off + length bs", where 'a = 64] by (simp del: of_nat_add)
qed

lemma clipboard_image_chunk_validate_Inr:
  "clipboard_image_chunk_validate c = Inr u \<longleftrightarrow>
     8 \<le> unat (ci_total_bytes c) \<and> unat (ci_total_bytes c) \<le> 8 * 1024 * 1024 \<and>
     ci_png_bytes c \<noteq> [] \<and> length (ci_png_bytes c) \<le> MAX_CLIPBOARD_IMAGE_CHUNK_BYTES \<and>
     unat (ci_offset c) + length (ci_png_bytes c) \<le> unat (ci_total_bytes c) \<and>
     (ci_offset c = 0 \<longrightarrow> take 8 (ci_png_bytes c) = PNG_SIGNATURE)"
proof (cases "length (ci_png_bytes c) \<le> MAX_CLIPBOARD_IMAGE_CHUNK_BYTES")
  case True
  have "length PNG_SIGNATURE = 8" by (simp add: PNG_SIGNATURE_def)
  then show ?thesis
    using True clipboard_offset_exact [OF True, of "ci_offset c"]
    by (auto simp: clipboard_image_chunk_validate_def word_less_nat_alt
        MAX_CLIPBOARD_IMAGE_BYTES_def unsigned_ucast_eq take_bit_nat_eq_self not_less)
next
  case False
  then show ?thesis by (simp add: clipboard_image_chunk_validate_def)
qed

lemma decode_clipboard_image_chunk_Inr:
  "decode_clipboard_image_chunk bs = Inr v \<longleftrightarrow> encode_clipboard_image_chunk v = Inr bs"
proof
  assume "decode_clipboard_image_chunk bs = Inr v"
  then show "encode_clipboard_image_chunk v = Inr bs"
    by (auto simp: decode_clipboard_image_chunk_def encode_clipboard_image_chunk_def dec_inv dec_local
        codec_defs Let_def split: if_splits)
next
  assume "encode_clipboard_image_chunk v = Inr bs"
  moreover from this have "length (ci_png_bytes v) \<le> MAX_CLIPBOARD_IMAGE_CHUNK_BYTES"
    by (auto simp: encode_clipboard_image_chunk_def clipboard_image_chunk_validate_Inr)
  ultimately show "decode_clipboard_image_chunk bs = Inr v"
    by (cases v) (auto simp: decode_clipboard_image_chunk_def encode_clipboard_image_chunk_def
        run_decoder_view dec_view dec_local codec_defs Let_def)
qed

interpretation clipboard_image_chunk: canonical_codec
  encode_clipboard_image_chunk decode_clipboard_image_chunk "\<lambda>_. True"
  by unfold_locales (auto simp: decode_clipboard_image_chunk_Inr)

lemma decode_rtt_probe_Inr: "decode_rtt_probe bs = Inr v \<longleftrightarrow> encode_rtt_probe v = Inr bs"
  by (cases v) (auto simp: decode_rtt_probe_def encode_rtt_probe_def dec_inv dec_local codec_defs)

interpretation rtt_probe: canonical_codec encode_rtt_probe decode_rtt_probe "\<lambda>_. True"
  by unfold_locales (auto simp: decode_rtt_probe_Inr)

section \<open>Properties\<close>

text \<open>Clipboard image chunks: an input decodes exactly when it encodes the chunk, which is then
  non-empty, at most 64 KiB, inside an image of 8 bytes to 8 MiB (the sum of offset and length
  does not wrap), and starts with the PNG signature when it is the first.\<close>

theorem clipboard_chunk_decode_iff:
  "decode_clipboard_image_chunk bs = Inr c \<longleftrightarrow>
     bs = le_bytes 4 (ci_transfer_id c) @ le_bytes 4 (ci_total_bytes c) @ le_bytes 4 (ci_offset c) @
       ci_png_bytes c \<and>
     8 \<le> unat (ci_total_bytes c) \<and> unat (ci_total_bytes c) \<le> 8 * 1024 * 1024 \<and>
     0 < length (ci_png_bytes c) \<and> length (ci_png_bytes c) \<le> 64 * 1024 \<and>
     unat (ci_offset c) + length (ci_png_bytes c) \<le> unat (ci_total_bytes c) \<and>
     (ci_offset c = 0 \<longrightarrow> take 8 (ci_png_bytes c) = PNG_SIGNATURE)"
  using clipboard_image_chunk.decode_iff [of bs c]
  by (auto simp: encode_clipboard_image_chunk_def clipboard_image_chunk_validate_Inr codec_defs
      MAX_CLIPBOARD_IMAGE_CHUNK_BYTES_def Let_def)

theorem clipboard_chunk_decode_iff_witness:
  "decode_clipboard_image_chunk [1, 0, 0, 0, 16, 0, 0, 0, 8, 0, 0, 0, 5] =
     Inr \<lparr>ci_transfer_id = 1, ci_total_bytes = 16, ci_offset = 8, ci_png_bytes = [5]\<rparr>"
  using clipboard_chunk_decode_iff [of "[1, 0, 0, 0, 16, 0, 0, 0, 8, 0, 0, 0, 5]"
      "\<lparr>ci_transfer_id = 1, ci_total_bytes = 16, ci_offset = 8, ci_png_bytes = [5]\<rparr>"]
  by (simp add: le_bytes_numeral)

text \<open>Pairing trust: exactly the canonical forms decode, so an owner or one-time guest carries no
  expiry and an expiring guest always has one; an expiry of zero can be neither sent nor received.\<close>

theorem pairing_trust_canonical:
  "(decode_pairing_trust bs = Inr t \<longleftrightarrow> encode_pairing_trust t = Inr bs) \<and>
   encode_pairing_trust (GuestExpiring 0) = Inl (InvalidValue ''guest expiry'' 0) \<and>
   decode_pairing_trust bs \<noteq> Inr (GuestExpiring 0)"
  using pairing_trust.decode_iff [of bs t] pairing_trust.decode_iff [of bs "GuestExpiring 0"]
  by (simp add: encode_pairing_trust_def)

end
