(* ===== verification/Control_Body.thy ===== *)
theory Control_Body
  imports Parity_Wire
begin

text \<open>
  The bodies of the control messages of \<open>maho-proto/src/control.rs\<close>: bitrate, input
  acknowledgement, stream configuration and its problems, clipboard synchronisation, stream
  options, the host display list and the host policy. All but the acknowledgement are canonical;
  the acknowledgement accepts every non-zero success byte.
\<close>

definition MAX_CLIPBOARD_TEXT_BYTES :: usize where "MAX_CLIPBOARD_TEXT_BYTES = 4096"
definition MAX_HOST_DISPLAYS :: usize where "MAX_HOST_DISPLAYS = 16"
definition MAX_HOST_DISPLAY_NAME_BYTES :: usize where "MAX_HOST_DISPLAY_NAME_BYTES = 64"

section \<open>Bitrate and input acknowledgement\<close>

record bitrate_adjust =
  ba_target_bitrate :: i32

definition encode_bitrate_adjust :: "bitrate_adjust \<Rightarrow> codec_error + bytes" where
  "encode_bitrate_adjust v = (let output = push_i32 [] (ba_target_bitrate v) in Inr output)"

definition decode_bitrate_adjust :: "bytes \<Rightarrow> codec_error + bitrate_adjust" where
  "decode_bitrate_adjust input = run_decoder (
     dbind (dec_i32 ''target bitrate'') (\<lambda>target_bitrate.
     dbind (dec_finish ''bitrate adjustment'') (\<lambda>_.
     dret \<lparr>ba_target_bitrate = target_bitrate\<rparr>))) input"

record input_ack_message =
  ia_sequence :: u32
  ia_success :: bool
  ia_error_code :: u8

definition encode_input_ack_message :: "input_ack_message \<Rightarrow> codec_error + bytes" where
  "encode_input_ack_message v =
     (let output = push_u32 [] (ia_sequence v);
          output = push output (bool_u8 (ia_success v));
          output = push output (ia_error_code v)
      in Inr output)"

definition decode_input_ack_message :: "bytes \<Rightarrow> codec_error + input_ack_message" where
  "decode_input_ack_message input = run_decoder (
     dbind (dec_u32 ''input ack sequence'') (\<lambda>sequence.
     dbind (dec_u8 ''input ack success'') (\<lambda>success.
     dbind (dec_u8 ''input ack error code'') (\<lambda>error_code.
     dbind (dec_finish ''input ack message'') (\<lambda>_.
     dret \<lparr>ia_sequence = sequence, ia_success = (success \<noteq> 0), ia_error_code = error_code\<rparr>))))) input"

section \<open>Stream configuration\<close>

record stream_configuration =
  sc_width :: u32
  sc_height :: u32
  sc_bitrate :: u32
  sc_frames_per_second :: u16

definition stream_configuration_encode_into :: "stream_configuration \<Rightarrow> bytes \<Rightarrow> bytes" where
  "stream_configuration_encode_into v output =
     (let output = push_u32 output (sc_width v);
          output = push_u32 output (sc_height v);
          output = push_u32 output (sc_bitrate v);
          output = push_u16 output (sc_frames_per_second v)
      in output)"

definition stream_configuration_decode_from :: "stream_configuration decode" where
  "stream_configuration_decode_from =
     dbind (dec_u32 ''stream width'') (\<lambda>width.
     dbind (dec_u32 ''stream height'') (\<lambda>height.
     dbind (dec_u32 ''stream bitrate'') (\<lambda>bitrate.
     dbind (dec_u16 ''stream frames per second'') (\<lambda>frames_per_second.
     dret \<lparr>sc_width = width, sc_height = height, sc_bitrate = bitrate,
           sc_frames_per_second = frames_per_second\<rparr>))))"

definition encode_stream_configuration :: "stream_configuration \<Rightarrow> codec_error + bytes" where
  "encode_stream_configuration v = Inr (stream_configuration_encode_into v [])"

definition decode_stream_configuration :: "bytes \<Rightarrow> codec_error + stream_configuration" where
  "decode_stream_configuration input = run_decoder (
     dbind stream_configuration_decode_from (\<lambda>val.
     dbind (dec_finish ''stream configuration'') (\<lambda>_. dret val))) input"

record stream_configuration_request =
  screq_request_id :: u32
  screq_desired :: stream_configuration

definition encode_stream_configuration_request ::
  "stream_configuration_request \<Rightarrow> codec_error + bytes" where
  "encode_stream_configuration_request v =
     (let output = push_u32 [] (screq_request_id v);
          output = stream_configuration_encode_into (screq_desired v) output
      in Inr output)"

definition decode_stream_configuration_request ::
  "bytes \<Rightarrow> codec_error + stream_configuration_request" where
  "decode_stream_configuration_request input = run_decoder (
     dbind (dec_u32 ''stream request ID'') (\<lambda>request_id.
     dbind stream_configuration_decode_from (\<lambda>desired.
     dbind (dec_finish ''stream configuration request'') (\<lambda>_.
     dret \<lparr>screq_request_id = request_id, screq_desired = desired\<rparr>)))) input"

record stream_configuration_response =
  scres_request_id :: u32
  scres_active :: stream_configuration

definition encode_stream_configuration_response ::
  "stream_configuration_response \<Rightarrow> codec_error + bytes" where
  "encode_stream_configuration_response v =
     (let output = push_u32 [] (scres_request_id v);
          output = stream_configuration_encode_into (scres_active v) output
      in Inr output)"

definition decode_stream_configuration_response ::
  "bytes \<Rightarrow> codec_error + stream_configuration_response" where
  "decode_stream_configuration_response input = run_decoder (
     dbind (dec_u32 ''stream response ID'') (\<lambda>request_id.
     dbind stream_configuration_decode_from (\<lambda>active.
     dbind (dec_finish ''stream configuration response'') (\<lambda>_.
     dret \<lparr>scres_request_id = request_id, scres_active = active\<rparr>)))) input"

section \<open>Stream configuration problems\<close>

datatype stream_configuration_error_code =
    InvalidRequest | UnsupportedDimensions | UnsupportedBitrate | UnsupportedFps | RejectedByPeer

fun stream_configuration_error_code_u8 :: "stream_configuration_error_code \<Rightarrow> u8" where
  "stream_configuration_error_code_u8 InvalidRequest = 0"
| "stream_configuration_error_code_u8 UnsupportedDimensions = 1"
| "stream_configuration_error_code_u8 UnsupportedBitrate = 2"
| "stream_configuration_error_code_u8 UnsupportedFps = 3"
| "stream_configuration_error_code_u8 RejectedByPeer = 4"

definition stream_configuration_error_code_try_from ::
  "u8 \<Rightarrow> codec_error + stream_configuration_error_code" where
  "stream_configuration_error_code_try_from val =
     (if val = 0 then Inr InvalidRequest
      else if val = 1 then Inr UnsupportedDimensions
      else if val = 2 then Inr UnsupportedBitrate
      else if val = 3 then Inr UnsupportedFps
      else if val = 4 then Inr RejectedByPeer
      else Inl (UnknownStreamConfigurationErrorCode val))"

definition encode_stream_problem ::
  "u32 \<Rightarrow> stream_configuration_error_code \<Rightarrow> rstring \<Rightarrow> codec_error + bytes" where
  "encode_stream_problem request_id code message =
     try_bind (checked_bytes message ''stream configuration message'' (2 ^ 16 - 1)) (\<lambda>message.
     let output = push_u32 [] request_id;
         output = push output (stream_configuration_error_code_u8 code)
     in
     try_bind (usize_to_u16 (length message) ''stream configuration message'') (\<lambda>len.
     let output = push_u16 output len;
         output = extend_from_slice output message
     in Inr output))"

definition decode_stream_problem ::
  "bytes \<Rightarrow> string \<Rightarrow> codec_error + u32 \<times> stream_configuration_error_code \<times> rstring" where
  "decode_stream_problem input field = run_decoder (
     dbind (dec_u32 ''stream problem request ID'') (\<lambda>request_id.
     dbind (dec_u8 ''stream problem code'') (\<lambda>c.
     dbind (dlift (stream_configuration_error_code_try_from c)) (\<lambda>code.
     dbind (dec_u16 ''stream problem message length'') (\<lambda>message_length.
     dbind (dec_utf8 (unat message_length) ''stream configuration message'') (\<lambda>message.
     dbind (dec_finish field) (\<lambda>_.
     dret (request_id, code, message))))))) ) input"

record stream_configuration_reject =
  scrj_request_id :: u32
  scrj_reason :: stream_configuration_error_code
  scrj_message :: rstring

definition encode_stream_configuration_reject ::
  "stream_configuration_reject \<Rightarrow> codec_error + bytes" where
  "encode_stream_configuration_reject v =
     encode_stream_problem (scrj_request_id v) (scrj_reason v) (scrj_message v)"

definition decode_stream_configuration_reject ::
  "bytes \<Rightarrow> codec_error + stream_configuration_reject" where
  "decode_stream_configuration_reject input =
     try_bind (decode_stream_problem input ''stream configuration reject'')
       (\<lambda>(request_id, reason, message).
          Inr \<lparr>scrj_request_id = request_id, scrj_reason = reason, scrj_message = message\<rparr>)"

record stream_configuration_error =
  scer_request_id :: u32
  scer_error_code :: stream_configuration_error_code
  scer_message :: rstring

definition encode_stream_configuration_error ::
  "stream_configuration_error \<Rightarrow> codec_error + bytes" where
  "encode_stream_configuration_error v =
     encode_stream_problem (scer_request_id v) (scer_error_code v) (scer_message v)"

definition decode_stream_configuration_error ::
  "bytes \<Rightarrow> codec_error + stream_configuration_error" where
  "decode_stream_configuration_error input =
     try_bind (decode_stream_problem input ''stream configuration error'')
       (\<lambda>(request_id, error_code, message).
          Inr \<lparr>scer_request_id = request_id, scer_error_code = error_code, scer_message = message\<rparr>)"

section \<open>Clipboard synchronisation\<close>

datatype clipboard_sync_direction = HostToClient | ClientToHost | Bidirectional
datatype clipboard_sync_origin = LocalPasteboard | RemotePasteboard | SyncedFromPeer

fun clipboard_sync_direction_u8 :: "clipboard_sync_direction \<Rightarrow> u8" where
  "clipboard_sync_direction_u8 HostToClient = 0"
| "clipboard_sync_direction_u8 ClientToHost = 1"
| "clipboard_sync_direction_u8 Bidirectional = 2"

definition clipboard_sync_direction_try_from :: "u8 \<Rightarrow> codec_error + clipboard_sync_direction" where
  "clipboard_sync_direction_try_from val =
     (if val = 0 then Inr HostToClient
      else if val = 1 then Inr ClientToHost
      else if val = 2 then Inr Bidirectional
      else Inl (UnknownClipboardDirection val))"

fun clipboard_sync_origin_u8 :: "clipboard_sync_origin \<Rightarrow> u8" where
  "clipboard_sync_origin_u8 LocalPasteboard = 0"
| "clipboard_sync_origin_u8 RemotePasteboard = 1"
| "clipboard_sync_origin_u8 SyncedFromPeer = 2"

definition clipboard_sync_origin_try_from :: "u8 \<Rightarrow> codec_error + clipboard_sync_origin" where
  "clipboard_sync_origin_try_from val =
     (if val = 0 then Inr LocalPasteboard
      else if val = 1 then Inr RemotePasteboard
      else if val = 2 then Inr SyncedFromPeer
      else Inl (UnknownClipboardOrigin val))"

record clipboard_sync_request =
  csr_request_id :: u32
  csr_direction :: clipboard_sync_direction
  csr_origin :: clipboard_sync_origin

definition encode_clipboard_sync_request :: "clipboard_sync_request \<Rightarrow> codec_error + bytes" where
  "encode_clipboard_sync_request v =
     (let output = push_u32 [] (csr_request_id v);
          output = push output (clipboard_sync_direction_u8 (csr_direction v));
          output = push output (clipboard_sync_origin_u8 (csr_origin v))
      in Inr output)"

definition decode_clipboard_sync_request :: "bytes \<Rightarrow> codec_error + clipboard_sync_request" where
  "decode_clipboard_sync_request input = run_decoder (
     dbind (dec_u32 ''clipboard request ID'') (\<lambda>request_id.
     dbind (dec_u8 ''clipboard direction'') (\<lambda>d.
     dbind (dlift (clipboard_sync_direction_try_from d)) (\<lambda>direction.
     dbind (dec_u8 ''clipboard origin'') (\<lambda>g.
     dbind (dlift (clipboard_sync_origin_try_from g)) (\<lambda>origin.
     dbind (dec_finish ''clipboard sync request'') (\<lambda>_.
     dret \<lparr>csr_request_id = request_id, csr_direction = direction, csr_origin = origin\<rparr>)))))) ) input"

record clipboard_sync_update =
  csu_request_id :: u32
  csu_direction :: clipboard_sync_direction
  csu_origin :: clipboard_sync_origin
  csu_text :: rstring

definition encode_clipboard_sync_update :: "clipboard_sync_update \<Rightarrow> codec_error + bytes" where
  "encode_clipboard_sync_update v =
     try_bind (checked_bytes (csu_text v) ''clipboard text'' MAX_CLIPBOARD_TEXT_BYTES) (\<lambda>txt.
     let output = push_u32 [] (csu_request_id v);
         output = push output (clipboard_sync_direction_u8 (csu_direction v));
         output = push output (clipboard_sync_origin_u8 (csu_origin v))
     in
     try_bind (usize_to_u16 (length txt) ''clipboard text'') (\<lambda>len.
     let output = push_u16 output len;
         output = extend_from_slice output txt
     in Inr output))"

definition decode_clipboard_sync_update :: "bytes \<Rightarrow> codec_error + clipboard_sync_update" where
  "decode_clipboard_sync_update input = run_decoder (
     dbind (dec_u32 ''clipboard update ID'') (\<lambda>request_id.
     dbind (dec_u8 ''clipboard direction'') (\<lambda>d.
     dbind (dlift (clipboard_sync_direction_try_from d)) (\<lambda>direction.
     dbind (dec_u8 ''clipboard origin'') (\<lambda>g.
     dbind (dlift (clipboard_sync_origin_try_from g)) (\<lambda>origin.
     dbind (dec_u16 ''clipboard text length'') (\<lambda>text_length.
     if unat text_length > MAX_CLIPBOARD_TEXT_BYTES
     then derr (LengthLimit ''clipboard text'' (unat text_length) MAX_CLIPBOARD_TEXT_BYTES)
     else
     dbind (dec_utf8 (unat text_length) ''clipboard text'') (\<lambda>txt.
     dbind (dec_finish ''clipboard sync update'') (\<lambda>_.
     dret \<lparr>csu_request_id = request_id, csu_direction = direction, csu_origin = origin,
           csu_text = txt\<rparr>)))))))) ) input"

record clipboard_sync_error =
  cse_request_id :: u32
  cse_direction :: clipboard_sync_direction
  cse_origin :: clipboard_sync_origin
  cse_error_code :: u8
  cse_message :: rstring

definition encode_clipboard_sync_error :: "clipboard_sync_error \<Rightarrow> codec_error + bytes" where
  "encode_clipboard_sync_error v =
     try_bind (checked_bytes (cse_message v) ''clipboard error message'' (2 ^ 16 - 1)) (\<lambda>message.
     let output = push_u32 [] (cse_request_id v);
         output = push output (clipboard_sync_direction_u8 (cse_direction v));
         output = push output (clipboard_sync_origin_u8 (cse_origin v));
         output = push output (cse_error_code v)
     in
     try_bind (usize_to_u16 (length message) ''clipboard error message'') (\<lambda>len.
     let output = push_u16 output len;
         output = extend_from_slice output message
     in Inr output))"

definition decode_clipboard_sync_error :: "bytes \<Rightarrow> codec_error + clipboard_sync_error" where
  "decode_clipboard_sync_error input = run_decoder (
     dbind (dec_u32 ''clipboard error ID'') (\<lambda>request_id.
     dbind (dec_u8 ''clipboard direction'') (\<lambda>d.
     dbind (dlift (clipboard_sync_direction_try_from d)) (\<lambda>direction.
     dbind (dec_u8 ''clipboard origin'') (\<lambda>g.
     dbind (dlift (clipboard_sync_origin_try_from g)) (\<lambda>origin.
     dbind (dec_u8 ''clipboard error code'') (\<lambda>error_code.
     dbind (dec_u16 ''clipboard error message length'') (\<lambda>message_length.
     dbind (dec_utf8 (unat message_length) ''clipboard error message'') (\<lambda>message.
     dbind (dec_finish ''clipboard sync error'') (\<lambda>_.
     dret \<lparr>cse_request_id = request_id, cse_direction = direction, cse_origin = origin,
           cse_error_code = error_code, cse_message = message\<rparr>))))))))) ) input"

section \<open>Stream options\<close>

datatype stream_codec_preference = Auto | H264 | Hevc

fun stream_codec_preference_u8 :: "stream_codec_preference \<Rightarrow> u8" where
  "stream_codec_preference_u8 Auto = 0"
| "stream_codec_preference_u8 H264 = 1"
| "stream_codec_preference_u8 Hevc = 2"

definition stream_codec_preference_try_from :: "u8 \<Rightarrow> codec_error + stream_codec_preference" where
  "stream_codec_preference_try_from val =
     (if val = 0 then Inr Auto
      else if val = 1 then Inr H264
      else if val = 2 then Inr Hevc
      else Inl (InvalidValue ''stream codec'' (ucast val)))"

definition decode_bool :: "string \<Rightarrow> bool decode" where
  "decode_bool field =
     dbind (dec_u8 field) (\<lambda>val.
     if val = 0 then dret False
     else if val = 1 then dret True
     else derr (InvalidValue field (ucast val)))"

record stream_options_request =
  sor_request_id :: u32
  sor_scale_permille :: u16
  sor_fps :: u16
  sor_codec :: stream_codec_preference
  sor_display_index :: u8
  sor_bitrate :: u32

definition encode_stream_options_request :: "stream_options_request \<Rightarrow> codec_error + bytes" where
  "encode_stream_options_request v =
     (let output = push_u32 [] (sor_request_id v);
          output = push_u16 output (sor_scale_permille v);
          output = push_u16 output (sor_fps v);
          output = push output (stream_codec_preference_u8 (sor_codec v));
          output = push output (sor_display_index v);
          output = push_u32 output (sor_bitrate v)
      in Inr output)"

definition decode_stream_options_request :: "bytes \<Rightarrow> codec_error + stream_options_request" where
  "decode_stream_options_request input = run_decoder (
     dbind (dec_u32 ''stream options request id'') (\<lambda>request_id.
     dbind (dec_u16 ''stream options scale permille'') (\<lambda>scale_permille.
     dbind (dec_u16 ''stream options fps'') (\<lambda>fps.
     dbind (dec_u8 ''stream codec'') (\<lambda>c.
     dbind (dlift (stream_codec_preference_try_from c)) (\<lambda>codec.
     dbind (dec_u8 ''stream options display index'') (\<lambda>display_index.
     dbind (dec_u32 ''stream options bitrate'') (\<lambda>bitrate.
     dbind (dec_finish ''stream options request'') (\<lambda>_.
     dret \<lparr>sor_request_id = request_id, sor_scale_permille = scale_permille, sor_fps = fps,
           sor_codec = codec, sor_display_index = display_index, sor_bitrate = bitrate\<rparr>)))))))) ) input"

record stream_options_active =
  soa_request_id :: u32
  soa_width :: u32
  soa_height :: u32
  soa_fps :: u16
  soa_codec :: stream_codec_preference
  soa_display_index :: u8
  soa_bitrate :: u32

definition encode_stream_options_active :: "stream_options_active \<Rightarrow> codec_error + bytes" where
  "encode_stream_options_active v =
     (let output = push_u32 [] (soa_request_id v);
          output = push_u32 output (soa_width v);
          output = push_u32 output (soa_height v);
          output = push_u16 output (soa_fps v);
          output = push output (stream_codec_preference_u8 (soa_codec v));
          output = push output (soa_display_index v);
          output = push_u32 output (soa_bitrate v)
      in Inr output)"

definition decode_stream_options_active :: "bytes \<Rightarrow> codec_error + stream_options_active" where
  "decode_stream_options_active input = run_decoder (
     dbind (dec_u32 ''stream options active request id'') (\<lambda>request_id.
     dbind (dec_u32 ''stream options active width'') (\<lambda>width.
     dbind (dec_u32 ''stream options active height'') (\<lambda>height.
     dbind (dec_u16 ''stream options active fps'') (\<lambda>fps.
     dbind (dec_u8 ''stream codec'') (\<lambda>c.
     dbind (dlift (stream_codec_preference_try_from c)) (\<lambda>codec.
     dbind (dec_u8 ''stream options active display index'') (\<lambda>display_index.
     dbind (dec_u32 ''stream options active bitrate'') (\<lambda>bitrate.
     dbind (dec_finish ''stream options active'') (\<lambda>_.
     dret \<lparr>soa_request_id = request_id, soa_width = width, soa_height = height, soa_fps = fps,
           soa_codec = codec, soa_display_index = display_index, soa_bitrate = bitrate\<rparr>))))))))) ) input"

section \<open>Host displays and policy\<close>

record host_display =
  hd_index :: u8
  hd_width :: u32
  hd_height :: u32
  hd_primary :: bool
  hd_name :: rstring

record host_display_list =
  hdl_displays :: "host_display list"

text \<open>The first loop of \<open>encode\<close> checks the names and adds up the capacity, the second one
  writes.\<close>

primrec check_display_names :: "host_display list \<Rightarrow> usize \<Rightarrow> codec_error + usize" where
  "check_display_names [] total_size = Inr total_size"
| "check_display_names (display # displays) total_size =
     (let name_bytes = hd_name display
      in if length name_bytes > MAX_HOST_DISPLAY_NAME_BYTES
         then Inl (LengthLimit ''host display name'' (length name_bytes) MAX_HOST_DISPLAY_NAME_BYTES)
         else check_display_names displays (total_size + (1 + 4 + 4 + 1 + 1 + length name_bytes)))"

definition encode_host_display :: "host_display \<Rightarrow> bytes \<Rightarrow> bytes" where
  "encode_host_display display output =
     (let name_bytes = hd_name display;
          output = push output (hd_index display);
          output = push_u32 output (hd_width display);
          output = push_u32 output (hd_height display);
          output = push output (bool_u8 (hd_primary display));
          output = push output (word_of_nat (length name_bytes));
          output = extend_from_slice output name_bytes
      in output)"

definition encode_host_display_list :: "host_display_list \<Rightarrow> codec_error + bytes" where
  "encode_host_display_list v =
     (if length (hdl_displays v) > MAX_HOST_DISPLAYS
      then Inl (LengthLimit ''host display count'' (length (hdl_displays v)) MAX_HOST_DISPLAYS)
      else try_bind (check_display_names (hdl_displays v) 1) (\<lambda>_.
        let output = push [] (word_of_nat (length (hdl_displays v)))
        in Inr (fold encode_host_display (hdl_displays v) output)))"

definition decode_host_display :: "host_display decode" where
  "decode_host_display =
     dbind (dec_u8 ''host display index'') (\<lambda>index.
     dbind (dec_u32 ''host display width'') (\<lambda>width.
     dbind (dec_u32 ''host display height'') (\<lambda>height.
     dbind (decode_bool ''host display primary'') (\<lambda>primary.
     dbind (dec_u8 ''host display name length'') (\<lambda>name_len.
     if unat name_len > MAX_HOST_DISPLAY_NAME_BYTES
     then derr (LengthLimit ''host display name'' (unat name_len) MAX_HOST_DISPLAY_NAME_BYTES)
     else
     dbind (dec_utf8 (unat name_len) ''host display name'') (\<lambda>name.
     dret \<lparr>hd_index = index, hd_width = width, hd_height = height, hd_primary = primary,
           hd_name = name\<rparr>))))))"

definition decode_host_display_list :: "bytes \<Rightarrow> codec_error + host_display_list" where
  "decode_host_display_list input = run_decoder (
     dbind (dec_u8 ''host display count'') (\<lambda>count.
     if unat count > MAX_HOST_DISPLAYS
     then derr (LengthLimit ''host display count'' (unat count) MAX_HOST_DISPLAYS)
     else
     dbind (dec_repeat (unat count) decode_host_display) (\<lambda>displays.
     dbind (dec_finish ''host display list'') (\<lambda>_.
     dret \<lparr>hdl_displays = displays\<rparr>)))) input"

record host_policy =
  hp_allow_input :: bool
  hp_allow_clipboard :: bool

definition encode_host_policy :: "host_policy \<Rightarrow> codec_error + bytes" where
  "encode_host_policy v =
     (let output = push [] (bool_u8 (hp_allow_input v));
          output = push output (bool_u8 (hp_allow_clipboard v))
      in Inr output)"

definition decode_host_policy :: "bytes \<Rightarrow> codec_error + host_policy" where
  "decode_host_policy input = run_decoder (
     dbind (decode_bool ''host policy allow_input'') (\<lambda>allow_input.
     dbind (decode_bool ''host policy allow_clipboard'') (\<lambda>allow_clipboard.
     dbind (dec_finish ''host policy'') (\<lambda>_.
     dret \<lparr>hp_allow_input = allow_input, hp_allow_clipboard = allow_clipboard\<rparr>)))) input"

section \<open>Lemmas\<close>

subsection \<open>Bitrate and input acknowledgement\<close>

lemma decode_bitrate_adjust_Inr:
  "decode_bitrate_adjust bs = Inr v \<longleftrightarrow> encode_bitrate_adjust v = Inr bs"
  by (cases v) (auto simp: decode_bitrate_adjust_def encode_bitrate_adjust_def dec_inv dec_local
      codec_defs)

interpretation bitrate_adjust: canonical_codec encode_bitrate_adjust decode_bitrate_adjust "\<lambda>_. True"
  by unfold_locales (auto simp: decode_bitrate_adjust_Inr)

lemma decode_input_ack_message_Inr:
  "decode_input_ack_message bs = Inr v \<longleftrightarrow>
     (\<exists>s. bs = le_bytes 4 (ia_sequence v) @ [s, ia_error_code v] \<and> ia_success v = (s \<noteq> 0))"
  by (cases v) (auto simp: decode_input_ack_message_def dec_inv dec_local)

interpretation input_ack_message: wire_codec
  encode_input_ack_message decode_input_ack_message "\<lambda>_. True"
  by unfold_locales (auto simp: decode_input_ack_message_Inr encode_input_ack_message_def codec_defs)

subsection \<open>Stream configuration\<close>

lemma stream_configuration_local [dec_local]: "slice_local stream_configuration_decode_from"
  by (simp add: stream_configuration_decode_from_def dec_local)

lemma stream_configuration_encode_into_append:
  "stream_configuration_encode_into v out = out @ stream_configuration_encode_into v []"
  by (simp add: stream_configuration_encode_into_def codec_defs)

lemma view_stream_configuration_Inr [dec_inv]:
  "view stream_configuration_decode_from bs = Inr (v, r) \<longleftrightarrow>
     bs = stream_configuration_encode_into v [] @ r"
  by (cases v) (auto simp: stream_configuration_decode_from_def stream_configuration_encode_into_def
      dec_inv dec_local codec_defs)

lemma decode_stream_configuration_Inr:
  "decode_stream_configuration bs = Inr v \<longleftrightarrow> encode_stream_configuration v = Inr bs"
  by (auto simp: decode_stream_configuration_def encode_stream_configuration_def dec_inv dec_local)

interpretation stream_configuration: canonical_codec
  encode_stream_configuration decode_stream_configuration "\<lambda>_. True"
  by unfold_locales (auto simp: decode_stream_configuration_Inr)

lemma decode_stream_configuration_request_Inr:
  "decode_stream_configuration_request bs = Inr v \<longleftrightarrow> encode_stream_configuration_request v = Inr bs"
  by (cases v)
     (auto simp: decode_stream_configuration_request_def encode_stream_configuration_request_def
       stream_configuration_encode_into_append [of _ "le_bytes _ _"] dec_inv dec_local codec_defs)

interpretation stream_configuration_request: canonical_codec
  encode_stream_configuration_request decode_stream_configuration_request "\<lambda>_. True"
  by unfold_locales (auto simp: decode_stream_configuration_request_Inr)

lemma decode_stream_configuration_response_Inr:
  "decode_stream_configuration_response bs = Inr v \<longleftrightarrow> encode_stream_configuration_response v = Inr bs"
  by (cases v)
     (auto simp: decode_stream_configuration_response_def encode_stream_configuration_response_def
       stream_configuration_encode_into_append [of _ "le_bytes _ _"] dec_inv dec_local codec_defs)

interpretation stream_configuration_response: canonical_codec
  encode_stream_configuration_response decode_stream_configuration_response "\<lambda>_. True"
  by unfold_locales (auto simp: decode_stream_configuration_response_Inr)

subsection \<open>Stream configuration problems\<close>

lemma stream_configuration_error_code_try_from_Inr:
  "stream_configuration_error_code_try_from v = Inr t \<longleftrightarrow> v = stream_configuration_error_code_u8 t"
  by (cases t) (auto simp: stream_configuration_error_code_try_from_def split: if_splits)

lemma decode_stream_problem_Inr:
  "decode_stream_problem bs f = Inr (i, c, m) \<longleftrightarrow> utf8_valid m \<and> encode_stream_problem i c m = Inr bs"
proof -
  have "decode_stream_problem bs f = Inr (i, c, m) \<longleftrightarrow> utf8_valid m \<and>
    (\<exists>len :: u16. length m = unat len \<and>
       bs = le_bytes 4 i @ stream_configuration_error_code_u8 c # le_bytes 2 len @ m)"
    by (auto simp: decode_stream_problem_def dec_inv dec_local
        stream_configuration_error_code_try_from_Inr)
  also have "\<dots> \<longleftrightarrow> utf8_valid m \<and> encode_stream_problem i c m = Inr bs"
    by (auto simp: encode_stream_problem_def codec_defs Let_def intro!: exI [of _ "word_of_nat (length m)"])
  finally show ?thesis .
qed

definition stream_configuration_reject_inv :: "stream_configuration_reject \<Rightarrow> bool" where
  "stream_configuration_reject_inv v \<longleftrightarrow> utf8_valid (scrj_message v)"

definition stream_configuration_error_inv :: "stream_configuration_error \<Rightarrow> bool" where
  "stream_configuration_error_inv v \<longleftrightarrow> utf8_valid (scer_message v)"

lemma decode_stream_configuration_reject_Inr:
  "decode_stream_configuration_reject bs = Inr v \<longleftrightarrow>
     stream_configuration_reject_inv v \<and> encode_stream_configuration_reject v = Inr bs"
  by (cases v)
     (auto simp: decode_stream_configuration_reject_def encode_stream_configuration_reject_def
       stream_configuration_reject_inv_def decode_stream_problem_Inr)

interpretation stream_configuration_reject: canonical_codec
  encode_stream_configuration_reject decode_stream_configuration_reject stream_configuration_reject_inv
  by unfold_locales (auto simp: decode_stream_configuration_reject_Inr)

lemma decode_stream_configuration_error_Inr:
  "decode_stream_configuration_error bs = Inr v \<longleftrightarrow>
     stream_configuration_error_inv v \<and> encode_stream_configuration_error v = Inr bs"
  by (cases v)
     (auto simp: decode_stream_configuration_error_def encode_stream_configuration_error_def
       stream_configuration_error_inv_def decode_stream_problem_Inr)

interpretation stream_configuration_error: canonical_codec
  encode_stream_configuration_error decode_stream_configuration_error stream_configuration_error_inv
  by unfold_locales (auto simp: decode_stream_configuration_error_Inr)

subsection \<open>Clipboard synchronisation\<close>

lemma clipboard_sync_try_from_Inr:
  "clipboard_sync_direction_try_from a = Inr d \<longleftrightarrow> a = clipboard_sync_direction_u8 d"
  "clipboard_sync_origin_try_from b = Inr g \<longleftrightarrow> b = clipboard_sync_origin_u8 g"
  by (cases d; auto simp: clipboard_sync_direction_try_from_def split: if_splits)
     (cases g; auto simp: clipboard_sync_origin_try_from_def split: if_splits)

lemma decode_clipboard_sync_request_Inr:
  "decode_clipboard_sync_request bs = Inr v \<longleftrightarrow> encode_clipboard_sync_request v = Inr bs"
  by (cases v) (auto simp: decode_clipboard_sync_request_def encode_clipboard_sync_request_def
      clipboard_sync_try_from_Inr dec_inv dec_local codec_defs)

interpretation clipboard_sync_request: canonical_codec
  encode_clipboard_sync_request decode_clipboard_sync_request "\<lambda>_. True"
  by unfold_locales (auto simp: decode_clipboard_sync_request_Inr)

definition clipboard_sync_update_inv :: "clipboard_sync_update \<Rightarrow> bool" where
  "clipboard_sync_update_inv v \<longleftrightarrow> utf8_valid (csu_text v)"

definition clipboard_sync_error_inv :: "clipboard_sync_error \<Rightarrow> bool" where
  "clipboard_sync_error_inv v \<longleftrightarrow> utf8_valid (cse_message v)"

lemma decode_clipboard_sync_update_Inr:
  "decode_clipboard_sync_update bs = Inr v \<longleftrightarrow>
     clipboard_sync_update_inv v \<and> encode_clipboard_sync_update v = Inr bs"
proof
  assume "decode_clipboard_sync_update bs = Inr v"
  then show "clipboard_sync_update_inv v \<and> encode_clipboard_sync_update v = Inr bs"
    by (auto simp: decode_clipboard_sync_update_def encode_clipboard_sync_update_def
        clipboard_sync_update_inv_def clipboard_sync_try_from_Inr dec_inv dec_local codec_defs
        MAX_CLIPBOARD_TEXT_BYTES_def Let_def split: if_splits)
next
  assume "clipboard_sync_update_inv v \<and> encode_clipboard_sync_update v = Inr bs"
  moreover have "clipboard_sync_direction_try_from (clipboard_sync_direction_u8 d) = Inr d"
    "clipboard_sync_origin_try_from (clipboard_sync_origin_u8 g) = Inr g" for d g
    by (simp_all add: clipboard_sync_try_from_Inr)
  ultimately show "decode_clipboard_sync_update bs = Inr v"
    by (auto simp: decode_clipboard_sync_update_def encode_clipboard_sync_update_def
        clipboard_sync_update_inv_def run_decoder_view dec_view dec_local codec_defs
        MAX_CLIPBOARD_TEXT_BYTES_def Let_def)
qed

interpretation clipboard_sync_update: canonical_codec
  encode_clipboard_sync_update decode_clipboard_sync_update clipboard_sync_update_inv
  by unfold_locales (auto simp: decode_clipboard_sync_update_Inr)

lemma decode_clipboard_sync_error_Inr:
  "decode_clipboard_sync_error bs = Inr v \<longleftrightarrow>
     clipboard_sync_error_inv v \<and> encode_clipboard_sync_error v = Inr bs"
proof
  assume "decode_clipboard_sync_error bs = Inr v"
  then show "clipboard_sync_error_inv v \<and> encode_clipboard_sync_error v = Inr bs"
    by (auto simp: decode_clipboard_sync_error_def encode_clipboard_sync_error_def
        clipboard_sync_error_inv_def clipboard_sync_try_from_Inr dec_inv dec_local codec_defs Let_def)
next
  assume "clipboard_sync_error_inv v \<and> encode_clipboard_sync_error v = Inr bs"
  moreover have "clipboard_sync_direction_try_from (clipboard_sync_direction_u8 d) = Inr d"
    "clipboard_sync_origin_try_from (clipboard_sync_origin_u8 g) = Inr g" for d g
    by (simp_all add: clipboard_sync_try_from_Inr)
  ultimately show "decode_clipboard_sync_error bs = Inr v"
    by (auto simp: decode_clipboard_sync_error_def encode_clipboard_sync_error_def
        clipboard_sync_error_inv_def run_decoder_view dec_view dec_local codec_defs Let_def)
qed

interpretation clipboard_sync_error: canonical_codec
  encode_clipboard_sync_error decode_clipboard_sync_error clipboard_sync_error_inv
  by unfold_locales (auto simp: decode_clipboard_sync_error_Inr)

subsection \<open>Stream options\<close>

lemma stream_codec_preference_try_from_Inr:
  "stream_codec_preference_try_from v = Inr t \<longleftrightarrow> v = stream_codec_preference_u8 t"
  by (cases t) (auto simp: stream_codec_preference_try_from_def split: if_splits)

lemma decode_stream_options_request_Inr:
  "decode_stream_options_request bs = Inr v \<longleftrightarrow> encode_stream_options_request v = Inr bs"
  by (cases v) (auto simp: decode_stream_options_request_def encode_stream_options_request_def
      stream_codec_preference_try_from_Inr dec_inv dec_local codec_defs)

interpretation stream_options_request: canonical_codec
  encode_stream_options_request decode_stream_options_request "\<lambda>_. True"
  by unfold_locales (auto simp: decode_stream_options_request_Inr)

lemma decode_stream_options_active_Inr:
  "decode_stream_options_active bs = Inr v \<longleftrightarrow> encode_stream_options_active v = Inr bs"
  by (cases v) (auto simp: decode_stream_options_active_def encode_stream_options_active_def
      stream_codec_preference_try_from_Inr dec_inv dec_local codec_defs)

interpretation stream_options_active: canonical_codec
  encode_stream_options_active decode_stream_options_active "\<lambda>_. True"
  by unfold_locales (auto simp: decode_stream_options_active_Inr)

subsection \<open>Host displays and policy\<close>

lemma decode_bool_read_bool: "decode_bool = read_bool"
  by (rule ext) (simp add: decode_bool_def read_bool_def)

definition host_display_ok :: "host_display \<Rightarrow> bool" where
  "host_display_ok d \<longleftrightarrow> length (hd_name d) \<le> MAX_HOST_DISPLAY_NAME_BYTES"

definition host_display_list_inv :: "host_display_list \<Rightarrow> bool" where
  "host_display_list_inv v \<longleftrightarrow> list_all (\<lambda>d. utf8_valid (hd_name d)) (hdl_displays v)"

lemma check_display_names_Inr:
  "(\<exists>n. check_display_names ds k = Inr n) \<longleftrightarrow> list_all host_display_ok ds"
  by (induction ds arbitrary: k) (auto simp: host_display_ok_def Let_def)

lemma encode_host_display_append:
  "encode_host_display d out = out @ encode_host_display d []"
  by (simp add: encode_host_display_def codec_defs Let_def)

lemma fold_encode_host_display:
  "fold encode_host_display ds out = out @ concat (map (\<lambda>d. encode_host_display d []) ds)"
proof (induction ds arbitrary: out)
  case (Cons d ds)
  then show ?case
    by (simp add: encode_host_display_append [of d out])
qed simp

lemma encode_host_display_list_Inr:
  "encode_host_display_list v = Inr bs \<longleftrightarrow>
     length (hdl_displays v) \<le> MAX_HOST_DISPLAYS \<and> list_all host_display_ok (hdl_displays v) \<and>
     bs = word_of_nat (length (hdl_displays v)) #
       concat (map (\<lambda>d. encode_host_display d []) (hdl_displays v))"
  using check_display_names_Inr [of "hdl_displays v" 1]
  by (auto simp: encode_host_display_list_def fold_encode_host_display codec_defs)

lemma decode_host_display_local [dec_local]: "slice_local decode_host_display"
  by (simp add: decode_host_display_def decode_bool_read_bool dec_local)

lemma view_host_display_Inr:
  "view decode_host_display bs = Inr (d, r) \<longleftrightarrow>
     (host_display_ok d \<and> utf8_valid (hd_name d)) \<and> bs = encode_host_display d [] @ r"
proof
  assume "view decode_host_display bs = Inr (d, r)"
  then show "(host_display_ok d \<and> utf8_valid (hd_name d)) \<and> bs = encode_host_display d [] @ r"
    by (auto simp: decode_host_display_def encode_host_display_def decode_bool_read_bool
        host_display_ok_def dec_inv dec_local codec_defs Let_def split: if_splits)
next
  have read: "view (read_bool f) (bool_u8 b # s) = Inr (b, s)" for f b s
    by (simp add: view_read_bool_Inr)
  assume "(host_display_ok d \<and> utf8_valid (hd_name d)) \<and> bs = encode_host_display d [] @ r"
  then show "view decode_host_display bs = Inr (d, r)"
    by (auto simp: decode_host_display_def encode_host_display_def decode_bool_read_bool
        host_display_ok_def read dec_view dec_local codec_defs MAX_HOST_DISPLAY_NAME_BYTES_def Let_def)
qed

lemma decode_host_display_list_Inr:
  "decode_host_display_list bs = Inr v \<longleftrightarrow>
     host_display_list_inv v \<and> encode_host_display_list v = Inr bs"
proof
  note displays = view_repeat_Inr [OF decode_host_display_local view_host_display_Inr]
  assume "decode_host_display_list bs = Inr v"
  then show "host_display_list_inv v \<and> encode_host_display_list v = Inr bs"
    unfolding encode_host_display_list_Inr host_display_list_inv_def list_all_iff
    by (auto simp: decode_host_display_list_def dec_inv dec_local displays list_all_iff
        split: if_splits)
next
  note displays = view_repeat_Inr [OF decode_host_display_local view_host_display_Inr]
  let ?ds = "hdl_displays v"
  assume *: "host_display_list_inv v \<and> encode_host_display_list v = Inr bs"
  then have "view (dec_repeat (length ?ds) decode_host_display)
      (concat (map (\<lambda>d. encode_host_display d []) ?ds)) = Inr (?ds, [])"
    by (simp add: displays encode_host_display_list_Inr host_display_list_inv_def list_all_iff)
  with * show "decode_host_display_list bs = Inr v"
    by (auto simp: encode_host_display_list_Inr decode_host_display_list_def run_decoder_view
        dec_view dec_local MAX_HOST_DISPLAYS_def)
qed

interpretation host_display_list: canonical_codec
  encode_host_display_list decode_host_display_list host_display_list_inv
  by unfold_locales (auto simp: decode_host_display_list_Inr)

lemma decode_host_policy_Inr: "decode_host_policy bs = Inr v \<longleftrightarrow> encode_host_policy v = Inr bs"
  by (cases v) (auto simp: decode_host_policy_def encode_host_policy_def decode_bool_read_bool dec_inv
      dec_local codec_defs)

interpretation host_policy: canonical_codec encode_host_policy decode_host_policy "\<lambda>_. True"
  by unfold_locales (auto simp: decode_host_policy_Inr)

end
