(* ===== verification/Control.thy ===== *)
theory Control
  imports Control_Body Handshake
begin

unbundle bit_operations_syntax

text \<open>
  The control messages of \<open>maho-proto/src/control.rs\<close>: the message types with the capability
  that gates each one, and \<open>ControlMessage\<close> with its encoder and decoder over the bodies of
  \<open>Control_Body\<close> and \<open>Parity_Wire\<close>.
\<close>

section \<open>Message types\<close>

datatype control_message_type =
    T_RequestKeyFrame | T_StartStream | T_StopStream | T_Disconnect | T_Ping | T_Pong
     | T_BitrateAdjust | T_StreamConfigRequest | T_StreamConfigResponse
     | T_StreamConfigReject | T_StreamConfigError | T_ClipboardSyncRequest
     | T_ClipboardSyncUpdate | T_ClipboardSyncError | T_InputAck | T_StreamOptionsRequest
     | T_StreamOptionsActive | T_HostDisplayList | T_HostPolicy | T_SecureAttentionRequest
     | T_SecureAttentionResponse | T_HostStatus | T_SessionEnded | T_GuestPermissions
     | T_PairingTrustRequest | T_PairingTrustGrant | T_ClipboardImageChunk | T_RttPing
     | T_RttPong

fun control_message_type_u8 :: "control_message_type \<Rightarrow> u8" where
  "control_message_type_u8 T_RequestKeyFrame = 0"
| "control_message_type_u8 T_StartStream = 1"
| "control_message_type_u8 T_StopStream = 2"
| "control_message_type_u8 T_Disconnect = 3"
| "control_message_type_u8 T_Ping = 4"
| "control_message_type_u8 T_Pong = 5"
| "control_message_type_u8 T_BitrateAdjust = 6"
| "control_message_type_u8 T_StreamConfigRequest = 7"
| "control_message_type_u8 T_StreamConfigResponse = 8"
| "control_message_type_u8 T_StreamConfigReject = 9"
| "control_message_type_u8 T_StreamConfigError = 10"
| "control_message_type_u8 T_ClipboardSyncRequest = 11"
| "control_message_type_u8 T_ClipboardSyncUpdate = 12"
| "control_message_type_u8 T_ClipboardSyncError = 13"
| "control_message_type_u8 T_InputAck = 14"
| "control_message_type_u8 T_StreamOptionsRequest = 15"
| "control_message_type_u8 T_StreamOptionsActive = 16"
| "control_message_type_u8 T_HostDisplayList = 17"
| "control_message_type_u8 T_HostPolicy = 18"
| "control_message_type_u8 T_SecureAttentionRequest = 19"
| "control_message_type_u8 T_SecureAttentionResponse = 20"
| "control_message_type_u8 T_HostStatus = 21"
| "control_message_type_u8 T_SessionEnded = 22"
| "control_message_type_u8 T_GuestPermissions = 23"
| "control_message_type_u8 T_PairingTrustRequest = 24"
| "control_message_type_u8 T_PairingTrustGrant = 25"
| "control_message_type_u8 T_ClipboardImageChunk = 26"
| "control_message_type_u8 T_RttPing = 27"
| "control_message_type_u8 T_RttPong = 28"

definition control_message_type_ALL :: "control_message_type list" where
  "control_message_type_ALL =
     [T_RequestKeyFrame, T_StartStream, T_StopStream, T_Disconnect, T_Ping, T_Pong
      , T_BitrateAdjust, T_StreamConfigRequest, T_StreamConfigResponse, T_StreamConfigReject
      , T_StreamConfigError, T_ClipboardSyncRequest, T_ClipboardSyncUpdate
      , T_ClipboardSyncError, T_InputAck, T_StreamOptionsRequest, T_StreamOptionsActive
      , T_HostDisplayList, T_HostPolicy, T_SecureAttentionRequest, T_SecureAttentionResponse
      , T_HostStatus, T_SessionEnded, T_GuestPermissions, T_PairingTrustRequest
      , T_PairingTrustGrant, T_ClipboardImageChunk, T_RttPing, T_RttPong]"

fun required_capability :: "control_message_type \<Rightarrow> capabilities option" where
  "required_capability T_SecureAttentionRequest = Some SECURE_ATTENTION"
| "required_capability T_SecureAttentionResponse = Some SECURE_ATTENTION"
| "required_capability T_HostStatus = Some HOST_STATUS"
| "required_capability T_SessionEnded = Some SESSION_ENDED"
| "required_capability T_GuestPermissions = Some GUEST_PERMISSIONS"
| "required_capability T_PairingTrustRequest = Some PAIRING_TRUST"
| "required_capability T_PairingTrustGrant = Some PAIRING_TRUST"
| "required_capability T_ClipboardImageChunk = Some CLIPBOARD_IMAGE"
| "required_capability T_RttPing = Some RTT_PROBE"
| "required_capability T_RttPong = Some RTT_PROBE"
| "required_capability _ = None"

definition supported_by :: "control_message_type \<Rightarrow> capabilities \<Rightarrow> capabilities \<Rightarrow> bool" where
  "supported_by t local_caps peer =
     (case required_capability t of
        Some required \<Rightarrow> capabilities_contains local_caps required \<and> capabilities_contains peer required
      | None \<Rightarrow> True)"

definition control_message_type_try_from :: "u8 \<Rightarrow> codec_error + control_message_type" where
  "control_message_type_try_from val =
     (if val = 0 then Inr T_RequestKeyFrame
      else if val = 1 then Inr T_StartStream
      else if val = 2 then Inr T_StopStream
      else if val = 3 then Inr T_Disconnect
      else if val = 4 then Inr T_Ping
      else if val = 5 then Inr T_Pong
      else if val = 6 then Inr T_BitrateAdjust
      else if val = 7 then Inr T_StreamConfigRequest
      else if val = 8 then Inr T_StreamConfigResponse
      else if val = 9 then Inr T_StreamConfigReject
      else if val = 10 then Inr T_StreamConfigError
      else if val = 11 then Inr T_ClipboardSyncRequest
      else if val = 12 then Inr T_ClipboardSyncUpdate
      else if val = 13 then Inr T_ClipboardSyncError
      else if val = 14 then Inr T_InputAck
      else if val = 15 then Inr T_StreamOptionsRequest
      else if val = 16 then Inr T_StreamOptionsActive
      else if val = 17 then Inr T_HostDisplayList
      else if val = 18 then Inr T_HostPolicy
      else if val = 19 then Inr T_SecureAttentionRequest
      else if val = 20 then Inr T_SecureAttentionResponse
      else if val = 21 then Inr T_HostStatus
      else if val = 22 then Inr T_SessionEnded
      else if val = 23 then Inr T_GuestPermissions
      else if val = 24 then Inr T_PairingTrustRequest
      else if val = 25 then Inr T_PairingTrustGrant
      else if val = 26 then Inr T_ClipboardImageChunk
      else if val = 27 then Inr T_RttPing
      else if val = 28 then Inr T_RttPong
      else Inl (UnknownControlMessageType val))"

section \<open>Messages\<close>

datatype control_message =
    RequestKeyFrame
  | StartStream
  | StopStream
  | Disconnect
  | Ping
  | Pong
  | BitrateAdjust bitrate_adjust
  | StreamConfigRequest stream_configuration_request
  | StreamConfigResponse stream_configuration_response
  | StreamConfigReject stream_configuration_reject
  | StreamConfigError stream_configuration_error
  | ClipboardSyncRequest clipboard_sync_request
  | ClipboardSyncUpdate clipboard_sync_update
  | ClipboardSyncError clipboard_sync_error
  | InputAck input_ack_message
  | StreamOptionsRequest stream_options_request
  | StreamOptionsActive stream_options_active
  | HostDisplayList host_display_list
  | HostPolicy host_policy
  | SecureAttentionRequest secure_attention_request
  | SecureAttentionResponse secure_attention_response
  | HostStatus host_status
  | SessionEnded session_ended
  | GuestPermissions guest_permissions
  | PairingTrustRequest pairing_trust_request
  | PairingTrustGrant pairing_trust_grant
  | ClipboardImageChunk clipboard_image_chunk
  | RttPing rtt_probe
  | RttPong rtt_probe

fun message_type :: "control_message \<Rightarrow> control_message_type" where
  "message_type RequestKeyFrame = T_RequestKeyFrame"
| "message_type StartStream = T_StartStream"
| "message_type StopStream = T_StopStream"
| "message_type Disconnect = T_Disconnect"
| "message_type Ping = T_Ping"
| "message_type Pong = T_Pong"
| "message_type (BitrateAdjust _) = T_BitrateAdjust"
| "message_type (StreamConfigRequest _) = T_StreamConfigRequest"
| "message_type (StreamConfigResponse _) = T_StreamConfigResponse"
| "message_type (StreamConfigReject _) = T_StreamConfigReject"
| "message_type (StreamConfigError _) = T_StreamConfigError"
| "message_type (ClipboardSyncRequest _) = T_ClipboardSyncRequest"
| "message_type (ClipboardSyncUpdate _) = T_ClipboardSyncUpdate"
| "message_type (ClipboardSyncError _) = T_ClipboardSyncError"
| "message_type (InputAck _) = T_InputAck"
| "message_type (StreamOptionsRequest _) = T_StreamOptionsRequest"
| "message_type (StreamOptionsActive _) = T_StreamOptionsActive"
| "message_type (HostDisplayList _) = T_HostDisplayList"
| "message_type (HostPolicy _) = T_HostPolicy"
| "message_type (SecureAttentionRequest _) = T_SecureAttentionRequest"
| "message_type (SecureAttentionResponse _) = T_SecureAttentionResponse"
| "message_type (HostStatus _) = T_HostStatus"
| "message_type (SessionEnded _) = T_SessionEnded"
| "message_type (GuestPermissions _) = T_GuestPermissions"
| "message_type (PairingTrustRequest _) = T_PairingTrustRequest"
| "message_type (PairingTrustGrant _) = T_PairingTrustGrant"
| "message_type (ClipboardImageChunk _) = T_ClipboardImageChunk"
| "message_type (RttPing _) = T_RttPing"
| "message_type (RttPong _) = T_RttPong"

text \<open>The \<open>match\<close> of \<open>encode\<close>: \<open>None\<close> is the early return of a message without a body.\<close>

fun control_message_body :: "control_message \<Rightarrow> (codec_error + bytes) option" where
  "control_message_body RequestKeyFrame = None"
| "control_message_body StartStream = None"
| "control_message_body StopStream = None"
| "control_message_body Disconnect = None"
| "control_message_body Ping = None"
| "control_message_body Pong = None"
| "control_message_body (BitrateAdjust v) = Some (encode_bitrate_adjust v)"
| "control_message_body (StreamConfigRequest v) = Some (encode_stream_configuration_request v)"
| "control_message_body (StreamConfigResponse v) = Some (encode_stream_configuration_response v)"
| "control_message_body (StreamConfigReject v) = Some (encode_stream_configuration_reject v)"
| "control_message_body (StreamConfigError v) = Some (encode_stream_configuration_error v)"
| "control_message_body (ClipboardSyncRequest v) = Some (encode_clipboard_sync_request v)"
| "control_message_body (ClipboardSyncUpdate v) = Some (encode_clipboard_sync_update v)"
| "control_message_body (ClipboardSyncError v) = Some (encode_clipboard_sync_error v)"
| "control_message_body (InputAck v) = Some (encode_input_ack_message v)"
| "control_message_body (StreamOptionsRequest v) = Some (encode_stream_options_request v)"
| "control_message_body (StreamOptionsActive v) = Some (encode_stream_options_active v)"
| "control_message_body (HostDisplayList v) = Some (encode_host_display_list v)"
| "control_message_body (HostPolicy v) = Some (encode_host_policy v)"
| "control_message_body (SecureAttentionRequest v) = Some (encode_secure_attention_request v)"
| "control_message_body (SecureAttentionResponse v) = Some (encode_secure_attention_response v)"
| "control_message_body (HostStatus v) = Some (encode_host_status v)"
| "control_message_body (SessionEnded v) = Some (encode_session_ended v)"
| "control_message_body (GuestPermissions v) = Some (encode_guest_permissions v)"
| "control_message_body (PairingTrustRequest v) = Some (encode_pairing_trust_request v)"
| "control_message_body (PairingTrustGrant v) = Some (encode_pairing_trust_grant v)"
| "control_message_body (ClipboardImageChunk v) = Some (encode_clipboard_image_chunk v)"
| "control_message_body (RttPing v) = Some (encode_rtt_probe v)"
| "control_message_body (RttPong v) = Some (encode_rtt_probe v)"

definition encode_control_message :: "control_message \<Rightarrow> codec_error + bytes" where
  "encode_control_message m =
     (let output = [control_message_type_u8 (message_type m)]
      in case control_message_body m of
           None \<Rightarrow> Inr output
         | Some r \<Rightarrow> try_bind r (\<lambda>body. Inr (extend_from_slice output body)))"

text \<open>The arms of \<open>decode\<close>: a message without a body finishes at once, the others decode it.\<close>

definition finish_control :: "control_message \<Rightarrow> bytes \<Rightarrow> codec_error + control_message" where
  "finish_control m body =
     try_bind (run_decoder (dec_finish ''control message'') body) (\<lambda>_. Inr m)"

fun decode_control_body :: "control_message_type \<Rightarrow> bytes \<Rightarrow> codec_error + control_message" where
  "decode_control_body T_RequestKeyFrame body = finish_control RequestKeyFrame body"
| "decode_control_body T_StartStream body = finish_control StartStream body"
| "decode_control_body T_StopStream body = finish_control StopStream body"
| "decode_control_body T_Disconnect body = finish_control Disconnect body"
| "decode_control_body T_Ping body = finish_control Ping body"
| "decode_control_body T_Pong body = finish_control Pong body"
| "decode_control_body T_BitrateAdjust body = try_bind (decode_bitrate_adjust body) (\<lambda>v. Inr (BitrateAdjust v))"
| "decode_control_body T_StreamConfigRequest body = try_bind (decode_stream_configuration_request body) (\<lambda>v. Inr (StreamConfigRequest v))"
| "decode_control_body T_StreamConfigResponse body = try_bind (decode_stream_configuration_response body) (\<lambda>v. Inr (StreamConfigResponse v))"
| "decode_control_body T_StreamConfigReject body = try_bind (decode_stream_configuration_reject body) (\<lambda>v. Inr (StreamConfigReject v))"
| "decode_control_body T_StreamConfigError body = try_bind (decode_stream_configuration_error body) (\<lambda>v. Inr (StreamConfigError v))"
| "decode_control_body T_ClipboardSyncRequest body = try_bind (decode_clipboard_sync_request body) (\<lambda>v. Inr (ClipboardSyncRequest v))"
| "decode_control_body T_ClipboardSyncUpdate body = try_bind (decode_clipboard_sync_update body) (\<lambda>v. Inr (ClipboardSyncUpdate v))"
| "decode_control_body T_ClipboardSyncError body = try_bind (decode_clipboard_sync_error body) (\<lambda>v. Inr (ClipboardSyncError v))"
| "decode_control_body T_InputAck body = try_bind (decode_input_ack_message body) (\<lambda>v. Inr (InputAck v))"
| "decode_control_body T_StreamOptionsRequest body = try_bind (decode_stream_options_request body) (\<lambda>v. Inr (StreamOptionsRequest v))"
| "decode_control_body T_StreamOptionsActive body = try_bind (decode_stream_options_active body) (\<lambda>v. Inr (StreamOptionsActive v))"
| "decode_control_body T_HostDisplayList body = try_bind (decode_host_display_list body) (\<lambda>v. Inr (HostDisplayList v))"
| "decode_control_body T_HostPolicy body = try_bind (decode_host_policy body) (\<lambda>v. Inr (HostPolicy v))"
| "decode_control_body T_SecureAttentionRequest body = try_bind (decode_secure_attention_request body) (\<lambda>v. Inr (SecureAttentionRequest v))"
| "decode_control_body T_SecureAttentionResponse body = try_bind (decode_secure_attention_response body) (\<lambda>v. Inr (SecureAttentionResponse v))"
| "decode_control_body T_HostStatus body = try_bind (decode_host_status body) (\<lambda>v. Inr (HostStatus v))"
| "decode_control_body T_SessionEnded body = try_bind (decode_session_ended body) (\<lambda>v. Inr (SessionEnded v))"
| "decode_control_body T_GuestPermissions body = try_bind (decode_guest_permissions body) (\<lambda>v. Inr (GuestPermissions v))"
| "decode_control_body T_PairingTrustRequest body = try_bind (decode_pairing_trust_request body) (\<lambda>v. Inr (PairingTrustRequest v))"
| "decode_control_body T_PairingTrustGrant body = try_bind (decode_pairing_trust_grant body) (\<lambda>v. Inr (PairingTrustGrant v))"
| "decode_control_body T_ClipboardImageChunk body = try_bind (decode_clipboard_image_chunk body) (\<lambda>v. Inr (ClipboardImageChunk v))"
| "decode_control_body T_RttPing body = try_bind (decode_rtt_probe body) (\<lambda>v. Inr (RttPing v))"
| "decode_control_body T_RttPong body = try_bind (decode_rtt_probe body) (\<lambda>v. Inr (RttPong v))"

definition decode_control_message :: "bytes \<Rightarrow> codec_error + control_message" where
  "decode_control_message input = run_decoder (
     dbind (dec_u8 ''control message type'') (\<lambda>t.
     dbind (dlift (control_message_type_try_from t)) (\<lambda>ty.
     dbind dec_take_remaining (\<lambda>body.
     dlift (decode_control_body ty body))))) input"

section \<open>Lemmas on control messages\<close>

fun control_message_inv :: "control_message \<Rightarrow> bool" where
  "control_message_inv (StreamConfigReject v) = stream_configuration_reject_inv v"
| "control_message_inv (StreamConfigError v) = stream_configuration_error_inv v"
| "control_message_inv (ClipboardSyncUpdate v) = clipboard_sync_update_inv v"
| "control_message_inv (ClipboardSyncError v) = clipboard_sync_error_inv v"
| "control_message_inv (HostDisplayList v) = host_display_list_inv v"
| "control_message_inv (HostStatus v) = host_status_inv v"
| "control_message_inv _ = True"

lemma control_message_type_u8_roundtrip:
  "control_message_type_try_from (control_message_type_u8 t) = Inr t"
  by (cases t) (simp_all add: control_message_type_try_from_def)

lemma control_message_type_try_from_Inr:
  "control_message_type_try_from v = Inr t \<longleftrightarrow> v = control_message_type_u8 t"
proof
  assume "control_message_type_try_from v = Inr t"
  then show "v = control_message_type_u8 t"
    by (auto simp: control_message_type_try_from_def split: if_split_asm)
qed (simp add: control_message_type_u8_roundtrip)

text \<open>What each arm of the two matches does with the body.\<close>

definition body_bytes :: "control_message \<Rightarrow> bytes \<Rightarrow> bool" where
  "body_bytes m body \<longleftrightarrow> (case control_message_body m of None \<Rightarrow> body = [] | Some r \<Rightarrow> r = Inr body)"

lemma finish_control_Inr: "finish_control m body = Inr m' \<longleftrightarrow> body = [] \<and> m' = m"
  by (auto simp: finish_control_def run_decoder_view view_finish)

lemmas control_bodies_Inr =
  decode_bitrate_adjust_Inr decode_stream_configuration_request_Inr
  decode_stream_configuration_response_Inr decode_stream_configuration_reject_Inr
  decode_stream_configuration_error_Inr decode_clipboard_sync_request_Inr
  decode_clipboard_sync_update_Inr decode_clipboard_sync_error_Inr decode_stream_options_request_Inr
  decode_stream_options_active_Inr decode_host_display_list_Inr decode_host_policy_Inr
  decode_secure_attention_request_Inr decode_secure_attention_response_Inr decode_host_status_Inr
  decode_session_ended_Inr decode_guest_permissions_Inr decode_pairing_trust_request_Inr
  decode_pairing_trust_grant_Inr decode_clipboard_image_chunk_Inr decode_rtt_probe_Inr
  finish_control_Inr

lemma decode_control_body_type: "decode_control_body t body = Inr m \<Longrightarrow> message_type m = t"
  by (cases t) (auto simp: finish_control_Inr)

lemma decode_control_body_iff:
  "message_type m \<noteq> T_InputAck \<Longrightarrow>
     decode_control_body (message_type m) body = Inr m \<longleftrightarrow> control_message_inv m \<and> body_bytes m body"
  by (cases m) (auto simp: control_bodies_Inr body_bytes_def)

lemma decode_control_body_InputAck:
  "decode_control_body T_InputAck body = Inr m \<longleftrightarrow>
     (\<exists>v. m = InputAck v \<and> decode_input_ack_message body = Inr v)"
  by auto

lemma decode_control_message_Inr:
  "decode_control_message bs = Inr m \<longleftrightarrow>
     (\<exists>body. bs = control_message_type_u8 (message_type m) # body \<and>
        decode_control_body (message_type m) body = Inr m)"
  by (auto simp: decode_control_message_def dec_inv dec_local control_message_type_try_from_Inr
      dest: decode_control_body_type)

lemma encode_control_message_Inr:
  "encode_control_message m = Inr bs \<longleftrightarrow>
     (\<exists>body. body_bytes m body \<and> bs = control_message_type_u8 (message_type m) # body)"
  by (cases "control_message_body m") (auto simp: encode_control_message_def body_bytes_def codec_defs)

lemma control_body_roundtrip:
  assumes "control_message_inv m" and "body_bytes m body"
  shows "decode_control_body (message_type m) body = Inr m"
proof (cases "message_type m = T_InputAck")
  case True
  then obtain v where "m = InputAck v" by (cases m) auto
  with assms show ?thesis
    using input_ack_message.roundtrip [of v body] by (simp add: body_bytes_def)
next
  case False
  with assms show ?thesis by (simp add: decode_control_body_iff)
qed

lemma control_body_encodable:
  assumes "decode_control_body (message_type m) body = Inr m"
  shows "control_message_inv m \<and>
    (\<exists>body'. body_bytes m body' \<and> length body' = length body \<and>
       (message_type m \<noteq> T_InputAck \<longrightarrow> body' = body))"
proof (cases "message_type m = T_InputAck")
  case True
  then obtain v where m: "m = InputAck v" and dec: "decode_input_ack_message body = Inr v"
    using assms by (auto simp: decode_control_body_InputAck)
  then show ?thesis
    by (auto simp: body_bytes_def decode_input_ack_message_Inr encode_input_ack_message_def codec_defs)
next
  case False
  with assms show ?thesis by (auto simp: decode_control_body_iff)
qed

lemma decode_control_message_encodable:
  assumes "decode_control_message bs = Inr m"
  shows "control_message_inv m \<and> (\<exists>bs'. encode_control_message m = Inr bs' \<and>
    length bs' = length bs \<and> (message_type m \<noteq> T_InputAck \<longrightarrow> bs' = bs))"
proof -
  from assms obtain body where bs: "bs = control_message_type_u8 (message_type m) # body"
    and "decode_control_body (message_type m) body = Inr m"
    by (auto simp: decode_control_message_Inr)
  from control_body_encodable [OF this(2)] obtain body' where
    "control_message_inv m" "body_bytes m body'" "length body' = length body"
    "message_type m \<noteq> T_InputAck \<longrightarrow> body' = body" by blast
  moreover from this(2) have
    "encode_control_message m = Inr (control_message_type_u8 (message_type m) # body')"
    by (auto simp: encode_control_message_Inr)
  ultimately show ?thesis by (auto simp: bs)
qed

interpretation control_message: wire_codec
  encode_control_message decode_control_message control_message_inv
proof unfold_locales
  fix m bs
  assume "control_message_inv m" "encode_control_message m = Inr bs"
  then show "decode_control_message bs = Inr m"
    by (auto simp: encode_control_message_Inr decode_control_message_Inr control_body_roundtrip)
qed (use decode_control_message_encodable in blast)+

subsection \<open>Capabilities\<close>

lemma required_capability_None: "required_capability t = None \<longleftrightarrow> control_message_type_u8 t \<le> 18"
  by (cases t) simp_all

lemma required_capability_bit:
  "required_capability t = Some c \<Longrightarrow> \<exists>n. 9 \<le> n \<and> n < 64 \<and> c = push_bit n 1"
proof -
  assume "required_capability t = Some c"
  then have "c \<in> set (map (\<lambda>n. push_bit n 1) [9..<16])"
    by (cases t) (simp_all add: capability_defs upt_rec)
  then obtain n where "n \<in> set [9..<16]" "c = push_bit n 1"
    unfolding set_map by (rule imageE)
  then show ?thesis by (intro exI [of _ n]) auto
qed

lemma required_capability_all:
  "required_capability t = Some c \<Longrightarrow> capabilities_contains capabilities_all c"
  by (cases t) (auto simp: capabilities_contains_def capabilities_all_def capability_defs)

lemma legacy_capabilities_absent:
  assumes "drop_bit 9 caps = (0 :: capabilities)" and "9 \<le> n" and "n < 64"
  shows "\<not> capabilities_contains caps (push_bit n 1)"
proof
  assume "capabilities_contains caps (push_bit n 1)"
  then have "bit caps n"
    using assms(3) by (auto simp: capabilities_contains_def bit_eq_iff bit_and_iff bit_exp_iff
        dest!: spec [of _ n])
  then have "bit (drop_bit 9 caps) (n - 9)"
    using assms(2) by (simp add: bit_drop_bit_eq)
  then show False using assms(1) by simp
qed

section \<open>Properties\<close>

text \<open>C17. Control messages round trip: whatever the encoder accepts, for each of the 29 message
  types, the decoder reads back as the same message.\<close>

theorem control_message_roundtrip:
  assumes "control_message_inv m" and "encode_control_message m = Inr bs"
  shows "decode_control_message bs = Inr m"
  using assms by (rule control_message.roundtrip)

definition sample_update :: clipboard_sync_update where
  "sample_update = \<lparr>csu_request_id = 7, csu_direction = ClientToHost, csu_origin = LocalPasteboard,
     csu_text = [0x68, 0x69]\<rparr>"

theorem control_message_roundtrip_witness:
  "decode_control_message [12, 7, 0, 0, 0, 1, 0, 2, 0, 0x68, 0x69] =
     Inr (ClipboardSyncUpdate sample_update)"
proof (rule control_message_roundtrip)
  show "control_message_inv (ClipboardSyncUpdate sample_update)"
    by (simp add: clipboard_sync_update_inv_def sample_update_def)
  show "encode_control_message (ClipboardSyncUpdate sample_update) =
      Inr [12, 7, 0, 0, 0, 1, 0, 2, 0, 0x68, 0x69]"
    by (simp add: encode_control_message_def encode_clipboard_sync_update_def sample_update_def
        checked_bytes_def usize_to_u16_def MAX_CLIPBOARD_TEXT_BYTES_def codec_defs le_bytes_numeral)
qed

text \<open>Control decoding is canonical: a message that decodes is well formed, encodes again, in as
  many bytes, and to the very bytes it came from unless it is an \<open>InputAck\<close>, whose success byte is
  normalised to 0 or 1.\<close>

theorem control_message_canonical:
  assumes "decode_control_message bs = Inr m"
  shows "control_message_inv m \<and> (\<exists>bs'. encode_control_message m = Inr bs' \<and>
    length bs' = length bs \<and> (message_type m \<noteq> T_InputAck \<longrightarrow> bs' = bs))"
  using assms by (rule decode_control_message_encodable)

theorem control_message_canonical_witness:
  "\<exists>bs'. encode_control_message (InputAck \<lparr>ia_sequence = 1, ia_success = True, ia_error_code = 0\<rparr>) =
     Inr bs' \<and> length bs' = length [14, 1, 0, 0, 0, 7, 0 :: u8]"
proof -
  have "decode_input_ack_message [1, 0, 0, 0, 7, 0] =
      Inr \<lparr>ia_sequence = 1, ia_success = True, ia_error_code = 0\<rparr>"
    by (simp add: decode_input_ack_message_Inr le_bytes_numeral)
  then have "decode_control_message [14, 1, 0, 0, 0, 7, 0] =
      Inr (InputAck \<lparr>ia_sequence = 1, ia_success = True, ia_error_code = 0\<rparr>)"
    by (simp add: decode_control_message_Inr)
  from control_message_canonical [OF this] show ?thesis by auto
qed

text \<open>Capability gating: a peer that announces none of the parity capabilities (bits 9 and up)
  takes part in the legacy message types 0 to 18 and in no other, and two peers that announce
  everything take part in all of them.\<close>

theorem supported_by_gating:
  assumes "drop_bit 9 peer = (0 :: capabilities)"
  shows "(supported_by t loc peer \<longleftrightarrow> control_message_type_u8 t \<le> 18) \<and>
    (supported_by t peer loc \<longleftrightarrow> control_message_type_u8 t \<le> 18) \<and>
    supported_by t capabilities_all capabilities_all"
proof -
  have off: "\<not> supported_by t loc peer \<and> \<not> supported_by t peer loc" if "required_capability t = Some c" for c
    using required_capability_bit [OF that] legacy_capabilities_absent [OF assms] that
    by (auto simp: supported_by_def)
  have on: "supported_by t loc peer \<and> supported_by t peer loc" if "required_capability t = None"
    using that by (simp add: supported_by_def)
  have "supported_by t capabilities_all capabilities_all"
    using required_capability_all by (auto simp: supported_by_def split: option.split)
  with off on required_capability_None [of t] show ?thesis
    by (cases "required_capability t") auto
qed

theorem supported_by_gating_witness:
  "supported_by T_ClipboardSyncUpdate capabilities_all CLIPBOARD_SYNC \<and>
   \<not> supported_by T_RttPing capabilities_all CLIPBOARD_SYNC"
proof -
  have "drop_bit 9 CLIPBOARD_SYNC = 0" by (simp add: CLIPBOARD_SYNC_def)
  from supported_by_gating [OF this] show ?thesis by simp
qed

end
