(* ===== verification/Relay_Wire.thy ===== *)
theory Relay_Wire
  imports Codec
begin

unbundle bit_operations_syntax

text \<open>
  The relay protocol of \<open>maho-proto/src/relay.rs\<close>: host identifiers, the HMAC token a host or a
  client presents, the multiplexing frame and the control messages. HMAC-SHA256 is a parameter
  (\<open>hmac secret message\<close>, \<open>None\<close> when the key is refused); what the code relies on, that a digest
  has 32 bytes, is the named hypothesis \<open>digest_32\<close>. The JSON form of the control messages is
  produced by serde and is not modelled.
\<close>

definition RELAY_FRAME_HEADER_LEN :: usize where "RELAY_FRAME_HEADER_LEN = 17"
definition RELAY_CHANNEL_TCP :: u8 where "RELAY_CHANNEL_TCP = 0x01"
definition RELAY_CHANNEL_UDP :: u8 where "RELAY_CHANNEL_UDP = 0x02"
definition RELAY_MAX_PAYLOAD_LEN :: usize where "RELAY_MAX_PAYLOAD_LEN = 2 * 1024 * 1024"
definition RELAY_MAX_SESSIONS_PER_HOST :: usize where "RELAY_MAX_SESSIONS_PER_HOST = 4"
definition RELAY_HEARTBEAT_SECS :: u64 where "RELAY_HEARTBEAT_SECS = 30"
definition RELAY_IDLE_TIMEOUT_SECS :: u64 where "RELAY_IDLE_TIMEOUT_SECS = 60"
definition RELAY_MAX_SESSION_SECS :: u64 where "RELAY_MAX_SESSION_SECS = 24 * 60 * 60"
definition RELAY_CONNECTS_PER_MINUTE :: u32 where "RELAY_CONNECTS_PER_MINUTE = 100"
definition RELAY_HOST_ID_MAX_LEN :: usize where "RELAY_HOST_ID_MAX_LEN = 128"

section \<open>ASCII classes of the standard library\<close>

definition is_ascii_digit :: "u8 \<Rightarrow> bool" where
  "is_ascii_digit b \<longleftrightarrow> 0x30 \<le> b \<and> b \<le> 0x39"

definition is_ascii_uppercase :: "u8 \<Rightarrow> bool" where
  "is_ascii_uppercase b \<longleftrightarrow> 0x41 \<le> b \<and> b \<le> 0x5A"

definition is_ascii_lowercase :: "u8 \<Rightarrow> bool" where
  "is_ascii_lowercase b \<longleftrightarrow> 0x61 \<le> b \<and> b \<le> 0x7A"

definition is_ascii_alphanumeric :: "u8 \<Rightarrow> bool" where
  "is_ascii_alphanumeric b \<longleftrightarrow> is_ascii_digit b \<or> is_ascii_uppercase b \<or> is_ascii_lowercase b"

definition is_ascii_hexdigit :: "u8 \<Rightarrow> bool" where
  "is_ascii_hexdigit b \<longleftrightarrow>
     is_ascii_digit b \<or> (0x41 \<le> b \<and> b \<le> 0x46) \<or> (0x61 \<le> b \<and> b \<le> 0x66)"

definition to_ascii_lowercase :: "u8 \<Rightarrow> u8" where
  "to_ascii_lowercase b = (if is_ascii_uppercase b then b + 0x20 else b)"

section \<open>Identifiers and tokens\<close>

definition relay_host_id_ok :: "rstring \<Rightarrow> bool" where
  "relay_host_id_ok host_id =
     (if host_id = [] \<or> length host_id > RELAY_HOST_ID_MAX_LEN then False
      else list_all (\<lambda>b. is_ascii_alphanumeric b \<or> b = 0x2E \<or> b = 0x5F \<or> b = 0x2D) host_id)"

text \<open>\<open>b"0123456789abcdef"\<close>.\<close>

definition HEX_CHARS :: bytes where
  "HEX_CHARS = [0x30, 0x31, 0x32, 0x33, 0x34, 0x35, 0x36, 0x37, 0x38, 0x39,
                0x61, 0x62, 0x63, 0x64, 0x65, 0x66]"

type_synonym hmac = "bytes \<Rightarrow> bytes \<Rightarrow> bytes option"

definition hex_byte :: "u8 \<Rightarrow> bytes" where
  "hex_byte b = [HEX_CHARS ! unat (drop_bit 4 b), HEX_CHARS ! unat (b AND 0x0F)]"

definition relay_token :: "hmac \<Rightarrow> bytes \<Rightarrow> rstring \<Rightarrow> rstring" where
  "relay_token hmac secret host_id =
     (case hmac secret host_id of
        None \<Rightarrow> []
      | Some result \<Rightarrow> fold (\<lambda>b out. out @ hex_byte b) result [])"

definition token_step :: "u8 \<times> u8 \<Rightarrow> u8 \<times> u8 \<Rightarrow> u8 \<times> u8" where
  "token_step = (\<lambda>(a, b) (diff, non_hex).
     let non_hex = (if \<not> is_ascii_hexdigit b then non_hex OR 1 else non_hex)
     in (diff OR (a XOR to_ascii_lowercase b), non_hex))"

definition relay_token_matches :: "hmac \<Rightarrow> bytes \<Rightarrow> rstring \<Rightarrow> rstring \<Rightarrow> bool" where
  "relay_token_matches hmac secret host_id presented =
     (if length presented \<noteq> 64 then False
      else
      let expected = relay_token hmac secret host_id
      in if length expected \<noteq> 64 then False
         else
         let (diff, non_hex) = fold token_step (zip expected presented) (0, 0)
         in diff = 0 \<and> non_hex = 0)"

section \<open>Frames\<close>

record relay_frame =
  rf_session_id :: bytes
  rf_channel :: u8
  rf_payload :: bytes

definition encode_relay_frame :: "bytes \<Rightarrow> u8 \<Rightarrow> bytes \<Rightarrow> codec_error + bytes" where
  "encode_relay_frame session_id channel payload =
     (if channel \<noteq> RELAY_CHANNEL_TCP \<and> channel \<noteq> RELAY_CHANNEL_UDP
      then Inl (UnknownRelayChannel channel)
      else if length payload > RELAY_MAX_PAYLOAD_LEN
      then Inl (LengthLimit ''relay payload'' (length payload) RELAY_MAX_PAYLOAD_LEN)
      else
      let out = [];
          out = extend_from_slice out session_id;
          out = push out channel;
          out = extend_from_slice out payload
      in Inr out)"

definition decode_relay_frame :: "bytes \<Rightarrow> codec_error + relay_frame" where
  "decode_relay_frame input =
     (if length input < RELAY_FRAME_HEADER_LEN
      then Inl (Truncated ''relay frame header'' RELAY_FRAME_HEADER_LEN (length input))
      else
      let channel = input ! 16
      in if channel \<noteq> RELAY_CHANNEL_TCP \<and> channel \<noteq> RELAY_CHANNEL_UDP
         then Inl (UnknownRelayChannel channel)
         else
         let payload_len = length input - RELAY_FRAME_HEADER_LEN
         in if payload_len > RELAY_MAX_PAYLOAD_LEN
            then Inl (LengthLimit ''relay payload'' payload_len RELAY_MAX_PAYLOAD_LEN)
            else Inr \<lparr>rf_session_id = take 16 input, rf_channel = channel,
                      rf_payload = drop RELAY_FRAME_HEADER_LEN input\<rparr>)"

section \<open>Control messages\<close>

datatype relay_control =
    Register rstring rstring
  | Registered rstring
  | Connect rstring rstring
  | Incoming rstring
  | Accept rstring
  | Connected
  | RelayPing
  | RelayPong
  | RelayError rstring rstring

section \<open>Lemmas\<close>

definition relay_frame_inv :: "relay_frame \<Rightarrow> bool" where
  "relay_frame_inv f \<longleftrightarrow> length (rf_session_id f) = 16"

definition encode_frame_of :: "relay_frame \<Rightarrow> codec_error + bytes" where
  "encode_frame_of f = encode_relay_frame (rf_session_id f) (rf_channel f) (rf_payload f)"

lemma encode_frame_of_Inr:
  "encode_frame_of f = Inr bs \<longleftrightarrow>
     (rf_channel f = RELAY_CHANNEL_TCP \<or> rf_channel f = RELAY_CHANNEL_UDP) \<and>
     length (rf_payload f) \<le> RELAY_MAX_PAYLOAD_LEN \<and>
     bs = rf_session_id f @ rf_channel f # rf_payload f"
  by (auto simp: encode_frame_of_def encode_relay_frame_def codec_defs Let_def)

lemma decode_relay_frame_Inr:
  "decode_relay_frame bs = Inr f \<longleftrightarrow> relay_frame_inv f \<and> encode_frame_of f = Inr bs"
proof
  assume dec: "decode_relay_frame bs = Inr f"
  then have "16 < length bs"
    by (simp add: decode_relay_frame_def RELAY_FRAME_HEADER_LEN_def split: if_splits)
  from id_take_nth_drop [OF this] dec show "relay_frame_inv f \<and> encode_frame_of f = Inr bs"
    unfolding encode_frame_of_Inr
    by (auto simp: decode_relay_frame_def relay_frame_inv_def RELAY_FRAME_HEADER_LEN_def Let_def
        split: if_splits)
next
  assume "relay_frame_inv f \<and> encode_frame_of f = Inr bs"
  then show "decode_relay_frame bs = Inr f"
    unfolding encode_frame_of_Inr
    by (auto simp: decode_relay_frame_def relay_frame_inv_def RELAY_FRAME_HEADER_LEN_def Let_def
        nth_append)
qed

interpretation relay_frame: canonical_codec encode_frame_of decode_relay_frame relay_frame_inv
  by unfold_locales (auto simp: decode_relay_frame_Inr)

subsection \<open>Tokens\<close>

lemma hex_nibbles: "unat (drop_bit 4 (b :: u8)) < 16" "unat (b AND 0x0F) < 16"
proof -
  show "unat (drop_bit 4 b) < 16"
    using unat_less_256 [of b] by (simp add: drop_bit_eq_div unat_div del: unat_less_256)
  have "b AND 0x0F = take_bit 4 b"
    by (simp add: take_bit_eq_mask mask_eq_exp_minus_1)
  then show "unat (b AND 0x0F) < 16"
    using take_bit_nat_less_exp [of 4 "unat b"] by (simp add: unsigned_take_bit_eq)
qed

lemma relay_token_concat:
  "relay_token hmac secret host_id =
     (case hmac secret host_id of None \<Rightarrow> [] | Some d \<Rightarrow> concat (map hex_byte d))"
proof -
  have "fold (\<lambda>b out. out @ hex_byte b) d out = out @ concat (map hex_byte d)" for d out
    by (induction d arbitrary: out) auto
  then show ?thesis by (simp add: relay_token_def split: option.split)
qed

lemma length_relay_token:
  "hmac secret host_id = Some d \<Longrightarrow> length (relay_token hmac secret host_id) = 2 * length d"
proof -
  have "length (concat (map hex_byte d)) = 2 * length d" for d
    by (induction d) (auto simp: hex_byte_def)
  then show "hmac secret host_id = Some d \<Longrightarrow> ?thesis" by (simp add: relay_token_concat)
qed

text \<open>The lower-case hexadecimal digits are fixed by \<open>to_ascii_lowercase\<close>, and only hexadecimal
  digits map to them.\<close>

lemma lowercase_in_HEX_CHARS:
  assumes "to_ascii_lowercase b \<in> set HEX_CHARS"
  shows "is_ascii_hexdigit b"
proof (cases "is_ascii_uppercase b")
  case True
  with assms have "b + 0x20 \<in> set HEX_CHARS" by (simp add: to_ascii_lowercase_def)
  then have "b \<in> set (map (\<lambda>c. c - 0x20) HEX_CHARS)"
    by (metis add_diff_cancel_right' image_eqI list.set_map)
  with True show ?thesis
    by (auto simp: HEX_CHARS_def is_ascii_hexdigit_def is_ascii_uppercase_def is_ascii_digit_def)
next
  case False
  with assms show ?thesis
    by (auto simp: to_ascii_lowercase_def HEX_CHARS_def is_ascii_hexdigit_def is_ascii_digit_def)
qed

lemma set_hex_byte: "set (hex_byte b) \<subseteq> set HEX_CHARS"
proof -
  have "length HEX_CHARS = 16" by (simp add: HEX_CHARS_def)
  with hex_nibbles [of b] show ?thesis by (simp add: hex_byte_def)
qed

lemma set_relay_token: "set (relay_token hmac secret host_id) \<subseteq> set HEX_CHARS"
  using set_hex_byte by (auto simp: relay_token_concat split: option.splits)

lemma word_or_eq_0: "(a :: u8) OR b = 0 \<longleftrightarrow> a = 0 \<and> b = 0"
  by (auto simp: bit_eq_iff bit_or_iff)

lemma word_xor_eq_0: "(a :: u8) XOR b = 0 \<longleftrightarrow> a = b"
  by (auto simp: bit_eq_iff bit_xor_iff)

text \<open>The constant-time loop accumulates exactly the differences and the non-digits.\<close>

lemma token_loop:
  assumes "length e = length p"
  shows "fold token_step (zip e p) (diff, non_hex) = (d, n) \<Longrightarrow>
    (d = 0 \<and> n = 0 \<longleftrightarrow> diff = 0 \<and> non_hex = 0 \<and> e = map to_ascii_lowercase p \<and>
       list_all is_ascii_hexdigit p)"
  using assms
proof (induction e p arbitrary: diff non_hex rule: list_induct2)
  case Nil
  then show ?case by auto
next
  case (Cons a e b p)
  have "fold token_step (zip e p) (diff OR (a XOR to_ascii_lowercase b),
      if is_ascii_hexdigit b then non_hex else non_hex OR 1) = (d, n)"
    using Cons.prems by (auto simp: token_step_def Let_def split: if_splits)
  from Cons.IH [OF this] show ?case
    by (auto simp: word_or_eq_0 word_xor_eq_0)
qed

lemma relay_token_matches_iff:
  assumes digest_32: "\<And>d. hmac secret host_id = Some d \<Longrightarrow> length d = 32"
  shows "relay_token_matches hmac secret host_id p \<longleftrightarrow>
    hmac secret host_id \<noteq> None \<and> map to_ascii_lowercase p = relay_token hmac secret host_id"
proof (cases "hmac secret host_id")
  case None
  then show ?thesis by (simp add: relay_token_matches_def relay_token_def)
next
  case (Some d)
  let ?e = "relay_token hmac secret host_id"
  have len: "length ?e = 64"
    using length_relay_token [of hmac secret host_id d] Some digest_32 [OF Some] by simp
  have hex: "list_all is_ascii_hexdigit p" if "?e = map to_ascii_lowercase p"
    using set_relay_token [of hmac secret host_id] that lowercase_in_HEX_CHARS
    by (auto simp: list_all_iff)
  show ?thesis
  proof (cases "length p = 64")
    case True
    obtain d' n where loop: "fold token_step (zip ?e p) (0, 0) = (d', n)" by fastforce
    from token_loop [OF _ this] True len hex Some loop show ?thesis
      by (auto simp: relay_token_matches_def Let_def)
  next
    case False
    then show ?thesis
      using len by (auto simp: relay_token_matches_def dest: arg_cong [of _ _ length])
  qed
qed

section \<open>Properties\<close>

text \<open>Relay tokens: with a MAC of 32-byte digests, a presented token is accepted exactly when
  its lower-case form is the hexadecimal form of the digest for that host; an empty, truncated or
  non-hexadecimal token is never accepted, nor any token when the key is refused.\<close>

theorem relay_token_matches_spec:
  assumes digest_32: "\<And>d. hmac secret host_id = Some d \<Longrightarrow> length d = 32"
  shows "relay_token_matches hmac secret host_id p \<longleftrightarrow>
    (\<exists>d. hmac secret host_id = Some d \<and> map to_ascii_lowercase p = concat (map hex_byte d))"
  using relay_token_matches_iff [where hmac = hmac and p = p, OF digest_32]
  by (auto simp: relay_token_concat)

lemma zero_hex_tokens: "concat (replicate 32 [c, c]) = replicate 64 c"
  by (simp add: numeral_eq_Suc)

definition zero_mac :: hmac where
  "zero_mac secret message = Some (replicate 32 0)"

theorem relay_token_matches_spec_witness:
  "relay_token_matches zero_mac [1] [2] (replicate 64 0x30)"
proof -
  have "hex_byte 0 = [0x30, 0x30]" by (simp add: hex_byte_def HEX_CHARS_def)
  then have "map to_ascii_lowercase (replicate 64 0x30) = concat (map hex_byte (replicate 32 0))"
    by (simp add: to_ascii_lowercase_def is_ascii_uppercase_def map_replicate_const
        zero_hex_tokens)
  moreover have "\<And>d. zero_mac [1] [2] = Some d \<Longrightarrow> length d = 32"
    by (auto simp: zero_mac_def)
  ultimately show ?thesis
    using relay_token_matches_spec [of zero_mac "[1]" "[2]" "replicate 64 0x30"]
    by (auto simp: zero_mac_def)
qed

text \<open>Relay frames: decoding accepts exactly the encodings of a frame with a 16-byte session
  id, a known channel and a payload within the limit, and returns that frame.\<close>

theorem relay_frame_canonical:
  "decode_relay_frame bs = Inr f \<longleftrightarrow>
     length (rf_session_id f) = 16 \<and>
     encode_relay_frame (rf_session_id f) (rf_channel f) (rf_payload f) = Inr bs"
  using relay_frame.decode_iff [of bs f] by (simp add: relay_frame_inv_def encode_frame_of_def)

end
