(* ===== verification/Udp_Gcm.thy ===== *)
theory Udp_Gcm
  imports Packet
begin

unbundle bit_operations_syntax

text \<open>
  Protected UDP datagrams, \<open>maho-net/src/udp_gcm.rs\<close>: the replay window over a map of 64-bit
  blocks, the direction-specific cipher with its send counter, sealing and opening.

  AES-256-GCM and HKDF-SHA256 come from third-party crates and are parameters: \<open>enc key nonce aad
  plaintext\<close> gives ciphertext and tag, \<open>dec key nonce aad message\<close> the plaintext, \<open>hkdf ikm salt
  info length\<close> a key. The only law used is \<open>aead_correct\<close>, what the crate documents of the pair.

  The locale \<open>replay_guard\<close> states what a client relies on; its lemma says that a guard accepts no
  item twice in any sequence. The window is shown to be such a guard, and to accept exactly the
  unseen counters that are not too old.
\<close>

definition NONCE_SIZE :: usize where "NONCE_SIZE = 12"
definition TAG_SIZE :: usize where "TAG_SIZE = 16"
definition REPLAY_WINDOW_SIZE :: u64 where "REPLAY_WINDOW_SIZE = 4096"
definition HEADER_SIZE :: usize where "HEADER_SIZE = packet_header_SIZE"

datatype direction = ClientToHost | HostToClient

text \<open>The bytes of \<open>erd/udp-c2h/v3\<close> and \<open>erd/udp-h2c/v3\<close>.\<close>

fun direction_info :: "direction \<Rightarrow> bytes" where
  "direction_info ClientToHost =
     [0x65, 0x72, 0x64, 0x2F, 0x75, 0x64, 0x70, 0x2D, 0x63, 0x32, 0x68, 0x2F, 0x76, 0x33]"
| "direction_info HostToClient =
     [0x65, 0x72, 0x64, 0x2F, 0x75, 0x64, 0x70, 0x2D, 0x68, 0x32, 0x63, 0x2F, 0x76, 0x33]"

datatype datagram_error =
    InvalidMasterKey
  | InvalidSessionSalt
  | CounterExhausted
  | DatagramTruncated
  | WrongDirection
  | Replay
  | Authentication
  | InvalidHeader codec_error

section \<open>The replay window\<close>

record replay_window =
  rw_highest_received :: u64
  rw_received_any :: bool
  rw_blocks :: "u64 \<rightharpoonup> u64"

definition replay_default :: replay_window where
  "replay_default = \<lparr>rw_highest_received = 0, rw_received_any = False, rw_blocks = Map.empty\<rparr>"

definition saturating_sub :: "u64 \<Rightarrow> u64 \<Rightarrow> u64" where
  "saturating_sub a b = (if a \<le> b then 0 else a - b)"

definition can_accept :: "replay_window \<Rightarrow> u64 \<Rightarrow> bool" where
  "can_accept w counter =
     (if rw_received_any w \<and> counter < rw_highest_received w \<and>
         rw_highest_received w - counter \<ge> REPLAY_WINDOW_SIZE
      then False
      else
      let block = counter div 64; mask = push_bit (unat (counter mod 64)) 1
      in case rw_blocks w block of None \<Rightarrow> True | Some seen \<Rightarrow> seen AND mask = 0)"

definition record_counter :: "replay_window \<Rightarrow> u64 \<Rightarrow> replay_window" where
  "record_counter w counter =
     (let block = counter div 64;
          mask = push_bit (unat (counter mod 64)) 1;
          entry = (case rw_blocks w block of None \<Rightarrow> 0 | Some seen \<Rightarrow> seen);
          w = w\<lparr>rw_blocks := (rw_blocks w)(block \<mapsto> entry OR mask)\<rparr>;
          previous_oldest_block =
            saturating_sub (rw_highest_received w) (saturating_sub REPLAY_WINDOW_SIZE 1) div 64;
          w = (if \<not> rw_received_any w \<or> counter > rw_highest_received w
               then w\<lparr>rw_highest_received := counter, rw_received_any := True\<rparr> else w);
          oldest_counter =
            saturating_sub (rw_highest_received w) (saturating_sub REPLAY_WINDOW_SIZE 1);
          oldest_block = oldest_counter div 64
      in if oldest_block > previous_oldest_block
         then w\<lparr>rw_blocks := (\<lambda>block. if block \<ge> oldest_block then rw_blocks w block else None)\<rparr>
         else w)"

section \<open>The cipher\<close>

type_synonym aead_enc = "bytes \<Rightarrow> bytes \<Rightarrow> bytes \<Rightarrow> bytes \<Rightarrow> (bytes \<times> bytes) option"
type_synonym aead_dec = "bytes \<Rightarrow> bytes \<Rightarrow> bytes \<Rightarrow> bytes \<Rightarrow> bytes option"
type_synonym hkdf = "bytes \<Rightarrow> bytes \<Rightarrow> bytes \<Rightarrow> usize \<Rightarrow> bytes"

record datagram_cipher =
  dc_cipher :: bytes
  dc_nonce_prefix :: bytes
  dc_send_counter :: u64
  dc_replay :: replay_window

text \<open>The info strings are the bytes of \<open>erd/udp-ikm/v3\<close> and \<open>/nonce\<close>.\<close>

definition derive :: "hkdf \<Rightarrow> bytes \<Rightarrow> bytes \<Rightarrow> direction \<Rightarrow> datagram_error + datagram_cipher" where
  "derive hkdf master_key session_salt direction =
     (if length master_key \<noteq> 32 then Inl InvalidMasterKey
      else if length session_salt \<noteq> 16 then Inl InvalidSessionSalt
      else
      let udp_ikm = hkdf master_key session_salt
            [0x65, 0x72, 0x64, 0x2F, 0x75, 0x64, 0x70, 0x2D, 0x69, 0x6B, 0x6D, 0x2F, 0x76, 0x33] 32;
          key = hkdf udp_ikm session_salt (direction_info direction) 32;
          nonce_info = direction_info direction @ [0x2F, 0x6E, 0x6F, 0x6E, 0x63, 0x65];
          prefix = hkdf udp_ikm session_salt nonce_info 4
      in Inr \<lparr>dc_cipher = key, dc_nonce_prefix = prefix, dc_send_counter = 0,
              dc_replay = replay_default\<rparr>)"

text \<open>\<open>seal_into\<close> returns the cipher and the buffer as it leaves them, and its result.\<close>

definition seal_into ::
  "aead_enc \<Rightarrow> datagram_cipher \<Rightarrow> bytes \<Rightarrow> bytes \<Rightarrow> bytes \<Rightarrow>
     datagram_cipher \<times> bytes \<times> (datagram_error + unit)" where
  "seal_into enc c plaintext aad output =
     (if dc_send_counter c = - 1 then (c, output, Inl CounterExhausted)
      else
      let c = c\<lparr>dc_send_counter := dc_send_counter c + 1\<rparr>;
          nonce_bytes = dc_nonce_prefix c @ be_bytes 8 (dc_send_counter c);
          start = length output;
          output = extend_from_slice output nonce_bytes;
          output = extend_from_slice output plaintext
      in case enc (dc_cipher c) nonce_bytes aad (drop (start + NONCE_SIZE) output) of
           Some (ciphertext, tag) \<Rightarrow>
             (c, take (start + NONCE_SIZE) output @ ciphertext @ tag, Inr ())
         | None \<Rightarrow> (c, take start output, Inl Authentication))"

definition seal ::
  "aead_enc \<Rightarrow> datagram_cipher \<Rightarrow> bytes \<Rightarrow> bytes \<Rightarrow> datagram_cipher \<times> (datagram_error + bytes)" where
  "seal enc c plaintext aad =
     (case seal_into enc c plaintext aad [] of
        (c, output, Inl e) \<Rightarrow> (c, Inl e)
      | (c, output, Inr _) \<Rightarrow> (c, Inr output))"

definition open_sealed ::
  "aead_dec \<Rightarrow> datagram_cipher \<Rightarrow> bytes \<Rightarrow> bytes \<Rightarrow> datagram_cipher \<times> (datagram_error + bytes)" where
  "open_sealed dec c sealed aad =
     (if length sealed < NONCE_SIZE + TAG_SIZE then (c, Inl DatagramTruncated)
      else if take 4 sealed \<noteq> dc_nonce_prefix c then (c, Inl WrongDirection)
      else
      let counter = be_word (take (NONCE_SIZE - 4) (drop 4 sealed))
      in if \<not> can_accept (dc_replay c) counter then (c, Inl Replay)
         else case dec (dc_cipher c) (take NONCE_SIZE sealed) aad (drop NONCE_SIZE sealed) of
                None \<Rightarrow> (c, Inl Authentication)
              | Some plaintext \<Rightarrow>
                  (c\<lparr>dc_replay := record_counter (dc_replay c) counter\<rparr>, Inr plaintext))"

definition seal_datagram ::
  "aead_enc \<Rightarrow> datagram_cipher \<Rightarrow> packet_header \<Rightarrow> bytes \<Rightarrow>
     datagram_cipher \<times> (datagram_error + bytes)" where
  "seal_datagram enc c header payload =
     (case encode_packet_header header of
        Inl e \<Rightarrow> (c, Inl (InvalidHeader e))
      | Inr header_bytes \<Rightarrow>
          (case seal_into enc c payload header_bytes (extend_from_slice [] header_bytes) of
             (c, datagram, Inl e) \<Rightarrow> (c, Inl e)
           | (c, datagram, Inr _) \<Rightarrow> (c, Inr datagram)))"

definition open_datagram ::
  "aead_dec \<Rightarrow> datagram_cipher \<Rightarrow> bytes \<Rightarrow>
     datagram_cipher \<times> (datagram_error + packet_header \<times> bytes)" where
  "open_datagram dec c datagram =
     (if length datagram < HEADER_SIZE + NONCE_SIZE + TAG_SIZE then (c, Inl DatagramTruncated)
      else
      let header_bytes = take HEADER_SIZE datagram
      in case decode_packet_header header_bytes of
           Inl e \<Rightarrow> (c, Inl (InvalidHeader e))
         | Inr header \<Rightarrow>
             (case open_sealed dec c (drop HEADER_SIZE datagram) header_bytes of
                (c, Inl e) \<Rightarrow> (c, Inl e)
              | (c, Inr payload) \<Rightarrow> (c, Inr (header, payload))))"

section \<open>Sequences of operations\<close>

text \<open>A receiver that opens a list of sealed payloads, with the results in order, and a sender that
  seals a list of datagrams.\<close>

primrec open_all ::
  "aead_dec \<Rightarrow> datagram_cipher \<Rightarrow> bytes list \<Rightarrow>
     datagram_cipher \<times> (datagram_error + packet_header \<times> bytes) list" where
  "open_all dec c [] = (c, [])"
| "open_all dec c (d # ds) =
     (let (c', r) = open_datagram dec c d; (c'', rs) = open_all dec c' ds in (c'', r # rs))"

primrec seal_all ::
  "aead_enc \<Rightarrow> datagram_cipher \<Rightarrow> (packet_header \<times> bytes) list \<Rightarrow>
     datagram_cipher \<times> (datagram_error + bytes) list" where
  "seal_all enc c [] = (c, [])"
| "seal_all enc c (m # ms) =
     (let (c', r) = seal_datagram enc c (fst m) (snd m); (c'', rs) = seal_all enc c' ms
      in (c'', r # rs))"

definition datagram_counter :: "bytes \<Rightarrow> u64" where
  "datagram_counter d = be_word (take 8 (drop (HEADER_SIZE + 4) d))"

section \<open>Guards that accept nothing twice\<close>

text \<open>The interface of a replay filter: \<open>accepts s x\<close> is the test, \<open>mark s x\<close> records an accepted
  item, and \<open>related s X\<close> relates a state to the set of the items recorded so far.\<close>

primrec guarded :: "('s \<Rightarrow> 'x \<Rightarrow> bool) \<Rightarrow> ('s \<Rightarrow> 'x \<Rightarrow> 's) \<Rightarrow> 's \<Rightarrow> 'x list \<Rightarrow> 's \<times> 'x list" where
  "guarded accepts mark s [] = (s, [])"
| "guarded accepts mark s (x # xs) =
     (if accepts s x then let (s', ys) = guarded accepts mark (mark s x) xs in (s', x # ys)
      else guarded accepts mark s xs)"

locale replay_guard =
  fixes accepts :: "'s \<Rightarrow> 'x \<Rightarrow> bool"
    and mark :: "'s \<Rightarrow> 'x \<Rightarrow> 's"
    and related :: "'s \<Rightarrow> 'x set \<Rightarrow> bool"
  assumes accepts_fresh: "related s X \<Longrightarrow> accepts s x \<Longrightarrow> x \<notin> X"
    and mark_related: "related s X \<Longrightarrow> accepts s x \<Longrightarrow> related (mark s x) (insert x X)"
begin

lemma guarded_related:
  "related s X \<Longrightarrow> guarded accepts mark s xs = (s', ys) \<Longrightarrow>
     related s' (X \<union> set ys) \<and> distinct ys \<and> set ys \<inter> X = {} \<and> set ys \<subseteq> set xs"
proof (induction xs arbitrary: s X ys)
  case Nil
  then show ?case by simp
next
  case (Cons x xs)
  show ?case
  proof (cases "accepts s x")
    case True
    with Cons.prems(2) obtain zs where zs: "guarded accepts mark (mark s x) xs = (s', zs)" "ys = x # zs"
      by (auto split: prod.splits)
    with Cons.IH [OF mark_related [OF Cons.prems(1) True] zs(1)] accepts_fresh [OF Cons.prems(1) True]
    show ?thesis by auto
  next
    case False
    with Cons.IH [OF Cons.prems(1)] Cons.prems(2) show ?thesis by auto
  qed
qed

lemma guarded_distinct: "related s X \<Longrightarrow> distinct (snd (guarded accepts mark s xs))"
  using guarded_related [of s X xs] by (metis prod.collapse)

end

section \<open>The window is such a guard\<close>

definition window_seen :: "replay_window \<Rightarrow> u64 \<Rightarrow> bool" where
  "window_seen w c = (case rw_blocks w (c div 64) of None \<Rightarrow> False
     | Some seen \<Rightarrow> bit seen (unat (c mod 64)))"

definition window_oldest :: "u64 \<Rightarrow> u64" where
  "window_oldest h = saturating_sub h 4095"

text \<open>The window against the set of all counters recorded so far: it knows the highest one, keeps
  every recorded counter that is not older than the window, invents none, and holds no block
  outside the window.\<close>

definition window_related :: "replay_window \<Rightarrow> u64 set \<Rightarrow> bool" where
  "window_related w S \<longleftrightarrow>
     finite S \<and> rw_received_any w = (S \<noteq> {}) \<and>
     rw_highest_received w = (if S = {} then 0 else Max S) \<and>
     (\<forall>c. window_seen w c \<longrightarrow> c \<in> S) \<and>
     (\<forall>c\<in>S. window_oldest (rw_highest_received w) \<le> c \<longrightarrow> window_seen w c) \<and>
     dom (rw_blocks w) \<subseteq>
       {window_oldest (rw_highest_received w) div 64 .. rw_highest_received w div 64} \<and>
     (S = {} \<longrightarrow> rw_blocks w = Map.empty)"

definition too_old :: "u64 \<Rightarrow> u64 \<Rightarrow> bool" where
  "too_old h c \<longleftrightarrow> c < h \<and> 4096 \<le> h - c"

lemma window_constants: "REPLAY_WINDOW_SIZE = 4096" "saturating_sub 4096 1 = 4095"
  by (simp_all add: REPLAY_WINDOW_SIZE_def saturating_sub_def word_le_nat_alt)

lemma bit_mask: "bit (2 ^ unat (c mod 64 :: u64) :: u64) k \<longleftrightarrow> k = unat (c mod 64)"
proof -
  have "unat (c mod 64) < 64" by (simp add: unat_mod)
  then show ?thesis by (auto simp: bit_exp_iff)
qed

lemma counter_split: "(c :: u64) div 64 = d div 64 \<and> unat (c mod 64) = unat (d mod 64) \<longleftrightarrow> c = d"
  by (metis div_mult_mod_eq unsigned_word_eqI)

lemma div_64_mono: "(c :: u64) \<le> d \<Longrightarrow> c div 64 \<le> d div 64"
  by (simp add: word_le_nat_alt unat_div div_le_mono)

lemma too_old_oldest: "too_old h c \<longleftrightarrow> c < window_oldest h"
  by (auto simp: too_old_def window_oldest_def saturating_sub_def word_less_nat_alt word_le_nat_alt
      unat_sub)

lemma window_oldest_mono: "h \<le> k \<Longrightarrow> window_oldest h \<le> window_oldest k"
  by (auto simp: window_oldest_def saturating_sub_def word_le_nat_alt unat_sub)

lemma window_oldest_le: "window_oldest h \<le> h"
  by (auto simp: window_oldest_def saturating_sub_def word_le_nat_alt unat_sub)

lemma can_accept_seen:
  "can_accept w c \<longleftrightarrow>
     \<not> (rw_received_any w \<and> too_old (rw_highest_received w) c) \<and> \<not> window_seen w c"
  by (auto simp: can_accept_def window_constants window_seen_def too_old_def and_exp_eq_0_iff_not_bit Let_def
      split: option.split)

text \<open>The record operation field by field.\<close>

lemma record_counter_fields:
  defines "h' \<equiv> \<lambda>w c. if \<not> rw_received_any w \<or> c > rw_highest_received w then c
                      else rw_highest_received w"
  shows "rw_highest_received (record_counter w c) = h' w c"
    and "rw_received_any (record_counter w c)"
    and "rw_blocks (record_counter w c) b =
      (if window_oldest (h' w c) div 64 > window_oldest (rw_highest_received w) div 64 \<and>
          \<not> window_oldest (h' w c) div 64 \<le> b then None
       else if b = c div 64 then
         Some ((case rw_blocks w b of None \<Rightarrow> 0 | Some seen \<Rightarrow> seen) OR
               push_bit (unat (c mod 64)) 1)
       else rw_blocks w b)"
  by (auto simp: record_counter_def h'_def window_constants window_oldest_def Let_def)

lemma record_counter_seen:
  assumes "window_oldest (rw_highest_received (record_counter w c)) \<le> d"
  shows "window_seen (record_counter w c) d \<longleftrightarrow> d = c \<or> window_seen w d"
  using div_64_mono [OF assms] counter_split [of c d]
  by (auto simp: window_seen_def record_counter_fields bit_or_iff bit_mask split: option.split)

lemma record_counter_seen_imp:
  "window_seen (record_counter w c) d \<Longrightarrow> d = c \<or> window_seen w d"
  using counter_split [of c d]
  by (auto simp: window_seen_def record_counter_fields bit_or_iff bit_mask split: option.splits if_splits)

lemma window_related_default: "window_related replay_default {}"
  by (simp add: window_related_def replay_default_def window_seen_def)

lemma can_accept_iff:
  assumes "window_related w S"
  shows "can_accept w c \<longleftrightarrow> c \<notin> S \<and> (S = {} \<or> \<not> too_old (Max S) c)"
proof (cases "S = {}")
  case True
  with assms show ?thesis
    by (auto simp: can_accept_seen window_related_def window_seen_def)
next
  case False
  then have w: "rw_received_any w" "rw_highest_received w = Max S"
    using assms by (simp_all add: window_related_def)
  have "window_seen w c \<longleftrightarrow> c \<in> S" if "\<not> too_old (Max S) c"
    using assms that w(2) by (auto simp: window_related_def too_old_oldest not_less)
  then show ?thesis
    using False w by (auto simp: can_accept_seen)
qed

lemma record_counter_highest:
  "window_related w S \<Longrightarrow> rw_highest_received (record_counter w c) = Max (insert c S)"
  by (auto simp: record_counter_fields window_related_def max_def not_less
      simp del: Max_less_iff Max_le_iff Max_ge_iff Max_gr_iff)

lemma window_related_dom:
  "window_related w S \<Longrightarrow> dom (rw_blocks w) \<subseteq>
     {window_oldest (rw_highest_received w) div 64 .. rw_highest_received w div 64}"
  unfolding window_related_def by blast

lemma highest_le_insert:
  "window_related w S \<Longrightarrow> rw_highest_received w \<le> Max (insert c S)"
  by (auto simp: window_related_def intro: Max_mono)

lemma record_counter_dom:
  assumes rel: "window_related w S" and acc: "can_accept w c"
  shows "dom (rw_blocks (record_counter w c)) \<subseteq>
    {window_oldest (Max (insert c S)) div 64 .. Max (insert c S) div 64}"
proof
  fix b assume b: "b \<in> dom (rw_blocks (record_counter w c))"
  let ?h = "rw_highest_received w" and ?h' = "Max (insert c S)"
  have fin: "finite S" using rel by (simp add: window_related_def)
  have h': "?h' = (if \<not> rw_received_any w \<or> c > ?h then c else ?h)"
    using record_counter_highest [OF rel, of c] by (simp add: record_counter_fields)
  have le: "c \<le> ?h'" "?h \<le> ?h'" using fin highest_le_insert [OF rel] by simp_all
  have old: "window_oldest ?h' \<le> c"
    using can_accept_iff [OF rel, of c] acc rel h' window_oldest_le [of c]
    by (auto simp: too_old_oldest not_less window_related_def split: if_splits)
  have mono: "window_oldest ?h div 64 \<le> window_oldest ?h' div 64"
    by (intro div_64_mono window_oldest_mono le)
  have src: "b = c div 64 \<or> b \<in> dom (rw_blocks w)"
    and keep: "window_oldest ?h' div 64 = window_oldest ?h div 64 \<or> window_oldest ?h' div 64 \<le> b"
    using b mono by (auto simp: record_counter_fields h' split: if_splits)
  from src show "b \<in> {window_oldest ?h' div 64 .. ?h' div 64}"
  proof (elim disjE)
    assume "b = c div 64"
    then show ?thesis using div_64_mono [OF old] div_64_mono [OF le(1)] by simp
  next
    assume "b \<in> dom (rw_blocks w)"
    then have "window_oldest ?h div 64 \<le> b" "b \<le> ?h div 64"
      using window_related_dom [OF rel] by auto
    with keep div_64_mono [OF le(2)] show ?thesis by auto
  qed
qed

lemma record_counter_related:
  assumes rel: "window_related w S" and acc: "can_accept w c"
  shows "window_related (record_counter w c) (insert c S)"
proof -
  note h' = record_counter_highest [OF rel, of c]
  have fin: "finite S" and seen: "\<And>d. window_seen w d \<Longrightarrow> d \<in> S"
    and kept: "\<And>d. d \<in> S \<Longrightarrow> window_oldest (rw_highest_received w) \<le> d \<Longrightarrow> window_seen w d"
    using rel by (auto simp: window_related_def)
  note old = window_oldest_mono [OF highest_le_insert [OF rel, of c]]
  have "window_seen (record_counter w c) d"
    if "d \<in> insert c S" "window_oldest (Max (insert c S)) \<le> d" for d
    using that kept [of d] order_trans [OF old that(2)] record_counter_seen [of w c d] h' by auto
  moreover have "d \<in> insert c S" if "window_seen (record_counter w c) d" for d
    using record_counter_seen_imp [OF that] seen by auto
  ultimately show ?thesis
    unfolding window_related_def
    using fin h' record_counter_dom [OF rel acc] by (simp add: record_counter_fields(2))
qed

interpretation window: replay_guard can_accept record_counter window_related
  by unfold_locales (simp_all add: can_accept_iff record_counter_related)

lemma window_related_blocks:
  assumes "window_related w S"
  shows "finite (dom (rw_blocks w)) \<and> card (dom (rw_blocks w)) \<le> 65"
proof -
  let ?h = "rw_highest_received w"
  let ?I = "{window_oldest ?h div 64 .. ?h div 64}"
  let ?J = "{unat (window_oldest ?h) div 64 .. unat ?h div 64}"
  have "inj_on unat ?I" by (auto intro!: inj_onI unsigned_word_eqI)
  moreover have "unat ` ?I \<subseteq> ?J"
    by (auto simp: word_le_nat_alt unat_div)
  ultimately have "card ?I \<le> card ?J"
    by (metis card_image card_mono finite_atLeastAtMost)
  also have "\<dots> \<le> 65"
    by (auto simp: window_oldest_def saturating_sub_def unat_sub word_le_nat_alt)
  finally have "card ?I \<le> 65" .
  moreover have "dom (rw_blocks w) \<subseteq> ?I" using assms by (rule window_related_dom)
  ultimately show ?thesis
    using card_mono [of ?I "dom (rw_blocks w)"] finite_subset by fastforce
qed

section \<open>Opening\<close>

text \<open>What the AEAD crate documents: the ciphertext is as long as the plaintext, the tag has 16
  bytes, and decryption under the same key, nonce and associated data gives the plaintext back.\<close>

definition aead_correct :: "aead_enc \<Rightarrow> aead_dec \<Rightarrow> bool" where
  "aead_correct enc dec \<longleftrightarrow> (\<forall>k n a p ct tag. enc k n a p = Some (ct, tag) \<longrightarrow>
     length ct = length p \<and> length tag = TAG_SIZE \<and> dec k n a (ct @ tag) = Some p)"

lemmas datagram_sizes = NONCE_SIZE_def TAG_SIZE_def HEADER_SIZE_def packet_header_SIZE_def

lemma open_sealed_Inl: "open_sealed dec c s hb = (c', Inl e) \<Longrightarrow> c' = c"
  by (auto simp: open_sealed_def Let_def split: if_splits option.splits)

lemma open_sealed_Inr:
  "open_sealed dec c s hb = (c', Inr p) \<Longrightarrow>
     can_accept (dc_replay c) (be_word (take 8 (drop 4 s))) \<and>
     c' = c\<lparr>dc_replay := record_counter (dc_replay c) (be_word (take 8 (drop 4 s)))\<rparr>"
  by (auto simp: open_sealed_def NONCE_SIZE_def Let_def split: if_splits option.splits)

lemma open_datagram_Inl: "open_datagram dec c d = (c', Inl e) \<Longrightarrow> c' = c"
  by (auto simp: open_datagram_def Let_def dest: open_sealed_Inl
      split: if_split_asm sum.split_asm prod.split_asm)

lemma open_datagram_Inr:
  assumes "open_datagram dec c d = (c', Inr m)"
  shows "can_accept (dc_replay c) (datagram_counter d) \<and>
    c' = c\<lparr>dc_replay := record_counter (dc_replay c) (datagram_counter d)\<rparr>"
proof -
  from assms obtain hb p where "open_sealed dec c (drop HEADER_SIZE d) hb = (c', Inr p)"
    by (auto simp: open_datagram_def Let_def split: if_split_asm sum.split_asm prod.split_asm)
  from open_sealed_Inr [OF this] show ?thesis
    by (simp add: datagram_counter_def add.commute)
qed

lemma open_datagram_cases:
  assumes "open_datagram dec c d = (c', r)"
  obtains (rejected) e where "r = Inl e" "c' = c"
  | (accepted) m where "r = Inr m" "can_accept (dc_replay c) (datagram_counter d)"
      "c' = c\<lparr>dc_replay := record_counter (dc_replay c) (datagram_counter d)\<rparr>"
  using assms open_datagram_Inl open_datagram_Inr by (cases r) blast+

text \<open>The datagrams of a sequence that were accepted.\<close>

fun accepted_datagrams :: "(datagram_error + 'm) list \<Rightarrow> bytes list \<Rightarrow> bytes list" where
  "accepted_datagrams (Inr _ # rs) (d # ds) = d # accepted_datagrams rs ds"
| "accepted_datagrams (Inl _ # rs) (d # ds) = accepted_datagrams rs ds"
| "accepted_datagrams _ _ = []"

lemma open_all_guarded:
  "open_all dec c ds = (c', rs) \<Longrightarrow>
     guarded can_accept record_counter (dc_replay c) (map datagram_counter (accepted_datagrams rs ds)) =
       (dc_replay c', map datagram_counter (accepted_datagrams rs ds))"
proof (induction ds arbitrary: c rs)
  case Nil
  then show ?case by simp
next
  case (Cons d ds)
  obtain c1 r where one: "open_datagram dec c d = (c1, r)" by (cases "open_datagram dec c d")
  with Cons.prems obtain rs' where "open_all dec c1 ds = (c', rs')" and rs: "rs = r # rs'"
    by (auto split: prod.splits)
  with Cons.IH [of c1 rs'] show ?case
    unfolding rs by (cases rule: open_datagram_cases [OF one]) simp_all
qed

section \<open>Sealing\<close>

definition sealed_as :: "aead_enc \<Rightarrow> bytes \<Rightarrow> bytes \<Rightarrow> u64 \<Rightarrow> packet_header \<times> bytes \<Rightarrow> bytes \<Rightarrow> bool" where
  "sealed_as enc key prefix k m d \<longleftrightarrow> (\<exists>ct tag.
     enc key (prefix @ be_bytes 8 k) (packet_header_to_bytes (fst m)) (snd m) = Some (ct, tag) \<and>
     d = packet_header_to_bytes (fst m) @ prefix @ be_bytes 8 k @ ct @ tag)"

lemma seal_datagram_cases:
  assumes "seal_datagram enc c h p = (c', r)" and "length (dc_nonce_prefix c) = 4"
  obtains (exhausted) "dc_send_counter c = - 1" "c' = c" "r = Inl CounterExhausted"
  | (failed) "dc_send_counter c \<noteq> - 1" "c' = c\<lparr>dc_send_counter := dc_send_counter c + 1\<rparr>"
      "r = Inl Authentication"
  | (sealed) d where "dc_send_counter c \<noteq> - 1" "c' = c\<lparr>dc_send_counter := dc_send_counter c + 1\<rparr>"
      "r = Inr d" "sealed_as enc (dc_cipher c) (dc_nonce_prefix c) (dc_send_counter c + 1) (h, p) d"
  using assms
  by (auto simp: seal_datagram_def encode_packet_header_def seal_into_def sealed_as_def Let_def
      codec_defs NONCE_SIZE_def split: if_splits option.splits)

lemma sealed_as_counter:
  "sealed_as enc key prefix k m d \<Longrightarrow> length prefix = 4 \<Longrightarrow> datagram_counter d = k"
  by (auto simp: sealed_as_def datagram_counter_def datagram_sizes be_word_be_bytes)

lemma open_sealed_as:
  assumes aead: "aead_correct enc dec" and d: "sealed_as enc (dc_cipher c) (dc_nonce_prefix c) k m d"
    and prefix: "length (dc_nonce_prefix c) = 4"
  shows "open_datagram dec c d =
    (if can_accept (dc_replay c) k
     then (c\<lparr>dc_replay := record_counter (dc_replay c) k\<rparr>, Inr m) else (c, Inl Replay))"
proof -
  let ?hb = "packet_header_to_bytes (fst m)" and ?n = "dc_nonce_prefix c @ be_bytes 8 k"
  from d obtain ct tag where enc: "enc (dc_cipher c) ?n ?hb (snd m) = Some (ct, tag)"
    and d': "d = ?hb @ dc_nonce_prefix c @ be_bytes 8 k @ ct @ tag"
    by (auto simp: sealed_as_def)
  with aead have len: "length ct = length (snd m)" "length tag = 16"
    and dec: "dec (dc_cipher c) ?n ?hb (ct @ tag) = Some (snd m)"
    by (auto simp: aead_correct_def TAG_SIZE_def)
  have "decode_packet_header ?hb = Inr (fst m)" by (simp add: decode_packet_header_Inr)
  then show ?thesis
    using len dec prefix
    by (simp add: open_datagram_def open_sealed_def d' datagram_sizes be_word_be_bytes Let_def)
qed

lemma seal_all_sealed_as:
  "seal_all enc c ms = (c', map Inr ds) \<Longrightarrow> length (dc_nonce_prefix c) = 4 \<Longrightarrow>
     length ds = length ms \<and> (\<forall>i < length ms. sealed_as enc (dc_cipher c) (dc_nonce_prefix c)
       (dc_send_counter c + word_of_nat (Suc i)) (ms ! i) (ds ! i))"
proof (induction ms arbitrary: c ds)
  case Nil
  then show ?case by simp
next
  case (Cons m ms)
  obtain c1 r where one: "seal_datagram enc c (fst m) (snd m) = (c1, r)"
    by (cases "seal_datagram enc c (fst m) (snd m)")
  with Cons.prems obtain d ds' where rest: "seal_all enc c1 ms = (c', map Inr ds')"
    and ds: "ds = d # ds'" and r: "r = Inr d"
    by (auto split: prod.splits)
  have c1: "c1 = c\<lparr>dc_send_counter := dc_send_counter c + 1\<rparr>"
    "sealed_as enc (dc_cipher c) (dc_nonce_prefix c) (dc_send_counter c + 1) m d"
    using one Cons.prems(2) r by (auto elim: seal_datagram_cases)
  from Cons.IH [OF rest] c1(1) Cons.prems(2) have
    "length ds' = length ms" "\<forall>i < length ms. sealed_as enc (dc_cipher c) (dc_nonce_prefix c)
       (dc_send_counter c + 1 + word_of_nat (Suc i)) (ms ! i) (ds' ! i)" by simp_all
  then show ?case
    unfolding ds using c1(2) by (auto simp: nth_Cons ac_simps split: nat.split)
qed

section \<open>Delivery in any order\<close>

text \<open>The specification of a receiver: it knows the set of the counters it took, refuses a counter
  it has or one that is 4096 or more behind the highest, and takes every other one.\<close>

fun deliver_spec :: "u64 set \<Rightarrow> (u64 \<times> 'm) list \<Rightarrow> (datagram_error + 'm) list" where
  "deliver_spec S [] = []"
| "deliver_spec S ((k, m) # xs) =
     (if k \<in> S \<or> S \<noteq> {} \<and> too_old (Max S) k then Inl Replay # deliver_spec S xs
      else Inr m # deliver_spec (insert k S) xs)"

lemma open_all_spec:
  assumes aead: "aead_correct enc dec" and prefix: "length prefix = 4"
  shows "window_related (dc_replay c) S \<Longrightarrow> dc_cipher c = key \<Longrightarrow> dc_nonce_prefix c = prefix \<Longrightarrow>
    list_all (\<lambda>(k, m, d). sealed_as enc key prefix k m d) xs \<Longrightarrow>
    snd (open_all dec c (map (\<lambda>(k, m, d). d) xs)) = deliver_spec S (map (\<lambda>(k, m, d). (k, m)) xs)"
proof (induction xs arbitrary: c S)
  case Nil
  then show ?case by simp
next
  case (Cons x xs)
  obtain k m d where x: "x = (k, m, d)" by (cases x)
  with Cons.prems(4) have "sealed_as enc key prefix k m d"
    and rest: "list_all (\<lambda>(k, m, d). sealed_as enc key prefix k m d) xs" by simp_all
  then have one: "open_datagram dec c d = (if can_accept (dc_replay c) k
      then (c\<lparr>dc_replay := record_counter (dc_replay c) k\<rparr>, Inr m) else (c, Inl Replay))"
    using open_sealed_as [OF aead, of c k m d] Cons.prems(2,3) prefix by simp
  note acc = can_accept_iff [OF Cons.prems(1), of k]
  show ?case
  proof (cases "can_accept (dc_replay c) k")
    case True
    with acc one Cons.IH [of "c\<lparr>dc_replay := record_counter (dc_replay c) k\<rparr>" "insert k S"]
      record_counter_related [OF Cons.prems(1) True] Cons.prems(2,3) rest
    show ?thesis by (auto simp: x Let_def split: prod.splits)
  next
    case False
    with acc one Cons.IH [OF Cons.prems(1-3) rest] show ?thesis
      by (auto simp: x Let_def split: prod.splits)
  qed
qed

lemma seal_all_counters:
  "seal_all enc c ms = (c', rs) \<Longrightarrow> length (dc_nonce_prefix c) = 4 \<Longrightarrow>
     unat (dc_send_counter c) \<le> unat (dc_send_counter c') \<and>
     sorted_wrt (<) (map (\<lambda>d. unat (datagram_counter d)) (oks rs)) \<and>
     (\<forall>d. Inr d \<in> set rs \<longrightarrow> unat (dc_send_counter c) < unat (datagram_counter d) \<and>
        unat (datagram_counter d) \<le> unat (dc_send_counter c'))"
proof (induction ms arbitrary: c rs)
  case Nil
  then show ?case by simp
next
  case (Cons m ms)
  obtain c1 r where one: "seal_datagram enc c (fst m) (snd m) = (c1, r)"
    by (cases "seal_datagram enc c (fst m) (snd m)")
  with Cons.prems obtain rs' where rest: "seal_all enc c1 ms = (c', rs')" and rs: "rs = r # rs'"
    by (auto split: prod.splits)
  have c1: "c1 = c \<and> (\<exists>e. r = Inl e) \<or> unat (dc_send_counter c1) = unat (dc_send_counter c) + 1 \<and>
      dc_nonce_prefix c1 = dc_nonce_prefix c \<and>
      (\<forall>d. r = Inr d \<longrightarrow> datagram_counter d = dc_send_counter c1)"
    using one Cons.prems(2)
    by (cases rule: seal_datagram_cases) (auto simp: unat_plus_one sealed_as_counter [OF _ Cons.prems(2)])
  then have "dc_nonce_prefix c1 = dc_nonce_prefix c" by auto
  with Cons.IH [OF rest] Cons.prems(2) c1 show ?case
    unfolding rs by (cases r) fastforce+
qed

section \<open>Properties\<close>

text \<open>C18. No replay: whatever a network sends, in whatever order and however often, the datagrams
  that a freshly derived receiver accepts all carry different counters. The statement holds for
  any decryption function.\<close>

theorem open_all_no_replay:
  assumes "derive hkdf key salt dir = Inr c"
  shows "distinct (map datagram_counter (accepted_datagrams (snd (open_all dec c ds)) ds))"
proof -
  have "window_related (dc_replay c) {}"
    using assms window_related_default by (auto simp: derive_def Let_def split: if_splits)
  from window.guarded_distinct [OF this] show ?thesis
    using open_all_guarded [of dec c ds] by (metis prod.collapse snd_conv)
qed

text \<open>A concrete instance of the parameters for the witnesses: a key derivation of the right
  lengths and a null cipher with a constant tag.\<close>

definition zero_hkdf :: hkdf where
  "zero_hkdf ikm salt info len = replicate len 0"

definition null_enc :: aead_enc where
  "null_enc key nonce aad p = Some (p, replicate 16 7)"

definition null_dec :: aead_dec where
  "null_dec key nonce aad msg =
     (if drop (length msg - 16) msg = replicate 16 7 then Some (take (length msg - 16) msg) else None)"

definition sample_cipher :: datagram_cipher where
  "sample_cipher = \<lparr>dc_cipher = replicate 32 0, dc_nonce_prefix = replicate 4 0, dc_send_counter = 0,
     dc_replay = replay_default\<rparr>"

definition sample_header :: packet_header where
  "sample_header = \<lparr>ph_packet_type = Ping_Pkt, ph_sequence = 1, ph_timestamp_ms = 2, ph_flags = 0\<rparr>"

lemma null_aead_correct: "aead_correct null_enc null_dec"
  by (simp add: aead_correct_def null_enc_def null_dec_def TAG_SIZE_def)

lemma derive_sample: "derive zero_hkdf (replicate 32 1) (replicate 16 2) ClientToHost = Inr sample_cipher"
  by (simp add: derive_def zero_hkdf_def sample_cipher_def)

text \<open>Two sealed messages, which arrive in the other order and the later one twice.\<close>

definition sample_sealed :: "u64 \<Rightarrow> u8 \<Rightarrow> bytes" where
  "sample_sealed k v = packet_header_to_bytes sample_header @ replicate 4 0 @ be_bytes 8 k @ [v] @ replicate 16 7"

lemma sample_deliveries:
  "snd (open_all null_dec sample_cipher [sample_sealed 2 9, sample_sealed 1 8, sample_sealed 2 9]) =
     [Inr (sample_header, [9]), Inr (sample_header, [8]), Inl Replay]"
proof -
  let ?xs = "[(2, (sample_header, [9]), sample_sealed 2 9), (1, (sample_header, [8]), sample_sealed 1 8),
    (2, (sample_header, [9]), sample_sealed 2 9)] :: (u64 \<times> (packet_header \<times> bytes) \<times> bytes) list"
  have sealed: "sealed_as null_enc (replicate 32 0) (replicate 4 0) k (sample_header, [v]) (sample_sealed k v)" for k v
    by (simp add: sealed_as_def null_enc_def sample_sealed_def)
  have "snd (open_all null_dec sample_cipher (map (\<lambda>(k, m, d). d) ?xs)) = deliver_spec {} (map (\<lambda>(k, m, d). (k, m)) ?xs)"
  proof (rule open_all_spec [OF null_aead_correct])
    show "length (replicate 4 (0 :: u8)) = 4" by simp
    show "list_all (\<lambda>(k, m, d). sealed_as null_enc (replicate 32 0) (replicate 4 0) k m d) ?xs" by (simp add: sealed)
  qed (use window_related_default in \<open>simp_all add: sample_cipher_def\<close>)
  also have "\<dots> = [Inr (sample_header, [9]), Inr (sample_header, [8]), Inl Replay]"
    by (simp add: too_old_def word_le_nat_alt)
  finally show ?thesis by simp
qed

theorem open_all_no_replay_witness:
  "\<exists>ds. accepted_datagrams (snd (open_all null_dec sample_cipher ds)) ds = [sample_sealed 2 9, sample_sealed 1 8] \<and>
     length ds = 3 \<and> distinct (map datagram_counter [sample_sealed 2 9, sample_sealed 1 8])"
proof -
  let ?ds = "[sample_sealed 2 9, sample_sealed 1 8, sample_sealed 2 9]"
  have "accepted_datagrams (snd (open_all null_dec sample_cipher ?ds)) ?ds = [sample_sealed 2 9, sample_sealed 1 8]"
    by (simp only: sample_deliveries accepted_datagrams.simps)
  moreover from open_all_no_replay [OF derive_sample, of null_dec ?ds] this
  have "distinct (map datagram_counter [sample_sealed 2 9, sample_sealed 1 8])" by simp
  ultimately show ?thesis by (intro exI [of _ ?ds]) simp
qed

text \<open>A rejected datagram changes nothing: a truncated, misdirected, replayed, forged or
  malformed datagram leaves the receiver, its replay window included, as it was.\<close>

theorem open_datagram_error_unchanged:
  "open_datagram dec c d = (c', Inl e) \<Longrightarrow> c' = c"
  by (rule open_datagram_Inl)

theorem open_datagram_error_unchanged_witness:
  "fst (open_datagram null_dec sample_cipher [1, 2, 3]) = sample_cipher"
proof -
  obtain c' where c': "open_datagram null_dec sample_cipher [1, 2, 3] = (c', Inl DatagramTruncated)"
    by (simp add: open_datagram_def datagram_sizes)
  from open_datagram_error_unchanged [OF this] c' show ?thesis by simp
qed

text \<open>C12. Delivery refines the specification: when a sender seals a list of messages and the
  network delivers the datagrams to a fresh receiver of the same key in any order, with any losses
  and duplicates, each delivery gives exactly what the set-based specification says: the message
  for a counter that is new and less than 4096 behind the highest, the replay error otherwise.\<close>

theorem delivery_refines_spec:
  assumes "aead_correct enc dec"
    and "length (dc_nonce_prefix c) = 4" and "dc_replay c = replay_default"
    and sealed: "seal_all enc c ms = (c', map Inr ds)"
    and schedule: "\<forall>i\<in>set idxs. i < length ms"
  shows "snd (open_all dec c (map ((!) ds) idxs)) =
    deliver_spec {} (map (\<lambda>i. (dc_send_counter c + word_of_nat (Suc i), ms ! i)) idxs)"
proof -
  let ?xs = "map (\<lambda>i. (dc_send_counter c + word_of_nat (Suc i), ms ! i, ds ! i)) idxs"
  have "list_all (\<lambda>(k, m, d). sealed_as enc (dc_cipher c) (dc_nonce_prefix c) k m d) ?xs"
    using seal_all_sealed_as [OF sealed assms(2)] schedule by (simp add: list_all_iff)
  from open_all_spec [OF assms(1,2) _ refl refl this] show ?thesis
    using assms(3) window_related_default by (simp add: comp_def)
qed

theorem delivery_refines_spec_witness:
  "\<exists>d1 d2. snd (open_all null_dec sample_cipher (map ((!) [d1, d2]) [1, 0, 1])) =
     [Inr (sample_header, [9]), Inr (sample_header, [8]), Inl Replay]"
proof -
  obtain c' ds where sealed:
    "seal_all null_enc sample_cipher [(sample_header, [8]), (sample_header, [9])] = (c', map Inr ds)"
    and "length ds = 2"
  proof -
    have "seal_all null_enc sample_cipher [(sample_header, [8]), (sample_header, [9])] =
      (sample_cipher\<lparr>dc_send_counter := 2\<rparr>, map Inr
        [packet_header_to_bytes sample_header @ replicate 4 0 @ be_bytes 8 (1 :: u64) @ [8] @ replicate 16 7,
         packet_header_to_bytes sample_header @ replicate 4 0 @ be_bytes 8 (2 :: u64) @ [9] @ replicate 16 7])"
      by (simp add: seal_datagram_def seal_into_def encode_packet_header_def sample_cipher_def
          null_enc_def codec_defs NONCE_SIZE_def Let_def)
    then show thesis by (rule that) simp
  qed
  then obtain d1 d2 where ds: "ds = [d1, d2]"
    by (auto simp: numeral_2_eq_2 length_Suc_conv)
  have "snd (open_all null_dec sample_cipher (map ((!) ds) [1, 0, 1])) =
    deliver_spec {} (map (\<lambda>i. (dc_send_counter sample_cipher + word_of_nat (Suc i),
      [(sample_header, [8]), (sample_header, [9])] ! i)) [1, 0, 1])"
    by (rule delivery_refines_spec [OF null_aead_correct _ _ sealed]) (simp_all add: sample_cipher_def)
  also have "\<dots> = [Inr (sample_header, [9]), Inr (sample_header, [8]), Inl Replay]"
    by (simp add: sample_cipher_def too_old_def word_le_nat_alt)
  finally show ?thesis unfolding ds by blast
qed

text \<open>C37. Nonces are never reused: the datagrams that one cipher seals carry strictly increasing
  counters in their nonces, also across failed attempts, and the counter stops at its maximum with
  an error instead of wrapping.\<close>

theorem seal_nonces_increase:
  assumes "length (dc_nonce_prefix c) = 4"
  shows "sorted_wrt (<) (map (\<lambda>d. unat (datagram_counter d)) (oks (snd (seal_all enc c ms)))) \<and>
    (dc_send_counter c = - 1 \<longrightarrow> seal_datagram enc c h p = (c, Inl CounterExhausted))"
  using seal_all_counters [OF prod.collapse [symmetric] assms, of enc ms]
  by (auto simp: seal_datagram_def encode_packet_header_def seal_into_def)

theorem seal_nonces_increase_witness:
  "sorted_wrt (<) (map (\<lambda>d. unat (datagram_counter d))
     (oks (snd (seal_all null_enc sample_cipher [(sample_header, [8]), (sample_header, [9])]))))"
proof -
  have "length (dc_nonce_prefix sample_cipher) = 4" by (simp add: sample_cipher_def)
  from seal_nonces_increase [OF this] show ?thesis by blast
qed

text \<open>The replay state is bounded: whatever a network sends, a freshly derived receiver never
  holds more than 65 blocks of 64 bits.\<close>

theorem replay_state_bounded:
  assumes "derive hkdf key salt dir = Inr c"
  shows "card (dom (rw_blocks (dc_replay (fst (open_all dec c ds))))) \<le> 65"
proof -
  have "window_related (dc_replay c) {}"
    using assms window_related_default by (auto simp: derive_def Let_def split: if_splits)
  moreover obtain c' rs where "open_all dec c ds = (c', rs)" by fastforce
  ultimately show ?thesis
    using window.guarded_related open_all_guarded window_related_blocks by (metis fst_conv)
qed

theorem replay_state_bounded_witness:
  "card (dom (rw_blocks (dc_replay (fst (open_all null_dec sample_cipher [[1], [2]]))))) \<le> 65"
  by (rule replay_state_bounded [OF derive_sample])

end
