(* ===== verification/Std_Collections.thy ===== *)
theory Std_Collections
  imports Maho_Prelude "HOL-Library.AList"
begin

text \<open>
  The standard collections the sources use, as association lists with distinct keys so that
  \<open>len\<close>, iteration and removal compute: \<open>HashMap\<close> in any order, \<open>BTreeMap\<close> in ascending key order,
  which is the order its iterators have. \<open>get\<close> is \<^const>\<open>map_of\<close>, \<open>insert\<close> is \<^const>\<open>AList.update\<close>,
  \<open>remove\<close> is \<^const>\<open>AList.delete\<close>, \<open>retain\<close> is \<^const>\<open>filter\<close>.
\<close>

type_synonym ('k, 'v) hash_map = "('k \<times> 'v) list"
type_synonym ('k, 'v) btree_map = "('k \<times> 'v) list"

definition keys_distinct :: "('k \<times> 'v) list \<Rightarrow> bool" where
  "keys_distinct m \<longleftrightarrow> distinct (map fst m)"

definition contains_key :: "('k \<times> 'v) list \<Rightarrow> 'k \<Rightarrow> bool" where
  "contains_key m k \<longleftrightarrow> map_of m k \<noteq> None"

text \<open>\<open>entry(k).or_insert(v)\<close> on a \<open>BTreeMap\<close>.\<close>

fun btree_or_insert :: "'k::linorder \<Rightarrow> 'v \<Rightarrow> ('k, 'v) btree_map \<Rightarrow> ('k, 'v) btree_map" where
  "btree_or_insert k v [] = [(k, v)]"
| "btree_or_insert k v ((k', v') # m) =
     (if k < k' then (k, v) # (k', v') # m
      else if k = k' then (k', v') # m
      else (k', v') # btree_or_insert k v m)"

text \<open>\<open>insert(k, v)\<close> on a \<open>BTreeMap\<close>: the value of a present key is replaced.\<close>

fun btree_insert :: "'k::linorder \<Rightarrow> 'v \<Rightarrow> ('k, 'v) btree_map \<Rightarrow> ('k, 'v) btree_map" where
  "btree_insert k v [] = [(k, v)]"
| "btree_insert k v ((k', v') # m) =
     (if k < k' then (k, v) # (k', v') # m
      else if k = k' then (k, v) # m
      else (k', v') # btree_insert k v m)"

definition btree_sorted :: "('k::linorder, 'v) btree_map \<Rightarrow> bool" where
  "btree_sorted m \<longleftrightarrow> sorted_wrt (<) (map fst m)"

text \<open>\<open>iter().min_by_key(f).map(|(&k, _)| k)\<close>.\<close>

fun min_key_by :: "('k \<Rightarrow> 'v \<Rightarrow> 'a::linorder) \<Rightarrow> ('k, 'v) hash_map \<Rightarrow> 'k option" where
  "min_key_by f [] = None"
| "min_key_by f [(k, v)] = Some k"
| "min_key_by f ((k, v) # (k', v') # m) =
     (if f k v \<le> f k' v' then min_key_by f ((k, v) # m) else min_key_by f ((k', v') # m))"

section \<open>Lemmas\<close>

lemma keys_distinct_simps [simp]:
  "keys_distinct []"
  "keys_distinct m \<Longrightarrow> keys_distinct (filter P m)"
  "keys_distinct m \<Longrightarrow> keys_distinct (AList.delete k m)"
  "keys_distinct m \<Longrightarrow> keys_distinct (AList.update k v m)"
  by (simp_all add: keys_distinct_def distinct_map_filter distinct_delete distinct_update)

lemma map_of_filter_keys:
  "keys_distinct m \<Longrightarrow> map_of (filter P m) k =
     (case map_of m k of None \<Rightarrow> None | Some v \<Rightarrow> if P (k, v) then Some v else None)"
proof (induction m)
  case (Cons x m)
  then have "map_of m (fst x) = None" by (simp add: keys_distinct_def map_of_eq_None_iff)
  with Cons show ?case by (cases x) (auto simp: keys_distinct_def split: option.splits)
qed simp

lemma length_delete_present:
  "keys_distinct m \<Longrightarrow> map_of m k = Some v \<Longrightarrow> length (AList.delete k m) = length m - 1"
proof (induction m)
  case (Cons x m)
  show ?case
  proof (cases "fst x = k")
    case True
    then have "k \<notin> fst ` set m" using Cons.prems by (auto simp: keys_distinct_def)
    then have "filter (\<lambda>p. k \<noteq> fst p) m = m" by (auto simp: filter_id_conv)
    then show ?thesis using True by (simp add: AList.delete_eq case_prod_unfold)
  next
    case False
    then have "map_of m k = Some v" using Cons.prems by (cases x) auto
    with Cons False show ?thesis
      by (cases m) (auto simp: keys_distinct_def AList.delete_eq case_prod_unfold)
  qed
qed simp

lemma length_update:
  "length (AList.update k v m) = (if map_of m k = None then length m + 1 else length m)"
  by (induction m) (auto)

lemma set_btree_or_insert_keys: "fst ` set (btree_or_insert k v m) = insert k (fst ` set m)"
  by (induction k v m rule: btree_or_insert.induct) auto

lemma set_btree_or_insert: "set (btree_or_insert k v m) \<subseteq> insert (k, v) (set m)"
  by (induction k v m rule: btree_or_insert.induct) auto

lemma btree_sorted_or_insert: "btree_sorted m \<Longrightarrow> btree_sorted (btree_or_insert k v m)"
proof (induction k v m rule: btree_or_insert.induct)
  case (2 k v k' v' m)
  then show ?case
    using set_btree_or_insert_keys [of k v m]
    by (auto simp: btree_sorted_def)
qed (simp add: btree_sorted_def)

lemma map_of_btree_or_insert:
  "btree_sorted m \<Longrightarrow> map_of (btree_or_insert k v m) =
     (if map_of m k = None then (map_of m)(k \<mapsto> v) else map_of m)"
proof (induction k v m rule: btree_or_insert.induct)
  case (2 k v k' v' m)
  then have "map_of m k = None" if "k \<le> k'"
    using that by (auto simp: btree_sorted_def map_of_eq_None_iff)
  with 2 show ?case by (auto simp: btree_sorted_def)
qed simp

lemma set_btree_insert_keys: "fst ` set (btree_insert k v m) = insert k (fst ` set m)"
  by (induction k v m rule: btree_insert.induct) auto

lemma set_btree_insert: "set (btree_insert k v m) \<subseteq> insert (k, v) (set m)"
  by (induction k v m rule: btree_insert.induct) auto

lemma set_btree_insert_iff:
  "btree_sorted m \<Longrightarrow> x \<in> set (btree_insert k v m) \<longleftrightarrow> x = (k, v) \<or> x \<in> set m \<and> fst x \<noteq> k"
  by (induction k v m rule: btree_insert.induct) (auto simp: btree_sorted_def)

lemma btree_sorted_insert: "btree_sorted m \<Longrightarrow> btree_sorted (btree_insert k v m)"
proof (induction k v m rule: btree_insert.induct)
  case (2 k v k' v' m)
  then show ?case
    using set_btree_insert_keys [of k v m] by (auto simp: btree_sorted_def)
qed (simp add: btree_sorted_def)

lemma btree_sorted_delete: "btree_sorted m \<Longrightarrow> btree_sorted (AList.delete k m)"
  by (simp add: btree_sorted_def AList.delete_eq sorted_wrt_filter sorted_wrt_map case_prod_unfold)

lemma map_of_btree_insert:
  "btree_sorted m \<Longrightarrow> map_of (btree_insert k v m) = (map_of m)(k \<mapsto> v)"
proof (induction k v m rule: btree_insert.induct)
  case (2 k v k' v' m)
  then show ?case by (auto simp: btree_sorted_def)
qed simp

lemma btree_sorted_keys_distinct: "btree_sorted m \<Longrightarrow> keys_distinct m"
  by (simp add: btree_sorted_def keys_distinct_def strict_sorted_iff)

lemma length_btree_or_insert:
  "btree_sorted m \<Longrightarrow>
     length (btree_or_insert k v m) = (if map_of m k = None then length m + 1 else length m)"
proof (induction k v m rule: btree_or_insert.induct)
  case (2 k v k' v' m)
  then have "map_of m k = None" if "k \<le> k'"
    using that by (auto simp: btree_sorted_def map_of_eq_None_iff)
  with 2 show ?case by (auto simp: btree_sorted_def)
qed simp

lemma length_card_dom: "keys_distinct m \<Longrightarrow> length m = card (dom (map_of m))"
  by (metis dom_map_of_conv_image_fst keys_distinct_def distinct_card length_map set_map)

lemma min_key_by_present: "m \<noteq> [] \<Longrightarrow> \<exists>k v. min_key_by f m = Some k \<and> (k, v) \<in> set m"
  by (induction f m rule: min_key_by.induct) fastforce+

end
