(* ===== verification/Chunk_Sets.thy ===== *)
theory Chunk_Sets
  imports Std_Collections
begin

text \<open>
  Numbered pieces of one message, kept by index in a \<open>BTreeMap<u16, Vec<u8>>\<close>: \<open>holds ds K m\<close> says
  that the map holds exactly the pieces of \<open>ds\<close> with index in \<open>K\<close>. The frame assembler and the audio
  reassembler both collect their input this way.
\<close>

definition holds :: "bytes list \<Rightarrow> nat set \<Rightarrow> (u16, bytes) btree_map \<Rightarrow> bool" where
  "holds ds K m \<longleftrightarrow> btree_sorted m \<and>
     (\<forall>w. map_of m w = (if unat w \<in> K then Some (ds ! unat w) else None))"

lemma holds_empty: "holds ds {} []"
  by (simp add: holds_def btree_sorted_def)

lemma unat_index: "i < length ds \<Longrightarrow> length ds < 65536 \<Longrightarrow> unat (word_of_nat i :: u16) = i"
  by (simp add: unat_of_nat_bounded)

lemma holds_insert:
  assumes m: "holds ds K m" and i: "i < length ds" "length ds < 65536"
  shows "holds ds (insert i K) (btree_or_insert (word_of_nat i) (ds ! i) m)"
proof -
  have "map_of (btree_or_insert (word_of_nat i) (ds ! i) m) w =
      (if unat w \<in> insert i K then Some (ds ! unat w) else None)" for w
  proof (cases "w = word_of_nat i")
    case True
    with m unat_index [OF i] show ?thesis by (auto simp: holds_def map_of_btree_or_insert)
  next
    case False
    then have "unat w \<noteq> i" using i by (metis of_nat_unat ucast_id)
    with m False show ?thesis by (auto simp: holds_def map_of_btree_or_insert)
  qed
  with m show ?thesis by (simp add: holds_def btree_sorted_or_insert)
qed

text \<open>The keys of such a map are the set, so sizes and lengths are sums over it.\<close>

lemma holds_keys: "holds ds K m \<Longrightarrow> K \<subseteq> {0..<length ds} \<Longrightarrow> length ds < 65536 \<Longrightarrow> unat ` fst ` set m = K"
proof -
  assume m: "holds ds K m" and K: "K \<subseteq> {0..<length ds}" "length ds < 65536"
  have "w \<in> fst ` set m \<longleftrightarrow> unat w \<in> K" for w
    using m map_of_eq_None_iff [of m w] by (auto simp: holds_def split: if_splits)
  then have "fst ` set m = {w. unat w \<in> K}" by blast
  moreover have "i \<in> unat ` {w :: u16. unat w \<in> K}" if "i \<in> K" for i
  proof -
    have "unat (word_of_nat i :: u16) = i" using that K by (intro unat_index [of i ds]) auto
    with that show ?thesis by (intro image_eqI [of _ _ "word_of_nat i"]) simp_all
  qed
  ultimately show ?thesis by auto
qed

lemma holds_length:
  assumes m: "holds ds K m" and K: "K \<subseteq> {0..<length ds}" "length ds < 65536"
  shows "length m = card K"
proof -
  have dist: "distinct (map fst m)" using m by (simp add: holds_def btree_sorted_def strict_sorted_iff)
  have "inj_on (unat \<circ> fst) (set m)"
    using dist by (auto simp: distinct_map inj_on_def dest: unsigned_word_eqI)
  with card_image holds_keys [OF m K] have "card K = card (set m)" by (metis image_comp)
  with dist show ?thesis by (simp add: distinct_map distinct_card)
qed

lemma holds_all_length:
  assumes m: "holds ds K m" and K: "K \<subseteq> {0..<length ds}" "length ds < 65536"
  shows "length m = length ds \<longleftrightarrow> K = {0..<length ds}"
  using holds_length [OF m K] card_subset_eq [of "{0..<length ds}" K] K(1) by auto

end
