(* ===== verification/Frame_Assembler.thy ===== *)
theory Frame_Assembler
  imports Media_Wire Std_Collections "HOL-Library.Product_Lexorder"
begin

text \<open>
  The receiver's frame assembler, \<open>maho-app/src/media.rs\<close>: headers and chunks arrive in any order
  and are collected into frames, with caps on the frames under assembly, on chunks without a header
  and on the payload of one frame, and a timeout. The receiver trace, which only records events,
  is left out.

  The invariant \<open>assembler_inv\<close> holds after every operation. It bounds the memory a peer can tie
  up, and from it the properties of completed frames follow.
\<close>

definition SERIAL_HALF_RANGE :: u32 where "SERIAL_HALF_RANGE = push_bit 31 1"
definition MAX_ORPHAN_FRAMES :: usize where "MAX_ORPHAN_FRAMES = 16"
definition MAX_INCOMPLETE_FRAMES :: usize where "MAX_INCOMPLETE_FRAMES = 16"
definition MAX_LOSS_SAMPLES :: usize where "MAX_LOSS_SAMPLES = 4096"
definition ASSEMBLY_TIMEOUT :: duration where "ASSEMBLY_TIMEOUT = from_secs 1"

record assembled_frame =
  asf_header :: frame_header
  asf_data :: bytes
  asf_timestamp_ms :: u32

type_synonym chunk_map = "(u16, bytes) btree_map"

record frame_assembly =
  fa_header :: frame_header
  fa_chunks :: chunk_map
  fa_started :: instant
  fa_timestamp_ms :: u32
  fa_payload_bytes :: usize

record orphan_assembly =
  oa_chunks :: chunk_map
  oa_started :: instant

datatype media_assembly_error = InvalidFrameHeader | InvalidChunkIndex | SizeMismatch

record frame_assembler =
  as_frames :: "(u32, frame_assembly) hash_map"
  as_orphans :: "(u32, orphan_assembly) hash_map"
  as_expected_frame_id :: "u32 option"
  as_recent_loss :: "(instant \<times> u64 \<times> u64) list"
  as_completed_frames :: u64
  as_completed_started_at :: "instant option"

type_synonym assembly_result = "media_assembly_error + assembled_frame option"

definition assembler_default :: frame_assembler where
  "assembler_default = \<lparr>as_frames = [], as_orphans = [], as_expected_frame_id = None,
     as_recent_loss = [], as_completed_frames = 0, as_completed_started_at = None\<rparr>"

definition serial_not_before :: "u32 \<Rightarrow> u32 \<Rightarrow> bool" where
  "serial_not_before a b \<longleftrightarrow> a - b < SERIAL_HALF_RANGE"

definition admit_chunk :: "frame_header \<Rightarrow> u16 \<times> bytes \<Rightarrow> chunk_map \<times> usize \<Rightarrow> chunk_map \<times> usize" where
  "admit_chunk header = (\<lambda>(index, data) (chunks, payload_bytes).
     if index \<ge> fh_total_chunks header \<or> payload_bytes + length data > unat (fh_total_size header)
     then (chunks, payload_bytes)
     else if contains_key chunks index then (chunks, payload_bytes)
     else (btree_or_insert index data chunks, payload_bytes + length data))"

definition admit_chunks :: "chunk_map \<Rightarrow> usize \<Rightarrow> chunk_map \<Rightarrow> frame_header \<Rightarrow> chunk_map \<times> usize" where
  "admit_chunks chunks payload_bytes incoming header =
     fold (admit_chunk header) incoming (chunks, payload_bytes)"

definition assembly_complete :: "frame_assembly \<Rightarrow> bool" where
  "assembly_complete f \<longleftrightarrow> length (fa_chunks f) = unat (fh_total_chunks (fa_header f))"

definition expire :: "instant \<Rightarrow> frame_assembler \<Rightarrow> frame_assembler" where
  "expire now a =
     a\<lparr>as_frames := filter (\<lambda>(_, f). now - fa_started f < ASSEMBLY_TIMEOUT) (as_frames a),
       as_orphans := filter (\<lambda>(_, r). now - oa_started r < ASSEMBLY_TIMEOUT) (as_orphans a)\<rparr>"

function trim_loss :: "instant \<Rightarrow> (instant \<times> u64 \<times> u64) list \<Rightarrow> (instant \<times> u64 \<times> u64) list" where
  "trim_loss now samples =
     (if length samples > MAX_LOSS_SAMPLES \<or>
         (samples \<noteq> [] \<and> now - fst (hd samples) > from_secs 5)
      then trim_loss now (tl samples) else samples)"
  by pat_completeness auto
termination
  by (relation "measure (\<lambda>(_, samples). length samples)") auto

declare trim_loss.simps [simp del]

definition track_loss :: "u32 \<Rightarrow> instant \<Rightarrow> frame_assembler \<Rightarrow> frame_assembler" where
  "track_loss frame_id now a =
     (let lost = (case as_expected_frame_id a of
                    None \<Rightarrow> 0
                  | Some expected \<Rightarrow>
                      (let forward = frame_id - expected
                       in if forward < SERIAL_HALF_RANGE then (ucast forward :: u64) else 0));
          samples = as_recent_loss a @ [(now, lost, lost + 1)];
          successor = frame_id + 1;
          expected' = (case as_expected_frame_id a of
                         None \<Rightarrow> successor
                       | Some expected \<Rightarrow>
                           if successor \<noteq> expected \<and> serial_not_before successor expected
                           then successor else expected)
      in a\<lparr>as_recent_loss := trim_loss now samples, as_expected_frame_id := Some expected'\<rparr>)"

text \<open>The copy loop of \<open>finish_if_complete\<close>.\<close>

primrec collect_chunks :: "chunk_map \<Rightarrow> nat list \<Rightarrow> bytes \<Rightarrow> media_assembly_error + bytes" where
  "collect_chunks chunks [] data = Inr data"
| "collect_chunks chunks (i # is) data =
     (case map_of chunks (word_of_nat i) of
        None \<Rightarrow> Inl SizeMismatch
      | Some c \<Rightarrow> collect_chunks chunks is (extend_from_slice data c))"

definition finish_if_complete :: "u32 \<Rightarrow> frame_assembler \<Rightarrow> frame_assembler \<times> assembly_result" where
  "finish_if_complete frame_id a =
     (case map_of (as_frames a) frame_id of
        None \<Rightarrow> (a, Inr None)
      | Some f \<Rightarrow>
          if \<not> assembly_complete f then (a, Inr None)
          else
          let a = a\<lparr>as_frames := AList.delete frame_id (as_frames a)\<rparr>
          in case collect_chunks (fa_chunks f) [0..<unat (fh_total_chunks (fa_header f))] [] of
               Inl e \<Rightarrow> (a, Inl e)
             | Inr data \<Rightarrow>
                 if length data \<noteq> unat (fh_total_size (fa_header f)) then (a, Inl SizeMismatch)
                 else (a\<lparr>as_completed_frames := as_completed_frames a + 1,
                        as_completed_started_at := Some (fa_started f)\<rparr>,
                       Inr (Some \<lparr>asf_header = fa_header f, asf_data = data,
                                 asf_timestamp_ms = fa_timestamp_ms f\<rparr>)))"

text \<open>The stages of \<open>push_header\<close>: what it does to the collections before it looks at the frame,
  the chunks that waited for it, and the assembly it stores.\<close>

definition header_prepare :: "frame_header \<Rightarrow> instant \<Rightarrow> frame_assembler \<Rightarrow> frame_assembler" where
  "header_prepare header now a =
     (let a = expire now a;
          a = track_loss (fh_frame_id header) now a
      in if fh_is_key_frame header
         then a\<lparr>as_frames := filter (\<lambda>(frame_id, f).
                serial_not_before frame_id (fh_frame_id header) \<or> assembly_complete f) (as_frames a)\<rparr>
         else a)"

definition header_waiting :: "u32 \<Rightarrow> instant \<Rightarrow> frame_assembler \<Rightarrow> chunk_map \<times> instant" where
  "header_waiting frame_id now a =
     (case map_of (as_orphans a) frame_id of
        None \<Rightarrow> ([], now) | Some orphan \<Rightarrow> (oa_chunks orphan, oa_started orphan))"

definition header_assembly ::
  "frame_header \<Rightarrow> u32 \<Rightarrow> chunk_map \<times> instant \<Rightarrow> frame_assembly option \<Rightarrow> frame_assembly option" where
  "header_assembly header timestamp_ms = (\<lambda>(chunks, started) found.
     case found of
       Some existing \<Rightarrow>
         if fa_header existing \<noteq> header then None
         else
         let (admitted, payload) =
               admit_chunks (fa_chunks existing) (fa_payload_bytes existing) chunks (fa_header existing)
         in Some (existing\<lparr>fa_started := min (fa_started existing) started,
                    fa_timestamp_ms := timestamp_ms, fa_chunks := admitted, fa_payload_bytes := payload\<rparr>)
     | None \<Rightarrow>
         let (admitted, payload) = admit_chunks [] 0 chunks header
         in Some \<lparr>fa_header = header, fa_chunks = admitted, fa_started = started,
                  fa_timestamp_ms = timestamp_ms, fa_payload_bytes = payload\<rparr>)"

definition evict_oldest :: "frame_assembler \<Rightarrow> frame_assembler" where
  "evict_oldest a =
     (if length (as_frames a) > MAX_INCOMPLETE_FRAMES
      then (case min_key_by (\<lambda>k f. (fa_started f, k)) (as_frames a) of
              None \<Rightarrow> a | Some oldest \<Rightarrow> a\<lparr>as_frames := AList.delete oldest (as_frames a)\<rparr>)
      else a)"

definition push_header ::
  "frame_header \<Rightarrow> u32 \<Rightarrow> instant \<Rightarrow> frame_assembler \<Rightarrow> frame_assembler \<times> assembly_result" where
  "push_header header timestamp_ms now a =
     (let a = a\<lparr>as_completed_started_at := None\<rparr>
      in if fh_total_chunks header = 0 \<or> fh_total_chunks header > MAX_CHUNKS_PER_FRAME \<or>
            fh_total_size header = 0 \<or> fh_total_size header > MAX_FRAME_BYTES
         then (a, Inl InvalidFrameHeader)
         else
         let a = header_prepare header now a;
             frame_id = fh_frame_id header;
             waiting = header_waiting frame_id now a;
             a = a\<lparr>as_orphans := AList.delete frame_id (as_orphans a)\<rparr>
         in case header_assembly header timestamp_ms waiting (map_of (as_frames a) frame_id) of
              None \<Rightarrow> (a, Inr None)
            | Some f \<Rightarrow>
                (case finish_if_complete frame_id
                        (a\<lparr>as_frames := AList.update frame_id f (as_frames a)\<rparr>) of
                   (a, Inl e) \<Rightarrow> (a, Inl e)
                 | (a, Inr completed) \<Rightarrow> (evict_oldest a, Inr completed)))"

definition add_chunk :: "frame_chunk \<Rightarrow> frame_assembly \<Rightarrow> frame_assembly" where
  "add_chunk chunk f =
     (let f = (if \<not> contains_key (fa_chunks f) (fc_chunk_index chunk)
               then f\<lparr>fa_payload_bytes := fa_payload_bytes f + length (fc_data chunk)\<rparr> else f)
      in f\<lparr>fa_chunks := btree_or_insert (fc_chunk_index chunk) (fc_data chunk) (fa_chunks f)\<rparr>)"

definition push_chunk :: "frame_chunk \<Rightarrow> instant \<Rightarrow> frame_assembler \<Rightarrow> frame_assembler \<times> assembly_result" where
  "push_chunk chunk now a =
     (let a = a\<lparr>as_completed_started_at := None\<rparr>;
          a = expire now a;
          frame_id = fc_frame_id chunk
      in case map_of (as_frames a) frame_id of
           Some f \<Rightarrow>
             if fc_chunk_index chunk \<ge> fh_total_chunks (fa_header f) then (a, Inl InvalidChunkIndex)
             else if \<not> contains_key (fa_chunks f) (fc_chunk_index chunk) \<and>
                     fa_payload_bytes f + length (fc_data chunk) > unat (fh_total_size (fa_header f))
             then (a, Inr None)
             else
             finish_if_complete frame_id
               (a\<lparr>as_frames := AList.update frame_id (add_chunk chunk f) (as_frames a)\<rparr>)
         | None \<Rightarrow>
             if length (as_orphans a) \<ge> MAX_ORPHAN_FRAMES \<and> \<not> contains_key (as_orphans a) frame_id
             then (a, Inr None)
             else if fc_chunk_index chunk \<ge> MAX_CHUNKS_PER_FRAME then (a, Inr None)
             else
             let orphan = (case map_of (as_orphans a) frame_id of
                             Some orphan \<Rightarrow> orphan
                           | None \<Rightarrow> \<lparr>oa_chunks = [], oa_started = now\<rparr>)
             in if length (oa_chunks orphan) \<ge> unat MAX_CHUNKS_PER_FRAME
                then (a\<lparr>as_orphans := AList.delete frame_id (as_orphans a)\<rparr>, Inr None)
                else (a\<lparr>as_orphans := AList.update frame_id
                          (orphan\<lparr>oa_chunks := btree_or_insert (fc_chunk_index chunk) (fc_data chunk)
                                    (oa_chunks orphan)\<rparr>) (as_orphans a)\<rparr>, Inr None))"

text \<open>\<open>loss_ratio\<close> up to the final division: the samples after trimming and the sums it divides.\<close>

definition loss_counts :: "instant \<Rightarrow> frame_assembler \<Rightarrow> frame_assembler \<times> u64 \<times> u64" where
  "loss_counts now a =
     (let samples = trim_loss now (as_recent_loss a)
      in (a\<lparr>as_recent_loss := samples\<rparr>,
          fold (\<lambda>(_, entry_lost, entry_total) (lost, total). (lost + entry_lost, total + entry_total))
            samples (0, 0)))"

definition take_completed_started_at :: "frame_assembler \<Rightarrow> frame_assembler \<times> instant option" where
  "take_completed_started_at a = (a\<lparr>as_completed_started_at := None\<rparr>, as_completed_started_at a)"

definition assembler_clear :: "frame_assembler \<Rightarrow> frame_assembler" where
  "assembler_clear a =
     a\<lparr>as_frames := [], as_orphans := [], as_expected_frame_id := None, as_recent_loss := [],
       as_completed_frames := 0, as_completed_started_at := None\<rparr>"

section \<open>Chunk maps\<close>

definition chunk_bytes :: "chunk_map \<Rightarrow> nat" where
  "chunk_bytes m = sum_list (map (\<lambda>p. length (snd p)) m)"

definition header_ok :: "frame_header \<Rightarrow> bool" where
  "header_ok h \<longleftrightarrow> fh_total_chunks h \<noteq> 0 \<and> fh_total_chunks h \<le> MAX_CHUNKS_PER_FRAME \<and>
     fh_total_size h \<noteq> 0 \<and> fh_total_size h \<le> MAX_FRAME_BYTES"

definition chunks_ok :: "frame_header \<Rightarrow> chunk_map \<Rightarrow> nat \<Rightarrow> bool" where
  "chunks_ok h m payload \<longleftrightarrow> btree_sorted m \<and> (\<forall>i\<in>fst ` set m. i < fh_total_chunks h) \<and>
     payload = chunk_bytes m \<and> payload \<le> unat (fh_total_size h)"

lemma chunk_bytes_insert:
  "btree_sorted m \<Longrightarrow> map_of m i = None \<Longrightarrow> chunk_bytes (btree_or_insert i d m) = chunk_bytes m + length d"
proof (induction i d m rule: btree_or_insert.induct)
  case (2 k v k' v' m)
  then show ?case by (auto simp: chunk_bytes_def btree_sorted_def split: if_splits)
qed (simp add: chunk_bytes_def)

lemma btree_or_insert_present:
  "btree_sorted m \<Longrightarrow> map_of m k \<noteq> None \<Longrightarrow> btree_or_insert k v m = m"
proof (induction k v m rule: btree_or_insert.induct)
  case (2 k v k' v' m)
  then have "map_of m k = None" if "k < k'"
    using that by (auto simp: btree_sorted_def map_of_eq_None_iff)
  with 2 show ?case by (auto simp: btree_sorted_def split: if_splits)
qed simp

lemma chunks_ok_insert:
  assumes "chunks_ok h m payload" and "i < fh_total_chunks h" and "map_of m i = None"
    and "payload + length d \<le> unat (fh_total_size h)"
  shows "chunks_ok h (btree_or_insert i d m) (payload + length d)"
  using assms by (auto simp: chunks_ok_def chunk_bytes_insert btree_sorted_or_insert
      set_btree_or_insert_keys)

lemma chunks_ok_admit:
  "chunks_ok h m payload \<Longrightarrow> admit_chunks m payload inc h = (m', payload') \<Longrightarrow> chunks_ok h m' payload'"
  unfolding admit_chunks_def
proof (induction inc arbitrary: m payload)
  case Nil
  then show ?case by simp
next
  case (Cons x inc)
  obtain m1 p1 where one: "admit_chunk h x (m, payload) = (m1, p1)" by fastforce
  have "chunks_ok h m1 p1"
    using one Cons.prems(1)
    by (auto simp: admit_chunk_def contains_key_def not_le case_prod_unfold chunks_ok_insert
        split: if_splits)
  with Cons.IH [of m1 p1] Cons.prems(2) one show ?case by simp
qed

text \<open>A chunk map with as many chunks as the frame has, all of them inside it, has them all.\<close>

lemma sorted_keys_full:
  assumes "btree_sorted (m :: chunk_map)" and "\<forall>i\<in>fst ` set m. i < n" and "length m = unat n"
  shows "map fst m = map word_of_nat [0..<unat n]"
proof (rule sorted_distinct_set_unique)
  have unat_back: "unat (word_of_nat i :: u16) = i" if "i < unat n" for i
    using less_trans [OF that unat_less_65536] by simp
  then have inj: "inj_on (word_of_nat :: nat \<Rightarrow> u16) {0..<unat n}"
    by (intro inj_on_inverseI [where g = unat]) simp
  have "x \<in> word_of_nat ` {0..<unat n}" if "x < n" for x
    using that by (intro image_eqI [of _ _ "unat x"]) (simp_all add: word_less_nat_alt)
  then have below: "set (map word_of_nat [0..<unat n]) = {i. i < n}"
    using unat_back by (auto simp: word_less_nat_alt)
  have "card {i. i < n} = unat n"
    using card_image [OF inj] below by simp
  moreover have "card (set (map fst m)) = unat n"
    using assms(1,3) by (simp add: btree_sorted_def strict_sorted_iff distinct_card
        del: set_map)
  moreover have "set (map fst m) \<subseteq> {i. i < n}" using assms(2) by auto
  ultimately show "set (map fst m) = set (map word_of_nat [0..<unat n])"
    unfolding below by (intro card_subset_eq) simp_all
  show "sorted (map fst m)" "distinct (map fst m)"
    using assms(1) by (simp_all add: btree_sorted_def strict_sorted_iff)
  show "distinct (map word_of_nat [0..<unat n] :: u16 list)"
    using inj by (simp add: distinct_map)
  have "(word_of_nat i :: u16) \<le> word_of_nat j" if "i \<le> j" "j < unat n" for i j
    using that less_trans [OF that(2) unat_less_65536] by (simp add: word_le_nat_alt)
  then show "sorted (map word_of_nat [0..<unat n] :: u16 list)"
    by (auto simp: sorted_wrt_map sorted_wrt_iff_nth_less)
qed

lemma collect_chunks_eq:
  "\<forall>i\<in>set is. map_of m (word_of_nat i) \<noteq> None \<Longrightarrow>
     collect_chunks m is data = Inr (data @ concat (map (\<lambda>i. the (map_of m (word_of_nat i))) is))"
  by (induction "is" arbitrary: data) (auto simp: extend_from_slice_def)

lemma collect_chunks_full:
  assumes "btree_sorted m" and "\<forall>i\<in>fst ` set m. i < n" and "length m = unat n"
  shows "collect_chunks m [0..<unat n] [] = Inr (concat (map snd m))"
proof -
  note keys = sorted_keys_full [OF assms]
  have dist: "distinct (map fst m)" using assms(1) by (simp add: btree_sorted_def strict_sorted_iff)
  have "map_of m (word_of_nat i) \<noteq> None" if "i < unat n" for i
    using that arg_cong [OF keys, of set] by (simp add: map_of_eq_None_iff)
  then have "collect_chunks m [0..<unat n] [] =
      Inr (concat (map (\<lambda>k. the (map_of m k)) (map word_of_nat [0..<unat n])))"
    by (simp add: collect_chunks_eq comp_def)
  also have "map (\<lambda>k. the (map_of m k)) (map word_of_nat [0..<unat n]) = map snd m"
    unfolding keys [symmetric] using dist by (auto simp: map_of_is_SomeI)
  finally show ?thesis .
qed

lemma length_concat_chunks: "length (concat (map snd m)) = chunk_bytes m"
  by (simp add: chunk_bytes_def length_concat comp_def)

section \<open>The invariant\<close>

definition assembly_ok :: "u32 \<Rightarrow> frame_assembly \<Rightarrow> bool" where
  "assembly_ok k f \<longleftrightarrow> fh_frame_id (fa_header f) = k \<and> header_ok (fa_header f) \<and>
     chunks_ok (fa_header f) (fa_chunks f) (fa_payload_bytes f)"

definition orphan_ok :: "orphan_assembly \<Rightarrow> bool" where
  "orphan_ok r \<longleftrightarrow> btree_sorted (oa_chunks r) \<and> (\<forall>i\<in>fst ` set (oa_chunks r). i < MAX_CHUNKS_PER_FRAME)"

definition loss_ok :: "instant \<times> u64 \<times> u64 \<Rightarrow> bool" where
  "loss_ok = (\<lambda>(_, lost, total). unat lost < 2 ^ 31 \<and> total = lost + 1)"

definition assembler_inv :: "frame_assembler \<Rightarrow> bool" where
  "assembler_inv a \<longleftrightarrow>
     keys_distinct (as_frames a) \<and> length (as_frames a) \<le> MAX_INCOMPLETE_FRAMES \<and>
     (\<forall>(k, f)\<in>set (as_frames a). assembly_ok k f \<and> \<not> assembly_complete f) \<and>
     keys_distinct (as_orphans a) \<and> length (as_orphans a) \<le> MAX_ORPHAN_FRAMES \<and>
     (\<forall>(_, r)\<in>set (as_orphans a). orphan_ok r) \<and>
     length (as_recent_loss a) \<le> MAX_LOSS_SAMPLES \<and> list_all loss_ok (as_recent_loss a)"

lemma assembler_inv_default: "assembler_inv assembler_default"
  by (simp add: assembler_inv_def assembler_default_def)

lemma trim_loss_length: "length (trim_loss now samples) \<le> MAX_LOSS_SAMPLES"
  by (induction now samples rule: trim_loss.induct) (subst trim_loss.simps, simp)

lemma trim_loss_subset: "set (trim_loss now samples) \<subseteq> set samples"
proof (induction now samples rule: trim_loss.induct)
  case (1 now samples)
  then show ?case
    by (subst trim_loss.simps) (cases samples; auto)
qed

lemma set_update: "set (AList.update k v m) \<subseteq> insert (k, v) (set m)"
  by (induction m) auto

lemma set_delete: "set (AList.delete k m) \<subseteq> set m"
  by (auto simp: AList.delete_eq)

text \<open>The states inside an operation: all of the invariant but the bound on the frames and the
  absence of complete ones.\<close>

definition orphans_inv :: "frame_assembler \<Rightarrow> bool" where
  "orphans_inv a \<longleftrightarrow> keys_distinct (as_orphans a) \<and> length (as_orphans a) \<le> MAX_ORPHAN_FRAMES \<and>
     (\<forall>(_, r)\<in>set (as_orphans a). orphan_ok r) \<and>
     length (as_recent_loss a) \<le> MAX_LOSS_SAMPLES \<and> list_all loss_ok (as_recent_loss a)"

definition frames_inv :: "nat \<Rightarrow> (u32, frame_assembly) hash_map \<Rightarrow> bool" where
  "frames_inv n fs \<longleftrightarrow> keys_distinct fs \<and> length fs \<le> n \<and>
     (\<forall>(k, f)\<in>set fs. assembly_ok k f \<and> \<not> assembly_complete f)"

lemma assembler_inv_parts:
  "assembler_inv a \<longleftrightarrow> frames_inv MAX_INCOMPLETE_FRAMES (as_frames a) \<and> orphans_inv a"
  by (auto simp: assembler_inv_def frames_inv_def orphans_inv_def)

lemma frames_inv_filter [simp]: "frames_inv n fs \<Longrightarrow> frames_inv n (filter P fs)"
  by (auto simp: frames_inv_def intro: order_trans [OF length_filter_le])

lemma frames_inv_delete:
  "frames_inv n fs \<Longrightarrow> frames_inv n (AList.delete k fs)"
  "frames_inv (Suc n) fs \<Longrightarrow> map_of fs k = Some f \<Longrightarrow> frames_inv n (AList.delete k fs)"
  using length_delete_present [of fs k f] length_delete_le [of k fs]
  by (auto simp: frames_inv_def dest: subsetD [OF set_delete])

lemma expire_inv: "assembler_inv a \<Longrightarrow> assembler_inv (expire now a)"
  by (auto simp: assembler_inv_def expire_def intro: order_trans [OF length_filter_le])

lemma track_loss_inv:
  assumes "assembler_inv a"
  shows "assembler_inv (track_loss frame_id now a)"
proof -
  have "unat (ucast (w :: u32) :: u64) < 2 ^ 31" if "w < SERIAL_HALF_RANGE" for w
    using that by (simp add: SERIAL_HALF_RANGE_def word_less_nat_alt unsigned_ucast_eq
        take_bit_nat_eq_self)
  then show ?thesis
    using assms trim_loss_length trim_loss_subset
    by (auto simp: assembler_inv_def track_loss_def Let_def list_all_iff loss_ok_def
        split: option.splits dest!: subsetD [OF trim_loss_subset])
qed

section \<open>Operations keep the invariant\<close>

lemma finish_if_complete_eq:
  assumes "assembly_ok k f" and "map_of (as_frames a) k = Some f"
  shows "finish_if_complete k a =
    (if \<not> assembly_complete f then (a, Inr None)
     else let a' = a\<lparr>as_frames := AList.delete k (as_frames a)\<rparr>
       in if fa_payload_bytes f \<noteq> unat (fh_total_size (fa_header f)) then (a', Inl SizeMismatch)
          else (a'\<lparr>as_completed_frames := as_completed_frames a + 1,
                  as_completed_started_at := Some (fa_started f)\<rparr>,
                Inr (Some \<lparr>asf_header = fa_header f, asf_data = concat (map snd (fa_chunks f)),
                          asf_timestamp_ms = fa_timestamp_ms f\<rparr>)))"
proof (cases "assembly_complete f")
  case True
  with assms have "collect_chunks (fa_chunks f) [0..<unat (fh_total_chunks (fa_header f))] [] =
      Inr (concat (map snd (fa_chunks f)))"
    by (intro collect_chunks_full) (auto simp: assembly_ok_def chunks_ok_def assembly_complete_def)
  moreover have "fa_payload_bytes f = chunk_bytes (fa_chunks f)"
    using assms by (simp add: assembly_ok_def chunks_ok_def)
  ultimately show ?thesis
    using assms True by (simp add: finish_if_complete_def Let_def length_concat_chunks)
qed (simp add: finish_if_complete_def assms)

lemma frames_inv_update:
  assumes "frames_inv n fs" and "assembly_ok k f" and "\<not> assembly_complete f"
  shows "frames_inv (if map_of fs k = None then Suc n else n) (AList.update k f fs)"
  using assms by (auto simp: frames_inv_def length_update dest: subsetD [OF set_update])

lemma finish_update_inv:
  assumes fs: "frames_inv n (as_frames a)" and orph: "orphans_inv a" and f: "assembly_ok k f"
    and run: "finish_if_complete k (a\<lparr>as_frames := AList.update k f (as_frames a)\<rparr>) = (a', r)"
  shows "orphans_inv a' \<and>
    frames_inv (if map_of (as_frames a) k = None \<and> r = Inr None then Suc n else n) (as_frames a')"
proof -
  let ?a = "a\<lparr>as_frames := AList.update k f (as_frames a)\<rparr>"
  have "map_of (as_frames ?a) k = Some f" by (simp add: update_conv')
  note eq = finish_if_complete_eq [OF f this]
  show ?thesis
  proof (cases "assembly_complete f")
    case True
    then show ?thesis
      using run eq fs orph
      by (auto simp: Let_def orphans_inv_def delete_update_same frames_inv_delete(1) split: if_splits)
  next
    case False
    then show ?thesis
      using run eq frames_inv_update [OF fs f False] orph by (auto simp: orphans_inv_def)
  qed
qed

lemma frames_invD: "frames_inv n fs \<Longrightarrow> map_of fs k = Some f \<Longrightarrow> assembly_ok k f \<and> \<not> assembly_complete f"
  by (auto simp: frames_inv_def dest: map_of_SomeD)

lemma orphans_invD: "orphans_inv a \<Longrightarrow> map_of (as_orphans a) k = Some r \<Longrightarrow> orphan_ok r"
  by (auto simp: orphans_inv_def dest: map_of_SomeD)

lemma assembly_ok_insert:
  assumes "assembly_ok k f" and "\<not> fc_chunk_index c \<ge> fh_total_chunks (fa_header f)"
    and "contains_key (fa_chunks f) (fc_chunk_index c) \<or>
      fa_payload_bytes f + length (fc_data c) \<le> unat (fh_total_size (fa_header f))"
  shows "assembly_ok k (add_chunk c f)"
proof (cases "contains_key (fa_chunks f) (fc_chunk_index c)")
  case True
  then have "btree_or_insert (fc_chunk_index c) (fc_data c) (fa_chunks f) = fa_chunks f"
    using assms(1) by (intro btree_or_insert_present)
      (auto simp: contains_key_def assembly_ok_def chunks_ok_def)
  with True assms(1) show ?thesis by (simp add: add_chunk_def assembly_ok_def)
next
  case False
  with assms show ?thesis
    by (simp add: add_chunk_def assembly_ok_def contains_key_def chunks_ok_insert not_le)
qed

lemma orphan_ok_insert:
  "orphan_ok r \<Longrightarrow> \<not> i \<ge> MAX_CHUNKS_PER_FRAME \<Longrightarrow>
     orphan_ok (r\<lparr>oa_chunks := btree_or_insert i d (oa_chunks r)\<rparr>)"
  by (auto simp: orphan_ok_def btree_sorted_or_insert set_btree_or_insert_keys not_le)

lemma orphans_inv_update:
  assumes "orphans_inv a" and "orphan_ok r"
    and "length (as_orphans a) < MAX_ORPHAN_FRAMES \<or> contains_key (as_orphans a) k"
  shows "orphans_inv (a\<lparr>as_orphans := AList.update k r (as_orphans a)\<rparr>)"
  using assms by (auto simp: orphans_inv_def length_update contains_key_def
      dest: subsetD [OF set_update])

lemma orphans_inv_delete:
  "orphans_inv a \<Longrightarrow> orphans_inv (a\<lparr>as_orphans := AList.delete k (as_orphans a)\<rparr>)"
  using length_delete_le [of k "as_orphans a"]
  by (auto simp: orphans_inv_def dest: subsetD [OF set_delete])

lemma orphans_inv_frames [simp]:
  "orphans_inv (a\<lparr>as_frames := fs\<rparr>) = orphans_inv a"
  "orphans_inv (a\<lparr>as_completed_started_at := t\<rparr>) = orphans_inv a"
  by (simp_all add: orphans_inv_def)

lemma push_chunk_inv:
  assumes inv: "assembler_inv a" and run: "push_chunk c now a = (a', r)"
  shows "assembler_inv a'"
proof -
  let ?a = "expire now (a\<lparr>as_completed_started_at := None\<rparr>)" and ?k = "fc_frame_id c"
  have "assembler_inv ?a"
    using inv by (intro expire_inv) (simp add: assembler_inv_def)
  then have fs: "frames_inv MAX_INCOMPLETE_FRAMES (as_frames ?a)" and orph: "orphans_inv ?a"
    by (simp_all add: assembler_inv_parts)
  show ?thesis
  proof (cases "map_of (as_frames ?a) ?k")
    case (Some f)
    note f = frames_invD [OF fs Some, THEN conjunct1]
    show ?thesis
      using run fs orph Some finish_update_inv [OF fs orph assembly_ok_insert [OF f, of c]]
      by (auto simp: push_chunk_def assembler_inv_parts Let_def split: if_splits)
  next
    case None
    have "orphan_ok (case map_of (as_orphans ?a) ?k of Some r \<Rightarrow> r
        | None \<Rightarrow> \<lparr>oa_chunks = [], oa_started = now\<rparr>)"
      using orphans_invD [OF orph] by (auto simp: orphan_ok_def btree_sorted_def split: option.split)
    from orphan_ok_insert [OF this] None show ?thesis
      using run fs orph orphans_inv_delete [OF orph] orphans_inv_update [OF orph]
      by (auto simp: push_chunk_def assembler_inv_parts Let_def not_le split: if_splits)
  qed
qed

lemma push_header_stages:
  assumes "header_ok header"
  shows "push_header header ts now a =
    (let a1 = header_prepare header now (a\<lparr>as_completed_started_at := None\<rparr>); k = fh_frame_id header;
         a2 = a1\<lparr>as_orphans := AList.delete k (as_orphans a1)\<rparr>
     in case header_assembly header ts (header_waiting k now a1) (map_of (as_frames a2) k) of
          None \<Rightarrow> (a2, Inr None)
        | Some f \<Rightarrow>
            (case finish_if_complete k (a2\<lparr>as_frames := AList.update k f (as_frames a2)\<rparr>) of
               (a3, Inl e) \<Rightarrow> (a3, Inl e)
             | (a3, Inr completed) \<Rightarrow> (evict_oldest a3, Inr completed)))"
proof -
  have valid: "\<not> (fh_total_chunks header = 0 \<or> fh_total_chunks header > MAX_CHUNKS_PER_FRAME \<or>
      fh_total_size header = 0 \<or> fh_total_size header > MAX_FRAME_BYTES)"
    using assms by (auto simp: header_ok_def)
  show ?thesis
    unfolding push_header_def Let_def if_not_P [OF valid] by (rule refl)
qed

lemma header_prepare_inv: "assembler_inv a \<Longrightarrow> assembler_inv (header_prepare header now a)"
proof -
  assume "assembler_inv a"
  then have "assembler_inv (track_loss (fh_frame_id header) now (expire now a))"
    by (intro track_loss_inv expire_inv)
  then show ?thesis by (simp add: header_prepare_def Let_def assembler_inv_parts)
qed

lemma header_assembly_ok:
  assumes "header_ok header" and "header_assembly header ts w found = Some f"
    and "\<And>g. found = Some g \<Longrightarrow> assembly_ok (fh_frame_id header) g"
  shows "assembly_ok (fh_frame_id header) f"
proof (cases found)
  case None
  have "chunks_ok header [] 0" by (simp add: chunks_ok_def btree_sorted_def chunk_bytes_def)
  with None assms chunks_ok_admit show ?thesis
    by (auto simp: header_assembly_def assembly_ok_def case_prod_unfold Let_def)
next
  case (Some g)
  with assms chunks_ok_admit show ?thesis
    by (auto simp: header_assembly_def assembly_ok_def case_prod_unfold Let_def split: if_splits)
qed

lemma evict_oldest_inv:
  assumes "frames_inv (Suc MAX_INCOMPLETE_FRAMES) (as_frames a)" and "orphans_inv a"
  shows "assembler_inv (evict_oldest a)"
proof (cases "length (as_frames a) > MAX_INCOMPLETE_FRAMES")
  case True
  then obtain k f where k: "min_key_by (\<lambda>k f. (fa_started f, k)) (as_frames a) = Some k"
    "(k, f) \<in> set (as_frames a)"
    using min_key_by_present [of "as_frames a" "\<lambda>k f. (fa_started f, k)"] by (metis list.size(3) not_less_zero)
  then have "map_of (as_frames a) k = Some f"
    using assms(1) by (simp add: frames_inv_def keys_distinct_def)
  with True k assms show ?thesis
    by (simp add: evict_oldest_def assembler_inv_parts frames_inv_delete(2))
next
  case False
  with assms show ?thesis
    by (auto simp: evict_oldest_def assembler_inv_parts frames_inv_def)
qed

lemma push_header_inv:
  assumes inv: "assembler_inv a" and run: "push_header header ts now a = (a', r)"
  shows "assembler_inv a'"
proof (cases "header_ok header")
  case False
  then have "a' = a\<lparr>as_completed_started_at := None\<rparr>"
    using run by (auto simp: push_header_def header_ok_def Let_def not_less split: if_splits)
  with inv show ?thesis by (simp add: assembler_inv_def)
next
  case True
  let ?k = "fh_frame_id header"
  let ?a1 = "header_prepare header now (a\<lparr>as_completed_started_at := None\<rparr>)"
  let ?a2 = "?a1\<lparr>as_orphans := AList.delete ?k (as_orphans ?a1)\<rparr>"
  let ?step = "header_assembly header ts (header_waiting ?k now ?a1) (map_of (as_frames ?a2) ?k)"
  have "assembler_inv (a\<lparr>as_completed_started_at := None\<rparr>)"
    using inv by (simp add: assembler_inv_def)
  from header_prepare_inv [OF this, of header now] have
    fs: "frames_inv MAX_INCOMPLETE_FRAMES (as_frames ?a2)" and orph: "orphans_inv ?a2"
    using orphans_inv_delete by (simp_all add: assembler_inv_parts)
  note stages = push_header_stages [OF True, of ts now a, unfolded run Let_def]
  show ?thesis
  proof (cases ?step)
    case None
    with stages fs orph show ?thesis by (simp add: assembler_inv_parts)
  next
    case (Some f)
    obtain a3 r3 where fin: "finish_if_complete ?k (?a2\<lparr>as_frames := AList.update ?k f (as_frames ?a2)\<rparr>)
        = (a3, r3)" by fastforce
    have "assembly_ok ?k f"
      using header_assembly_ok [OF True Some] frames_invD [OF fs] by blast
    from finish_update_inv [OF fs orph this fin] have a3: "orphans_inv a3"
      "frames_inv (if map_of (as_frames ?a2) ?k = None \<and> r3 = Inr None
         then Suc MAX_INCOMPLETE_FRAMES else MAX_INCOMPLETE_FRAMES) (as_frames a3)" by simp_all
    then have "frames_inv (Suc MAX_INCOMPLETE_FRAMES) (as_frames a3)"
      by (auto simp: frames_inv_def split: if_splits)
    note evicted = evict_oldest_inv [OF this a3(1)]
    show ?thesis
      using stages Some fin a3 evicted
      by (auto simp: assembler_inv_parts split: sum.splits)
  qed
qed

section \<open>Runs\<close>

text \<open>What arrives at the assembler, with the time at which it does, and a run over a list of
  arrivals with the result of each.\<close>

datatype arrival = HeaderArrives frame_header u32 | ChunkArrives frame_chunk

fun assemble :: "arrival \<Rightarrow> instant \<Rightarrow> frame_assembler \<Rightarrow> frame_assembler \<times> assembly_result" where
  "assemble (HeaderArrives h ts) now a = push_header h ts now a"
| "assemble (ChunkArrives c) now a = push_chunk c now a"

primrec assemble_all ::
  "(arrival \<times> instant) list \<Rightarrow> frame_assembler \<Rightarrow> frame_assembler \<times> assembly_result list" where
  "assemble_all [] a = (a, [])"
| "assemble_all (e # es) a =
     (let (a', r) = assemble (fst e) (snd e) a; (a'', rs) = assemble_all es a' in (a'', r # rs))"

lemma assemble_inv: "assembler_inv a \<Longrightarrow> assemble e now a = (a', r) \<Longrightarrow> assembler_inv a'"
  by (cases e) (auto dest: push_header_inv push_chunk_inv)

lemma assemble_all_inv: "assembler_inv a \<Longrightarrow> assembler_inv (fst (assemble_all es a))"
proof (induction es arbitrary: a)
  case (Cons e es)
  obtain a' r where one: "assemble (fst e) (snd e) a = (a', r)" by fastforce
  with Cons.IH [OF assemble_inv [OF Cons.prems one]] show ?case
    by (simp add: Let_def case_prod_unfold)
qed simp

lemma chunk_map_length:
  assumes "btree_sorted (m :: chunk_map)" and "\<forall>i\<in>fst ` set m. i < n"
  shows "length m \<le> unat n"
proof -
  have "distinct (map fst m)" using assms(1) by (simp add: btree_sorted_def strict_sorted_iff)
  then have "distinct (map unat (map fst m))"
    by (simp add: distinct_map comp_inj_on) (auto simp: distinct_map comp_inj_on_iff [symmetric]
        intro!: comp_inj_on inj_onI unsigned_word_eqI)
  then have "length m = card (set (map unat (map fst m)))" using distinct_card by fastforce
  also have "\<dots> \<le> card {0..<unat n}"
    using assms(2) by (intro card_mono) (auto simp: word_less_nat_alt)
  finally show ?thesis by simp
qed

section \<open>Where stored chunks come from\<close>

text \<open>Everything the assembler holds for a frame id arrived under that id.\<close>

definition arrived :: "arrival set \<Rightarrow> u32 \<Rightarrow> u16 \<times> bytes \<Rightarrow> bool" where
  "arrived E k = (\<lambda>(i, d). ChunkArrives \<lparr>fc_frame_id = k, fc_chunk_index = i, fc_data = d\<rparr> \<in> E)"

definition frame_from :: "arrival set \<Rightarrow> u32 \<Rightarrow> frame_assembly \<Rightarrow> bool" where
  "frame_from E k f \<longleftrightarrow> HeaderArrives (fa_header f) (fa_timestamp_ms f) \<in> E \<and>
     (\<forall>p\<in>set (fa_chunks f). arrived E k p)"

definition stored_from :: "arrival set \<Rightarrow> frame_assembler \<Rightarrow> bool" where
  "stored_from E a \<longleftrightarrow> (\<forall>(k, f)\<in>set (as_frames a). frame_from E k f) \<and>
     (\<forall>(k, r)\<in>set (as_orphans a). \<forall>p\<in>set (oa_chunks r). arrived E k p)"

lemma frame_from_add:
  "frame_from E k f \<Longrightarrow> arrived E k (fc_chunk_index c, fc_data c) \<Longrightarrow> frame_from E k (add_chunk c f)"
  by (auto simp: frame_from_def add_chunk_def Let_def dest!: subsetD [OF set_btree_or_insert])

lemma set_admit_chunks:
  "admit_chunks m payload inc h = (m', payload') \<Longrightarrow> set m' \<subseteq> set m \<union> set inc"
  unfolding admit_chunks_def
proof (induction inc arbitrary: m payload)
  case (Cons x inc)
  obtain m1 p1 where one: "admit_chunk h x (m, payload) = (m1, p1)" by fastforce
  then have "set m1 \<subseteq> insert x (set m)"
    using set_btree_or_insert by (auto simp: admit_chunk_def case_prod_unfold split: if_splits) fastforce
  with Cons.IH [of m1 p1] Cons.prems one show ?case by auto
qed simp

lemma stored_from_mono:
  "stored_from E a \<Longrightarrow> set (as_frames b) \<subseteq> set (as_frames a) \<Longrightarrow>
     set (as_orphans b) \<subseteq> set (as_orphans a) \<Longrightarrow> stored_from E b"
  unfolding stored_from_def by blast

lemma stored_from_expand: "stored_from E a \<Longrightarrow> E \<subseteq> F \<Longrightarrow> stored_from F a"
  by (fastforce simp: stored_from_def frame_from_def arrived_def)

lemma finish_subset:
  "finish_if_complete k a = (a', r) \<Longrightarrow>
     set (as_frames a') \<subseteq> set (as_frames a) \<and> as_orphans a' = as_orphans a"
  by (auto simp: finish_if_complete_def Let_def dest: subsetD [OF set_delete]
      split: option.splits sum.splits if_splits)

lemma finish_from: "stored_from E a \<Longrightarrow> finish_if_complete k a = (a', r) \<Longrightarrow> stored_from E a'"
  using finish_subset [of k a a' r] by (intro stored_from_mono [of E a a']) auto

lemma evict_oldest_subset:
  "set (as_frames (evict_oldest a)) \<subseteq> set (as_frames a) \<and> as_orphans (evict_oldest a) = as_orphans a"
  by (auto simp: evict_oldest_def dest: subsetD [OF set_delete] split: option.splits)

lemma header_prepare_subset:
  "set (as_frames (header_prepare h now a)) \<subseteq> set (as_frames a) \<and>
   set (as_orphans (header_prepare h now a)) \<subseteq> set (as_orphans a)"
  by (auto simp: header_prepare_def Let_def expire_def track_loss_def)

lemma header_waiting_from:
  "stored_from E a \<Longrightarrow> p \<in> set (fst (header_waiting k now a)) \<Longrightarrow> arrived E k p"
  by (auto simp: header_waiting_def stored_from_def split: option.splits dest!: map_of_SomeD)

lemma header_assembly_from:
  assumes "HeaderArrives h ts \<in> E" and "\<And>g. found = Some g \<Longrightarrow> frame_from E k g"
    and "\<And>p. p \<in> set (fst w) \<Longrightarrow> arrived E k p" and "header_assembly h ts w found = Some f"
  shows "frame_from E k f"
proof (cases found)
  case None
  obtain m n where "admit_chunks [] 0 (fst w) h = (m, n)" by fastforce
  with None assms(1,3,4) set_admit_chunks [OF this] show ?thesis
    by (auto simp: header_assembly_def frame_from_def case_prod_unfold)
next
  case (Some g)
  obtain m n where "admit_chunks (fa_chunks g) (fa_payload_bytes g) (fst w) (fa_header g) = (m, n)"
    by fastforce
  with Some assms(1,3,4) assms(2) [OF Some] set_admit_chunks [OF this] show ?thesis
    by (auto simp: header_assembly_def frame_from_def case_prod_unfold split: if_splits)
qed

lemma stored_from_update:
  "stored_from E a \<Longrightarrow> frame_from E k f \<Longrightarrow> stored_from E (a\<lparr>as_frames := AList.update k f (as_frames a)\<rparr>)"
  by (auto simp: stored_from_def dest!: subsetD [OF set_update])

lemma stored_from_orphan_update:
  assumes "stored_from E a" and "\<And>p. p \<in> set (oa_chunks r) \<Longrightarrow> arrived E k p"
  shows "stored_from E (a\<lparr>as_orphans := AList.update k r (as_orphans a)\<rparr>)"
  unfolding stored_from_def
proof (intro conjI)
  show "\<forall>(k', r')\<in>set (as_orphans (a\<lparr>as_orphans := AList.update k r (as_orphans a)\<rparr>)).
      \<forall>p\<in>set (oa_chunks r'). arrived E k' p"
    using assms set_update [of k r "as_orphans a"] unfolding stored_from_def by fastforce
qed (use assms(1) in \<open>simp add: stored_from_def\<close>)

lemma push_header_from:
  assumes st: "stored_from E a" and h: "HeaderArrives h ts \<in> E" and run: "push_header h ts now a = (a', r)"
  shows "stored_from E a'"
proof (cases "header_ok h")
  case False
  then show ?thesis
    using run stored_from_mono [OF st, of a']
    by (auto simp: push_header_def header_ok_def Let_def not_less split: if_splits)
next
  case True
  let ?k = "fh_frame_id h"
  let ?a1 = "header_prepare h now (a\<lparr>as_completed_started_at := None\<rparr>)"
  let ?a2 = "?a1\<lparr>as_orphans := AList.delete ?k (as_orphans ?a1)\<rparr>"
  let ?step = "header_assembly h ts (header_waiting ?k now ?a1) (map_of (as_frames ?a2) ?k)"
  have st1: "stored_from E ?a1"
    using header_prepare_subset [of h now "a\<lparr>as_completed_started_at := None\<rparr>"]
    by (intro stored_from_mono [OF st]) simp_all
  have st2: "stored_from E ?a2"
    by (intro stored_from_mono [OF st1]) (auto dest: subsetD [OF set_delete])
  note stages = push_header_stages [OF True, of ts now a, unfolded run Let_def]
  show ?thesis
  proof (cases ?step)
    case None
    with stages st2 show ?thesis by simp
  next
    case (Some f)
    obtain a3 r3 where fin: "finish_if_complete ?k (?a2\<lparr>as_frames := AList.update ?k f (as_frames ?a2)\<rparr>)
        = (a3, r3)" by fastforce
    have "frame_from E ?k f"
      using st2 header_waiting_from [OF st1]
      by (intro header_assembly_from [OF h _ _ Some])
         (auto simp: stored_from_def dest!: map_of_SomeD)
    note st3 = finish_from [OF stored_from_update [OF st2 this] fin]
    then have "stored_from E (evict_oldest a3)"
      using evict_oldest_subset [of a3] by (intro stored_from_mono [OF st3]) auto
    moreover have "a' = a3 \<or> a' = evict_oldest a3"
      using stages Some fin by (cases r3) simp_all
    ultimately show ?thesis using st3 by auto
  qed
qed

lemma push_chunk_from:
  assumes st: "stored_from E a" and c: "ChunkArrives c \<in> E" and run: "push_chunk c now a = (a', r)"
  shows "stored_from E a'"
proof -
  let ?a = "expire now (a\<lparr>as_completed_started_at := None\<rparr>)" and ?k = "fc_frame_id c"
  have st1: "stored_from E ?a"
    by (intro stored_from_mono [OF st]) (auto simp: expire_def)
  have new: "arrived E ?k (fc_chunk_index c, fc_data c)" using c by (cases c) (simp add: arrived_def)
  show ?thesis
  proof (cases "map_of (as_frames ?a) ?k")
    case (Some f)
    let ?f = "add_chunk c f"
    have "frame_from E ?k f" using st1 Some by (auto simp: stored_from_def dest!: map_of_SomeD)
    then have "frame_from E ?k ?f" using new by (rule frame_from_add)
    note st2 = stored_from_update [OF st1 this]
    have "a' = ?a \<or> finish_if_complete ?k (?a\<lparr>as_frames := AList.update ?k ?f (as_frames ?a)\<rparr>) = (a', r)"
      using run Some by (auto simp: push_chunk_def Let_def split: if_splits)
    then show ?thesis using st1 finish_from [OF st2] by blast
  next
    case None
    let ?o = "case map_of (as_orphans ?a) ?k of Some r \<Rightarrow> r | None \<Rightarrow> \<lparr>oa_chunks = [], oa_started = now\<rparr>"
    let ?o' = "?o\<lparr>oa_chunks := btree_or_insert (fc_chunk_index c) (fc_data c) (oa_chunks ?o)\<rparr>"
    have "arrived E ?k p" if "p \<in> set (oa_chunks ?o)" for p
      using st1 that unfolding stored_from_def by (auto split: option.splits dest!: map_of_SomeD)
    then have "arrived E ?k p" if "p \<in> set (oa_chunks ?o')" for p
      using that new set_btree_or_insert [of "fc_chunk_index c" "fc_data c" "oa_chunks ?o"]
      by (cases p) auto
    note st2 = stored_from_orphan_update [OF st1 this]
    have st3: "stored_from E (?a\<lparr>as_orphans := AList.delete ?k (as_orphans ?a)\<rparr>)"
      by (intro stored_from_mono [OF st1]) (auto dest: subsetD [OF set_delete])
    have "a' = ?a \<or> a' = ?a\<lparr>as_orphans := AList.delete ?k (as_orphans ?a)\<rparr> \<or>
        a' = ?a\<lparr>as_orphans := AList.update ?k ?o' (as_orphans ?a)\<rparr>"
      using run None by (auto simp: push_chunk_def Let_def split: if_splits)
    then show ?thesis using st1 st2 st3 by blast
  qed
qed

section \<open>Completed frames\<close>

text \<open>A frame that an arrival completes: its header arrived, and its data is the concatenation of
  one chunk for each index, every one of which arrived under the frame's id.\<close>

definition genuine :: "arrival set \<Rightarrow> assembled_frame \<Rightarrow> bool" where
  "genuine E g \<longleftrightarrow> header_ok (asf_header g) \<and>
     HeaderArrives (asf_header g) (asf_timestamp_ms g) \<in> E \<and>
     length (asf_data g) = unat (fh_total_size (asf_header g)) \<and>
     (\<exists>ds. length ds = unat (fh_total_chunks (asf_header g)) \<and> asf_data g = concat ds \<and>
        (\<forall>i < length ds. arrived E (fh_frame_id (asf_header g)) (word_of_nat i, ds ! i)))"

lemma finish_genuine:
  assumes ok: "assembly_ok k f" and from_E: "frame_from E k f" and found: "map_of (as_frames a) k = Some f"
    and run: "finish_if_complete k a = (a', Inr (Some g))"
  shows "genuine E g"
proof -
  have complete: "assembly_complete f" and size: "fa_payload_bytes f = unat (fh_total_size (fa_header f))"
    and g: "g = \<lparr>asf_header = fa_header f, asf_data = concat (map snd (fa_chunks f)),
      asf_timestamp_ms = fa_timestamp_ms f\<rparr>"
    using run unfolding finish_if_complete_eq [OF ok found]
    by (auto simp: Let_def split: if_splits)
  let ?m = "fa_chunks f" and ?n = "fh_total_chunks (fa_header f)"
  have keys: "map fst ?m = map word_of_nat [0..<unat ?n]"
    using ok complete by (intro sorted_keys_full)
      (auto simp: assembly_ok_def chunks_ok_def assembly_complete_def)
  have "arrived E k (word_of_nat i, map snd ?m ! i)" if i: "i < length ?m" for i
  proof -
    have "fst (?m ! i) = word_of_nat i"
      using i arg_cong [OF keys, of "\<lambda>xs. xs ! i"] complete by (simp add: assembly_complete_def)
    moreover have "arrived E k (?m ! i)" using from_E i by (simp add: frame_from_def)
    ultimately show ?thesis using i by (metis nth_map prod.collapse)
  qed
  then show ?thesis
    using ok complete size from_E unfolding genuine_def g
    by (auto simp: assembly_ok_def chunks_ok_def frame_from_def length_concat_chunks
        assembly_complete_def intro!: exI [of _ "map snd ?m"])
qed

lemma push_header_genuine:
  assumes inv: "assembler_inv a" and st: "stored_from E a" and h: "HeaderArrives h ts \<in> E"
    and run: "push_header h ts now a = (a', Inr (Some g))"
  shows "genuine E g"
proof -
  have ok: "header_ok h"
    using run by (auto simp: push_header_def header_ok_def Let_def not_less split: if_splits)
  let ?k = "fh_frame_id h"
  let ?a0 = "a\<lparr>as_completed_started_at := None\<rparr>"
  let ?a1 = "header_prepare h now ?a0"
  let ?a2 = "?a1\<lparr>as_orphans := AList.delete ?k (as_orphans ?a1)\<rparr>"
  let ?found = "map_of (as_frames ?a2) ?k"
  have "assembler_inv ?a1"
    using inv by (intro header_prepare_inv) (simp add: assembler_inv_def)
  then have fs: "frames_inv MAX_INCOMPLETE_FRAMES (as_frames ?a2)" by (simp add: assembler_inv_parts)
  have st1: "stored_from E ?a1"
    using header_prepare_subset [of h now ?a0] by (intro stored_from_mono [OF st]) simp_all
  note stages = push_header_stages [OF ok, of ts now a, unfolded run Let_def]
  then obtain f where f: "header_assembly h ts (header_waiting ?k now ?a1) ?found = Some f"
    by (cases "header_assembly h ts (header_waiting ?k now ?a1) ?found") simp_all
  obtain a3 r3 where fin: "finish_if_complete ?k (?a2\<lparr>as_frames := AList.update ?k f (as_frames ?a2)\<rparr>)
      = (a3, r3)" by fastforce
  have r3: "r3 = Inr (Some g)"
    using stages f fin by (cases r3) simp_all
  have "assembly_ok ?k f"
    using header_assembly_ok [OF ok f] frames_invD [OF fs] by blast
  moreover have "frame_from E ?k f"
    using st1 header_waiting_from [OF st1]
    by (intro header_assembly_from [OF h _ _ f]) (auto simp: stored_from_def dest!: map_of_SomeD)
  ultimately show ?thesis
    using finish_genuine [OF _ _ _ fin [unfolded r3]] by (simp add: update_conv')
qed

lemma push_chunk_genuine:
  assumes inv: "assembler_inv a" and st: "stored_from E a" and c: "ChunkArrives c \<in> E"
    and run: "push_chunk c now a = (a', Inr (Some g))"
  shows "genuine E g"
proof -
  let ?a = "expire now (a\<lparr>as_completed_started_at := None\<rparr>)" and ?k = "fc_frame_id c"
  have fs: "frames_inv MAX_INCOMPLETE_FRAMES (as_frames ?a)"
    using expire_inv [of "a\<lparr>as_completed_started_at := None\<rparr>" now] inv
    by (simp add: assembler_inv_parts)
  obtain f where f: "map_of (as_frames ?a) ?k = Some f"
    using run by (cases "map_of (as_frames ?a) ?k") (auto simp: push_chunk_def Let_def split: if_splits)
  let ?f = "add_chunk c f"
  have fin: "finish_if_complete ?k (?a\<lparr>as_frames := AList.update ?k ?f (as_frames ?a)\<rparr>) = (a', Inr (Some g))"
    and ok: "assembly_ok ?k ?f"
    using run f assembly_ok_insert [OF frames_invD [OF fs f, THEN conjunct1], of c]
    by (auto simp: push_chunk_def Let_def split: if_splits)
  have "frame_from E ?k f"
    using st f unfolding stored_from_def expire_def by (auto dest!: map_of_SomeD)
  moreover have "arrived E ?k (fc_chunk_index c, fc_data c)" using c by (cases c) (simp add: arrived_def)
  ultimately have "frame_from E ?k ?f" by (rule frame_from_add)
  then show ?thesis
    using finish_genuine [OF ok _ _ fin] by (simp add: update_conv')
qed

lemma assemble_from:
  "stored_from E a \<Longrightarrow> e \<in> E \<Longrightarrow> assemble e now a = (a', r) \<Longrightarrow> stored_from E a'"
  by (cases e) (auto intro: push_header_from push_chunk_from)

lemma assemble_genuine:
  "assembler_inv a \<Longrightarrow> stored_from E a \<Longrightarrow> e \<in> E \<Longrightarrow> assemble e now a = (a', Inr (Some g)) \<Longrightarrow>
     genuine E g"
  by (cases e) (auto intro: push_header_genuine push_chunk_genuine)

lemma assemble_all_genuine:
  "assembler_inv a \<Longrightarrow> stored_from E a \<Longrightarrow> fst ` set es \<subseteq> E \<Longrightarrow>
     Inr (Some g) \<in> set (snd (assemble_all es a)) \<Longrightarrow> genuine E g"
proof (induction es arbitrary: a)
  case (Cons e es)
  obtain a' r where one: "assemble (fst e) (snd e) a = (a', r)" by fastforce
  have e: "fst e \<in> E" using Cons.prems(3) by simp
  have now: "r = Inr (Some g) \<Longrightarrow> genuine E g"
    using assemble_genuine [OF Cons.prems(1,2) e] one by simp
  show ?case
    using Cons.IH [OF assemble_inv [OF Cons.prems(1) one] assemble_from [OF Cons.prems(2) e one]]
      Cons.prems(3,4) one now
    by (auto simp: Let_def case_prod_unfold)
qed simp

end
