(* ===== verification/Frame_Order.thy ===== *)
theory Frame_Order
  imports Frame_Assembler Chunk_Sets
begin

text \<open>
  Assembly in any order: whatever the order in which the header and the chunks of one frame reach
  an empty assembler, with retransmissions, the last missing one completes the frame with exactly
  the data that was cut into chunks, and nothing is delivered before.

  The proof follows one frame through the assembler: \<open>collecting\<close> describes the state after a set
  of arrivals, one lemma per kind of arrival moves it on.
\<close>

definition chunk_arrival :: "u32 \<Rightarrow> bytes list \<Rightarrow> nat \<Rightarrow> arrival" where
  "chunk_arrival k ds i =
     ChunkArrives \<lparr>fc_frame_id = k, fc_chunk_index = word_of_nat i, fc_data = ds ! i\<rparr>"

definition frame_arrivals :: "frame_header \<Rightarrow> u32 \<Rightarrow> bytes list \<Rightarrow> arrival set" where
  "frame_arrivals h ts ds =
     insert (HeaderArrives h ts) (chunk_arrival (fh_frame_id h) ds ` {0..<length ds})"

text \<open>A header and the chunks it describes.\<close>

definition cut_into :: "frame_header \<Rightarrow> bytes list \<Rightarrow> bool" where
  "cut_into h ds \<longleftrightarrow> header_ok h \<and> length ds = unat (fh_total_chunks h) \<and>
     length (concat ds) = unat (fh_total_size h)"

section \<open>Chunk maps that hold a set of the chunks\<close>

lemma cut_into_length: "cut_into h ds \<Longrightarrow> length ds \<le> 8192"
  by (auto simp: cut_into_def header_ok_def word_le_nat_alt MAX_CHUNKS_PER_FRAME_def)

lemma cut_into_small: "cut_into h ds \<Longrightarrow> length ds < 65536"
  using cut_into_length [of h ds] by simp

lemma holds_sum:
  assumes m: "holds ds K m" and K: "K \<subseteq> {0..<length ds}" "length ds < 65536"
  shows "length m = card K" and "chunk_bytes m = (\<Sum>i\<in>K. length (ds ! i))"
proof -
  have dist: "distinct (map fst m)"
    using m by (simp add: holds_def btree_sorted_def strict_sorted_iff)
  have inj: "inj_on (unat \<circ> fst) (set m)"
    using dist by (auto simp: distinct_map inj_on_def dest: unsigned_word_eqI)
  have keys: "(unat \<circ> fst) ` set m = K"
    using holds_keys [OF m K] by (simp add: image_comp)
  have "length m = card (set m)" using dist by (simp add: distinct_map distinct_card)
  with card_image [OF inj] keys show "length m = card K" by simp
  have val: "snd p = ds ! unat (fst p)" if "p \<in> set m" for p
  proof -
    have "map_of m (fst p) = Some (snd p)" using dist that by simp
    with m show ?thesis by (auto simp: holds_def split: if_splits)
  qed
  have "chunk_bytes m = (\<Sum>p\<in>set m. length (snd p))"
    using dist by (simp add: chunk_bytes_def sum_list_distinct_conv_sum_set distinct_map)
  also have "\<dots> = (\<Sum>p\<in>set m. length (ds ! (unat \<circ> fst) p))"
    using val by (intro sum.cong) auto
  also have "\<dots> = (\<Sum>i\<in>K. length (ds ! i))"
    using sum.reindex [OF inj, of "\<lambda>i. length (ds ! i)"] keys by simp
  finally show "chunk_bytes m = (\<Sum>i\<in>K. length (ds ! i))" .
qed

lemma total_length: "length (concat ds) = (\<Sum>i\<in>{0..<length ds}. length (ds ! i))"
  by (simp add: length_concat sum_list_sum_nth)

lemma holds_bound:
  assumes "cut_into h ds" and "holds ds K m" and "K \<subseteq> {0..<length ds}"
  shows "chunk_bytes m \<le> unat (fh_total_size h)"
proof -
  have "(\<Sum>i\<in>K. length (ds ! i)) \<le> (\<Sum>i\<in>{0..<length ds}. length (ds ! i))"
    using assms(3) by (intro sum_mono2) auto
  then show ?thesis
    using holds_sum(2) [OF assms(2,3) cut_into_small [OF assms(1)]] assms(1)
    unfolding cut_into_def total_length by linarith
qed

lemma holds_chunks_ok:
  assumes "cut_into h ds" and "holds ds K m" and "K \<subseteq> {0..<length ds}"
  shows "chunks_ok h m (chunk_bytes m)"
proof -
  have "i < fh_total_chunks h" if "i \<in> fst ` set m" for i
    using that holds_keys [OF assms(2,3) cut_into_small [OF assms(1)]] assms(1,3)
    by (force simp: cut_into_def word_less_nat_alt)
  with assms show ?thesis
    using holds_bound [OF assms] by (simp add: chunks_ok_def holds_def)
qed

lemma holds_complete:
  assumes "cut_into h ds" and "holds ds K m" and "K \<subseteq> {0..<length ds}"
  shows "length m = unat (fh_total_chunks h) \<longleftrightarrow> K = {0..<length ds}"
proof -
  have "card K = card {0..<length ds} \<longleftrightarrow> K = {0..<length ds}"
    using assms(3) card_subset_eq [of "{0..<length ds}" K] by auto
  then show ?thesis
    using holds_sum(1) [OF assms(2,3) cut_into_small [OF assms(1)]] assms(1)
    by (simp add: cut_into_def)
qed

lemma holds_all_data:
  assumes cut: "cut_into h ds" and m: "holds ds {0..<length ds} m"
  shows "concat (map snd m) = concat ds"
proof -
  have ok: "chunks_ok h m (chunk_bytes m)" using holds_chunks_ok [OF cut m] by simp
  have keys: "map fst m = map word_of_nat [0..<length ds]"
    using sorted_keys_full [of m "fh_total_chunks h"] ok holds_complete [OF cut m] cut
    by (simp add: chunks_ok_def cut_into_def)
  have dist: "distinct (map fst m)" using m by (simp add: holds_def btree_sorted_def strict_sorted_iff)
  have "map snd m = map (\<lambda>w. the (map_of m w)) (map fst m)"
    using dist by (auto simp: map_of_is_SomeI)
  also have "\<dots> = map (\<lambda>i. ds ! i) [0..<length ds]"
    unfolding keys using m cut_into_small [OF cut] by (simp add: holds_def)
  finally show ?thesis by (simp add: map_nth)
qed

text \<open>Admitting a whole chunk map into an empty assembly, and nothing into a full one.\<close>

lemma btree_or_insert_last:
  "\<forall>k'\<in>fst ` set m. k' < k \<Longrightarrow> btree_or_insert k v m = m @ [(k, v)]"
  by (induction k v m rule: btree_or_insert.induct) auto

lemma admit_all:
  "btree_sorted (pre @ m) \<Longrightarrow> \<forall>i\<in>fst ` set m. i < fh_total_chunks h \<Longrightarrow>
     chunk_bytes (pre @ m) \<le> unat (fh_total_size h) \<Longrightarrow>
     admit_chunks pre (chunk_bytes pre) m h = (pre @ m, chunk_bytes (pre @ m))"
proof (induction m arbitrary: pre)
  case (Cons p m)
  obtain i d where p: "p = (i, d)" by (cases p)
  have below: "\<forall>k\<in>fst ` set pre. k < i"
    using Cons.prems(1) p by (auto simp: btree_sorted_def sorted_wrt_append)
  then have fresh: "map_of pre i = None" by (auto simp: map_of_eq_None_iff)
  have bytes: "chunk_bytes (pre @ [p]) = chunk_bytes pre + length d" by (simp add: p chunk_bytes_def)
  have "chunk_bytes pre + length d \<le> unat (fh_total_size h)"
    using Cons.prems(3) p by (simp add: chunk_bytes_def)
  then have "admit_chunk h p (pre, chunk_bytes pre) = (pre @ [p], chunk_bytes (pre @ [p]))"
    using Cons.prems(2) below fresh bytes
    by (simp add: admit_chunk_def p contains_key_def btree_or_insert_last not_le [symmetric])
  with Cons.IH [of "pre @ [p]"] Cons.prems show ?case
    by (simp add: admit_chunks_def)
qed (simp add: admit_chunks_def)

section \<open>The state after a set of arrivals\<close>

definition collected :: "frame_header \<Rightarrow> bytes list \<Rightarrow> arrival set \<Rightarrow> nat set" where
  "collected h ds S = {i. i < length ds \<and> chunk_arrival (fh_frame_id h) ds i \<in> S}"

definition collecting ::
  "frame_header \<Rightarrow> u32 \<Rightarrow> bytes list \<Rightarrow> instant \<Rightarrow> arrival set \<Rightarrow> frame_assembler \<Rightarrow> bool" where
  "collecting h ts ds t0 S a \<longleftrightarrow>
     (if HeaderArrives h ts \<in> S
      then as_orphans a = [] \<and> (\<exists>m started. holds ds (collected h ds S) m \<and> t0 \<le> started \<and>
        as_frames a = [(fh_frame_id h, \<lparr>fa_header = h, fa_chunks = m, fa_started = started,
          fa_timestamp_ms = ts, fa_payload_bytes = chunk_bytes m\<rparr>)])
      else as_frames a = [] \<and>
        (if collected h ds S = {} then as_orphans a = []
         else \<exists>m started. holds ds (collected h ds S) m \<and> t0 \<le> started \<and>
           as_orphans a = [(fh_frame_id h, \<lparr>oa_chunks = m, oa_started = started\<rparr>)]))"

definition completed_frame :: "frame_header \<Rightarrow> u32 \<Rightarrow> bytes list \<Rightarrow> assembled_frame" where
  "completed_frame h ts ds =
     \<lparr>asf_header = h, asf_data = concat ds, asf_timestamp_ms = ts\<rparr>"

lemma collected_bounds: "collected h ds S \<subseteq> {0..<length ds}"
  by (auto simp: collected_def)

lemma expire_none:
  assumes "collecting h ts ds t0 S a" and "now < t0 + from_secs 1"
  shows "collecting h ts ds t0 S (expire now (a\<lparr>as_completed_started_at := None\<rparr>))"
proof -
  have "now - started < ASSEMBLY_TIMEOUT" if "t0 \<le> started" for started
    using that assms(2) by (simp add: ASSEMBLY_TIMEOUT_def)
  then show ?thesis
    using assms(1) by (auto simp: collecting_def expire_def split: if_splits)
qed

text \<open>Finishing the assembly that holds a set of the chunks.\<close>

lemma finish_collected:
  assumes cut: "cut_into h ds" and m: "holds ds K m" "K \<subseteq> {0..<length ds}"
    and a: "as_frames a = [(fh_frame_id h, f)]"
    and f: "fa_header f = h" "fa_chunks f = m" "fa_timestamp_ms f = ts" "fa_payload_bytes f = chunk_bytes m"
  shows "if K = {0..<length ds}
    then snd (finish_if_complete (fh_frame_id h) a) = Inr (Some (completed_frame h ts ds))
    else finish_if_complete (fh_frame_id h) a = (a, Inr None)"
proof -
  have "assembly_ok (fh_frame_id h) f"
    using holds_chunks_ok [OF cut m] cut f by (simp add: assembly_ok_def cut_into_def)
  note eq = finish_if_complete_eq [OF this, of a]
  have complete: "assembly_complete f \<longleftrightarrow> K = {0..<length ds}"
    using holds_complete [OF cut m] f by (simp add: assembly_complete_def)
  have "fa_payload_bytes f = unat (fh_total_size h)" if "K = {0..<length ds}"
    using holds_sum(2) [OF m cut_into_small [OF cut]] cut f(4) that
    unfolding cut_into_def total_length by metis
  moreover have "concat (map snd m) = concat ds" if "K = {0..<length ds}"
    using holds_all_data [OF cut] m(1) that by simp
  ultimately show ?thesis
    using eq complete a f by (simp add: completed_frame_def Let_def)
qed

section \<open>One arrival\<close>

definition no_limit :: "bytes list \<Rightarrow> frame_header \<Rightarrow> arrival set \<Rightarrow> nat \<Rightarrow> bool" where
  "no_limit ds h S i \<longleftrightarrow> length ds < 8192 \<or> i \<notin> collected h ds S"

lemma collected_insert_header [simp]: "collected h ds (insert (HeaderArrives h' ts) S) = collected h ds S"
  by (auto simp: collected_def chunk_arrival_def)

lemma collected_insert_chunk:
  assumes "i < length ds" and "length ds < 65536"
  shows "collected h ds (insert (chunk_arrival (fh_frame_id h) ds i) S) = insert i (collected h ds S)"
proof -
  have "j = i" if "j < length ds" and eq: "(word_of_nat j :: u16) = word_of_nat i" for j
    using arg_cong [OF eq, of unat] unfolding unat_index [OF that(1) assms(2)] unat_index [OF assms] .
  then have "chunk_arrival k ds j = chunk_arrival k ds i \<longleftrightarrow> j = i" if "j < length ds" for j k
    using that by (auto simp: chunk_arrival_def)
  with assms(1) show ?thesis by (auto simp: collected_def)
qed

text \<open>What a step must establish: nothing delivered and the next state, or the frame.\<close>

definition moves_on ::
  "frame_header \<Rightarrow> u32 \<Rightarrow> bytes list \<Rightarrow> instant \<Rightarrow> arrival set \<Rightarrow> frame_assembler \<times> assembly_result \<Rightarrow> bool"
where
  "moves_on h ts ds t0 S p \<longleftrightarrow>
     (if frame_arrivals h ts ds \<subseteq> S then snd p = Inr (Some (completed_frame h ts ds))
      else snd p = Inr None \<and> collecting h ts ds t0 S (fst p))"

lemma all_arrived:
  "frame_arrivals h ts ds \<subseteq> S \<longleftrightarrow> HeaderArrives h ts \<in> S \<and> collected h ds S = {0..<length ds}"
  by (auto simp: frame_arrivals_def collected_def)

lemma chunk_before_header:
  assumes cut: "cut_into h ds" and st: "collecting h ts ds t0 S a" and i: "i < length ds"
    and "HeaderArrives h ts \<notin> S" and now: "t0 \<le> now" "now < t0 + from_secs 1" and lim: "no_limit ds h S i"
  shows "moves_on h ts ds t0 (insert (chunk_arrival (fh_frame_id h) ds i) S)
    (assemble (chunk_arrival (fh_frame_id h) ds i) now a)"
proof -
  let ?a = "expire now (a\<lparr>as_completed_started_at := None\<rparr>)" and ?k = "fh_frame_id h"
  let ?K = "collected h ds S"
  note len = cut_into_small [OF cut]
  have none: "HeaderArrives h ts \<notin> insert (chunk_arrival ?k ds i) S"
    using assms(4) by (simp add: chunk_arrival_def)
  have fr: "as_frames ?a = []"
    using expire_none [OF st now(2)] assms(4) by (simp add: collecting_def)
  obtain m started where m: "holds ds ?K m" "t0 \<le> started"
    and orph: "as_orphans ?a = (if ?K = {} then [] else [(?k, \<lparr>oa_chunks = m, oa_started = started\<rparr>)])"
    using expire_none [OF st now(2)] assms(4) holds_empty now(1)
    by (auto simp: collecting_def split: if_splits)
  have idx: "\<not> MAX_CHUNKS_PER_FRAME \<le> (word_of_nat i :: u16)"
    using i cut_into_length [OF cut] unat_index [OF i len] by (simp add: word_le_nat_alt MAX_CHUNKS_PER_FRAME_def)
  have small: "length m < 8192"
  proof -
    have "card ?K < 8192"
    proof (cases "length ds < 8192")
      case True
      then show ?thesis using card_mono [OF _ collected_bounds [of h ds S]] by simp
    next
      case False
      with lim have "?K \<subset> {0..<length ds}"
        using i collected_bounds [of h ds S] by (auto simp: no_limit_def)
      from psubset_card_mono [OF _ this] cut_into_length [OF cut] show ?thesis by simp
    qed
    with holds_sum(1) [OF m(1) collected_bounds len] show ?thesis by simp
  qed
  let ?m' = "btree_or_insert (word_of_nat i) (ds ! i) m"
  have "holds ds (insert i ?K) ?m'" by (rule holds_insert [OF m(1) i len])
  moreover have "m = []" if "?K = {}"
    using holds_sum(1) [OF m(1) collected_bounds len] that by simp
  moreover have "assemble (chunk_arrival ?k ds i) now a =
    (?a\<lparr>as_orphans := [(?k, \<lparr>oa_chunks = ?m', oa_started = if ?K = {} then now else started\<rparr>)]\<rparr>, Inr None)"
    using calculation(2) idx small
    by (simp add: chunk_arrival_def push_chunk_def fr orph contains_key_def MAX_ORPHAN_FRAMES_def
        MAX_CHUNKS_PER_FRAME_def)
  ultimately show ?thesis
    using none m(2) now(1) fr i len
    by (auto simp: moves_on_def all_arrived collecting_def collected_insert_chunk)
qed

lemma chunk_after_header:
  assumes cut: "cut_into h ds" and st: "collecting h ts ds t0 S a" and i: "i < length ds"
    and hd: "HeaderArrives h ts \<in> S" and now: "now < t0 + from_secs 1"
  shows "moves_on h ts ds t0 (insert (chunk_arrival (fh_frame_id h) ds i) S)
    (assemble (chunk_arrival (fh_frame_id h) ds i) now a)"
proof -
  let ?a = "expire now (a\<lparr>as_completed_started_at := None\<rparr>)" and ?k = "fh_frame_id h"
  let ?K = "collected h ds S" and ?i = "word_of_nat i :: u16"
  note len = cut_into_small [OF cut]
  obtain m started where m: "holds ds ?K m" "t0 \<le> started" and orph: "as_orphans ?a = []"
    and fr: "as_frames ?a = [(?k, \<lparr>fa_header = h, fa_chunks = m, fa_started = started,
      fa_timestamp_ms = ts, fa_payload_bytes = chunk_bytes m\<rparr>)]"
    using expire_none [OF st now] hd by (auto simp: collecting_def)
  let ?f = "\<lparr>fa_header = h, fa_chunks = m, fa_started = started, fa_timestamp_ms = ts,
    fa_payload_bytes = chunk_bytes m\<rparr>"
  let ?m' = "btree_or_insert ?i (ds ! i) m"
  have idx: "\<not> fh_total_chunks h \<le> ?i"
    using i cut unat_index [OF i len] by (simp add: word_le_nat_alt cut_into_def)
  have m': "holds ds (insert i ?K) ?m'" by (rule holds_insert [OF m(1) i len])
  have K': "insert i ?K \<subseteq> {0..<length ds}" using i collected_bounds by auto
  have has: "contains_key m ?i \<longleftrightarrow> i \<in> ?K"
    using m(1) unat_index [OF i len] by (simp add: holds_def contains_key_def)
  have bytes: "chunk_bytes ?m' = chunk_bytes m + (if i \<in> ?K then 0 else length (ds ! i))"
    using m(1) has chunk_bytes_insert [of m ?i "ds ! i"] btree_or_insert_present [of m ?i "ds ! i"]
    by (auto simp: holds_def contains_key_def)
  have add: "add_chunk \<lparr>fc_frame_id = ?k, fc_chunk_index = ?i, fc_data = ds ! i\<rparr> ?f =
      ?f\<lparr>fa_chunks := ?m', fa_payload_bytes := chunk_bytes ?m'\<rparr>"
    by (simp add: add_chunk_def Let_def has bytes)
  have fits: "\<not> (i \<notin> ?K \<and> unat (fh_total_size h) < chunk_bytes m + length (ds ! i))"
    using holds_bound [OF cut m' K'] bytes by (auto split: if_splits)
  let ?b = "?a\<lparr>as_frames := [(?k, ?f\<lparr>fa_chunks := ?m', fa_payload_bytes := chunk_bytes ?m'\<rparr>)]\<rparr>"
  have run: "assemble (chunk_arrival ?k ds i) now a = finish_if_complete ?k ?b"
    using idx fits
    by (auto simp: chunk_arrival_def push_chunk_def Let_def fr add has)
  have fr': "as_frames ?b = [(?k, ?f\<lparr>fa_chunks := ?m', fa_payload_bytes := chunk_bytes ?m'\<rparr>)]"
    by simp
  have "if insert i ?K = {0..<length ds}
    then snd (finish_if_complete ?k ?b) = Inr (Some (completed_frame h ts ds))
    else finish_if_complete ?k ?b = (?b, Inr None)"
    by (rule finish_collected [OF cut m' K' fr']) simp_all
  moreover have "collecting h ts ds t0 (insert (chunk_arrival ?k ds i) S) ?b"
    using m' m(2) hd orph i len by (auto simp: collecting_def collected_insert_chunk)
  ultimately show ?thesis
    unfolding run using hd i len
    by (auto simp: moves_on_def all_arrived collected_insert_chunk split: if_splits)
qed

text \<open>What \<open>header_prepare\<close> leaves of the collections of one frame.\<close>

lemma header_prepare_collecting:
  assumes "collecting h ts ds t0 S a" and "now < t0 + from_secs 1"
  shows "collecting h ts ds t0 S (header_prepare h now (a\<lparr>as_completed_started_at := None\<rparr>))"
proof -
  have "serial_not_before k k" for k
    by (simp add: serial_not_before_def SERIAL_HALF_RANGE_def)
  with expire_none [OF assms] show ?thesis
    by (auto simp: collecting_def header_prepare_def track_loss_def Let_def split: if_splits)
qed

lemma evict_oldest_single: "as_frames a = [p] \<Longrightarrow> evict_oldest a = a"
  by (simp add: evict_oldest_def MAX_INCOMPLETE_FRAMES_def)

text \<open>The end of \<open>push_header\<close> for an assembly that holds a set of the chunks.\<close>

lemma header_finish:
  assumes cut: "cut_into h ds" and m: "holds ds (collected h ds S) m" and t: "t0 \<le> started"
    and hd: "HeaderArrives h ts \<in> S" and a: "as_orphans a = []"
    and fr: "as_frames a = [(fh_frame_id h, \<lparr>fa_header = h, fa_chunks = m, fa_started = started,
      fa_timestamp_ms = ts, fa_payload_bytes = chunk_bytes m\<rparr>)]"
  shows "moves_on h ts ds t0 S
    (case finish_if_complete (fh_frame_id h) a of
       (a3, Inl e) \<Rightarrow> (a3, Inl e) | (a3, Inr completed) \<Rightarrow> (evict_oldest a3, Inr completed))"
proof -
  have "if collected h ds S = {0..<length ds}
    then snd (finish_if_complete (fh_frame_id h) a) = Inr (Some (completed_frame h ts ds))
    else finish_if_complete (fh_frame_id h) a = (a, Inr None)"
    by (rule finish_collected [OF cut m collected_bounds fr]) simp_all
  moreover have "collecting h ts ds t0 S a"
    using m t hd a fr by (auto simp: collecting_def)
  ultimately show ?thesis
    using hd evict_oldest_single [OF fr]
    by (cases "finish_if_complete (fh_frame_id h) a")
       (auto simp: moves_on_def all_arrived split: if_splits)
qed

lemma header_step:
  assumes cut: "cut_into h ds" and st: "collecting h ts ds t0 S a"
    and now: "t0 \<le> now" "now < t0 + from_secs 1"
  shows "moves_on h ts ds t0 (insert (HeaderArrives h ts) S) (assemble (HeaderArrives h ts) now a)"
proof -
  let ?k = "fh_frame_id h" and ?K = "collected h ds S"
  let ?a1 = "header_prepare h now (a\<lparr>as_completed_started_at := None\<rparr>)"
  note len = cut_into_small [OF cut]
  have ok: "header_ok h" using cut by (simp add: cut_into_def)
  note stages = push_header_stages [OF ok, of ts now a, unfolded Let_def]
  note st1 = header_prepare_collecting [OF st now(2)]
  show ?thesis
  proof (cases "HeaderArrives h ts \<in> S")
    case True
    then obtain m started where m: "holds ds ?K m" "t0 \<le> started" and orph: "as_orphans ?a1 = []"
      and fr: "as_frames ?a1 = [(?k, \<lparr>fa_header = h, fa_chunks = m, fa_started = started,
        fa_timestamp_ms = ts, fa_payload_bytes = chunk_bytes m\<rparr>)]"
      using st1 by (auto simp: collecting_def)
    let ?f = "\<lparr>fa_header = h, fa_chunks = m, fa_started = min started now, fa_timestamp_ms = ts,
      fa_payload_bytes = chunk_bytes m\<rparr>"
    have "header_assembly h ts (header_waiting ?k now ?a1) (map_of (as_frames ?a1) ?k) = Some ?f"
      by (simp add: header_waiting_def orph header_assembly_def fr admit_chunks_def)
    then show ?thesis
      using header_finish [OF cut m(1), of t0 "min started now" ts 
          "?a1\<lparr>as_orphans := [], as_frames := [(?k, ?f)]\<rparr>"]
        stages m(2) now(1) True orph fr
      by (simp add: insert_absorb)
  next
    case False
    then have fr: "as_frames ?a1 = []" using st1 by (simp add: collecting_def)
    have "\<exists>m started. holds ds ?K m \<and> t0 \<le> started \<and> header_waiting ?k now ?a1 = (m, started) \<and>
        AList.delete ?k (as_orphans ?a1) = []"
    proof (cases "?K = {}")
      case True
      with st1 False holds_empty now(1) show ?thesis
        by (intro exI [of _ "[]"] exI [of _ now]) (simp add: collecting_def header_waiting_def)
    next
      case False
      with st1 \<open>HeaderArrives h ts \<notin> S\<close> show ?thesis
        by (auto simp: collecting_def header_waiting_def)
    qed
    then obtain m started where m: "holds ds ?K m" "t0 \<le> started"
      and w: "header_waiting ?k now ?a1 = (m, started)"
      and orph: "AList.delete ?k (as_orphans ?a1) = []" by blast
    let ?f = "\<lparr>fa_header = h, fa_chunks = m, fa_started = started, fa_timestamp_ms = ts,
      fa_payload_bytes = chunk_bytes m\<rparr>"
    have "admit_chunks [] 0 m h = (m, chunk_bytes m)"
      using admit_all [of "[]" m h] holds_chunks_ok [OF cut m(1) collected_bounds]
      by (simp add: chunks_ok_def chunk_bytes_def)
    then have "header_assembly h ts (header_waiting ?k now ?a1) (map_of (as_frames ?a1) ?k) = Some ?f"
      by (simp add: w header_assembly_def fr)
    moreover have "holds ds (collected h ds (insert (HeaderArrives h ts) S)) m" using m(1) by simp
    ultimately show ?thesis
      using header_finish [OF cut, of "insert (HeaderArrives h ts) S" m t0 started ts
          "?a1\<lparr>as_orphans := [], as_frames := [(?k, ?f)]\<rparr>"] stages m(2) orph fr
      by simp
  qed
qed

section \<open>Runs\<close>

lemma arrival_step:
  assumes cut: "cut_into h ds" and st: "collecting h ts ds t0 S a" and e: "e \<in> frame_arrivals h ts ds"
    and now: "t0 \<le> now" "now < t0 + from_secs 1" and lim: "e \<notin> S \<or> length ds < 8192"
  shows "moves_on h ts ds t0 (insert e S) (assemble e now a)"
proof -
  from e consider "e = HeaderArrives h ts"
    | i where "i < length ds" "e = chunk_arrival (fh_frame_id h) ds i"
    by (auto simp: frame_arrivals_def)
  then show ?thesis
  proof cases
    case 1
    then show ?thesis using header_step [OF cut st now] by simp
  next
    case 2
    then have "no_limit ds h S i" using lim by (auto simp: no_limit_def collected_def)
    with 2 show ?thesis
      using chunk_before_header [OF cut st 2(1) _ now] chunk_after_header [OF cut st 2(1) _ now(2)]
      by (cases "HeaderArrives h ts \<in> S") simp_all
  qed
qed

lemma arrivals_run:
  assumes cut: "cut_into h ds"
  shows "collecting h ts ds t0 S a \<Longrightarrow> fst ` set es \<subseteq> frame_arrivals h ts ds \<Longrightarrow>
    \<not> frame_arrivals h ts ds \<subseteq> S \<union> fst ` set es \<Longrightarrow> \<forall>t\<in>snd ` set es. t0 \<le> t \<and> t < t0 + from_secs 1 \<Longrightarrow>
    distinct (map fst es) \<and> S \<inter> fst ` set es = {} \<or> length ds < 8192 \<Longrightarrow>
    snd (assemble_all es a) = replicate (length es) (Inr None) \<and>
    collecting h ts ds t0 (S \<union> fst ` set es) (fst (assemble_all es a))"
proof (induction es arbitrary: a S)
  case (Cons e es)
  obtain a' r where one: "assemble (fst e) (snd e) a = (a', r)" by fastforce
  have "moves_on h ts ds t0 (insert (fst e) S) (assemble (fst e) (snd e) a)"
    using Cons.prems by (intro arrival_step [OF cut Cons.prems(1)]) auto
  moreover have "\<not> frame_arrivals h ts ds \<subseteq> insert (fst e) S" using Cons.prems(3) by auto
  ultimately have "r = Inr None" and st: "collecting h ts ds t0 (insert (fst e) S) a'"
    by (simp_all add: moves_on_def one)
  moreover have "snd (assemble_all es a') = replicate (length es) (Inr None) \<and>
    collecting h ts ds t0 (insert (fst e) S \<union> fst ` set es) (fst (assemble_all es a'))"
    using Cons.prems by (intro Cons.IH [OF st]) auto
  ultimately show ?case
    by (simp add: one Let_def case_prod_unfold)
qed simp

lemma assemble_all_append:
  "assemble_all (xs @ ys) a =
     (let (a', rs) = assemble_all xs a; (a'', rs') = assemble_all ys a' in (a'', rs @ rs'))"
  by (induction xs arbitrary: a) (auto simp: Let_def case_prod_unfold)

section \<open>Properties\<close>

text \<open>C16. Assembly in any order: when a header and the chunks it describes reach an empty
  assembler within the timeout, in any order, with any retransmissions before the last missing
  arrival, that arrival delivers the frame with exactly the bytes that were cut into chunks, and
  every earlier one delivers nothing. (At the cap of 8192 chunks, arrivals are taken without
  duplicates: a duplicate then drops the waiting chunks.)\<close>

theorem frame_any_order:
  assumes cut: "cut_into h ds"
    and arrivals: "insert e (fst ` set es) = frame_arrivals h ts ds" "e \<notin> fst ` set es"
    and times: "\<forall>t\<in>insert now (snd ` set es). t0 \<le> t \<and> t < t0 + from_secs 1"
    and dups: "distinct (map fst es) \<or> length ds < 8192"
  shows "snd (assemble_all (es @ [(e, now)]) assembler_default) =
    replicate (length es) (Inr None) @
    [Inr (Some \<lparr>asf_header = h, asf_data = concat ds, asf_timestamp_ms = ts\<rparr>)]"
proof -
  have "collecting h ts ds t0 {} assembler_default"
    by (simp add: collecting_def collected_def assembler_default_def)
  from arrivals_run [OF cut this, of es] arrivals times dups have
    res: "snd (assemble_all es assembler_default) = replicate (length es) (Inr None)"
    and st: "collecting h ts ds t0 (fst ` set es) (fst (assemble_all es assembler_default))"
    by auto
  have "moves_on h ts ds t0 (insert e (fst ` set es))
      (assemble e now (fst (assemble_all es assembler_default)))"
    using arrivals times by (intro arrival_step [OF cut st]) auto
  with arrivals(1) res show ?thesis
    by (simp add: moves_on_def completed_frame_def assemble_all_append Let_def case_prod_unfold)
qed

definition sample_frame_header :: frame_header where
  "sample_frame_header = \<lparr>fh_frame_id = 5, fh_width = 64, fh_height = 32, fh_is_key_frame = True,
     fh_total_chunks = 2, fh_total_size = 3\<rparr>"

theorem frame_any_order_witness:
  "snd (assemble_all
     [(chunk_arrival 5 [[1, 2], [3]] 1, 10), (HeaderArrives sample_frame_header 9, 20),
      (chunk_arrival 5 [[1, 2], [3]] 0, 30)] assembler_default) =
   [Inr None, Inr None, Inr (Some \<lparr>asf_header = sample_frame_header, asf_data = [1, 2, 3],
     asf_timestamp_ms = 9\<rparr>)]"
proof -
  let ?ds = "[[1, 2], [3]] :: bytes list"
  let ?es = "[(chunk_arrival 5 ?ds 1, 10 :: instant), (HeaderArrives sample_frame_header 9, 20)]"
  have "cut_into sample_frame_header ?ds"
    by (simp add: cut_into_def header_ok_def sample_frame_header_def MAX_CHUNKS_PER_FRAME_def
        MAX_FRAME_BYTES_def word_le_nat_alt)
  moreover have "{0..<length ?ds} = {0, 1}" by auto
  then have "insert (chunk_arrival 5 ?ds 0) (fst ` set ?es) = frame_arrivals sample_frame_header 9 ?ds"
    unfolding frame_arrivals_def by (auto simp: sample_frame_header_def)
  moreover have "chunk_arrival 5 ?ds 0 \<notin> fst ` set ?es"
    by (simp add: chunk_arrival_def)
  ultimately have "snd (assemble_all (?es @ [(chunk_arrival 5 ?ds 0, 30)]) assembler_default) =
      replicate (length ?es) (Inr None) @
      [Inr (Some \<lparr>asf_header = sample_frame_header, asf_data = concat ?ds, asf_timestamp_ms = 9\<rparr>)]"
    by (rule frame_any_order [where ?t0.0 = 10]) simp_all
  then show ?thesis by (simp add: numeral_2_eq_2)
qed

text \<open>C24. Integrity of completed frames: whatever arrives, in whatever order and with whatever
  lies in between, a delivered frame has a valid header that arrived, exactly the size the header
  declares, and one chunk per index that arrived under that very frame id.\<close>

theorem completed_frames_genuine:
  assumes "Inr (Some g) \<in> set (snd (assemble_all es assembler_default))"
  shows "header_ok (asf_header g) \<and>
    HeaderArrives (asf_header g) (asf_timestamp_ms g) \<in> fst ` set es \<and>
    length (asf_data g) = unat (fh_total_size (asf_header g)) \<and>
    (\<exists>ds. length ds = unat (fh_total_chunks (asf_header g)) \<and> asf_data g = concat ds \<and>
       (\<forall>i < length ds. chunk_arrival (fh_frame_id (asf_header g)) ds i \<in> fst ` set es))"
proof -
  have "stored_from (fst ` set es) assembler_default"
    by (simp add: stored_from_def assembler_default_def)
  from assemble_all_genuine [OF assembler_inv_default this _ assms]
  show ?thesis by (simp add: genuine_def arrived_def chunk_arrival_def)
qed

theorem completed_frames_genuine_witness:
  "length (asf_data \<lparr>asf_header = sample_frame_header\<lparr>fh_total_chunks := 1, fh_total_size := 1\<rparr>,
     asf_data = [7], asf_timestamp_ms = 9\<rparr>) = 1"
proof -
  let ?h = "sample_frame_header\<lparr>fh_total_chunks := 1, fh_total_size := 1\<rparr>"
  let ?es = "[(HeaderArrives ?h 9, 20), (ChunkArrives \<lparr>fc_frame_id = 5, fc_chunk_index = 0, fc_data = [7]\<rparr>, 30)]"
  have "snd (assemble_all ?es assembler_default) = [Inr None, Inr (Some
      \<lparr>asf_header = ?h, asf_data = [7], asf_timestamp_ms = 9\<rparr>)]"
    by (simp add: push_header_def push_chunk_def header_prepare_def header_waiting_def
        header_assembly_def finish_if_complete_def assembly_complete_def evict_oldest_def
        assembler_default_def expire_def track_loss_def admit_chunks_def add_chunk_def
        contains_key_def trim_loss.simps sample_frame_header_def ASSEMBLY_TIMEOUT_def
        MAX_CHUNKS_PER_FRAME_def MAX_FRAME_BYTES_def MAX_INCOMPLETE_FRAMES_def MAX_LOSS_SAMPLES_def
        extend_from_slice_def word_le_nat_alt word_less_nat_alt Let_def)
  then have "Inr (Some \<lparr>asf_header = ?h, asf_data = [7], asf_timestamp_ms = 9\<rparr>) \<in>
      set (snd (assemble_all ?es assembler_default))" by simp
  from completed_frames_genuine [OF this] show ?thesis by simp
qed

text \<open>Memory bound of the assembler: whatever arrives, at most 16 frames are under assembly and
  at most 16 ids wait for a header; a frame under assembly holds fewer chunks than it declares,
  at most 8191, and no more bytes than it declares, at most 32 MiB; a waiting id holds at most 8192
  chunks.\<close>

theorem assembler_bounded:
  "(let a = fst (assemble_all es assembler_default)
    in length (as_frames a) \<le> 16 \<and> length (as_orphans a) \<le> 16 \<and>
       (\<forall>(k, f)\<in>set (as_frames a). length (fa_chunks f) \<le> 8191 \<and>
          chunk_bytes (fa_chunks f) \<le> unat (fh_total_size (fa_header f)) \<and>
          unat (fh_total_size (fa_header f)) \<le> 32 * 1024 * 1024) \<and>
       (\<forall>(k, r)\<in>set (as_orphans a). length (oa_chunks r) \<le> 8192))"
proof -
  let ?a = "fst (assemble_all es assembler_default)"
  have inv: "assembler_inv ?a" by (rule assemble_all_inv [OF assembler_inv_default])
  have frames: "length (fa_chunks f) \<le> 8191 \<and>
      chunk_bytes (fa_chunks f) \<le> unat (fh_total_size (fa_header f)) \<and>
      unat (fh_total_size (fa_header f)) \<le> 32 * 1024 * 1024" if "(k, f) \<in> set (as_frames ?a)" for k f
  proof -
    from inv that have ok: "assembly_ok k f" "\<not> assembly_complete f"
      by (auto simp: assembler_inv_def)
    then have "length (fa_chunks f) \<le> unat (fh_total_chunks (fa_header f))"
      by (intro chunk_map_length) (auto simp: assembly_ok_def chunks_ok_def)
    with ok show ?thesis
      by (auto simp: assembly_ok_def chunks_ok_def header_ok_def assembly_complete_def
          word_le_nat_alt MAX_CHUNKS_PER_FRAME_def MAX_FRAME_BYTES_def)
  qed
  have orphans: "length (oa_chunks r) \<le> 8192" if "(k, r) \<in> set (as_orphans ?a)" for k r
  proof -
    from inv that have "orphan_ok r" by (auto simp: assembler_inv_def)
    then have "length (oa_chunks r) \<le> unat MAX_CHUNKS_PER_FRAME"
      by (intro chunk_map_length) (auto simp: orphan_ok_def)
    then show ?thesis by (simp add: MAX_CHUNKS_PER_FRAME_def)
  qed
  show ?thesis
    using inv frames orphans
    by (auto simp: Let_def assembler_inv_def MAX_INCOMPLETE_FRAMES_def MAX_ORPHAN_FRAMES_def)
qed

theorem assembler_bounded_witness:
  "length (as_frames (fst (assemble_all [(HeaderArrives sample_frame_header 9, 20)] assembler_default))) \<le> 16"
  using assembler_bounded [of "[(HeaderArrives sample_frame_header 9, 20)]"] by (simp only: Let_def)

end
