(* ===== verification/Frame_Queue.thy ===== *)
theory Frame_Queue
  imports Frame_Assembler
begin

text \<open>
  The bounded queue between the receiver and the decoder, \<open>maho-app/src/frame_queue.rs\<close>: frames
  are admitted in serial order, a gap or an overflow empties the queue and waits for a key frame.

  The mutex serialises the operations, so they are the atomic steps of \<open>queue_step\<close>; a blocked
  \<open>recv\<close> is a step that is not enabled yet. Lock poisoning and the trace are left out. The
  properties hold in every interleaving of producers, the decoder and \<open>stop\<close>.
\<close>

definition FRAME_QUEUE_CAPACITY :: usize where "FRAME_QUEUE_CAPACITY = 4"

type_synonym queued_frame = "assembled_frame \<times> instant"

abbreviation frame_key :: "queued_frame \<Rightarrow> bool" where
  "frame_key frame \<equiv> fh_is_key_frame (asf_header (fst frame))"

abbreviation frame_id :: "queued_frame \<Rightarrow> u32" where
  "frame_id frame \<equiv> fh_frame_id (asf_header (fst frame))"

record frame_queue =
  fq_frames :: "queued_frame list"
  fq_last_frame_id :: "u32 option"
  fq_recovering :: bool
  fq_stopped :: bool

definition frame_queue_new :: frame_queue where
  "frame_queue_new = \<lparr>fq_frames = [], fq_last_frame_id = None, fq_recovering = False, fq_stopped = False\<rparr>"

text \<open>\<open>push\<close> returns \<open>None\<close> for the error of a stopped queue, else whether a key frame is wanted.\<close>

definition queue_push :: "queued_frame \<Rightarrow> frame_queue \<Rightarrow> frame_queue \<times> bool option" where
  "queue_push frame q =
     (if fq_stopped q then (q, None)
      else
      let key = frame_key frame;
          fid = frame_id frame;
          late = (case fq_last_frame_id q of
                    None \<Rightarrow> False
                  | Some prev \<Rightarrow> let advance = fid - prev in advance = 0 \<or> advance \<ge> push_bit 31 1);
          discontinuity = (case fq_last_frame_id q of
                             None \<Rightarrow> False | Some prev \<Rightarrow> fid - prev \<noteq> 1)
      in if late then (q, Some False)
         else
         let q = q\<lparr>fq_last_frame_id := Some fid\<rparr>;
             (q, request_keyframe) =
               (if discontinuity \<or> length (fq_frames q) = FRAME_QUEUE_CAPACITY
                then (q\<lparr>fq_frames := [], fq_recovering := True\<rparr>, \<not> fq_recovering q \<and> \<not> key)
                else (q, False))
         in if fq_recovering q \<and> \<not> key then (q, Some request_keyframe)
            else (q\<lparr>fq_recovering := False, fq_frames := fq_frames q @ [frame]\<rparr>, Some request_keyframe))"

datatype recv_result = Received queued_frame | RecvTimeout | RecvDisconnected

text \<open>What \<open>recv_timeout\<close> does once its wait is over, and when \<open>recv\<close> may go on at all.\<close>

definition queue_recv_timeout :: "frame_queue \<Rightarrow> frame_queue \<times> recv_result" where
  "queue_recv_timeout q =
     (if fq_stopped q then (q, RecvDisconnected)
      else case fq_frames q of
             [] \<Rightarrow> (q, RecvTimeout)
           | frame # frames \<Rightarrow> (q\<lparr>fq_frames := frames\<rparr>, Received frame))"

definition recv_ready :: "frame_queue \<Rightarrow> bool" where
  "recv_ready q \<longleftrightarrow> \<not> (fq_frames q = [] \<and> \<not> fq_stopped q)"

definition queue_recv :: "frame_queue \<Rightarrow> frame_queue \<times> recv_result" where
  "queue_recv q =
     (if fq_stopped q then (q, RecvDisconnected)
      else case fq_frames q of
             [] \<Rightarrow> (q, RecvDisconnected)
           | frame # frames \<Rightarrow> (q\<lparr>fq_frames := frames\<rparr>, Received frame))"

definition queue_decode_failed :: "frame_queue \<Rightarrow> frame_queue \<times> bool" where
  "queue_decode_failed q =
     (if fq_stopped q then (q, False)
      else if list_ex frame_key (fq_frames q)
      then (q\<lparr>fq_frames := dropWhile (\<lambda>frame. \<not> frame_key frame) (fq_frames q),
              fq_recovering := False\<rparr>, False)
      else (q\<lparr>fq_frames := [], fq_recovering := True\<rparr>, \<not> fq_recovering q))"

definition queue_stop :: "frame_queue \<Rightarrow> frame_queue" where
  "queue_stop q = q\<lparr>fq_stopped := True, fq_frames := []\<rparr>"

section \<open>Steps\<close>

datatype queue_event =
    Pushed queued_frame "bool option"
  | Got recv_result
  | DecodeFailed bool
  | Stopped

inductive queue_step :: "frame_queue \<Rightarrow> queue_event \<Rightarrow> frame_queue \<Rightarrow> bool" where
  push: "queue_push frame q = (q', r) \<Longrightarrow> queue_step q (Pushed frame r) q'"
| recv_timeout: "queue_recv_timeout q = (q', r) \<Longrightarrow> queue_step q (Got r) q'"
| recv: "recv_ready q \<Longrightarrow> queue_recv q = (q', r) \<Longrightarrow> queue_step q (Got r) q'"
| decode_failed: "queue_decode_failed q = (q', r) \<Longrightarrow> queue_step q (DecodeFailed r) q'"
| stop: "queue_step q Stopped (queue_stop q)"

code_pred queue_step .

text \<open>A run from the new queue, with its events in order.\<close>

inductive queue_run :: "queue_event list \<Rightarrow> frame_queue \<Rightarrow> bool" where
  start: "queue_run [] frame_queue_new"
| more: "queue_run es q \<Longrightarrow> queue_step q e q' \<Longrightarrow> queue_run (es @ [e]) q'"

inductive_cases queue_stepE: "queue_step q e q'"

fun delivered :: "queue_event list \<Rightarrow> queued_frame list" where
  "delivered [] = []"
| "delivered (Got (Received frame) # es) = frame # delivered es"
| "delivered (_ # es) = delivered es"

fun wants_key :: "queue_event \<Rightarrow> bool" where
  "wants_key (Pushed _ (Some b)) = b"
| "wants_key (DecodeFailed b) = b"
| "wants_key _ = False"

lemma delivered_append [simp]: "delivered (es @ fs) = delivered es @ delivered fs"
  by (induction es rule: delivered.induct) auto

text \<open>The chain relation: a frame may follow another in the decoder when it is a key frame or the
  next one in serial order.\<close>

definition follows :: "queued_frame \<Rightarrow> queued_frame \<Rightarrow> bool" where
  "follows f g \<longleftrightarrow> frame_key g \<or> frame_id g = frame_id f + 1"

definition chained :: "queued_frame list \<Rightarrow> bool" where
  "chained fs \<longleftrightarrow> (\<forall>i. Suc i < length fs \<longrightarrow> follows (fs ! i) (fs ! Suc i))"

definition consecutive :: "queued_frame list \<Rightarrow> bool" where
  "consecutive fs \<longleftrightarrow> (\<forall>i. Suc i < length fs \<longrightarrow> frame_id (fs ! Suc i) = frame_id (fs ! i) + 1)"

lemma chained_simps [simp]: "chained []" "chained [f]"
  by (simp_all add: chained_def)

lemma consecutive_simps [simp]: "consecutive []" "consecutive [f]"
  by (simp_all add: consecutive_def)

lemma chained_snoc: "chained (fs @ [f]) \<longleftrightarrow> chained fs \<and> (fs \<noteq> [] \<longrightarrow> follows (last fs) f)"
proof (cases fs rule: rev_cases)
  case (snoc gs g)
  then show ?thesis
    by (auto simp: chained_def nth_append less_Suc_eq split: if_splits)
qed simp

lemma consecutive_snoc:
  "consecutive (fs @ [f]) \<longleftrightarrow> consecutive fs \<and> (fs \<noteq> [] \<longrightarrow> frame_id f = frame_id (last fs) + 1)"
proof (cases fs rule: rev_cases)
  case (snoc gs g)
  then show ?thesis
    by (auto simp: consecutive_def nth_append less_Suc_eq split: if_splits)
qed simp

lemma consecutive_Cons:
  "consecutive (f # fs) \<Longrightarrow> consecutive fs \<and> (fs \<noteq> [] \<longrightarrow> frame_id (hd fs) = frame_id f + 1)"
  by (auto simp: consecutive_def hd_conv_nth)

lemma consecutive_append: "consecutive (fs @ gs) \<Longrightarrow> consecutive gs"
  by (induction fs) (auto dest: consecutive_Cons)

section \<open>The invariant\<close>

text \<open>The last component links the queue to what was delivered: the head of the queue may follow
  the last delivered frame, and an empty queue that is not recovering is up to date with it.\<close>

definition queue_inv :: "queued_frame list \<Rightarrow> frame_queue \<Rightarrow> bool" where
  "queue_inv ds q \<longleftrightarrow>
     length (fq_frames q) \<le> FRAME_QUEUE_CAPACITY \<and> consecutive (fq_frames q) \<and>
     (fq_recovering q \<longrightarrow> fq_frames q = []) \<and> (fq_stopped q \<longrightarrow> fq_frames q = []) \<and>
     (fq_frames q \<noteq> [] \<longrightarrow> fq_last_frame_id q = Some (frame_id (last (fq_frames q)))) \<and>
     chained ds \<and>
     (ds \<noteq> [] \<and> \<not> fq_stopped q \<longrightarrow>
        (if fq_frames q \<noteq> [] then follows (last ds) (hd (fq_frames q))
         else fq_recovering q \<or> fq_last_frame_id q = Some (frame_id (last ds))))"

lemma queue_inv_new: "queue_inv [] frame_queue_new"
  by (simp add: queue_inv_def frame_queue_new_def)

text \<open>The outcomes of \<open>push\<close>, one per branch.\<close>

definition is_late :: "frame_queue \<Rightarrow> queued_frame \<Rightarrow> bool" where
  "is_late q f \<longleftrightarrow> (case fq_last_frame_id q of None \<Rightarrow> False
     | Some prev \<Rightarrow> frame_id f - prev = 0 \<or> frame_id f - prev \<ge> push_bit 31 1)"

definition breaks_chain :: "frame_queue \<Rightarrow> queued_frame \<Rightarrow> bool" where
  "breaks_chain q f \<longleftrightarrow> (case fq_last_frame_id q of None \<Rightarrow> False | Some prev \<Rightarrow> frame_id f - prev \<noteq> 1) \<or>
     length (fq_frames q) = FRAME_QUEUE_CAPACITY"

lemma queue_push_eq:
  "queue_push f q =
     (if fq_stopped q then (q, None)
      else if is_late q f then (q, Some False)
      else if breaks_chain q f then
        (q\<lparr>fq_last_frame_id := Some (frame_id f), fq_frames := (if frame_key f then [f] else []),
           fq_recovering := \<not> frame_key f\<rparr>, Some (\<not> fq_recovering q \<and> \<not> frame_key f))
      else if fq_recovering q \<and> \<not> frame_key f then
        (q\<lparr>fq_last_frame_id := Some (frame_id f)\<rparr>, Some False)
      else (q\<lparr>fq_last_frame_id := Some (frame_id f), fq_recovering := False,
              fq_frames := fq_frames q @ [f]\<rparr>, Some False))"
  unfolding queue_push_def is_late_def breaks_chain_def Let_def
  by (cases "fq_last_frame_id q") auto

lemma push_inv:
  assumes inv: "queue_inv ds q" and run: "queue_push f q = (q', r)"
  shows "queue_inv ds q'"
proof (cases "fq_stopped q \<or> is_late q f")
  case True
  then have "q' = q" using run by (auto simp: queue_push_eq split: if_splits)
  with inv show ?thesis by simp
next
  case run_on: False
  show ?thesis
  proof (cases "breaks_chain q f \<or> fq_recovering q \<and> \<not> frame_key f")
    case True
    then show ?thesis
      using inv run run_on
      by (cases "breaks_chain q f"; cases "frame_key f")
         (auto simp: queue_push_eq queue_inv_def follows_def FRAME_QUEUE_CAPACITY_def)
  next
    case admit: False
    then have q': "q' = q\<lparr>fq_last_frame_id := Some (frame_id f), fq_recovering := False,
        fq_frames := fq_frames q @ [f]\<rparr>"
      using run run_on by (simp add: queue_push_eq split: if_splits)
    have succ: "frame_id f = prev + 1" if "fq_last_frame_id q = Some prev" for prev
      using admit that by (simp add: breaks_chain_def) (metis add.commute diff_add_cancel)
    have "length (fq_frames q) < FRAME_QUEUE_CAPACITY"
      using inv admit by (auto simp: queue_inv_def breaks_chain_def)
    moreover have "consecutive (fq_frames q @ [f])"
      using inv succ by (auto simp: queue_inv_def consecutive_snoc)
    moreover have "follows (last ds) (hd (fq_frames q @ [f]))" if "ds \<noteq> []"
    proof (cases "fq_frames q = []")
      case True
      with inv that admit run_on succ [of "frame_id (last ds)"] show ?thesis
        by (auto simp: queue_inv_def follows_def)
    next
      case False
      with inv that run_on show ?thesis by (simp add: queue_inv_def)
    qed
    ultimately show ?thesis
      using inv run_on by (auto simp: queue_inv_def q')
  qed
qed

lemma pop_inv:
  assumes "queue_inv ds q" and "\<not> fq_stopped q" and "fq_frames q = f # fs"
  shows "queue_inv (ds @ [f]) (q\<lparr>fq_frames := fs\<rparr>)"
  using assms consecutive_Cons [of f fs]
  by (auto simp: queue_inv_def chained_snoc follows_def split: if_splits)

lemma decode_failed_inv:
  assumes inv: "queue_inv ds q" and run: "queue_decode_failed q = (q', r)"
  shows "queue_inv ds q'"
proof (cases "\<not> fq_stopped q \<and> list_ex frame_key (fq_frames q)")
  case True
  let ?gs = "dropWhile (\<lambda>frame. \<not> frame_key frame) (fq_frames q)"
  from True have gs: "?gs \<noteq> []" by (auto simp: list_ex_iff)
  have key: "frame_key (hd ?gs)" using hd_dropWhile [OF gs] by simp
  have "last (fq_frames q) = last ?gs"
    using last_appendR [OF gs, of "takeWhile (\<lambda>frame. \<not> frame_key frame) (fq_frames q)"] by simp
  moreover have "consecutive ?gs"
  proof (rule consecutive_append)
    show "consecutive (takeWhile (\<lambda>frame. \<not> frame_key frame) (fq_frames q) @ ?gs)"
      using inv unfolding takeWhile_dropWhile_id by (simp add: queue_inv_def)
  qed
  moreover have "length ?gs \<le> length (fq_frames q)" by (rule length_dropWhile_le)
  moreover have "q' = q\<lparr>fq_frames := ?gs, fq_recovering := False\<rparr>"
    using run True by (simp add: queue_decode_failed_def)
  ultimately show ?thesis
    using inv gs key by (auto simp: queue_inv_def follows_def)
next
  case False
  then have "q' = q \<or> q' = q\<lparr>fq_frames := [], fq_recovering := True\<rparr>"
    using run by (auto simp: queue_decode_failed_def split: if_splits)
  with inv show ?thesis by (auto simp: queue_inv_def)
qed

lemma step_inv: "queue_step q e q' \<Longrightarrow> queue_inv ds q \<Longrightarrow> queue_inv (ds @ delivered [e]) q'"
proof (induction rule: queue_step.induct)
  case (push f q q' r)
  then show ?case using push_inv by simp
next
  case (recv_timeout q q' r)
  then show ?case
    by (cases "fq_frames q"; cases "fq_stopped q") (auto simp: queue_recv_timeout_def intro: pop_inv)
next
  case (recv q q' r)
  then show ?case
    by (cases "fq_frames q"; cases "fq_stopped q") (auto simp: queue_recv_def intro: pop_inv)
next
  case (decode_failed q q' r)
  then show ?case using decode_failed_inv by simp
next
  case (stop q)
  then show ?case by (auto simp: queue_inv_def queue_stop_def)
qed

lemma run_inv: "queue_run es q \<Longrightarrow> queue_inv (delivered es) q"
  by (induction rule: queue_run.induct) (simp_all add: queue_inv_new step_inv)

text \<open>A recovering queue stays so until it takes a key frame.\<close>

lemma wants_key_step: "queue_step q e q' \<Longrightarrow> wants_key e \<Longrightarrow> \<not> fq_recovering q \<and> fq_recovering q'"
  by (induction rule: queue_step.induct)
     (auto simp: queue_push_eq queue_decode_failed_def split: if_splits)

lemma recovering_step:
  assumes "queue_step q e q'" and "fq_recovering q" and "\<not> fq_recovering q'" and "queue_inv ds q"
  shows "\<exists>f r. e = Pushed f r \<and> frame_key f \<and> fq_frames q' = [f]"
  using assms
proof (induction rule: queue_step.induct)
  case (push f q q' r)
  then have "fq_frames q = []" by (simp add: queue_inv_def)
  with push show ?case
    by (auto simp: queue_push_eq split: if_splits)
qed (auto simp: queue_recv_timeout_def queue_recv_def queue_decode_failed_def queue_stop_def
    queue_inv_def split: if_splits list.splits)

section \<open>Properties\<close>

text \<open>C25. The decoder's input is a chain: in every interleaving of pushes, receives, decode
  failures and stops, each delivered frame is a key frame or the serial successor, across the
  wrap of the 32-bit ids, of the frame delivered before it.\<close>

theorem delivered_chained:
  assumes "queue_run es q"
  shows "\<forall>i. Suc i < length (delivered es) \<longrightarrow>
    frame_key (delivered es ! Suc i) \<or>
    frame_id (delivered es ! Suc i) = frame_id (delivered es ! i) + 1"
  using run_inv [OF assms] by (simp add: queue_inv_def chained_def follows_def)

definition sample_queued :: "u32 \<Rightarrow> bool \<Rightarrow> queued_frame" where
  "sample_queued fid key =
     (\<lparr>asf_header = \<lparr>fh_frame_id = fid, fh_width = 1, fh_height = 1, fh_is_key_frame = key,
        fh_total_chunks = 1, fh_total_size = 1\<rparr>, asf_data = [0], asf_timestamp_ms = 0\<rparr>, 0)"

text \<open>A run across the wrap of the ids: two frames are delivered, then a gap starts a recovery.\<close>

lemma sample_run:
  "queue_run [Pushed (sample_queued (- 1) False) (Some False), Pushed (sample_queued 0 False) (Some False),
     Got (Received (sample_queued (- 1) False)), Got (Received (sample_queued 0 False)),
     Pushed (sample_queued 2 False) (Some True)]
   \<lparr>fq_frames = [], fq_last_frame_id = Some 2, fq_recovering = True, fq_stopped = False\<rparr>"
proof -
  let ?q = "\<lambda>fs l. \<lparr>fq_frames = fs, fq_last_frame_id = Some l, fq_recovering = False, fq_stopped = False\<rparr>"
  let ?a = "sample_queued (- 1) False" and ?b = "sample_queued 0 False"
  note push_simps = queue_push_eq frame_queue_new_def is_late_def breaks_chain_def sample_queued_def
    FRAME_QUEUE_CAPACITY_def word_le_nat_alt
  have "queue_push ?a frame_queue_new = (?q [?a] (- 1), Some False)" by (simp add: push_simps)
  from queue_run.more [OF queue_run.start queue_step.push [OF this]]
  have r1: "queue_run [Pushed ?a (Some False)] (?q [?a] (- 1))" by simp
  have "queue_push ?b (?q [?a] (- 1)) = (?q [?a, ?b] 0, Some False)" by (simp add: push_simps)
  from queue_run.more [OF r1 queue_step.push [OF this]]
  have r2: "queue_run [Pushed ?a (Some False), Pushed ?b (Some False)] (?q [?a, ?b] 0)" by simp
  have "queue_recv_timeout (?q [?a, ?b] 0) = (?q [?b] 0, Received ?a)"
    by (simp add: queue_recv_timeout_def)
  from queue_run.more [OF r2 queue_step.recv_timeout [OF this]]
  have r3: "queue_run [Pushed ?a (Some False), Pushed ?b (Some False), Got (Received ?a)] (?q [?b] 0)" by simp
  have "queue_recv_timeout (?q [?b] 0) = (?q [] 0, Received ?b)"
    by (simp add: queue_recv_timeout_def)
  from queue_run.more [OF r3 queue_step.recv_timeout [OF this]]
  have r4: "queue_run [Pushed ?a (Some False), Pushed ?b (Some False), Got (Received ?a), Got (Received ?b)]
    (?q [] 0)" by simp
  have "queue_push (sample_queued 2 False) (?q [] 0) =
      (\<lparr>fq_frames = [], fq_last_frame_id = Some 2, fq_recovering = True, fq_stopped = False\<rparr>, Some True)"
    by (simp add: push_simps)
  from queue_run.more [OF r4 queue_step.push [OF this]] show ?thesis by simp
qed

theorem delivered_chained_witness:
  "frame_id (sample_queued 0 False) = frame_id (sample_queued (- 1) False) + 1 \<and>
   \<not> frame_key (sample_queued 0 False)"
proof -
  have "\<not> frame_key (sample_queued 0 False)" by (simp add: sample_queued_def)
  moreover from delivered_chained [OF sample_run]
  have "frame_key (sample_queued 0 False) \<or>
      frame_id (sample_queued 0 False) = frame_id (sample_queued (- 1) False) + 1"
    by simp
  ultimately show ?thesis by blast
qed

text \<open>Queue invariant: in every reachable state at most four frames are pending, with
  consecutive ids, the last of which is the last one admitted, and a recovering or stopped queue is
  empty.\<close>

theorem queue_bounded:
  assumes "queue_run es q"
  shows "length (fq_frames q) \<le> 4 \<and>
    (\<forall>i. Suc i < length (fq_frames q) \<longrightarrow>
       frame_id (fq_frames q ! Suc i) = frame_id (fq_frames q ! i) + 1) \<and>
    (fq_recovering q \<or> fq_stopped q \<longrightarrow> fq_frames q = []) \<and>
    (fq_frames q \<noteq> [] \<longrightarrow> fq_last_frame_id q = Some (frame_id (last (fq_frames q))))"
  using run_inv [OF assms] by (auto simp: queue_inv_def consecutive_def FRAME_QUEUE_CAPACITY_def)

theorem queue_bounded_witness:
  "fq_frames \<lparr>fq_frames = [], fq_last_frame_id = Some 2, fq_recovering = True, fq_stopped = False\<rparr> = []"
  using queue_bounded [OF sample_run] by simp

text \<open>One key frame request per recovery: an event that asks for a key frame starts a
  recovery, and a reachable recovering queue leaves it by one event only, the admission of a key
  frame, which is then the only pending frame; so no second request is made before a key frame has
  arrived.\<close>

theorem one_request_per_recovery:
  assumes "queue_run es q" and "queue_step q e q'"
  shows "(wants_key e \<longrightarrow> \<not> fq_recovering q \<and> fq_recovering q') \<and>
    (fq_recovering q \<and> \<not> fq_recovering q' \<longrightarrow>
       (\<exists>f r. e = Pushed f r \<and> frame_key f \<and> fq_frames q' = [f]))"
  using wants_key_step [OF assms(2)] recovering_step [OF assms(2) _ _ run_inv [OF assms(1)]] by blast

theorem one_request_per_recovery_witness:
  "\<exists>q'. queue_step \<lparr>fq_frames = [], fq_last_frame_id = Some 2, fq_recovering = True, fq_stopped = False\<rparr>
     (Pushed (sample_queued 12 True) (Some False)) q' \<and> fq_frames q' = [sample_queued 12 True]"
proof -
  let ?q = "\<lparr>fq_frames = [], fq_last_frame_id = Some 2, fq_recovering = True, fq_stopped = False\<rparr>"
  let ?q' = "\<lparr>fq_frames = [sample_queued 12 True], fq_last_frame_id = Some 12, fq_recovering = False,
    fq_stopped = False\<rparr>"
  have "queue_push (sample_queued 12 True) ?q = (?q', Some False)"
    by (simp add: queue_push_eq is_late_def breaks_chain_def sample_queued_def word_le_nat_alt)
  then have step: "queue_step ?q (Pushed (sample_queued 12 True) (Some False)) ?q'"
    by (rule queue_step.push)
  from one_request_per_recovery [OF sample_run step] have "fq_frames ?q' = [sample_queued 12 True]"
    by simp
  with step show ?thesis by blast
qed

end
