(* ===== verification/Audio_Reassembly.thy ===== *)
theory Audio_Reassembly
  imports Media_Wire Chunk_Sets
begin

text \<open>
  The client's audio reassembler, \<open>maho-app/src/audio.rs\<close>: fragments of one audio frame are
  collected until all are there; a fragment of a newer frame discards what is incomplete.

  The section on the invariant shows that at most one frame is ever pending, and that a frame's
  fragments deliver exactly its bytes whatever their order.
\<close>

definition MAX_PENDING_AUDIO_FRAMES :: usize where "MAX_PENDING_AUDIO_FRAMES = 64"

type_synonym fragment_map = "(u16, bytes) btree_map"

record pending_audio_frame =
  pa_fragment_count :: u16
  pa_fragments :: fragment_map

record audio_reassembler =
  ar_pending :: "(u32, pending_audio_frame) hash_map"
  ar_newest_frame_id :: "u32 option"
  ar_skipped_frames :: u64

definition audio_reassembler_default :: audio_reassembler where
  "audio_reassembler_default = \<lparr>ar_pending = [], ar_newest_frame_id = None, ar_skipped_frames = 0\<rparr>"

definition skip_incomplete_before :: "u32 \<Rightarrow> audio_reassembler \<Rightarrow> audio_reassembler" where
  "skip_incomplete_before frame_id r =
     (let kept = filter (\<lambda>(k, _). frame_id \<le> k) (ar_pending r)
      in r\<lparr>ar_pending := kept,
           ar_skipped_frames := ar_skipped_frames r + word_of_nat (length (ar_pending r) - length kept)\<rparr>)"

text \<open>The copy loop: a missing fragment ends the call with \<open>None\<close>.\<close>

primrec collect_fragments :: "fragment_map \<Rightarrow> nat list \<Rightarrow> bytes \<Rightarrow> bytes option" where
  "collect_fragments fragments [] assembled = Some assembled"
| "collect_fragments fragments (i # is) assembled =
     (case map_of fragments (word_of_nat i) of
        None \<Rightarrow> None
      | Some d \<Rightarrow> collect_fragments fragments is (assembled @ d))"

definition audio_push :: "audio_fragment \<Rightarrow> audio_reassembler \<Rightarrow> audio_reassembler \<times> bytes option" where
  "audio_push fragment r =
     (let header = af_header fragment; frame_id = ah_frame_id header
      in if (\<exists>newest. ar_newest_frame_id r = Some newest \<and> frame_id < newest) then (r, None)
         else
         let r = (if \<forall>newest. ar_newest_frame_id r = Some newest \<longrightarrow> frame_id > newest
                  then (skip_incomplete_before frame_id r)\<lparr>ar_newest_frame_id := Some frame_id\<rparr> else r)
         in if ah_fragment_count header = 1
            then (r\<lparr>ar_pending := AList.delete frame_id (ar_pending r)\<rparr>, Some (af_data fragment))
            else
            let entry = (case map_of (ar_pending r) frame_id of
                           Some entry \<Rightarrow> entry
                         | None \<Rightarrow> \<lparr>pa_fragment_count = ah_fragment_count header, pa_fragments = []\<rparr>)
            in if pa_fragment_count entry \<noteq> ah_fragment_count header
               then (r\<lparr>ar_pending := AList.delete frame_id (ar_pending r),
                       ar_skipped_frames := ar_skipped_frames r + 1\<rparr>, None)
               else
               let entry = entry\<lparr>pa_fragments :=
                     btree_or_insert (ah_fragment_index header) (af_data fragment) (pa_fragments entry)\<rparr>
               in if length (pa_fragments entry) = unat (pa_fragment_count entry)
                  then (r\<lparr>ar_pending := AList.delete frame_id (ar_pending r)\<rparr>,
                        collect_fragments (pa_fragments entry) [0..<unat (pa_fragment_count entry)] [])
                  else
                  let r = r\<lparr>ar_pending := AList.update frame_id entry (ar_pending r)\<rparr>
                  in if length (ar_pending r) > MAX_PENDING_AUDIO_FRAMES
                     then (case min_key_by (\<lambda>k _. k) (ar_pending r) of
                             None \<Rightarrow> (r, None)
                           | Some oldest \<Rightarrow>
                               (r\<lparr>ar_pending := AList.delete oldest (ar_pending r),
                                  ar_skipped_frames := ar_skipped_frames r + 1\<rparr>, None))
                     else (r, None))"

definition audio_clear :: "audio_reassembler \<Rightarrow> audio_reassembler" where
  "audio_clear r = r\<lparr>ar_pending := [], ar_newest_frame_id := None\<rparr>"

definition pending_frames :: "audio_reassembler \<Rightarrow> nat" where
  "pending_frames r = length (ar_pending r)"

section \<open>At most one frame is pending\<close>

text \<open>Whatever is pending belongs to the newest frame, so the cap of 64 frames is never reached.\<close>

definition audio_inv :: "audio_reassembler \<Rightarrow> bool" where
  "audio_inv r \<longleftrightarrow> (\<forall>k\<in>fst ` set (ar_pending r). ar_newest_frame_id r = Some k) \<and>
     length (ar_pending r) \<le> 1 \<and> (\<forall>(k, e)\<in>set (ar_pending r). btree_sorted (pa_fragments e))"

lemma audio_inv_default [simp]: "audio_inv audio_reassembler_default"
  by (simp add: audio_inv_def audio_reassembler_default_def)

lemma audio_inv_pending:
  assumes "audio_inv r"
  shows "ar_pending r = [] \<or>
    (\<exists>k e. ar_pending r = [(k, e)] \<and> ar_newest_frame_id r = Some k \<and> btree_sorted (pa_fragments e))"
  using assms by (cases "ar_pending r") (auto simp: audio_inv_def)

text \<open>The branch of a multi-fragment frame, with the state after newer audio was taken note of.\<close>

definition noted :: "u32 \<Rightarrow> audio_reassembler \<Rightarrow> audio_reassembler" where
  "noted frame_id r =
     (if ar_newest_frame_id r = Some frame_id then r
      else r\<lparr>ar_pending := [],
             ar_skipped_frames := ar_skipped_frames r + word_of_nat (length (ar_pending r)),
             ar_newest_frame_id := Some frame_id\<rparr>)"

definition pending_fragments :: "u32 \<Rightarrow> u16 \<Rightarrow> audio_reassembler \<Rightarrow> pending_audio_frame" where
  "pending_fragments frame_id count r =
     (case ar_pending (noted frame_id r) of
        [(k, e)] \<Rightarrow> e | _ \<Rightarrow> \<lparr>pa_fragment_count = count, pa_fragments = []\<rparr>)"

lemma noted_inv:
  assumes "audio_inv r"
  shows "ar_pending (noted f r) = [] \<or>
    (\<exists>e. ar_pending (noted f r) = [(f, e)] \<and> btree_sorted (pa_fragments e))"
    and "ar_newest_frame_id (noted f r) = Some f"
  using audio_inv_pending [OF assms] by (auto simp: noted_def)

lemma audio_push_note:
  assumes "audio_inv r" and "\<not> (\<exists>newest. ar_newest_frame_id r = Some newest \<and> f < newest)"
  shows "(if \<forall>newest. ar_newest_frame_id r = Some newest \<longrightarrow> f > newest
      then (skip_incomplete_before f r)\<lparr>ar_newest_frame_id := Some f\<rparr> else r) = noted f r"
  using audio_inv_pending [OF assms(1)] assms(2)
  by (auto simp: noted_def skip_incomplete_before_def Let_def not_less split: if_splits)

lemma audio_push_eq:
  assumes inv: "audio_inv r"
  shows "audio_push fragment r =
    (let header = af_header fragment; f = ah_frame_id header; count = ah_fragment_count header;
         e = pending_fragments f count r;
         m = btree_or_insert (ah_fragment_index header) (af_data fragment) (pa_fragments e);
         empty = (noted f r)\<lparr>ar_pending := []\<rparr>
     in if \<exists>newest. ar_newest_frame_id r = Some newest \<and> f < newest then (r, None)
        else if count = 1 then (empty, Some (af_data fragment))
        else if pa_fragment_count e \<noteq> count
        then (empty\<lparr>ar_skipped_frames := ar_skipped_frames (noted f r) + 1\<rparr>, None)
        else if length m = unat count then (empty, collect_fragments m [0..<unat count] [])
        else (empty\<lparr>ar_pending := [(f, e\<lparr>pa_fragments := m\<rparr>)]\<rparr>, None))"
proof (cases "\<exists>newest. ar_newest_frame_id r = Some newest \<and> ah_frame_id (af_header fragment) < newest")
  case True
  then show ?thesis by (simp add: audio_push_def Let_def)
next
  case False
  let ?f = "ah_frame_id (af_header fragment)"
  note older = False
  note note_eq = audio_push_note [OF inv older]
  show ?thesis
  proof (cases "ar_pending (noted ?f r) = []")
    case True
    then show ?thesis
      unfolding audio_push_def Let_def note_eq if_not_P [OF False]
      by (simp add: pending_fragments_def MAX_PENDING_AUDIO_FRAMES_def)
  next
    case False
    then obtain e where "ar_pending (noted ?f r) = [(?f, e)]" using noted_inv(1) [OF inv] by blast
    then show ?thesis
      unfolding audio_push_def Let_def note_eq if_not_P [OF older]
      by (simp add: pending_fragments_def MAX_PENDING_AUDIO_FRAMES_def)
  qed
qed

lemma pending_fragments_sorted:
  "audio_inv r \<Longrightarrow> btree_sorted (pa_fragments (pending_fragments f count r))"
  using noted_inv(1) [of r f] by (auto simp: pending_fragments_def btree_sorted_def)

lemma audio_push_inv: "audio_inv r \<Longrightarrow> audio_inv (fst (audio_push fragment r))"
  using pending_fragments_sorted [of r] noted_inv(2) [of r]
  by (simp add: audio_push_eq Let_def audio_inv_def btree_sorted_or_insert)

section \<open>Fragments in any order\<close>

primrec audio_push_all :: "audio_fragment list \<Rightarrow> audio_reassembler \<Rightarrow> audio_reassembler \<times> bytes option list" where
  "audio_push_all [] r = (r, [])"
| "audio_push_all (fragment # fragments) r =
     (let (r, out) = audio_push fragment r; (r, outs) = audio_push_all fragments r in (r, out # outs))"

definition audio_piece :: "u32 \<Rightarrow> bytes list \<Rightarrow> nat \<Rightarrow> audio_fragment" where
  "audio_piece f ds i =
     \<lparr>af_header = \<lparr>ah_frame_id = f, ah_fragment_index = word_of_nat i,
        ah_fragment_count = word_of_nat (length ds)\<rparr>, af_data = ds ! i\<rparr>"

text \<open>The reassembler holds the pieces \<open>K\<close> of frame \<open>f\<close>, or has yet to hear of the frame.\<close>

definition audio_collecting :: "u32 \<Rightarrow> bytes list \<Rightarrow> nat set \<Rightarrow> audio_reassembler \<Rightarrow> bool" where
  "audio_collecting f ds K r \<longleftrightarrow> audio_inv r \<and>
     (\<forall>newest. ar_newest_frame_id r = Some newest \<longrightarrow> newest \<le> f) \<and>
     (if K = {} then ar_newest_frame_id r = Some f \<longrightarrow> ar_pending r = []
      else ar_newest_frame_id r = Some f \<and>
        (\<exists>m. ar_pending r = [(f, \<lparr>pa_fragment_count = word_of_nat (length ds), pa_fragments = m\<rparr>)] \<and> holds ds K m))"

lemma audio_collecting_empty:
  "audio_collecting f ds K r \<Longrightarrow> K = {} \<Longrightarrow> ar_pending (noted f r) = []"
  by (auto simp: audio_collecting_def noted_def)

lemma collect_holds:
  assumes "holds ds {0..<length ds} m" and "length ds < 65536" and "set is \<subseteq> {0..<length ds}"
  shows "collect_fragments m is acc = Some (acc @ concat (map (\<lambda>i. ds ! i) is))"
  using assms(3)
proof (induction "is" arbitrary: acc)
  case (Cons i "is")
  then have "unat (word_of_nat i :: u16) = i" using assms(2) by (intro unat_index [of i ds]) auto
  with Cons assms(1) show ?case by (simp add: holds_def)
qed simp

lemma audio_collecting_pieces:
  assumes "audio_collecting f ds K r"
  shows "\<exists>m. pending_fragments f (word_of_nat (length ds)) r =
      \<lparr>pa_fragment_count = word_of_nat (length ds), pa_fragments = m\<rparr> \<and> holds ds K m"
proof (cases "K = {}")
  case True
  with audio_collecting_empty [OF assms] holds_empty show ?thesis
    by (auto simp: pending_fragments_def)
next
  case False
  with assms show ?thesis by (auto simp: audio_collecting_def pending_fragments_def noted_def)
qed

lemma audio_piece_step:
  assumes col: "audio_collecting f ds K r" and K: "K \<subseteq> {0..<length ds}" and len: "1 < length ds" "length ds < 65536"
    and i: "i < length ds"
  shows "audio_push (audio_piece f ds i) r =
      (fst (audio_push (audio_piece f ds i) r), if insert i K = {0..<length ds} then Some (concat ds) else None)"
    and "insert i K \<noteq> {0..<length ds} \<Longrightarrow>
      audio_collecting f ds (insert i K) (fst (audio_push (audio_piece f ds i) r))"
proof -
  let ?n = "word_of_nat (length ds) :: u16"
  have n: "unat ?n = length ds" by (rule unat_of_nat_bounded) (simp add: len)
  then have many: "?n \<noteq> 1" using len by (metis less_numeral_extra(4) unat_1)
  have inv: "audio_inv r" and new: "\<not> (\<exists>newest. ar_newest_frame_id r = Some newest \<and> f < newest)"
    using col by (auto simp: audio_collecting_def not_less)
  from audio_collecting_pieces [OF col] obtain m where
    e: "pending_fragments f ?n r = \<lparr>pa_fragment_count = ?n, pa_fragments = m\<rparr>" and m: "holds ds K m"
    by blast
  let ?m = "btree_or_insert (word_of_nat i) (ds ! i) m"
  have m': "holds ds (insert i K) ?m" by (rule holds_insert [OF m i len(2)])
  have full: "length ?m = length ds \<longleftrightarrow> insert i K = {0..<length ds}"
    using holds_all_length [OF m' _ len(2)] K i by simp
  have push: "audio_push (audio_piece f ds i) r =
      (if length ?m = length ds
       then ((noted f r)\<lparr>ar_pending := []\<rparr>, collect_fragments ?m [0..<length ds] [])
       else ((noted f r)\<lparr>ar_pending := [(f, \<lparr>pa_fragment_count = ?n, pa_fragments = ?m\<rparr>)]\<rparr>, None))"
    unfolding audio_push_eq [OF inv] audio_piece_def Let_def
    using new many by (simp add: e n) blast
  have all: "collect_fragments ?m [0..<length ds] [] = Some (concat ds)" if "insert i K = {0..<length ds}"
    using collect_holds [of ds ?m "[0..<length ds]" "[]"] m' len(2) that by (simp add: map_nth)
  show "audio_push (audio_piece f ds i) r =
      (fst (audio_push (audio_piece f ds i) r), if insert i K = {0..<length ds} then Some (concat ds) else None)"
    using all by (simp add: push full)
  show "audio_collecting f ds (insert i K) (fst (audio_push (audio_piece f ds i) r))"
    if "insert i K \<noteq> {0..<length ds}"
    using that m' noted_inv(2) [OF inv, of f] audio_push_inv [OF inv, of "audio_piece f ds i"]
    by (simp add: audio_collecting_def push full)
qed

lemma audio_pieces_run:
  assumes "audio_collecting f ds K r" and "K \<union> set is \<subset> {0..<length ds}" and "1 < length ds" "length ds < 65536"
  shows "audio_collecting f ds (K \<union> set is) (fst (audio_push_all (map (audio_piece f ds) is) r)) \<and>
    snd (audio_push_all (map (audio_piece f ds) is) r) = replicate (length is) None"
  using assms(1,2)
proof (induction "is" arbitrary: K r)
  case (Cons i "is")
  have i: "i < length ds" and K: "K \<subseteq> {0..<length ds}" using Cons.prems by auto
  have part: "insert i K \<noteq> {0..<length ds}" using Cons.prems by auto
  let ?p = "audio_push (audio_piece f ds i) r"
  have p: "snd ?p = None"
    using arg_cong [OF audio_piece_step(1) [OF Cons.prems(1) K assms(3,4) i], of snd] part by simp
  have "audio_collecting f ds (insert i K) (fst ?p)"
    by (rule audio_piece_step(2) [OF Cons.prems(1) K assms(3,4) i part])
  from Cons.IH [OF this] Cons.prems(2)
  have "audio_collecting f ds (insert i K \<union> set is) (fst (audio_push_all (map (audio_piece f ds) is) (fst ?p))) \<and>
    snd (audio_push_all (map (audio_piece f ds) is) (fst ?p)) = replicate (length is) None"
    by simp
  with p show ?case by (auto simp: Let_def case_prod_unfold)
qed simp

lemma audio_push_all_inv: "audio_inv r \<Longrightarrow> audio_inv (fst (audio_push_all gs r))"
  by (induction gs arbitrary: r) (simp_all add: Let_def case_prod_unfold audio_push_inv)

lemma audio_push_all_append:
  "audio_push_all (gs @ hs) r =
     (let (r, outs) = audio_push_all gs r; (r, outs') = audio_push_all hs r in (r, outs @ outs'))"
  by (induction gs arbitrary: r) (simp_all add: Let_def case_prod_unfold)

lemma audio_newest_step:
  assumes inv: "audio_inv r"
  shows "ar_newest_frame_id (fst (audio_push g r)) = ar_newest_frame_id r \<or>
    ar_newest_frame_id (fst (audio_push g r)) = Some (ah_frame_id (af_header g))"
  using noted_inv(2) [OF inv] by (auto simp: audio_push_eq [OF inv] Let_def)

lemma audio_newest:
  assumes "audio_inv r"
  shows "ar_newest_frame_id (fst (audio_push_all gs r)) \<in>
    insert (ar_newest_frame_id r) ((\<lambda>g. Some (ah_frame_id (af_header g))) ` set gs)"
  using assms
proof (induction gs arbitrary: r)
  case (Cons g gs)
  from Cons.IH [OF audio_push_inv [OF Cons.prems, of g]] audio_newest_step [OF Cons.prems, of g]
  show ?case by (auto simp: Let_def case_prod_unfold)
qed simp

text \<open>C26. The audio of a frame is delivered complete and once its last missing fragment is there:
  after any fragments of older frames, the fragments of frame \<open>f\<close> in whatever order and with
  whatever repetitions give nothing until the last missing one arrives, which gives exactly the
  concatenation of the fragments in index order.\<close>

theorem audio_any_order:
  assumes older: "\<forall>g\<in>set earlier. ah_frame_id (af_header g) < f"
    and len: "ds \<noteq> []" "length ds < 65536"
    and order: "insert i (set is) = {0..<length ds}" "i \<notin> set is"
  shows "snd (audio_push_all (map (audio_piece f ds) (is @ [i]))
      (fst (audio_push_all earlier audio_reassembler_default))) =
    replicate (length is) None @ [Some (concat ds)]"
proof -
  let ?r = "fst (audio_push_all earlier audio_reassembler_default)"
  have inv: "audio_inv ?r" by (rule audio_push_all_inv) simp
  have new: "\<forall>newest. ar_newest_frame_id ?r = Some newest \<longrightarrow> newest < f"
    using audio_newest [OF audio_inv_default, of earlier] older
    by (auto simp: audio_reassembler_default_def)
  have i: "i < length ds" using order(1) by auto
  show ?thesis
  proof (cases "length ds = 1")
    case True
    then obtain d where ds: "ds = [d]" by (cases ds) auto
    then have i0: "i = 0" using i by simp
    have "set is \<subseteq> {0}" using order ds by auto
    then have "set is = {}" using order(2) i0 by (auto simp: subset_singleton_iff)
    then have "is = []" by simp
    then show ?thesis using new ds inv i0
      by (auto simp: audio_push_eq [OF inv] audio_piece_def Let_def)
  next
    case False
    then have many: "1 < length ds" using len(1) by (cases ds) auto
    have col: "audio_collecting f ds {} ?r" using inv new by (auto simp: audio_collecting_def)
    have "{} \<union> set is \<subset> {0..<length ds}" using order i by auto
    from audio_pieces_run [OF col this many len(2)]
    have run: "audio_collecting f ds (set is) (fst (audio_push_all (map (audio_piece f ds) is) ?r))"
      "snd (audio_push_all (map (audio_piece f ds) is) ?r) = replicate (length is) None" by simp_all
    have K: "set is \<subseteq> {0..<length ds}" using order by auto
    from arg_cong [OF audio_piece_step(1) [OF run(1) K many len(2) i], of snd] order(1) run(2)
    show ?thesis by (simp add: audio_push_all_append Let_def case_prod_unfold)
  qed
qed

theorem audio_any_order_witness:
  "snd (audio_push_all (map (audio_piece 7 [[1, 2], [3], [4]]) ([2, 0, 2] @ [1]))
      (fst (audio_push_all [audio_piece 6 [[9], [9]] 1] audio_reassembler_default))) =
    replicate 3 None @ [Some [1, 2, 3, 4]]"
proof -
  have order: "insert 1 (set [2, 0, 2]) = {0..<length [[1, 2], [3], [4 :: u8]]}" by auto
  show ?thesis
    using audio_any_order [of "[audio_piece 6 [[9], [9]] 1]" 7, OF _ _ _ order]
    by (simp add: audio_piece_def numeral_3_eq_3)
qed

section \<open>Nothing is made up\<close>

text \<open>Every pending fragment was pushed, under the identity it is filed by.\<close>

definition audio_from :: "audio_fragment set \<Rightarrow> audio_reassembler \<Rightarrow> bool" where
  "audio_from G r \<longleftrightarrow> (\<forall>(k, e)\<in>set (ar_pending r). \<forall>(w, d)\<in>set (pa_fragments e).
     \<lparr>af_header = \<lparr>ah_frame_id = k, ah_fragment_index = w, ah_fragment_count = pa_fragment_count e\<rparr>,
      af_data = d\<rparr> \<in> G)"

lemma pending_fragments_from:
  assumes "audio_from G r" and "audio_inv r" and "pa_fragment_count (pending_fragments f c r) = c"
    and "(w, d) \<in> set (pa_fragments (pending_fragments f c r))"
  shows "\<lparr>af_header = \<lparr>ah_frame_id = f, ah_fragment_index = w, ah_fragment_count = c\<rparr>, af_data = d\<rparr> \<in> G"
  using assms audio_inv_pending [OF assms(2)]
  by (auto simp: pending_fragments_def audio_from_def noted_def split: if_splits)

lemma audio_from_step:
  assumes "audio_from G r" and inv: "audio_inv r"
  shows "audio_from (insert g G) (fst (audio_push g r))"
proof -
  let ?h = "af_header g" let ?e = "pending_fragments (ah_frame_id ?h) (ah_fragment_count ?h) r"
  have old: "audio_from (insert g G) r" using assms(1) by (fastforce simp: audio_from_def)
  show ?thesis
    using old pending_fragments_from [OF assms]
      set_btree_or_insert [of "ah_fragment_index ?h" "af_data g" "pa_fragments ?e"]
    by (auto simp: audio_push_eq [OF inv] Let_def audio_from_def)
qed

lemma collect_fragments_present:
  "collect_fragments m is acc = Some d \<Longrightarrow>
     (\<forall>i\<in>set is. (word_of_nat i, the (map_of m (word_of_nat i))) \<in> set m) \<and>
     d = acc @ concat (map (\<lambda>i. the (map_of m (word_of_nat i))) is)"
proof (induction "is" arbitrary: acc)
  case (Cons i "is")
  then obtain x where x: "map_of m (word_of_nat i) = Some x"
    and "collect_fragments m is (acc @ x) = Some d" by (auto split: option.splits)
  from Cons.IH [OF this(2)] x show ?case by (auto dest: map_of_SomeD)
qed simp

lemma audio_push_all_from:
  "audio_inv r \<Longrightarrow> audio_from G r \<Longrightarrow> audio_from (G \<union> set gs) (fst (audio_push_all gs r))"
proof (induction gs arbitrary: r G)
  case (Cons g gs)
  from Cons.IH [OF audio_push_inv [OF Cons.prems(1), of g] audio_from_step [OF Cons.prems(2,1), of g]]
  show ?case by (simp add: Let_def case_prod_unfold)
qed simp

text \<open>C27. Audio is never made up, and incomplete audio does not accumulate: of whatever well-formed
  fragments arrive, at most one frame is pending at any time, and a frame that is delivered is the
  concatenation of fragments \<open>0\<close>, \<open>1\<close>, \<open>\<dots>\<close> of one frame id and one fragment count, each of which
  arrived.\<close>

theorem audio_genuine:
  assumes ok: "\<forall>x\<in>set (gs @ [g]). audio_fragment_header_validate (af_header x) = Inr ()"
    and push: "audio_push g (fst (audio_push_all gs audio_reassembler_default)) = (r, out)"
  shows "pending_frames r \<le> 1 \<and>
    (\<forall>d. out = Some d \<longrightarrow>
      (\<exists>ds. d = concat ds \<and> length ds = unat (ah_fragment_count (af_header g)) \<and>
        (\<forall>i < length ds. audio_piece (ah_frame_id (af_header g)) ds i \<in> set (gs @ [g]))))"
proof -
  let ?r = "fst (audio_push_all gs audio_reassembler_default)"
  let ?f = "ah_frame_id (af_header g)" and ?c = "ah_fragment_count (af_header g)"
  let ?m = "btree_or_insert (ah_fragment_index (af_header g)) (af_data g) (pa_fragments (pending_fragments ?f ?c ?r))"
  have inv: "audio_inv ?r" by (rule audio_push_all_inv) simp
  have frm: "audio_from (set gs) ?r"
    using audio_push_all_from [OF audio_inv_default, of "{}" gs]
    by (simp add: audio_from_def audio_reassembler_default_def)
  have one: "pending_frames r \<le> 1"
    using audio_push_inv [OF inv, of g] push by (simp add: pending_frames_def audio_inv_def)
  have "\<exists>ds. d = concat ds \<and> length ds = unat ?c \<and> (\<forall>i < length ds. audio_piece ?f ds i \<in> set (gs @ [g]))"
    if "out = Some d" for d
  proof (cases "?c = 1")
    case True
    then have "d = af_data g" using push that by (auto simp: audio_push_eq [OF inv] Let_def split: if_splits)
    moreover have "af_header g = \<lparr>ah_frame_id = ?f, ah_fragment_index = 0, ah_fragment_count = 1\<rparr>"
      using ok True by (cases "af_header g")
        (auto simp: audio_fragment_header_validate_def linorder_not_le word_less_1 split: if_splits)
    ultimately show ?thesis using True by (intro exI [of _ "[d]"]) (auto simp: audio_piece_def)
  next
    case False
    then have cnt: "pa_fragment_count (pending_fragments ?f ?c ?r) = ?c"
      and col: "collect_fragments ?m [0..<unat ?c] [] = Some d"
      using push that by (auto simp: audio_push_eq [OF inv] Let_def split: if_splits)
    define ds where "ds = map (\<lambda>i. the (map_of ?m (word_of_nat i))) [0..<unat ?c]"
    from collect_fragments_present [OF col]
    have mem: "(word_of_nat i, ds ! i) \<in> set ?m" if "i < unat ?c" for i
      using that by (simp add: ds_def)
    have "audio_piece ?f ds i \<in> set (gs @ [g])" if "i < unat ?c" for i
      using mem [OF that] pending_fragments_from [OF frm inv cnt] set_btree_or_insert
      by (fastforce simp: audio_piece_def ds_def)
    moreover have "d = concat ds" using collect_fragments_present [OF col] by (simp add: ds_def)
    ultimately show ?thesis by (intro exI [of _ ds]) (simp add: ds_def)
  qed
  with one show ?thesis by blast
qed

theorem audio_genuine_witness:
  "\<exists>r. audio_push (audio_piece 7 [[1], [2]] 1)
      (fst (audio_push_all [audio_piece 7 [[1], [2]] 0] audio_reassembler_default)) = (r, Some [1, 2]) \<and>
    pending_frames r \<le> 1"
proof -
  have upto: "[0..<2] = [0, Suc 0]" by (simp add: upt_rec)
  obtain r where r: "audio_push (audio_piece 7 [[1], [2]] 1)
      (fst (audio_push_all [audio_piece 7 [[1], [2]] 0] audio_reassembler_default)) = (r, Some [1, 2])"
    by (simp add: audio_push_def audio_piece_def audio_reassembler_default_def skip_incomplete_before_def
      Let_def MAX_PENDING_AUDIO_FRAMES_def upto)
  moreover have "pending_frames r \<le> 1"
    using audio_genuine [of "[audio_piece 7 [[1], [2]] 0]", OF _ r]
    by (simp add: audio_piece_def audio_fragment_header_validate_def word_le_nat_alt)
  ultimately show ?thesis by blast
qed

end
