(* ===== verification/Relay_Server.thy ===== *)
theory Relay_Server
  imports Relay_Wire Std_Collections
begin

text \<open>
  The relay server, \<open>maho-relay/src/lib.rs\<close>: hosts register over a web socket, clients connect to a
  registered host, and the server forwards binary frames between the two. The tasks of all
  connections share three concurrent maps (\<open>hosts\<close>, \<open>sessions\<close>, \<open>rates\<close>).

  This theory has the operations on the shared state. \<open>Relay_Tasks\<close> has the tasks that call them and
  interleaves them. serde's JSON form of the control messages, \<open>uuid\<close>'s text form of an id and the
  MAC are parameters, gathered in a record. A channel is a number; \<open>rl_sent\<close> logs every message that
  was put into a channel, and \<open>rl_closed\<close> holds the channels whose receiver is gone, where \<open>send\<close> fails.
\<close>

section \<open>Configuration\<close>

type_synonym host_id = rstring
type_synonym ip_addr = nat

record relay_config =
  auth_secret :: bytes
  max_sessions_per_host :: usize
  max_payload_len :: usize
  idle_timeout :: duration
  heartbeat :: duration
  max_session_duration :: duration
  connects_per_minute :: u32
  accept_timeout :: duration

definition DEFAULT_ACCEPT_TIMEOUT :: duration where "DEFAULT_ACCEPT_TIMEOUT = from_secs 10"
definition DEFAULT_IDLE :: duration where "DEFAULT_IDLE = from_secs 60"
definition DEFAULT_HEARTBEAT :: duration where "DEFAULT_HEARTBEAT = from_secs 30"
definition DEFAULT_SESSION_LIMIT :: duration where "DEFAULT_SESSION_LIMIT = from_secs (24 * 60 * 60)"
definition DEFAULT_CONNECTS_PER_MINUTE :: u32 where "DEFAULT_CONNECTS_PER_MINUTE = 100"

datatype relay_error = MissingSecret

definition relay_config_from_secret :: "bytes \<Rightarrow> relay_config" where
  "relay_config_from_secret secret =
     \<lparr>auth_secret = secret,
      max_sessions_per_host = RELAY_MAX_SESSIONS_PER_HOST,
      max_payload_len = RELAY_MAX_PAYLOAD_LEN,
      idle_timeout = DEFAULT_IDLE,
      heartbeat = DEFAULT_HEARTBEAT,
      max_session_duration = DEFAULT_SESSION_LIMIT,
      connects_per_minute = DEFAULT_CONNECTS_PER_MINUTE,
      accept_timeout = DEFAULT_ACCEPT_TIMEOUT\<rparr>"

fun config_from_secret :: "rstring option \<Rightarrow> relay_error + relay_config" where
  "config_from_secret (Some value) =
     (if value \<noteq> [] then Inr (relay_config_from_secret value) else Inl MissingSecret)"
| "config_from_secret None = Inl MissingSecret"

section \<open>State\<close>

text \<open>\<open>from_str\<close> and \<open>to_string\<close> of serde_json at \<open>RelayControl\<close>, \<open>to_string\<close> of a \<open>Uuid\<close>, and the MAC.\<close>

record relay_lib =
  rx_from_str :: "rstring \<Rightarrow> relay_control option"
  rx_to_string :: "relay_control \<Rightarrow> rstring option"
  rx_uuid_string :: "bytes \<Rightarrow> rstring"
  rx_mac :: hmac

datatype ws_message =
    WsText rstring
  | WsBinary bytes
  | WsPing bytes
  | WsPong bytes
  | WsClose

type_synonym channel = nat
type_synonym oneshot = nat

record relay_session =
  rs_host_id :: host_id
  rs_client_tx :: channel
  rs_accept_tx :: "oneshot option"
  rs_created :: instant

record relay_state =
  rl_hosts :: "(host_id, channel) hash_map"
  rl_sessions :: "(rstring, relay_session) hash_map"
  rl_rates :: "(ip_addr, instant list) hash_map"
  rl_sent :: "(channel \<times> ws_message) list"
  rl_closed :: "channel list"
  rl_accepted :: "oneshot list"
  rl_next_channel :: channel

definition app_state_new :: relay_state where
  "app_state_new = \<lparr>rl_hosts = [], rl_sessions = [], rl_rates = [], rl_sent = [], rl_closed = [],
     rl_accepted = [], rl_next_channel = 0\<rparr>"

text \<open>\<open>UnboundedSender::send\<close>.\<close>

definition send :: "channel \<Rightarrow> ws_message \<Rightarrow> relay_state \<Rightarrow> relay_state \<times> bool" where
  "send tx m st =
     (if tx \<in> set (rl_closed st) then (st, False)
      else (st\<lparr>rl_sent := rl_sent st @ [(tx, m)]\<rparr>, True))"

text \<open>\<open>mpsc::unbounded_channel\<close>: one number stands for both ends.\<close>

definition unbounded_channel :: "relay_state \<Rightarrow> relay_state \<times> channel" where
  "unbounded_channel st = (st\<lparr>rl_next_channel := rl_next_channel st + 1\<rparr>, rl_next_channel st)"

definition allow_connect :: "relay_config \<Rightarrow> ip_addr \<Rightarrow> instant \<Rightarrow> relay_state \<Rightarrow> relay_state \<times> bool" where
  "allow_connect config ip now st =
     (let hits = (case map_of (rl_rates st) ip of Some hits \<Rightarrow> hits | None \<Rightarrow> []);
          hits = filter (\<lambda>stamp. now - stamp < from_secs 60) hits
      in if (word_of_nat (length hits) :: u32) \<ge> connects_per_minute config
         then (st\<lparr>rl_rates := AList.update ip hits (rl_rates st)\<rparr>, False)
         else (st\<lparr>rl_rates := AList.update ip (hits @ [now]) (rl_rates st)\<rparr>, True))"

definition session_count :: "host_id \<Rightarrow> relay_state \<Rightarrow> nat" where
  "session_count host_id st =
     length (filter (\<lambda>(key, entry). rs_host_id entry = host_id) (rl_sessions st))"

definition drop_host :: "host_id \<Rightarrow> relay_state \<Rightarrow> relay_state" where
  "drop_host host_id st =
     (let st = st\<lparr>rl_hosts := AList.delete host_id (rl_hosts st)\<rparr>;
          doomed = map fst (filter (\<lambda>(key, entry). rs_host_id entry = host_id) (rl_sessions st))
      in fold (\<lambda>k st. st\<lparr>rl_sessions := AList.delete k (rl_sessions st)\<rparr>) doomed st)"

definition remove_session :: "rstring \<Rightarrow> relay_state \<Rightarrow> relay_state" where
  "remove_session key st = st\<lparr>rl_sessions := AList.delete key (rl_sessions st)\<rparr>"

section \<open>Messages\<close>

text \<open>The bytes of an ASCII literal.\<close>

definition lit :: "string \<Rightarrow> rstring" where
  "lit s = map of_char s"

definition text_message :: "relay_lib \<Rightarrow> relay_control \<Rightarrow> ws_message option" where
  "text_message lib control = map_option WsText (rx_to_string lib control)"

definition error_message :: "relay_lib \<Rightarrow> string \<Rightarrow> string \<Rightarrow> ws_message" where
  "error_message lib code message =
     (case text_message lib (RelayError (lit code) (lit message)) of
        Some m \<Rightarrow> m
      | None \<Rightarrow> WsClose)"

section \<open>The host's connection\<close>

text \<open>The first message of a host: the reply that ends the connection, or the host it registers.\<close>

definition host_authenticate :: "relay_lib \<Rightarrow> relay_config \<Rightarrow> ws_message option \<Rightarrow> ws_message + host_id" where
  "host_authenticate lib config incoming =
     (case incoming of
        Some (WsText first) \<Rightarrow>
          (case rx_from_str lib first of
             Some (Register host_id token) \<Rightarrow>
               if \<not> relay_host_id_ok host_id \<or>
                  \<not> relay_token_matches (rx_mac lib) (auth_secret config) host_id token
               then Inl (error_message lib ''unauthorized'' ''invalid token'')
               else Inr host_id
           | _ \<Rightarrow> Inl (error_message lib ''unauthorized'' ''expected register''))
      | _ \<Rightarrow> Inl (error_message lib ''unauthorized'' ''expected register''))"

definition host_join :: "host_id \<Rightarrow> relay_state \<Rightarrow> relay_state \<times> channel" where
  "host_join host_id st =
     (let (st, tx) = unbounded_channel st;
          st = drop_host host_id st
      in (st\<lparr>rl_hosts := AList.update host_id tx (rl_hosts st)\<rparr>, tx))"

definition handle_host_text :: "relay_lib \<Rightarrow> host_id \<Rightarrow> rstring \<Rightarrow> channel \<Rightarrow> relay_state \<Rightarrow> relay_state" where
  "handle_host_text lib host_id txt tx st =
     (case rx_from_str lib txt of
        None \<Rightarrow> st
      | Some control \<Rightarrow>
          (case control of
             RelayPong \<Rightarrow> st
           | RelayPing \<Rightarrow> st
           | Accept session_id \<Rightarrow>
               (case map_of (rl_sessions st) session_id of
                  None \<Rightarrow> st
                | Some session \<Rightarrow>
                    if rs_host_id session \<noteq> host_id then st
                    else (case rs_accept_tx session of
                            None \<Rightarrow> st
                          | Some sender \<Rightarrow>
                              st\<lparr>rl_sessions := AList.update session_id (session\<lparr>rs_accept_tx := None\<rparr>)
                                                (rl_sessions st),
                                 rl_accepted := rl_accepted st @ [sender]\<rparr>))
           | _ \<Rightarrow> fst (send tx (error_message lib ''bad_frame'' ''unexpected host control'') st)))"

definition forward_from_host ::
  "relay_lib \<Rightarrow> relay_config \<Rightarrow> host_id \<Rightarrow> bytes \<Rightarrow> channel \<Rightarrow> instant \<Rightarrow> relay_state \<Rightarrow> relay_state \<times> bool" where
  "forward_from_host lib config host_id bs host_tx now st =
     (case decode_relay_frame bs of
        Inl _ \<Rightarrow> (fst (send host_tx (error_message lib ''bad_frame'' ''invalid frame'') st), False)
      | Inr frame \<Rightarrow>
          if length (rf_payload frame) > max_payload_len config
          then (fst (send host_tx (error_message lib ''bad_frame'' ''payload too large'') st), False)
          else
          let key = rx_uuid_string lib (rf_session_id frame)
          in (case map_of (rl_sessions st) key of
                None \<Rightarrow> (st, True)
              | Some session \<Rightarrow>
                  if rs_host_id session \<noteq> host_id then (st, True)
                  else if now - rs_created session > max_session_duration config
                  then (fst (send host_tx (error_message lib ''session_expired'' ''session expired'')
                          (remove_session key st)), True)
                  else (fst (send (rs_client_tx session) (WsBinary bs) st), True)))"

text \<open>One message of a registered host: the new state and whether the loop goes on.\<close>

definition host_receive ::
  "relay_lib \<Rightarrow> relay_config \<Rightarrow> host_id \<Rightarrow> channel \<Rightarrow> ws_message option \<Rightarrow> instant \<Rightarrow> relay_state \<Rightarrow> relay_state \<times> bool" where
  "host_receive lib config host_id tx incoming now st =
     (case incoming of
        Some (WsText txt) \<Rightarrow> (handle_host_text lib host_id txt tx st, True)
      | Some (WsBinary bs) \<Rightarrow> forward_from_host lib config host_id bs tx now st
      | Some (WsPing payload) \<Rightarrow> (fst (send tx (WsPong payload) st), True)
      | Some (WsPong _) \<Rightarrow> (st, True)
      | _ \<Rightarrow> (st, False))"

definition host_ping :: "relay_lib \<Rightarrow> channel \<Rightarrow> relay_state \<Rightarrow> relay_state" where
  "host_ping lib tx st =
     (case text_message lib RelayPing of Some m \<Rightarrow> fst (send tx m st) | None \<Rightarrow> st)"

section \<open>The client's connection\<close>

text \<open>The checks before the first message is read.\<close>

definition client_open ::
  "relay_lib \<Rightarrow> relay_config \<Rightarrow> ip_addr \<Rightarrow> host_id \<Rightarrow> instant \<Rightarrow> relay_state \<Rightarrow> relay_state \<times> ws_message option" where
  "client_open lib config ip host_id now st =
     (let (st, allowed) = allow_connect config ip now st
      in if \<not> allowed then (st, Some (error_message lib ''rate_limited'' ''too many connects''))
         else if \<not> contains_key (rl_hosts st) host_id
         then (st, Some (error_message lib ''not_found'' ''host is not registered''))
         else (st, None))"

definition client_authenticate ::
  "relay_lib \<Rightarrow> relay_config \<Rightarrow> host_id \<Rightarrow> ws_message option \<Rightarrow> ws_message option" where
  "client_authenticate lib config host_id incoming =
     (case incoming of
        Some (WsText first) \<Rightarrow>
          (case rx_from_str lib first of
             Some (Connect claimed token) \<Rightarrow>
               if claimed \<noteq> host_id \<or>
                  \<not> relay_token_matches (rx_mac lib) (auth_secret config) host_id token
               then Some (error_message lib ''unauthorized'' ''invalid token'')
               else None
           | _ \<Rightarrow> Some (error_message lib ''unauthorized'' ''expected connect''))
      | _ \<Rightarrow> Some (error_message lib ''unauthorized'' ''expected connect''))"

definition client_check_limit ::
  "relay_lib \<Rightarrow> relay_config \<Rightarrow> host_id \<Rightarrow> relay_state \<Rightarrow> ws_message option" where
  "client_check_limit lib config host_id st =
     (if session_count host_id st \<ge> max_sessions_per_host config
      then Some (error_message lib ''session_limit'' ''too many sessions'')
      else None)"

text \<open>\<open>session_uuid\<close> is the id that \<open>Uuid::new_v4\<close> drew; the \<open>oneshot\<close> shares the number of the
  client's channel.\<close>

definition client_insert_session ::
  "relay_lib \<Rightarrow> host_id \<Rightarrow> bytes \<Rightarrow> instant \<Rightarrow> relay_state \<Rightarrow> relay_state \<times> channel" where
  "client_insert_session lib host_id session_uuid now st =
     (let (st, client_tx) = unbounded_channel st
      in (st\<lparr>rl_sessions := AList.update (rx_uuid_string lib session_uuid)
              \<lparr>rs_host_id = host_id, rs_client_tx = client_tx, rs_accept_tx = Some client_tx,
               rs_created = now\<rparr> (rl_sessions st)\<rparr>, client_tx))"

text \<open>The host is told of the session: its channel, or the reply that ends the connection.\<close>

definition client_notify ::
  "relay_lib \<Rightarrow> host_id \<Rightarrow> bytes \<Rightarrow> relay_state \<Rightarrow> relay_state \<times> (ws_message option + channel)" where
  "client_notify lib host_id session_uuid st =
     (let session_id = rx_uuid_string lib session_uuid
      in case text_message lib (Incoming session_id) of
           None \<Rightarrow> (remove_session session_id st, Inl None)
         | Some incoming \<Rightarrow>
             (case map_of (rl_hosts st) host_id of
                None \<Rightarrow> (remove_session session_id st,
                         Inl (Some (error_message lib ''not_found'' ''host is not registered'')))
              | Some host_tx \<Rightarrow>
                  let (st, sent) = send host_tx incoming st
                  in if \<not> sent
                     then (remove_session session_id st,
                           Inl (Some (error_message lib ''not_found'' ''host is not registered'')))
                     else (st, Inr host_tx)))"

text \<open>The outcome of the wait for the host's answer: the message to the client and whether the
  session goes on. When the reply cannot be sent, the connection ends as by \<open>remove_session\<close>.\<close>

definition client_answered ::
  "relay_lib \<Rightarrow> bytes \<Rightarrow> bool \<Rightarrow> relay_state \<Rightarrow> relay_state \<times> ws_message option \<times> bool" where
  "client_answered lib session_uuid accepted st =
     (let session_id = rx_uuid_string lib session_uuid
      in if \<not> accepted
         then (remove_session session_id st,
               Some (error_message lib ''not_found'' ''host did not accept''), False)
         else (case text_message lib Connected of
                 None \<Rightarrow> (remove_session session_id st, None, False)
               | Some connected \<Rightarrow> (st, Some connected, True)))"

text \<open>\<open>owned[..16].copy_from_slice(session_bytes)\<close> stamps a frame with the sender's session id.\<close>

definition forward_from_client ::
  "relay_lib \<Rightarrow> host_id \<Rightarrow> bytes \<Rightarrow> bytes \<Rightarrow> usize \<Rightarrow> channel \<Rightarrow> relay_state \<Rightarrow> relay_state \<times> bool" where
  "forward_from_client lib host_id session_bytes bs max_payload host_tx st =
     (case decode_relay_frame bs of
        Inl _ \<Rightarrow> (st, False)
      | Inr frame \<Rightarrow>
          if length (rf_payload frame) > max_payload then (st, False)
          else if rf_session_id frame \<noteq> replicate 16 0 \<and> rf_session_id frame \<noteq> session_bytes then (st, False)
          else
          let stamped = (if rf_session_id frame = replicate 16 0 then session_bytes @ drop 16 bs else bs)
          in if \<not> contains_key (rl_sessions st) (rx_uuid_string lib session_bytes) then (st, False)
             else (case map_of (rl_hosts st) host_id of
                     None \<Rightarrow> (st, False)
                   | Some live_host \<Rightarrow>
                       if live_host \<noteq> host_tx then (st, False)
                       else send host_tx (WsBinary stamped) st))"

text \<open>One message of a connected client: the new state, the direct reply and whether the loop goes on.
  Only a binary message counts as activity.\<close>

definition client_receive ::
  "relay_lib \<Rightarrow> relay_config \<Rightarrow> host_id \<Rightarrow> bytes \<Rightarrow> channel \<Rightarrow> ws_message option \<Rightarrow> relay_state \<Rightarrow>
   relay_state \<times> ws_message option \<times> bool" where
  "client_receive lib config host_id session_bytes host_tx incoming st =
     (case incoming of
        Some (WsBinary bs) \<Rightarrow>
          let (st, forwarded) =
                forward_from_client lib host_id session_bytes bs (max_payload_len config) host_tx st
          in if \<not> forwarded then (st, Some (error_message lib ''bad_frame'' ''invalid frame''), False)
             else (st, None, True)
      | Some (WsPing payload) \<Rightarrow> (st, Some (WsPong payload), True)
      | Some (WsPong _) \<Rightarrow> (st, None, True)
      | Some (WsText _) \<Rightarrow> (st, None, True)
      | _ \<Rightarrow> (st, None, False))"

fun counts_as_activity :: "ws_message option \<Rightarrow> bool" where
  "counts_as_activity (Some (WsBinary _)) = True"
| "counts_as_activity _ = False"

section \<open>Lemmas\<close>

lemma send_simps [simp]:
  "rl_hosts (fst (send tx m st)) = rl_hosts st"
  "rl_sessions (fst (send tx m st)) = rl_sessions st"
  "rl_rates (fst (send tx m st)) = rl_rates st"
  "rl_accepted (fst (send tx m st)) = rl_accepted st"
  "rl_next_channel (fst (send tx m st)) = rl_next_channel st"
  by (simp_all add: send_def)

lemma sent_send: "x \<in> set (rl_sent (fst (send tx m st))) \<Longrightarrow> x = (tx, m) \<or> x \<in> set (rl_sent st)"
  by (auto simp: send_def split: if_splits)

lemma text_message_not_binary: "text_message lib c = Some m \<Longrightarrow> m \<noteq> WsBinary bs"
  by (auto simp: text_message_def)

lemma error_message_not_binary [simp]: "error_message lib code msg \<noteq> WsBinary bs"
  by (auto simp: error_message_def text_message_def split: option.splits)

lemma map_of_delete_Some: "map_of (AList.delete k m) k' = Some v \<Longrightarrow> map_of m k' = Some v"
  by (simp add: delete_conv' split: if_splits)

lemma length_filter_delete: "length (filter P (AList.delete k m)) \<le> length (filter P m)"
  by (induction m) auto

lemma length_filter_update:
  "length (filter P (AList.update k v m)) \<le> length (filter P m) + (if P (k, v) then 1 else 0)"
  by (induction m) (auto simp: le_Suc_eq)

lemma length_filter_update_same:
  "map_of m k = Some v0 \<Longrightarrow> P (k, v) = P (k, v0) \<Longrightarrow>
     length (filter P (AList.update k v m)) = length (filter P m)"
  by (induction m) auto

text \<open>What \<open>drop_host\<close> leaves.\<close>

lemma fold_delete_sessions:
  "fold (\<lambda>k st. st\<lparr>rl_sessions := AList.delete k (rl_sessions st)\<rparr>) ks st =
     st\<lparr>rl_sessions := filter (\<lambda>p. fst p \<notin> set ks) (rl_sessions st)\<rparr>"
proof (induction ks arbitrary: st)
  case (Cons k ks)
  have "filter (\<lambda>p. fst p \<notin> set ks) (AList.delete k m) = filter (\<lambda>p. fst p \<notin> set (k # ks)) m" for m :: "(rstring \<times> relay_session) list"
    by (induction m) auto
  with Cons show ?case by simp
qed simp

lemma drop_host_eq:
  "drop_host h st = st\<lparr>rl_hosts := AList.delete h (rl_hosts st),
     rl_sessions := filter (\<lambda>p. fst p \<notin> fst ` {p \<in> set (rl_sessions st). rs_host_id (snd p) = h})
       (rl_sessions st)\<rparr>"
  by (simp add: drop_host_def Let_def fold_delete_sessions case_prod_unfold)

lemma drop_host_simps [simp]:
  "rl_hosts (drop_host h st) = AList.delete h (rl_hosts st)"
  "rl_sent (drop_host h st) = rl_sent st"
  "rl_rates (drop_host h st) = rl_rates st"
  "rl_accepted (drop_host h st) = rl_accepted st"
  "rl_next_channel (drop_host h st) = rl_next_channel st"
  by (simp_all add: drop_host_eq)

lemma map_of_filter_fst: "map_of (filter (\<lambda>p. P (fst p)) m) k = (if P k then map_of m k else None)"
  by (induction m) auto

lemma drop_host_sessions:
  assumes "map_of (rl_sessions (drop_host h st)) k = Some s"
  shows "map_of (rl_sessions st) k = Some s \<and> rs_host_id s \<noteq> h"
proof -
  define S where "S = fst ` {p \<in> set (rl_sessions st). rs_host_id (snd p) = h}"
  have "map_of (filter (\<lambda>p. fst p \<notin> S) (rl_sessions st)) k = Some s"
    using assms by (simp add: drop_host_eq S_def)
  then have "k \<notin> S" and s: "map_of (rl_sessions st) k = Some s"
    by (simp_all add: map_of_filter_fst [of "\<lambda>k. k \<notin> S"] split: if_splits)
  with map_of_SomeD [OF s] show ?thesis by (force simp: S_def)
qed

lemma length_filter_filter: "length (filter Q (filter P m)) \<le> length (filter Q m)"
  by (induction m) auto

lemma session_count_drop_host: "session_count h' (drop_host h st) \<le> session_count h' st"
proof -
  obtain P where "rl_sessions (drop_host h st) = filter P (rl_sessions st)" by (simp add: drop_host_eq)
  then show ?thesis by (simp only: session_count_def length_filter_filter)
qed

lemma session_count_dropped: "session_count h (drop_host h st) = 0"
  by (auto simp: session_count_def drop_host_eq filter_empty_conv)

lemma remove_session_simps [simp]:
  "rl_hosts (remove_session k st) = rl_hosts st"
  "rl_sessions (remove_session k st) = AList.delete k (rl_sessions st)"
  "rl_sent (remove_session k st) = rl_sent st"
  "rl_rates (remove_session k st) = rl_rates st"
  "rl_accepted (remove_session k st) = rl_accepted st"
  "rl_next_channel (remove_session k st) = rl_next_channel st"
  by (simp_all add: remove_session_def)

lemma allow_connect_simps [simp]:
  "rl_hosts (fst (allow_connect config ip now st)) = rl_hosts st"
  "rl_sessions (fst (allow_connect config ip now st)) = rl_sessions st"
  "rl_sent (fst (allow_connect config ip now st)) = rl_sent st"
  "rl_accepted (fst (allow_connect config ip now st)) = rl_accepted st"
  "rl_next_channel (fst (allow_connect config ip now st)) = rl_next_channel st"
  by (simp_all add: allow_connect_def Let_def)

lemma client_open_fst: "fst (client_open lib config ip h now st) = fst (allow_connect config ip now st)"
  by (simp add: client_open_def split: prod.splits)

end
