(* ===== verification/Relay_Tasks.thy ===== *)
theory Relay_Tasks
  imports Relay_Server
begin

text \<open>
  The relay's connections as tasks over the shared state, \<open>host_socket\<close> and \<open>client_socket\<close> of
  \<open>maho-relay/src/lib.rs\<close>: a step is what a task does between two points where another task can run.
  The runtime has several worker threads, so a task can also be overtaken where it does not await:
  between the session count and the insertion of a client, and between the registration reply and
  \<open>host_join\<close>. A task in the first of these gaps occupies a worker, of which there are \<open>workers\<close>.
  \<open>drop_host\<close> is one step.

  What the network does is nondeterministic: any message at any time, the end of a stream
  (\<open>None\<close>), the loss of a receiver. A wait that may time out can always fail.
\<close>

type_synonym task = nat

datatype conn_task =
    Fresh
  | HostAuthorised host_id
  | HostServing host_id channel instant
  | HostClosing host_id
  | ClientAwaiting host_id
  | ClientAuthorised host_id
  | ClientAdmitted host_id
  | ClientInserted host_id bytes channel
  | ClientWaiting host_id bytes channel channel
  | ClientServing host_id bytes channel channel instant
  | ClientClosing bytes
  | Gone

record relay_world =
  rw_state :: relay_state
  rw_tasks :: "task \<Rightarrow> conn_task"

definition relay_start :: relay_world where
  "relay_start = \<lparr>rw_state = app_state_new, rw_tasks = (\<lambda>_. Fresh)\<rparr>"

datatype relay_event =
    HostHello task "ws_message option"
  | HostRegistered task host_id instant channel
  | HostSaid task instant "ws_message option"
  | HostTick task
  | HostIdle task instant
  | HostLeft task
  | ClientArrived task ip_addr host_id instant
  | ClientHello task "ws_message option"
  | ClientCounted task
  | ClientInserts task host_id bytes instant channel
  | ClientAnnounced task
  | ClientAnswer task bool instant
  | ClientSaid task instant "ws_message option"
  | ClientIdle task instant
  | ClientLeft task
  | ReceiverGone channel

abbreviation set_task :: "task \<Rightarrow> conn_task \<Rightarrow> relay_world \<Rightarrow> relay_state \<Rightarrow> relay_world" where
  "set_task t c w st \<equiv> w\<lparr>rw_state := st, rw_tasks := (rw_tasks w)(t := c)\<rparr>"

definition admitted_tasks :: "(task \<Rightarrow> conn_task) \<Rightarrow> task set" where
  "admitted_tasks ts = {t. \<exists>h. ts t = ClientAdmitted h}"

inductive relay_step :: "relay_lib \<Rightarrow> relay_config \<Rightarrow> nat \<Rightarrow> relay_world \<Rightarrow> relay_event \<Rightarrow> relay_world \<Rightarrow> bool"
  for lib :: relay_lib and config :: relay_config and workers :: nat
where
  host_hello: "rw_tasks w t = Fresh \<Longrightarrow> host_authenticate lib config m = r \<Longrightarrow>
    relay_step lib config workers w (HostHello t m)
      (set_task t (case r of Inl _ \<Rightarrow> Gone | Inr h \<Rightarrow> HostAuthorised h) w (rw_state w))"
| host_lost: "rw_tasks w t = HostAuthorised h \<Longrightarrow>
    relay_step lib config workers w (HostLeft t) (set_task t Gone w (rw_state w))"
| host_registered: "rw_tasks w t = HostAuthorised h \<Longrightarrow> host_join h (rw_state w) = (st, tx) \<Longrightarrow>
    relay_step lib config workers w (HostRegistered t h now tx) (set_task t (HostServing h tx now) w st)"
| host_said: "rw_tasks w t = HostServing h tx last_seen \<Longrightarrow>
    host_receive lib config h tx m now (rw_state w) = (st, go) \<Longrightarrow>
    relay_step lib config workers w (HostSaid t now m)
      (set_task t (if go then HostServing h tx now else HostClosing h) w st)"
| host_tick: "rw_tasks w t = HostServing h tx last_seen \<Longrightarrow>
    relay_step lib config workers w (HostTick t) (w\<lparr>rw_state := host_ping lib tx (rw_state w)\<rparr>)"
| host_idle: "rw_tasks w t = HostServing h tx last_seen \<Longrightarrow> last_seen + idle_timeout config \<le> now \<Longrightarrow>
    relay_step lib config workers w (HostIdle t now) (set_task t (HostClosing h) w (rw_state w))"
| host_left: "rw_tasks w t = HostClosing h \<Longrightarrow>
    relay_step lib config workers w (HostLeft t) (set_task t Gone w (drop_host h (rw_state w)))"
| client_arrived: "rw_tasks w t = Fresh \<Longrightarrow> client_open lib config ip h now (rw_state w) = (st, r) \<Longrightarrow>
    relay_step lib config workers w (ClientArrived t ip h now)
      (set_task t (case r of None \<Rightarrow> ClientAwaiting h | Some _ \<Rightarrow> Gone) w st)"
| client_hello: "rw_tasks w t = ClientAwaiting h \<Longrightarrow> client_authenticate lib config h m = r \<Longrightarrow>
    relay_step lib config workers w (ClientHello t m)
      (set_task t (case r of None \<Rightarrow> ClientAuthorised h | Some _ \<Rightarrow> Gone) w (rw_state w))"
| client_counted: "rw_tasks w t = ClientAuthorised h \<Longrightarrow> card (admitted_tasks (rw_tasks w)) < workers \<Longrightarrow>
    client_check_limit lib config h (rw_state w) = r \<Longrightarrow>
    relay_step lib config workers w (ClientCounted t)
      (set_task t (case r of None \<Rightarrow> ClientAdmitted h | Some _ \<Rightarrow> Gone) w (rw_state w))"
| client_inserts: "rw_tasks w t = ClientAdmitted h \<Longrightarrow> length u = 16 \<Longrightarrow>
    client_insert_session lib h u now (rw_state w) = (st, tx) \<Longrightarrow>
    relay_step lib config workers w (ClientInserts t h u now tx) (set_task t (ClientInserted h u tx) w st)"
| client_announced: "rw_tasks w t = ClientInserted h u tx \<Longrightarrow> client_notify lib h u (rw_state w) = (st, r) \<Longrightarrow>
    relay_step lib config workers w (ClientAnnounced t)
      (set_task t (case r of Inl _ \<Rightarrow> Gone | Inr host_tx \<Rightarrow> ClientWaiting h u tx host_tx) w st)"
| client_answer: "rw_tasks w t = ClientWaiting h u tx host_tx \<Longrightarrow>
    accepted \<longrightarrow> tx \<in> set (rl_accepted (rw_state w)) \<Longrightarrow>
    client_answered lib u accepted (rw_state w) = (st, reply, go) \<Longrightarrow>
    relay_step lib config workers w (ClientAnswer t accepted now)
      (set_task t (if go then ClientServing h u tx host_tx now else Gone) w st)"
| client_said: "rw_tasks w t = ClientServing h u tx host_tx last_seen \<Longrightarrow>
    client_receive lib config h u host_tx m (rw_state w) = (st, reply, go) \<Longrightarrow>
    relay_step lib config workers w (ClientSaid t now m)
      (set_task t (if go then ClientServing h u tx host_tx (if counts_as_activity m then now else last_seen)
                   else ClientClosing u) w st)"
| client_idle: "rw_tasks w t = ClientServing h u tx host_tx last_seen \<Longrightarrow>
    last_seen + idle_timeout config \<le> now \<Longrightarrow>
    relay_step lib config workers w (ClientIdle t now) (set_task t (ClientClosing u) w (rw_state w))"
| client_lost: "rw_tasks w t = ClientServing h u tx host_tx last_seen \<Longrightarrow>
    relay_step lib config workers w (ClientLeft t)
      (set_task t Gone w (remove_session (rx_uuid_string lib u) (rw_state w)))"
| client_left: "rw_tasks w t = ClientClosing u \<Longrightarrow>
    relay_step lib config workers w (ClientLeft t)
      (set_task t Gone w (remove_session (rx_uuid_string lib u) (rw_state w)))"
| receiver_gone:
    "relay_step lib config workers w (ReceiverGone tx)
      (w\<lparr>rw_state := rw_state w\<lparr>rl_closed := tx # rl_closed (rw_state w)\<rparr>\<rparr>)"

inductive relay_run :: "relay_lib \<Rightarrow> relay_config \<Rightarrow> nat \<Rightarrow> relay_event list \<Rightarrow> relay_world \<Rightarrow> bool"
  for lib :: relay_lib and config :: relay_config and workers :: nat
where
  start: "relay_run lib config workers [] relay_start"
| more: "relay_run lib config workers es w \<Longrightarrow> relay_step lib config workers w e w' \<Longrightarrow>
    relay_run lib config workers (es @ [e]) w'"

inductive_cases relay_stepE: "relay_step lib config workers w e w'"

section \<open>Who a connection is\<close>

definition host_auth :: "relay_lib \<Rightarrow> relay_config \<Rightarrow> relay_event list \<Rightarrow> task \<Rightarrow> host_id \<Rightarrow> bool" where
  "host_auth lib config es t h \<longleftrightarrow>
     (\<exists>txt token. HostHello t (Some (WsText txt)) \<in> set es \<and>
        rx_from_str lib txt = Some (Register h token) \<and> relay_host_id_ok h \<and>
        relay_token_matches (rx_mac lib) (auth_secret config) h token)"

definition client_auth :: "relay_lib \<Rightarrow> relay_config \<Rightarrow> relay_event list \<Rightarrow> task \<Rightarrow> host_id \<Rightarrow> bool" where
  "client_auth lib config es t h \<longleftrightarrow>
     (\<exists>txt token. ClientHello t (Some (WsText txt)) \<in> set es \<and>
        rx_from_str lib txt = Some (Connect h token) \<and>
        relay_token_matches (rx_mac lib) (auth_secret config) h token)"

lemma host_authenticate_Inr:
  "host_authenticate lib config m = Inr h \<longleftrightarrow>
     (\<exists>txt token. m = Some (WsText txt) \<and> rx_from_str lib txt = Some (Register h token) \<and>
        relay_host_id_ok h \<and> relay_token_matches (rx_mac lib) (auth_secret config) h token)"
  by (auto simp: host_authenticate_def split: option.splits ws_message.splits relay_control.splits)

lemma client_authenticate_None:
  "client_authenticate lib config h m = None \<longleftrightarrow>
     (\<exists>txt token. m = Some (WsText txt) \<and> rx_from_str lib txt = Some (Connect h token) \<and>
        relay_token_matches (rx_mac lib) (auth_secret config) h token)"
  by (auto simp: client_authenticate_def split: option.splits ws_message.splits relay_control.splits)

end
