(* ===== verification/Relay_Isolation.thy ===== *)
theory Relay_Isolation
  imports Relay_Tasks
begin

text \<open>
  What every reachable state of the relay satisfies: each channel belongs to one authenticated
  connection, and each forwarded frame can be traced back to the message that carried it. The
  facts speak of the events so far and only grow with them, so a step needs to look at what it adds.
\<close>

section \<open>Provenance of channels and frames\<close>

definition host_chan :: "relay_lib \<Rightarrow> relay_config \<Rightarrow> relay_event list \<Rightarrow> host_id \<Rightarrow> channel \<Rightarrow> bool" where
  "host_chan lib config es h c \<longleftrightarrow>
     (\<exists>t now. HostRegistered t h now c \<in> set es \<and> host_auth lib config es t h)"

definition client_chan ::
  "relay_lib \<Rightarrow> relay_config \<Rightarrow> relay_event list \<Rightarrow> task \<Rightarrow> host_id \<Rightarrow> bytes \<Rightarrow> channel \<Rightarrow> bool" where
  "client_chan lib config es t h u c \<longleftrightarrow> length u = 16 \<and> client_auth lib config es t h \<and>
     (\<exists>now. ClientInserts t h u now c \<in> set es)"

definition accepted_by :: "relay_lib \<Rightarrow> relay_config \<Rightarrow> relay_event list \<Rightarrow> host_id \<Rightarrow> bytes \<Rightarrow> bool" where
  "accepted_by lib config es h u \<longleftrightarrow>
     (\<exists>t now txt. HostSaid t now (Some (WsText txt)) \<in> set es \<and> host_auth lib config es t h \<and>
        rx_from_str lib txt = Some (Accept (rx_uuid_string lib u)))"

definition to_client :: "relay_lib \<Rightarrow> relay_config \<Rightarrow> relay_event list \<Rightarrow> channel \<Rightarrow> bytes \<Rightarrow> bool" where
  "to_client lib config es c bs \<longleftrightarrow>
     (\<exists>t h u frame t' now. client_chan lib config es t h u c \<and>
        decode_relay_frame bs = Inr frame \<and> rf_session_id frame = u \<and>
        host_auth lib config es t' h \<and> HostSaid t' now (Some (WsBinary bs)) \<in> set es)"

definition to_host :: "relay_lib \<Rightarrow> relay_config \<Rightarrow> relay_event list \<Rightarrow> channel \<Rightarrow> bytes \<Rightarrow> bool" where
  "to_host lib config es c bs \<longleftrightarrow>
     (\<exists>t h u tx now bs'. host_chan lib config es h c \<and> client_chan lib config es t h u tx \<and>
        ClientSaid t now (Some (WsBinary bs')) \<in> set es \<and>
        bs = u @ drop 16 bs' \<and> (take 16 bs' = u \<or> take 16 bs' = replicate 16 0))"

lemmas provenance_defs = host_chan_def client_chan_def accepted_by_def to_client_def to_host_def
  host_auth_def client_auth_def

lemma provenance_mono [intro]:
  "host_auth lib config es t h \<Longrightarrow> host_auth lib config (es @ fs) t h"
  "client_auth lib config es t h \<Longrightarrow> client_auth lib config (es @ fs) t h"
  "host_chan lib config es h c \<Longrightarrow> host_chan lib config (es @ fs) h c"
  "client_chan lib config es t h u c \<Longrightarrow> client_chan lib config (es @ fs) t h u c"
  "accepted_by lib config es h u \<Longrightarrow> accepted_by lib config (es @ fs) h u"
  by (fastforce simp: provenance_defs)+

lemma provenance_mono' [intro]:
  "to_client lib config es c bs \<Longrightarrow> to_client lib config (es @ fs) c bs"
  "to_host lib config es c bs \<Longrightarrow> to_host lib config (es @ fs) c bs"
  unfolding to_client_def to_host_def set_append Un_iff by (blast intro: provenance_mono)+

section \<open>The shared state\<close>

definition session_ok :: "relay_lib \<Rightarrow> relay_config \<Rightarrow> relay_event list \<Rightarrow> rstring \<Rightarrow> relay_session \<Rightarrow> bool" where
  "session_ok lib config es k s \<longleftrightarrow>
     (\<exists>t u. client_chan lib config es t (rs_host_id s) u (rs_client_tx s) \<and> k = rx_uuid_string lib u) \<and>
     (rs_accept_tx s = None \<or> rs_accept_tx s = Some (rs_client_tx s))"

definition state_ok :: "relay_lib \<Rightarrow> relay_config \<Rightarrow> relay_event list \<Rightarrow> relay_state \<Rightarrow> bool" where
  "state_ok lib config es st \<longleftrightarrow>
     (\<forall>h c. map_of (rl_hosts st) h = Some c \<longrightarrow> host_chan lib config es h c) \<and>
     (\<forall>k s. map_of (rl_sessions st) k = Some s \<longrightarrow> session_ok lib config es k s) \<and>
     (\<forall>c \<in> set (rl_accepted st). \<exists>t h u. client_chan lib config es t h u c \<and> accepted_by lib config es h u) \<and>
     (\<forall>c bs. (c, WsBinary bs) \<in> set (rl_sent st) \<longrightarrow> to_client lib config es c bs \<or> to_host lib config es c bs)"

lemma session_ok_mono [intro]: "session_ok lib config es k s \<Longrightarrow> session_ok lib config (es @ fs) k s"
  by (auto simp: session_ok_def)

lemma state_ok_mono [intro]: "state_ok lib config es st \<Longrightarrow> state_ok lib config (es @ fs) st"
  unfolding state_ok_def by (intro conjI allI impI ballI) (blast intro: provenance_mono provenance_mono')+

lemma state_ok_new [simp]: "state_ok lib config es app_state_new"
  by (simp add: state_ok_def app_state_new_def)

lemma state_ok_fields:
  "state_ok lib config es st \<Longrightarrow> state_ok lib config es (st\<lparr>rl_closed := x\<rparr>)"
  "state_ok lib config es st \<Longrightarrow> state_ok lib config es (st\<lparr>rl_rates := y\<rparr>)"
  "state_ok lib config es st \<Longrightarrow> state_ok lib config es (st\<lparr>rl_next_channel := z\<rparr>)"
  by (simp_all add: state_ok_def)

lemma state_ok_send:
  assumes "state_ok lib config es st"
    and "\<And>bs. m = WsBinary bs \<Longrightarrow> to_client lib config es tx bs \<or> to_host lib config es tx bs"
  shows "state_ok lib config es (fst (send tx m st))"
  using assms unfolding state_ok_def by (auto dest!: sent_send)

lemma state_ok_remove_session:
  "state_ok lib config es st \<Longrightarrow> state_ok lib config es (remove_session k st)"
  by (auto simp: state_ok_def dest: map_of_delete_Some)

lemma state_ok_drop_host: "state_ok lib config es st \<Longrightarrow> state_ok lib config es (drop_host h st)"
  by (auto simp: state_ok_def dest: map_of_delete_Some drop_host_sessions)

lemma state_ok_session:
  assumes "state_ok lib config es st" and "session_ok lib config es k s"
  shows "state_ok lib config es (st\<lparr>rl_sessions := AList.update k s (rl_sessions st)\<rparr>)"
  using assms by (auto simp: state_ok_def update_conv' split: if_splits)

lemma state_ok_host_join:
  assumes "state_ok lib config es st" and "host_join h st = (st', tx)" and "host_chan lib config es h tx"
  shows "state_ok lib config es st'"
proof -
  let ?d = "drop_host h (st\<lparr>rl_next_channel := rl_next_channel st + 1\<rparr>)"
  have "state_ok lib config es ?d"
    by (rule state_ok_drop_host [OF state_ok_fields(3) [OF assms(1)]])
  then have "state_ok lib config es (?d\<lparr>rl_hosts := AList.update h tx (rl_hosts ?d)\<rparr>)"
    using assms(3) unfolding state_ok_def by (auto simp: update_conv' split: if_splits)
  then show ?thesis
    using assms(2) by (auto simp: host_join_def unbounded_channel_def Let_def)
qed

section \<open>What each operation adds\<close>

lemma decode_session_id: "decode_relay_frame bs = Inr frame \<Longrightarrow>
    rf_session_id frame = take 16 bs \<and> length (rf_session_id frame) = 16"
  by (auto simp: decode_relay_frame_def Let_def RELAY_FRAME_HEADER_LEN_def split: if_splits)

lemma state_ok_send_text:
  "state_ok lib config es st \<Longrightarrow> (\<And>bs. m \<noteq> WsBinary bs) \<Longrightarrow> state_ok lib config es (fst (send tx m st))"
  by (rule state_ok_send) auto

lemma state_ok_handle_host_text:
  assumes ok: "state_ok lib config es st" and auth: "host_auth lib config es t h"
    and said: "HostSaid t now (Some (WsText txt)) \<in> set es"
  shows "state_ok lib config es (handle_host_text lib h txt tx st)"
proof (cases "\<exists>sid s o'. rx_from_str lib txt = Some (Accept sid) \<and> map_of (rl_sessions st) sid = Some s \<and>
    rs_host_id s = h \<and> rs_accept_tx s = Some o'")
  case True
  then obtain sid s o' where parsed: "rx_from_str lib txt = Some (Accept sid)"
    and s: "map_of (rl_sessions st) sid = Some s" "rs_host_id s = h" "rs_accept_tx s = Some o'"
    by blast
  have s_ok: "session_ok lib config es sid s" using ok s(1) by (simp add: state_ok_def)
  then obtain t' u where chan: "client_chan lib config es t' h u o'" and sid: "sid = rx_uuid_string lib u"
    using s by (auto simp: session_ok_def)
  have "accepted_by lib config es h u"
    using said auth parsed sid by (auto simp: accepted_by_def)
  moreover have "session_ok lib config es sid (s\<lparr>rs_accept_tx := None\<rparr>)"
    using s_ok by (simp add: session_ok_def)
  from state_ok_session [OF ok this]
  have "state_ok lib config es (st\<lparr>rl_sessions := AList.update sid (s\<lparr>rs_accept_tx := None\<rparr>) (rl_sessions st)\<rparr>)" .
  ultimately show ?thesis
    using parsed s chan by (auto simp: handle_host_text_def state_ok_def)
next
  case False
  then show ?thesis
    by (auto simp: handle_host_text_def ok intro!: state_ok_send_text split: option.splits relay_control.splits)
qed

lemma state_ok_forward_from_host:
  assumes ok: "state_ok lib config es st" and auth: "host_auth lib config es t h"
    and said: "HostSaid t now' (Some (WsBinary bs)) \<in> set es"
    and inj: "inj_on (rx_uuid_string lib) {u. length u = 16}"
  shows "state_ok lib config es (fst (forward_from_host lib config h bs tx now st))"
proof -
  have forwarded: "to_client lib config es (rs_client_tx s) bs"
    if frame: "decode_relay_frame bs = Inr frame"
      and s: "map_of (rl_sessions st) (rx_uuid_string lib (rf_session_id frame)) = Some s" "rs_host_id s = h"
    for frame s
  proof -
    from ok s(1) have "session_ok lib config es (rx_uuid_string lib (rf_session_id frame)) s"
      by (simp add: state_ok_def)
    with s(2) obtain t' u where chan: "client_chan lib config es t' h u (rs_client_tx s)"
      and "rx_uuid_string lib (rf_session_id frame) = rx_uuid_string lib u"
      unfolding session_ok_def by blast
    then have "rf_session_id frame = u"
      using inj_onD [OF inj] decode_session_id [OF frame] by (auto simp: client_chan_def)
    with chan frame auth said show ?thesis by (auto simp: to_client_def)
  qed
  show ?thesis
    by (auto simp: forward_from_host_def Let_def ok
        intro!: state_ok_send_text state_ok_remove_session state_ok_send forwarded split: sum.splits option.splits)
qed

lemma state_ok_host_receive:
  assumes "state_ok lib config es st" and "host_auth lib config es t h"
    and "HostSaid t now m \<in> set es" and "inj_on (rx_uuid_string lib) {u. length u = 16}"
    and "host_receive lib config h tx m now st = (st', go)"
  shows "state_ok lib config es st'"
proof -
  have "st' = fst (host_receive lib config h tx m now st)" using assms(5) by simp
  also have "state_ok lib config es \<dots>"
    using assms(1-4)
    by (auto simp: host_receive_def split: option.splits ws_message.splits
        intro: state_ok_handle_host_text state_ok_forward_from_host state_ok_send_text)
  finally show ?thesis .
qed

lemma state_ok_host_ping: "state_ok lib config es st \<Longrightarrow> state_ok lib config es (host_ping lib tx st)"
  by (auto simp: host_ping_def intro: state_ok_send_text dest: text_message_not_binary split: option.splits)

lemma state_ok_client_open:
  assumes "state_ok lib config es st"
  shows "state_ok lib config es (fst (client_open lib config ip h now st))"
  using assms unfolding client_open_fst by (auto simp: allow_connect_def Let_def state_ok_fields)

lemma state_ok_client_insert:
  assumes "state_ok lib config es st" and "client_insert_session lib h u now st = (st', tx)"
    and "client_chan lib config es t h u tx"
  shows "state_ok lib config es st'"
proof -
  let ?s = "\<lparr>rs_host_id = h, rs_client_tx = tx, rs_accept_tx = Some tx, rs_created = now\<rparr>"
  have "session_ok lib config es (rx_uuid_string lib u) ?s"
    using assms(3) by (auto simp: session_ok_def)
  from state_ok_session [OF state_ok_fields(3) [OF assms(1)] this, of "tx + 1"] assms(2)
  show ?thesis by (auto simp: client_insert_session_def unbounded_channel_def)
qed

lemma state_ok_client_notify:
  assumes "state_ok lib config es st" and "client_notify lib h u st = (st', r)"
  shows "state_ok lib config es st'"
proof (cases "text_message lib (Incoming (rx_uuid_string lib u))")
  case None
  then show ?thesis using assms by (auto simp: client_notify_def state_ok_remove_session)
next
  case (Some m)
  show ?thesis
  proof (cases "map_of (rl_hosts st) h")
    case None
    then show ?thesis using assms Some by (auto simp: client_notify_def state_ok_remove_session)
  next
    case (Some c)
    obtain st1 b where "send c m st = (st1, b)" by (cases "send c m st")
    moreover from this state_ok_send_text [OF assms(1), of m c]
    have "state_ok lib config es st1"
      using text_message_not_binary \<open>text_message _ _ = Some m\<close> by auto
    ultimately show ?thesis
      using assms(2) Some \<open>text_message _ _ = Some m\<close>
      by (auto simp: client_notify_def Let_def state_ok_remove_session split: if_splits)
  qed
qed

lemma state_ok_client_answered:
  assumes "state_ok lib config es st" and "client_answered lib u accepted st = (st', reply, go)"
  shows "state_ok lib config es st'"
  using assms by (auto simp: client_answered_def Let_def state_ok_remove_session split: if_splits option.splits)

lemma state_ok_client_receive:
  assumes ok: "state_ok lib config es st" and chan: "client_chan lib config es t h u tx"
    and host: "host_chan lib config es h host_tx"
    and said: "ClientSaid t now m \<in> set es"
    and r: "client_receive lib config h u host_tx m st = (st', reply, go)"
  shows "state_ok lib config es st'"
proof -
  have *: "state_ok lib config es (fst (forward_from_client lib h u bs k host_tx st))"
    if "m = Some (WsBinary bs)" for bs k
  proof -
    have "to_host lib config es host_tx (if take 16 bs = replicate 16 0 then u @ drop 16 bs else bs)"
      if "take 16 bs = u \<or> take 16 bs = replicate 16 0"
      using that chan host said \<open>m = Some (WsBinary bs)\<close> unfolding to_host_def
      by (metis append_take_drop_id)
    then show ?thesis
      by (auto simp: forward_from_client_def Let_def ok dest!: decode_session_id
          intro!: state_ok_send split: sum.splits option.splits)
  qed
  have "st' = fst (client_receive lib config h u host_tx m st)" using r by simp
  also have "state_ok lib config es \<dots>"
    using * by (auto simp: client_receive_def ok split: option.splits ws_message.splits prod.splits)
       (metis fst_conv)+
  finally show ?thesis .
qed

section \<open>Channels are allocated once\<close>

fun event_channel :: "relay_event \<Rightarrow> channel list" where
  "event_channel (HostRegistered _ _ _ c) = [c]"
| "event_channel (ClientInserts _ _ _ _ c) = [c]"
| "event_channel _ = []"

definition channels :: "relay_event list \<Rightarrow> channel list" where
  "channels es = concat (map event_channel es)"

definition channels_ok :: "relay_event list \<Rightarrow> relay_state \<Rightarrow> bool" where
  "channels_ok es st \<longleftrightarrow> distinct (channels es) \<and> (\<forall>c \<in> set (channels es). c < rl_next_channel st)"

lemma channels_unique:
  "distinct (channels es) \<Longrightarrow> e \<in> set es \<Longrightarrow> e' \<in> set es \<Longrightarrow>
     c \<in> set (event_channel e) \<Longrightarrow> c \<in> set (event_channel e') \<Longrightarrow> e = e'"
  by (induction es) (auto simp: channels_def)

lemma client_chan_unique:
  assumes "channels_ok es st" and "client_chan lib config es t h u c" and "client_chan lib config es t' h' u' c"
  shows "t = t' \<and> h = h' \<and> u = u'"
  using assms channels_unique [of es "ClientInserts t h u _ c" "ClientInserts t' h' u' _ c" c]
  by (auto simp: channels_ok_def client_chan_def)

lemma next_channel_simps:
  "rl_next_channel (handle_host_text lib h txt tx st) = rl_next_channel st"
  "rl_next_channel (fst (forward_from_host lib config h bs tx now st)) = rl_next_channel st"
  "rl_next_channel (host_ping lib tx st) = rl_next_channel st"
  "rl_next_channel (fst (client_answered lib u accepted st)) = rl_next_channel st"
  "rl_next_channel (fst (forward_from_client lib h u bs k host_tx st)) = rl_next_channel st"
  by (auto simp: handle_host_text_def forward_from_host_def host_ping_def client_answered_def
      forward_from_client_def Let_def split: option.splits relay_control.splits sum.splits)

lemma next_channel_step:
  "host_receive lib config h tx m now st = (st', go) \<Longrightarrow> rl_next_channel st' = rl_next_channel st"
  "client_notify lib h u st = (st', r) \<Longrightarrow> rl_next_channel st' = rl_next_channel st"
  "client_answered lib u accepted st = (st', reply, go) \<Longrightarrow> rl_next_channel st' = rl_next_channel st"
  "client_receive lib config h u host_tx m st = (st', reply, go) \<Longrightarrow> rl_next_channel st' = rl_next_channel st"
  "client_open lib config ip h now st = (st', refused) \<Longrightarrow> rl_next_channel st' = rl_next_channel st"
  subgoal
    using next_channel_simps(1,2) [of lib]
    by (auto simp: host_receive_def split: option.splits ws_message.splits) (metis fst_conv)
  subgoal
    by (auto simp: client_notify_def Let_def split: option.splits prod.splits if_splits)
       (metis fst_conv send_simps(5))+
  subgoal using next_channel_simps(4) by (metis fst_conv)
  subgoal
    using next_channel_simps(5) [of lib h u]
    by (auto simp: client_receive_def split: option.splits ws_message.splits prod.splits if_splits)
       (metis fst_conv)+
  subgoal using client_open_fst allow_connect_simps(5) by (metis fst_conv)
  done

section \<open>Tasks\<close>

fun task_ok :: "relay_lib \<Rightarrow> relay_config \<Rightarrow> relay_event list \<Rightarrow> task \<Rightarrow> conn_task \<Rightarrow> bool" where
  "task_ok lib config es t (HostAuthorised h) = host_auth lib config es t h"
| "task_ok lib config es t (HostServing h tx _) =
     (host_auth lib config es t h \<and> (\<exists>now. HostRegistered t h now tx \<in> set es))"
| "task_ok lib config es t (ClientAuthorised h) = client_auth lib config es t h"
| "task_ok lib config es t (ClientAdmitted h) = client_auth lib config es t h"
| "task_ok lib config es t (ClientInserted h u tx) = client_chan lib config es t h u tx"
| "task_ok lib config es t (ClientWaiting h u tx host_tx) =
     (client_chan lib config es t h u tx \<and> host_chan lib config es h host_tx)"
| "task_ok lib config es t (ClientServing h u tx host_tx _) =
     (client_chan lib config es t h u tx \<and> host_chan lib config es h host_tx \<and> accepted_by lib config es h u)"
| "task_ok lib config es t _ = True"

lemma task_ok_mono [intro]: "task_ok lib config es t c \<Longrightarrow> task_ok lib config (es @ fs) t c"
  by (cases c) auto

definition relay_inv :: "relay_lib \<Rightarrow> relay_config \<Rightarrow> relay_event list \<Rightarrow> relay_world \<Rightarrow> bool" where
  "relay_inv lib config es w \<longleftrightarrow> state_ok lib config es (rw_state w) \<and> channels_ok es (rw_state w) \<and>
     (\<forall>t. task_ok lib config es t (rw_tasks w t))"

lemma relay_inv_set_task:
  assumes "relay_inv lib config es w" and "state_ok lib config (es @ [e]) st"
    and "channels_ok (es @ [e]) st" and "task_ok lib config (es @ [e]) t c"
  shows "relay_inv lib config (es @ [e]) (set_task t c w st)"
  using assms by (auto simp: relay_inv_def)

lemma channels_ok_same:
  "channels_ok es st \<Longrightarrow> event_channel e = [] \<Longrightarrow> rl_next_channel st' = rl_next_channel st \<Longrightarrow>
     channels_ok (es @ [e]) st'"
  by (simp add: channels_ok_def channels_def)

lemma channels_ok_new:
  "channels_ok es st \<Longrightarrow> event_channel e = [rl_next_channel st] \<Longrightarrow>
     rl_next_channel st' = rl_next_channel st + 1 \<Longrightarrow> channels_ok (es @ [e]) st'"
  by (auto simp: channels_ok_def channels_def less_Suc_eq)

lemma host_join_channel: "host_join h st = (st', tx) \<Longrightarrow>
    tx = rl_next_channel st \<and> rl_next_channel st' = rl_next_channel st + 1"
  by (auto simp: host_join_def unbounded_channel_def Let_def)

lemma client_insert_channel: "client_insert_session lib h u now st = (st', tx) \<Longrightarrow>
    tx = rl_next_channel st \<and> rl_next_channel st' = rl_next_channel st + 1"
  by (auto simp: client_insert_session_def unbounded_channel_def)

lemma client_notify_host: "client_notify lib h u st = (st', Inr c) \<Longrightarrow> map_of (rl_hosts st) h = Some c"
  by (auto simp: client_notify_def Let_def split: option.splits prod.splits if_splits)

lemma client_answered_go: "client_answered lib u accepted st = (st', reply, True) \<Longrightarrow> accepted"
  by (auto simp: client_answered_def Let_def split: if_splits option.splits)

lemma relay_inv_step:
  assumes inv: "relay_inv lib config es w" and step: "relay_step lib config workers w e w'"
    and inj: "inj_on (rx_uuid_string lib) {u. length u = 16}"
  shows "relay_inv lib config (es @ [e]) w'"
proof -
  let ?es = "es @ [e]"
  have ok: "state_ok lib config ?es (rw_state w)" and chans: "channels_ok es (rw_state w)"
    and tasks: "\<And>t. task_ok lib config ?es t (rw_tasks w t)"
    using inv by (auto simp: relay_inv_def)
  note set_task = relay_inv_set_task [OF inv]
  note set_only = relay_inv_set_task [OF inv, where st = "rw_state w", simplified]
  note same = channels_ok_same [OF chans]
  note new = channels_ok_new [OF chans]
  from step show ?thesis
  proof cases
    case (host_hello t m r)
    have "task_ok lib config ?es t (case r of Inl _ \<Rightarrow> Gone | Inr h \<Rightarrow> HostAuthorised h)"
      using host_hello by (auto simp: host_auth_def host_authenticate_Inr split: sum.split) blast
    with ok show ?thesis unfolding host_hello(2)
      by (intro set_task) (auto simp: host_hello(1) intro: same)
  next
    case (host_registered t h st tx now)
    have auth: "host_auth lib config ?es t h" using tasks [of t] host_registered by simp
    have "host_chan lib config ?es h tx" using auth host_registered by (auto simp: host_chan_def)
    from state_ok_host_join [OF ok host_registered(4) this] host_join_channel [OF host_registered(4)] auth
    show ?thesis unfolding host_registered(2)
      by (intro set_task) (auto simp: host_registered(1) intro: new)
  next
    case (host_said t h tx last_seen m now st go)
    have auth: "host_auth lib config ?es t h" "\<exists>n. HostRegistered t h n tx \<in> set ?es"
      using tasks [of t] host_said by simp_all
    have "state_ok lib config ?es st"
      by (rule state_ok_host_receive [OF ok auth(1) _ inj host_said(4)]) (simp add: host_said(1))
    with auth next_channel_step(1) [OF host_said(4)] show ?thesis unfolding host_said(2)
      by (intro set_task) (auto simp: host_said(1) intro: same)
  next
    case (client_inserts t h u now st tx)
    have "client_chan lib config ?es t h u tx"
      using tasks [of t] client_inserts by (auto simp: client_chan_def)
    with state_ok_client_insert [OF ok client_inserts(5) this] client_insert_channel [OF client_inserts(5)]
    show ?thesis unfolding client_inserts(2)
      by (intro set_task) (auto simp: client_inserts(1) intro: new)
  next
    case (client_announced t h u tx st r)
    have "task_ok lib config ?es t (case r of Inl _ \<Rightarrow> Gone | Inr c \<Rightarrow> ClientWaiting h u tx c)"
      using tasks [of t] client_announced ok client_notify_host
      by (auto simp: state_ok_def split: sum.split)
    with state_ok_client_notify [OF ok client_announced(4)] next_channel_step(2) [OF client_announced(4)]
    show ?thesis unfolding client_announced(2)
      by (intro set_task) (auto simp: client_announced(1) intro: same)
  next
    case (client_answer t h u tx host_tx accepted st reply go now)
    have chan: "client_chan lib config ?es t h u tx" "host_chan lib config ?es h host_tx"
      using tasks [of t] client_answer by simp_all
    have acc: "accepted_by lib config ?es h u" if go
    proof -
      from that client_answer(5) have "accepted" using client_answered_go [of lib u accepted] by simp
      with client_answer(4) have "tx \<in> set (rl_accepted (rw_state w))" by simp
      with ok obtain t' h' u' where "client_chan lib config ?es t' h' u' tx" "accepted_by lib config ?es h' u'"
        unfolding state_ok_def by blast
      moreover from same [of e "rw_state w"] client_answer(1) have "channels_ok ?es (rw_state w)" by simp
      ultimately show ?thesis using client_chan_unique [OF _ chan(1)] by blast
    qed
    with chan state_ok_client_answered [OF ok client_answer(5)] next_channel_step(3) [OF client_answer(5)]
    show ?thesis unfolding client_answer(2)
      by (intro set_task) (auto simp: client_answer(1) intro: same)
  next
    case (client_said t h u tx host_tx last_seen m st reply go now)
    have chan: "client_chan lib config ?es t h u tx" "host_chan lib config ?es h host_tx"
      "accepted_by lib config ?es h u"
      using tasks [of t] client_said by simp_all
    have "state_ok lib config ?es st"
      by (rule state_ok_client_receive [OF ok chan(1,2) _ client_said(4), where now = now]) (simp add: client_said(1))
    with chan next_channel_step(4) [OF client_said(4)] show ?thesis unfolding client_said(2)
      by (intro set_task) (auto simp: client_said(1) intro: same)
  next
    case (client_arrived t ip h now st r)
    have "state_ok lib config ?es st"
      using state_ok_client_open [OF ok] client_arrived(4) by (metis fst_conv)
    with next_channel_step(5) [OF client_arrived(4)] show ?thesis unfolding client_arrived(2)
      by (intro set_task) (auto simp: client_arrived(1) intro: same split: option.split)
  next
    case (client_hello t h m r)
    have "task_ok lib config ?es t (case r of None \<Rightarrow> ClientAuthorised h | Some _ \<Rightarrow> Gone)"
      using client_hello by (auto simp: client_auth_def client_authenticate_None split: option.split) blast
    with ok show ?thesis unfolding client_hello(2)
      by (intro set_task) (auto simp: client_hello(1) intro: same)
  next
    case (client_counted t h r)
    with ok tasks [of t] show ?thesis unfolding client_counted(2)
      by (intro set_task) (auto simp: client_counted(1) intro: same split: option.split)
  next
    case (host_tick t h tx last_seen)
    then show ?thesis
      using state_ok_host_ping [OF ok] same [of e "host_ping lib tx (rw_state w)"] tasks
      by (auto simp: relay_inv_def next_channel_simps)
  next
    case (receiver_gone tx)
    then show ?thesis
      using state_ok_fields(1) [OF ok] same [of e] tasks by (auto simp: relay_inv_def)
  qed (use ok tasks in \<open>auto intro!: set_task set_only same state_ok_drop_host state_ok_remove_session\<close>)
qed

lemma relay_inv_run:
  assumes "relay_run lib config workers es w" and "inj_on (rx_uuid_string lib) {u. length u = 16}"
  shows "relay_inv lib config es w"
  using assms(1)
proof induction
  case start
  show ?case by (simp add: relay_inv_def relay_start_def channels_ok_def channels_def)
next
  case (more es w e w')
  then show ?case using relay_inv_step assms(2) by blast
qed

end
