(* ===== verification/Relay_Exec.thy ===== *)
theory Relay_Exec
  imports Relay_Isolation
begin

text \<open>
  The step relation of the relay as a function of the event, so that concrete runs evaluate, the
  equivalence of the two, and a sample relay.
\<close>

fun relay_exec ::
  "relay_lib \<Rightarrow> relay_config \<Rightarrow> nat \<Rightarrow> relay_event \<Rightarrow> relay_world \<Rightarrow> relay_world option" where
  "relay_exec lib config workers (HostHello t m) w =
     (if rw_tasks w t \<noteq> Fresh then None
      else Some (set_task t (case host_authenticate lib config m of Inl _ \<Rightarrow> Gone | Inr h \<Rightarrow> HostAuthorised h)
             w (rw_state w)))"
| "relay_exec lib config workers (HostRegistered t h now tx) w =
     (if rw_tasks w t \<noteq> HostAuthorised h \<or> snd (host_join h (rw_state w)) \<noteq> tx then None
      else Some (set_task t (HostServing h tx now) w (fst (host_join h (rw_state w)))))"
| "relay_exec lib config workers (HostSaid t now m) w =
     (case rw_tasks w t of
        HostServing h tx last_seen \<Rightarrow>
          (case host_receive lib config h tx m now (rw_state w) of
             (st, go) \<Rightarrow> Some (set_task t (if go then HostServing h tx now else HostClosing h) w st))
      | _ \<Rightarrow> None)"
| "relay_exec lib config workers (HostTick t) w =
     (case rw_tasks w t of
        HostServing h tx last_seen \<Rightarrow> Some (w\<lparr>rw_state := host_ping lib tx (rw_state w)\<rparr>)
      | _ \<Rightarrow> None)"
| "relay_exec lib config workers (HostIdle t now) w =
     (case rw_tasks w t of
        HostServing h tx last_seen \<Rightarrow>
          if last_seen + idle_timeout config \<le> now then Some (set_task t (HostClosing h) w (rw_state w)) else None
      | _ \<Rightarrow> None)"
| "relay_exec lib config workers (HostLeft t) w =
     (case rw_tasks w t of
        HostAuthorised h \<Rightarrow> Some (set_task t Gone w (rw_state w))
      | HostClosing h \<Rightarrow> Some (set_task t Gone w (drop_host h (rw_state w)))
      | _ \<Rightarrow> None)"
| "relay_exec lib config workers (ClientArrived t ip h now) w =
     (if rw_tasks w t \<noteq> Fresh then None
      else (case client_open lib config ip h now (rw_state w) of
              (st, r) \<Rightarrow> Some (set_task t (case r of None \<Rightarrow> ClientAwaiting h | Some _ \<Rightarrow> Gone) w st)))"
| "relay_exec lib config workers (ClientHello t m) w =
     (case rw_tasks w t of
        ClientAwaiting h \<Rightarrow>
          Some (set_task t (case client_authenticate lib config h m of
                              None \<Rightarrow> ClientAuthorised h | Some _ \<Rightarrow> Gone) w (rw_state w))
      | _ \<Rightarrow> None)"
| "relay_exec lib config workers (ClientCounted t) w =
     (case rw_tasks w t of
        ClientAuthorised h \<Rightarrow>
          if card (admitted_tasks (rw_tasks w)) < workers
          then Some (set_task t (case client_check_limit lib config h (rw_state w) of
                                   None \<Rightarrow> ClientAdmitted h | Some _ \<Rightarrow> Gone) w (rw_state w))
          else None
      | _ \<Rightarrow> None)"
| "relay_exec lib config workers (ClientInserts t h u now tx) w =
     (if rw_tasks w t \<noteq> ClientAdmitted h \<or> length u \<noteq> 16 \<or>
         snd (client_insert_session lib h u now (rw_state w)) \<noteq> tx then None
      else Some (set_task t (ClientInserted h u tx) w (fst (client_insert_session lib h u now (rw_state w)))))"
| "relay_exec lib config workers (ClientAnnounced t) w =
     (case rw_tasks w t of
        ClientInserted h u tx \<Rightarrow>
          (case client_notify lib h u (rw_state w) of
             (st, r) \<Rightarrow>
               Some (set_task t (case r of Inl _ \<Rightarrow> Gone | Inr host_tx \<Rightarrow> ClientWaiting h u tx host_tx) w st))
      | _ \<Rightarrow> None)"
| "relay_exec lib config workers (ClientAnswer t accepted now) w =
     (case rw_tasks w t of
        ClientWaiting h u tx host_tx \<Rightarrow>
          if accepted \<and> tx \<notin> set (rl_accepted (rw_state w)) then None
          else (case client_answered lib u accepted (rw_state w) of
                  (st, reply, go) \<Rightarrow>
                    Some (set_task t (if go then ClientServing h u tx host_tx now else Gone) w st))
      | _ \<Rightarrow> None)"
| "relay_exec lib config workers (ClientSaid t now m) w =
     (case rw_tasks w t of
        ClientServing h u tx host_tx last_seen \<Rightarrow>
          (case client_receive lib config h u host_tx m (rw_state w) of
             (st, reply, go) \<Rightarrow>
               Some (set_task t
                 (if go then ClientServing h u tx host_tx (if counts_as_activity m then now else last_seen)
                  else ClientClosing u) w st))
      | _ \<Rightarrow> None)"
| "relay_exec lib config workers (ClientIdle t now) w =
     (case rw_tasks w t of
        ClientServing h u tx host_tx last_seen \<Rightarrow>
          if last_seen + idle_timeout config \<le> now then Some (set_task t (ClientClosing u) w (rw_state w)) else None
      | _ \<Rightarrow> None)"
| "relay_exec lib config workers (ClientLeft t) w =
     (case rw_tasks w t of
        ClientServing h u tx host_tx last_seen \<Rightarrow>
          Some (set_task t Gone w (remove_session (rx_uuid_string lib u) (rw_state w)))
      | ClientClosing u \<Rightarrow> Some (set_task t Gone w (remove_session (rx_uuid_string lib u) (rw_state w)))
      | _ \<Rightarrow> None)"
| "relay_exec lib config workers (ReceiverGone tx) w =
     Some (w\<lparr>rw_state := rw_state w\<lparr>rl_closed := tx # rl_closed (rw_state w)\<rparr>\<rparr>)"

text \<open>Each event determines the step.\<close>

lemma relay_step_exec:
  "relay_step lib config workers w e w' \<Longrightarrow> relay_exec lib config workers e w = Some w'"
  by (induction rule: relay_step.induct) simp_all

lemma relay_exec_enabled:
  assumes "relay_exec lib config workers e w = Some v"
  shows "\<exists>w'. relay_step lib config workers w e w'"
proof (cases e)
  case (HostHello t m)
  with assms have "rw_tasks w t = Fresh" by (auto split: if_splits)
  from relay_step.host_hello [OF this refl] HostHello show ?thesis by blast
next
  case (HostRegistered t h now tx)
  with assms have "rw_tasks w t = HostAuthorised h" "host_join h (rw_state w) = (fst (host_join h (rw_state w)), tx)"
    by (auto split: if_splits)
  with HostRegistered show ?thesis using relay_step.host_registered by blast
next
  case (ClientInserts t h u now tx)
  with assms have "rw_tasks w t = ClientAdmitted h" "length u = 16"
    "client_insert_session lib h u now (rw_state w) = (fst (client_insert_session lib h u now (rw_state w)), tx)"
    by (auto split: if_splits)
  with ClientInserts show ?thesis using relay_step.client_inserts by blast
next
  case (ClientArrived t ip h now)
  obtain st r where r: "client_open lib config ip h now (rw_state w) = (st, r)" by (metis surj_pair)
  from assms ClientArrived have "rw_tasks w t = Fresh" by (auto split: if_splits)
  from relay_step.client_arrived [OF this r] ClientArrived show ?thesis by blast
qed (use assms in \<open>auto split: if_splits conn_task.splits prod.splits\<close>,
     (blast intro: relay_step.intros)+)

lemma relay_exec_step:
  assumes "relay_exec lib config workers e w = Some w'"
  shows "relay_step lib config workers w e w'"
  using relay_exec_enabled [OF assms] relay_step_exec assms by fastforce

fun relay_exec_all ::
  "relay_lib \<Rightarrow> relay_config \<Rightarrow> nat \<Rightarrow> relay_event list \<Rightarrow> relay_world \<Rightarrow> relay_world option" where
  "relay_exec_all lib config workers [] w = Some w"
| "relay_exec_all lib config workers (e # es) w =
     (case relay_exec lib config workers e w of
        None \<Rightarrow> None | Some w' \<Rightarrow> relay_exec_all lib config workers es w')"

lemma relay_exec_all_snoc:
  "relay_exec_all lib config workers (es @ [e]) w =
     (case relay_exec_all lib config workers es w of
        None \<Rightarrow> None | Some w' \<Rightarrow> relay_exec lib config workers e w')"
  by (induction es arbitrary: w) (simp_all split: option.split)

lemma relay_run_exec:
  "relay_run lib config workers es w \<longleftrightarrow> relay_exec_all lib config workers es relay_start = Some w"
proof
  show "relay_exec_all lib config workers es relay_start = Some w" if "relay_run lib config workers es w"
    using that by induction (simp_all add: relay_exec_all_snoc relay_step_exec)
next
  show "relay_run lib config workers es w" if "relay_exec_all lib config workers es relay_start = Some w"
    using that
  proof (induction es arbitrary: w rule: rev_induct)
    case Nil
    then show ?case by (simp add: relay_run.start)
  next
    case (snoc e es)
    then show ?case
      by (auto simp: relay_exec_all_snoc split: option.splits intro: relay_run.more relay_exec_step)
  qed
qed

lemma admitted_tasks_upd:
  "admitted_tasks (ts(t := c)) =
     (case c of ClientAdmitted h \<Rightarrow> insert t (admitted_tasks ts) | _ \<Rightarrow> admitted_tasks ts - {t})"
  by (auto simp: admitted_tasks_def split: conn_task.split)

lemma admitted_tasks_start [simp]: "admitted_tasks (\<lambda>_. Fresh) = {}"
  by (simp add: admitted_tasks_def)

end
