(* ===== verification/Relay_Safety.thy ===== *)
theory Relay_Safety
  imports Relay_Exec
begin

text \<open>
  The properties of the relay: isolation of the hosts, the limits on sessions and connections, and
  two behaviours of concurrent connections that the code does not guard against.
\<close>

section \<open>A sample relay\<close>

definition sample_host :: host_id where "sample_host = [0x61]"
definition sample_token :: rstring where "sample_token = replicate 64 0x30"

text \<open>Texts of one byte stand for the control messages; ids are their own text form.\<close>

definition sample_lib :: relay_lib where
  "sample_lib = \<lparr>
     rx_from_str = map_of [([1], Register sample_host sample_token), ([2], Connect sample_host sample_token),
       ([3], Accept (replicate 16 7))],
     rx_to_string = (\<lambda>_. Some []),
     rx_uuid_string = (\<lambda>u. u),
     rx_mac = zero_mac\<rparr>"

definition sample_config :: "usize \<Rightarrow> relay_config" where
  "sample_config limit = (relay_config_from_secret [1]) \<lparr>max_sessions_per_host := limit\<rparr>"

lemma sample_token_ok: "relay_token_matches zero_mac [1] sample_host sample_token"
  by code_simp

lemma sample_host_ok: "relay_host_id_ok sample_host"
  by code_simp

lemma sample_uuid: "inj_on (rx_uuid_string sample_lib) {u. length u = 16}"
  by (simp add: sample_lib_def)

lemmas sample_simps = sample_lib_def sample_config_def relay_config_from_secret_def
  sample_token_ok sample_host_ok host_authenticate_def client_authenticate_def
  host_join_def unbounded_channel_def drop_host_eq relay_start_def app_state_new_def
  client_open_def allow_connect_def DEFAULT_CONNECTS_PER_MINUTE_def contains_key_def
  client_check_limit_def session_count_def client_insert_session_def client_notify_def
  text_message_def send_def client_answered_def admitted_tasks_upd Let_def
  word_less_nat_alt word_le_nat_alt

section \<open>Sessions per host\<close>

lemma session_count_send [simp]: "session_count h (fst (send tx m st)) = session_count h st"
  by (simp add: session_count_def)

lemma session_count_remove: "session_count h (remove_session k st) \<le> session_count h st"
  by (simp add: session_count_def length_filter_delete)

lemma session_count_host_join: "host_join h st = (st', tx) \<Longrightarrow> session_count h' st' \<le> session_count h' st"
  using session_count_drop_host [of h' h "st\<lparr>rl_next_channel := rl_next_channel st + 1\<rparr>"]
  by (auto simp: host_join_def unbounded_channel_def Let_def session_count_def)

lemma session_count_handle_host_text:
  "session_count h' (handle_host_text lib h txt tx st) = session_count h' st"
proof -
  have "session_count h' (st\<lparr>rl_sessions := AList.update k (s\<lparr>rs_accept_tx := None\<rparr>) (rl_sessions st),
      rl_accepted := a\<rparr>) = session_count h' st" if "map_of (rl_sessions st) k = Some s" for k s a
    using length_filter_update_same [OF that, of "\<lambda>(key, entry). rs_host_id entry = h'"]
    by (simp add: session_count_def)
  then show ?thesis
    by (auto simp: handle_host_text_def split: option.split relay_control.split)
qed

lemma session_count_host_receive:
  assumes "host_receive lib config h tx m now st = (st', go)"
  shows "session_count h' st' \<le> session_count h' st"
proof -
  have "st' = fst (host_receive lib config h tx m now st)" using assms by simp
  also have "session_count h' \<dots> \<le> session_count h' st"
    using session_count_remove
    by (auto simp: host_receive_def session_count_handle_host_text forward_from_host_def Let_def
        split: option.split ws_message.split sum.split)
  finally show ?thesis .
qed

lemma session_count_steps:
  "host_ping lib tx st = st' \<Longrightarrow> session_count h' st' \<le> session_count h' st"
  "client_open lib config ip h now st = (st', refused) \<Longrightarrow> session_count h' st' \<le> session_count h' st"
  "client_answered lib u accepted st = (st', reply, go) \<Longrightarrow> session_count h' st' \<le> session_count h' st"
  subgoal by (auto simp: host_ping_def split: option.split)
  subgoal using client_open_fst [of lib config ip h now st] by (auto simp: session_count_def)
  subgoal by (auto simp: client_answered_def Let_def session_count_remove split: if_splits option.splits)
  done

lemma session_count_client_notify:
  assumes "client_notify lib h u st = (st', r)"
  shows "session_count h' st' \<le> session_count h' st"
proof -
  let ?k = "rx_uuid_string lib u"
  consider "st' = remove_session ?k st"
    | c m where "st' = remove_session ?k (fst (send c m st)) \<or> st' = fst (send c m st)"
    using assms by (auto simp: client_notify_def Let_def split: option.splits prod.splits if_splits)
       (metis fst_conv)+
  then show ?thesis
    using session_count_remove [of h' ?k] session_count_send [of h'] by cases (metis order.refl)+
qed

lemma session_count_client_receive:
  assumes "client_receive lib config h u host_tx m st = (st', reply, go)"
  shows "session_count h' st' \<le> session_count h' st"
proof -
  have *: "session_count h' (fst (forward_from_client lib h u bs k host_tx st)) = session_count h' st" for bs k
    by (auto simp: forward_from_client_def Let_def split: sum.split option.split)
  have "session_count h' st1 = session_count h' st"
    if "forward_from_client lib h u bs k host_tx st = (st1, b)" for bs k st1 b
    using * [of bs k] that by simp
  with assms show ?thesis
    by (auto simp: client_receive_def split: option.splits ws_message.splits prod.splits if_splits)
qed

lemma session_count_insert:
  assumes "client_insert_session lib h u now st = (st', tx)"
  shows "session_count h' st' \<le> session_count h' st + (if h' = h then 1 else 0)"
proof -
  let ?s = "\<lparr>rs_host_id = h, rs_client_tx = tx, rs_accept_tx = Some tx, rs_created = now\<rparr>"
  have "rl_sessions st' = AList.update (rx_uuid_string lib u) ?s (rl_sessions st)"
    using assms by (auto simp: client_insert_session_def unbounded_channel_def)
  with length_filter_update [of "\<lambda>(key, entry). rs_host_id entry = h'" "rx_uuid_string lib u" ?s "rl_sessions st"]
  show ?thesis by (auto simp: session_count_def)
qed

text \<open>The sessions of a host together with the clients that are about to insert one.\<close>

definition admitted_for :: "host_id \<Rightarrow> (task \<Rightarrow> conn_task) \<Rightarrow> task set" where
  "admitted_for h ts = {t. ts t = ClientAdmitted h}"

definition claimed_sessions :: "host_id \<Rightarrow> relay_world \<Rightarrow> nat" where
  "claimed_sessions h w = session_count h (rw_state w) + card (admitted_for h (rw_tasks w))"

definition limit_inv :: "relay_config \<Rightarrow> nat \<Rightarrow> relay_world \<Rightarrow> bool" where
  "limit_inv config workers w \<longleftrightarrow> finite (admitted_tasks (rw_tasks w)) \<and>
     (\<forall>h. claimed_sessions h w \<le> max_sessions_per_host config - 1 + workers)"

lemma admitted_for_upd:
  "admitted_for h (ts(t := c)) =
     (if c = ClientAdmitted h then insert t (admitted_for h ts) else admitted_for h ts - {t})"
  by (auto simp: admitted_for_def)

lemma admitted_for_subset: "admitted_for h ts \<subseteq> admitted_tasks ts"
  by (auto simp: admitted_for_def admitted_tasks_def)

lemma admitted_tasks_finite_upd: "finite (admitted_tasks ts) \<Longrightarrow> finite (admitted_tasks (ts(t := c)))"
  by (simp add: admitted_tasks_upd split: conn_task.split)

lemma limit_inv_finite:
  assumes "limit_inv config workers w"
  shows "finite (admitted_tasks ((rw_tasks w)(t := c)))" and "finite (admitted_for h (rw_tasks w))"
  using assms admitted_tasks_finite_upd finite_subset [OF admitted_for_subset]
  by (simp_all add: limit_inv_def)

lemma limit_inv_mono:
  assumes "limit_inv config workers w" and "\<And>h. claimed_sessions h w' \<le> claimed_sessions h w"
    and "finite (admitted_tasks (rw_tasks w'))"
  shows "limit_inv config workers w'"
  unfolding limit_inv_def
proof (intro conjI allI assms(3))
  fix h
  from assms(2) [of h] have "claimed_sessions h w' \<le> claimed_sessions h w" .
  also have "\<dots> \<le> max_sessions_per_host config - 1 + workers"
    using assms(1) by (simp add: limit_inv_def)
  finally show "claimed_sessions h w' \<le> max_sessions_per_host config - 1 + workers" .
qed

text \<open>A step that admits no client and adds no session keeps the invariant.\<close>

lemma limit_inv_set_task:
  assumes inv: "limit_inv config workers w" and c: "\<And>h. c \<noteq> ClientAdmitted h"
    and le: "\<And>h. session_count h st \<le> session_count h (rw_state w)"
  shows "limit_inv config workers (set_task t c w st)"
proof -
  note fin = limit_inv_finite(2) [OF inv]
  have "claimed_sessions h (set_task t c w st) \<le> claimed_sessions h w" for h
    using le [of h] card_mono [OF fin, of "admitted_for h (rw_tasks w) - {t}" h] c
    by (simp add: claimed_sessions_def admitted_for_upd)
  then show ?thesis by (rule limit_inv_mono [OF inv]) (simp add: limit_inv_finite [OF inv])
qed

lemma limit_inv_counted:
  assumes inv: "limit_inv config workers w" and free: "card (admitted_tasks (rw_tasks w)) < workers"
    and room: "session_count h (rw_state w) < max_sessions_per_host config"
  shows "limit_inv config workers (set_task t (ClientAdmitted h) w (rw_state w))"
proof -
  have fin: "finite (admitted_tasks (rw_tasks w))" using inv by (simp add: limit_inv_def)
  have "claimed_sessions h' (set_task t (ClientAdmitted h) w (rw_state w))
      \<le> max_sessions_per_host config - 1 + workers" for h'
  proof (cases "h' = h")
    case True
    have "card (insert t (admitted_for h (rw_tasks w))) \<le> Suc (card (admitted_tasks (rw_tasks w)))"
      using card_mono [OF fin admitted_for_subset [of h]] finite_subset [OF admitted_for_subset fin]
      by (simp add: card_insert_if le_SucI)
    then show ?thesis
      using True room free by (simp add: claimed_sessions_def admitted_for_upd)
  next
    case False
    have "card (admitted_for h' (rw_tasks w) - {t}) \<le> card (admitted_for h' (rw_tasks w))"
      by (rule card_mono [OF finite_subset [OF admitted_for_subset fin]]) auto
    moreover have "claimed_sessions h' w \<le> max_sessions_per_host config - 1 + workers"
      using inv by (simp add: limit_inv_def)
    ultimately show ?thesis
      using False by (simp add: claimed_sessions_def admitted_for_upd)
  qed
  then show ?thesis using fin by (simp add: limit_inv_def admitted_tasks_finite_upd)
qed

lemma limit_inv_inserts:
  assumes inv: "limit_inv config workers w" and t: "rw_tasks w t = ClientAdmitted h"
    and ins: "client_insert_session lib h u now (rw_state w) = (st, tx)"
  shows "limit_inv config workers (set_task t (ClientInserted h u tx) w st)"
proof -
  note fin = limit_inv_finite(2) [OF inv]
  have "claimed_sessions h' (set_task t (ClientInserted h u tx) w st) \<le> claimed_sessions h' w" for h'
  proof -
    have "t \<in> admitted_for h (rw_tasks w)" using t by (simp add: admitted_for_def)
    then have "card (admitted_for h' (rw_tasks w) - {t}) + (if h' = h then 1 else 0)
        \<le> card (admitted_for h' (rw_tasks w))"
      using card_Suc_Diff1 [OF fin] card_mono [OF fin, of "admitted_for h' (rw_tasks w) - {t}"] by auto
    with session_count_insert [OF ins, of h'] show ?thesis
      by (simp add: claimed_sessions_def admitted_for_upd)
  qed
  then show ?thesis by (rule limit_inv_mono [OF inv]) (simp add: limit_inv_finite [OF inv])
qed

lemma limit_inv_step:
  assumes inv: "limit_inv config workers w" and step: "relay_step lib config workers w e w'"
  shows "limit_inv config workers w'"
proof -
  note set_task = limit_inv_set_task [OF inv]
  note set_only = limit_inv_set_task [OF inv, where st = "rw_state w", simplified]
  from step show ?thesis
  proof cases
    case (client_counted t h r)
    show ?thesis
    proof (cases r)
      case None
      with client_counted have "session_count h (rw_state w) < max_sessions_per_host config"
        by (auto simp: client_check_limit_def split: if_splits)
      from limit_inv_counted [OF inv client_counted(4) this] None client_counted(2) show ?thesis by simp
    next
      case (Some m)
      with client_counted(2) show ?thesis by (auto intro: set_only)
    qed
  next
    case (client_inserts t h u now st tx)
    then show ?thesis using limit_inv_inserts [OF inv] by blast
  next
    case (host_registered t h st tx now)
    then show ?thesis using session_count_host_join by (auto intro!: set_task)
  next
    case (host_said t h tx last_seen m now st go)
    then show ?thesis using session_count_host_receive by (auto intro!: set_task)
  next
    case (client_arrived t ip h now st r)
    then show ?thesis using session_count_steps(2) by (auto intro!: set_task split: option.split)
  next
    case (client_announced t h u tx st r)
    then show ?thesis using session_count_client_notify by (auto intro!: set_task split: sum.split)
  next
    case (client_answer t h u tx host_tx accepted st reply go now)
    then show ?thesis using session_count_steps(3) by (auto intro!: set_task)
  next
    case (client_said t h u tx host_tx last_seen m st reply go now)
    then show ?thesis using session_count_client_receive by (auto intro!: set_task)
  next
    case (host_tick t h tx last_seen)
    show ?thesis unfolding host_tick(2)
      by (rule limit_inv_mono [OF inv])
         (use session_count_steps(1) [OF refl] inv in \<open>auto simp: claimed_sessions_def limit_inv_def\<close>)
  next
    case (receiver_gone tx)
    then show ?thesis using inv by (simp add: limit_inv_def claimed_sessions_def session_count_def)
  qed (auto intro!: set_task set_only session_count_drop_host session_count_remove split: option.split sum.split)
qed

lemma limit_inv_run: "relay_run lib config workers es w \<Longrightarrow> limit_inv config workers w"
proof (induction rule: relay_run.induct)
  case start
  show ?case
    by (simp add: limit_inv_def claimed_sessions_def relay_start_def session_count_def app_state_new_def
        admitted_for_def)
next
  case (more es w e w')
  then show ?case using limit_inv_step by blast
qed

section \<open>Connections per minute\<close>

text \<open>The connections that a sequence of \<open>allow_connect\<close> calls lets in.\<close>

primrec allowed_connects ::
  "relay_config \<Rightarrow> (ip_addr \<times> instant) list \<Rightarrow> relay_state \<Rightarrow> (ip_addr \<times> instant) list" where
  "allowed_connects config [] st = []"
| "allowed_connects config (c # calls) st =
     (case allow_connect config (fst c) (snd c) st of
        (st, allowed) \<Rightarrow> (if allowed then [c] else []) @ allowed_connects config calls st)"

definition hits_of :: "relay_state \<Rightarrow> ip_addr \<Rightarrow> instant list" where
  "hits_of st ip = (case map_of (rl_rates st) ip of Some hits \<Rightarrow> hits | None \<Rightarrow> [])"

text \<open>The stamps that are kept are those of the last minute before the last call, and no minute has
  more of them than the limit.\<close>

definition rate_ok :: "nat \<Rightarrow> nat \<Rightarrow> instant list \<Rightarrow> instant \<Rightarrow> instant list \<Rightarrow> bool" where
  "rate_ok limit window stamps now hits \<longleftrightarrow>
     hits = filter (\<lambda>x. now - x < window) stamps \<and> length hits \<le> limit \<and>
     (\<forall>s. length (filter (\<lambda>x. s \<le> x \<and> x < s + window) stamps) \<le> limit)"

lemma length_filter_imp: "(\<And>x. x \<in> set xs \<Longrightarrow> P x \<Longrightarrow> Q x) \<Longrightarrow> length (filter P xs) \<le> length (filter Q xs)"
  by (induction xs) (auto simp: le_SucI)

lemma rate_ok_retain:
  assumes "rate_ok limit window stamps now hits" and "now \<le> n"
  shows "rate_ok limit window stamps n (filter (\<lambda>x. n - x < window) hits)"
proof -
  have "filter (\<lambda>x. n - x < window) hits = filter (\<lambda>x. n - x < window) stamps"
    using assms unfolding rate_ok_def by (auto intro!: filter_cong)
  moreover have "length (filter (\<lambda>x. n - x < window) hits) \<le> length hits" by (rule length_filter_le)
  ultimately show ?thesis using assms(1) by (auto simp: rate_ok_def)
qed

lemma rate_ok_admit:
  assumes ok: "rate_ok limit window stamps n hits" and "length hits < limit" and "0 < window"
  shows "rate_ok limit window (stamps @ [n]) n (hits @ [n])"
proof -
  have "length (filter (\<lambda>x. s \<le> x \<and> x < s + window) stamps) \<le> length hits" if "n < s + window" for s
    using ok that unfolding rate_ok_def by (auto intro: length_filter_imp)
  with assms show ?thesis unfolding rate_ok_def by (auto simp: Suc_le_eq intro: le_less_trans)
qed

lemma allow_connect_hits:
  assumes "allow_connect config ip' now st = (st', allowed)"
  shows "hits_of st' ip = (if ip = ip' then
      filter (\<lambda>x. now - x < from_secs 60) (hits_of st ip) @ (if allowed then [now] else []) else hits_of st ip)"
    and "length (hits_of st ip') \<le> unat (connects_per_minute config) \<Longrightarrow>
      allowed \<longleftrightarrow> length (filter (\<lambda>x. now - x < from_secs 60) (hits_of st ip')) < unat (connects_per_minute config)"
proof -
  show "hits_of st' ip = (if ip = ip' then
      filter (\<lambda>x. now - x < from_secs 60) (hits_of st ip) @ (if allowed then [now] else []) else hits_of st ip)"
    using assms by (auto simp: allow_connect_def hits_of_def update_conv' Let_def split: if_splits)
next
  let ?k = "length (filter (\<lambda>x. now - x < from_secs 60) (hits_of st ip'))"
  assume "length (hits_of st ip') \<le> unat (connects_per_minute config)"
  then have "?k \<le> unat (connects_per_minute config)" using length_filter_le le_trans by blast
  moreover have "unat (connects_per_minute config) < 2 ^ 32" using unsigned_less [of "connects_per_minute config"] by simp
  ultimately have "?k < 2 ^ 32" by (rule le_less_trans)
  then have "unat (word_of_nat ?k :: u32) = ?k" by (intro of_nat_inverse [OF refl]) simp
  then show "allowed \<longleftrightarrow> ?k < unat (connects_per_minute config)"
    using assms by (auto simp: allow_connect_def hits_of_def Let_def word_le_nat_alt split: if_splits)
qed

lemma allowed_connects_rate:
  assumes "rate_ok (unat (connects_per_minute config)) (from_secs 60) stamps m (hits_of st ip)"
    and "m \<le> now" and "sorted (now # map snd calls)"
  shows "length (filter (\<lambda>x. s \<le> x \<and> x < s + from_secs 60)
      (stamps @ map snd (filter (\<lambda>c. fst c = ip) (allowed_connects config calls st))))
    \<le> unat (connects_per_minute config)"
  using assms
proof (induction calls arbitrary: stamps m now st)
  case Nil
  then show ?case by (simp add: rate_ok_def)
next
  case (Cons c calls)
  obtain st' allowed where call: "allow_connect config (fst c) (snd c) st = (st', allowed)"
    by (cases "allow_connect config (fst c) (snd c) st")
  have sorted: "sorted (snd c # map snd calls)" and le: "m \<le> snd c" using Cons.prems by auto
  note hits = allow_connect_hits [OF call]
  have split: "allowed_connects config (c # calls) st =
      (if allowed then [c] else []) @ allowed_connects config calls st'"
    by (simp add: call)
  show ?case
  proof (cases "fst c = ip")
    case True
    from rate_ok_retain [OF Cons.prems(1) le]
    have kept: "rate_ok (unat (connects_per_minute config)) (from_secs 60) stamps (snd c)
        (filter (\<lambda>x. snd c - x < from_secs 60) (hits_of st ip))" .
    have len: "length (hits_of st ip) \<le> unat (connects_per_minute config)"
      using Cons.prems(1) unfolding rate_ok_def by blast
    show ?thesis
    proof (cases allowed)
      case True
      have "rate_ok (unat (connects_per_minute config)) (from_secs 60) (stamps @ [snd c]) (snd c) (hits_of st' ip)"
        using rate_ok_admit [OF kept] hits(1) [of ip] hits(2) len True \<open>fst c = ip\<close> by simp
      from Cons.IH [OF this order.refl sorted] True \<open>fst c = ip\<close> show ?thesis unfolding split by simp
    next
      case False
      have "rate_ok (unat (connects_per_minute config)) (from_secs 60) stamps (snd c) (hits_of st' ip)"
        using kept hits(1) [of ip] False \<open>fst c = ip\<close> by simp
      from Cons.IH [OF this order.refl sorted] False show ?thesis unfolding split by simp
    qed
  next
    case False
    have "rate_ok (unat (connects_per_minute config)) (from_secs 60) stamps m (hits_of st' ip)"
      using Cons.prems(1) hits(1) [of ip] False by simp
    from Cons.IH [OF this le sorted] False show ?thesis unfolding split by simp
  qed
qed

section \<open>Properties\<close>

definition sample_events :: "relay_event list" where
  "sample_events =
     [HostHello 0 (Some (WsText [1])), HostRegistered 0 sample_host 0 0,
      ClientArrived 1 0 sample_host 0, ClientHello 1 (Some (WsText [2])), ClientCounted 1,
      ClientInserts 1 sample_host (replicate 16 7) 0 1, ClientAnnounced 1,
      HostSaid 0 0 (Some (WsText [3])), ClientAnswer 1 True 0]"

lemma sample_events_run:
  "\<exists>w. relay_run sample_lib (sample_config 1) 1
       (sample_events @ [ClientSaid 1 0 (Some (WsBinary (replicate 16 0 @ [1, 9])))]) w \<and>
     (0, WsBinary (replicate 16 7 @ [1, 9])) \<in> set (rl_sent (rw_state w)) \<and>
     rw_tasks w 1 = ClientServing sample_host (replicate 16 7) 1 0 0 \<and>
     session_count sample_host (rw_state w) = 1"
  by (simp add: relay_run_exec sample_events_def sample_simps host_receive_def handle_host_text_def
      client_receive_def forward_from_client_def decode_relay_frame_def RELAY_FRAME_HEADER_LEN_def
      RELAY_CHANNEL_TCP_def RELAY_MAX_PAYLOAD_LEN_def nth_append)

text \<open>C11. Isolation of the relay's hosts: in every interleaving of connections, each binary frame put
  into a channel is one of two kinds. Either the channel is that of a client that presented the
  token of a host, the frame carries the session id of that client, and a connection that presented
  the token of the same host sent it; or the channel is that of a connection that registered with
  the token of a host, and a client that presented the token of the same host sent the frame, which
  is stamped with the id of the client's own session and otherwise unchanged.\<close>

theorem relay_isolation:
  assumes "relay_run lib config workers es w"
    and uuid_text_injective: "inj_on (rx_uuid_string lib) {u. length u = 16}"
    and "(c, WsBinary bs) \<in> set (rl_sent (rw_state w))"
  shows "(\<exists>t h u t' now now' frame. client_auth lib config es t h \<and> ClientInserts t h u now c \<in> set es \<and>
       decode_relay_frame bs = Inr frame \<and> rf_session_id frame = u \<and>
       host_auth lib config es t' h \<and> HostSaid t' now' (Some (WsBinary bs)) \<in> set es) \<or>
     (\<exists>t h u tx t' now now' now'' bs'. host_auth lib config es t' h \<and> HostRegistered t' h now c \<in> set es \<and>
       client_auth lib config es t h \<and> ClientInserts t h u now' tx \<in> set es \<and>
       ClientSaid t now'' (Some (WsBinary bs')) \<in> set es \<and>
       bs = u @ drop 16 bs' \<and> (take 16 bs' = u \<or> take 16 bs' = replicate 16 0))"
proof -
  from relay_inv_run [OF assms(1,2)] assms(3)
  have "to_client lib config es c bs \<or> to_host lib config es c bs"
    by (simp add: relay_inv_def state_ok_def)
  then show ?thesis
    unfolding to_client_def to_host_def client_chan_def host_chan_def by blast
qed

theorem relay_isolation_witness:
  "\<exists>t h u. ClientInserts t h u 0 1 \<in> set sample_events \<and> take 16 (replicate 16 7 @ [1, 9]) = (u :: bytes)"
proof -
  let ?es = "sample_events @ [ClientSaid 1 0 (Some (WsBinary (replicate 16 0 @ [1, 9])))]"
  from sample_events_run obtain w where "relay_run sample_lib (sample_config 1) 1 ?es w"
    "(0, WsBinary (replicate 16 7 @ [1, 9])) \<in> set (rl_sent (rw_state w))" by blast
  from relay_isolation [OF this(1) sample_uuid this(2)] show ?thesis
    by (auto simp: sample_events_def)
qed

text \<open>C32. A client is served only when the host wants it: a client that has reached the forwarding
  loop presented the host's token, and a connection that presented the token of the same host sent
  the \<open>Accept\<close> for this very session.\<close>

theorem relay_client_accepted:
  assumes "relay_run lib config workers es w"
    and uuid_text_injective: "inj_on (rx_uuid_string lib) {u. length u = 16}"
    and "rw_tasks w t = ClientServing h u tx host_tx last_seen"
  shows "client_auth lib config es t h \<and>
    (\<exists>t' now txt. host_auth lib config es t' h \<and> HostSaid t' now (Some (WsText txt)) \<in> set es \<and>
       rx_from_str lib txt = Some (Accept (rx_uuid_string lib u)))"
proof -
  from relay_inv_run [OF assms(1,2)] have "task_ok lib config es t (rw_tasks w t)"
    by (simp add: relay_inv_def)
  with assms(3) show ?thesis by (auto simp: client_chan_def accepted_by_def)
qed

theorem relay_client_accepted_witness:
  "client_auth sample_lib (sample_config 1) sample_events 1 sample_host"
proof -
  let ?es = "sample_events @ [ClientSaid 1 0 (Some (WsBinary (replicate 16 0 @ [1, 9])))]"
  from sample_events_run obtain w where "relay_run sample_lib (sample_config 1) 1 ?es w"
    "rw_tasks w 1 = ClientServing sample_host (replicate 16 7) 1 0 0" by blast
  from relay_client_accepted [OF this(1) sample_uuid this(2)] show ?thesis
    by (auto simp: client_auth_def)
qed

text \<open>C28. Sessions per host: with \<open>n\<close> worker threads a host never has more than
  \<open>max_sessions_per_host - 1 + n\<close> sessions; so the limit is exact on a single-threaded runtime.\<close>

theorem relay_session_limit:
  assumes "relay_run lib config workers es w"
  shows "session_count h (rw_state w) \<le> max_sessions_per_host config - 1 + workers"
  using limit_inv_run [OF assms] unfolding limit_inv_def claimed_sessions_def
  by (metis add_leD1)

theorem relay_session_limit_witness:
  "\<exists>w :: relay_world. session_count sample_host (rw_state w) = 1 \<and> session_count sample_host (rw_state w) \<le> 1 - 1 + 1"
proof -
  from sample_events_run obtain w where
    "relay_run sample_lib (sample_config 1) 1
       (sample_events @ [ClientSaid 1 0 (Some (WsBinary (replicate 16 0 @ [1, 9])))]) w"
    and one: "session_count sample_host (rw_state w) = 1" by blast
  from relay_session_limit [OF this(1), of sample_host] one
  have "session_count sample_host (rw_state w) = 1 \<and> session_count sample_host (rw_state w) \<le> 1 - 1 + 1"
    by (simp add: sample_config_def)
  then show ?thesis by blast
qed

text \<open>C29. The session limit can be exceeded: with two workers, two clients can both pass the count
  before either has inserted its session, and a host limited to one session then has two.\<close>

theorem relay_session_limit_exceeded:
  "\<exists>lib config es w h. max_sessions_per_host config = 1 \<and> relay_run lib config 2 es w \<and>
     session_count h (rw_state w) = 2"
proof -
  let ?es = "[HostHello 0 (Some (WsText [1])), HostRegistered 0 sample_host 0 0,
    ClientArrived 1 0 sample_host 0, ClientHello 1 (Some (WsText [2])),
    ClientArrived 2 0 sample_host 0, ClientHello 2 (Some (WsText [2])),
    ClientCounted 1, ClientCounted 2, ClientInserts 1 sample_host (replicate 16 7) 0 1,
    ClientInserts 2 sample_host (replicate 16 8) 0 2]"
  have "\<exists>w. relay_run sample_lib (sample_config 1) 2 ?es w \<and> session_count sample_host (rw_state w) = 2"
    by (simp add: relay_run_exec sample_simps)
  moreover have "max_sessions_per_host (sample_config 1) = 1" by (simp add: sample_config_def)
  ultimately show ?thesis by blast
qed

text \<open>C30. A stale connection evicts its successor. There is a run in which a host registers, registers
  again over a second connection, and the first connection then comes to its end, while the newer one
  is served and its channel is the one in the host map; and the last step of the older connection,
  \<open>drop_host\<close>, takes this entry out of the map although the newer connection goes on being served.\<close>

theorem relay_stale_teardown:
  "\<exists>lib config es as bs cs w w' h older newer t tx t' tx' last_seen.
     relay_run lib config 1 es w \<and>
     es = as @ HostRegistered older h t tx # bs @ HostRegistered newer h t' tx' # cs \<and> tx \<noteq> tx' \<and>
     rw_tasks w older = HostClosing h \<and> rw_tasks w newer = HostServing h tx' last_seen \<and>
     map_of (rl_hosts (rw_state w)) h = Some tx' \<and>
     relay_step lib config 1 w (HostLeft older) w' \<and>
     rw_tasks w' newer = HostServing h tx' last_seen \<and> map_of (rl_hosts (rw_state w')) h = None"
proof -
  let ?es = "[HostHello 0 (Some (WsText [1])), HostRegistered 0 sample_host 0 0,
    HostHello 1 (Some (WsText [1])), HostRegistered 1 sample_host 1 1, HostSaid 0 2 None]"
  have order: "?es = [HostHello 0 (Some (WsText [1]))] @ HostRegistered 0 sample_host 0 0 #
    [HostHello 1 (Some (WsText [1]))] @ HostRegistered 1 sample_host 1 1 # [HostSaid 0 2 None]" by simp
  have "\<exists>w. relay_run sample_lib (sample_config 1) 1 ?es w \<and> rw_tasks w 0 = HostClosing sample_host \<and>
      rw_tasks w 1 = HostServing sample_host 1 1 \<and> map_of (rl_hosts (rw_state w)) sample_host = Some 1"
    by (simp add: relay_run_exec sample_simps host_receive_def)
  then obtain w where w: "relay_run sample_lib (sample_config 1) 1 ?es w" "rw_tasks w 0 = HostClosing sample_host"
    "rw_tasks w 1 = HostServing sample_host 1 1" "map_of (rl_hosts (rw_state w)) sample_host = Some 1" by blast
  let ?w = "w\<lparr>rw_state := drop_host sample_host (rw_state w), rw_tasks := (rw_tasks w)(0 := Gone)\<rparr>"
  have "relay_step sample_lib (sample_config 1) 1 w (HostLeft 0) ?w"
    by (rule relay_step.host_left) (rule w(2))
  moreover have "rw_tasks ?w 1 = HostServing sample_host 1 1" "map_of (rl_hosts (rw_state ?w)) sample_host = None"
    using w(3) by (simp_all add: delete_conv')
  moreover have "(0 :: channel) \<noteq> 1" by simp
  ultimately show ?thesis using w order by blast
qed

text \<open>C31. Connections per minute: whatever addresses connect when, in no period of sixty seconds are
  more connections of one address let in than the configured number.\<close>

theorem relay_rate_limit:
  assumes "sorted (map snd calls)"
  shows "length (filter (\<lambda>(i, now). i = ip \<and> s \<le> now \<and> now < s + from_secs 60)
      (allowed_connects config calls app_state_new)) \<le> unat (connects_per_minute config)"
proof -
  have "rate_ok (unat (connects_per_minute config)) (from_secs 60) [] 0 (hits_of app_state_new ip)"
    by (simp add: rate_ok_def hits_of_def app_state_new_def)
  from allowed_connects_rate [OF this order.refl, of calls s] assms
  show ?thesis by (simp add: case_prod_unfold filter_map comp_def)
qed

theorem relay_rate_limit_witness:
  "length (filter (\<lambda>(i, now). i = 7 \<and> 0 \<le> now \<and> now < 0 + from_secs 60)
     (allowed_connects (sample_config 1 \<lparr>connects_per_minute := 1\<rparr>) [(7, 1), (7, 2)] app_state_new)) \<le> 1"
  using relay_rate_limit [of "[(7, 1), (7, 2)]" 7 0 "sample_config 1 \<lparr>connects_per_minute := 1\<rparr>"] by simp

end
