(* ===== verification/Udp_Sender.thy ===== *)
theory Udp_Sender
  imports Udp_Gcm Media_Wire
begin

text \<open>
  The host's media sender, \<open>UdpSender\<close> of \<open>maho-host/src/session.rs\<close>: it numbers packets, cuts
  video frames and audio frames into datagrams that fit a payload budget, seals them and hands them
  to the socket. Trace records and the pacing pauses between chunks are left out, as are the two
  scratch buffers, which are empty between calls.

  Parameters: the AEAD, the wall clock (read once per packet, as a function of the sequence number)
  and the socket, which takes or refuses a datagram.
\<close>

section \<open>Budgets\<close>

definition UDP_PAYLOAD_BUDGET :: usize where "UDP_PAYLOAD_BUDGET = 1200"
definition ENCRYPTED_DATAGRAM_OVERHEAD :: usize where
  "ENCRYPTED_DATAGRAM_OVERHEAD = packet_header_SIZE + NONCE_SIZE + TAG_SIZE"
definition MAX_SENDER_PLAINTEXT_PAYLOAD :: usize where
  "MAX_SENDER_PLAINTEXT_PAYLOAD = UDP_PAYLOAD_BUDGET - ENCRYPTED_DATAGRAM_OVERHEAD"
definition SENDER_MAX_VIDEO_CHUNK_BYTES :: usize where
  "SENDER_MAX_VIDEO_CHUNK_BYTES = MAX_SENDER_PLAINTEXT_PAYLOAD - frame_chunk_HEADER_SIZE"
definition SENDER_MAX_AUDIO_FRAGMENT_BYTES :: usize where
  "SENDER_MAX_AUDIO_FRAGMENT_BYTES = MAX_SENDER_PLAINTEXT_PAYLOAD - audio_fragment_header_SIZE"

lemmas budget_defs = UDP_PAYLOAD_BUDGET_def ENCRYPTED_DATAGRAM_OVERHEAD_def
  MAX_SENDER_PLAINTEXT_PAYLOAD_def SENDER_MAX_VIDEO_CHUNK_BYTES_def SENDER_MAX_AUDIO_FRAGMENT_BYTES_def
  packet_header_SIZE_def NONCE_SIZE_def TAG_SIZE_def frame_chunk_HEADER_SIZE_def
  audio_fragment_header_SIZE_def

text \<open>The compile-time assertions of the source.\<close>

lemma sender_budget_asserts:
  "SENDER_MAX_VIDEO_CHUNK_BYTES \<le> MAX_VIDEO_CHUNK_BYTES"
  "SENDER_MAX_AUDIO_FRAGMENT_BYTES \<le> MAX_AUDIO_FRAGMENT_BYTES"
  "ENCRYPTED_DATAGRAM_OVERHEAD + frame_chunk_HEADER_SIZE + SENDER_MAX_VIDEO_CHUNK_BYTES \<le> UDP_PAYLOAD_BUDGET"
  "ENCRYPTED_DATAGRAM_OVERHEAD + audio_fragment_header_SIZE + SENDER_MAX_AUDIO_FRAGMENT_BYTES \<le> UDP_PAYLOAD_BUDGET"
  by (simp_all add: budget_defs MAX_VIDEO_CHUNK_BYTES_def MAX_AUDIO_FRAGMENT_BYTES_def)

section \<open>Slices into chunks\<close>

text \<open>\<open>slice::chunks\<close> (a chunk size of zero panics; no call has one) and \<open>usize::div_ceil\<close>.\<close>

function chunks :: "nat \<Rightarrow> 'a list \<Rightarrow> 'a list list" where
  "chunks n xs = (if n = 0 \<or> xs = [] then [] else take n xs # chunks n (drop n xs))"
  by pat_completeness auto
termination
  by (relation "measure (\<lambda>(_, xs). length xs)") auto

declare chunks.simps [simp del]

definition div_ceil :: "nat \<Rightarrow> nat \<Rightarrow> nat" where
  "div_ceil a b = (a + b - 1) div b"

section \<open>State\<close>

datatype sender_error =
    SenderCodec codec_error
  | SenderDatagram datagram_error
  | SenderStore string
  | SenderIo

record udp_sender =
  us_sequence :: u32
  us_frame_id :: u32
  us_audio_frame_id :: u32

definition udp_sender_default :: udp_sender where
  "udp_sender_default = \<lparr>us_sequence = 0, us_frame_id = 0, us_audio_frame_id = 0\<rparr>"

record sender_env =
  se_enc :: aead_enc
  se_unix_ms :: "u32 \<Rightarrow> u32"
  se_socket :: "bytes \<Rightarrow> bool"

text \<open>The sender with its cipher and the datagrams the socket took, in order.\<close>

record sender_link =
  sl_sender :: udp_sender
  sl_cipher :: datagram_cipher
  sl_sent :: "bytes list"

record video_frame =
  vf_data :: bytes
  vf_is_key_frame :: bool
  vf_capture_at :: instant
  vf_encode_started_at :: instant
  vf_encode_completed_at :: instant

section \<open>Packets\<close>

definition sender_packet_header :: "sender_env \<Rightarrow> packet_type \<Rightarrow> u32 \<Rightarrow> packet_header" where
  "sender_packet_header env packet_type sequence =
     \<lparr>ph_packet_type = packet_type, ph_sequence = sequence, ph_timestamp_ms = se_unix_ms env sequence,
      ph_flags = 0\<rparr>"

definition send_packet ::
  "sender_env \<Rightarrow> packet_type \<Rightarrow> bytes \<Rightarrow> sender_link \<Rightarrow> sender_link \<times> (sender_error + unit)" where
  "send_packet env packet_type payload l =
     (let sequence = us_sequence (sl_sender l) + 1;
          l = l\<lparr>sl_sender := sl_sender l\<lparr>us_sequence := sequence\<rparr>\<rparr>;
          header = packet_header_to_bytes (sender_packet_header env packet_type sequence)
      in case seal_into (se_enc env) (sl_cipher l) payload header (extend_from_slice [] header) of
           (c, datagram, Inl e) \<Rightarrow> (l\<lparr>sl_cipher := c\<rparr>, Inl (SenderDatagram e))
         | (c, datagram, Inr _) \<Rightarrow>
             if se_socket env datagram
             then (l\<lparr>sl_cipher := c, sl_sent := sl_sent l @ [datagram]\<rparr>, Inr ())
             else (l\<lparr>sl_cipher := c\<rparr>, Inl SenderIo))"

text \<open>A loop that sends one packet per payload and stops at the first error.\<close>

primrec send_packets ::
  "sender_env \<Rightarrow> packet_type \<Rightarrow> bytes list \<Rightarrow> sender_link \<Rightarrow> sender_link \<times> (sender_error + unit)" where
  "send_packets env packet_type [] l = (l, Inr ())"
| "send_packets env packet_type (payload # payloads) l =
     (case send_packet env packet_type payload l of
        (l, Inl e) \<Rightarrow> (l, Inl e)
      | (l, Inr _) \<Rightarrow> send_packets env packet_type payloads l)"

section \<open>Video\<close>

definition monotonic_us :: "instant \<Rightarrow> instant \<Rightarrow> u64" where
  "monotonic_us origin val = word_of_nat ((val - origin) div 1000)"

definition chunk_payload :: "u32 \<Rightarrow> nat \<times> bytes \<Rightarrow> bytes" where
  "chunk_payload frame_id = (\<lambda>(index, bs).
     le_bytes 4 frame_id @ le_bytes 2 (word_of_nat index :: u16) @ bs)"

definition send_frame ::
  "sender_env \<Rightarrow> u32 \<Rightarrow> u32 \<Rightarrow> video_frame \<Rightarrow> instant \<Rightarrow> instant \<Rightarrow> sender_link \<Rightarrow>
   sender_link \<times> (sender_error + unit)" where
  "send_frame env width height frame session_origin send_at l =
     (let chunk_count = div_ceil (length (vf_data frame)) SENDER_MAX_VIDEO_CHUNK_BYTES;
          frame_id = us_frame_id (sl_sender l) + 1
      in if chunk_count \<ge> 2 ^ 16 then (l, Inl (SenderStore ''encoded frame has too many chunks''))
         else if length (vf_data frame) \<ge> 2 ^ 32 then (l, Inl (SenderStore ''encoded frame is too large''))
         else
         let header = \<lparr>fh_frame_id = frame_id, fh_width = ucast (min width 65535),
               fh_height = ucast (min height 65535), fh_is_key_frame = vf_is_key_frame frame,
               fh_total_chunks = word_of_nat chunk_count,
               fh_total_size = word_of_nat (length (vf_data frame))\<rparr>
         in case encode_frame_header header of
              Inl e \<Rightarrow> (l, Inl (SenderCodec e))
            | Inr encoded_header \<Rightarrow>
              let l = l\<lparr>sl_sender := sl_sender l\<lparr>us_frame_id := frame_id\<rparr>\<rparr>
              in case send_packet env FrameHeader_Pkt encoded_header l of
                   (l, Inl e) \<Rightarrow> (l, Inl e)
                 | (l, Inr _) \<Rightarrow>
                   (case send_packets env FrameChunk_Pkt
                       (map (chunk_payload frame_id)
                         (List.enumerate 0 (chunks SENDER_MAX_VIDEO_CHUNK_BYTES (vf_data frame)))) l of
                      (l, Inl e) \<Rightarrow> (l, Inl e)
                    | (l, Inr _) \<Rightarrow>
                      let stats = \<lparr>ts_frame_id = frame_id,
                            ts_capture_us = monotonic_us session_origin (vf_capture_at frame),
                            ts_encode_start_us = monotonic_us session_origin (vf_encode_started_at frame),
                            ts_encode_end_us = monotonic_us session_origin (vf_encode_completed_at frame),
                            ts_send_us = monotonic_us session_origin send_at\<rparr>
                      in send_packet env Ping_Pkt (encode_timestamp_stats stats) l))"

section \<open>Cursor and audio\<close>

definition send_cursor ::
  "sender_env \<Rightarrow> cursor_update \<Rightarrow> sender_link \<Rightarrow> sender_link \<times> (sender_error + unit)" where
  "send_cursor env cursor l =
     (case encode_cursor_update cursor of
        Inl e \<Rightarrow> (l, Inl (SenderCodec e))
      | Inr payload \<Rightarrow> send_packet env CursorUpdate_Pkt payload l)"

primrec send_fragments ::
  "sender_env \<Rightarrow> u32 \<Rightarrow> u16 \<Rightarrow> (nat \<times> bytes) list \<Rightarrow> sender_link \<Rightarrow> sender_link \<times> (sender_error + unit)" where
  "send_fragments env frame_id fragment_count [] l = (l, Inr ())"
| "send_fragments env frame_id fragment_count (p # ps) l =
     (case audio_fragment_header_to_bytes \<lparr>ah_frame_id = frame_id, ah_fragment_index = word_of_nat (fst p),
             ah_fragment_count = fragment_count\<rparr> of
        Inl e \<Rightarrow> (l, Inl (SenderCodec e))
      | Inr header \<Rightarrow>
          (case send_packet env AudioFrame_Pkt (header @ snd p) l of
             (l, Inl e) \<Rightarrow> (l, Inl e)
           | (l, Inr _) \<Rightarrow> send_fragments env frame_id fragment_count ps l))"

definition send_audio ::
  "sender_env \<Rightarrow> bytes \<Rightarrow> sender_link \<Rightarrow> sender_link \<times> (sender_error + unit)" where
  "send_audio env bs l =
     (if bs = [] then (l, Inr ())
      else
      let frame_id = us_audio_frame_id (sl_sender l) + 1;
          l = l\<lparr>sl_sender := sl_sender l\<lparr>us_audio_frame_id := frame_id\<rparr>\<rparr>;
          fragment_count = div_ceil (length bs) SENDER_MAX_AUDIO_FRAGMENT_BYTES
      in if fragment_count \<ge> 2 ^ 16 then (l, Inl (SenderStore ''audio frame has too many fragments''))
         else send_fragments env frame_id (word_of_nat fragment_count)
                (List.enumerate 0 (chunks SENDER_MAX_AUDIO_FRAGMENT_BYTES bs)) l)"

section \<open>Lemmas on chunks\<close>

lemma chunks_Nil [simp]: "chunks n [] = []"
  by (simp add: chunks.simps)

lemma chunks_Cons: "0 < n \<Longrightarrow> xs \<noteq> [] \<Longrightarrow> chunks n xs = take n xs # chunks n (drop n xs)"
  by (subst chunks.simps) simp

lemma concat_chunks: "0 < n \<Longrightarrow> concat (chunks n xs) = xs"
proof (induction n xs rule: chunks.induct)
  case (1 n xs)
  then show ?case by (cases "xs = []") (simp_all add: chunks.simps [of n xs])
qed

lemma chunks_length_le: "0 < n \<Longrightarrow> c \<in> set (chunks n xs) \<Longrightarrow> 0 < length c \<and> length c \<le> n"
proof (induction n xs rule: chunks.induct)
  case (1 n xs)
  show ?case
  proof (cases "xs = []")
    case False
    with 1 show ?thesis by (auto simp: chunks.simps [of n xs])
  qed (use 1 in simp)
qed

lemma length_chunks: "0 < n \<Longrightarrow> length (chunks n xs) = div_ceil (length xs) n"
proof (induction n xs rule: chunks.induct)
  case (1 n xs)
  show ?case
  proof (cases "xs = []")
    case True
    with 1 show ?thesis by (simp add: div_ceil_def)
  next
    case False
    show ?thesis
    proof (cases "length xs \<le> n")
      case True
      have "(length xs + n - 1) div n = 1"
        using True False 1 by (intro div_nat_eqI) (cases xs; simp)+
      with True False 1 show ?thesis by (simp add: chunks.simps [of n xs] div_ceil_def)
    next
      case False
      define m where "m = length (drop n xs) + n - 1"
      have "length xs + n - 1 = n + m" using 1 False by (simp add: m_def)
      moreover have "(n + m) div n = Suc (m div n)" using div_add_self1 [of n m] \<open>0 < n\<close> by linarith
      ultimately have "div_ceil (length xs) n = Suc (div_ceil (length (drop n xs)) n)"
        by (simp only: div_ceil_def m_def)
      with 1 \<open>xs \<noteq> []\<close> show ?thesis by (simp add: chunks.simps [of n xs])
    qed
  qed
qed

end
