(* ===== verification/Tls_Psk.thy ===== *)
theory Tls_Psk
  imports Codec Std_Collections
begin

text \<open>
  The pre-shared keys of the TLS transport and the host's tracker of failed bootstrap handshakes,
  \<open>maho-net/src/tls_psk.rs\<close>. OpenSSL is not modelled: its key derivation is a parameter, and the
  two PSK callbacks are the functions it calls. The bytes of \<open>b"..."\<close> literals are written as
  character codes.

  The last section bounds what guessing the bootstrap PIN can achieve.
\<close>

text \<open>\<open>io::Error\<close>, by its kind.\<close>

datatype io_error =
    IoUnexpectedEof | IoConnectionReset | IoConnectionAborted | IoBrokenPipe | IoConnectionRefused
  | IoTimedOut | IoWouldBlock | IoInterrupted | IoInvalidData | IoWriteZero | IoNotConnected | IoAlreadyExists
  | IoInvalidInput | IoOther

datatype tls_psk_error =
    TlsInvalidIdentity | TlsInvalidKeyLength | TlsOpenSsl | TlsHandshake string
  | TlsIo io_error | TlsFrame codec_error | TlsInvalidFrameLength u32

abbreviation ascii :: "string \<Rightarrow> bytes" where
  "ascii s \<equiv> map of_char s"

definition BOOTSTRAP_IDENTITY :: rstring where "BOOTSTRAP_IDENTITY = ascii ''maho-b1''"
definition PAIRING_IDENTITY_PREFIX :: rstring where "PAIRING_IDENTITY_PREFIX = ascii ''maho-p1.''"
definition MAX_PAIRING_ATTEMPTS :: usize where "MAX_PAIRING_ATTEMPTS = 5"
definition PAIRING_ATTEMPT_WINDOW :: duration where "PAIRING_ATTEMPT_WINDOW = from_secs 60"
definition PAIRING_LOCKOUT :: duration where "PAIRING_LOCKOUT = from_secs 300"
definition BOOTSTRAP_SALT :: bytes where "BOOTSTRAP_SALT = ascii ''erd/bootstrap/v3''"
definition BOOTSTRAP_STRETCH_ROUNDS :: usize where "BOOTSTRAP_STRETCH_ROUNDS = 600000"

section \<open>Identities and keys\<close>

record psk_identity =
  pi_identity :: rstring
  pi_key :: bytes

text \<open>\<open>pbkdf2 pin salt rounds length\<close> may fail, \<open>hkdf ikm salt info length\<close> does not.\<close>

record key_derivation =
  kd_pbkdf2_hmac :: "bytes \<Rightarrow> bytes \<Rightarrow> usize \<Rightarrow> usize \<Rightarrow> bytes option"
  kd_hkdf_sha256 :: "bytes \<Rightarrow> bytes \<Rightarrow> bytes \<Rightarrow> usize \<Rightarrow> bytes"

definition bootstrap_psk :: "key_derivation \<Rightarrow> rstring \<Rightarrow> tls_psk_error + bytes" where
  "bootstrap_psk kd pin =
     (if length pin \<noteq> 8 \<or> \<not> list_all (\<lambda>b. 0x30 \<le> b \<and> b \<le> 0x39) pin then Inl TlsInvalidIdentity
      else case kd_pbkdf2_hmac kd pin BOOTSTRAP_SALT BOOTSTRAP_STRETCH_ROUNDS 32 of
             None \<Rightarrow> Inl TlsOpenSsl
           | Some stretched \<Rightarrow> Inr (kd_hkdf_sha256 kd stretched BOOTSTRAP_SALT (ascii ''erd/tls-psk'') 32))"

definition psk_identity_bootstrap :: "key_derivation \<Rightarrow> rstring \<Rightarrow> tls_psk_error + psk_identity" where
  "psk_identity_bootstrap kd pin =
     try_bind (bootstrap_psk kd pin) (\<lambda>key. Inr \<lparr>pi_identity = BOOTSTRAP_IDENTITY, pi_key = key\<rparr>)"

definition psk_identity_new :: "rstring \<Rightarrow> bytes \<Rightarrow> tls_psk_error + psk_identity" where
  "psk_identity_new identity key =
     (if identity = [] \<or> 0 \<in> set identity then Inl TlsInvalidIdentity
      else if key = [] then Inl TlsInvalidKeyLength
      else Inr \<lparr>pi_identity = identity, pi_key = key\<rparr>)"

definition psk_identity_pairing :: "rstring \<Rightarrow> bytes \<Rightarrow> tls_psk_error + psk_identity" where
  "psk_identity_pairing pairing_id key =
     (if pairing_id = [] then Inl TlsInvalidIdentity
      else if length key \<noteq> 32 then Inl TlsInvalidKeyLength
      else psk_identity_new (PAIRING_IDENTITY_PREFIX @ pairing_id) key)"

text \<open>The client's callback, with the sizes of OpenSSL's buffers: what it writes to the identity
  buffer (with the terminating NUL) and to the key buffer.\<close>

definition psk_client_callback :: "psk_identity \<Rightarrow> usize \<Rightarrow> usize \<Rightarrow> (bytes \<times> bytes) option" where
  "psk_client_callback psk identity_buffer psk_buffer =
     (if length (pi_identity psk) + 1 > identity_buffer \<or> length (pi_key psk) > psk_buffer then None
      else Some (pi_identity psk @ [0], pi_key psk))"

text \<open>\<open>TlsPskServer::new\<close> collects the keys into a map, a later identity replacing an equal earlier
  one; an unknown identity yields a key of length zero, on which OpenSSL aborts the handshake.\<close>

definition psk_server_new :: "psk_identity list \<Rightarrow> tls_psk_error + (rstring, bytes) hash_map" where
  "psk_server_new psks =
     (let keys = fold (\<lambda>psk. AList.update (pi_identity psk) (pi_key psk)) psks []
      in if keys = [] then Inl TlsInvalidKeyLength else Inr keys)"

definition psk_server_callback :: "(rstring, bytes) hash_map \<Rightarrow> rstring option \<Rightarrow> usize \<Rightarrow> bytes option" where
  "psk_server_callback keys identity psk_buffer =
     (case Option.bind identity (map_of keys) of
        None \<Rightarrow> Some []
      | Some key \<Rightarrow> if length key > psk_buffer then None else Some key)"

section \<open>The bootstrap lockout\<close>

record bootstrap_lockout =
  bl_pairing_active :: bool
  bl_failure_count :: usize
  bl_failure_window_start :: "instant option"
  bl_locked_until :: "instant option"

definition bootstrap_lockout_default :: bootstrap_lockout where
  "bootstrap_lockout_default = \<lparr>bl_pairing_active = False, bl_failure_count = 0,
     bl_failure_window_start = None, bl_locked_until = None\<rparr>"

definition begin_pairing :: "bootstrap_lockout \<Rightarrow> bootstrap_lockout" where
  "begin_pairing l = l\<lparr>bl_pairing_active := True, bl_failure_count := 0,
     bl_failure_window_start := None, bl_locked_until := None\<rparr>"

definition cancel_pairing :: "bootstrap_lockout \<Rightarrow> bootstrap_lockout" where
  "cancel_pairing l = l\<lparr>bl_pairing_active := False\<rparr>"

definition lockout_is_allowed :: "bootstrap_lockout \<Rightarrow> instant \<Rightarrow> bool" where
  "lockout_is_allowed l now \<longleftrightarrow> bl_pairing_active l \<and>
     (case bl_locked_until l of None \<Rightarrow> True | Some locked_until \<Rightarrow> now \<ge> locked_until)"

definition record_failure :: "bootstrap_lockout \<Rightarrow> instant \<Rightarrow> bootstrap_lockout \<times> bool" where
  "record_failure l now =
     (let l = (if case bl_failure_window_start l of None \<Rightarrow> True
                  | Some start \<Rightarrow> now - start > PAIRING_ATTEMPT_WINDOW
               then l\<lparr>bl_failure_count := 0, bl_failure_window_start := Some now\<rparr> else l);
          l = l\<lparr>bl_failure_count := bl_failure_count l + 1\<rparr>
      in if bl_failure_count l \<ge> MAX_PAIRING_ATTEMPTS
         then (l\<lparr>bl_locked_until := Some (now + PAIRING_LOCKOUT), bl_pairing_active := False\<rparr>, True)
         else (l, False))"

section \<open>What the lockout is worth\<close>

datatype lockout_op = BeginPairing | CancelPairing | RecordFailure instant

primrec lockout_step :: "lockout_op \<Rightarrow> bootstrap_lockout \<Rightarrow> bootstrap_lockout" where
  "lockout_step BeginPairing l = begin_pairing l"
| "lockout_step CancelPairing l = cancel_pairing l"
| "lockout_step (RecordFailure now) l = fst (record_failure l now)"

text \<open>A run of failures with no new pairing window, and whether each locked the tracker.\<close>

primrec record_failures :: "bootstrap_lockout \<Rightarrow> instant list \<Rightarrow> bootstrap_lockout \<times> bool list" where
  "record_failures l [] = (l, [])"
| "record_failures l (now # later) =
     (let (l, locked) = record_failure l now; (l, rest) = record_failures l later in (l, locked # rest))"

lemma record_failure_active:
  "bl_pairing_active (fst (record_failure l now)) \<longleftrightarrow> bl_pairing_active l \<and> \<not> snd (record_failure l now)"
  unfolding record_failure_def Let_def by (simp split: if_split)

lemma inactive_step: "op \<noteq> BeginPairing \<Longrightarrow> \<not> bl_pairing_active l \<Longrightarrow> \<not> bl_pairing_active (lockout_step op l)"
  by (cases op) (simp_all add: cancel_pairing_def record_failure_active)

lemma inactive_steps:
  "BeginPairing \<notin> set ops \<Longrightarrow> \<not> bl_pairing_active l \<Longrightarrow> \<not> bl_pairing_active (fold lockout_step ops l)"
proof (induction ops arbitrary: l)
  case (Cons op ops)
  then have "\<not> bl_pairing_active (lockout_step op l)" by (intro inactive_step) auto
  with Cons show ?case by simp
qed simp

text \<open>Inside a window that starts at \<open>s\<close> with \<open>c\<close> failures so far.\<close>

definition in_window :: "nat \<Rightarrow> instant \<Rightarrow> bootstrap_lockout \<Rightarrow> bool" where
  "in_window c s l \<longleftrightarrow> bl_failure_count l = c \<and> bl_failure_window_start l = Some s"

lemma record_failure_window:
  assumes "in_window c s l"
  shows "snd (record_failure l now) \<longleftrightarrow> c \<ge> 4 \<and> now \<le> s + PAIRING_ATTEMPT_WINDOW"
    and "now \<le> s + PAIRING_ATTEMPT_WINDOW \<Longrightarrow> in_window (c + 1) s (fst (record_failure l now))"
    and "s + PAIRING_ATTEMPT_WINDOW < now \<Longrightarrow> in_window 1 now (fst (record_failure l now))"
  using assms by (auto simp: in_window_def record_failure_def Let_def MAX_PAIRING_ATTEMPTS_def)

lemma window_rest:
  assumes "in_window c s l" and "c \<le> 4" and "True \<notin> set (snd (record_failures l ts))"
  shows "length (filter (\<lambda>t. t \<le> s + PAIRING_ATTEMPT_WINDOW) ts) \<le> 4 - c \<or> \<not> sorted ts"
  using assms
proof (induction ts arbitrary: l c)
  case (Cons x ts)
  show ?case
  proof (cases "x \<le> s + PAIRING_ATTEMPT_WINDOW")
    case True
    note w = record_failure_window [OF Cons.prems(1), of x]
    have c: "c < 4" using w(1) True Cons.prems(2,3) by (auto simp: Let_def case_prod_unfold)
    have "length (filter (\<lambda>t. t \<le> s + PAIRING_ATTEMPT_WINDOW) ts) \<le> 4 - (c + 1) \<or> \<not> sorted ts"
      by (rule Cons.IH [OF w(2) [OF True]]) (use c Cons.prems(3) in \<open>auto simp: Let_def case_prod_unfold\<close>)
    then show ?thesis using True c by auto
  next
    case False
    then have "filter (\<lambda>t. t \<le> s + PAIRING_ATTEMPT_WINDOW) (x # ts) = []" if "sorted (x # ts)"
      using that by (auto simp: filter_empty_conv)
    then show ?thesis by (metis list.size(3) le0)
  qed
qed simp

definition failures_in :: "instant \<Rightarrow> instant list \<Rightarrow> nat" where
  "failures_in t ts = length (filter (\<lambda>x. t \<le> x \<and> x \<le> t + PAIRING_ATTEMPT_WINDOW) ts)"

lemma failures_in_le:
  "t \<le> s \<Longrightarrow> failures_in t ts \<le> length (filter (\<lambda>x. x \<le> s + PAIRING_ATTEMPT_WINDOW) ts)"
  unfolding failures_in_def by (induction ts) auto

lemma window_failures:
  assumes "in_window c s l" and "1 \<le> c" "c \<le> 4" and "sorted ts" and "True \<notin> set (snd (record_failures l ts))"
  shows "failures_in t ts \<le> (if t \<le> s + PAIRING_ATTEMPT_WINDOW then 8 - c else 8)"
  using assms
proof (induction ts arbitrary: l c s)
  case (Cons x ts)
  let ?l = "fst (record_failure l x)"
  note w = record_failure_window [OF Cons.prems(1), of x]
  have ok: "\<not> snd (record_failure l x)" "True \<notin> set (snd (record_failures ?l ts))" "sorted ts"
    using Cons.prems(4,5) by (auto simp: Let_def case_prod_unfold)
  show ?case
  proof (cases "x \<le> s + PAIRING_ATTEMPT_WINDOW")
    case True
    then have c: "c < 4" using w(1) ok(1) by auto
    have "failures_in t ts \<le> (if t \<le> s + PAIRING_ATTEMPT_WINDOW then 8 - (c + 1) else 8)"
      by (rule Cons.IH [OF w(2) [OF True] _ _ ok(3,2)]) (use c in auto)
    then show ?thesis using True c by (auto simp: failures_in_def split: if_splits)
  next
    case False
    then have new: "in_window 1 x ?l" using w(3) by simp
    have rest: "failures_in t ts \<le> (if t \<le> x + PAIRING_ATTEMPT_WINDOW then 8 - 1 else 8)"
      by (rule Cons.IH [OF new _ _ ok(3,2)]) simp_all
    show ?thesis
    proof (cases "t \<le> x")
      case True
      have "length (filter (\<lambda>t. t \<le> x + PAIRING_ATTEMPT_WINDOW) ts) \<le> 4 - 1"
        using window_rest [OF new _ ok(2)] ok(3) by auto
      with failures_in_le [OF True, of ts] have "failures_in t ts \<le> 3" by linarith
      then have "failures_in t (x # ts) \<le> 4" by (simp add: failures_in_def)
      then show ?thesis using Cons.prems(3) by arith
    next
      case False
      then have "failures_in t (x # ts) = failures_in t ts" by (simp add: failures_in_def)
      moreover have "\<not> t \<le> s + PAIRING_ATTEMPT_WINDOW" using \<open>\<not> x \<le> s + _\<close> False by simp
      ultimately show ?thesis using rest by (auto split: if_splits)
    qed
  qed
qed (simp add: failures_in_def)

lemma first_failure: "in_window 1 x (fst (record_failure (begin_pairing l) x))"
  by (simp add: in_window_def record_failure_def begin_pairing_def Let_def MAX_PAIRING_ATTEMPTS_def)

text \<open>Guessing the PIN is rate limited. In a pairing window, as long as no failure has locked the
  tracker, no period of 60 seconds holds more than 8 failed bootstrap handshakes (the window of the
  counter is fixed, not sliding, so two windows of four meet); and once a failure has locked it, no
  bootstrap handshake is allowed at any time, whatever failures and cancellations follow, until the
  host starts a new pairing window.\<close>

theorem pairing_attempts_bounded:
  assumes "sorted ts" and "record_failures (begin_pairing l) ts = (l', locked)"
  shows "(True \<notin> set locked \<longrightarrow> failures_in t ts \<le> 8) \<and>
    (True \<in> set locked \<longrightarrow> BeginPairing \<notin> set ops \<longrightarrow> \<not> lockout_is_allowed (fold lockout_step ops l') now)"
proof (intro conjI impI)
  assume unlocked: "True \<notin> set locked"
  show "failures_in t ts \<le> 8"
  proof (cases ts)
    case (Cons x xs)
    let ?l = "fst (record_failure (begin_pairing l) x)"
    have rest: "True \<notin> set (snd (record_failures ?l xs))" and "sorted xs"
      using assms unlocked Cons by (auto simp: Let_def case_prod_unfold)
    have rest3: "length (filter (\<lambda>t. t \<le> x + PAIRING_ATTEMPT_WINDOW) xs) \<le> 4 - 1"
      using window_rest [OF first_failure _ rest] \<open>sorted xs\<close> by auto
    have "failures_in t xs \<le> (if t \<le> x + PAIRING_ATTEMPT_WINDOW then 8 - 1 else 8)"
      by (rule window_failures [OF first_failure _ _ \<open>sorted xs\<close> rest]) simp_all
    then show ?thesis
      using Cons failures_in_le [of t x xs] rest3 by (auto simp: failures_in_def split: if_splits)
  qed (simp add: failures_in_def)
next
  assume "True \<in> set locked" and ops: "BeginPairing \<notin> set ops"
  have "True \<in> set (snd (record_failures l ts)) \<Longrightarrow> \<not> bl_pairing_active (fst (record_failures l ts))" for l ts
  proof (induction ts arbitrary: l)
    case (Cons x ts)
    have keep: "\<not> bl_pairing_active k \<Longrightarrow> \<not> bl_pairing_active (fst (record_failures k ts))" for k
    proof (induction ts arbitrary: k)
      case (Cons y ts)
      have "\<not> bl_pairing_active (fst (record_failure k y))" using inactive_step [of "RecordFailure y" k] Cons.prems by simp
      from Cons.IH [OF this] show ?case by (simp add: Let_def case_prod_unfold)
    qed simp
    with Cons keep record_failure_active show ?case by (auto simp: Let_def case_prod_unfold)
  qed simp
  from this [of "begin_pairing l" ts] have "\<not> bl_pairing_active l'"
    using assms(2) \<open>True \<in> set locked\<close> by simp
  then show "\<not> lockout_is_allowed (fold lockout_step ops l') now"
    using inactive_steps [OF ops] by (simp add: lockout_is_allowed_def)
qed

theorem pairing_attempts_bounded_witness:
  "\<exists>l'. record_failures (begin_pairing bootstrap_lockout_default) [0, 1, 2, 3, 4] =
      (l', [False, False, False, False, True]) \<and>
    \<not> lockout_is_allowed (fold lockout_step [CancelPairing, RecordFailure 9] l') (from_secs 1000)"
proof -
  obtain l' where r: "record_failures (begin_pairing bootstrap_lockout_default) [0, 1, 2, 3, 4] =
      (l', [False, False, False, False, True])"
    by (simp add: record_failure_def begin_pairing_def bootstrap_lockout_default_def Let_def
      MAX_PAIRING_ATTEMPTS_def PAIRING_ATTEMPT_WINDOW_def)
  from pairing_attempts_bounded [OF _ r, of 0 "[CancelPairing, RecordFailure 9]" "from_secs 1000"] r
  show ?thesis by auto
qed

end
