(* ===== verification/Tls_Stream.thy ===== *)
theory Tls_Stream
  imports Framing Tls_Psk
begin

text \<open>
  \<open>TlsPskStream\<close> of \<open>maho-net/src/tls_psk.rs\<close>: the bounded queue of outgoing frames, written in
  steps that OpenSSL may take partly, and the frame reader on top of \<open>SSL_read\<close>. What OpenSSL and
  the socket answer to a call is an argument of the step: \<open>tr_write n\<close> answers \<open>SSL_write\<close> of \<open>n\<close>
  bytes, \<open>tr_flush\<close> the flush. A step also returns the plaintext it got acknowledged.

  The flush loop may run forever (\<open>Interrupted\<close> retries), so it is a partial function; the last
  section shows when it returns, and what a peer reads of what was written.
\<close>

definition MAX_OUTBOUND_FRAMES :: usize where "MAX_OUTBOUND_FRAMES = 64"
definition MAX_OUTBOUND_BYTES :: usize where "MAX_OUTBOUND_BYTES = MAX_TCP_FRAME_SIZE + 4"
definition TLS_WRITE_CHUNK :: usize where "TLS_WRITE_CHUNK = 16 * 1024"

record pending_frame =
  pf_bytes :: bytes
  pf_offset :: usize

record tls_stream =
  tl_frame_reader :: tcp_frame_reader
  tl_pending_events :: "tcp_frame_event list"
  tl_read_needs_write :: bool
  tl_outbound :: "pending_frame list"
  tl_outbound_bytes :: usize
  tl_write_needs_read :: bool
  tl_write_failed :: bool

definition tls_stream_new :: tls_stream where
  "tls_stream_new = \<lparr>tl_frame_reader = tcp_reader_new, tl_pending_events = [],
     tl_read_needs_write = False, tl_outbound = [], tl_outbound_bytes = 0,
     tl_write_needs_read = False, tl_write_failed = False\<rparr>"

section \<open>Writing\<close>

datatype ssl_answer = Wrote usize | WantRead | WantWrite | SslFailed io_error

record transport =
  tr_write :: "usize \<Rightarrow> ssl_answer"
  tr_flush :: "io_error + unit"

definition queue_frame :: "bytes \<Rightarrow> tls_stream \<Rightarrow> tls_stream \<times> (tls_psk_error + unit)" where
  "queue_frame payload s =
     (if tl_write_failed s then (s, Inl (TlsIo IoBrokenPipe))
      else if payload = [] \<or> length payload > MAX_TCP_FRAME_SIZE
      then (s, Inl (TlsFrame (InvalidFrameLength
             (if length payload < 2 ^ 32 then word_of_nat (length payload) else - 1))))
      else
      let frame_length = length payload + 4
      in if length (tl_outbound s) = MAX_OUTBOUND_FRAMES \<or>
            frame_length > MAX_OUTBOUND_BYTES - tl_outbound_bytes s
         then (s, Inl (TlsIo IoWouldBlock))
         else case tcp_frame_encode payload of
                Inl e \<Rightarrow> (s, Inl (TlsFrame e))
              | Inr frame \<Rightarrow>
                  (s\<lparr>tl_outbound_bytes := tl_outbound_bytes s + frame_length,
                     tl_outbound := tl_outbound s @ [\<lparr>pf_bytes = frame, pf_offset = 0\<rparr>]\<rparr>, Inr ()))"

definition has_pending_frames :: "tls_stream \<Rightarrow> bool" where
  "has_pending_frames s \<longleftrightarrow> tl_outbound s \<noteq> []"

text \<open>The end of \<open>write_frame_step\<close>: \<open>Interrupted\<close> is no error, \<open>WouldBlock\<close> one that keeps the
  queue, any other ends the stream.\<close>

definition write_outcome :: "io_error + unit \<Rightarrow> tls_stream \<Rightarrow> tls_stream \<times> (tls_psk_error + unit)" where
  "write_outcome result s =
     (case result of
        Inl e \<Rightarrow>
          if e = IoInterrupted then (s, Inr ())
          else if e = IoWouldBlock then (s, Inl (TlsIo e))
          else (s\<lparr>tl_write_failed := True, tl_outbound := [], tl_outbound_bytes := 0\<rparr>, Inl (TlsIo e))
      | Inr _ \<Rightarrow> (s, Inr ()))"

definition write_frame_step :: "transport \<Rightarrow> tls_stream \<Rightarrow> tls_stream \<times> (tls_psk_error + unit) \<times> bytes" where
  "write_frame_step tr s =
     (if tl_write_failed s then (s, Inl (TlsIo IoBrokenPipe), [])
      else case tl_outbound s of
        [] \<Rightarrow> (s, Inr (), [])
      | frame # frames \<Rightarrow>
          let s = s\<lparr>tl_write_needs_read := False\<rparr>
          in if pf_offset frame = length (pf_bytes frame)
             then (case tr_flush tr of
                     Inl e \<Rightarrow> let (s, r) = write_outcome (Inl e) s in (s, r, [])
                   | Inr _ \<Rightarrow> (s\<lparr>tl_outbound_bytes := tl_outbound_bytes s - length (pf_bytes frame),
                                 tl_outbound := frames\<rparr>, Inr (), []))
             else
             let stop = min (pf_offset frame + TLS_WRITE_CHUNK) (length (pf_bytes frame))
             in case tr_write tr (stop - pf_offset frame) of
                  Wrote count \<Rightarrow>
                    if count = 0 then let (s, r) = write_outcome (Inl IoWriteZero) s in (s, r, [])
                    else (s\<lparr>tl_outbound := frame\<lparr>pf_offset := pf_offset frame + count\<rparr> # frames\<rparr>,
                          Inr (), take count (drop (pf_offset frame) (pf_bytes frame)))
                | WantRead \<Rightarrow> (s\<lparr>tl_write_needs_read := True\<rparr>, Inl (TlsIo IoWouldBlock), [])
                | WantWrite \<Rightarrow> (s\<lparr>tl_write_needs_read := False\<rparr>, Inl (TlsIo IoWouldBlock), [])
                | SslFailed e \<Rightarrow> let (s, r) = write_outcome (Inl e) s in (s, r, []))"

text \<open>The loop of \<open>flush_pending_frames\<close>: call number \<open>i\<close> is answered by \<open>env i\<close>.\<close>

partial_function (option) flush_loop ::
  "(nat \<Rightarrow> transport) \<Rightarrow> nat \<Rightarrow> tls_stream \<Rightarrow> bytes \<Rightarrow> (tls_stream \<times> (tls_psk_error + unit) \<times> bytes) option" where
  "flush_loop env i s sent =
     (if has_pending_frames s
      then (case write_frame_step (env i) s of
              (s', Inl e, out) \<Rightarrow> Some (s', Inl e, sent @ out)
            | (s', Inr _, out) \<Rightarrow> flush_loop env (i + 1) s' (sent @ out))
      else Some (s, Inr (), sent))"

definition flush_pending_frames ::
  "(nat \<Rightarrow> transport) \<Rightarrow> tls_stream \<Rightarrow> (tls_stream \<times> (tls_psk_error + unit) \<times> bytes) option" where
  "flush_pending_frames env s =
     (if tl_write_failed s then Some (s, Inl (TlsIo IoBrokenPipe), []) else flush_loop env 0 s [])"

definition write_frame ::
  "(nat \<Rightarrow> transport) \<Rightarrow> bytes \<Rightarrow> tls_stream \<Rightarrow> (tls_stream \<times> (tls_psk_error + unit) \<times> bytes) option" where
  "write_frame env payload s =
     (case queue_frame payload s of
        (s', Inl e) \<Rightarrow> Some (s', Inl e, [])
      | (s', Inr _) \<Rightarrow> flush_pending_frames env s')"

section \<open>Reading\<close>

text \<open>The answers of \<open>SSL_read\<close>; \<open>ZERO_RETURN\<close> counts as a read of no bytes.\<close>

datatype ssl_read_answer = ReadBytes bytes | ReadZeroReturn | ReadWantRead | ReadWantWrite | ReadFailed io_error

definition pop_event :: "tls_stream \<Rightarrow> tls_stream \<times> (tls_psk_error + bytes option)" where
  "pop_event s =
     (case tl_pending_events s of
        [] \<Rightarrow> (s, Inr None)
      | Frame frame # events \<Rightarrow> (s\<lparr>tl_pending_events := events\<rparr>, Inr (Some frame))
      | DroppedInvalidLength len # events \<Rightarrow>
          (s\<lparr>tl_pending_events := events\<rparr>, Inl (TlsInvalidFrameLength len)))"

definition read_frame_step :: "ssl_read_answer \<Rightarrow> tls_stream \<Rightarrow> tls_stream \<times> (tls_psk_error + bytes option)" where
  "read_frame_step answer s =
     (if tl_write_failed s then (s, Inl (TlsIo IoBrokenPipe))
      else if tl_pending_events s \<noteq> [] then pop_event s
      else
      let s = s\<lparr>tl_read_needs_write := False\<rparr>;
          count_zero = (s, Inl (TlsIo IoUnexpectedEof))
      in case answer of
           ReadBytes input \<Rightarrow>
             if input = [] then count_zero
             else let (reader, events) = tcp_reader_push (tl_frame_reader s) input
               in pop_event (s\<lparr>tl_frame_reader := reader, tl_pending_events := tl_pending_events s @ events\<rparr>)
         | ReadZeroReturn \<Rightarrow> count_zero
         | ReadWantRead \<Rightarrow> (s\<lparr>tl_read_needs_write := False\<rparr>, Inl (TlsIo IoWouldBlock))
         | ReadWantWrite \<Rightarrow> (s\<lparr>tl_read_needs_write := True\<rparr>, Inl (TlsIo IoWouldBlock))
         | ReadFailed e \<Rightarrow> (s, Inl (TlsIo e)))"

section \<open>The queue\<close>

text \<open>The state of the queue: the offsets are inside the frames and the counter is the sum.\<close>

definition outbound_ok :: "tls_stream \<Rightarrow> bool" where
  "outbound_ok s \<longleftrightarrow> (\<forall>f\<in>set (tl_outbound s). pf_offset f \<le> length (pf_bytes f)) \<and>
     length (tl_outbound s) \<le> MAX_OUTBOUND_FRAMES \<and>
     tl_outbound_bytes s = sum_list (map (length \<circ> pf_bytes) (tl_outbound s)) \<and>
     tl_outbound_bytes s \<le> MAX_OUTBOUND_BYTES \<and> (tl_write_failed s \<longrightarrow> tl_outbound s = [])"

text \<open>The documented contract of \<open>SSL_write\<close>: it takes at most what it was offered.\<close>

definition ssl_ok :: "transport \<Rightarrow> bool" where
  "ssl_ok tr \<longleftrightarrow> (\<forall>n. case tr_write tr n of Wrote count \<Rightarrow> count \<le> n | _ \<Rightarrow> True)"

definition unsent :: "tls_stream \<Rightarrow> bytes" where
  "unsent s = concat (map (\<lambda>f. drop (pf_offset f) (pf_bytes f)) (tl_outbound s))"

lemma outbound_ok_new [simp]: "outbound_ok tls_stream_new"
  by (simp add: outbound_ok_def tls_stream_new_def MAX_OUTBOUND_FRAMES_def)

lemma queue_frame_ok:
  assumes "outbound_ok s" and "queue_frame payload s = (s', r)"
  shows "outbound_ok s' \<and> tl_write_failed s' = tl_write_failed s \<and>
    (case r of
       Inr _ \<Rightarrow> \<exists>frame. tcp_frame_encode payload = Inr frame \<and> unsent s' = unsent s @ frame \<and> \<not> tl_write_failed s
     | Inl _ \<Rightarrow> s' = s)"
proof (cases r)
  case (Inr u)
  with assms(2) obtain frame where enc: "tcp_frame_encode payload = Inr frame"
    and s': "s' = s\<lparr>tl_outbound_bytes := tl_outbound_bytes s + (length payload + 4),
      tl_outbound := tl_outbound s @ [\<lparr>pf_bytes = frame, pf_offset = 0\<rparr>]\<rparr>"
    and room: "length (tl_outbound s) \<noteq> MAX_OUTBOUND_FRAMES"
      "length payload + 4 \<le> MAX_OUTBOUND_BYTES - tl_outbound_bytes s" "\<not> tl_write_failed s"
    by (auto simp: queue_frame_def Let_def split: if_splits sum.splits)
  moreover have "length frame = length payload + 4" using enc by (auto simp: tcp_frame_encode_Inr)
  ultimately show ?thesis
    using assms(1) Inr by (auto simp: outbound_ok_def unsent_def)
qed (use assms in \<open>auto simp: queue_frame_def Let_def split: if_splits sum.splits\<close>)

text \<open>What one write step does: it acknowledges a front part of what is unsent, or fails for good.\<close>

lemma write_frame_step_ok:
  assumes inv: "outbound_ok s" and tr: "ssl_ok tr" and step: "write_frame_step tr s = (s', r, out)"
  shows "outbound_ok s'" and "tl_write_failed s \<Longrightarrow> s' = s \<and> out = []"
    and "\<not> tl_write_failed s' \<Longrightarrow> unsent s = out @ unsent s'" and "tl_write_failed s' \<Longrightarrow> out = []"
proof -
  have "outbound_ok s' \<and> (tl_write_failed s \<longrightarrow> s' = s \<and> out = []) \<and>
    (\<not> tl_write_failed s' \<longrightarrow> unsent s = out @ unsent s') \<and> (tl_write_failed s' \<longrightarrow> out = [])"
  proof (cases "tl_write_failed s \<or> tl_outbound s = []")
    case True
    then have "write_frame_step tr s = (s, if tl_write_failed s then Inl (TlsIo IoBrokenPipe) else Inr (), [])"
      by (auto simp: write_frame_step_def)
    with step inv show ?thesis by auto
  next
    case False
    then obtain f fs where out: "tl_outbound s = f # fs" by (cases "tl_outbound s") auto
    let ?n = "min (pf_offset f + TLS_WRITE_CHUNK) (length (pf_bytes f)) - pf_offset f"
    have le: "count \<le> length (pf_bytes f) - pf_offset f" if "tr_write tr ?n = Wrote count" for count
    proof -
      have "case tr_write tr ?n of Wrote count \<Rightarrow> count \<le> ?n | _ \<Rightarrow> True" using tr unfolding ssl_ok_def by blast
      with that have "count \<le> ?n" by simp
      then show ?thesis by linarith
    qed
    have split: "drop (pf_offset f) (pf_bytes f) =
        take count (drop (pf_offset f) (pf_bytes f)) @ drop (pf_offset f + count) (pf_bytes f)" for count
      by (metis append_take_drop_id drop_drop add.commute)
    show ?thesis
      using step inv False le split out
      by (auto simp: write_frame_step_def write_outcome_def outbound_ok_def unsent_def Let_def
        split: if_splits sum.splits ssl_answer.splits)
  qed
  then show "outbound_ok s'" and "tl_write_failed s \<Longrightarrow> s' = s \<and> out = []"
    and "\<not> tl_write_failed s' \<Longrightarrow> unsent s = out @ unsent s'" and "tl_write_failed s' \<Longrightarrow> out = []"
    by blast+
qed

section \<open>The flush returns\<close>

text \<open>Work left: every step that neither fails nor is interrupted takes some of it away.\<close>

definition flush_work :: "tls_stream \<Rightarrow> nat" where
  "flush_work s = length (unsent s) + length (tl_outbound s)"

definition interrupts :: "transport \<Rightarrow> bool" where
  "interrupts tr \<longleftrightarrow> tr_flush tr = Inl IoInterrupted \<or> (\<exists>n>0. tr_write tr n = SslFailed IoInterrupted)"

lemma write_frame_step_work:
  assumes inv: "outbound_ok s" and tr: "ssl_ok tr" and step: "write_frame_step tr s = (s', Inr u, out)"
    and pending: "tl_outbound s \<noteq> []"
  shows "flush_work s' \<le> flush_work s \<and> (\<not> interrupts tr \<longrightarrow> flush_work s' < flush_work s)"
proof -
  have live: "\<not> tl_write_failed s" using inv pending by (auto simp: outbound_ok_def)
  with step pending have live': "\<not> tl_write_failed s'"
    by (auto simp: write_frame_step_def write_outcome_def Let_def
      split: list.splits if_splits sum.splits ssl_answer.splits)
  have len: "length (unsent s) = length out + length (unsent s')"
    using write_frame_step_ok(3) [OF inv tr step live'] by simp
  obtain f fs where out: "tl_outbound s = f # fs" using pending by (cases "tl_outbound s") auto
  have offer: "0 < min (pf_offset f + TLS_WRITE_CHUNK) (length (pf_bytes f)) - pf_offset f"
    if "pf_offset f \<noteq> length (pf_bytes f)"
    using that inv out by (auto simp: outbound_ok_def TLS_WRITE_CHUNK_def)
  have quiet: "tr_write tr (min (pf_offset f + TLS_WRITE_CHUNK) (length (pf_bytes f)) - pf_offset f)
      \<noteq> SslFailed IoInterrupted" if "pf_offset f \<noteq> length (pf_bytes f)" "\<not> interrupts tr"
    using that(2) offer [OF that(1)] unfolding interrupts_def by blast
  have "length (tl_outbound s') \<le> length (tl_outbound s) \<and>
      (out = [] \<longrightarrow> \<not> interrupts tr \<longrightarrow> length (tl_outbound s') < length (tl_outbound s))"
    using step live out inv quiet
    by (auto simp: write_frame_step_def write_outcome_def interrupts_def [of tr] outbound_ok_def Let_def
      split: if_splits sum.splits ssl_answer.splits)
  with len show ?thesis by (cases out) (auto simp: flush_work_def)
qed

lemma flush_loop_done: "tl_outbound s = [] \<Longrightarrow> flush_loop env i s sent = Some (s, Inr (), sent)"
  by (subst flush_loop.simps) (simp add: has_pending_frames_def)

lemma flush_loop_step:
  "tl_outbound s \<noteq> [] \<Longrightarrow> write_frame_step (env i) s = (s', r, out) \<Longrightarrow>
     flush_loop env i s sent =
       (case r of Inl e \<Rightarrow> Some (s', Inl e, sent @ out) | Inr _ \<Rightarrow> flush_loop env (Suc i) s' (sent @ out))"
  by (subst flush_loop.simps) (simp add: has_pending_frames_def split: sum.split)

text \<open>Up to \<open>w\<close> units of work, the next undisturbed answer being number \<open>j\<close>.\<close>

lemma flush_loop_returns:
  assumes env: "\<forall>i. ssl_ok (env i)" and fair: "\<forall>i. \<exists>j\<ge>i. \<not> interrupts (env j)"
  shows "outbound_ok s \<Longrightarrow> \<exists>y. flush_loop env i s sent = Some y"
proof (induction "flush_work s" arbitrary: s i sent rule: less_induct)
  case less
  note outer = less
  obtain j where "i \<le> j" and j: "\<not> interrupts (env j)" using fair by blast
  have "outbound_ok s' \<Longrightarrow> flush_work s' \<le> flush_work s \<Longrightarrow> \<exists>y. flush_loop env i s' sent = Some y" for s' sent
    using \<open>i \<le> j\<close>
  proof (induction i arbitrary: s' sent rule: inc_induct)
    case (step n)
    show ?case
    proof (cases "tl_outbound s' = []")
      case True
      then show ?thesis by (simp add: flush_loop_done)
    next
      case False
      obtain t r out where st: "write_frame_step (env n) s' = (t, r, out)" by (cases "write_frame_step (env n) s'")
      show ?thesis
      proof (cases r)
        case (Inr u)
        have "outbound_ok t" by (rule write_frame_step_ok(1) [OF step.prems(1) _ st]) (use env in blast)
        moreover have "flush_work t \<le> flush_work s"
          using write_frame_step_work [OF step.prems(1) _ _ False, of "env n" t u out] env st Inr step.prems(2) by auto
        ultimately show ?thesis
          using step.IH [of t "sent @ out"] Inr by (simp add: flush_loop_step [where env = env, OF False st])
      qed (simp add: flush_loop_step [where env = env, OF False st])
    qed
  next
    case base
    show ?case
    proof (cases "tl_outbound s' = []")
      case True
      then show ?thesis by (simp add: flush_loop_done)
    next
      case False
      obtain t r out where st: "write_frame_step (env j) s' = (t, r, out)" by (cases "write_frame_step (env j) s'")
      show ?thesis
      proof (cases r)
        case (Inr u)
        have ok: "outbound_ok t" by (rule write_frame_step_ok(1) [OF base(1) _ st]) (use env in blast)
        have "flush_work t < flush_work s"
          using write_frame_step_work [OF base(1) _ _ False, of "env j" t u out] env st Inr base(2) j by auto
        from outer(1) [OF this ok] show ?thesis
          using Inr by (simp add: flush_loop_step [where env = env, OF False st])
      qed (simp add: flush_loop_step [where env = env, OF False st])
    qed
  qed
  from this [OF less.prems order_refl] show ?case .
qed


text \<open>What has been written when the loop returns: a front part of what was unsent.\<close>

definition flush_result :: "tls_stream \<Rightarrow> bytes \<Rightarrow> tls_stream \<times> (tls_psk_error + unit) \<times> bytes \<Rightarrow> bool" where
  "flush_result s sent y \<longleftrightarrow> (case y of (s', r, out) \<Rightarrow> outbound_ok s' \<and>
     (\<exists>left. sent @ unsent s = out @ left \<and> (\<not> tl_write_failed s' \<longrightarrow> left = unsent s')) \<and>
     (r = Inr () \<longrightarrow> tl_outbound s' = [] \<and> tl_write_failed s' = tl_write_failed s))"

lemma write_frame_step_prefix:
  assumes "outbound_ok s" and "ssl_ok tr" and "write_frame_step tr s = (s', r, out)"
  shows "\<exists>left. unsent s = out @ left \<and> (\<not> tl_write_failed s' \<longrightarrow> left = unsent s')"
  using write_frame_step_ok(3,4) [OF assms] by (cases "tl_write_failed s'") auto

lemma write_frame_step_live:
  assumes "write_frame_step tr s = (s', Inr u, out)"
  shows "tl_write_failed s' = tl_write_failed s"
  using assms by (auto simp: write_frame_step_def write_outcome_def Let_def
      split: list.splits if_splits sum.splits ssl_answer.splits)

lemma flush_loop_sent:
  assumes "flush_loop env i s sent = Some y" and "\<forall>i. ssl_ok (env i)" and "outbound_ok s"
  shows "flush_result s sent y"
proof -
  have "(\<forall>i. ssl_ok (env i)) \<longrightarrow> outbound_ok s \<longrightarrow> flush_result s sent y"
    using assms(1)
  proof (rule flush_loop.raw_induct
      [where P = "\<lambda>env i s sent y. (\<forall>i. ssl_ok (env i)) \<longrightarrow> outbound_ok s \<longrightarrow> flush_result s sent y", rotated])
    fix loop env i s sent y
    assume IH: "\<And>env i s sent y. loop env i s sent = Some y \<Longrightarrow>
        (\<forall>i. ssl_ok (env i)) \<longrightarrow> outbound_ok s \<longrightarrow> flush_result s sent y"
      and body: "(if has_pending_frames s
          then case write_frame_step (env i) s of
                 (s', Inl e, out) \<Rightarrow> Some (s', Inl e, sent @ out)
               | (s', Inr x, out) \<Rightarrow> loop env (i + 1) s' (sent @ out)
          else Some (s, Inr (), sent)) = Some y"
    show "(\<forall>i. ssl_ok (env i)) \<longrightarrow> outbound_ok s \<longrightarrow> flush_result s sent y"
    proof (intro impI)
      assume env: "\<forall>i. ssl_ok (env i)" and inv: "outbound_ok s"
      obtain t r out where st: "write_frame_step (env i) s = (t, r, out)" by (cases "write_frame_step (env i) s")
      have tr: "ssl_ok (env i)" using env by blast
      note t = write_frame_step_ok(1) [OF inv tr st]
      from write_frame_step_prefix [OF inv tr st] obtain left where
        left: "unsent s = out @ left" "\<not> tl_write_failed t \<longrightarrow> left = unsent t" by blast
      show "flush_result s sent y"
      proof (cases "has_pending_frames s")
        case False
        with body inv show ?thesis by (auto simp: flush_result_def has_pending_frames_def)
      next
        case pending: True
        show ?thesis
        proof (cases r)
          case (Inl e)
          with body pending st t left show ?thesis by (auto simp: flush_result_def)
        next
          case (Inr u)
          then have live: "tl_write_failed t = tl_write_failed s"
            using write_frame_step_live st by blast
          have "\<not> tl_write_failed s" using inv pending by (auto simp: outbound_ok_def has_pending_frames_def)
          then have "left = unsent t" using live left(2) by simp
          moreover have "flush_result t (sent @ out) y"
            using IH [of env "i + 1" t "sent @ out" y] body pending st Inr env t by simp
          ultimately show ?thesis using left(1) live by (auto simp: flush_result_def)
        qed
      qed
    qed
  qed
  with assms(2,3) show ?thesis by blast
qed

text \<open>On a transport that takes something of every write, the loop ends without an error.\<close>

definition takes_some :: "transport \<Rightarrow> bool" where
  "takes_some tr \<longleftrightarrow> (\<forall>n>0. \<exists>k>0. tr_write tr n = Wrote k) \<and> tr_flush tr = Inr ()"

lemma write_frame_step_takes:
  assumes "takes_some tr" and "outbound_ok s" and "\<not> tl_write_failed s" and "write_frame_step tr s = (s', r, out)"
  shows "r = Inr ()"
proof (cases "tl_outbound s")
  case (Cons f fs)
  let ?n = "min (pf_offset f + TLS_WRITE_CHUNK) (length (pf_bytes f)) - pf_offset f"
  have "\<exists>k>0. tr_write tr ?n = Wrote k" if "pf_offset f \<noteq> length (pf_bytes f)"
  proof -
    have "0 < ?n" using that assms(2) Cons by (auto simp: outbound_ok_def TLS_WRITE_CHUNK_def)
    then show ?thesis using assms(1) unfolding takes_some_def by blast
  qed
  then show ?thesis
    using assms Cons by (auto simp: write_frame_step_def takes_some_def Let_def split: if_splits)
qed (use assms in \<open>auto simp: write_frame_step_def\<close>)

lemma takes_some_calm: "takes_some tr \<Longrightarrow> \<not> interrupts tr"
proof
  assume tr: "takes_some tr" and "interrupts tr"
  then obtain n where "n > 0" "tr_write tr n = SslFailed IoInterrupted"
    by (auto simp: takes_some_def interrupts_def)
  moreover from this(1) tr obtain k where "tr_write tr n = Wrote k" unfolding takes_some_def by blast
  ultimately show False by simp
qed

lemma flush_loop_takes:
  assumes env: "\<forall>i. ssl_ok (env i) \<and> takes_some (env i)"
  shows "outbound_ok s \<Longrightarrow> \<not> tl_write_failed s \<Longrightarrow> \<exists>s' out. flush_loop env i s sent = Some (s', Inr (), out)"
proof (induction "flush_work s" arbitrary: s i sent rule: less_induct)
  case less
  show ?case
  proof (cases "tl_outbound s = []")
    case False
    have tr: "ssl_ok (env i)" "takes_some (env i)" using env by auto
    note calm = takes_some_calm [OF tr(2)]
    obtain t r out where st: "write_frame_step (env i) s = (t, r, out)" by (cases "write_frame_step (env i) s")
    have r: "r = Inr ()" by (rule write_frame_step_takes [OF tr(2) less.prems st])
    then have live: "\<not> tl_write_failed t" using write_frame_step_live [of "env i" s t "()" out] st less.prems(2) by simp
    have "flush_work t < flush_work s"
      using write_frame_step_work [OF less.prems(1) tr(1) _ False, of t "()" out] st r calm by simp
    from less.hyps [OF this write_frame_step_ok(1) [OF less.prems(1) tr(1) st] live]
    show ?thesis using r by (simp add: flush_loop_step [where env = env, OF False st])
  qed (simp add: flush_loop_done)
qed

section \<open>What the peer reads\<close>

text \<open>A run of the writer: the payloads it admitted and the plaintext that was acknowledged.\<close>

datatype stream_op = QueueFrame bytes | WriteStep transport

primrec stream_run :: "stream_op list \<Rightarrow> tls_stream \<Rightarrow> tls_stream \<times> bytes list \<times> bytes" where
  "stream_run [] s = (s, [], [])"
| "stream_run (op # ops) s =
     (case op of
        QueueFrame payload \<Rightarrow>
          let (s', r) = queue_frame payload s; (t, admitted, sent) = stream_run ops s'
          in (t, if r = Inr () then payload # admitted else admitted, sent)
      | WriteStep tr \<Rightarrow>
          let (s', r, out) = write_frame_step tr s; (t, admitted, sent) = stream_run ops s'
          in (t, admitted, out @ sent))"

definition ops_ok :: "stream_op list \<Rightarrow> bool" where
  "ops_ok ops \<longleftrightarrow> (\<forall>op\<in>set ops. case op of WriteStep tr \<Rightarrow> ssl_ok tr | QueueFrame _ \<Rightarrow> True)"

lemma stream_run_ok:
  assumes "ops_ok ops" and "outbound_ok s" and "stream_run ops s = (t, admitted, sent)"
  shows "outbound_ok t \<and> (\<exists>fs left. list_all2 (\<lambda>p f. tcp_frame_encode p = Inr f) admitted fs \<and>
    unsent s @ concat fs = sent @ left \<and> (\<not> tl_write_failed t \<longrightarrow> left = unsent t) \<and>
    (tl_write_failed s \<longrightarrow> tl_write_failed t \<and> admitted = [] \<and> sent = []))"
  using assms
proof (induction ops arbitrary: s admitted sent)
  case Nil
  then show ?case by auto
next
  case (Cons op ops)
  have ok: "ops_ok ops" using Cons.prems(1) by (simp add: ops_ok_def)
  show ?case
  proof (cases op)
    case (QueueFrame payload)
    obtain s' r where q: "queue_frame payload s = (s', r)" by (cases "queue_frame payload s")
    obtain adm where run: "stream_run ops s' = (t, adm, sent)"
      and adm: "admitted = (if r = Inr () then payload # adm else adm)"
      using Cons.prems(3) q QueueFrame by (auto simp: Let_def split: prod.splits if_splits)
    note q' = queue_frame_ok [OF Cons.prems(2) q]
    from Cons.IH [OF ok _ run] q' obtain fs left where
      fs: "outbound_ok t" "list_all2 (\<lambda>p f. tcp_frame_encode p = Inr f) adm fs"
        "unsent s' @ concat fs = sent @ left" "\<not> tl_write_failed t \<longrightarrow> left = unsent t"
        "tl_write_failed s \<longrightarrow> tl_write_failed t \<and> adm = [] \<and> sent = []" by auto
    show ?thesis
    proof (cases r)
      case (Inl e)
      with q' fs adm show ?thesis by auto
    next
      case (Inr u)
      with q' obtain frame where "tcp_frame_encode payload = Inr frame" "unsent s' = unsent s @ frame"
        "\<not> tl_write_failed s" by auto
      with fs adm Inr show ?thesis by (intro conjI exI [of _ "frame # fs"] exI [of _ left]) auto
    qed
  next
    case (WriteStep tr)
    obtain s' r out where st: "write_frame_step tr s = (s', r, out)" by (cases "write_frame_step tr s")
    obtain more where run: "stream_run ops s' = (t, admitted, more)" and sent: "sent = out @ more"
      using Cons.prems(3) st WriteStep by (auto simp: Let_def split: prod.splits)
    have tr: "ssl_ok tr" using Cons.prems(1) WriteStep by (simp add: ops_ok_def)
    note w = write_frame_step_ok [OF Cons.prems(2) tr st]
    from Cons.IH [OF ok w(1) run] obtain fs left where
      fs: "outbound_ok t" "list_all2 (\<lambda>p f. tcp_frame_encode p = Inr f) admitted fs"
        "unsent s' @ concat fs = more @ left" "\<not> tl_write_failed t \<longrightarrow> left = unsent t"
        "tl_write_failed s' \<longrightarrow> tl_write_failed t \<and> admitted = [] \<and> more = []" by auto
    show ?thesis
    proof (cases "tl_write_failed s'")
      case True
      with fs have "fs = []" by auto
      with fs True w(2,4) sent show ?thesis
        by (intro conjI exI [of _ "[]"] exI [of _ "unsent s"]) auto
    next
      case False
      with w(2,3) fs sent show ?thesis by (intro conjI exI [of _ fs] exI [of _ left]) auto
    qed
  qed
qed

text \<open>C19. TCP framing over the write queue: whatever frames are queued and however OpenSSL takes the
  bytes (in parts, refusing, interrupted, failing), the peer, reading what was written in any
  segmentation, gets exactly the admitted payloads in order, up to those still queued; when the
  queue has drained without a failure, it has all of them. The queue never holds more than 64 frames
  or \<open>MAX_OUTBOUND_BYTES\<close> bytes, and its byte counter is exact.\<close>

theorem tls_frames_delivered:
  assumes "ops_ok ops" and "stream_run ops tls_stream_new = (s, admitted, sent)" and "concat pieces = sent"
  shows "(\<exists>queued. map Frame admitted = snd (feed_all tcp_reader_push tcp_reader_new pieces) @ queued \<and>
      (tl_outbound s = [] \<and> \<not> tl_write_failed s \<longrightarrow> queued = [])) \<and>
    length (tl_outbound s) \<le> MAX_OUTBOUND_FRAMES \<and>
    tl_outbound_bytes s = sum_list (map (length \<circ> pf_bytes) (tl_outbound s)) \<and>
    tl_outbound_bytes s \<le> MAX_OUTBOUND_BYTES"
proof -
  from stream_run_ok [OF assms(1) outbound_ok_new assms(2)] obtain fs left where
    inv: "outbound_ok s" and enc: "list_all2 (\<lambda>p f. tcp_frame_encode p = Inr f) admitted fs"
    and all: "unsent tls_stream_new @ concat fs = sent @ left" "\<not> tl_write_failed s \<longrightarrow> left = unsent s" by auto
  have fs: "concat fs = sent @ left" using all(1) by (simp add: unsent_def tls_stream_new_def)
  have parsed: "parse_frames (sent @ left) = (map Frame admitted, Some [])"
    using parse_frames_encoded [OF enc] fs by simp
  have sent: "tcp_reader_push tcp_reader_new sent =
      (tcp_reader_new\<lparr>fr_buffer := (case snd (parse_frames sent) of None \<Rightarrow> [] | Some bs \<Rightarrow> bs)\<rparr>, fst (parse_frames sent))"
    by (simp add: tcp_reader_push_parse tcp_reader_new_def Let_def case_prod_unfold)
  obtain events rest where p: "parse_frames sent = (events, rest)" by (cases "parse_frames sent")
  obtain buffered where rest: "rest = Some buffered"
    using parsed parse_frames_append [of sent left] p by (cases rest) auto
  have "prepend events (parse_frames (buffered @ left)) = (map Frame admitted, Some [])"
    using parsed parse_frames_append [of sent left] p rest by simp
  then obtain queued where queued: "map Frame admitted = fst (parse_frames sent) @ queued"
    by (auto simp: p)
  have pre: "snd (parse_frames sent) \<noteq> None" by (simp add: p rest)
  have "\<not> list_ex is_dropped (snd (tcp_reader_push tcp_reader_new (concat pieces)))"
    using pre parse_frames_dropped [of sent] assms(3) by (simp add: sent)
  from tcp_reader.feed_all_concat [OF reader_new_idle this]
  have feed: "snd (feed_all tcp_reader_push tcp_reader_new pieces) = fst (parse_frames sent)"
    by (simp add: assms(3) sent)
  have "queued = []" if "tl_outbound s = []" "\<not> tl_write_failed s"
  proof -
    have "parse_frames sent = (map Frame admitted, Some [])" using that all(2) parsed by (simp add: unsent_def)
    with queued show ?thesis by simp
  qed
  with queued feed inv show ?thesis by (auto simp: outbound_ok_def)
qed

theorem tls_frames_delivered_witness:
  "\<exists>s. stream_run [QueueFrame [7, 8], WriteStep \<lparr>tr_write = (\<lambda>n. Wrote (min n 4)), tr_flush = Inr ()\<rparr>, QueueFrame [9],
       WriteStep \<lparr>tr_write = (\<lambda>n. Wrote (min n 2)), tr_flush = Inr ()\<rparr>] tls_stream_new =
       (s, [[7, 8], [9]], [2, 0, 0, 0, 7, 8]) \<and>
     snd (feed_all tcp_reader_push tcp_reader_new [[2, 0, 0], [0, 7, 8]]) = [Frame [7, 8]] \<and>
     length (tl_outbound s) \<le> 64"
proof -
  let ?ops = "[QueueFrame [7, 8], WriteStep \<lparr>tr_write = (\<lambda>n. Wrote (min n 4)), tr_flush = Inr ()\<rparr>, QueueFrame [9],
    WriteStep \<lparr>tr_write = (\<lambda>n. Wrote (min n 2)), tr_flush = Inr ()\<rparr>]"
  obtain s where run: "stream_run ?ops tls_stream_new = (s, [[7, 8], [9]], [2, 0, 0, 0, 7, 8])"
    by (simp add: queue_frame_def write_frame_step_def tls_stream_new_def tcp_frame_encode_def
      extend_from_slice_def usize_to_u32_def le_bytes_numeral Let_def MAX_TCP_FRAME_SIZE_def
      MAX_OUTBOUND_FRAMES_def MAX_OUTBOUND_BYTES_def TLS_WRITE_CHUNK_def)
  have ok: "ops_ok ?ops" by (simp add: ops_ok_def ssl_ok_def)
  have read: "snd (feed_all tcp_reader_push tcp_reader_new [[2, 0, 0], [0, 7, 8]]) = [Frame [7, 8]]"
    by (simp add: tcp_reader_push_def tcp_reader_new_def push_loop.simps MAX_TCP_FRAME_SIZE_def)
  have "length (tl_outbound s) \<le> 64"
    using tls_frames_delivered [OF ok run, of "[[2, 0, 0], [0, 7, 8]]"] by (simp add: MAX_OUTBOUND_FRAMES_def)
  with run read show ?thesis by blast
qed

text \<open>C20. Flushing ends: from any state of the stream, if OpenSSL keeps its contract and does not
  answer \<open>Interrupted\<close> forever, \<open>flush_pending_frames\<close> returns. What was written is a front part of
  what was queued, and all of it when the call succeeds; and it does succeed on a transport that
  takes at least one byte of every write, so every admitted frame is eventually written.\<close>

theorem tls_flush_returns:
  assumes run: "ops_ok ops" "stream_run ops tls_stream_new = (s, admitted, sent)"
    and env: "\<forall>i. ssl_ok (env i)" and fair: "\<forall>i. \<exists>j\<ge>i. \<not> interrupts (env j)"
  shows "\<exists>s' r out. flush_pending_frames env s = Some (s', r, out) \<and>
    (\<exists>left. unsent s = out @ left \<and> (r = Inr () \<longrightarrow> left = [] \<and> tl_outbound s' = [])) \<and>
    (\<not> tl_write_failed s \<and> (\<forall>i. takes_some (env i)) \<longrightarrow> r = Inr ())"
proof (cases "tl_write_failed s")
  case True
  have "outbound_ok s" using stream_run_ok [OF run(1) outbound_ok_new run(2)] by blast
  with True show ?thesis by (simp add: flush_pending_frames_def unsent_def outbound_ok_def)
next
  case False
  have inv: "outbound_ok s" using stream_run_ok [OF run(1) outbound_ok_new run(2)] by blast
  from flush_loop_returns [OF env fair inv, of 0 "[]"] obtain s' r out where
    ret: "flush_loop env 0 s [] = Some (s', r, out)" by auto
  from flush_loop_sent [OF ret env inv] obtain left where
    sent: "unsent s = out @ left" "\<not> tl_write_failed s' \<longrightarrow> left = unsent s'"
    "r = Inr () \<longrightarrow> tl_outbound s' = [] \<and> tl_write_failed s' = tl_write_failed s"
    by (auto simp: flush_result_def)
  have "r = Inr ()" if "\<forall>i. takes_some (env i)"
    using flush_loop_takes [of env s 0 "[]", OF _ inv False] that env ret by auto
  with ret sent False show ?thesis by (auto simp: flush_pending_frames_def unsent_def)
qed

theorem tls_flush_returns_witness:
  "\<exists>s'. flush_pending_frames (\<lambda>i. \<lparr>tr_write = Wrote, tr_flush = Inr ()\<rparr>)
      (fst (stream_run [QueueFrame [9]] tls_stream_new)) = Some (s', Inr (), [1, 0, 0, 0, 9])"
proof -
  let ?env = "\<lambda>i :: nat. \<lparr>tr_write = Wrote, tr_flush = Inr ()\<rparr>"
  obtain s where run: "stream_run [QueueFrame [9]] tls_stream_new = (s, [[9]], [])"
    and s: "unsent s = [1, 0, 0, 0, 9]" "\<not> tl_write_failed s"
    by (simp add: queue_frame_def tls_stream_new_def tcp_frame_encode_def unsent_def
      extend_from_slice_def usize_to_u32_def le_bytes_numeral Let_def MAX_TCP_FRAME_SIZE_def
      MAX_OUTBOUND_FRAMES_def MAX_OUTBOUND_BYTES_def)
  have env: "\<forall>i. ssl_ok (?env i)" and fair: "\<forall>i. \<exists>j\<ge>i. \<not> interrupts (?env j)"
    and takes: "\<forall>i. takes_some (?env i)"
    by (auto simp: ssl_ok_def interrupts_def takes_some_def)
  have "ops_ok [QueueFrame [9]]" by (simp add: ops_ok_def)
  from tls_flush_returns [OF this run env fair] s takes run show ?thesis by auto
qed

end
