(* ===== verification/Client_Types.thy ===== *)
theory Client_Types
  imports Tls_Psk Packet Pairing Udp_Gcm
begin

text \<open>
  The errors and states of the client session, \<open>maho-app/src/session.rs\<close>, which of the errors are
  worth a reconnection, and the back-off between attempts (\<open>session_parity.rs\<close>). An
  \<open>io::Error\<close> is its kind; error texts are left out.
\<close>

datatype session_state = Disconnected | Connecting | AwaitingPairing | AwaitingHandshakeAck | Ready

datatype pairing_store_error =
  StoreIo io_error | StoreJson | StoreInvalidKeyLength usize | NoApplicationDataDirectory | Keychain

datatype session_error =
    NotReady
  | PairingRejected pairing_reject_reason
  | PairingNotFound rstring
  | UnexpectedPacket packet_type packet_type
  | HandshakeAckTimeout
  | Poisoned
  | NoAddress
  | TcpRuntimePanicked
  | TcpRuntimeStopped
  | TcpRuntimeAlreadyRunning
  | ProtocolError codec_error
  | TlsError tls_psk_error
  | DatagramError datagram_error
  | PairingStoreError pairing_store_error
  | SessionIo io_error
  | MissingAuthenticatedRegistration
  | CancelledError
  | UnsupportedError
  | PermissionDeniedError
  | InvalidClipboardImage

definition reconnectable_io :: "io_error \<Rightarrow> bool" where
  "reconnectable_io e \<longleftrightarrow> e \<in> {IoUnexpectedEof, IoConnectionReset, IoConnectionAborted, IoBrokenPipe,
     IoConnectionRefused, IoTimedOut}"

fun should_reconnect :: "session_error \<Rightarrow> bool" where
  "should_reconnect NotReady = True"
| "should_reconnect TcpRuntimeStopped = True"
| "should_reconnect TcpRuntimePanicked = True"
| "should_reconnect HandshakeAckTimeout = True"
| "should_reconnect (SessionIo e) = reconnectable_io e"
| "should_reconnect (TlsError (TlsIo e)) = (reconnectable_io e \<or> e = IoOther)"
| "should_reconnect _ = False"

definition retry_delay :: "u32 \<Rightarrow> duration" where
  "retry_delay attempt =
     unat (500 * push_bit (unat (min (if attempt = 0 then 0 else attempt - 1) 4)) (1 :: u64)) * 1000000"

lemma retry_delay_bounds: "500000000 \<le> retry_delay n \<and> retry_delay n \<le> from_secs 8"
proof -
  let ?k = "unat (min (if n = 0 then 0 else n - 1) 4)"
  have "min (if n = 0 then 0 else n - 1) 4 \<le> 4" by simp
  then have "?k \<le> 4" by (simp add: word_le_nat_alt del: min_le_iff_disj)
  then have "?k = 0 \<or> ?k = 1 \<or> ?k = 2 \<or> ?k = 3 \<or> ?k = 4" by linarith
  then show ?thesis by (elim disjE) (simp_all only: retry_delay_def, simp_all)
qed

text \<open>What becomes of one attempt of the reconnecting worker: it is cancelled while it waits, the
  connection fails, the new runtime cannot be started, or the session is back.\<close>

datatype attempt_result = AttemptCancelled | ConnectFailed session_error | SpawnFailed session_error | Recovered

text \<open>The worker's loop on the clock: attempt \<open>n\<close> waits \<open>retry_delay n\<close> and then takes \<open>took n\<close> with
  the result \<open>answer n\<close>; none starts once the wait would reach the deadline. Returned are whether the
  session recovered and the attempt counter.\<close>

function reconnect_loop ::
  "(u32 \<Rightarrow> duration) \<Rightarrow> (u32 \<Rightarrow> attempt_result) \<Rightarrow> instant \<Rightarrow> u32 \<Rightarrow> instant \<Rightarrow> bool \<times> u32" where
  "reconnect_loop took answer deadline attempt now =
     (let attempt = attempt + 1; delay = retry_delay attempt
      in if now + delay \<ge> deadline then (False, attempt)
         else case answer attempt of
                AttemptCancelled \<Rightarrow> (False, attempt)
              | Recovered \<Rightarrow> (True, attempt)
              | SpawnFailed e \<Rightarrow> (False, attempt)
              | ConnectFailed e \<Rightarrow>
                  if \<not> should_reconnect e then (False, attempt)
                  else reconnect_loop took answer deadline attempt (now + delay + took attempt))"
  by pat_completeness auto
termination
proof (relation "measure (\<lambda>(took, answer, deadline, attempt, now). deadline - now)", goal_cases)
  case (2 took answer deadline attempt now attempt' delay e)
  then have "0 < delay" using retry_delay_bounds [of attempt'] by simp
  with 2 show ?case by auto
qed simp

declare reconnect_loop.simps [simp del]

text \<open>The time the first \<open>n\<close> waits take.\<close>

definition waited :: "nat \<Rightarrow> duration" where
  "waited n = sum_list (map (\<lambda>i. retry_delay (word_of_nat i + 1)) [0..<n])"

lemma waited_values: "waited (Suc 10) = 63500000000"
  by (simp add: waited_def retry_delay_def upt_rec)

definition gives_up :: "(u32 \<Rightarrow> attempt_result) \<Rightarrow> bool \<times> u32 \<Rightarrow> bool" where
  "gives_up answer r \<longleftrightarrow> unat (snd r) \<le> 11 \<and> (fst r \<longrightarrow> answer (snd r) = Recovered \<and> unat (snd r) \<le> 10)"

lemma reconnect_loop_attempts:
  assumes "n \<le> 10" and "t + waited n \<le> now"
  shows "gives_up answer (reconnect_loop took answer (t + from_secs 60) (word_of_nat n) now)"
  using assms
proof (induction "10 - n" arbitrary: n now rule: less_induct)
  case less
  let ?a = "word_of_nat n + 1 :: u32"
  have a: "?a = word_of_nat (Suc n)" by simp
  have ua: "unat ?a = Suc n"
    using less.prems(1) unat_of_nat_bounded [of "Suc n", where 'a = 32] by (simp add: a del: of_nat_Suc)
  have next_wait: "waited (Suc n) = waited n + retry_delay ?a" by (simp add: waited_def)
  show ?case
  proof (cases "n = 10")
    case True
    have "t + from_secs 60 \<le> now + retry_delay ?a"
      using less.prems(2) waited_values next_wait unfolding True by linarith
    then show ?thesis using ua True by (subst reconnect_loop.simps) (simp add: Let_def gives_up_def)
  next
    case False
    then have n: "Suc n \<le> 10" "10 - Suc n < 10 - n" using less.prems(1) by auto
    have "t + waited (Suc n) \<le> now + retry_delay ?a + took ?a" using less.prems(2) next_wait by linarith
    from less.hyps [OF n(2,1) this]
    have "gives_up answer (reconnect_loop took answer (t + from_secs 60) ?a (now + retry_delay ?a + took ?a))"
      unfolding a .
    with ua n(1) show ?thesis
      by (subst reconnect_loop.simps) (simp add: Let_def gives_up_def split: attempt_result.splits)
  qed
qed

text \<open>C36. The reconnecting worker gives up: whatever the attempts take and however they end, its loop
  returns, and within the 60 seconds it allows itself it tries to connect at most ten times (the
  attempt counter stops at 11 at the latest). It reports success only for an attempt that recovered
  the session. Between two attempts it waits between half a second and eight seconds.\<close>

theorem reconnect_gives_up:
  "\<exists>recovered attempt. reconnect_loop took answer (t + from_secs 60) 0 t = (recovered, attempt) \<and>
     unat attempt \<le> 11 \<and> (recovered \<longrightarrow> answer attempt = Recovered \<and> unat attempt \<le> 10) \<and>
     500000000 \<le> retry_delay n \<and> retry_delay n \<le> from_secs 8"
  using reconnect_loop_attempts [of 0 t t answer took] retry_delay_bounds [of n]
  by (cases "reconnect_loop took answer (t + from_secs 60) 0 t") (simp add: waited_def gives_up_def)

theorem reconnect_gives_up_witness:
  "reconnect_loop (\<lambda>n. 0) (\<lambda>n. if n = 2 then Recovered else ConnectFailed TcpRuntimeStopped) (0 + from_secs 60) 0 0 =
     (True, 2) \<and> unat (2 :: u32) \<le> 10"
proof -
  have run: "reconnect_loop (\<lambda>n. 0) (\<lambda>n. if n = 2 then Recovered else ConnectFailed TcpRuntimeStopped)
      (0 + from_secs 60) 0 0 = (True, 2)"
    by (simp add: reconnect_loop.simps retry_delay_def)
  with reconnect_gives_up [of "\<lambda>n. 0" "\<lambda>n. if n = 2 then Recovered else ConnectFailed TcpRuntimeStopped" 0 0]
  show ?thesis by auto
qed

end
