(* ===== verification/Clipboard_Image.thy ===== *)
theory Clipboard_Image
  imports Client_Types Parity_Wire Udp_Sender
begin

text \<open>
  Clipboard images between the peers: the host's \<open>Assembly\<close> (\<open>maho-host/src/clipboard_image.rs\<close>),
  the client's \<open>ImageAssembly\<close> (\<open>maho-app/src/session_parity.rs\<close>) and the chunks both send. The PNG
  decoders of the \<open>png\<close> and \<open>image\<close> crates are parameters.

  The two receivers differ in how they remember the transfers they have seen (a bounded set of ids,
  the latest tid) and in what an invalid chunk does to a transfer in progress; the locale
  \<open>image_receiver\<close> states what they promise alike, and its lemmas are proved once for both.
\<close>

section \<open>The host's assembly\<close>

definition IMAGE_LIMIT :: usize where "IMAGE_LIMIT = 8 * 1024 * 1024"

text \<open>What the \<open>png\<close> crate does with an image: the size of the output buffer its header asks for, and
  whether the first frame decodes into a buffer of that size, under a limit on its allocations.\<close>

record png_crate =
  png_read_info :: "usize \<Rightarrow> bytes \<Rightarrow> usize option"
  png_next_frame :: "bytes \<Rightarrow> usize \<Rightarrow> bool"

definition starts_with :: "bytes \<Rightarrow> bytes \<Rightarrow> bool" where
  "starts_with bs prefix \<longleftrightarrow> take (length prefix) bs = prefix"

definition validate_png :: "png_crate \<Rightarrow> bytes \<Rightarrow> io_error + unit" where
  "validate_png png bs =
     (if length bs > IMAGE_LIMIT \<or> \<not> starts_with bs PNG_SIGNATURE then Inl IoInvalidData
      else case png_read_info png (64 * 1024 * 1024) bs of
             None \<Rightarrow> Inl IoOther
           | Some out_size \<Rightarrow>
               if out_size > 64 * 1024 * 1024 then Inl IoOther
               else if \<not> png_next_frame png bs out_size then Inl IoOther else Inr ())"

record host_assembly =
  ha_active :: "(u32 \<times> usize \<times> instant \<times> bytes) option"
  ha_used :: "u32 list"

definition host_assembly_default :: host_assembly where
  "host_assembly_default = \<lparr>ha_active = None, ha_used = []\<rparr>"

definition host_assembly_cancel :: "host_assembly \<Rightarrow> host_assembly" where
  "host_assembly_cancel a = a\<lparr>ha_active := None\<rparr>"

definition host_assembly_expire :: "instant \<Rightarrow> host_assembly \<Rightarrow> host_assembly" where
  "host_assembly_expire now a =
     (case ha_active a of
        Some (_, _, started, _) \<Rightarrow> if now - started \<ge> from_secs 5 then host_assembly_cancel a else a
      | None \<Rightarrow> a)"

text \<open>The part of \<open>push\<close> after a chunk with offset zero has opened its transfer.\<close>

definition host_assembly_append ::
  "png_crate \<Rightarrow> clipboard_image_chunk \<Rightarrow> host_assembly \<Rightarrow> host_assembly \<times> (io_error + bytes option)" where
  "host_assembly_append png chunk a =
     (let total_len = unat (ci_total_bytes chunk)
      in case ha_active a of
           None \<Rightarrow> (a, Inl IoInvalidData)
         | Some (tid, expected, started, bs) \<Rightarrow>
             if tid \<noteq> ci_transfer_id chunk \<or> expected \<noteq> total_len \<or> length bs \<noteq> unat (ci_offset chunk) \<or>
                length bs + length (ci_png_bytes chunk) > total_len
             then (host_assembly_cancel a, Inl IoInvalidData)
             else
             let bs = bs @ ci_png_bytes chunk
             in if length bs \<noteq> total_len then (a\<lparr>ha_active := Some (tid, expected, started, bs)\<rparr>, Inr None)
                else (a\<lparr>ha_active := None\<rparr>,
                      try_bind (validate_png png bs) (\<lambda>_. Inr (Some bs))))"

definition host_assembly_push ::
  "png_crate \<Rightarrow> clipboard_image_chunk \<Rightarrow> instant \<Rightarrow> host_assembly \<Rightarrow> host_assembly \<times> (io_error + bytes option)" where
  "host_assembly_push png chunk now a =
     (let a = host_assembly_expire now a; total_len = unat (ci_total_bytes chunk)
      in if \<not> (8 \<le> total_len \<and> total_len \<le> IMAGE_LIMIT) \<or> ci_png_bytes chunk = [] \<or> length (ci_png_bytes chunk) > 65536
         then (host_assembly_cancel a, Inl IoInvalidData)
         else if ci_offset chunk = 0 then
           if length (ha_used a) \<ge> 65536 then (host_assembly_cancel a, Inl IoInvalidData)
           else if ci_transfer_id chunk \<in> set (ha_used a) then (host_assembly_cancel a, Inl IoInvalidData)
           else
           let a = a\<lparr>ha_used := ci_transfer_id chunk # ha_used a\<rparr>
           in if \<not> starts_with (ci_png_bytes chunk) PNG_SIGNATURE
              then (host_assembly_cancel a, Inl IoInvalidData)
              else host_assembly_append png chunk
                     (a\<lparr>ha_active := Some (ci_transfer_id chunk, total_len, now, [])\<rparr>)
         else host_assembly_append png chunk a)"

section \<open>The client's assembly\<close>

text \<open>\<open>image_decode max_width max_height max_alloc bytes\<close>: whether the \<open>image\<close> crate decodes it.\<close>

type_synonym image_decode = "u32 \<Rightarrow> u32 \<Rightarrow> u64 \<Rightarrow> bytes \<Rightarrow> bool"

record image_assembly =
  ia_latest_id :: "u32 option"
  ia_pending :: "(u32 \<times> u32 \<times> bytes \<times> instant) option"

definition image_assembly_default :: image_assembly where
  "image_assembly_default = \<lparr>ia_latest_id = None, ia_pending = None\<rparr>"

definition image_assembly_discard :: "image_assembly \<Rightarrow> image_assembly" where
  "image_assembly_discard a = a\<lparr>ia_pending := None\<rparr>"

definition image_assembly_append ::
  "image_decode \<Rightarrow> clipboard_image_chunk \<Rightarrow> image_assembly \<Rightarrow> image_assembly \<times> (session_error + bytes option)" where
  "image_assembly_append decode chunk a =
     (case ia_pending a of
        None \<Rightarrow> (a, Inl InvalidClipboardImage)
      | Some (tid, total_len, bs, started) \<Rightarrow>
          if tid \<noteq> ci_transfer_id chunk \<or> total_len \<noteq> ci_total_bytes chunk \<or> length bs \<noteq> unat (ci_offset chunk)
          then (image_assembly_discard a, Inl InvalidClipboardImage)
          else
          let bs = bs @ ci_png_bytes chunk
          in if length bs = unat total_len
             then (a\<lparr>ia_pending := None\<rparr>,
                   if decode 8192 8192 (64 * 1024 * 1024) bs then Inr (Some bs) else Inl InvalidClipboardImage)
             else (a\<lparr>ia_pending := Some (tid, total_len, bs, started)\<rparr>, Inr None))"

definition image_assembly_push ::
  "image_decode \<Rightarrow> clipboard_image_chunk \<Rightarrow> instant \<Rightarrow> image_assembly \<Rightarrow> image_assembly \<times> (session_error + bytes option)" where
  "image_assembly_push decode chunk now a =
     (case encode_clipboard_image_chunk chunk of
        Inl e \<Rightarrow> (a, Inl (ProtocolError e))
      | Inr _ \<Rightarrow>
          let a = (case ia_pending a of
                     Some (_, _, _, started) \<Rightarrow>
                       if now - started \<ge> from_secs 10 then image_assembly_discard a else a
                   | None \<Rightarrow> a)
          in if ci_offset chunk = 0
             then if \<exists>tid. ia_latest_id a = Some tid \<and> ci_transfer_id chunk \<le> tid
                  then (a, Inl InvalidClipboardImage)
                  else image_assembly_append decode chunk
                         (a\<lparr>ia_latest_id := Some (ci_transfer_id chunk),
                            ia_pending := Some (ci_transfer_id chunk, ci_total_bytes chunk, [], now)\<rparr>)
             else image_assembly_append decode chunk a)"

section \<open>The sender\<close>

text \<open>The chunks of one image, as \<open>send_clipboard_image\<close> and the host's image poll cut it; the casts
  \<open>len() as u32\<close> and \<open>(index * 65536) as u32\<close> truncate.\<close>

definition image_chunks :: "u32 \<Rightarrow> bytes \<Rightarrow> clipboard_image_chunk list" where
  "image_chunks tid png =
     map (\<lambda>(index, chunk). \<lparr>ci_transfer_id = tid, ci_total_bytes = word_of_nat (length png),
            ci_offset = word_of_nat (index * MAX_CLIPBOARD_IMAGE_CHUNK_BYTES), ci_png_bytes = chunk\<rparr>)
       (List.enumerate 0 (chunks MAX_CLIPBOARD_IMAGE_CHUNK_BYTES png))"

section \<open>What a receiver of images promises\<close>

text \<open>\<open>partial s\<close> is the transfer in progress: its tid, its size and the bytes so far; \<open>spent s tid\<close>
  holds of the ids that cannot start a transfer any tail.\<close>

definition continues :: "(u32 \<times> u32 \<times> bytes) option \<Rightarrow> clipboard_image_chunk \<Rightarrow> bytes \<Rightarrow> bool" where
  "continues p c acc \<longleftrightarrow> p = Some (ci_transfer_id c, ci_total_bytes c, acc) \<and> length acc = unat (ci_offset c)"

primrec push_chunks :: "('c \<Rightarrow> instant \<Rightarrow> 's \<Rightarrow> 's \<times> ('e + bytes option)) \<Rightarrow> ('c \<times> instant) list \<Rightarrow> 's
    \<Rightarrow> 's \<times> ('e + bytes option) list" where
  "push_chunks receive [] s = (s, [])"
| "push_chunks receive (x # xs) s =
     (let (s', r) = receive (fst x) (snd x) s; (t, rs) = push_chunks receive xs s' in (t, r # rs))"

text \<open>The ids of the transfers that a list of results delivers.\<close>

fun delivered_ids :: "(clipboard_image_chunk \<times> instant) list \<Rightarrow> ('e + bytes option) list \<Rightarrow> u32 list" where
  "delivered_ids (x # xs) (Inr (Some _) # rs) = ci_transfer_id (fst x) # delivered_ids xs rs"
| "delivered_ids (x # xs) (_ # rs) = delivered_ids xs rs"
| "delivered_ids _ _ = []"

text \<open>\<open>acc\<close> is the data of consecutive chunks of one transfer, taken from \<open>C\<close>.\<close>

inductive built_from :: "clipboard_image_chunk set \<Rightarrow> u32 \<Rightarrow> u32 \<Rightarrow> bytes \<Rightarrow> bool" for C where
  built_from_start: "c \<in> C \<Longrightarrow> ci_offset c = 0 \<Longrightarrow>
    built_from C (ci_transfer_id c) (ci_total_bytes c) (ci_png_bytes c)"
| built_from_step: "built_from C (ci_transfer_id c) (ci_total_bytes c) acc \<Longrightarrow> c \<in> C \<Longrightarrow>
    length acc = unat (ci_offset c) \<Longrightarrow>
    built_from C (ci_transfer_id c) (ci_total_bytes c) (acc @ ci_png_bytes c)"

lemma built_from_mono: "built_from C tid total_len acc \<Longrightarrow> C \<subseteq> C' \<Longrightarrow> built_from C' tid total_len acc"
  by (induction rule: built_from.induct) (auto intro: built_from.intros)

text \<open>An image that fits the protocol, and what its chunks look like.\<close>

definition image_ok :: "bytes \<Rightarrow> bool" where
  "image_ok png \<longleftrightarrow> 8 \<le> length png \<and> length png \<le> IMAGE_LIMIT \<and> starts_with png PNG_SIGNATURE"

definition image_piece :: "u32 \<Rightarrow> bytes \<Rightarrow> nat \<times> bytes \<Rightarrow> clipboard_image_chunk" where
  "image_piece tid png = (\<lambda>(index, chunk). \<lparr>ci_transfer_id = tid, ci_total_bytes = word_of_nat (length png),
     ci_offset = word_of_nat (index * MAX_CLIPBOARD_IMAGE_CHUNK_BYTES), ci_png_bytes = chunk\<rparr>)"

lemma image_chunks_piece:
  "image_chunks tid png = map (image_piece tid png) (List.enumerate 0 (chunks MAX_CLIPBOARD_IMAGE_CHUNK_BYTES png))"
  by (simp add: image_chunks_def image_piece_def)

lemma chunk_bytes_pos: "0 < MAX_CLIPBOARD_IMAGE_CHUNK_BYTES"
  by (simp add: MAX_CLIPBOARD_IMAGE_CHUNK_BYTES_def)

lemma image_piece_ok:
  assumes ok: "image_ok png" and png: "png = acc @ tail" and acc: "length acc = k * MAX_CLIPBOARD_IMAGE_CHUNK_BYTES"
    and tail: "tail \<noteq> []"
  shows "clipboard_image_chunk_validate (image_piece tid png (k, take MAX_CLIPBOARD_IMAGE_CHUNK_BYTES tail)) = Inr () \<and>
    unat (ci_offset (image_piece tid png (k, take MAX_CLIPBOARD_IMAGE_CHUNK_BYTES tail))) = length acc \<and>
    unat (ci_total_bytes (image_piece tid png (k, take MAX_CLIPBOARD_IMAGE_CHUNK_BYTES tail))) = length png \<and>
    ci_png_bytes (image_piece tid png (k, take MAX_CLIPBOARD_IMAGE_CHUNK_BYTES tail)) =
      take MAX_CLIPBOARD_IMAGE_CHUNK_BYTES tail \<and>
    ci_transfer_id (image_piece tid png (k, take MAX_CLIPBOARD_IMAGE_CHUNK_BYTES tail)) = tid \<and>
    ci_total_bytes (image_piece tid png (k, take MAX_CLIPBOARD_IMAGE_CHUNK_BYTES tail)) = word_of_nat (length png)"
proof -
  let ?N = MAX_CLIPBOARD_IMAGE_CHUNK_BYTES
  have lim: "8 \<le> length png" "length png \<le> 8388608" using ok by (auto simp: image_ok_def IMAGE_LIMIT_def)
  have off: "unat (word_of_nat (k * ?N) :: u32) = length acc"
    using lim png unat_of_nat_bounded [of "length acc", where 'a = 32] unfolding acc [symmetric] by simp
  have tot: "unat (word_of_nat (length png) :: u32) = length png"
    using lim unat_of_nat_bounded [of "length png", where 'a = 32] by simp
  have zero: "take 8 (take ?N tail) = PNG_SIGNATURE" if "(word_of_nat (k * ?N) :: u32) = 0"
  proof -
    have "acc = []" using off that by simp
    moreover have "length PNG_SIGNATURE = 8" by (simp add: PNG_SIGNATURE_def)
    ultimately show ?thesis
      using ok png by (simp add: image_ok_def starts_with_def MAX_CLIPBOARD_IMAGE_CHUNK_BYTES_def)
  qed
  have "clipboard_image_chunk_validate (image_piece tid png (k, take ?N tail)) = Inr ()"
    unfolding clipboard_image_chunk_validate_Inr
    using lim off tot zero tail png
    by (auto simp: image_piece_def min_def MAX_CLIPBOARD_IMAGE_CHUNK_BYTES_def)
  with off tot show ?thesis by (simp add: image_piece_def)
qed

locale image_receiver =
  fixes receive :: "clipboard_image_chunk \<Rightarrow> instant \<Rightarrow> 's \<Rightarrow> 's \<times> ('e + bytes option)"
    and partial :: "'s \<Rightarrow> (u32 \<times> u32 \<times> bytes) option"
    and since :: "'s \<Rightarrow> instant"
    and spent :: "'s \<Rightarrow> u32 \<Rightarrow> bool"
    and inv :: "'s \<Rightarrow> bool"
    and valid :: "bytes \<Rightarrow> bool"
    and timeout :: duration
  assumes accept: "inv s \<Longrightarrow> receive c now s = (s', Inr d) \<Longrightarrow>
      \<exists>acc. (ci_offset c = 0 \<and> acc = [] \<and> \<not> spent s (ci_transfer_id c)
             \<or> continues (partial s) c acc) \<and> spent s' (ci_transfer_id c) \<and>
        (if length (acc @ ci_png_bytes c) = unat (ci_total_bytes c)
         then partial s' = None \<and> d = Some (acc @ ci_png_bytes c) \<and> valid (acc @ ci_png_bytes c)
         else partial s' = Some (ci_transfer_id c, ci_total_bytes c, acc @ ci_png_bytes c) \<and> d = None)"
    and reject: "inv s \<Longrightarrow> receive c now s = (s', Inl e) \<Longrightarrow> partial s' = None \<or> partial s' = partial s"
    and spent_mono: "inv s \<Longrightarrow> spent s tid \<Longrightarrow> spent (fst (receive c now s)) tid"
    and partial_size: "inv s \<Longrightarrow> partial s = Some (tid, total_len, acc) \<Longrightarrow>
        length acc < unat total_len \<and> unat total_len \<le> IMAGE_LIMIT"
    and inv_push: "inv s \<Longrightarrow> inv (fst (receive c now s))"
    and start: "inv s \<Longrightarrow> clipboard_image_chunk_validate c = Inr () \<Longrightarrow> ci_offset c = 0 \<Longrightarrow>
        \<not> spent s (ci_transfer_id c) \<Longrightarrow>
        (length (ci_png_bytes c) = unat (ci_total_bytes c) \<longrightarrow> valid (ci_png_bytes c)) \<Longrightarrow>
        \<exists>s' d. receive c now s = (s', Inr d) \<and> (d = None \<longrightarrow> since s' = now)"
    and progress: "inv s \<Longrightarrow> clipboard_image_chunk_validate c = Inr () \<Longrightarrow> ci_offset c \<noteq> 0 \<Longrightarrow>
        continues (partial s) c acc \<Longrightarrow> now < since s + timeout \<Longrightarrow>
        (length (acc @ ci_png_bytes c) = unat (ci_total_bytes c) \<longrightarrow> valid (acc @ ci_png_bytes c)) \<Longrightarrow>
        \<exists>s' d. receive c now s = (s', Inr d) \<and> (d = None \<longrightarrow> since s' = since s)"
begin

lemma push_chunks_inv: "inv s \<Longrightarrow> inv (fst (push_chunks receive xs s))"
  by (induction xs arbitrary: s) (simp_all add: Let_def case_prod_unfold inv_push)

text \<open>No transfer tid is delivered twice.\<close>

lemma delivered_once:
  assumes "inv s" and "\<forall>i\<in>D. spent s i \<and> (\<forall>total_len acc. partial s \<noteq> Some (i, total_len, acc))"
  shows "distinct (delivered_ids xs (snd (push_chunks receive xs s))) \<and>
    set (delivered_ids xs (snd (push_chunks receive xs s))) \<inter> D = {}"
  using assms
proof (induction xs arbitrary: s D)
  case (Cons x xs)
  let ?c = "fst x"
  obtain s' r where p: "receive ?c (snd x) s = (s', r)" by (cases "receive ?c (snd x) s")
  have inv': "inv s'" using inv_push [OF Cons.prems(1), of ?c "snd x"] p by simp
  have mono: "spent s' i" if "spent s i" for i using spent_mono [OF Cons.prems(1) that, of ?c "snd x"] p by simp
  show ?case
  proof (cases r)
    case (Inl e)
    have "\<forall>i\<in>D. spent s' i \<and> (\<forall>total_len acc. partial s' \<noteq> Some (i, total_len, acc))"
      using reject [OF Cons.prems(1), of ?c "snd x" s' e] p Inl Cons.prems(2) mono by auto
    from Cons.IH [OF inv' this] show ?thesis by (simp add: p Inl Let_def case_prod_unfold)
  next
    case (Inr d)
    from accept [OF Cons.prems(1), of ?c "snd x" s' d] p Inr obtain acc where
      acc: "ci_offset ?c = 0 \<and> acc = [] \<and> \<not> spent s (ci_transfer_id ?c) \<or> continues (partial s) ?c acc"
      and out: "if length (acc @ ci_png_bytes ?c) = unat (ci_total_bytes ?c)
        then partial s' = None \<and> d = Some (acc @ ci_png_bytes ?c) \<and> valid (acc @ ci_png_bytes ?c)
        else partial s' = Some (ci_transfer_id ?c, ci_total_bytes ?c, acc @ ci_png_bytes ?c) \<and> d = None"
      and sp: "spent s' (ci_transfer_id ?c)" by auto
    have fresh: "ci_transfer_id ?c \<notin> D" using acc Cons.prems(2) by (auto simp: continues_def)
    show ?thesis
    proof (cases d)
      case None
      with out have "\<forall>i\<in>D. spent s' i \<and> (\<forall>total_len acc. partial s' \<noteq> Some (i, total_len, acc))"
        using Cons.prems(2) mono fresh by (auto split: if_splits)
      from Cons.IH [OF inv' this] show ?thesis by (simp add: p Inr None Let_def case_prod_unfold)
    next
      case (Some bs)
      with out have "\<forall>i\<in>insert (ci_transfer_id ?c) D. spent s' i \<and> (\<forall>total_len acc. partial s' \<noteq> Some (i, total_len, acc))"
        using Cons.prems(2) mono sp by (auto split: if_splits)
      from Cons.IH [OF inv' this] fresh show ?thesis by (simp add: p Inr Some Let_def case_prod_unfold)
    qed
  qed
qed simp

text \<open>What is delivered was sent, in consecutive chunks of one transfer.\<close>

lemma delivered_genuine:
  assumes "inv s" and "\<forall>tid total_len acc. partial s = Some (tid, total_len, acc) \<longrightarrow> built_from C tid total_len acc"
    and "Inr (Some bs) \<in> set (snd (push_chunks receive xs s))"
  shows "\<exists>tid total_len. built_from (C \<union> fst ` set xs) tid total_len bs \<and> length bs = unat total_len \<and> valid bs"
  using assms
proof (induction xs arbitrary: s C)
  case (Cons x xs)
  let ?c = "fst x" and ?C = "insert (fst x) C"
  obtain s' r where p: "receive ?c (snd x) s = (s', r)" by (cases "receive ?c (snd x) s")
  have inv': "inv s'" using inv_push [OF Cons.prems(1), of ?c "snd x"] p by simp
  have tail: "r = Inr (Some bs) \<or> Inr (Some bs) \<in> set (snd (push_chunks receive xs s'))"
    using Cons.prems(3) by (auto simp: p Let_def case_prod_unfold)
  have C: "?C \<union> fst ` set xs = C \<union> fst ` set (x # xs)" by auto
  show ?case
  proof (cases r)
    case (Inl e)
    then have "\<forall>tid total_len acc. partial s' = Some (tid, total_len, acc) \<longrightarrow> built_from ?C tid total_len acc"
      using reject [OF Cons.prems(1), of ?c "snd x" s' e] p Cons.prems(2) built_from_mono [OF _ subset_insertI [of C ?c]] by auto
    from Cons.IH [OF inv' this] tail Inl C show ?thesis by auto
  next
    case (Inr d)
    from accept [OF Cons.prems(1), of ?c "snd x" s' d] p Inr obtain acc where
      acc: "ci_offset ?c = 0 \<and> acc = [] \<or> continues (partial s) ?c acc"
      and out: "if length (acc @ ci_png_bytes ?c) = unat (ci_total_bytes ?c)
        then partial s' = None \<and> d = Some (acc @ ci_png_bytes ?c) \<and> valid (acc @ ci_png_bytes ?c)
        else partial s' = Some (ci_transfer_id ?c, ci_total_bytes ?c, acc @ ci_png_bytes ?c) \<and> d = None" by auto
    have built: "built_from ?C (ci_transfer_id ?c) (ci_total_bytes ?c) (acc @ ci_png_bytes ?c)"
      using acc
    proof
      assume "ci_offset ?c = 0 \<and> acc = []"
      with built_from_start [of ?c ?C] show ?thesis by simp
    next
      assume "continues (partial s) ?c acc"
      with Cons.prems(2) show ?thesis
        using built_from_mono [OF _ subset_insertI [of C ?c]] by (auto simp: continues_def intro: built_from_step)
    qed
    have "\<forall>tid total_len acc. partial s' = Some (tid, total_len, acc) \<longrightarrow> built_from ?C tid total_len acc"
      using out built by (auto split: if_splits)
    note IH = Cons.IH [OF inv' this]
    show ?thesis
    proof (cases "d = Some bs")
      case True
      with out built have "built_from ?C (ci_transfer_id ?c) (ci_total_bytes ?c) bs"
        "length bs = unat (ci_total_bytes ?c)" "valid bs" by (auto split: if_splits)
      then show ?thesis using built_from_mono [of ?C _ _ bs "C \<union> fst ` set (x # xs)"] by auto
    next
      case False
      with IH tail Inr C show ?thesis by auto
    qed
  qed
qed simp

text \<open>The chunks of an image, received in time, deliver it.\<close>

lemma accept_next:
  assumes "inv s" and ok: "clipboard_image_chunk_validate c = Inr ()" and off: "ci_offset c \<noteq> 0"
    and cont: "continues (partial s) c acc" and now: "now < since s + timeout"
    and val: "length (acc @ ci_png_bytes c) = unat (ci_total_bytes c) \<longrightarrow> valid (acc @ ci_png_bytes c)"
  shows "\<exists>s'. receive c now s = (s', Inr (if length (acc @ ci_png_bytes c) = unat (ci_total_bytes c)
      then Some (acc @ ci_png_bytes c) else None)) \<and> inv s' \<and>
    (length (acc @ ci_png_bytes c) \<noteq> unat (ci_total_bytes c) \<longrightarrow>
       partial s' = Some (ci_transfer_id c, ci_total_bytes c, acc @ ci_png_bytes c) \<and> since s' = since s)"
proof -
  from progress [OF assms(1) ok off cont now val] obtain s' d where
    r: "receive c now s = (s', Inr d)" "d = None \<longrightarrow> since s' = since s" by blast
  moreover have "inv s'" using inv_push [OF assms(1), of c now] r by simp
  moreover from accept [OF assms(1) r(1)] off cont
  have "if length (acc @ ci_png_bytes c) = unat (ci_total_bytes c)
      then partial s' = None \<and> d = Some (acc @ ci_png_bytes c)
      else partial s' = Some (ci_transfer_id c, ci_total_bytes c, acc @ ci_png_bytes c) \<and> d = None"
    by (auto simp: continues_def split: if_splits)
  ultimately show ?thesis by (auto split: if_splits)
qed

lemma rest_delivered:
  assumes "inv s" and "partial s = Some (tid, word_of_nat (length png), acc)" and "png = acc @ tail" and "tail \<noteq> []"
    and "length acc = k * MAX_CLIPBOARD_IMAGE_CHUNK_BYTES" and "0 < k" and "\<forall>t\<in>set ts. t < since s + timeout"
    and "length ts = length (chunks MAX_CLIPBOARD_IMAGE_CHUNK_BYTES tail)" and "image_ok png" and "valid png"
  shows "snd (push_chunks receive
      (zip (map (image_piece tid png) (List.enumerate k (chunks MAX_CLIPBOARD_IMAGE_CHUNK_BYTES tail))) ts) s) =
    replicate (length ts - 1) (Inr None) @ [Inr (Some png)]"
  using assms
proof (induction "length tail" arbitrary: s acc tail k ts rule: less_induct)
  case less
  let ?N = MAX_CLIPBOARD_IMAGE_CHUNK_BYTES
  let ?c = "image_piece tid png (k, take ?N tail)"
  have cs: "chunks ?N tail = take ?N tail # chunks ?N (drop ?N tail)"
    by (rule chunks_Cons [OF chunk_bytes_pos less.prems(4)])
  obtain t us where ts: "ts = t # us" using less.prems(8) cs by (cases ts) auto
  have c: "clipboard_image_chunk_validate ?c = Inr ()" "unat (ci_offset ?c) = length acc"
    "unat (ci_total_bytes ?c) = length png" "ci_png_bytes ?c = take ?N tail" "ci_transfer_id ?c = tid"
    "ci_total_bytes ?c = word_of_nat (length png)"
    using image_piece_ok [OF less.prems(9,3,5,4), of tid] by blast+
  have off: "ci_offset ?c \<noteq> 0" using c(2) less.prems(5,6) by (auto simp: MAX_CLIPBOARD_IMAGE_CHUNK_BYTES_def)
  have cont: "continues (partial s) ?c acc" using less.prems(2) c(2,5,6) by (simp add: continues_def)
  have now: "t < since s + timeout" using less.prems(7) ts by simp
  have whole: "length (acc @ take ?N tail) = length png \<longleftrightarrow> drop ?N tail = []"
    using less.prems(3) by (auto simp: min_def)
  have all: "acc @ take ?N tail = png" if "drop ?N tail = []" using that less.prems(3) by simp
  have whole': "length (acc @ ci_png_bytes ?c) = unat (ci_total_bytes ?c) \<longleftrightarrow> drop ?N tail = []"
    unfolding c(3,4) by (rule whole)
  have val: "length (acc @ ci_png_bytes ?c) = unat (ci_total_bytes ?c) \<longrightarrow> valid (acc @ ci_png_bytes ?c)"
    unfolding whole' unfolding c(4) using all less.prems(10) by simp
  from accept_next [OF less.prems(1) c(1) off cont now val, unfolded whole', unfolded c(4,5,6)] obtain s' where
    s': "receive ?c t s = (s', Inr (if drop ?N tail = [] then Some png else None))" "inv s'"
      "drop ?N tail \<noteq> [] \<longrightarrow> partial s' = Some (tid, word_of_nat (length png), acc @ take ?N tail) \<and> since s' = since s"
    using all by auto
  show ?case
  proof (cases "drop ?N tail = []")
    case True
    then have "us = []" using less.prems(8) cs ts by simp
    with True s' show ?thesis by (simp add: cs ts)
  next
    case False
    have len: "length (acc @ take ?N tail) = (k + 1) * ?N" using False less.prems(5) by (auto simp: min_def)
    have "snd (push_chunks receive (zip (map (image_piece tid png) (List.enumerate (k + 1) (chunks ?N (drop ?N tail)))) us) s') =
        replicate (length us - 1) (Inr None) @ [Inr (Some png)]"
      by (rule less.hyps [OF _ s'(2) _ _ False len])
        (use less.prems False s' cs ts in \<open>auto simp: MAX_CLIPBOARD_IMAGE_CHUNK_BYTES_def\<close>)
    moreover have "us \<noteq> []" using less.prems(8) cs ts False by (auto simp: chunks_Cons [OF chunk_bytes_pos])
    ultimately show ?thesis using s'(1) False
      by (cases us) (simp_all add: cs ts Let_def case_prod_unfold)
  qed
qed

lemma transfer_delivered:
  assumes "inv s" and fresh: "\<not> spent s tid" and ok: "image_ok png" and "valid png"
    and len: "length ts = length (image_chunks tid png)" and times: "\<forall>t\<in>set ts. hd ts \<le> t \<and> t < hd ts + timeout"
  shows "snd (push_chunks receive (zip (image_chunks tid png) ts) s) =
    replicate (length ts - 1) (Inr None) @ [Inr (Some png)]"
proof -
  let ?N = MAX_CLIPBOARD_IMAGE_CHUNK_BYTES
  let ?c = "image_piece tid png (0, take ?N png)"
  have ne: "png \<noteq> []" using ok by (auto simp: image_ok_def)
  have cs: "image_chunks tid png =
      ?c # map (image_piece tid png) (List.enumerate 1 (chunks ?N (drop ?N png)))"
    by (simp add: image_chunks_piece chunks_Cons [OF chunk_bytes_pos ne])
  obtain t us where ts: "ts = t # us" using len cs by (cases ts) auto
  have zero: "length ([] :: bytes) = 0 * ?N" by simp
  have c: "clipboard_image_chunk_validate ?c = Inr ()" "unat (ci_offset ?c) = length ([] :: bytes)"
    "unat (ci_total_bytes ?c) = length png" "ci_png_bytes ?c = take ?N png" "ci_transfer_id ?c = tid"
    "ci_total_bytes ?c = word_of_nat (length png)"
    using image_piece_ok [OF ok append_Nil [symmetric] zero ne, of tid] by blast+
  have off: "ci_offset ?c = 0" using c(2) by (simp add: unat_eq_zero)
  have whole: "length (take ?N png) = length png \<longleftrightarrow> drop ?N png = []" by (auto simp: min_def)
  have "length (ci_png_bytes ?c) = unat (ci_total_bytes ?c) \<longrightarrow> valid (ci_png_bytes ?c)"
    unfolding c(3,4) using assms(4) whole by auto
  moreover have "\<not> spent s (ci_transfer_id ?c)" using fresh c(5) by simp
  ultimately obtain s' d where r: "receive ?c t s = (s', Inr d)" "d = None \<longrightarrow> since s' = t"
    using start [OF assms(1) c(1) off, of t] by blast
  have inv': "inv s'" using inv_push [OF assms(1), of ?c t] r by simp
  have size_eq: "unat (word_of_nat (length png) :: u32) = length png" using c(3) unfolding c(6) .
  have d: "if drop ?N png = [] then d = Some png
      else d = None \<and> partial s' = Some (tid, word_of_nat (length png), take ?N png)"
    using accept [OF assms(1) r(1)] off c(2) whole size_eq
    by (auto simp: continues_def c(4,5,6) split: if_splits)
  show ?thesis
  proof (cases "drop ?N png = []")
    case True
    with len cs ts have "us = []" by simp
    with True d r show ?thesis by (simp add: cs ts)
  next
    case False
    then have len1: "length (take ?N png) = 1 * ?N" by (auto simp: min_def)
    have len_us: "length us = length (chunks ?N (drop ?N png))"
      using len ts chunks_Cons [OF chunk_bytes_pos ne] by (simp add: image_chunks_def)
    have "snd (push_chunks receive (zip (map (image_piece tid png) (List.enumerate 1 (chunks ?N (drop ?N png)))) us) s') =
        replicate (length us - 1) (Inr None) @ [Inr (Some png)]"
      by (rule rest_delivered [OF inv' _ _ False len1])
        (use d False r times ts len_us ok assms(4) in auto)
    moreover have "us \<noteq> []" using len cs ts False by (auto simp: chunks_Cons [OF chunk_bytes_pos])
    ultimately show ?thesis using r d False
      by (cases us) (simp_all add: cs ts Let_def case_prod_unfold)
  qed
qed

end

section \<open>Both assemblies keep the promise\<close>

definition client_partial :: "image_assembly \<Rightarrow> (u32 \<times> u32 \<times> bytes) option" where
  "client_partial a = map_option (\<lambda>(tid, sz, bs, started). (tid, sz, bs)) (ia_pending a)"

definition client_since :: "image_assembly \<Rightarrow> instant" where
  "client_since a = (case ia_pending a of Some (tid, sz, bs, started) \<Rightarrow> started | None \<Rightarrow> 0)"

definition client_spent :: "image_assembly \<Rightarrow> u32 \<Rightarrow> bool" where
  "client_spent a tid \<longleftrightarrow> (\<exists>latest. ia_latest_id a = Some latest \<and> tid \<le> latest)"

definition client_image_inv :: "image_assembly \<Rightarrow> bool" where
  "client_image_inv a \<longleftrightarrow> (\<forall>tid sz bs started. ia_pending a = Some (tid, sz, bs, started) \<longrightarrow>
     length bs < unat sz \<and> unat sz \<le> IMAGE_LIMIT \<and> client_spent a tid)"

lemmas client_image_defs = client_partial_def client_since_def client_spent_def client_image_inv_def
  image_assembly_push_def image_assembly_append_def image_assembly_discard_def continues_def Let_def

lemma encode_image_chunk_Inr:
  "(\<exists>bs. encode_clipboard_image_chunk c = Inr bs) \<longleftrightarrow> clipboard_image_chunk_validate c = Inr ()"
  by (cases "clipboard_image_chunk_validate c") (simp_all add: encode_clipboard_image_chunk_def)

text \<open>The push of a valid chunk, after the expiry.\<close>

definition client_expired :: "instant \<Rightarrow> image_assembly \<Rightarrow> image_assembly" where
  "client_expired now a = (if ia_pending a \<noteq> None \<and> now - client_since a \<ge> from_secs 10
     then image_assembly_discard a else a)"

lemma image_assembly_push_eq:
  "image_assembly_push decode chunk now a =
     (case encode_clipboard_image_chunk chunk of
        Inl e \<Rightarrow> (a, Inl (ProtocolError e))
      | Inr _ \<Rightarrow>
          if ci_offset chunk = 0
          then if client_spent (client_expired now a) (ci_transfer_id chunk)
               then (client_expired now a, Inl InvalidClipboardImage)
               else image_assembly_append decode chunk
                      ((client_expired now a)\<lparr>ia_latest_id := Some (ci_transfer_id chunk),
                         ia_pending := Some (ci_transfer_id chunk, ci_total_bytes chunk, [], now)\<rparr>)
          else image_assembly_append decode chunk (client_expired now a))"
proof -
  have "(case ia_pending a of
      Some (_, _, _, started) \<Rightarrow> if now - started \<ge> from_secs 10 then image_assembly_discard a else a
    | None \<Rightarrow> a) = client_expired now a"
    by (simp add: client_expired_def client_since_def split: option.splits prod.splits)
  then show ?thesis by (auto simp: image_assembly_push_def client_spent_def Let_def split: sum.splits)
qed

lemma client_append_cases:
  assumes app: "image_assembly_append decode c a = (a', r)" and c: "clipboard_image_chunk_validate c = Inr ()"
    and pend: "ia_pending a = Some (tid, sz, bs, started)" "length bs < unat sz"
  shows "ia_latest_id a' = ia_latest_id a \<and>
    (if tid = ci_transfer_id c \<and> sz = ci_total_bytes c \<and> length bs = unat (ci_offset c)
     then if length (bs @ ci_png_bytes c) = unat sz
          then ia_pending a' = None \<and>
               r = (if decode 8192 8192 (64 * 1024 * 1024) (bs @ ci_png_bytes c)
                    then Inr (Some (bs @ ci_png_bytes c)) else Inl InvalidClipboardImage)
          else ia_pending a' = Some (tid, sz, bs @ ci_png_bytes c, started) \<and>
               length (bs @ ci_png_bytes c) < unat sz \<and> r = Inr None
     else ia_pending a' = None \<and> r = Inl InvalidClipboardImage)"
  using app pend c
  by (auto simp: image_assembly_append_def image_assembly_discard_def Let_def
      clipboard_image_chunk_validate_Inr split: if_splits)

lemma client_expired_simps:
  "ia_latest_id (client_expired now a) = ia_latest_id a"
  "client_spent (client_expired now a) = client_spent a"
  "ia_pending (client_expired now a) =
     (if ia_pending a \<noteq> None \<and> now - client_since a \<ge> from_secs 10 then None else ia_pending a)"
  by (simp_all add: client_expired_def image_assembly_discard_def client_spent_def fun_eq_iff)

text \<open>What a push does, by cases: the chunk is refused, starts a transfer, or meets one.\<close>

lemma client_push_cases:
  assumes push: "image_assembly_push decode c now a = (a', r)" and inv: "client_image_inv a"
  obtains
    (refused) "r \<in> range Inl" "ia_latest_id a' = ia_latest_id a" "ia_pending a' = None \<or> ia_pending a' = ia_pending a"
      "clipboard_image_chunk_validate c = Inr () \<longrightarrow> (if ci_offset c = 0 then client_spent a (ci_transfer_id c)
         else ia_pending a = None \<or> now - client_since a \<ge> from_secs 10)"
  | (started) "ci_offset c = 0" "\<not> client_spent a (ci_transfer_id c)" "clipboard_image_chunk_validate c = Inr ()"
      "ia_latest_id a' = Some (ci_transfer_id c)"
      "if length (ci_png_bytes c) = unat (ci_total_bytes c)
       then ia_pending a' = None \<and> r = (if decode 8192 8192 (64 * 1024 * 1024) (ci_png_bytes c)
              then Inr (Some (ci_png_bytes c)) else Inl InvalidClipboardImage)
       else ia_pending a' = Some (ci_transfer_id c, ci_total_bytes c, ci_png_bytes c, now) \<and>
            length (ci_png_bytes c) < unat (ci_total_bytes c) \<and> r = Inr None"
  | (continued) tid sz bs started where "ci_offset c \<noteq> 0" "ia_pending a = Some (tid, sz, bs, started)"
      "clipboard_image_chunk_validate c = Inr ()" "ia_latest_id a' = ia_latest_id a"
      "if tid = ci_transfer_id c \<and> sz = ci_total_bytes c \<and> length bs = unat (ci_offset c)
       then if length (bs @ ci_png_bytes c) = unat sz
            then ia_pending a' = None \<and> r = (if decode 8192 8192 (64 * 1024 * 1024) (bs @ ci_png_bytes c)
                   then Inr (Some (bs @ ci_png_bytes c)) else Inl InvalidClipboardImage)
            else ia_pending a' = Some (tid, sz, bs @ ci_png_bytes c, started) \<and>
                 length (bs @ ci_png_bytes c) < unat sz \<and> r = Inr None
       else ia_pending a' = None \<and> r = Inl InvalidClipboardImage"
proof (cases "clipboard_image_chunk_validate c")
  case (Inl e)
  then have "encode_clipboard_image_chunk c = Inl e" by (simp add: encode_clipboard_image_chunk_def)
  with push Inl show ?thesis by (intro refused) (auto simp: image_assembly_push_eq)
next
  case (Inr u)
  then have ok: "clipboard_image_chunk_validate c = Inr ()" by simp
  then obtain e where enc: "encode_clipboard_image_chunk c = Inr e" using encode_image_chunk_Inr by blast
  let ?x = "client_expired now a"
  show ?thesis
  proof (cases "ci_offset c = 0")
    case True
    show ?thesis
    proof (cases "client_spent a (ci_transfer_id c)")
      case spent: True
      with push enc True ok show ?thesis
        by (intro refused) (auto simp: image_assembly_push_eq client_expired_simps)
    next
      case False
      let ?y = "?x\<lparr>ia_latest_id := Some (ci_transfer_id c), ia_pending := Some (ci_transfer_id c, ci_total_bytes c, [], now)\<rparr>"
      have app: "image_assembly_append decode c ?y = (a', r)"
        using push enc True False by (simp add: image_assembly_push_eq client_expired_simps)
      have "length ([] :: bytes) < unat (ci_total_bytes c)" using ok by (auto simp: clipboard_image_chunk_validate_Inr)
      from client_append_cases [OF app ok _ this, of "ci_transfer_id c" now] True False ok show ?thesis
        by (intro started) (auto split: if_splits)
    qed
  next
    case False
    have app: "image_assembly_append decode c ?x = (a', r)"
      using push enc False by (simp add: image_assembly_push_eq)
    show ?thesis
    proof (cases "ia_pending ?x")
      case None
      with app show ?thesis using ok False
        by (intro refused) (auto simp: image_assembly_append_def client_expired_simps split: if_splits)
    next
      case (Some p)
      obtain tid sz bs started where p: "p = (tid, sz, bs, started)" by (cases p)
      have pend: "ia_pending a = Some (tid, sz, bs, started)"
        using Some p by (auto simp: client_expired_simps split: if_splits)
      then have "length bs < unat sz" using inv by (simp add: client_image_inv_def)
      from client_append_cases [OF app ok Some [unfolded p] this] pend False ok show ?thesis
        by (intro continued) (auto simp: client_expired_simps)
    qed
  qed
qed

interpretation client_images: image_receiver "image_assembly_push decode" client_partial client_since
  client_spent client_image_inv "decode 8192 8192 (64 * 1024 * 1024)" "from_secs 10" for decode
proof
  fix s s' :: image_assembly and c now d e tid total_len acc
  show "\<exists>acc. (ci_offset c = 0 \<and> acc = [] \<and> \<not> client_spent s (ci_transfer_id c) \<or> continues (client_partial s) c acc) \<and>
      client_spent s' (ci_transfer_id c) \<and>
      (if length (acc @ ci_png_bytes c) = unat (ci_total_bytes c)
       then client_partial s' = None \<and> d = Some (acc @ ci_png_bytes c) \<and>
         decode 8192 8192 (64 * 1024 * 1024) (acc @ ci_png_bytes c)
       else client_partial s' = Some (ci_transfer_id c, ci_total_bytes c, acc @ ci_png_bytes c) \<and> d = None)"
    if inv: "client_image_inv s" and push: "image_assembly_push decode c now s = (s', Inr d)"
    using push inv
  proof (cases rule: client_push_cases)
    case started
    then show ?thesis
      by (intro exI [of _ "[]"]) (auto simp: client_spent_def client_partial_def split: if_splits)
  next
    case (continued tid sz bs t)
    then show ?thesis using inv
      by (intro exI [of _ bs])
        (auto simp: client_spent_def client_partial_def client_image_inv_def continues_def split: if_splits)
  qed auto
  show "client_partial s' = None \<or> client_partial s' = client_partial s"
    if "client_image_inv s" and "image_assembly_push decode c now s = (s', Inl e)"
    using that(2,1) by (cases rule: client_push_cases) (auto simp: client_partial_def split: if_splits)
  show "client_spent (fst (image_assembly_push decode c now s)) tid" if "client_image_inv s" and "client_spent s tid"
  proof -
    obtain a r where p: "image_assembly_push decode c now s = (a, r)" by (cases "image_assembly_push decode c now s")
    from p that show ?thesis
      by (cases rule: client_push_cases) (force simp: p client_spent_def)+
  qed
  show "length acc < unat total_len \<and> unat total_len \<le> IMAGE_LIMIT"
    if "client_image_inv s" and "client_partial s = Some (tid, total_len, acc)"
    using that by (auto simp: client_image_inv_def client_partial_def)
  show "client_image_inv (fst (image_assembly_push decode c now s))" if "client_image_inv s"
  proof -
    obtain a r where p: "image_assembly_push decode c now s = (a, r)" by (cases "image_assembly_push decode c now s")
    from p that show ?thesis
      by (cases rule: client_push_cases)
        (use that in \<open>auto simp: p client_image_inv_def client_spent_def IMAGE_LIMIT_def
          clipboard_image_chunk_validate_Inr split: if_splits\<close>)
  qed
  show "\<exists>s' d. image_assembly_push decode c now s = (s', Inr d) \<and> (d = None \<longrightarrow> client_since s' = now)"
    if "client_image_inv s" and "clipboard_image_chunk_validate c = Inr ()" and "ci_offset c = 0"
      and "\<not> client_spent s (ci_transfer_id c)"
      and "length (ci_png_bytes c) = unat (ci_total_bytes c) \<longrightarrow> decode 8192 8192 (64 * 1024 * 1024) (ci_png_bytes c)"
  proof -
    obtain a r where p: "image_assembly_push decode c now s = (a, r)" by (cases "image_assembly_push decode c now s")
    from p that(1) show ?thesis
      by (cases rule: client_push_cases) (use that in \<open>auto simp: p client_since_def split: if_splits\<close>)
  qed
  show "\<exists>s' d. image_assembly_push decode c now s = (s', Inr d) \<and> (d = None \<longrightarrow> client_since s' = client_since s)"
    if "client_image_inv s" and "clipboard_image_chunk_validate c = Inr ()" and "ci_offset c \<noteq> 0"
      and "continues (client_partial s) c acc" and "now < client_since s + from_secs 10"
      and "length (acc @ ci_png_bytes c) = unat (ci_total_bytes c) \<longrightarrow>
        decode 8192 8192 (64 * 1024 * 1024) (acc @ ci_png_bytes c)"
  proof -
    obtain a r where p: "image_assembly_push decode c now s = (a, r)" by (cases "image_assembly_push decode c now s")
    from p that(1) show ?thesis
      by (cases rule: client_push_cases)
        (use that in \<open>auto simp: p client_since_def client_partial_def continues_def split: if_splits\<close>)
  qed
qed

subsection \<open>The host\<close>

definition host_partial :: "host_assembly \<Rightarrow> (u32 \<times> u32 \<times> bytes) option" where
  "host_partial a = map_option (\<lambda>(tid, sz, started, bs). (tid, word_of_nat sz, bs)) (ha_active a)"

definition host_since :: "host_assembly \<Rightarrow> instant" where
  "host_since a = (case ha_active a of Some (tid, sz, started, bs) \<Rightarrow> started | None \<Rightarrow> 0)"

definition host_spent :: "host_assembly \<Rightarrow> u32 \<Rightarrow> bool" where
  "host_spent a tid \<longleftrightarrow> tid \<in> set (ha_used a) \<or> length (ha_used a) \<ge> 65536"

definition host_image_inv :: "host_assembly \<Rightarrow> bool" where
  "host_image_inv a \<longleftrightarrow> length (ha_used a) \<le> 65536 \<and>
     (\<forall>tid sz started bs. ha_active a = Some (tid, sz, started, bs) \<longrightarrow>
       length bs < sz \<and> sz \<le> IMAGE_LIMIT \<and> tid \<in> set (ha_used a))"

lemma host_size_word: "sz \<le> IMAGE_LIMIT \<Longrightarrow> unat (word_of_nat sz :: u32) = sz"
  by (rule unat_of_nat_bounded) (simp add: IMAGE_LIMIT_def)

lemma host_size_eq: "sz \<le> IMAGE_LIMIT \<Longrightarrow> word_of_nat sz = (w :: u32) \<longleftrightarrow> sz = unat w"
  using host_size_word [of sz] by (metis of_nat_unat ucast_id)

lemma host_append_cases:
  assumes app: "host_assembly_append png c a = (a', r)"
    and act: "ha_active a = Some (tid, sz, started, bs)" "length bs < sz"
  shows "ha_used a' = ha_used a \<and>
    (if tid = ci_transfer_id c \<and> sz = unat (ci_total_bytes c) \<and> length bs = unat (ci_offset c) \<and>
        length (bs @ ci_png_bytes c) \<le> sz
     then if length (bs @ ci_png_bytes c) = sz
          then ha_active a' = None \<and>
               r = (case validate_png png (bs @ ci_png_bytes c) of
                      Inl e \<Rightarrow> Inl e | Inr _ \<Rightarrow> Inr (Some (bs @ ci_png_bytes c)))
          else ha_active a' = Some (tid, sz, started, bs @ ci_png_bytes c) \<and>
               length (bs @ ci_png_bytes c) < sz \<and> r = Inr None
     else ha_active a' = None \<and> r = Inl IoInvalidData)"
  using app act
  by (cases "validate_png png (bs @ ci_png_bytes c)")
    (auto simp: host_assembly_append_def host_assembly_cancel_def Let_def split: if_splits)

definition host_accepts :: "clipboard_image_chunk \<Rightarrow> bool" where
  "host_accepts c \<longleftrightarrow> 8 \<le> unat (ci_total_bytes c) \<and> unat (ci_total_bytes c) \<le> IMAGE_LIMIT \<and>
     ci_png_bytes c \<noteq> [] \<and> length (ci_png_bytes c) \<le> 65536 \<and>
     (ci_offset c = 0 \<longrightarrow> starts_with (ci_png_bytes c) PNG_SIGNATURE)"

lemma valid_chunk_accepted: "clipboard_image_chunk_validate c = Inr u \<Longrightarrow> host_accepts c"
proof -
  have "length PNG_SIGNATURE = 8" by (simp add: PNG_SIGNATURE_def)
  then show "clipboard_image_chunk_validate c = Inr u \<Longrightarrow> host_accepts c"
    by (simp add: clipboard_image_chunk_validate_Inr host_accepts_def starts_with_def
      IMAGE_LIMIT_def MAX_CLIPBOARD_IMAGE_CHUNK_BYTES_def)
qed

lemma host_expire_simps:
  "ha_used (host_assembly_expire now a) = ha_used a"
  "ha_active (host_assembly_expire now a) =
     (if ha_active a \<noteq> None \<and> now - host_since a \<ge> from_secs 5 then None else ha_active a)"
  by (auto simp: host_assembly_expire_def host_assembly_cancel_def host_since_def split: option.splits)

lemma host_push_cases:
  assumes push: "host_assembly_push png c now a = (a', r)" and inv: "host_image_inv a"
  obtains
    (refused) "r \<in> range Inl" "ha_active a' = None \<or> ha_active a' = ha_active a"
      "ha_used a' = ha_used a \<or> ha_used a' = ci_transfer_id c # ha_used a \<and> length (ha_used a) < 65536"
      "host_accepts c \<longrightarrow> (if ci_offset c = 0 then host_spent a (ci_transfer_id c)
         else ha_active a = None \<or> now - host_since a \<ge> from_secs 5)"
  | (started) "ci_offset c = 0" "\<not> host_spent a (ci_transfer_id c)" "host_accepts c"
      "ha_used a' = ci_transfer_id c # ha_used a"
      "if length (ci_png_bytes c) \<le> unat (ci_total_bytes c)
       then if length (ci_png_bytes c) = unat (ci_total_bytes c)
            then ha_active a' = None \<and> r = (case validate_png png (ci_png_bytes c) of
                   Inl e \<Rightarrow> Inl e | Inr _ \<Rightarrow> Inr (Some (ci_png_bytes c)))
            else ha_active a' = Some (ci_transfer_id c, unat (ci_total_bytes c), now, ci_png_bytes c) \<and>
                 length (ci_png_bytes c) < unat (ci_total_bytes c) \<and> r = Inr None
       else ha_active a' = None \<and> r = Inl IoInvalidData"
  | (continued) tid sz started bs where "ci_offset c \<noteq> 0" "ha_active a = Some (tid, sz, started, bs)"
      "host_accepts c" "ha_used a' = ha_used a"
      "if tid = ci_transfer_id c \<and> sz = unat (ci_total_bytes c) \<and> length bs = unat (ci_offset c) \<and>
          length (bs @ ci_png_bytes c) \<le> sz
       then if length (bs @ ci_png_bytes c) = sz
            then ha_active a' = None \<and> r = (case validate_png png (bs @ ci_png_bytes c) of
                   Inl e \<Rightarrow> Inl e | Inr _ \<Rightarrow> Inr (Some (bs @ ci_png_bytes c)))
            else ha_active a' = Some (tid, sz, started, bs @ ci_png_bytes c) \<and>
                 length (bs @ ci_png_bytes c) < sz \<and> r = Inr None
       else ha_active a' = None \<and> r = Inl IoInvalidData"
proof -
  let ?x = "host_assembly_expire now a"
  show ?thesis
  proof (cases "host_accepts c \<and> (ci_offset c = 0 \<longrightarrow> \<not> host_spent a (ci_transfer_id c))")
    case False
    then show ?thesis
      using push inv
      by (intro refused)
        (auto simp: host_assembly_push_def host_accepts_def host_spent_def host_assembly_cancel_def
          host_expire_simps not_le Let_def split: if_splits)
  next
    case acc: True
    show ?thesis
    proof (cases "ci_offset c = 0")
      case True
      let ?y = "?x\<lparr>ha_used := ci_transfer_id c # ha_used a,
        ha_active := Some (ci_transfer_id c, unat (ci_total_bytes c), now, [])\<rparr>"
      have app: "host_assembly_append png c ?y = (a', r)"
        using push acc True by (auto simp: host_assembly_push_def host_accepts_def host_spent_def
          host_expire_simps not_le Let_def split: if_splits)
      have "length ([] :: bytes) < unat (ci_total_bytes c)" using acc by (auto simp: host_accepts_def)
      from host_append_cases [OF app _ this, of "ci_transfer_id c" now] True acc show ?thesis
        by (intro started) (auto split: if_splits sum.splits)
    next
      case False
      have app: "host_assembly_append png c ?x = (a', r)"
        using push acc False by (auto simp: host_assembly_push_def host_accepts_def Let_def split: if_splits)
      show ?thesis
      proof (cases "ha_active ?x")
        case None
        with app show ?thesis using acc False
          by (intro refused) (auto simp: host_assembly_append_def host_expire_simps split: if_splits)
      next
        case (Some p)
        obtain tid sz started bs where p: "p = (tid, sz, started, bs)" by (cases p)
        have pend: "ha_active a = Some (tid, sz, started, bs)"
          using Some p by (auto simp: host_expire_simps split: if_splits)
        then have "length bs < sz" using inv by (simp add: host_image_inv_def)
        from host_append_cases [OF app Some [unfolded p] this] pend False acc show ?thesis
          by (intro continued) (auto simp: host_expire_simps)
      qed
    qed
  qed
qed

lemma host_push_inv:
  assumes inv: "host_image_inv s"
  shows "host_image_inv (fst (host_assembly_push png c now s))"
proof -
  obtain a r where p: "host_assembly_push png c now s = (a, r)" by (cases "host_assembly_push png c now s")
  from p inv have "host_image_inv a"
  proof (cases rule: host_push_cases)
    case refused
    from refused(2) show ?thesis
    proof
      assume "ha_active a = ha_active s"
      with refused(3) inv show ?thesis by (auto simp: host_image_inv_def)
    qed (use refused(3) inv in \<open>auto simp: host_image_inv_def\<close>)
  next
    case started
    from started(2,3) have "length (ha_used s) < 65536" "unat (ci_total_bytes c) \<le> IMAGE_LIMIT"
      by (simp_all add: host_spent_def host_accepts_def)
    with started(4,5) show ?thesis by (auto simp: host_image_inv_def split: if_splits)
  next
    case (continued tid sz t bs)
    have "sz \<le> IMAGE_LIMIT" "tid \<in> set (ha_used s)" "length (ha_used s) \<le> 65536"
      using inv continued(2) by (simp_all add: host_image_inv_def)
    with continued(4,5) show ?thesis by (auto simp: host_image_inv_def split: if_splits)
  qed
  with p show ?thesis by simp
qed

interpretation host_images: image_receiver "host_assembly_push png" host_partial host_since
  host_spent host_image_inv "\<lambda>bs. validate_png png bs = Inr ()" "from_secs 5" for png
proof
  fix s s' :: host_assembly and c now d e tid total_len acc
  show "\<exists>acc. (ci_offset c = 0 \<and> acc = [] \<and> \<not> host_spent s (ci_transfer_id c) \<or> continues (host_partial s) c acc) \<and>
      host_spent s' (ci_transfer_id c) \<and>
      (if length (acc @ ci_png_bytes c) = unat (ci_total_bytes c)
       then host_partial s' = None \<and> d = Some (acc @ ci_png_bytes c) \<and> validate_png png (acc @ ci_png_bytes c) = Inr ()
       else host_partial s' = Some (ci_transfer_id c, ci_total_bytes c, acc @ ci_png_bytes c) \<and> d = None)"
    if inv: "host_image_inv s" and push: "host_assembly_push png c now s = (s', Inr d)"
    using push inv
  proof (cases rule: host_push_cases)
    case started
    then show ?thesis
      by (intro exI [of _ "[]"])
        (auto simp: host_spent_def host_partial_def split: if_splits sum.splits)
  next
    case (continued tid sz t bs)
    then show ?thesis using inv
      by (intro exI [of _ bs])
        (auto simp: host_spent_def host_partial_def host_image_inv_def continues_def split: if_splits sum.splits)
  qed auto
  show "host_partial s' = None \<or> host_partial s' = host_partial s"
    if "host_image_inv s" and "host_assembly_push png c now s = (s', Inl e)"
    using that(2,1) by (cases rule: host_push_cases) (auto simp: host_partial_def split: if_splits)
  show "host_spent (fst (host_assembly_push png c now s)) tid" if "host_image_inv s" and "host_spent s tid"
  proof -
    obtain a r where p: "host_assembly_push png c now s = (a, r)" by (cases "host_assembly_push png c now s")
    from p that(1) show ?thesis
      by (cases rule: host_push_cases) (use that(2) in \<open>auto simp: p host_spent_def\<close>)
  qed
  show "length acc < unat total_len \<and> unat total_len \<le> IMAGE_LIMIT"
    if "host_image_inv s" and "host_partial s = Some (tid, total_len, acc)"
    using that host_size_word by (auto simp: host_image_inv_def host_partial_def)
  show "host_image_inv (fst (host_assembly_push png c now s))" if "host_image_inv s"
    by (rule host_push_inv [OF that])
  show "\<exists>s' d. host_assembly_push png c now s = (s', Inr d) \<and> (d = None \<longrightarrow> host_since s' = now)"
    if "host_image_inv s" and "clipboard_image_chunk_validate c = Inr ()" and "ci_offset c = 0"
      and "\<not> host_spent s (ci_transfer_id c)"
      and "length (ci_png_bytes c) = unat (ci_total_bytes c) \<longrightarrow> validate_png png (ci_png_bytes c) = Inr ()"
  proof -
    obtain a r where p: "host_assembly_push png c now s = (a, r)" by (cases "host_assembly_push png c now s")
    have "length (ci_png_bytes c) \<le> unat (ci_total_bytes c)" using that(2) by (simp add: clipboard_image_chunk_validate_Inr)
    with valid_chunk_accepted [OF that(2)] p that(1) show ?thesis
      by (elim host_push_cases) (use that in \<open>auto simp: p host_since_def split: if_splits\<close>)
  qed
  show "\<exists>s' d. host_assembly_push png c now s = (s', Inr d) \<and> (d = None \<longrightarrow> host_since s' = host_since s)"
    if "host_image_inv s" and "clipboard_image_chunk_validate c = Inr ()" and "ci_offset c \<noteq> 0"
      and "continues (host_partial s) c acc" and "now < host_since s + from_secs 5"
      and "length (acc @ ci_png_bytes c) = unat (ci_total_bytes c) \<longrightarrow> validate_png png (acc @ ci_png_bytes c) = Inr ()"
  proof -
    obtain a r where p: "host_assembly_push png c now s = (a, r)" by (cases "host_assembly_push png c now s")
    note inv = that(1) and cont = that(4)
    obtain sz started where act: "ha_active s = Some (ci_transfer_id c, sz, started, acc)"
      and sz: "sz = unat (ci_total_bytes c)" and acc: "length acc = unat (ci_offset c)"
      using inv cont host_size_eq by (auto simp: host_partial_def continues_def host_image_inv_def)
    have fits: "length acc + length (ci_png_bytes c) \<le> sz"
      using that(2) acc sz by (simp add: clipboard_image_chunk_validate_Inr)
    from valid_chunk_accepted [OF that(2)] p that(1) show ?thesis
      by (elim host_push_cases)
        (use that(3,5,6) act sz acc fits in \<open>auto simp: p host_since_def split: if_splits\<close>)
  qed
qed

section \<open>Properties\<close>

lemma host_image_inv_default: "host_image_inv host_assembly_default"
  by (simp add: host_image_inv_def host_assembly_default_def)

lemma client_image_inv_default: "client_image_inv image_assembly_default"
  by (simp add: client_image_inv_def image_assembly_default_def)

text \<open>C22. Clipboard images arrive: the chunks of an image that fits the protocol, received in order and
  in time (5 seconds at the host, 10 at the client, from the first chunk), deliver exactly that image
  with the last chunk and nothing before, for any image the PNG decoder accepts, in either direction
  and whatever chunks came before, as long as the transfer id has not been spent.\<close>

theorem image_transfer_delivers:
  assumes "image_ok png" and "length ts = length (image_chunks tid png)" and "\<forall>t\<in>set ts. hd ts \<le> t"
    and h: "h = fst (push_chunks (host_assembly_push lib) hs host_assembly_default)"
    and c: "c = fst (push_chunks (image_assembly_push decode) cs image_assembly_default)"
  shows "(validate_png lib png = Inr () \<and> \<not> host_spent h tid \<and> (\<forall>t\<in>set ts. t < hd ts + from_secs 5) \<longrightarrow>
      snd (push_chunks (host_assembly_push lib) (zip (image_chunks tid png) ts) h) =
        replicate (length ts - 1) (Inr None) @ [Inr (Some png)]) \<and>
    (decode 8192 8192 (64 * 1024 * 1024) png \<and> \<not> client_spent c tid \<and> (\<forall>t\<in>set ts. t < hd ts + from_secs 10) \<longrightarrow>
      snd (push_chunks (image_assembly_push decode) (zip (image_chunks tid png) ts) c) =
        replicate (length ts - 1) (Inr None) @ [Inr (Some png)])"
proof (intro conjI impI; elim conjE)
  have hi: "host_image_inv h" unfolding h by (rule host_images.push_chunks_inv [OF host_image_inv_default])
  have ci: "client_image_inv c" unfolding c by (rule client_images.push_chunks_inv [OF client_image_inv_default])
  show "snd (push_chunks (host_assembly_push lib) (zip (image_chunks tid png) ts) h) =
      replicate (length ts - 1) (Inr None) @ [Inr (Some png)]"
    if "validate_png lib png = Inr ()" "\<not> host_spent h tid" "\<forall>t\<in>set ts. t < hd ts + from_secs 5"
    using host_images.transfer_delivered [OF hi that(2) assms(1) that(1) assms(2)] that(3) assms(3) by blast
  show "snd (push_chunks (image_assembly_push decode) (zip (image_chunks tid png) ts) c) =
      replicate (length ts - 1) (Inr None) @ [Inr (Some png)]"
    if "decode 8192 8192 (64 * 1024 * 1024) png" "\<not> client_spent c tid" "\<forall>t\<in>set ts. t < hd ts + from_secs 10"
    using client_images.transfer_delivered [where decode = decode, OF ci that(2) assms(1) that(1) assms(2)] that(3) assms(3) by blast
qed

definition lenient_png :: png_crate where
  "lenient_png = \<lparr>png_read_info = (\<lambda>limit bs. Some 4), png_next_frame = (\<lambda>bs n. True)\<rparr>"

lemma signature_image: "image_ok PNG_SIGNATURE" "length PNG_SIGNATURE = 8"
  "image_chunks 1 PNG_SIGNATURE = [\<lparr>ci_transfer_id = 1, ci_total_bytes = 8, ci_offset = 0, ci_png_bytes = PNG_SIGNATURE\<rparr>]"
  by (simp_all add: image_ok_def PNG_SIGNATURE_def starts_with_def IMAGE_LIMIT_def image_chunks_def
      chunks.simps MAX_CLIPBOARD_IMAGE_CHUNK_BYTES_def)

lemma signature_decodes: "validate_png lenient_png PNG_SIGNATURE = Inr ()"
  using signature_image(1) by (simp add: validate_png_def lenient_png_def image_ok_def)

theorem image_transfer_delivers_witness:
  "snd (push_chunks (host_assembly_push lenient_png) (zip (image_chunks 1 PNG_SIGNATURE) [7]) host_assembly_default) =
     [Inr (Some PNG_SIGNATURE)] \<and>
   snd (push_chunks (image_assembly_push (\<lambda>w h m bs. True)) (zip (image_chunks 1 PNG_SIGNATURE) [7])
     image_assembly_default) = [Inr (Some PNG_SIGNATURE)]"
  using image_transfer_delivers [of PNG_SIGNATURE "[7]" 1 host_assembly_default lenient_png "[]"
      image_assembly_default "\<lambda>w h m bs. True" "[]"] signature_image signature_decodes
  by (simp add: host_spent_def client_spent_def host_assembly_default_def image_assembly_default_def)

text \<open>C23. Clipboard images are never made up, mixed or repeated: over any sequence of chunks a peer
  sends, at any times, both assemblies deliver an image only if it is the data of consecutive chunks
  of one transfer, complete and accepted by the PNG decoder, and no transfer id is delivered twice.\<close>

theorem images_genuine:
  "(Inr (Some bs) \<in> set (snd (push_chunks (host_assembly_push lib) xs host_assembly_default)) \<longrightarrow>
      (\<exists>tid total_len. built_from (fst ` set xs) tid total_len bs \<and> length bs = unat total_len \<and>
        validate_png lib bs = Inr ())) \<and>
   (Inr (Some bs) \<in> set (snd (push_chunks (image_assembly_push decode) xs image_assembly_default)) \<longrightarrow>
      (\<exists>tid total_len. built_from (fst ` set xs) tid total_len bs \<and> length bs = unat total_len \<and>
        decode 8192 8192 (64 * 1024 * 1024) bs)) \<and>
   distinct (delivered_ids xs (snd (push_chunks (host_assembly_push lib) xs host_assembly_default))) \<and>
   distinct (delivered_ids xs (snd (push_chunks (image_assembly_push decode) xs image_assembly_default)))"
  using host_images.delivered_genuine [OF host_image_inv_default, where C = "{}" and bs = bs and xs = xs and png = lib]
    client_images.delivered_genuine [OF client_image_inv_default, where C = "{}" and bs = bs and xs = xs and decode = decode]
    host_images.delivered_once [OF host_image_inv_default, where D = "{}" and xs = xs and png = lib]
    client_images.delivered_once [OF client_image_inv_default, where D = "{}" and xs = xs and decode = decode]
  by (simp add: host_partial_def client_partial_def host_assembly_default_def image_assembly_default_def)

theorem images_genuine_witness:
  "\<exists>tid total_len. built_from (fst ` set (zip (image_chunks 1 PNG_SIGNATURE) [7 :: instant])) tid total_len PNG_SIGNATURE \<and>
     length PNG_SIGNATURE = unat total_len"
proof -
  have "Inr (Some PNG_SIGNATURE) \<in> set (snd (push_chunks (host_assembly_push lenient_png)
      (zip (image_chunks 1 PNG_SIGNATURE) [7]) host_assembly_default))"
    using signature_decodes unfolding signature_image
    by (simp add: host_assembly_push_def host_assembly_expire_def host_assembly_append_def
      host_assembly_default_def IMAGE_LIMIT_def starts_with_def PNG_SIGNATURE_def Let_def)
  with images_genuine [of PNG_SIGNATURE lenient_png "zip (image_chunks 1 PNG_SIGNATURE) [7]" "\<lambda>w h m bs. True"]
  show ?thesis by blast
qed

end
