(* ===== verification/Client_Session.thy ===== *)
theory Client_Session
  imports Client_Types Clipboard_Image Audio_Reassembly Frame_Assembler Control Handshake Input_Event Media_Wire
begin

text \<open>
  The client session, \<open>maho-app/src/session.rs\<close>: its state, what it sends under which permission
  and capability, and what every packet from the host does to it.

  The operations here are the source's as one thread runs them that nobody interrupts. Most of them take
  the lock of the state several times and release it in between; \<open>Client_Threads\<close> cuts them into their
  locked sections, lets the sections of many threads come in any order, and shows that a thread alone
  computes the operations of this theory. What the environment supplies is an argument:
  the clocks, the outcome of handing one packet to the TCP stream, the AEAD functions and the image
  decoder. Traces, receiver statistics and the counters of the RTT average are left out. Every
  operation returns the session, its result and the packets handed to the TCP stream.
\<close>

section \<open>State\<close>

definition implemented_capabilities :: capabilities where
  "implemented_capabilities = fold capabilities_bitor
     [TEXT_CLIPBOARD_SYNC, AUTHENTICATED_UDP_REGISTRATION, STREAM_OPTIONS, HOST_STATUS, SESSION_ENDED,
      GUEST_PERMISSIONS, SECURE_ATTENTION, RTT_PROBE, CLIPBOARD_IMAGE, PAIRING_TRUST] STREAM_CONFIGURATION"

record session_info =
  si_host_status :: "host_status option"
  si_permissions :: "guest_permissions option"
  si_ended :: "session_end_reason option"
  si_secure_attention_response :: "secure_attention_response option"
  si_pairing_trust :: "pairing_trust option"

record parity_state =
  ps_info :: session_info
  ps_rtt_latest :: "duration option"
  ps_epoch :: instant
  ps_probe :: "(u64 \<times> instant) option"
  ps_sas_pending :: "u32 option"
  ps_next_sas :: u32
  ps_images :: image_assembly
  ps_clipboard_enabled :: bool
  ps_completed_image :: "bytes option"

record stream_state =
  ss_host_supports_stream_options :: bool
  ss_active :: "stream_options_active option"
  ss_displays :: "host_display list"
  ss_policy :: "host_policy option"
  ss_last_reject :: "rstring option"

definition stream_state_default :: stream_state where
  "stream_state_default = \<lparr>ss_host_supports_stream_options = False, ss_active = None, ss_displays = [],
     ss_policy = None, ss_last_reject = None\<rparr>"

record cursor_state =
  cur_x :: f32
  cur_y :: f32
  cur_cursor_type :: u8

definition cursor_state_update :: "cursor_update \<Rightarrow> cursor_state" where
  "cursor_state_update u = \<lparr>cur_x = f32_clamp (cu_x u) f32_zero f32_one,
     cur_y = f32_clamp (cu_y u) f32_zero f32_one, cur_cursor_type = cu_cursor_type u\<rparr>"

record pairing_record =
  pr_id :: rstring
  pr_name :: rstring
  pr_key :: bytes
  pr_trust :: pairing_trust

text \<open>\<open>ClientSession\<close> with its \<open>SessionStateInner\<close>.\<close>

record client_session =
  cs_capabilities :: capabilities
  cs_client_name :: rstring
  cs_state :: session_state
  cs_next_tcp_sequence :: u32
  cs_next_udp_sequence :: u32
  cs_pairing :: "pairing_record option"
  cs_server :: "handshake option"
  cs_session_salt :: "bytes option"
  cs_frames :: frame_assembler
  cs_audio :: audio_reassembler
  cs_cursor :: cursor_state
  cs_stream_state :: stream_state
  cs_parity :: parity_state
  cs_image_sequence :: u32
  cs_last_input_ack :: "(u32 \<times> bool \<times> u8) option"
  cs_cancelled :: bool
  cs_udp_send :: "datagram_cipher option"
  cs_udp_receive :: "datagram_cipher option"
  cs_udp_registered :: bool

text \<open>The outcome of handing a packet to the TCP stream: the queue refuses it, or takes it and then
  flushing succeeds or fails.\<close>

datatype tcp_outcome = Refused tls_psk_error | Queued "tls_psk_error option"

text \<open>What the environment supplies. \<open>ce_tcp\<close> is \<open>None\<close> without a TCP stream.\<close>

record client_env =
  ce_unix_ms :: u64
  ce_now :: instant
  ce_tcp :: "(bytes \<Rightarrow> tcp_outcome) option"
  ce_image_decode :: image_decode

type_synonym 'a client_result = "client_session \<times> (session_error + 'a) \<times> bytes list"

abbreviation upd_parity :: "(parity_state \<Rightarrow> parity_state) \<Rightarrow> client_session \<Rightarrow> client_session" where
  "upd_parity f s \<equiv> s\<lparr>cs_parity := f (cs_parity s)\<rparr>"

abbreviation upd_info :: "(session_info \<Rightarrow> session_info) \<Rightarrow> client_session \<Rightarrow> client_session" where
  "upd_info f s \<equiv> upd_parity (\<lambda>p. p\<lparr>ps_info := f (ps_info p)\<rparr>) s"

abbreviation upd_stream :: "(stream_state \<Rightarrow> stream_state) \<Rightarrow> client_session \<Rightarrow> client_session" where
  "upd_stream f s \<equiv> s\<lparr>cs_stream_state := f (cs_stream_state s)\<rparr>"

text \<open>Running one operation after another, on success.\<close>

definition and_then :: "'a client_result \<Rightarrow> ('a \<Rightarrow> client_session \<Rightarrow> 'b client_result) \<Rightarrow> 'b client_result" where
  "and_then r f = (case r of
     (s, Inl e, out) \<Rightarrow> (s, Inl e, out)
   | (s, Inr x, out) \<Rightarrow> (case f x s of (s', r', out') \<Rightarrow> (s', r', out @ out')))"

section \<open>Capabilities and permissions\<close>

definition server_has :: "client_session \<Rightarrow> capabilities \<Rightarrow> bool" where
  "server_has s capability \<longleftrightarrow>
     (case cs_server s of Some h \<Rightarrow> capabilities_contains (hs_capabilities h) capability | None \<Rightarrow> False)"

definition negotiated :: "client_session \<Rightarrow> capabilities \<Rightarrow> bool" where
  "negotiated s capability \<longleftrightarrow> capabilities_contains (cs_capabilities s) capability \<and> server_has s capability"

definition no_permissions :: guest_permissions where
  "no_permissions = \<lparr>gp_keyboard = False, gp_mouse = False, gp_gamepad = False, gp_clipboard = False,
     gp_audio = False\<rparr>"

definition permissions_locked :: "client_session \<Rightarrow> guest_permissions option" where
  "permissions_locked s =
     (if capabilities_contains (cs_capabilities s) GUEST_PERMISSIONS \<and> server_has s GUEST_PERMISSIONS
      then Some (case si_permissions (ps_info (cs_parity s)) of Some p \<Rightarrow> p | None \<Rightarrow> no_permissions)
      else map_option (\<lambda>p. \<lparr>gp_keyboard = hp_allow_input p, gp_mouse = hp_allow_input p, gp_gamepad = True,
                          gp_clipboard = hp_allow_clipboard p, gp_audio = True\<rparr>)
             (ss_policy (cs_stream_state s)))"

definition effective_permissions :: "client_session \<Rightarrow> guest_permissions option" where
  "effective_permissions s = permissions_locked s"

definition clipboard_allowed :: "client_session \<Rightarrow> bool" where
  "clipboard_allowed s \<longleftrightarrow> ps_clipboard_enabled (cs_parity s) \<and>
     (case permissions_locked s of Some p \<Rightarrow> gp_clipboard p | None \<Rightarrow> True)"

section \<open>Sending\<close>

definition send_packet :: "client_env \<Rightarrow> packet_type \<Rightarrow> bytes \<Rightarrow> client_session \<Rightarrow> unit client_result" where
  "send_packet env ty payload s =
     (let sequence = cs_next_tcp_sequence s + 1;
          header = packet_header_new ty sequence (ucast (ce_unix_ms env)) 0
      in case encode_packet_header header of
           Inl e \<Rightarrow> (s, Inl (ProtocolError e), [])
         | Inr packet \<Rightarrow>
             let packet = packet @ payload
             in case ce_tcp env of
                  None \<Rightarrow> (s, Inl NotReady, [])
                | Some write \<Rightarrow>
                    (case write packet of
                       Refused e \<Rightarrow> (s, Inl (TlsError e), [])
                     | Queued (Some e) \<Rightarrow> (s, Inl (TlsError e), [packet])
                     | Queued None \<Rightarrow> (s\<lparr>cs_next_tcp_sequence := sequence\<rparr>, Inr (), [packet])))"

definition send_ready_packet :: "client_env \<Rightarrow> packet_type \<Rightarrow> bytes \<Rightarrow> client_session \<Rightarrow> unit client_result" where
  "send_ready_packet env ty payload s =
     (if cs_state s \<noteq> Ready then (s, Inl NotReady, []) else send_packet env ty payload s)"

fun is_keyboard_input :: "input_event_type \<Rightarrow> bool" where
  "is_keyboard_input KeyDown = True"
| "is_keyboard_input KeyUp = True"
| "is_keyboard_input FlagsChanged = True"
| "is_keyboard_input UnicodeChar = True"
| "is_keyboard_input _ = False"

fun is_gamepad_input :: "input_event_type \<Rightarrow> bool" where
  "is_gamepad_input GamepadAxis = True"
| "is_gamepad_input GamepadButtonDown = True"
| "is_gamepad_input GamepadButtonUp = True"
| "is_gamepad_input _ = False"

definition input_allowed :: "guest_permissions \<Rightarrow> input_event_type \<Rightarrow> bool" where
  "input_allowed p ty =
     (if ty = InputReset then True
      else if is_keyboard_input ty then gp_keyboard p
      else if is_gamepad_input ty then gp_gamepad p
      else gp_mouse p)"

definition send_input :: "client_env \<Rightarrow> input_event \<Rightarrow> client_session \<Rightarrow> unit client_result" where
  "send_input env event s =
     (if \<exists>p. permissions_locked s = Some p \<and> \<not> input_allowed p (ie_event_type event)
      then (s, Inl PermissionDeniedError, [])
      else case encode_input_event event of
             Inl e \<Rightarrow> (s, Inl (ProtocolError e), [])
           | Inr payload \<Rightarrow> send_ready_packet env InputEvent_Pkt payload s)"

definition is_clipboard_message :: "control_message \<Rightarrow> bool" where
  "is_clipboard_message control =
     (case control of ClipboardSyncUpdate _ \<Rightarrow> True | ClipboardImageChunk _ \<Rightarrow> True | _ \<Rightarrow> False)"

definition send_control :: "client_env \<Rightarrow> control_message \<Rightarrow> client_session \<Rightarrow> unit client_result" where
  "send_control env control s =
     (if \<exists>capability. required_capability (message_type control) = Some capability \<and> \<not> negotiated s capability
      then (s, Inl UnsupportedError, [])
      else if is_clipboard_message control \<and> \<not> clipboard_allowed s then (s, Inl PermissionDeniedError, [])
      else case encode_control_message control of
             Inl e \<Rightarrow> (s, Inl (ProtocolError e), [])
           | Inr payload \<Rightarrow> send_ready_packet env Control_Pkt payload s)"

definition request_secure_attention :: "client_env \<Rightarrow> client_session \<Rightarrow> u32 client_result" where
  "request_secure_attention env s =
     (if \<not> negotiated s SECURE_ATTENTION then (s, Inl UnsupportedError, [])
      else if ps_sas_pending (cs_parity s) \<noteq> None then (s, Inl NotReady, [])
      else if ps_next_sas (cs_parity s) = - 1 then (s, Inl UnsupportedError, [])
      else
      let request = ps_next_sas (cs_parity s) + 1;
          s = upd_parity (\<lambda>p. p\<lparr>ps_next_sas := request, ps_sas_pending := Some request\<rparr>) s
      in case send_control env (SecureAttentionRequest \<lparr>sareq_request_id = request\<rparr>) s of
           (s, Inl e, out) \<Rightarrow> (upd_parity (\<lambda>p. p\<lparr>ps_sas_pending := None\<rparr>) s, Inl e, out)
         | (s, Inr _, out) \<Rightarrow> (s, Inr request, out))"

definition set_clipboard_enabled :: "bool \<Rightarrow> client_session \<Rightarrow> client_session" where
  "set_clipboard_enabled enabled s =
     upd_parity (\<lambda>p. let p = p\<lparr>ps_clipboard_enabled := enabled\<rparr>
       in if \<not> enabled then p\<lparr>ps_images := image_assembly_discard (ps_images p), ps_completed_image := None\<rparr> else p) s"

definition take_clipboard_image :: "client_session \<Rightarrow> client_session \<times> bytes option" where
  "take_clipboard_image s =
     (upd_parity (\<lambda>p. p\<lparr>ps_completed_image := None\<rparr>) s, ps_completed_image (cs_parity s))"

text \<open>The loop over the chunks stops at the first that may not or cannot be sent.\<close>

primrec send_image_chunks :: "client_env \<Rightarrow> clipboard_image_chunk list \<Rightarrow> client_session \<Rightarrow> unit client_result" where
  "send_image_chunks env [] s = (s, Inr (), [])"
| "send_image_chunks env (chunk # later) s =
     (if \<not> clipboard_allowed s then (s, Inl PermissionDeniedError, [])
      else and_then (send_control env (ClipboardImageChunk chunk) s) (\<lambda>_. send_image_chunks env later))"

definition send_clipboard_image :: "client_env \<Rightarrow> bytes \<Rightarrow> client_session \<Rightarrow> unit client_result" where
  "send_clipboard_image env png s =
     (if \<not> negotiated s CLIPBOARD_IMAGE then (s, Inl UnsupportedError, [])
      else if \<not> clipboard_allowed s then (s, Inl PermissionDeniedError, [])
      else if length png > unat MAX_CLIPBOARD_IMAGE_BYTES \<or> \<not> starts_with png PNG_SIGNATURE
      then (s, Inl InvalidClipboardImage, [])
      else if cs_image_sequence s = - 1 then (s, Inl UnsupportedError, [])
      else
      let tid = cs_image_sequence s + 1
      in send_image_chunks env (image_chunks tid png) (s\<lparr>cs_image_sequence := tid\<rparr>))"

definition send_clipboard_text :: "client_env \<Rightarrow> rstring \<Rightarrow> client_session \<Rightarrow> unit client_result" where
  "send_clipboard_text env text =
     send_control env (ClipboardSyncUpdate \<lparr>csu_request_id = 0, csu_direction = clipboard_sync_direction.ClientToHost,
       csu_origin = LocalPasteboard, csu_text = text\<rparr>)"

definition send_bitrate_adjust :: "client_env \<Rightarrow> i32 \<Rightarrow> client_session \<Rightarrow> unit client_result" where
  "send_bitrate_adjust env target = send_control env (BitrateAdjust \<lparr>ba_target_bitrate = target\<rparr>)"

definition request_stream_config :: "client_env \<Rightarrow> u32 \<Rightarrow> stream_configuration \<Rightarrow> client_session \<Rightarrow> unit client_result" where
  "request_stream_config env request desired =
     send_control env (StreamConfigRequest \<lparr>screq_request_id = request, screq_desired = desired\<rparr>)"

definition request_stream_options :: "client_env \<Rightarrow> stream_options_request \<Rightarrow> client_session \<Rightarrow> unit client_result" where
  "request_stream_options env options = send_control env (StreamOptionsRequest options)"

definition send_rtt_probe :: "client_env \<Rightarrow> client_session \<Rightarrow> unit client_result" where
  "send_rtt_probe env s =
     (if \<not> negotiated s RTT_PROBE then (s, Inr (), [])
      else if \<exists>t sent. ps_probe (cs_parity s) = Some (t, sent) \<and> ce_now env - sent < from_secs 10 then (s, Inr (), [])
      else
      let timestamp = word_of_nat ((ce_now env - ps_epoch (cs_parity s)) div 1000);
          s = upd_parity (\<lambda>p. p\<lparr>ps_probe := Some (timestamp, ce_now env)\<rparr>) s
      in send_control env (RttPing \<lparr>rtt_timestamp_us = timestamp\<rparr>) s)"

text \<open>Datagrams: \<open>send_udp\<close> and the registration ping; the datagram handed to the socket is returned.\<close>

definition seal_with :: "aead_enc \<Rightarrow> packet_header \<Rightarrow> bytes \<Rightarrow> client_session \<Rightarrow> client_session \<times> (session_error + bytes)" where
  "seal_with enc header payload s =
     (case cs_udp_send s of
        None \<Rightarrow> (s, Inl NotReady)
      | Some cipher \<Rightarrow>
          (case seal_datagram enc cipher header payload of
             (cipher, Inl e) \<Rightarrow> (s\<lparr>cs_udp_send := Some cipher\<rparr>, Inl (DatagramError e))
           | (cipher, Inr datagram) \<Rightarrow> (s\<lparr>cs_udp_send := Some cipher\<rparr>, Inr datagram)))"

definition send_udp_registration :: "aead_enc \<Rightarrow> client_env \<Rightarrow> client_session \<Rightarrow> client_session \<times> (session_error + bytes)" where
  "send_udp_registration enc env s =
     seal_with enc (packet_header_new Ping_Pkt 0 (ucast (ce_unix_ms env)) 0) [] s"

definition send_udp :: "aead_enc \<Rightarrow> client_env \<Rightarrow> packet_type \<Rightarrow> bytes \<Rightarrow> client_session
    \<Rightarrow> client_session \<times> (session_error + bytes)" where
  "send_udp enc env ty payload s =
     (if cs_state s \<noteq> Ready then (s, Inl NotReady)
      else
      let s = s\<lparr>cs_next_udp_sequence := cs_next_udp_sequence s + 1\<rparr>
      in seal_with enc (packet_header_new ty (cs_next_udp_sequence s) (ucast (ce_unix_ms env)) 0) payload s)"

section \<open>Receiving\<close>

datatype session_event =
    FrameEvent assembled_frame
  | AudioEvent bytes
  | CursorEvent cursor_state
  | ClipboardEvent rstring
  | StreamConfigEvent control_message
  | InputAckEvent u32 bool u8
  | PingEvent
  | Ignored

text \<open>\<open>ParityState::pong\<close>. The source turns the round trip into a \<open>f64\<close> and averages it; the model
  keeps the exact duration of the latest one.\<close>

definition parity_pong :: "u64 \<Rightarrow> instant \<Rightarrow> parity_state \<Rightarrow> parity_state" where
  "parity_pong timestamp now p =
     (case ps_probe p of
        Some (expected, sent) \<Rightarrow>
          if expected = timestamp \<and> now \<ge> sent \<and> now - sent \<le> from_secs 10
          then p\<lparr>ps_rtt_latest := Some (now - sent), ps_probe := None\<rparr> else p
      | None \<Rightarrow> p)"

definition reset_input :: input_event where
  "reset_input = (unicode_char 0 f32_zero f32_zero)\<lparr>ie_event_type := InputReset\<rparr>"

definition discard_images :: "parity_state \<Rightarrow> parity_state" where
  "discard_images p = p\<lparr>ps_images := image_assembly_discard (ps_images p), ps_completed_image := None\<rparr>"

definition permissions_removed :: "guest_permissions option \<Rightarrow> guest_permissions \<Rightarrow> bool" where
  "permissions_removed old p =
     (case old of
        None \<Rightarrow> False
      | Some old \<Rightarrow> gp_keyboard old \<and> \<not> gp_keyboard p \<or> gp_mouse old \<and> \<not> gp_mouse p \<or>
                    gp_gamepad old \<and> \<not> gp_gamepad p)"

definition client_interrupt :: "client_session \<Rightarrow> client_session" where
  "client_interrupt s = s\<lparr>cs_cancelled := True\<rparr>"

definition grant_permissions :: "guest_permissions \<Rightarrow> client_session \<Rightarrow> client_session" where
  "grant_permissions permissions s =
     (let s = upd_info (\<lambda>i. i\<lparr>si_permissions := Some permissions\<rparr>) s;
          s = upd_stream (\<lambda>t. t\<lparr>ss_policy := Some \<lparr>hp_allow_input = gp_keyboard permissions \<and> gp_mouse permissions,
                hp_allow_clipboard = gp_clipboard permissions\<rparr>\<rparr>) s
      in if \<not> gp_clipboard permissions then upd_parity discard_images s else s)"

definition handle_guest_permissions :: "client_env \<Rightarrow> guest_permissions \<Rightarrow> client_session \<Rightarrow> session_event client_result" where
  "handle_guest_permissions env permissions s =
     (let removed = permissions_removed (si_permissions (ps_info (cs_parity s))) permissions;
          s = grant_permissions permissions s
      in and_then (if removed then send_input env reset_input s else (s, Inr (), []))
           (\<lambda>_ s. (s, Inr (StreamConfigEvent (GuestPermissions permissions)), [])))"

definition end_session :: "session_ended \<Rightarrow> client_session \<Rightarrow> client_session" where
  "end_session ended s =
     (let s = upd_info (\<lambda>i. i\<lparr>si_ended := Some (se_reason ended)\<rparr>) s;
          s = upd_parity discard_images s
      in s\<lparr>cs_frames := assembler_clear (cs_frames s), cs_audio := audio_clear (cs_audio s)\<rparr>)"

definition handle_session_ended :: "client_env \<Rightarrow> session_ended \<Rightarrow> client_session \<Rightarrow> session_event client_result" where
  "handle_session_ended env ended s =
     (let (s, r, out) = send_input env reset_input (end_session ended s);
          s = client_interrupt s
      in (s\<lparr>cs_state := Disconnected\<rparr>, Inr (StreamConfigEvent (SessionEnded ended)), out))"

definition handle_clipboard_image :: "client_env \<Rightarrow> clipboard_image_chunk \<Rightarrow> client_session \<Rightarrow> session_event client_result" where
  "handle_clipboard_image env chunk s =
     (if \<not> ps_clipboard_enabled (cs_parity s) \<or> (\<exists>p. permissions_locked s = Some p \<and> \<not> gp_clipboard p)
      then (s, Inl PermissionDeniedError, [])
      else case image_assembly_push (ce_image_decode env) chunk (ce_now env) (ps_images (cs_parity s)) of
             (images, Inl e) \<Rightarrow> (upd_parity (\<lambda>p. p\<lparr>ps_images := images\<rparr>) s, Inl e, [])
           | (images, Inr None) \<Rightarrow> (upd_parity (\<lambda>p. p\<lparr>ps_images := images\<rparr>) s, Inr Ignored, [])
           | (images, Inr (Some png)) \<Rightarrow>
               (upd_parity (\<lambda>p. p\<lparr>ps_images := images, ps_completed_image := Some png\<rparr>) s, Inr Ignored, []))"

definition handle_clipboard_text :: "clipboard_sync_update \<Rightarrow> client_session \<Rightarrow> session_event client_result" where
  "handle_clipboard_text update s =
     (let s = upd_parity discard_images s
      in if \<not> ps_clipboard_enabled (cs_parity s) \<or> (\<exists>p. permissions_locked s = Some p \<and> \<not> gp_clipboard p)
         then (s, Inr Ignored, [])
         else (s, Inr (ClipboardEvent (csu_text update)), []))"

text \<open>The match of \<open>handle_packet\<close> on a control message that passed the capability check.\<close>

definition handle_control :: "client_env \<Rightarrow> control_message \<Rightarrow> client_session \<Rightarrow> session_event client_result" where
  "handle_control env message s =
     (case message of
        HostStatus status \<Rightarrow>
          (upd_info (\<lambda>i. i\<lparr>si_host_status := Some status\<rparr>) s, Inr (StreamConfigEvent message), [])
      | GuestPermissions permissions \<Rightarrow> handle_guest_permissions env permissions s
      | SessionEnded ended \<Rightarrow> handle_session_ended env ended s
      | SecureAttentionResponse response \<Rightarrow>
          if ps_sas_pending (cs_parity s) = Some (sares_request_id response)
          then (upd_info (\<lambda>i. i\<lparr>si_secure_attention_response := Some response\<rparr>)
                  (upd_parity (\<lambda>p. p\<lparr>ps_sas_pending := None\<rparr>) s), Inr (StreamConfigEvent message), [])
          else (s, Inr Ignored, [])
      | RttPong probe \<Rightarrow> (upd_parity (parity_pong (rtt_timestamp_us probe) (ce_now env)) s, Inr Ignored, [])
      | ClipboardImageChunk chunk \<Rightarrow> handle_clipboard_image env chunk s
      | Ping \<Rightarrow> and_then (send_control env Pong s) (\<lambda>_ s. (s, Inr PingEvent, []))
      | ClipboardSyncUpdate update \<Rightarrow> handle_clipboard_text update s
      | InputAck ack \<Rightarrow>
          (s\<lparr>cs_last_input_ack := Some (ia_sequence ack, ia_success ack, ia_error_code ack)\<rparr>,
           Inr (InputAckEvent (ia_sequence ack) (ia_success ack) (ia_error_code ack)), [])
      | StreamOptionsActive active \<Rightarrow>
          (upd_stream (\<lambda>t. t\<lparr>ss_active := Some active\<rparr>) s, Inr (StreamConfigEvent message), [])
      | HostDisplayList list \<Rightarrow>
          (upd_stream (\<lambda>t. t\<lparr>ss_displays := hdl_displays list\<rparr>) s, Inr (StreamConfigEvent message), [])
      | HostPolicy policy \<Rightarrow>
          (if \<not> capabilities_contains (cs_capabilities s) GUEST_PERMISSIONS \<or> \<not> server_has s GUEST_PERMISSIONS
           then upd_stream (\<lambda>t. t\<lparr>ss_policy := Some policy\<rparr>) s else s,
           Inr (StreamConfigEvent message), [])
      | StreamConfigReject reject \<Rightarrow>
          (upd_stream (\<lambda>t. t\<lparr>ss_last_reject := Some (scrj_message reject)\<rparr>) s, Inr (StreamConfigEvent message), [])
      | StreamConfigResponse _ \<Rightarrow> (s, Inr (StreamConfigEvent message), [])
      | StreamConfigError _ \<Rightarrow> (s, Inr (StreamConfigEvent message), [])
      | _ \<Rightarrow> (s, Inr Ignored, []))"

definition assembled :: "frame_assembler \<times> assembly_result \<Rightarrow> client_session \<Rightarrow> session_event client_result" where
  "assembled r s =
     (case r of
        (frames, Inl e) \<Rightarrow> (s\<lparr>cs_frames := frames\<rparr>, Inl (SessionIo IoInvalidData), [])
      | (frames, Inr frame) \<Rightarrow>
          (s\<lparr>cs_frames := fst (take_completed_started_at frames)\<rparr>,
           Inr (case frame of None \<Rightarrow> Ignored | Some f \<Rightarrow> FrameEvent f), []))"

text \<open>\<open>handle_packet\<close>; \<open>from_udp\<close> is \<open>Some\<close> of the time of reception for an authenticated datagram.\<close>

definition handle_packet :: "client_env \<Rightarrow> packet_header \<Rightarrow> bytes \<Rightarrow> instant option \<Rightarrow> client_session \<Rightarrow> session_event client_result" where
  "handle_packet env header payload from_udp s =
     (if cs_state s \<noteq> Ready then (s, Inl NotReady, [])
      else case (ph_packet_type header, from_udp) of
        (FrameHeader_Pkt, Some at) \<Rightarrow>
          (case decode_frame_header payload of
             Inl e \<Rightarrow> (s, Inl (ProtocolError e), [])
           | Inr h \<Rightarrow> assembled (push_header h (ph_timestamp_ms header) at (cs_frames s)) s)
      | (FrameChunk_Pkt, Some at) \<Rightarrow>
          (case decode_frame_chunk payload of
             Inl e \<Rightarrow> (s, Inl (ProtocolError e), [])
           | Inr c \<Rightarrow> assembled (push_chunk c at (cs_frames s)) s)
      | (AudioFrame_Pkt, Some at) \<Rightarrow>
          if \<exists>p. permissions_locked s = Some p \<and> \<not> gp_audio p then (s, Inr Ignored, [])
          else (case decode_audio_fragment payload of
                  Inl e \<Rightarrow> (s, Inl (ProtocolError e), [])
                | Inr fragment \<Rightarrow>
                    (case audio_push fragment (cs_audio s) of
                       (audio, data) \<Rightarrow> (s\<lparr>cs_audio := audio\<rparr>,
                          Inr (case data of None \<Rightarrow> Ignored | Some d \<Rightarrow> AudioEvent d), [])))
      | (CursorUpdate_Pkt, Some at) \<Rightarrow>
          (case decode_cursor_update payload of
             Inl e \<Rightarrow> (s, Inl (ProtocolError e), [])
           | Inr u \<Rightarrow> (s\<lparr>cs_cursor := cursor_state_update u\<rparr>, Inr (CursorEvent (cursor_state_update u)), []))
      | (Ping_Pkt, Some at) \<Rightarrow> (s, Inr PingEvent, [])
      | (Ping_Pkt, None) \<Rightarrow> and_then (send_control env Pong s) (\<lambda>_ s. (s, Inr PingEvent, []))
      | (Control_Pkt, _) \<Rightarrow>
          (case decode_control_message payload of
             Inl e \<Rightarrow> (s, Inl (ProtocolError e), [])
           | Inr message \<Rightarrow>
               if \<exists>capability. required_capability (message_type message) = Some capability \<and> \<not> negotiated s capability
               then (s, Inl UnsupportedError, [])
               else handle_control env message s)
      | _ \<Rightarrow> (s, Inr Ignored, []))"

definition receive_tcp_event :: "client_env \<Rightarrow> bytes \<Rightarrow> client_session \<Rightarrow> session_event client_result" where
  "receive_tcp_event env frame s =
     (if cs_cancelled s then (s, Inl CancelledError, [])
      else if length frame < packet_header_SIZE then (s, Inl (SessionIo IoInvalidData), [])
      else case decode_packet_header (take packet_header_SIZE frame) of
             Inl e \<Rightarrow> (s, Inl (ProtocolError e), [])
           | Inr header \<Rightarrow> handle_packet env header (drop packet_header_SIZE frame) None s)"

definition receive_udp_event :: "aead_dec \<Rightarrow> client_env \<Rightarrow> bytes \<Rightarrow> client_session \<Rightarrow> session_event client_result" where
  "receive_udp_event dec env datagram s =
     (case cs_udp_receive s of
        None \<Rightarrow> (s, Inl NotReady, [])
      | Some cipher \<Rightarrow>
          (case open_datagram dec cipher datagram of
             (cipher, Inl e) \<Rightarrow> (s\<lparr>cs_udp_receive := Some cipher\<rparr>, Inl (DatagramError e), [])
           | (cipher, Inr (header, payload)) \<Rightarrow>
               handle_packet env header payload (Some (ce_now env))
                 (s\<lparr>cs_udp_receive := Some cipher, cs_udp_registered := True\<rparr>)))"

section \<open>Connecting and disconnecting\<close>

definition disconnect_state :: "client_session \<Rightarrow> client_session" where
  "disconnect_state s =
     (let s = s\<lparr>cs_state := Disconnected, cs_frames := assembler_clear (cs_frames s), cs_audio := audio_clear (cs_audio s)\<rparr>;
          s = upd_parity (\<lambda>p. (discard_images p)\<lparr>ps_probe := None\<rparr>) s
      in if \<exists>pairing. cs_pairing s = Some pairing \<and> pr_trust pairing = GuestOnce then s\<lparr>cs_pairing := None\<rparr> else s)"

definition client_disconnect :: "client_session \<Rightarrow> client_session" where
  "client_disconnect s = (disconnect_state (client_interrupt s))\<lparr>cs_udp_send := None, cs_udp_receive := None\<rparr>"

text \<open>The reset of the session state at the start of \<open>connect_with_psk\<close>.\<close>

definition connect_reset :: "client_session \<Rightarrow> client_session" where
  "connect_reset s =
     (let s = s\<lparr>cs_state := Connecting, cs_frames := assembler_clear (cs_frames s)\<rparr>;
          s = upd_parity (\<lambda>p. p\<lparr>ps_probe := None, ps_sas_pending := None, ps_images := image_assembly_default\<rparr>) s;
          s = upd_info (\<lambda>i. i\<lparr>si_permissions := None, si_host_status := None\<rparr>) s
      in s\<lparr>cs_stream_state := stream_state_default\<rparr>)"

text \<open>The permissions a session with \<open>GUEST_PERMISSIONS\<close> works under.\<close>

abbreviation granted :: "client_session \<Rightarrow> guest_permissions option" where
  "granted s \<equiv> si_permissions (ps_info (cs_parity s))"

lemma negotiated_permissions:
  "negotiated s GUEST_PERMISSIONS \<Longrightarrow>
     permissions_locked s = Some (case granted s of Some p \<Rightarrow> p | None \<Rightarrow> no_permissions)"
  by (simp add: permissions_locked_def negotiated_def)

section \<open>A sample\<close>

definition sample_session :: client_session where
  "sample_session = \<lparr>cs_capabilities = implemented_capabilities, cs_client_name = [], cs_state = Ready,
     cs_next_tcp_sequence = 0, cs_next_udp_sequence = 0, cs_pairing = None,
     cs_server = Some \<lparr>hs_name = [], hs_width = 0, hs_height = 0, hs_scale = f32_one, hs_version = PROTOCOL_VERSION,
       hs_capabilities = GUEST_PERMISSIONS, hs_pairing_id = [], hs_session_salt = replicate 16 0\<rparr>,
     cs_session_salt = None, cs_frames = assembler_default, cs_audio = audio_reassembler_default,
     cs_cursor = \<lparr>cur_x = f32_zero, cur_y = f32_zero, cur_cursor_type = 0\<rparr>, cs_stream_state = stream_state_default,
     cs_parity = \<lparr>ps_info = \<lparr>si_host_status = None, si_permissions = None, si_ended = None,
         si_secure_attention_response = None, si_pairing_trust = None\<rparr>,
       ps_rtt_latest = None, ps_epoch = 0, ps_probe = None, ps_sas_pending = None, ps_next_sas = 0,
       ps_images = image_assembly_default, ps_clipboard_enabled = True, ps_completed_image = None\<rparr>,
     cs_image_sequence = 0, cs_last_input_ack = None, cs_cancelled = False, cs_udp_send = None,
     cs_udp_receive = None, cs_udp_registered = False\<rparr>"

definition sample_env :: client_env where
  "sample_env = \<lparr>ce_unix_ms = 0, ce_now = 0, ce_tcp = Some (\<lambda>packet. Queued None), ce_image_decode = (\<lambda>w h m bs. True)\<rparr>"

lemma sample_negotiated: "negotiated sample_session GUEST_PERMISSIONS"
  by (simp add: negotiated_def server_has_def sample_session_def implemented_capabilities_def
      capabilities_contains_def capabilities_bitor_def STREAM_CONFIGURATION_def TEXT_CLIPBOARD_SYNC_def
      AUTHENTICATED_UDP_REGISTRATION_def STREAM_OPTIONS_def HOST_STATUS_def SESSION_ENDED_def
      GUEST_PERMISSIONS_def SECURE_ATTENTION_def RTT_PROBE_def CLIPBOARD_IMAGE_def PAIRING_TRUST_def)

text \<open>Findings. An image chunk that arrives while the user has the clipboard switched off is an error,
  and not one that is worth a reconnection, so it ends the session; a text update is ignored.\<close>

lemma disabled_clipboard_image_fatal:
  assumes "cs_state s = Ready" and "negotiated s CLIPBOARD_IMAGE" and "ph_packet_type h = Control_Pkt"
    and "decode_control_message payload = Inr (ClipboardImageChunk chunk)" and "\<not> ps_clipboard_enabled (cs_parity s)"
  shows "handle_packet env h payload None s = (s, Inl PermissionDeniedError, [])"
    and "\<not> should_reconnect PermissionDeniedError"
  using assms by (simp_all add: handle_packet_def handle_control_def handle_clipboard_image_def)

end
