(* ===== verification/Client_Threads.thy ===== *)
theory Client_Threads
  imports Client_Session "HOL-Library.Sublist"
begin

text \<open>
  The client session with many threads, \<open>maho-app/src/session.rs\<close>. A \<open>ClientSession\<close> is shared: the
  user interface sends input while the workers receive. Every access to the shared state is under a lock,
  but the operations take it several times and release it in between: \<open>send_input\<close> between the check of
  the permissions and \<open>send_ready_packet\<close>, which again takes it twice, \<open>send_control\<close> between the
  capability, the clipboard and the sending, \<open>handle_packet\<close> before it replies.

  An operation is a \<open>task\<close> here: a result, or a section of code under the lock followed by a task. A system
  is a session with the tasks of all threads, and whatever order their sections come in is a run of it;
  every section has an environment of its own. \<open>clipboard_send\<close>, the lock of the ciphers across
  \<open>handle_packet\<close> and the lock of the runtime's owner only remove orders, and are left out. A run is one
  connection: \<open>connect_with_psk\<close>, which forgets the permissions and negotiates anew, is not among the operations.
\<close>

section \<open>Tasks\<close>

text \<open>What a section does that others see: a packet handed to the TCP stream, and the permissions of
  the host that took effect.\<close>

datatype client_effect = PacketSent bytes | Granted guest_permissions

datatype 'a task =
    Finished "session_error + 'a"
  | Locked "client_env \<Rightarrow> client_session \<Rightarrow> client_session \<times> client_effect list \<times> 'a task"

text \<open>\<open>after\<close> goes on with the result, whatever it is; \<open>followed_by\<close> is the operator \<open>?\<close>.\<close>

primrec after :: "'a task \<Rightarrow> (session_error + 'a \<Rightarrow> 'b task) \<Rightarrow> 'b task" where
  "after (Finished r) k = k r"
| "after (Locked f) k = Locked (\<lambda>env s. map_prod id (map_prod id (\<lambda>t. after t k)) (f env s))"

definition followed_by :: "'a task \<Rightarrow> ('a \<Rightarrow> 'b task) \<Rightarrow> 'b task" where
  "followed_by t k = after t (\<lambda>r. case r of Inl e \<Rightarrow> Finished (Inl e) | Inr x \<Rightarrow> k x)"

definition check :: "(client_session \<Rightarrow> session_error option) \<Rightarrow> 'a task \<Rightarrow> 'a task" where
  "check refused t = Locked (\<lambda>env s. (s, [], case refused s of Some e \<Rightarrow> Finished (Inl e) | None \<Rightarrow> t))"

text \<open>A section that ends the operation, given as an operation of \<open>Client_Session\<close>.\<close>

definition last_section :: "'a client_result \<Rightarrow> client_session \<times> client_effect list \<times> 'a task" where
  "last_section r = (case r of (s, r, out) \<Rightarrow> (s, map PacketSent out, Finished r))"

section \<open>Sending\<close>

definition negotiated_check :: "capabilities \<Rightarrow> client_session \<Rightarrow> session_error option" where
  "negotiated_check capability s = (if \<not> negotiated s capability then Some UnsupportedError else None)"

definition clipboard_check :: "client_session \<Rightarrow> session_error option" where
  "clipboard_check s = (if \<not> clipboard_allowed s then Some PermissionDeniedError else None)"

definition ready_check :: "client_session \<Rightarrow> session_error option" where
  "ready_check s = (if cs_state s \<noteq> Ready then Some NotReady else None)"

definition input_check :: "input_event_type \<Rightarrow> client_session \<Rightarrow> session_error option" where
  "input_check ty s =
     (if \<exists>p. permissions_locked s = Some p \<and> \<not> input_allowed p ty then Some PermissionDeniedError else None)"

definition send_ready_packet_task :: "packet_type \<Rightarrow> bytes \<Rightarrow> unit task" where
  "send_ready_packet_task ty payload =
     check ready_check (Locked (\<lambda>env s. last_section (send_packet env ty payload s)))"

definition send_input_task :: "input_event \<Rightarrow> unit task" where
  "send_input_task event =
     check (input_check (ie_event_type event))
       (case encode_input_event event of
          Inl e \<Rightarrow> Finished (Inl (ProtocolError e))
        | Inr payload \<Rightarrow> send_ready_packet_task InputEvent_Pkt payload)"

definition send_control_task :: "control_message \<Rightarrow> unit task" where
  "send_control_task control =
     (let send = (case encode_control_message control of
            Inl e \<Rightarrow> Finished (Inl (ProtocolError e))
          | Inr payload \<Rightarrow> send_ready_packet_task Control_Pkt payload);
          send = (if is_clipboard_message control then check clipboard_check send else send)
      in case required_capability (message_type control) of
           Some capability \<Rightarrow> check (negotiated_check capability) send
         | None \<Rightarrow> send)"

definition request_secure_attention_task :: "u32 task" where
  "request_secure_attention_task =
     check (negotiated_check SECURE_ATTENTION) (Locked (\<lambda>env s.
       if ps_sas_pending (cs_parity s) \<noteq> None then (s, [], Finished (Inl NotReady))
       else if ps_next_sas (cs_parity s) = - 1 then (s, [], Finished (Inl UnsupportedError))
       else
       let request = ps_next_sas (cs_parity s) + 1
       in (upd_parity (\<lambda>p. p\<lparr>ps_next_sas := request, ps_sas_pending := Some request\<rparr>) s, [],
           after (send_control_task (SecureAttentionRequest \<lparr>sareq_request_id = request\<rparr>)) (\<lambda>r.
             case r of
               Inl e \<Rightarrow> Locked (\<lambda>env s. (upd_parity (\<lambda>p. p\<lparr>ps_sas_pending := None\<rparr>) s, [], Finished (Inl e)))
             | Inr _ \<Rightarrow> Finished (Inr request)))))"

primrec send_image_chunks_task :: "clipboard_image_chunk list \<Rightarrow> unit task" where
  "send_image_chunks_task [] = Finished (Inr ())"
| "send_image_chunks_task (chunk # later) =
     check clipboard_check
       (followed_by (send_control_task (ClipboardImageChunk chunk)) (\<lambda>_. send_image_chunks_task later))"

definition send_clipboard_image_task :: "bytes \<Rightarrow> unit task" where
  "send_clipboard_image_task png =
     check (negotiated_check CLIPBOARD_IMAGE) (check clipboard_check (
       if length png > unat MAX_CLIPBOARD_IMAGE_BYTES \<or> \<not> starts_with png PNG_SIGNATURE
       then Finished (Inl InvalidClipboardImage)
       else Locked (\<lambda>env s.
         if cs_image_sequence s = - 1 then (s, [], Finished (Inl UnsupportedError))
         else
         let tid = cs_image_sequence s + 1
         in (s\<lparr>cs_image_sequence := tid\<rparr>, [], send_image_chunks_task (image_chunks tid png)))))"

definition send_clipboard_text_task :: "rstring \<Rightarrow> unit task" where
  "send_clipboard_text_task text =
     send_control_task (ClipboardSyncUpdate \<lparr>csu_request_id = 0,
       csu_direction = clipboard_sync_direction.ClientToHost, csu_origin = LocalPasteboard, csu_text = text\<rparr>)"

definition send_rtt_probe_task :: "unit task" where
  "send_rtt_probe_task =
     Locked (\<lambda>env s. (s, [],
       if \<not> negotiated s RTT_PROBE then Finished (Inr ())
       else Locked (\<lambda>env s.
         if \<exists>t sent. ps_probe (cs_parity s) = Some (t, sent) \<and> ce_now env - sent < from_secs 10
         then (s, [], Finished (Inr ()))
         else
         let timestamp = word_of_nat ((ce_now env - ps_epoch (cs_parity s)) div 1000)
         in (upd_parity (\<lambda>p. p\<lparr>ps_probe := Some (timestamp, ce_now env)\<rparr>) s, [],
             send_control_task (RttPing \<lparr>rtt_timestamp_us = timestamp\<rparr>)))))"

section \<open>Receiving\<close>

definition pong_task :: "session_event task" where
  "pong_task = followed_by (send_control_task Pong) (\<lambda>_. Finished (Inr PingEvent))"

text \<open>The rest of \<open>handle_packet\<close> after the lock, for the messages that reply; all others are done in the
  section that reads them.\<close>

definition control_section :: "client_env \<Rightarrow> control_message \<Rightarrow> client_session \<Rightarrow>
    client_session \<times> client_effect list \<times> session_event task" where
  "control_section env message s =
     (case message of
        GuestPermissions permissions \<Rightarrow>
          (grant_permissions permissions s, [Granted permissions],
           followed_by
             (if permissions_removed (si_permissions (ps_info (cs_parity s))) permissions
              then send_input_task reset_input else Finished (Inr ()))
             (\<lambda>_. Finished (Inr (StreamConfigEvent (GuestPermissions permissions)))))
      | SessionEnded ended \<Rightarrow>
          (end_session ended s, [],
           after (send_input_task reset_input) (\<lambda>_.
             Locked (\<lambda>env s. (client_interrupt s, [],
             Locked (\<lambda>env s. (s\<lparr>cs_state := Disconnected\<rparr>, [],
               Finished (Inr (StreamConfigEvent (SessionEnded ended)))))))))
      | Ping \<Rightarrow> (s, [], pong_task)
      | _ \<Rightarrow> last_section (handle_control env message s))"

definition handle_packet_task :: "packet_header \<Rightarrow> bytes \<Rightarrow> instant option \<Rightarrow> session_event task" where
  "handle_packet_task header payload from_udp = Locked (\<lambda>env s.
     if cs_state s \<noteq> Ready then (s, [], Finished (Inl NotReady))
     else case (ph_packet_type header, from_udp) of
       (Ping_Pkt, None) \<Rightarrow> (s, [], pong_task)
     | (Control_Pkt, _) \<Rightarrow>
         (case decode_control_message payload of
            Inl e \<Rightarrow> (s, [], Finished (Inl (ProtocolError e)))
          | Inr message \<Rightarrow>
              if \<exists>capability. required_capability (message_type message) = Some capability \<and> \<not> negotiated s capability
              then (s, [], Finished (Inl UnsupportedError))
              else control_section env message s)
     | _ \<Rightarrow> last_section (handle_packet env header payload from_udp s))"

definition packet_task :: "bytes \<Rightarrow> session_event task" where
  "packet_task frame =
     (if length frame < packet_header_SIZE then Finished (Inl (SessionIo IoInvalidData))
      else case decode_packet_header (take packet_header_SIZE frame) of
             Inl e \<Rightarrow> Finished (Inl (ProtocolError e))
           | Inr header \<Rightarrow> handle_packet_task header (drop packet_header_SIZE frame) None)"

definition cancelled_check :: "client_session \<Rightarrow> session_error option" where
  "cancelled_check s = (if cs_cancelled s then Some CancelledError else None)"

text \<open>The flag is read before and after the frame is.\<close>

definition receive_tcp_task :: "bytes \<Rightarrow> session_event task" where
  "receive_tcp_task frame = check cancelled_check (check cancelled_check (packet_task frame))"

definition receive_udp_task :: "aead_dec \<Rightarrow> bytes \<Rightarrow> session_event task" where
  "receive_udp_task dec datagram = Locked (\<lambda>env s.
     case cs_udp_receive s of
       None \<Rightarrow> (s, [], Finished (Inl NotReady))
     | Some cipher \<Rightarrow>
         (case open_datagram dec cipher datagram of
            (cipher, Inl e) \<Rightarrow> (s\<lparr>cs_udp_receive := Some cipher\<rparr>, [], Finished (Inl (DatagramError e)))
          | (cipher, Inr (header, payload)) \<Rightarrow>
              (s\<lparr>cs_udp_receive := Some cipher, cs_udp_registered := True\<rparr>, [],
               handle_packet_task header payload (Some (ce_now env)))))"

definition disconnect_task :: "unit task" where
  "disconnect_task =
     Locked (\<lambda>env s. (client_interrupt s, [],
     Locked (\<lambda>env s. (disconnect_state s, [],
     Locked (\<lambda>env s. (s\<lparr>cs_udp_send := None\<rparr>, [],
     Locked (\<lambda>env s. (s\<lparr>cs_udp_receive := None\<rparr>, [], Finished (Inr ())))))))))"

section \<open>A thread alone\<close>

text \<open>With no other thread the sections of an operation come one after another. Here they share one
  environment, as the operations of \<open>Client_Session\<close> do, and the result is the same.\<close>

fun effect_packet :: "client_effect \<Rightarrow> bytes list" where
  "effect_packet (PacketSent packet) = [packet]"
| "effect_packet (Granted _) = []"

definition packets :: "client_effect list \<Rightarrow> bytes list" where
  "packets effects = concat (map effect_packet effects)"

lemma packets_simps [simp]:
  "packets [] = []" "packets (PacketSent p # effects) = p # packets effects"
  "packets (Granted g # effects) = packets effects" "packets (map PacketSent ps) = ps"
  by (simp_all add: packets_def) (induction ps; simp)

primrec alone :: "'a task \<Rightarrow> client_env \<Rightarrow> client_session \<Rightarrow> 'a client_result" where
  "alone (Finished r) = (\<lambda>env s. (s, r, []))"
| "alone (Locked f) = (\<lambda>env s.
     case map_prod id (map_prod id alone) (f env s) of
       (s, effects, run) \<Rightarrow> (case run env s of (s, r, out) \<Rightarrow> (s, r, packets effects @ out)))"

lemma task_induct [case_names Finished Locked]:
  assumes "\<And>r. P (Finished r)" and "\<And>f. (\<And>env s s' effects t. f env s = (s', effects, t) \<Longrightarrow> P t) \<Longrightarrow> P (Locked f)"
  shows "P t"
proof (induction t)
  case (Locked f)
  show ?case
  proof (rule assms(2))
    fix env s s' effects t
    assume eq: "f env s = (s', effects, t)"
    have "f env s \<in> range (f env)" by (rule rangeI)
    then show "P t" by (intro Locked [of "f env" "f env s" "(effects, t)"]) (simp_all add: eq)
  qed
qed (rule assms(1))

lemma alone_Locked:
  "alone (Locked f) env s =
     (case f env s of (s', effects, t) \<Rightarrow> (case alone t env s' of (s'', r, out) \<Rightarrow> (s'', r, packets effects @ out)))"
  by (simp split: prod.split)

lemma alone_after:
  "alone (after t k) env s =
     (case alone t env s of (s', r, out) \<Rightarrow> (case alone (k r) env s' of (s'', r', out') \<Rightarrow> (s'', r', out @ out')))"
proof (induction t arbitrary: s rule: task_induct)
  case (Locked f)
  obtain s' effects t where f: "f env s = (s', effects, t)" by (cases "f env s")
  show ?case using Locked [OF f, of s'] by (simp add: f split: prod.split)
qed (simp split: prod.split)

lemma alone_followed_by:
  "alone (followed_by t k) env s = and_then (alone t env s) (\<lambda>x. alone (k x) env)"
  by (simp add: followed_by_def alone_after and_then_def split: prod.split sum.split)

lemma alone_check:
  "alone (check refused t) env s = (case refused s of Some e \<Rightarrow> (s, Inl e, []) | None \<Rightarrow> alone t env s)"
  by (simp add: check_def split: option.split prod.split)

lemma alone_last_section:
  "alone (Locked (\<lambda>env s. last_section (f env s))) env s = f env s"
  by (simp add: last_section_def split: prod.split)

lemmas alone_simps = alone_after alone_followed_by alone_check alone_last_section
lemmas check_defs = negotiated_check_def clipboard_check_def ready_check_def input_check_def cancelled_check_def

lemma send_ready_packet_alone: "alone (send_ready_packet_task ty payload) env s = send_ready_packet env ty payload s"
  by (simp add: send_ready_packet_task_def send_ready_packet_def alone_simps check_defs del: alone.simps(2))

lemma send_input_alone: "alone (send_input_task event) env s = send_input env event s"
  by (auto simp: send_input_task_def send_input_def alone_simps check_defs send_ready_packet_alone split: sum.split)

lemma send_control_alone: "alone (send_control_task control) env s = send_control env control s"
  by (simp add: send_control_task_def send_control_def Let_def alone_simps check_defs send_ready_packet_alone
      split: sum.split option.split)

lemma send_image_chunks_alone: "alone (send_image_chunks_task later) env = send_image_chunks env later"
proof (induction later)
  case (Cons chunk later)
  show ?case by (rule ext) (simp add: alone_simps check_defs send_control_alone Cons)
qed (simp add: fun_eq_iff)

lemma send_clipboard_image_alone: "alone (send_clipboard_image_task png) env s = send_clipboard_image env png s"
  by (simp add: send_clipboard_image_task_def send_clipboard_image_def Let_def alone_simps check_defs
      send_image_chunks_alone split: prod.split)

lemma request_secure_attention_alone: "alone request_secure_attention_task env s = request_secure_attention env s"
  by (simp add: request_secure_attention_task_def request_secure_attention_def Let_def alone_simps check_defs
      send_control_alone split: prod.split sum.split)

lemma send_rtt_probe_alone: "alone send_rtt_probe_task env s = send_rtt_probe env s"
  by (auto simp: send_rtt_probe_task_def send_rtt_probe_def Let_def send_control_alone case_prod_unfold)

lemma pong_alone: "alone pong_task env s = and_then (send_control env Pong s) (\<lambda>_ s. (s, Inr PingEvent, []))"
  by (simp add: pong_task_def alone_simps send_control_alone)

lemma handle_control_alone: "alone (Locked (\<lambda>env. control_section env message)) env s = handle_control env message s"
proof (cases message)
  case (GuestPermissions permissions)
  then show ?thesis
    by (auto simp: control_section_def handle_control_def handle_guest_permissions_def Let_def and_then_def alone_followed_by
        send_input_alone case_prod_unfold split: sum.split)
next
  case (SessionEnded ended)
  then show ?thesis
    by (simp add: control_section_def handle_control_def handle_session_ended_def Let_def alone_after send_input_alone
        split: prod.split)
qed (simp_all add: control_section_def last_section_def handle_control_def pong_alone case_prod_unfold)

lemma handle_packet_alone: "alone (handle_packet_task header payload from_udp) env s = handle_packet env header payload from_udp s"
proof -
  note control = handle_control_alone [of _ env s, unfolded alone_Locked]
  show ?thesis
    by (cases "ph_packet_type header"; cases from_udp)
      (auto simp: handle_packet_task_def handle_packet_def last_section_def pong_alone control alone_Locked
        simp del: alone.simps(2) split: sum.split prod.split)
qed

lemma receive_tcp_alone: "alone (receive_tcp_task frame) env s = receive_tcp_event env frame s"
  by (simp add: receive_tcp_task_def receive_tcp_event_def packet_task_def alone_simps check_defs handle_packet_alone
      split: sum.split)

lemma receive_udp_alone: "alone (receive_udp_task dec datagram) env s = receive_udp_event dec env datagram s"
  by (simp add: receive_udp_task_def receive_udp_event_def handle_packet_alone split: option.split sum.split prod.split)

lemma disconnect_alone: "alone disconnect_task env s = (client_disconnect s, Inr (), [])"
  by (simp add: disconnect_task_def client_disconnect_def)

section \<open>Many threads\<close>

text \<open>\<open>ReceiveRuntime\<close> is the worker of \<open>spawn_tcp_generation\<close> with a frame it has read; it does not look
  at the flag. The other senders of the source are \<open>SendControl\<close> with their message.\<close>

datatype client_op =
    ReceiveTcp bytes
  | ReceiveRuntime bytes
  | ReceiveUdp bytes
  | SendInput input_event
  | SendControl control_message
  | SendClipboardText rstring
  | SendClipboardImage bytes
  | RequestSecureAttention
  | SetClipboardEnabled bool
  | TakeClipboardImage
  | SendRttProbe
  | Interrupt
  | Disconnect

definition ignoring :: "'a task \<Rightarrow> unit task" where
  "ignoring t = followed_by t (\<lambda>_. Finished (Inr ()))"

definition state_change :: "(client_session \<Rightarrow> client_session) \<Rightarrow> unit task" where
  "state_change f = Locked (\<lambda>env s. (f s, [], Finished (Inr ())))"

fun op_task :: "aead_dec \<Rightarrow> client_op \<Rightarrow> unit task" where
  "op_task dec (ReceiveTcp frame) = ignoring (receive_tcp_task frame)"
| "op_task dec (ReceiveRuntime frame) = ignoring (packet_task frame)"
| "op_task dec (ReceiveUdp datagram) = ignoring (receive_udp_task dec datagram)"
| "op_task dec (SendInput event) = send_input_task event"
| "op_task dec (SendControl control) = send_control_task control"
| "op_task dec (SendClipboardText txt) = send_clipboard_text_task txt"
| "op_task dec (SendClipboardImage png) = send_clipboard_image_task png"
| "op_task dec RequestSecureAttention = ignoring request_secure_attention_task"
| "op_task dec (SetClipboardEnabled enabled) = state_change (set_clipboard_enabled enabled)"
| "op_task dec TakeClipboardImage = state_change (\<lambda>s. fst (take_clipboard_image s))"
| "op_task dec SendRttProbe = send_rtt_probe_task"
| "op_task dec Interrupt = state_change client_interrupt"
| "op_task dec Disconnect = disconnect_task"

record client_system =
  sy_session :: client_session
  sy_tasks :: "unit task list"

text \<open>A thread begins an operation, or runs the next section of the operation with this number.\<close>

datatype client_event = Begin client_op | Section nat client_env

fun system_step :: "aead_dec \<Rightarrow> client_event \<Rightarrow> client_system \<Rightarrow> client_system \<times> client_effect list" where
  "system_step dec (Begin op) w = (w\<lparr>sy_tasks := sy_tasks w @ [op_task dec op]\<rparr>, [])"
| "system_step dec (Section i env) w =
     (if i < length (sy_tasks w) then
        (case sy_tasks w ! i of
           Finished r \<Rightarrow> (w, [])
         | Locked f \<Rightarrow>
             (case f env (sy_session w) of
                (s, effects, t) \<Rightarrow> (w\<lparr>sy_session := s, sy_tasks := (sy_tasks w)[i := t]\<rparr>, effects)))
      else (w, []))"

text \<open>A run from a session without threads, and the last permissions that took effect in it.\<close>

definition system_at :: "aead_dec \<Rightarrow> client_session \<Rightarrow> client_event list \<Rightarrow> client_system" where
  "system_at dec s xs = fold (\<lambda>x w. fst (system_step dec x w)) xs \<lparr>sy_session = s, sy_tasks = []\<rparr>"

abbreviation session_at :: "aead_dec \<Rightarrow> client_session \<Rightarrow> client_event list \<Rightarrow> client_session" where
  "session_at dec s xs \<equiv> sy_session (system_at dec s xs)"

fun new_grant :: "client_effect \<Rightarrow> guest_permissions option \<Rightarrow> guest_permissions option" where
  "new_grant (Granted p) g = Some p"
| "new_grant (PacketSent _) g = g"

primrec grant_after :: "aead_dec \<Rightarrow> client_event list \<Rightarrow> client_system \<Rightarrow> guest_permissions option \<Rightarrow> guest_permissions option" where
  "grant_after dec [] w g = g"
| "grant_after dec (x # xs) w g =
     (case system_step dec x w of (w', effects) \<Rightarrow> grant_after dec xs w' (fold new_grant effects g))"

definition last_grant :: "aead_dec \<Rightarrow> client_session \<Rightarrow> client_event list \<Rightarrow> guest_permissions" where
  "last_grant dec s xs =
     (case grant_after dec xs \<lparr>sy_session = s, sy_tasks = []\<rparr> None of Some p \<Rightarrow> p | None \<Rightarrow> no_permissions)"

section \<open>What a task may send\<close>

definition input_packet :: "bytes \<Rightarrow> input_event \<Rightarrow> bool" where
  "input_packet packet e \<longleftrightarrow> (\<exists>h payload. packet = packet_header_to_bytes h @ payload \<and>
     ph_packet_type h = InputEvent_Pkt \<and> encode_input_event e = Inr payload)"

definition control_packet :: "bytes \<Rightarrow> control_message \<Rightarrow> bool" where
  "control_packet packet m \<longleftrightarrow> (\<exists>h payload. packet = packet_header_to_bytes h @ payload \<and>
     ph_packet_type h = Control_Pkt \<and> encode_control_message m = Inr payload)"

text \<open>\<open>H\<close> are the states in which the sections of the operation began: each check looked at one of them.\<close>

definition input_ok :: "client_session set \<Rightarrow> input_event_type \<Rightarrow> bool" where
  "input_ok H ty \<longleftrightarrow> (\<exists>s\<in>H. input_check ty s = None)"

definition control_ok :: "client_session set \<Rightarrow> control_message \<Rightarrow> bool" where
  "control_ok H m \<longleftrightarrow> (is_clipboard_message m \<longrightarrow> (\<exists>s\<in>H. clipboard_allowed s)) \<and>
     (\<forall>c. required_capability (message_type m) = Some c \<longrightarrow> (\<exists>s\<in>H. negotiated s c))"

definition content_ok :: "client_session set \<Rightarrow> bytes \<Rightarrow> bool" where
  "content_ok H packet \<longleftrightarrow> (\<exists>e. input_packet packet e \<and> input_ok H (ie_event_type e)) \<or>
     (\<exists>m. control_packet packet m \<and> control_ok H m)"

definition may_send :: "client_session set \<Rightarrow> bytes \<Rightarrow> bool" where
  "may_send H packet \<longleftrightarrow> (\<exists>s\<in>H. cs_state s = Ready) \<and> content_ok H packet"

text \<open>Nothing but a grant changes the permissions, and nothing what was negotiated.\<close>

definition tracks :: "client_session \<Rightarrow> client_effect list \<Rightarrow> client_session \<Rightarrow> bool" where
  "tracks s effects s' \<longleftrightarrow> cs_capabilities s' = cs_capabilities s \<and> cs_server s' = cs_server s \<and>
     granted s' = fold new_grant effects (granted s)"

inductive justified :: "client_session set \<Rightarrow> 'a task \<Rightarrow> bool" where
  justified_Finished: "justified H (Finished r)"
| justified_Locked: "(\<And>env s s' effects t. f env s = (s', effects, t) \<Longrightarrow> tracks s effects s') \<Longrightarrow>
    (\<And>env s s' effects t packet. f env s = (s', effects, t) \<Longrightarrow> PacketSent packet \<in> set effects \<Longrightarrow>
       may_send (insert s H) packet) \<Longrightarrow>
    (\<And>env s s' effects t. f env s = (s', effects, t) \<Longrightarrow> justified (insert s H) t) \<Longrightarrow>
    justified H (Locked f)"

inductive_cases justified_LockedE: "justified H (Locked f)"

lemma justified_LockedD:
  assumes "justified H (Locked f)" and eq: "f env s = (s', effects, t)"
  shows "tracks s effects s'" "\<And>packet. PacketSent packet \<in> set effects \<Longrightarrow> may_send (insert s H) packet"
    "justified (insert s H) t"
proof -
  from assms(1) show "tracks s effects s'" by (rule justified_LockedE) (use eq in blast)
  from assms(1) show "may_send (insert s H) packet" if "PacketSent packet \<in> set effects" for packet
    by (rule justified_LockedE) (use eq that in blast)
  from assms(1) show "justified (insert s H) t" by (rule justified_LockedE) (use eq in blast)
qed

lemma content_ok_mono: "content_ok H packet \<Longrightarrow> H \<subseteq> H' \<Longrightarrow> content_ok H' packet"
  by (fastforce simp: content_ok_def input_ok_def control_ok_def)

lemma may_send_mono: "may_send H packet \<Longrightarrow> H \<subseteq> H' \<Longrightarrow> may_send H' packet"
  using content_ok_mono by (auto simp: may_send_def)

lemma justified_mono: "justified H t \<Longrightarrow> H \<subseteq> H' \<Longrightarrow> justified H' t"
proof (induction arbitrary: H' rule: justified.induct)
  case (justified_Locked f H)
  have sub: "insert s H \<subseteq> insert s H'" for s using justified_Locked.prems by blast
  show ?case
  proof (rule justified.justified_Locked)
    show "tracks s effects s'" if "f env s = (s', effects, t)" for env s s' effects t
      using that by (rule justified_Locked.hyps(1))
    show "may_send (insert s H') packet" if "f env s = (s', effects, t)" "PacketSent packet \<in> set effects"
      for env s s' effects t packet
      using justified_Locked.hyps(2) [OF that] sub by (rule may_send_mono)
    show "justified (insert s H') t" if "f env s = (s', effects, t)" for env s s' effects t
      using justified_Locked.IH [OF that sub] .
  qed
qed (rule justified_Finished)

lemma justified_after:
  assumes "justified H t" and "\<And>H' r. H \<subseteq> H' \<Longrightarrow> justified H' (k r)"
  shows "justified H (after t k)"
  using assms
proof (induction rule: justified.induct)
  case (justified_Locked f H)
  have later: "justified (insert s H) (after t k)" if "f env s = (s', effects, t)" for env s s' effects t
    using that by (rule justified_Locked.IH) (use justified_Locked.prems in blast)
  show ?case unfolding after.simps
    by (rule justified.justified_Locked) (use justified_Locked.hyps later in \<open>fastforce simp: map_prod_def split: prod.splits\<close>)+
qed simp

lemma justified_followed_by:
  "justified H t \<Longrightarrow> (\<And>H' x. H \<subseteq> H' \<Longrightarrow> justified H' (k x)) \<Longrightarrow> justified H (followed_by t k)"
  unfolding followed_by_def by (rule justified_after) (auto intro: justified_Finished split: sum.split)

lemma tracks_refl [simp]: "tracks s [] s"
  by (simp add: tracks_def)

lemma justified_check:
  assumes "\<And>s. refused s = None \<Longrightarrow> justified (insert s H) t"
  shows "justified H (check refused t)"
  unfolding check_def by (rule justified_Locked) (auto intro: justified_Finished assms split: option.split)

lemma send_packet_out:
  assumes "send_packet env ty payload s = (s', r, out)"
  shows "(\<exists>q. s' = s\<lparr>cs_next_tcp_sequence := q\<rparr>) \<and>
    (\<forall>packet\<in>set out. \<exists>h. packet = packet_header_to_bytes h @ payload \<and> ph_packet_type h = ty)"
proof -
  have "\<exists>q. s = s\<lparr>cs_next_tcp_sequence := q\<rparr>" by (rule exI [of _ "cs_next_tcp_sequence s"]) simp
  with assms show ?thesis
    by (auto simp: send_packet_def encode_packet_header_def packet_header_new_def Let_def
      split: option.splits sum.splits tcp_outcome.splits
      intro: exI [of _ "\<lparr>ph_packet_type = _, ph_sequence = _, ph_timestamp_ms = _, ph_flags = _\<rparr>"])
qed

lemma fold_packets [simp]: "fold new_grant (map PacketSent out) g = g"
  by (induction out) simp_all

lemma justified_ready_packet:
  assumes "\<And>h. ph_packet_type h = ty \<Longrightarrow> content_ok H (packet_header_to_bytes h @ payload)"
  shows "justified H (send_ready_packet_task ty payload)"
  unfolding send_ready_packet_task_def
proof (rule justified_check)
  fix s
  assume "ready_check s = None"
  then have ready: "cs_state s = Ready" by (simp add: ready_check_def split: if_splits)
  show "justified (insert s H) (Locked (\<lambda>env s. last_section (send_packet env ty payload s)))"
  proof (rule justified_Locked)
    fix env t t' effects and u :: "unit task"
    assume eq: "last_section (send_packet env ty payload t) = (t', effects, u)"
    then obtain r out where sp: "send_packet env ty payload t = (t', r, out)" "effects = map PacketSent out" "u = Finished r"
      by (auto simp: last_section_def split: prod.splits)
    note so = send_packet_out [OF sp(1)]
    show "tracks t effects t'" using so sp(2) by (auto simp: tracks_def)
    show "justified (insert t (insert s H)) u" unfolding sp(3) by (rule justified_Finished)
    show "may_send (insert t (insert s H)) packet" if "PacketSent packet \<in> set effects" for packet
    proof -
      from that so sp(2) obtain h where "packet = packet_header_to_bytes h @ payload" "ph_packet_type h = ty" by auto
      from assms [OF this(2)] content_ok_mono [of H _ "insert t (insert s H)"] this(1) ready
      show ?thesis by (auto simp: may_send_def)
    qed
  qed
qed

lemma justified_input: "justified H (send_input_task event)"
  unfolding send_input_task_def
proof (rule justified_check)
  fix s
  assume "input_check (ie_event_type event) s = None"
  then have "input_ok (insert s H) (ie_event_type event)" by (auto simp: input_ok_def)
  then have "content_ok (insert s H) (packet_header_to_bytes h @ payload)"
    if "encode_input_event event = Inr payload" "ph_packet_type h = InputEvent_Pkt" for h payload
    using that unfolding content_ok_def input_packet_def by blast
  then show "justified (insert s H) (case encode_input_event event of Inl e \<Rightarrow> Finished (Inl (ProtocolError e))
      | Inr payload \<Rightarrow> send_ready_packet_task InputEvent_Pkt payload)"
    by (auto intro: justified_Finished justified_ready_packet split: sum.split)
qed

lemma control_send_justified:
  assumes "control_ok H control"
  shows "justified H (case encode_control_message control of Inl e \<Rightarrow> Finished (Inl (ProtocolError e))
      | Inr payload \<Rightarrow> send_ready_packet_task Control_Pkt payload)"
proof -
  have "content_ok H (packet_header_to_bytes h @ payload)"
    if "encode_control_message control = Inr payload" "ph_packet_type h = Control_Pkt" for h payload
    using that assms unfolding content_ok_def control_packet_def by blast
  then show ?thesis by (auto intro: justified_Finished justified_ready_packet split: sum.split)
qed

lemma justified_control: "justified H (send_control_task control)"
proof -
  let ?send = "case encode_control_message control of Inl e \<Rightarrow> Finished (Inl (ProtocolError e))
      | Inr payload \<Rightarrow> send_ready_packet_task Control_Pkt payload"
  have clipboard: "justified H (if is_clipboard_message control then check clipboard_check ?send else ?send)"
    if "\<forall>c. required_capability (message_type control) = Some c \<longrightarrow> (\<exists>s\<in>H. negotiated s c)" for H
  proof (cases "is_clipboard_message control")
    case True
    have "justified (insert s H) ?send" if "clipboard_check s = None" for s
      by (rule control_send_justified)
        (use that \<open>\<forall>c. _ c\<close> in \<open>auto simp: control_ok_def clipboard_check_def split: if_splits\<close>)
    then show ?thesis using True by (simp add: justified_check)
  next
    case False
    have "justified H ?send" by (rule control_send_justified) (use that False in \<open>simp add: control_ok_def\<close>)
    then show ?thesis using False by simp
  qed
  show ?thesis
  proof (cases "required_capability (message_type control)")
    case (Some capability)
    have "justified H (check (negotiated_check capability)
        (if is_clipboard_message control then check clipboard_check ?send else ?send))"
    proof (rule justified_check)
      fix s
      assume "negotiated_check capability s = None"
      then show "justified (insert s H) (if is_clipboard_message control then check clipboard_check ?send else ?send)"
        using Some by (intro clipboard) (simp add: negotiated_check_def split: if_splits)
    qed
    with Some show ?thesis by (simp add: send_control_task_def Let_def)
  qed (use clipboard in \<open>simp add: send_control_task_def Let_def\<close>)
qed

lemma tracks_unless_granted:
  "cs_capabilities s' = cs_capabilities s \<Longrightarrow> cs_server s' = cs_server s \<Longrightarrow> granted s' = granted s \<Longrightarrow> tracks s [] s'"
  by (simp add: tracks_def)

text \<open>A section without effects.\<close>

lemma justified_silent:
  assumes "\<And>env s s' effects t. f env s = (s', effects, t) \<Longrightarrow> effects = [] \<and> tracks s [] s' \<and> justified (insert s H) t"
  shows "justified H (Locked f)"
  by (rule justified_Locked) (use assms in fastforce)+

lemma justified_state_change:
  "(\<And>s. tracks s [] (f s)) \<Longrightarrow> (\<And>s. justified (insert s H) t) \<Longrightarrow> justified H (Locked (\<lambda>env s. (f s, [], t)))"
  by (rule justified_silent) auto

lemma justified_image_chunks: "justified H (send_image_chunks_task later)"
  by (induction later arbitrary: H)
    (auto intro!: justified_check justified_followed_by justified_control justified_Finished)

lemma justified_clipboard_image: "justified H (send_clipboard_image_task png)"
  unfolding send_clipboard_image_task_def
  by (auto intro!: justified_check justified_silent justified_Finished justified_image_chunks tracks_unless_granted
      simp: Let_def split: if_splits)

lemma justified_secure_attention: "justified H request_secure_attention_task"
  unfolding request_secure_attention_task_def
  by (auto intro!: justified_check justified_silent justified_Finished justified_after justified_control
      tracks_unless_granted simp: Let_def split: if_splits sum.split)

lemma justified_rtt_probe: "justified H send_rtt_probe_task"
  unfolding send_rtt_probe_task_def
  by (auto intro!: justified_silent justified_Finished justified_control tracks_unless_granted
      simp: Let_def split: if_splits)

lemma justified_pong: "justified H pong_task"
  unfolding pong_task_def by (auto intro: justified_followed_by justified_control justified_Finished)

text \<open>The sections of \<open>handle_packet\<close>.\<close>

definition good_section :: "client_session set \<Rightarrow> client_session \<Rightarrow>
    client_session \<times> client_effect list \<times> 'a task \<Rightarrow> bool" where
  "good_section H s = (\<lambda>(s', effects, t). tracks s effects s' \<and> (\<forall>packet. PacketSent packet \<notin> set effects) \<and>
     justified (insert s H) t)"

lemma control_section_good: "good_section H s (control_section env message s)"
proof (cases message)
  case (GuestPermissions permissions)
  then show ?thesis
    by (auto simp: control_section_def good_section_def tracks_def grant_permissions_def discard_images_def Let_def
        intro!: justified_followed_by justified_input justified_Finished)
next
  case (SessionEnded ended)
  then show ?thesis
    by (auto simp: control_section_def good_section_def tracks_def end_session_def discard_images_def Let_def
        client_interrupt_def intro!: justified_after justified_input justified_state_change justified_Finished)
next
  case Ping
  then show ?thesis by (simp add: control_section_def good_section_def justified_pong)
qed (auto simp: control_section_def last_section_def good_section_def handle_control_def handle_clipboard_image_def
    handle_clipboard_text_def Let_def tracks_def discard_images_def parity_pong_def
    intro!: justified_Finished split: if_splits prod.splits sum.splits option.splits)

lemma good_last_section:
  "good_section H s (last_section r) \<longleftrightarrow> tracks s [] (fst r) \<and> snd (snd r) = []"
  by (cases r; cases "snd (snd r)") (auto simp: good_section_def last_section_def tracks_def intro: justified_Finished)

lemma assembled_good: "good_section H s (last_section (assembled r s))"
  by (auto simp: good_last_section assembled_def tracks_def split: prod.splits sum.splits)

lemma handle_packet_good:
  assumes "cs_state s = Ready" "ph_packet_type header \<noteq> Control_Pkt" "ph_packet_type header = Ping_Pkt \<Longrightarrow> from_udp \<noteq> None"
  shows "good_section H s (last_section (handle_packet env header payload from_udp s))"
proof (cases "ph_packet_type header = AudioFrame_Pkt \<or> ph_packet_type header = CursorUpdate_Pkt")
  case True
  then show ?thesis using assms
    by (cases from_udp) (auto simp: handle_packet_def good_last_section tracks_def split: sum.split prod.split)
next
  case False
  with assms assembled_good [of H s] show ?thesis
    by (cases "ph_packet_type header"; cases from_udp)
      (auto simp: handle_packet_def good_last_section split: sum.split)
qed

lemma justified_section:
  assumes "\<And>env s. good_section H s (f env s)"
  shows "justified H (Locked f)"
proof (rule justified_Locked)
  fix env s s' effects t
  assume "f env s = (s', effects, t)"
  with assms [of s env] show "tracks s effects s'" "justified (insert s H) t"
    "\<And>packet. PacketSent packet \<in> set effects \<Longrightarrow> may_send (insert s H) packet"
    by (auto simp: good_section_def)
qed

lemma good_unchanged: "justified (insert s H) t \<Longrightarrow> good_section H s (s, [], t)"
  by (simp add: good_section_def)

lemma justified_packet_task: "justified H (handle_packet_task header payload from_udp)"
  unfolding handle_packet_task_def
proof (rule justified_section)
  fix env and s :: client_session
  consider (closed) "cs_state s \<noteq> Ready" | (control) "cs_state s = Ready" "ph_packet_type header = Control_Pkt"
    | (ping) "cs_state s = Ready" "ph_packet_type header = Ping_Pkt" "from_udp = None"
    | (media) "cs_state s = Ready" "ph_packet_type header \<noteq> Control_Pkt"
        "ph_packet_type header = Ping_Pkt \<Longrightarrow> from_udp \<noteq> None" by blast
  then show "good_section H s (if cs_state s \<noteq> Ready then (s, [], Finished (Inl NotReady))
     else case (ph_packet_type header, from_udp) of
       (Ping_Pkt, None) \<Rightarrow> (s, [], pong_task)
     | (Control_Pkt, _) \<Rightarrow>
         (case decode_control_message payload of
            Inl e \<Rightarrow> (s, [], Finished (Inl (ProtocolError e)))
          | Inr message \<Rightarrow>
              if \<exists>capability. required_capability (message_type message) = Some capability \<and> \<not> negotiated s capability
              then (s, [], Finished (Inl UnsupportedError))
              else control_section env message s)
     | _ \<Rightarrow> last_section (handle_packet env header payload from_udp s))"
  proof cases
    case control
    then show ?thesis
      by (auto intro: good_unchanged justified_Finished control_section_good split: sum.split)
  next
    case media
    from handle_packet_good [OF media] media show ?thesis
      by (cases "ph_packet_type header"; cases from_udp) auto
  qed (auto intro: good_unchanged justified_Finished justified_pong)
qed

lemma justified_frame: "justified H (packet_task frame)"
  by (auto simp: packet_task_def intro: justified_Finished justified_packet_task split: sum.split)

lemma justified_receive_tcp: "justified H (receive_tcp_task frame)"
  unfolding receive_tcp_task_def by (intro justified_check justified_frame)

lemma justified_receive_udp: "justified H (receive_udp_task dec datagram)"
  unfolding receive_udp_task_def
proof (rule justified_section)
  fix env and s :: client_session
  show "good_section H s (case cs_udp_receive s of
       None \<Rightarrow> (s, [], Finished (Inl NotReady))
     | Some cipher \<Rightarrow>
         (case open_datagram dec cipher datagram of
            (cipher, Inl e) \<Rightarrow> (s\<lparr>cs_udp_receive := Some cipher\<rparr>, [], Finished (Inl (DatagramError e)))
          | (cipher, Inr (header, payload)) \<Rightarrow>
              (s\<lparr>cs_udp_receive := Some cipher, cs_udp_registered := True\<rparr>, [],
               handle_packet_task header payload (Some (ce_now env)))))"
    by (auto simp: good_section_def tracks_def intro: justified_Finished justified_packet_task
        split: option.split sum.split prod.split)
qed

lemma justified_ignoring: "justified H t \<Longrightarrow> justified H (ignoring t)"
  unfolding ignoring_def by (erule justified_followed_by) (rule justified_Finished)

lemma justified_op: "justified H (op_task dec op)"
proof (cases op)
  case Disconnect
  show ?thesis unfolding Disconnect op_task.simps disconnect_task_def
    by (auto intro!: justified_state_change justified_Finished tracks_unless_granted
        simp: client_interrupt_def disconnect_state_def discard_images_def Let_def)
qed (auto simp: send_clipboard_text_task_def state_change_def set_clipboard_enabled_def take_clipboard_image_def
    client_interrupt_def Let_def
    intro!: justified_ignoring justified_receive_tcp justified_frame justified_receive_udp justified_input
      justified_control justified_clipboard_image justified_secure_attention justified_rtt_probe
      justified_state_change justified_Finished tracks_unless_granted)

section \<open>Runs\<close>

fun begins :: "client_event \<Rightarrow> bool" where
  "begins (Begin _) = True"
| "begins (Section _ _) = False"

text \<open>The operations begun in a run; the number of one is that of those begun before it.\<close>

definition begun :: "client_event list \<Rightarrow> nat" where
  "begun xs = length (filter begins xs)"

text \<open>The moments between two points of a run, both included.\<close>

definition during :: "client_event list \<Rightarrow> client_event list \<Rightarrow> client_event list set" where
  "during xs ys = {zs. prefix xs zs \<and> prefix zs ys}"

definition op_justified :: "aead_dec \<Rightarrow> client_session \<Rightarrow> client_event list \<Rightarrow> nat \<Rightarrow> unit task \<Rightarrow> bool" where
  "op_justified dec s xs i t \<longleftrightarrow> (\<exists>ys op. prefix (ys @ [Begin op]) xs \<and> begun ys = i \<and>
     justified (session_at dec s ` during (ys @ [Begin op]) xs) t)"

definition system_ok :: "aead_dec \<Rightarrow> client_session \<Rightarrow> client_event list \<Rightarrow> bool" where
  "system_ok dec s xs \<longleftrightarrow> length (sy_tasks (system_at dec s xs)) = begun xs \<and>
     (\<forall>i < begun xs. op_justified dec s xs i (sy_tasks (system_at dec s xs) ! i)) \<and>
     cs_capabilities (session_at dec s xs) = cs_capabilities s \<and> cs_server (session_at dec s xs) = cs_server s \<and>
     granted (session_at dec s xs) = grant_after dec xs \<lparr>sy_session = s, sy_tasks = []\<rparr> (granted s)"

lemma system_at_simps [simp]:
  "system_at dec s [] = \<lparr>sy_session = s, sy_tasks = []\<rparr>"
  "system_at dec s (xs @ [x]) = fst (system_step dec x (system_at dec s xs))"
  by (simp_all add: system_at_def)

lemma grant_after_snoc:
  "grant_after dec (xs @ [x]) w g =
     fold new_grant (snd (system_step dec x (fold (\<lambda>x w. fst (system_step dec x w)) xs w))) (grant_after dec xs w g)"
  by (induction xs arbitrary: w g) (simp_all split: prod.split)

lemma during_snoc: "prefix a xs \<Longrightarrow> during a xs \<subseteq> during a (xs @ [x])"
  by (auto simp: during_def)

lemma op_justified_later:
  assumes "op_justified dec s xs i t"
  shows "op_justified dec s (xs @ [x]) i t"
proof -
  from assms obtain ys op where ys: "prefix (ys @ [Begin op]) xs" "begun ys = i"
    and just: "justified (session_at dec s ` during (ys @ [Begin op]) xs) t" by (auto simp: op_justified_def)
  have "prefix (ys @ [Begin op]) (xs @ [x])" using ys(1) by (rule prefix_prefix)
  moreover have "justified (session_at dec s ` during (ys @ [Begin op]) (xs @ [x])) t"
    by (rule justified_mono [OF just image_mono [OF during_snoc [OF ys(1)]]])
  ultimately show ?thesis using ys(2) unfolding op_justified_def by blast
qed

lemma now_during: "prefix a xs \<Longrightarrow> session_at dec s xs \<in> session_at dec s ` during a xs"
  by (simp add: during_def)

lemma system_step_ok:
  assumes "system_ok dec s xs"
  shows "system_ok dec s (xs @ [x])"
proof (cases x)
  case (Begin op)
  let ?w = "system_at dec s xs"
  have "op_justified dec s (xs @ [x]) (begun xs) (op_task dec op)"
    unfolding op_justified_def Begin by (intro exI [of _ xs] exI [of _ op]) (simp add: justified_op)
  moreover have "op_justified dec s (xs @ [x]) i (sy_tasks ?w ! i)" if "i < begun xs" for i
    using assms that by (auto simp: system_ok_def intro: op_justified_later)
  ultimately show ?thesis using assms Begin
    by (auto simp: system_ok_def begun_def grant_after_snoc nth_append less_Suc_eq simp flip: system_at_def)
next
  case (Section i env)
  let ?w = "system_at dec s xs"
  have same: "begun (xs @ [x]) = begun xs" by (simp add: begun_def Section)
  have others: "op_justified dec s (xs @ [x]) j (sy_tasks ?w ! j)" if "j < begun xs" for j
    using assms that by (auto simp: system_ok_def intro: op_justified_later)
  show ?thesis
  proof (cases "i < length (sy_tasks ?w) \<and> (\<exists>f. sy_tasks ?w ! i = Locked f)")
    case False
    then have "system_step dec x ?w = (?w, [])" using Section by (cases "sy_tasks ?w ! i") auto
    then show ?thesis using assms others same by (simp add: system_ok_def grant_after_snoc flip: system_at_def)
  next
    case True
    then obtain f where f: "sy_tasks ?w ! i = Locked f" and i: "i < begun xs" using assms by (auto simp: system_ok_def)
    obtain t effects u where sec: "f env (session_at dec s xs) = (t, effects, u)" by (cases "f env (session_at dec s xs)")
    from assms i have "op_justified dec s xs i (Locked f)" unfolding system_ok_def f [symmetric] by blast
    then obtain ys op where ys: "prefix (ys @ [Begin op]) xs" "begun ys = i"
      and just: "justified (session_at dec s ` during (ys @ [Begin op]) xs) (Locked f)" by (auto simp: op_justified_def)
    note tr = justified_LockedD(1) [OF just sec]
    from justified_LockedD(3) [OF just sec] have "op_justified dec s xs i u" using ys now_during [OF ys(1)] by (auto simp: op_justified_def insert_absorb)
    then have "op_justified dec s (xs @ [x]) i u" by (rule op_justified_later)
    moreover have "system_step dec x ?w = (?w\<lparr>sy_session := t, sy_tasks := (sy_tasks ?w)[i := u]\<rparr>, effects)"
      using True f sec Section by simp
    ultimately show ?thesis using assms others same tr i
      by (simp add: system_ok_def grant_after_snoc tracks_def nth_list_update flip: system_at_def)
  qed
qed

lemma system_always_ok: "system_ok dec s xs"
  by (induction xs rule: rev_induct) (simp_all add: system_step_ok, simp add: system_ok_def begun_def)

lemma system_permissions:
  assumes "negotiated s GUEST_PERMISSIONS" "granted s = None"
  shows "permissions_locked (session_at dec s xs) = Some (last_grant dec s xs)" and
    "negotiated (session_at dec s xs) c = negotiated s c"
proof -
  note ok = system_always_ok [of dec s xs, unfolded system_ok_def]
  then show neg: "negotiated (session_at dec s xs) c = negotiated s c" for c
    by (simp add: negotiated_def server_has_def)
  show "permissions_locked (session_at dec s xs) = Some (last_grant dec s xs)"
    using negotiated_permissions [of "session_at dec s xs"] ok assms neg by (simp add: last_grant_def)
qed

text \<open>C2. The client sends nothing that the host has not allowed, up to the races its locks permit. Any number
  of threads run operations of one session, the receiving ones included, and their locked sections come
  in any order. When both sides have \<open>GUEST_PERMISSIONS\<close> and none have been granted yet, every packet
  that a section of operation \<open>i\<close> hands to the TCP stream is either an input event that the permissions in force
  allowed (with none granted yet, only a reset of the input), or a control message whose capability was
  negotiated and which, if it carries clipboard data, the permissions in force allowed while the user had
  the clipboard switched on; where in force means at a moment since this operation began, and not that of
  the sending, for the checks and the sending are separate sections. So every operation begun after a
  grant obeys it (or a later one), while one that has passed its check before sends under the old one: the
  witness has a key press that leaves after the host has forbidden the keyboard. The session was
  \<open>Ready\<close>, too, at such a moment.\<close>

theorem client_obeys_grants:
  assumes neg: "negotiated s GUEST_PERMISSIONS" and none: "si_permissions (ps_info (cs_parity s)) = None"
    and step: "system_step dec (Section i env) (system_at dec s xs) = (w, effects)"
    and sent: "PacketSent packet \<in> set effects"
  shows "\<exists>ys op. prefix (ys @ [Begin op]) xs \<and> begun ys = i \<and>
    (\<exists>zs\<in>during (ys @ [Begin op]) xs. cs_state (session_at dec s zs) = Ready) \<and>
    ((\<exists>e. input_packet packet e \<and>
        (\<exists>zs\<in>during (ys @ [Begin op]) xs. input_allowed (last_grant dec s zs) (ie_event_type e))) \<or>
     (\<exists>m. control_packet packet m \<and>
        (is_clipboard_message m \<longrightarrow> (\<exists>zs\<in>during (ys @ [Begin op]) xs.
           gp_clipboard (last_grant dec s zs) \<and> ps_clipboard_enabled (cs_parity (session_at dec s zs)))) \<and>
        (\<forall>c. required_capability (message_type m) = Some c \<longrightarrow> negotiated s c)))"
proof -
  let ?w = "system_at dec s xs"
  note perms = system_permissions [OF neg none, of dec]
  obtain f where f: "sy_tasks ?w ! i = Locked f" and i: "i < begun xs"
    and sec: "fst (snd (f env (session_at dec s xs))) = effects"
    using step sent system_always_ok [of dec s xs]
    by (auto simp: system_ok_def split: if_splits task.splits prod.splits)
  have "op_justified dec s xs i (Locked f)"
    using system_always_ok [of dec s xs] i unfolding system_ok_def f [symmetric] by blast
  then obtain ys op where ys: "prefix (ys @ [Begin op]) xs" "begun ys = i"
    and just: "justified (session_at dec s ` during (ys @ [Begin op]) xs) (Locked f)" by (auto simp: op_justified_def)
  obtain t u where "f env (session_at dec s xs) = (t, effects, u)" using sec by (cases "f env (session_at dec s xs)") auto
  from justified_LockedD(2) [OF just this sent] have "may_send (session_at dec s ` during (ys @ [Begin op]) xs) packet"
    using now_during [OF ys(1), of dec s] by (simp add: insert_absorb)
  then show ?thesis using ys
    by (intro exI [of _ ys] exI [of _ op])
      (auto simp: may_send_def content_ok_def input_ok_def input_check_def control_ok_def clipboard_allowed_def perms
        split: if_splits)
qed

section \<open>A race\<close>

text \<open>The host grants the keyboard; a thread begins to send a key press and passes the check; the worker
  takes the message that withdraws the keyboard; then the key press goes out.\<close>

definition guest_frame :: "guest_permissions \<Rightarrow> bytes" where
  "guest_frame p = packet_header_to_bytes (packet_header_new Control_Pkt 0 0 0) @
     [23, bool_u8 (gp_keyboard p), bool_u8 (gp_mouse p), bool_u8 (gp_gamepad p), bool_u8 (gp_clipboard p), bool_u8 (gp_audio p)]"

definition sample_key_press :: input_event where
  "sample_key_press = (unicode_char 0x61 f32_zero f32_zero)\<lparr>ie_event_type := KeyDown\<rparr>"

definition sample_race :: "client_event list" where
  "sample_race =
     [Begin (ReceiveRuntime (guest_frame (no_permissions\<lparr>gp_keyboard := True\<rparr>))), Section 0 sample_env,
      Begin (SendInput sample_key_press), Section 1 sample_env,
      Begin (ReceiveRuntime (guest_frame no_permissions)), Section 2 sample_env,
      Section 1 sample_env]"

lemma guest_frame_task:
  "packet_task (guest_frame p) = handle_packet_task (packet_header_new Control_Pkt 0 0 0) (drop 12 (guest_frame p)) None"
  by (simp add: packet_task_def packet_header_SIZE_def guest_frame_def decode_packet_header_Inr [THEN iffD2])

lemma guest_frame_message: "decode_control_message (drop 12 (guest_frame p)) = Inr (GuestPermissions p)"
proof -
  have "decode_guest_permissions [bool_u8 (gp_keyboard p), bool_u8 (gp_mouse p), bool_u8 (gp_gamepad p),
      bool_u8 (gp_clipboard p), bool_u8 (gp_audio p)] = Inr p"
    by (simp add: decode_guest_permissions_Inr encode_guest_permissions_def)
  then show ?thesis by (simp add: guest_frame_def decode_control_message_Inr try_bind_def)
qed

lemma guest_section:
  assumes "cs_state s = Ready" "negotiated s GUEST_PERMISSIONS"
  shows "\<exists>f. ignoring (packet_task (guest_frame p)) = Locked f \<and>
    f env s = (grant_permissions p s, [Granted p],
      ignoring (followed_by (if permissions_removed (granted s) p then send_input_task reset_input else Finished (Inr ()))
        (\<lambda>_. Finished (Inr (StreamConfigEvent (GuestPermissions p))))))"
  using assms
  by (simp add: guest_frame_task handle_packet_task_def ignoring_def followed_by_def guest_frame_message control_section_def
      packet_header_new_def)

abbreviation keyboard_only :: guest_permissions where
  "keyboard_only \<equiv> no_permissions\<lparr>gp_keyboard := True\<rparr>"

lemma granted_session:
  "cs_state (grant_permissions p s) = cs_state s" "negotiated (grant_permissions p s) c = negotiated s c"
  "granted (grant_permissions p s) = Some p"
  by (simp_all add: grant_permissions_def Let_def discard_images_def negotiated_def server_has_def)

lemma sample_race_runs:
  "\<exists>w packet. system_step dec (Section 1 sample_env) (system_at dec sample_session sample_race) =
      (w, [PacketSent packet]) \<and> input_packet packet sample_key_press"
  "last_grant dec sample_session sample_race = no_permissions"
proof -
  let ?s1 = "grant_permissions keyboard_only sample_session"
  let ?s2 = "grant_permissions no_permissions ?s1"
  obtain payload where payload: "encode_input_event sample_key_press = Inr payload" by (simp add: encode_input_event_def Let_def)
  have ready: "cs_state sample_session = Ready" by (simp add: sample_session_def)
  obtain f where f: "ignoring (packet_task (guest_frame keyboard_only)) = Locked f"
    "\<exists>t. f sample_env sample_session = (?s1, [Granted keyboard_only], t)"
    using guest_section [OF ready sample_negotiated] by blast
  obtain g where g: "ignoring (packet_task (guest_frame no_permissions)) = Locked g"
    "\<exists>t. g sample_env ?s1 = (?s2, [Granted no_permissions], t)"
    using guest_section [of ?s1] ready sample_negotiated by (metis granted_session(1,2))
  obtain t u where tu: "f sample_env sample_session = (?s1, [Granted keyboard_only], t)"
    "g sample_env ?s1 = (?s2, [Granted no_permissions], u)" using f(2) g(2) by blast
  have "negotiated ?s1 GUEST_PERMISSIONS" using sample_negotiated by (simp add: granted_session)
  from negotiated_permissions [OF this] have "input_check KeyDown ?s1 = None"
    by (simp add: granted_session input_check_def input_allowed_def)
  moreover have "ie_event_type sample_key_press = KeyDown" by (simp add: sample_key_press_def)
  ultimately have key: "input_check (ie_event_type sample_key_press) ?s1 = None" by simp
  have "ready_check ?s2 = None" using ready by (simp add: ready_check_def granted_session)
  let ?send = "Locked (\<lambda>env s. last_section (send_packet env InputEvent_Pkt payload s))"
  have run: "system_at dec sample_session sample_race = \<lparr>sy_session = ?s2, sy_tasks = [t, ?send, u]\<rparr>"
    unfolding system_at_def sample_race_def
    by (simp add: f(1) g(1) tu send_input_task_def check_def key payload send_ready_packet_task_def \<open>ready_check ?s2 = None\<close>)
  obtain s' packet where sp: "send_packet sample_env InputEvent_Pkt payload ?s2 = (s', Inr (), [packet])"
    by (simp add: send_packet_def encode_packet_header_def sample_env_def Let_def)
  have "input_packet packet sample_key_press"
    using send_packet_out [OF sp] payload by (auto simp: input_packet_def)
  then show "\<exists>w packet. system_step dec (Section 1 sample_env) (system_at dec sample_session sample_race) =
      (w, [PacketSent packet]) \<and> input_packet packet sample_key_press"
    by (simp add: run last_section_def sp)
  show "last_grant dec sample_session sample_race = no_permissions"
    unfolding last_grant_def sample_race_def
    by (simp add: f(1) g(1) tu send_input_task_def check_def key payload send_ready_packet_task_def \<open>ready_check ?s2 = None\<close>)
qed

lemma client_obeys_grants_witness:
  "\<exists>w packet. system_step (\<lambda>k n a m. None) (Section 1 sample_env)
       (system_at (\<lambda>k n a m. None) sample_session sample_race) = (w, [PacketSent packet]) \<and>
     input_packet packet sample_key_press \<and>
     \<not> input_allowed (last_grant (\<lambda>k n a m. None) sample_session sample_race) (ie_event_type sample_key_press) \<and>
     (\<exists>ys op. prefix (ys @ [Begin op]) sample_race \<and> begun ys = 1 \<and>
       (\<exists>zs\<in>during (ys @ [Begin op]) sample_race. cs_state (session_at (\<lambda>k n a m. None) sample_session zs) = Ready))"
proof -
  let ?d = "\<lambda>k n a m. None"
  obtain w packet where run: "system_step ?d (Section 1 sample_env) (system_at ?d sample_session sample_race) =
      (w, [PacketSent packet])" "input_packet packet sample_key_press"
    using sample_race_runs(1) [of ?d] by blast
  have "\<not> input_allowed (last_grant ?d sample_session sample_race) (ie_event_type sample_key_press)"
    by (simp add: sample_race_runs(2) sample_key_press_def input_allowed_def no_permissions_def)
  moreover have "granted sample_session = None" by (simp add: sample_session_def)
  from client_obeys_grants [OF sample_negotiated this run(1), of packet]
  have "\<exists>ys op. prefix (ys @ [Begin op]) sample_race \<and> begun ys = 1 \<and>
      (\<exists>zs\<in>during (ys @ [Begin op]) sample_race. cs_state (session_at ?d sample_session zs) = Ready)" by auto
  ultimately show ?thesis using run by blast
qed

end
