(* ===== verification/Udp_Delivery.thy ===== *)
theory Udp_Delivery
  imports Udp_Sender Frame_Order
begin

text \<open>
  What a successful send of the host puts on the wire: the sealed packets of one call, with
  consecutive sequence numbers and nonce counters, and for a video frame the header, the chunks that
  the data was cut into and the timing statistics, in this order.
\<close>

section \<open>Runs of packets\<close>

definition packet_sealed :: "sender_env \<Rightarrow> sender_link \<Rightarrow> (packet_type \<times> bytes) list \<Rightarrow> bytes list \<Rightarrow> nat \<Rightarrow> bool" where
  "packet_sealed env l ps ds i \<longleftrightarrow>
     sealed_as (se_enc env) (dc_cipher (sl_cipher l)) (dc_nonce_prefix (sl_cipher l))
       (dc_send_counter (sl_cipher l) + word_of_nat (Suc i))
       (sender_packet_header env (fst (ps ! i)) (us_sequence (sl_sender l) + word_of_nat (Suc i)), snd (ps ! i))
       (ds ! i)"

definition sent_run :: "sender_env \<Rightarrow> sender_link \<Rightarrow> sender_link \<Rightarrow> (packet_type \<times> bytes) list \<Rightarrow> bytes list \<Rightarrow> bool" where
  "sent_run env l l' ps ds \<longleftrightarrow> length ds = length ps \<and> (\<forall>i < length ps. packet_sealed env l ps ds i) \<and>
     sl_sent l' = sl_sent l @ ds \<and>
     unat (dc_send_counter (sl_cipher l)) + length ps < 2 ^ 64 \<and>
     sl_cipher l' = sl_cipher l\<lparr>dc_send_counter := dc_send_counter (sl_cipher l) + word_of_nat (length ps)\<rparr> \<and>
     us_sequence (sl_sender l') = us_sequence (sl_sender l) + word_of_nat (length ps)"

lemma sent_run_Nil: "sent_run env l l [] []"
  using unsigned_less [of "dc_send_counter (sl_cipher l)", where ?'a = nat] by (simp add: sent_run_def)

lemma sent_run_one:
  assumes "send_packet env ty p l = (l', Inr u)" and "length (dc_nonce_prefix (sl_cipher l)) = 4"
  shows "\<exists>d. sent_run env l l' [(ty, p)] [d]"
proof -
  let ?c = "sl_cipher l"
  let ?h = "packet_header_to_bytes (sender_packet_header env ty (us_sequence (sl_sender l) + 1))"
  let ?n = "dc_nonce_prefix ?c @ be_bytes 8 (dc_send_counter ?c + 1)"
  have len: "length (?h @ ?n) = length ?h + 12" using assms(2) by simp
  from assms obtain ct tag where ne: "dc_send_counter ?c \<noteq> - 1"
    and enc: "se_enc env (dc_cipher ?c) ?n ?h p = Some (ct, tag)"
    and l': "l' = l\<lparr>sl_sender := sl_sender l\<lparr>us_sequence := us_sequence (sl_sender l) + 1\<rparr>,
        sl_cipher := ?c\<lparr>dc_send_counter := dc_send_counter ?c + 1\<rparr>,
        sl_sent := sl_sent l @ [?h @ ?n @ ct @ tag]\<rparr>"
    by (auto simp: send_packet_def seal_into_def Let_def extend_from_slice_def NONCE_SIZE_def
        split: if_splits option.splits sum.splits)
  have "unat (dc_send_counter ?c) + 1 < 2 ^ 64"
    using unat_plus_one [OF ne] unsigned_less [of "dc_send_counter ?c + 1", where ?'a = nat] by simp
  with enc l' have "sent_run env l l' [(ty, p)] [?h @ ?n @ ct @ tag]"
    by (simp add: sent_run_def packet_sealed_def sealed_as_def)
  then show ?thesis by blast
qed

lemma sent_run_append:
  assumes "sent_run env l l1 ps ds" and "sent_run env l1 l2 qs es"
  shows "sent_run env l l2 (ps @ qs) (ds @ es)"
proof -
  have "packet_sealed env l (ps @ qs) (ds @ es) i" if "i < length (ps @ qs)" for i
  proof (cases "i < length ps")
    case True
    with assms(1) show ?thesis by (simp add: sent_run_def packet_sealed_def nth_append)
  next
    case False
    with that have "packet_sealed env l1 qs es (i - length ps)" using assms(2) by (simp add: sent_run_def)
    moreover have "word_of_nat (length ps) + word_of_nat (Suc (i - length ps)) = (word_of_nat (Suc i) :: 'w::len word)"
      using False by (simp flip: of_nat_add)
    ultimately show ?thesis
      using False assms(1) by (simp add: sent_run_def packet_sealed_def nth_append add.assoc)
  qed
  moreover have "unat (dc_send_counter (sl_cipher l) + word_of_nat (length ps)) =
      unat (dc_send_counter (sl_cipher l)) + length ps"
    using assms(1) by (simp add: sent_run_def unat_word_ariths unat_of_nat)
  ultimately show ?thesis
    using assms unfolding sent_run_def by (auto simp: add.assoc)
qed

lemma sent_run_prefix: "sent_run env l l' ps ds \<Longrightarrow> dc_nonce_prefix (sl_cipher l') = dc_nonce_prefix (sl_cipher l)"
  by (simp add: sent_run_def)

lemma sent_run_packets:
  assumes "send_packets env ty payloads l = (l', Inr u)" and "length (dc_nonce_prefix (sl_cipher l)) = 4"
  shows "\<exists>ds. sent_run env l l' (map (Pair ty) payloads) ds"
  using assms
proof (induction payloads arbitrary: l)
  case Nil
  then show ?case using sent_run_Nil by auto
next
  case (Cons p payloads)
  from Cons.prems(1) obtain l1 v where one: "send_packet env ty p l = (l1, Inr v)"
    and more: "send_packets env ty payloads l1 = (l', Inr u)"
    by (auto split: prod.splits sum.splits)
  from sent_run_one [OF one Cons.prems(2)] obtain d where d: "sent_run env l l1 [(ty, p)] [d]" by blast
  with Cons.IH [OF more] Cons.prems(2) sent_run_prefix [OF d] obtain ds where
    "sent_run env l1 l' (map (Pair ty) payloads) ds" by auto
  from sent_run_append [OF d this] show ?case by auto
qed

text \<open>The same run from a link whose other counters differ.\<close>

lemma sent_run_start:
  "us_sequence (sl_sender k) = us_sequence (sl_sender l) \<Longrightarrow> sl_cipher k = sl_cipher l \<Longrightarrow> sl_sent k = sl_sent l \<Longrightarrow>
     sent_run env k l' ps ds \<Longrightarrow> sent_run env l l' ps ds"
  by (simp add: sent_run_def packet_sealed_def)

section \<open>A video frame on the wire\<close>

abbreviation frame_chunks :: "video_frame \<Rightarrow> bytes list" where
  "frame_chunks frame \<equiv> chunks SENDER_MAX_VIDEO_CHUNK_BYTES (vf_data frame)"

definition frame_packets :: "u32 \<Rightarrow> bytes \<Rightarrow> bytes list \<Rightarrow> bytes \<Rightarrow> (packet_type \<times> bytes) list" where
  "frame_packets frame_id hb cs stats =
     (FrameHeader_Pkt, hb) # map (Pair FrameChunk_Pkt) (map (chunk_payload frame_id) (List.enumerate 0 cs)) @
     [(Ping_Pkt, stats)]"

lemma send_frame_run:
  assumes sent: "send_frame env width height frame origin send_at l = (l', Inr u)"
    and data: "vf_data frame \<noteq> []" and pre: "length (dc_nonce_prefix (sl_cipher l)) = 4"
  shows "\<exists>h hb stats ds. encode_frame_header h = Inr hb \<and> cut_into h (frame_chunks frame) \<and>
    fh_frame_id h = us_frame_id (sl_sender l) + 1 \<and> fh_is_key_frame h = vf_is_key_frame frame \<and>
    fh_width h = ucast (min width 65535) \<and> fh_height h = ucast (min height 65535) \<and>
    sent_run env l l' (frame_packets (fh_frame_id h) hb (frame_chunks frame) stats) ds"
proof -
  let ?n = "div_ceil (length (vf_data frame)) SENDER_MAX_VIDEO_CHUNK_BYTES"
  let ?l = "l\<lparr>sl_sender := sl_sender l\<lparr>us_frame_id := us_frame_id (sl_sender l) + 1\<rparr>\<rparr>"
  define h where "h = \<lparr>fh_frame_id = us_frame_id (sl_sender l) + 1, fh_width = ucast (min width 65535),
    fh_height = ucast (min height 65535), fh_is_key_frame = vf_is_key_frame frame,
    fh_total_chunks = word_of_nat ?n, fh_total_size = word_of_nat (length (vf_data frame))\<rparr>"
  from sent obtain hb l1 l2 stats v w where small: "?n < 2 ^ 16" "length (vf_data frame) < 2 ^ 32"
    and hb: "encode_frame_header h = Inr hb"
    and one: "send_packet env FrameHeader_Pkt hb ?l = (l1, Inr v)"
    and two: "send_packets env FrameChunk_Pkt (map (chunk_payload (fh_frame_id h))
      (List.enumerate 0 (frame_chunks frame))) l1 = (l2, Inr w)"
    and three: "send_packet env Ping_Pkt stats l2 = (l', Inr u)"
    by (auto simp: send_frame_def Let_def h_def [symmetric] not_le split: if_splits sum.splits prod.splits)
       (auto simp: h_def)
  have pos: "0 < SENDER_MAX_VIDEO_CHUNK_BYTES" by (simp add: budget_defs)
  note len = length_chunks [OF pos, of "vf_data frame"] and cat = concat_chunks [OF pos, of "vf_data frame"]
  have "frame_chunks frame \<noteq> []" using data cat by auto
  then have "0 < ?n" using len by (metis length_greater_0_conv)
  have num: "unat (fh_total_chunks h) = ?n" "unat (fh_total_size h) = length (vf_data frame)"
    using small by (simp_all add: h_def unat_of_nat_bounded)
  moreover have "header_ok h"
    using hb num \<open>0 < ?n\<close> data
    by (auto simp: encode_frame_header_Inr frame_header_validate_Inr header_ok_def word_le_nat_alt
        unat_eq_0 [symmetric] MAX_CHUNKS_PER_FRAME_def MAX_FRAME_BYTES_def MAX_VIDEO_CHUNK_BYTES_def)
  ultimately have cut: "cut_into h (frame_chunks frame)" using len cat by (simp add: cut_into_def)
  from sent_run_one [OF one] pre obtain d where "sent_run env ?l l1 [(FrameHeader_Pkt, hb)] [d]" by auto
  then have d: "sent_run env l l1 [(FrameHeader_Pkt, hb)] [d]" by (rule sent_run_start [rotated 3]) simp_all
  with sent_run_packets [OF two] sent_run_prefix [OF d] pre obtain ds where
    ds: "sent_run env l1 l2 (map (Pair FrameChunk_Pkt) (map (chunk_payload (fh_frame_id h))
      (List.enumerate 0 (frame_chunks frame)))) ds" by auto
  with sent_run_one [OF three] sent_run_prefix [OF d] sent_run_prefix [OF ds] pre obtain e where
    e: "sent_run env l2 l' [(Ping_Pkt, stats)] [e]" by auto
  have "sent_run env l l' (frame_packets (fh_frame_id h) hb (frame_chunks frame) stats) ([d] @ ds @ [e])"
    using sent_run_append [OF d sent_run_append [OF ds e]] by (simp add: frame_packets_def)
  with hb cut show ?thesis by (intro exI [of _ h]) (auto simp: h_def)
qed

end
