(* ===== verification/End_To_End.thy ===== *)
theory End_To_End
  imports Udp_Delivery Client_Session
begin

text \<open>
  The host's sender, the network and the client's session together: a video frame that the host has
  sent, delivered by a network that reorders and duplicates datagrams, reaches the client's event
  stream exactly once and unchanged.
\<close>

section \<open>The client receiving datagrams\<close>

primrec receive_datagrams ::
  "aead_dec \<Rightarrow> client_env \<Rightarrow> (bytes \<times> instant) list \<Rightarrow> client_session \<Rightarrow> client_session \<times> (session_error + session_event) list"
where
  "receive_datagrams dec env [] s = (s, [])"
| "receive_datagrams dec env (d # ds) s =
     (let (s, r, _) = receive_udp_event dec (env\<lparr>ce_now := snd d\<rparr>) (fst d) s;
          (s, rs) = receive_datagrams dec env ds s
      in (s, r # rs))"

fun frames_of :: "(session_error + session_event) list \<Rightarrow> assembled_frame list" where
  "frames_of (Inr (FrameEvent f) # rs) = f # frames_of rs"
| "frames_of (_ # rs) = frames_of rs"
| "frames_of [] = []"

section \<open>A frame in flight\<close>

text \<open>Datagram 0 carries the header, datagram \<open>i\<close> chunk \<open>i - 1\<close>, the last one the statistics.\<close>

definition carries :: "frame_header \<Rightarrow> u32 \<Rightarrow> bytes list \<Rightarrow> nat \<Rightarrow> packet_header \<times> bytes \<Rightarrow> bool" where
  "carries h ts cs i m \<longleftrightarrow>
     (if i = 0 then ph_packet_type (fst m) = FrameHeader_Pkt \<and> ph_timestamp_ms (fst m) = ts \<and>
        decode_frame_header (snd m) = Inr h
      else if i \<le> length cs then ph_packet_type (fst m) = FrameChunk_Pkt \<and> decode_frame_chunk (snd m) =
        Inr \<lparr>fc_frame_id = fh_frame_id h, fc_chunk_index = word_of_nat (i - 1), fc_data = cs ! (i - 1)\<rparr>
      else ph_packet_type (fst m) = Ping_Pkt)"

definition in_flight ::
  "aead_enc \<Rightarrow> bytes \<Rightarrow> bytes \<Rightarrow> u64 \<Rightarrow> frame_header \<Rightarrow> u32 \<Rightarrow> bytes list \<Rightarrow> bytes list \<Rightarrow> bool" where
  "in_flight enc key prefix n h ts cs ds \<longleftrightarrow> length prefix = 4 \<and> cut_into h cs \<and> length ds = length cs + 2 \<and>
     unat n + length ds < 2 ^ 64 \<and>
     (\<forall>i < length ds. \<exists>m. sealed_as enc key prefix (n + word_of_nat (Suc i)) m (ds ! i) \<and> carries h ts cs i m)"

lemma decode_chunk_payload:
  assumes "i < length cs" and "length cs \<le> 8192" and "length (cs ! i) \<le> MAX_VIDEO_CHUNK_BYTES"
  shows "decode_frame_chunk (chunk_payload k (i, cs ! i)) =
    Inr \<lparr>fc_frame_id = k, fc_chunk_index = word_of_nat i, fc_data = cs ! i\<rparr>"
proof -
  have "unat (word_of_nat i :: u16) = i" using assms by (simp add: unat_of_nat_bounded)
  then have "\<not> MAX_CHUNKS_PER_FRAME \<le> (word_of_nat i :: u16)"
    using assms by (simp add: word_le_nat_alt MAX_CHUNKS_PER_FRAME_def)
  with assms(3) show ?thesis
    by (simp add: decode_frame_chunk_Inr encode_frame_chunk_def frame_chunk_validate_def chunk_payload_def
        codec_defs)
qed

lemma frame_packets_carry:
  assumes hb: "encode_frame_header h = Inr hb" and cut: "cut_into h cs"
    and sizes: "\<forall>c\<in>set cs. length c \<le> MAX_VIDEO_CHUNK_BYTES"
    and i: "i < length (frame_packets (fh_frame_id h) hb cs stats)"
  shows "carries h (se_unix_ms env (q + 1)) cs i
    (sender_packet_header env (fst (frame_packets (fh_frame_id h) hb cs stats ! i)) (q + word_of_nat (Suc i)),
     snd (frame_packets (fh_frame_id h) hb cs stats ! i))"
proof -
  have len: "length (frame_packets (fh_frame_id h) hb cs stats) = length cs + 2"
    by (simp add: frame_packets_def)
  consider "i = 0" | j where "i = Suc j" "j < length cs" | "i = Suc (length cs)"
    using i len by (cases i) (auto simp: less_Suc_eq)
  then show ?thesis
  proof cases
    case 1
    then show ?thesis
      using frame_header.roundtrip [OF TrueI hb] by (simp add: carries_def frame_packets_def sender_packet_header_def)
  next
    case 2
    then have "frame_packets (fh_frame_id h) hb cs stats ! i = (FrameChunk_Pkt, chunk_payload (fh_frame_id h) (j, cs ! j))"
      by (simp add: frame_packets_def nth_append nth_enumerate_eq)
    with 2 decode_chunk_payload [of j cs] cut_into_length [OF cut] sizes show ?thesis
      by (simp add: carries_def sender_packet_header_def)
  next
    case 3
    then have "frame_packets (fh_frame_id h) hb cs stats ! i = (Ping_Pkt, stats)"
      by (simp add: frame_packets_def nth_append)
    with 3 show ?thesis by (simp add: carries_def sender_packet_header_def)
  qed
qed

section \<open>The client after a set of the datagrams\<close>

definition counter_of :: "u64 \<Rightarrow> nat \<Rightarrow> u64" where
  "counter_of n i = n + word_of_nat (Suc i)"

definition arrival_of :: "frame_header \<Rightarrow> u32 \<Rightarrow> bytes list \<Rightarrow> nat \<Rightarrow> arrival" where
  "arrival_of h ts cs i = (if i = 0 then HeaderArrives h ts else chunk_arrival (fh_frame_id h) cs (i - 1))"

definition flight_inv ::
  "bytes \<Rightarrow> bytes \<Rightarrow> u64 \<Rightarrow> u64 set \<Rightarrow> frame_header \<Rightarrow> u32 \<Rightarrow> bytes list \<Rightarrow> instant \<Rightarrow> nat set \<Rightarrow> client_session \<Rightarrow> bool"
where
  "flight_inv key prefix n W h ts cs t0 A s \<longleftrightarrow> cs_state s = Ready \<and> A \<subseteq> {0..length cs + 1} \<and>
     (\<exists>c. cs_udp_receive s = Some c \<and> dc_cipher c = key \<and> dc_nonce_prefix c = prefix \<and>
        window_related (dc_replay c) (W \<union> counter_of n ` A)) \<and>
     (\<not> {0..length cs} \<subseteq> A \<longrightarrow>
        collecting h ts cs t0 (arrival_of h ts cs ` (A \<inter> {0..length cs})) (cs_frames s))"

text \<open>What the client answers to datagram \<open>i\<close> after those of \<open>A\<close>.\<close>

definition expected :: "frame_header \<Rightarrow> u32 \<Rightarrow> bytes list \<Rightarrow> nat set \<Rightarrow> nat \<Rightarrow> session_error + session_event" where
  "expected h ts cs A i =
     (if i \<in> A then Inl (DatagramError Replay)
      else if i = length cs + 1 then Inr PingEvent
      else if {0..length cs} \<subseteq> insert i A then Inr (FrameEvent (completed_frame h ts cs))
      else Inr Ignored)"

lemma unat_counter_of: "unat n + length cs + 2 < 2 ^ 64 \<Longrightarrow> i \<le> length cs + 1 \<Longrightarrow> unat (counter_of n i) = unat n + Suc i"
  by (simp add: counter_of_def unat_word_ariths unat_of_nat)

lemma flight_accepts:
  assumes rel: "window_related w (W \<union> counter_of n ` A)" and W: "\<forall>x\<in>W. x \<le> n"
    and A: "A \<subseteq> {0..length cs + 1}" and i: "i \<le> length cs + 1"
    and n: "unat n + length cs + 2 < 2 ^ 64" and small: "length cs + 2 \<le> 4096"
  shows "can_accept w (counter_of n i) \<longleftrightarrow> i \<notin> A"
proof -
  let ?S = "W \<union> counter_of n ` A"
  note u = unat_counter_of [OF n]
  have "counter_of n i \<notin> W" using W u [OF i] by (auto simp: word_le_nat_alt)
  moreover have "counter_of n i \<in> counter_of n ` A \<longleftrightarrow> i \<in> A"
  proof -
    have "i = j" if "j \<in> A" "counter_of n i = counter_of n j" for j
      using arg_cong [OF that(2), of unat] u [OF i] u [of j] that(1) A by auto
    then show ?thesis by blast
  qed
  moreover have "\<not> too_old (Max ?S) (counter_of n i)" if "?S \<noteq> {}"
  proof -
    have "Max ?S \<in> ?S" using that rel by (intro Max_in) (auto simp: window_related_def)
    then consider "Max ?S \<le> n" | j where "j \<in> A" "Max ?S = counter_of n j" using W by blast
    then show ?thesis
    proof cases
      case 1
      then show ?thesis using u [OF i] by (simp add: too_old_def word_less_nat_alt word_le_nat_alt)
    next
      case 2
      then have "unat (Max ?S) = unat n + Suc j" "j \<le> length cs + 1" using u [of j] A by auto
      then show ?thesis
        using u [OF i] small by (auto simp: too_old_def word_less_nat_alt word_le_nat_alt unat_sub_if')
    qed
  qed
  ultimately show ?thesis using can_accept_iff [OF rel, of "counter_of n i"] by blast
qed

lemma frame_arrivals_image: "frame_arrivals h ts cs = arrival_of h ts cs ` {0..length cs}"
proof -
  have "{0..length cs} = insert 0 (Suc ` {0..<length cs})"
    unfolding atLeast0_lessThan_Suc_eq_insert_0 [symmetric] by auto
  moreover have "arrival_of h ts cs (Suc i) = chunk_arrival (fh_frame_id h) cs i" for i
    by (simp add: arrival_of_def)
  ultimately show ?thesis
    by (simp only: frame_arrivals_def image_insert image_image) (simp add: arrival_of_def)
qed

lemma arrival_of_inj: "length cs < 65536 \<Longrightarrow> inj_on (arrival_of h ts cs) {0..length cs}"
proof (rule inj_onI)
  fix i j
  assume len: "length cs < 65536" and ij: "i \<in> {0..length cs}" "j \<in> {0..length cs}"
    and eq: "arrival_of h ts cs i = arrival_of h ts cs j"
  have idx: "unat (word_of_nat k :: u16) = k" if "k < length cs" for k by (rule unat_index [OF that len])
  show "i = j"
  proof (cases "i = 0 \<or> j = 0")
    case True
    with eq show ?thesis by (auto simp: arrival_of_def chunk_arrival_def split: if_splits)
  next
    case False
    then have "(word_of_nat (i - 1) :: u16) = word_of_nat (j - 1)"
      using eq by (simp add: arrival_of_def chunk_arrival_def)
    then have "i - 1 = j - 1" using idx [of "i - 1"] idx [of "j - 1"] ij False by auto
    with False show ?thesis by linarith
  qed
qed

lemma arrivals_complete:
  assumes "length cs < 65536" and "B \<subseteq> {0..length cs}"
  shows "frame_arrivals h ts cs \<subseteq> arrival_of h ts cs ` B \<longleftrightarrow> {0..length cs} \<subseteq> B"
proof -
  have "i \<in> B" if "i \<le> length cs" "arrival_of h ts cs i \<in> arrival_of h ts cs ` B" for i
    using inj_on_image_mem_iff [OF arrival_of_inj [OF assms(1)] _ assms(2)] that by simp
  then show ?thesis unfolding frame_arrivals_image by (auto simp: image_subset_iff)
qed

text \<open>The assembler's part of a step, through \<open>handle_packet\<close>.\<close>

lemma handle_arrival:
  assumes ready: "cs_state s = Ready" and m: "carries h ts cs i m" and i: "i \<le> length cs"
  shows "handle_packet env (fst m) (snd m) (Some at) s =
    assembled (assemble (arrival_of h ts cs i) at (cs_frames s)) s"
  using assms by (cases i) (simp_all add: carries_def handle_packet_def arrival_of_def chunk_arrival_def)

lemma handle_statistics:
  assumes "cs_state s = Ready" and "carries h ts cs (length cs + 1) m"
  shows "handle_packet env (fst m) (snd m) (Some at) s = (s, Inr PingEvent, [])"
  using assms by (simp add: carries_def handle_packet_def)

lemma collecting_same:
  "collecting h ts cs t0 S a \<Longrightarrow> as_frames b = as_frames a \<Longrightarrow> as_orphans b = as_orphans a \<Longrightarrow>
     collecting h ts cs t0 S b"
  by (simp only: collecting_def)

lemma collecting_take: "collecting h ts cs t0 S a \<Longrightarrow> collecting h ts cs t0 S (fst (take_completed_started_at a))"
  by (erule collecting_same) (simp_all add: take_completed_started_at_def)

lemma flight_step:
  assumes fl: "in_flight enc key prefix n h ts cs ds" and aead: "aead_correct enc dec"
    and inv: "flight_inv key prefix n W h ts cs t0 A s" and W: "\<forall>x\<in>W. x \<le> n"
    and small: "length ds \<le> 4096" and i: "i < length ds"
    and now: "t0 \<le> ce_now env" "ce_now env < t0 + from_secs 1"
  shows "\<exists>s' out. receive_udp_event dec env (ds ! i) s = (s', expected h ts cs A i, out) \<and>
    flight_inv key prefix n W h ts cs t0 (insert i A) s'"
proof -
  from fl have cut: "cut_into h cs" and len: "length ds = length cs + 2" and pre: "length prefix = 4"
    and n: "unat n + length cs + 2 < 2 ^ 64" by (simp_all add: in_flight_def)
  from fl i obtain m where sealed: "sealed_as enc key prefix (counter_of n i) m (ds ! i)"
    and m: "carries h ts cs i m" by (auto simp: in_flight_def counter_of_def)
  from inv obtain c where ready: "cs_state s = Ready" and A: "A \<subseteq> {0..length cs + 1}"
    and c: "cs_udp_receive s = Some c" "dc_cipher c = key" "dc_nonce_prefix c = prefix"
    and rel: "window_related (dc_replay c) (W \<union> counter_of n ` A)"
    and col: "\<not> {0..length cs} \<subseteq> A \<Longrightarrow>
      collecting h ts cs t0 (arrival_of h ts cs ` (A \<inter> {0..length cs})) (cs_frames s)"
    by (auto simp: flight_inv_def)
  have i': "i \<le> length cs + 1" using i len by simp
  note acc = flight_accepts [OF rel W A i' n] 
  have opened: "open_datagram dec c (ds ! i) = (if i \<notin> A
    then (c\<lparr>dc_replay := record_counter (dc_replay c) (counter_of n i)\<rparr>, Inr m) else (c, Inl Replay))"
    using open_sealed_as [OF aead, of c "counter_of n i" m "ds ! i"] sealed c pre acc small len by simp
  show ?thesis
  proof (cases "i \<in> A")
    case True
    with inv c opened show ?thesis
      by (auto simp: receive_udp_event_def expected_def flight_inv_def insert_absorb)
  next
    case False
    let ?c = "c\<lparr>dc_replay := record_counter (dc_replay c) (counter_of n i)\<rparr>"
    let ?s = "s\<lparr>cs_udp_receive := Some ?c, cs_udp_registered := True\<rparr>"
    have rel': "window_related (dc_replay ?c) (W \<union> counter_of n ` insert i A)"
      using record_counter_related [OF rel] acc False small len by simp
    have recv: "receive_udp_event dec env (ds ! i) s = handle_packet env (fst m) (snd m) (Some (ce_now env)) ?s"
      using c opened False by (simp add: receive_udp_event_def case_prod_unfold)
    show ?thesis
    proof (cases "i = length cs + 1")
      case True
      then have "handle_packet env (fst m) (snd m) (Some (ce_now env)) ?s = (?s, Inr PingEvent, [])"
        using ready m by (intro handle_statistics) simp_all
      moreover have "insert i A \<inter> {0..length cs} = A \<inter> {0..length cs}" using True by auto
      ultimately show ?thesis
        using True False recv ready A c rel' col by (auto simp: expected_def flight_inv_def)
    next
      case not_stats: False
      with i' have ile: "i \<le> length cs" by simp
      let ?e = "arrival_of h ts cs i" and ?B = "A \<inter> {0..length cs}"
      have missing: "\<not> {0..length cs} \<subseteq> A" using False ile by auto
      have fresh: "?e \<notin> arrival_of h ts cs ` ?B"
        using inj_on_image_mem_iff [OF arrival_of_inj [OF cut_into_small [OF cut]], of i ?B h ts] ile False by simp
      have "moves_on h ts cs t0 (insert ?e (arrival_of h ts cs ` ?B)) (assemble ?e (ce_now env) (cs_frames s))"
        using ile fresh
        by (intro arrival_step [OF cut col [OF missing] _ now]) (auto simp: frame_arrivals_image)
      moreover have "insert ?e (arrival_of h ts cs ` ?B) = arrival_of h ts cs ` (insert i A \<inter> {0..length cs})"
        using ile by auto
      moreover have "frame_arrivals h ts cs \<subseteq> arrival_of h ts cs ` (insert i A \<inter> {0..length cs}) \<longleftrightarrow>
          {0..length cs} \<subseteq> insert i A"
        using arrivals_complete [OF cut_into_small [OF cut], of "insert i A \<inter> {0..length cs}"] by auto
      ultimately have mv: "if {0..length cs} \<subseteq> insert i A
        then snd (assemble ?e (ce_now env) (cs_frames s)) = Inr (Some (completed_frame h ts cs))
        else snd (assemble ?e (ce_now env) (cs_frames s)) = Inr None \<and> collecting h ts cs t0
          (arrival_of h ts cs ` (insert i A \<inter> {0..length cs})) (fst (assemble ?e (ce_now env) (cs_frames s)))"
        by (simp only: moves_on_def)
      have "handle_packet env (fst m) (snd m) (Some (ce_now env)) ?s =
          assembled (assemble ?e (ce_now env) (cs_frames s)) ?s"
        using handle_arrival [OF _ m ile, of ?s] ready by simp
      with recv have "receive_udp_event dec env (ds ! i) s = assembled (assemble ?e (ce_now env) (cs_frames s)) ?s"
        by simp
      then show ?thesis
        using mv not_stats False ready A c rel' i' collecting_take
        by (auto simp: assembled_def expected_def flight_inv_def case_prod_unfold split: if_splits sum.splits)
    qed
  qed
qed


section \<open>Runs\<close>

lemma flight_run:
  assumes fl: "in_flight enc key prefix n h ts cs ds" and aead: "aead_correct enc dec"
    and W: "\<forall>x\<in>W. x \<le> n" and small: "length ds \<le> 4096"
  shows "flight_inv key prefix n W h ts cs t0 A s \<Longrightarrow>
    \<forall>(i, t)\<in>set xs. i < length ds \<and> t0 \<le> t \<and> t < t0 + from_secs 1 \<Longrightarrow>
    frames_of (snd (receive_datagrams dec env (map (\<lambda>(i, t). (ds ! i, t)) xs) s)) =
      (if \<not> {0..length cs} \<subseteq> A \<and> {0..length cs} \<subseteq> A \<union> fst ` set xs then [completed_frame h ts cs] else []) \<and>
    set (snd (receive_datagrams dec env (map (\<lambda>(i, t). (ds ! i, t)) xs) s)) \<subseteq>
      {Inr (FrameEvent (completed_frame h ts cs)), Inr Ignored, Inr PingEvent, Inl (DatagramError Replay)}"
proof (induction xs arbitrary: A s)
  case Nil
  then show ?case by simp
next
  case (Cons x xs)
  obtain i t where x: "x = (i, t)" by (cases x)
  from Cons.prems(2) x have i: "i < length ds" and now: "t0 \<le> t" "t < t0 + from_secs 1" by auto
  obtain s' out where one: "receive_udp_event dec (env\<lparr>ce_now := t\<rparr>) (ds ! i) s = (s', expected h ts cs A i, out)"
    and inv: "flight_inv key prefix n W h ts cs t0 (insert i A) s'"
    using flight_step [OF fl aead Cons.prems(1) W small i, of "env\<lparr>ce_now := t\<rparr>"] now by auto
  have ilen: "i \<le> length cs + 1" using i fl by (simp add: in_flight_def)
  let ?rs = "snd (receive_datagrams dec env (map (\<lambda>(i, t). (ds ! i, t)) xs) s')"
  have run: "snd (receive_datagrams dec env (map (\<lambda>(i, t). (ds ! i, t)) (x # xs)) s) = expected h ts cs A i # ?rs"
    using one x by (simp add: case_prod_unfold Let_def)
  have frames: "frames_of (expected h ts cs A i # ?rs) =
      (if i \<notin> A \<and> i \<noteq> length cs + 1 \<and> {0..length cs} \<subseteq> insert i A then [completed_frame h ts cs] else []) @ frames_of ?rs"
    by (simp add: expected_def)
  have rest: "frames_of ?rs =
      (if \<not> {0..length cs} \<subseteq> insert i A \<and> {0..length cs} \<subseteq> insert i A \<union> fst ` set xs then [completed_frame h ts cs] else [])"
    and events: "set ?rs \<subseteq>
      {Inr (FrameEvent (completed_frame h ts cs)), Inr Ignored, Inr PingEvent, Inl (DatagramError Replay)}"
    using Cons.IH [OF inv] Cons.prems(2) by (simp_all del: Un_insert_left)
  have union: "A \<union> fst ` set (x # xs) = insert i A \<union> fst ` set xs" using x by auto
  have now_complete: "i \<notin> A \<and> i \<noteq> length cs + 1 \<and> {0..length cs} \<subseteq> insert i A \<longleftrightarrow>
      \<not> {0..length cs} \<subseteq> A \<and> {0..length cs} \<subseteq> insert i A"
    using ilen by (auto simp: subset_iff) (metis le_antisym not_less_eq_eq)+
  have "{0..length cs} \<subseteq> insert i A \<Longrightarrow> {0..length cs} \<subseteq> insert i A \<union> fst ` set xs" by blast
  moreover have "{0..length cs} \<subseteq> A \<Longrightarrow> {0..length cs} \<subseteq> insert i A" by blast
  ultimately show ?case
    unfolding run frames union rest now_complete using events by (auto simp: expected_def)
qed

lemma sent_frame_in_flight:
  assumes sent: "send_frame env width height frame origin send_at l = (l', Inr u)"
    and data: "vf_data frame \<noteq> []" and pre: "length (dc_nonce_prefix (sl_cipher l)) = 4"
  shows "\<exists>h ts ds. in_flight (se_enc env) (dc_cipher (sl_cipher l)) (dc_nonce_prefix (sl_cipher l))
      (dc_send_counter (sl_cipher l)) h ts (frame_chunks frame) ds \<and> sl_sent l' = sl_sent l @ ds \<and>
    fh_frame_id h = us_frame_id (sl_sender l) + 1 \<and> fh_is_key_frame h = vf_is_key_frame frame \<and>
    fh_width h = ucast (min width 65535) \<and> fh_height h = ucast (min height 65535)"
proof -
  from send_frame_run [OF assms] obtain h hb stats ds where hb: "encode_frame_header h = Inr hb"
    and cut: "cut_into h (frame_chunks frame)"
    and h: "fh_frame_id h = us_frame_id (sl_sender l) + 1" "fh_is_key_frame h = vf_is_key_frame frame"
      "fh_width h = ucast (min width 65535)" "fh_height h = ucast (min height 65535)"
    and run: "sent_run env l l' (frame_packets (fh_frame_id h) hb (frame_chunks frame) stats) ds" by blast
  let ?ps = "frame_packets (fh_frame_id h) hb (frame_chunks frame) stats"
  let ?ts = "se_unix_ms env (us_sequence (sl_sender l) + 1)"
  have len: "length ds = length ?ps" "length ?ps = length (frame_chunks frame) + 2"
    using run by (simp_all add: sent_run_def frame_packets_def)
  have sizes: "\<forall>c\<in>set (frame_chunks frame). length c \<le> MAX_VIDEO_CHUNK_BYTES"
    using chunks_length_le [of SENDER_MAX_VIDEO_CHUNK_BYTES _ "vf_data frame"] sender_budget_asserts(1)
    by (fastforce simp: budget_defs)
  have "\<exists>m. sealed_as (se_enc env) (dc_cipher (sl_cipher l)) (dc_nonce_prefix (sl_cipher l))
      (dc_send_counter (sl_cipher l) + word_of_nat (Suc i)) m (ds ! i) \<and> carries h ?ts (frame_chunks frame) i m"
    if "i < length ds" for i
    using run that len frame_packets_carry [OF hb cut sizes, of i stats env "us_sequence (sl_sender l)"]
    unfolding sent_run_def packet_sealed_def by metis
  with run pre cut len h show ?thesis
    by (intro exI [of _ h] exI [of _ ?ts] exI [of _ ds]) (simp add: in_flight_def sent_run_def)
qed

text \<open>C1. End-to-end delivery of video. The host sends a frame that is not empty (header, chunks,
  statistics) without an error in at most 4096 datagrams. A client in the ready state that holds the same key, has no frame
  under assembly and has taken only datagrams with earlier counters (the set \<open>W\<close>) then receives any
  selection of these datagrams, in any order and with any duplicates, within one second. If the
  header and all chunks are among them, its events are exactly one frame with the bytes, the key
  frame flag and the clamped size of the host's frame; otherwise no frame. Every other datagram is
  ignored, reported as a ping or refused as a replay.\<close>

theorem video_end_to_end:
  assumes sent: "send_frame env width height frame origin send_at l = (l', Inr ())"
    and new: "sl_sent l = []" and data: "vf_data frame \<noteq> []"
    and aead: "aead_correct (se_enc env) dec" and small: "length (sl_sent l') \<le> 4096"
    and keys: "cs_udp_receive s = Some c" "dc_cipher c = dc_cipher (sl_cipher l)"
      "dc_nonce_prefix c = dc_nonce_prefix (sl_cipher l)" "length (dc_nonce_prefix c) = 4"
    and earlier: "window_related (dc_replay c) W" "\<forall>x\<in>W. x \<le> dc_send_counter (sl_cipher l)"
    and ready: "cs_state s = Ready" "as_frames (cs_frames s) = []" "as_orphans (cs_frames s) = []"
    and network: "\<forall>(i, t)\<in>set xs. i < length (sl_sent l') \<and> t0 \<le> t \<and> t < t0 + from_secs 1"
    and run: "receive_datagrams dec cenv (map (\<lambda>(i, t). (sl_sent l' ! i, t)) xs) s = (s', rs)"
  shows "\<exists>f. asf_data f = vf_data frame \<and> fh_is_key_frame (asf_header f) = vf_is_key_frame frame \<and>
      fh_width (asf_header f) = ucast (min width 65535) \<and> fh_height (asf_header f) = ucast (min height 65535) \<and>
      frames_of rs = (if {0..<length (sl_sent l') - 1} \<subseteq> fst ` set xs then [f] else []) \<and>
      set rs \<subseteq> {Inr (FrameEvent f), Inr Ignored, Inr PingEvent, Inl (DatagramError Replay)}"
proof -
  from sent_frame_in_flight [OF sent data] keys obtain h ts ds where
    fl: "in_flight (se_enc env) (dc_cipher (sl_cipher l)) (dc_nonce_prefix (sl_cipher l))
      (dc_send_counter (sl_cipher l)) h ts (frame_chunks frame) ds" and ds: "sl_sent l' = ds"
    and h: "fh_is_key_frame h = vf_is_key_frame frame" "fh_width h = ucast (min width 65535)"
      "fh_height h = ucast (min height 65535)" using new by auto
  have "flight_inv (dc_cipher (sl_cipher l)) (dc_nonce_prefix (sl_cipher l)) (dc_send_counter (sl_cipher l))
      W h ts (frame_chunks frame) t0 {} s"
    using keys earlier(1) ready by (simp add: flight_inv_def collecting_def collected_def)
  note res = flight_run [OF fl aead earlier(2) small [unfolded ds] this, of xs cenv]
  from res network run ds have
    "frames_of rs = (if {0..length (frame_chunks frame)} \<subseteq> fst ` set xs then [completed_frame h ts (frame_chunks frame)] else [])"
    "set rs \<subseteq> {Inr (FrameEvent (completed_frame h ts (frame_chunks frame))), Inr Ignored, Inr PingEvent,
      Inl (DatagramError Replay)}" by auto
  moreover have "{0..<length (sl_sent l') - 1} = {0..length (frame_chunks frame)}"
    using fl ds by (auto simp: in_flight_def)
  moreover have "concat (frame_chunks frame) = vf_data frame" by (rule concat_chunks) (simp add: budget_defs)
  ultimately show ?thesis
    using h by (intro exI [of _ "completed_frame h ts (frame_chunks frame)"]) (simp add: completed_frame_def)
qed

definition sample_sender :: sender_env where
  "sample_sender = \<lparr>se_enc = null_enc, se_unix_ms = (\<lambda>_. 7), se_socket = (\<lambda>_. True)\<rparr>"

definition sample_link :: sender_link where
  "sample_link = \<lparr>sl_sender = udp_sender_default, sl_cipher = sample_cipher, sl_sent = []\<rparr>"

definition sample_video :: video_frame where
  "sample_video = \<lparr>vf_data = [1, 2, 3], vf_is_key_frame = True, vf_capture_at = 0, vf_encode_started_at = 0,
     vf_encode_completed_at = 0\<rparr>"

lemma sample_send: "\<exists>l'. send_frame sample_sender 64 32 sample_video 0 0 sample_link = (l', Inr ())"
  by (simp add: send_frame_def Udp_Sender.send_packet_def seal_into_def sample_sender_def sample_link_def
      sample_video_def sample_cipher_def udp_sender_default_def null_enc_def div_ceil_def budget_defs
      encode_frame_header_def frame_header_validate_def MAX_CHUNKS_PER_FRAME_def MAX_VIDEO_CHUNK_BYTES_def
      MAX_FRAME_BYTES_def chunks.simps Let_def)

theorem video_end_to_end_witness:
  "\<exists>l' s' rs f. send_frame sample_sender 64 32 sample_video 0 0 sample_link = (l', Inr ()) \<and>
    receive_datagrams null_dec sample_env (map (\<lambda>(i, t). (sl_sent l' ! i, t)) [(1, 5), (0, 7), (1, 9)])
      (sample_session\<lparr>cs_udp_receive := Some sample_cipher\<rparr>) = (s', rs) \<and>
    asf_data f = [1, 2, 3] \<and> frames_of rs = [f]"
proof -
  from sample_send obtain l' where sent: "send_frame sample_sender 64 32 sample_video 0 0 sample_link = (l', Inr ())"
    by blast
  obtain s' rs where run: "receive_datagrams null_dec sample_env
      (map (\<lambda>(i, t). (sl_sent l' ! i, t)) [(1, 5), (0, 7), (1, 9)])
      (sample_session\<lparr>cs_udp_receive := Some sample_cipher\<rparr>) = (s', rs)" by fastforce
  have pre: "length (dc_nonce_prefix (sl_cipher sample_link)) = 4" by (simp add: sample_link_def sample_cipher_def)
  have cs: "frame_chunks sample_video = [[1, 2, 3]]" by (simp add: sample_video_def budget_defs chunks.simps)
  have len: "length (sl_sent l') = 3"
    using sent_frame_in_flight [OF sent _ pre] cs
    by (auto simp: in_flight_def sample_video_def sample_link_def)
  have "\<exists>f. asf_data f = vf_data sample_video \<and> fh_is_key_frame (asf_header f) = vf_is_key_frame sample_video \<and>
      fh_width (asf_header f) = ucast (min 64 65535 :: u32) \<and> fh_height (asf_header f) = ucast (min 32 65535 :: u32) \<and>
      frames_of rs = (if {0..<length (sl_sent l') - 1} \<subseteq> fst ` set [(1, 5 :: instant), (0, 7), (1, 9)] then [f] else []) \<and>
      set rs \<subseteq> {Inr (FrameEvent f), Inr Ignored, Inr PingEvent, Inl (DatagramError Replay)}"
    by (rule video_end_to_end [OF sent _ _ _ _ _ _ _ _ _ _ _ _ _ _ run, where c = sample_cipher and W = "{}" and ?t0.0 = 0])
       (use len null_aead_correct window_related_default in
         \<open>auto simp: sample_link_def sample_video_def sample_sender_def sample_session_def sample_cipher_def
            assembler_default_def\<close>)
  moreover have "{0..<length (sl_sent l') - 1} \<subseteq> fst ` set [(1, 5 :: instant), (0, 7), (1, 9)]"
    by (auto simp: len)
  ultimately obtain f where "asf_data f = [1, 2, 3]" "frames_of rs = [f]"
    by (auto simp: sample_video_def)
  with sent run show ?thesis by blast
qed

end
