(* ===== verification/Guest_Registry.thy ===== *)
theory Guest_Registry
  imports Parity_Wire Input_Event Std_Collections "HOL-Library.List_Lexorder"
begin

text \<open>
  The host's guest directory, \<open>maho-host/src/guests.rs\<close>: who is connected, what the embedding
  program is told, the consent requests of a pairing in progress, and the commands that reach the
  thread of a session. Every method takes the registry's mutex, so one operation is one step.

  The \<open>mpsc\<close> channels are modelled by what was sent on each, how much of it was received and
  whether the receiver was dropped; \<open>send\<close> fails exactly on a dropped receiver, and \<open>try_send\<close> on
  a bounded channel also when it is full. \<open>publish_status\<close> sends the occupancy to every session;
  \<open>guest_status_current\<close> shows that what a session was last told is what holds now.
\<close>

section \<open>Standard channels\<close>

record 'a mpsc =
  ch_sent :: "nat \<Rightarrow> 'a list"
  ch_received :: "nat \<Rightarrow> nat"
  ch_dropped :: "nat \<Rightarrow> bool"
  ch_next :: nat

definition mpsc_new :: "'a mpsc" where
  "mpsc_new = \<lparr>ch_sent = (\<lambda>_. []), ch_received = (\<lambda>_. 0), ch_dropped = (\<lambda>_. False), ch_next = 0\<rparr>"

definition mpsc_channel :: "'a mpsc \<Rightarrow> 'a mpsc \<times> nat" where
  "mpsc_channel m = (m\<lparr>ch_next := ch_next m + 1\<rparr>, ch_next m)"

definition mpsc_send :: "nat \<Rightarrow> 'a \<Rightarrow> 'a mpsc \<Rightarrow> 'a mpsc \<times> bool" where
  "mpsc_send ch v m =
     (if ch_dropped m ch then (m, False)
      else (m\<lparr>ch_sent := (ch_sent m)(ch := ch_sent m ch @ [v])\<rparr>, True))"

definition mpsc_try_send :: "nat \<Rightarrow> nat \<Rightarrow> 'a \<Rightarrow> 'a mpsc \<Rightarrow> 'a mpsc \<times> bool" where
  "mpsc_try_send bound ch v m =
     (if length (ch_sent m ch) - ch_received m ch \<ge> bound then (m, False) else mpsc_send ch v m)"

definition mpsc_try_recv :: "nat \<Rightarrow> 'a mpsc \<Rightarrow> 'a mpsc \<times> 'a option" where
  "mpsc_try_recv ch m =
     (if ch_received m ch < length (ch_sent m ch)
      then (m\<lparr>ch_received := (ch_received m)(ch := ch_received m ch + 1)\<rparr>, Some (ch_sent m ch ! ch_received m ch))
      else (m, None))"

definition mpsc_drop_receiver :: "nat \<Rightarrow> 'a mpsc \<Rightarrow> 'a mpsc" where
  "mpsc_drop_receiver ch m = m\<lparr>ch_dropped := (ch_dropped m)(ch := True)\<rparr>"

text \<open>\<open>for tx in senders { let _ = tx.send(v); }\<close>, and the count or the retained senders.\<close>

fun mpsc_send_all :: "nat list \<Rightarrow> 'a \<Rightarrow> 'a mpsc \<Rightarrow> 'a mpsc \<times> nat list" where
  "mpsc_send_all [] v m = (m, [])"
| "mpsc_send_all (ch # chs) v m =
     (let (m', ok) = mpsc_send ch v m; (m'', rest) = mpsc_send_all chs v m'
      in (m'', if ok then ch # rest else rest))"

section \<open>The registry\<close>

record guest_session =
  gs_id :: rstring
  gs_pairing_id :: rstring
  gs_name :: rstring
  gs_peer :: "nat \<times> nat"
  gs_trust :: pairing_trust
  gs_connected_at :: instant

record pending_request =
  prq_id :: rstring
  prq_name :: rstring
  prq_expires_at :: instant

datatype host_event =
    GuestConnected guest_session
  | GuestDisconnected guest_session
  | ConsentRequested pending_request

datatype guest_command =
    GuestEnd session_end_reason
  | GuestStatus host_status
  | GuestPerms guest_permissions

text \<open>The three channel families are part of the state: the command channels of the sessions, the
  event channels of the subscribers, and the answer channels of the consent requests.\<close>

record registry =
  gr_sessions :: "(rstring, guest_session \<times> nat) btree_map"
  gr_events :: "nat list"
  gr_pending :: "(rstring, pending_request \<times> nat) btree_map"
  gr_sas :: "(guest_session \<Rightarrow> secure_attention_result) option"
  gr_commands :: "guest_command mpsc"
  gr_notices :: "host_event mpsc"
  gr_answers :: "pairing_trust option mpsc"

definition registry_default :: registry where
  "registry_default =
     \<lparr>gr_sessions = [], gr_events = [], gr_pending = [], gr_sas = None, gr_commands = mpsc_new,
      gr_notices = mpsc_new, gr_answers = mpsc_new\<rparr>"

definition registry_sessions :: "registry \<Rightarrow> guest_session list" where
  "registry_sessions r = map (\<lambda>(_, g, _). g) (gr_sessions r)"

definition session_channels :: "registry \<Rightarrow> nat list" where
  "session_channels r = map (\<lambda>(_, _, ch). ch) (gr_sessions r)"

definition registry_subscribe :: "registry \<Rightarrow> registry \<times> nat" where
  "registry_subscribe r =
     (let (m, ch) = mpsc_channel (gr_notices r)
      in (r\<lparr>gr_notices := m, gr_events := gr_events r @ [ch]\<rparr>, ch))"

definition kick :: "rstring \<Rightarrow> registry \<Rightarrow> registry \<times> bool" where
  "kick i r =
     (case map_of (gr_sessions r) i of
        None \<Rightarrow> (r, False)
      | Some (_, ch) \<Rightarrow>
          (let (m, ok) = mpsc_send ch (GuestEnd Kicked) (gr_commands r) in (r\<lparr>gr_commands := m\<rparr>, ok)))"

definition kick_all :: "registry \<Rightarrow> registry \<times> usize" where
  "kick_all r =
     (let (m, reached) = mpsc_send_all (session_channels r) (GuestEnd Kicked) (gr_commands r)
      in (r\<lparr>gr_commands := m\<rparr>, length reached))"

definition pending_requests :: "instant \<Rightarrow> registry \<Rightarrow> pending_request list" where
  "pending_requests now r =
     map (\<lambda>(_, p, _). p) (filter (\<lambda>(_, p, _). now < prq_expires_at p) (gr_pending r))"

text \<open>The channel of a request is made by the session with capacity one. A second answer finds no
  request; the answer to an expired one is dropped with it.\<close>

definition CONSENT_BOUND :: usize where "CONSENT_BOUND = 1"

definition respond :: "instant \<Rightarrow> rstring \<Rightarrow> pairing_trust option \<Rightarrow> registry \<Rightarrow> registry \<times> bool" where
  "respond now i trust r =
     (case map_of (gr_pending r) i of
        None \<Rightarrow> (r, False)
      | Some (request, ch) \<Rightarrow>
          let r = r\<lparr>gr_pending := AList.delete i (gr_pending r)\<rparr> in
          if now < prq_expires_at request
          then let (m, ok) = mpsc_try_send CONSENT_BOUND ch trust (gr_answers r)
               in (r\<lparr>gr_answers := m\<rparr>, ok)
          else (r, False))"

definition set_secure_attention_handler ::
  "(guest_session \<Rightarrow> secure_attention_result) \<Rightarrow> registry \<Rightarrow> registry" where
  "set_secure_attention_handler handler r = r\<lparr>gr_sas := Some handler\<rparr>"

definition secure_attention :: "bool \<Rightarrow> guest_session \<Rightarrow> registry \<Rightarrow> secure_attention_result" where
  "secure_attention windows guest r =
     (if \<not> windows then Unsupported
      else if gs_trust guest \<noteq> Owner then PermissionDenied
      else case gr_sas r of None \<Rightarrow> Unsupported | Some h \<Rightarrow> h guest)"

definition registry_permissions :: "rstring \<Rightarrow> guest_permissions \<Rightarrow> registry \<Rightarrow> registry" where
  "registry_permissions pairing_id permissions r =
     r\<lparr>gr_commands := fst (mpsc_send_all
         (map (\<lambda>(_, _, ch). ch) (filter (\<lambda>(_, guest, _). gs_pairing_id guest = pairing_id) (gr_sessions r)))
         (GuestPerms permissions) (gr_commands r))\<rparr>"

text \<open>\<open>events.retain(|tx| tx.send(event).is_ok())\<close>: subscribers that went away are forgotten.\<close>

definition notify :: "host_event \<Rightarrow> registry \<Rightarrow> registry" where
  "notify event r =
     (let (m, kept) = mpsc_send_all (gr_events r) event (gr_notices r)
      in r\<lparr>gr_notices := m, gr_events := kept\<rparr>)"

definition registry_request :: "pending_request \<Rightarrow> nat \<Rightarrow> registry \<Rightarrow> registry" where
  "registry_request request ch r =
     notify (ConsentRequested request)
       (r\<lparr>gr_pending := btree_insert (prq_id request) (request, ch) (gr_pending r)\<rparr>)"

definition finish_request :: "rstring \<Rightarrow> registry \<Rightarrow> registry" where
  "finish_request i r = r\<lparr>gr_pending := AList.delete i (gr_pending r)\<rparr>"

definition publish_status :: "registry \<Rightarrow> registry" where
  "publish_status r =
     (let status = \<lparr>hst_guest_names = map gs_name (registry_sessions r)\<rparr>
      in r\<lparr>gr_commands := fst (mpsc_send_all (session_channels r) (GuestStatus status) (gr_commands r))\<rparr>)"

text \<open>\<open>join\<close> returns the guard, which is its id here, and the receiver.\<close>

definition registry_join :: "guest_session \<Rightarrow> registry \<Rightarrow> registry \<times> rstring \<times> nat" where
  "registry_join guest r =
     (let (m, ch) = mpsc_channel (gr_commands r);
          r = r\<lparr>gr_commands := m, gr_sessions := btree_insert (gs_id guest) (guest, ch) (gr_sessions r)\<rparr>;
          r = publish_status (notify (GuestConnected guest) r)
      in (r, gs_id guest, ch))"

text \<open>\<open>GuestGuard::drop\<close>.\<close>

definition drop_guard :: "rstring \<Rightarrow> registry \<Rightarrow> registry" where
  "drop_guard i r =
     (case map_of (gr_sessions r) i of
        None \<Rightarrow> r
      | Some (guest, _) \<Rightarrow>
          publish_status (notify (GuestDisconnected guest)
            (r\<lparr>gr_sessions := AList.delete i (gr_sessions r)\<rparr>)))"

section \<open>Rights\<close>

definition intersect :: "guest_permissions \<Rightarrow> guest_permissions \<Rightarrow> guest_permissions" where
  "intersect a b =
     \<lparr>gp_keyboard = (gp_keyboard a \<and> gp_keyboard b), gp_mouse = (gp_mouse a \<and> gp_mouse b),
      gp_gamepad = (gp_gamepad a \<and> gp_gamepad b), gp_clipboard = (gp_clipboard a \<and> gp_clipboard b),
      gp_audio = (gp_audio a \<and> gp_audio b)\<rparr>"

fun allows :: "guest_permissions \<Rightarrow> input_event_type \<Rightarrow> bool" where
  "allows p KeyDown = gp_keyboard p"
| "allows p KeyUp = gp_keyboard p"
| "allows p FlagsChanged = gp_keyboard p"
| "allows p UnicodeChar = gp_keyboard p"
| "allows p GamepadAxis = gp_gamepad p"
| "allows p GamepadButtonDown = gp_gamepad p"
| "allows p GamepadButtonUp = gp_gamepad p"
| "allows p InputReset = True"
| "allows p _ = gp_mouse p"

fun valid_trust :: "pairing_trust \<Rightarrow> u64 \<Rightarrow> bool" where
  "valid_trust Owner now = True"
| "valid_trust GuestOnce now = False"
| "valid_trust (GuestExpiring expires_at_unix_ms) now = (now < expires_at_unix_ms)"

section \<open>Runs of the registry\<close>

text \<open>
  The steps the embedding program and the session threads take, in any order. \<open>OpAsk\<close> is the
  session's \<open>sync_channel(1)\<close> followed by \<open>request\<close>, \<open>OpEnd\<close> the end of a session thread, which
  drops its receiver, and \<open>OpRecv\<close> its \<open>try_recv\<close>.
\<close>

datatype registry_op =
    OpSubscribe
  | OpUnsubscribe nat
  | OpKick rstring
  | OpKickAll
  | OpPermissions rstring guest_permissions
  | OpJoin guest_session
  | OpLeave rstring
  | OpEnd nat
  | OpRecv nat
  | OpAsk pending_request
  | OpRespond instant rstring "pairing_trust option"
  | OpTakeAnswer nat
  | OpFinish rstring

definition registry_ask :: "pending_request \<Rightarrow> registry \<Rightarrow> registry" where
  "registry_ask request r =
     (let (m, ch) = mpsc_channel (gr_answers r) in registry_request request ch (r\<lparr>gr_answers := m\<rparr>))"

fun registry_apply :: "registry_op \<Rightarrow> registry \<Rightarrow> registry" where
  "registry_apply OpSubscribe r = fst (registry_subscribe r)"
| "registry_apply (OpUnsubscribe ch) r = r\<lparr>gr_notices := mpsc_drop_receiver ch (gr_notices r)\<rparr>"
| "registry_apply (OpKick i) r = fst (kick i r)"
| "registry_apply OpKickAll r = fst (kick_all r)"
| "registry_apply (OpPermissions i p) r = registry_permissions i p r"
| "registry_apply (OpJoin g) r = fst (registry_join g r)"
| "registry_apply (OpLeave i) r = drop_guard i r"
| "registry_apply (OpEnd ch) r = r\<lparr>gr_commands := mpsc_drop_receiver ch (gr_commands r)\<rparr>"
| "registry_apply (OpRecv ch) r = r\<lparr>gr_commands := fst (mpsc_try_recv ch (gr_commands r))\<rparr>"
| "registry_apply (OpAsk q) r = registry_ask q r"
| "registry_apply (OpRespond now i t) r = fst (respond now i t r)"
| "registry_apply (OpTakeAnswer ch) r = r\<lparr>gr_answers := fst (mpsc_try_recv ch (gr_answers r))\<rparr>"
| "registry_apply (OpFinish i) r = finish_request i r"

definition registry_run :: "registry_op list \<Rightarrow> registry \<Rightarrow> registry" where
  "registry_run ops r = fold registry_apply ops r"

subsection \<open>Channels\<close>

lemma mpsc_send_fields [simp]:
  "ch_dropped (fst (mpsc_send ch v m)) = ch_dropped m"
  "ch_received (fst (mpsc_send ch v m)) = ch_received m"
  "ch_next (fst (mpsc_send ch v m)) = ch_next m"
  "ch_sent (fst (mpsc_send ch v m)) =
     (if ch_dropped m ch then ch_sent m else (ch_sent m)(ch := ch_sent m ch @ [v]))"
  by (simp_all add: mpsc_send_def)

lemma mpsc_send_all_Cons_fst:
  "fst (mpsc_send_all (ch # chs) v m) = fst (mpsc_send_all chs v (fst (mpsc_send ch v m)))"
  by (simp add: split_beta Let_def)

lemma mpsc_send_all_fields [simp]:
  "ch_dropped (fst (mpsc_send_all chs v m)) = ch_dropped m"
  "ch_received (fst (mpsc_send_all chs v m)) = ch_received m"
  "ch_next (fst (mpsc_send_all chs v m)) = ch_next m"
  by (induction chs arbitrary: m) (simp_all add: mpsc_send_all_Cons_fst del: mpsc_send_all.simps(2))

lemma mpsc_send_all_sent:
  "distinct chs \<Longrightarrow> ch_sent (fst (mpsc_send_all chs v m)) ch =
     (if ch \<in> set chs \<and> \<not> ch_dropped m ch then ch_sent m ch @ [v] else ch_sent m ch)"
  by (induction chs arbitrary: m)
    (auto simp: mpsc_send_all_Cons_fst simp del: mpsc_send_all.simps(2))

lemma mpsc_try_recv_fields [simp]:
  "ch_dropped (fst (mpsc_try_recv ch m)) = ch_dropped m"
  "ch_sent (fst (mpsc_try_recv ch m)) = ch_sent m"
  "ch_next (fst (mpsc_try_recv ch m)) = ch_next m"
  by (simp_all add: mpsc_try_recv_def)

lemma mpsc_drop_receiver_fields [simp]:
  "ch_sent (mpsc_drop_receiver ch m) = ch_sent m"
  "ch_next (mpsc_drop_receiver ch m) = ch_next m"
  "ch_dropped (mpsc_drop_receiver ch m) k \<longleftrightarrow> k = ch \<or> ch_dropped m k"
  by (simp_all add: mpsc_drop_receiver_def)

lemma mpsc_channel_fields [simp]:
  "ch_sent (fst (mpsc_channel m)) = ch_sent m"
  "ch_dropped (fst (mpsc_channel m)) = ch_dropped m"
  "ch_next (fst (mpsc_channel m)) = ch_next m + 1"
  "snd (mpsc_channel m) = ch_next m"
  by (simp_all add: mpsc_channel_def)

subsection \<open>What the operations leave alone\<close>

lemma notify_fields [simp]:
  "gr_sessions (notify e r) = gr_sessions r" "gr_commands (notify e r) = gr_commands r"
  "gr_pending (notify e r) = gr_pending r" "gr_answers (notify e r) = gr_answers r"
  by (simp_all add: notify_def split_beta Let_def)

lemma publish_status_fields [simp]:
  "gr_sessions (publish_status r) = gr_sessions r" "gr_pending (publish_status r) = gr_pending r"
  "gr_answers (publish_status r) = gr_answers r"
  by (simp_all add: publish_status_def Let_def)

definition statuses :: "guest_command list \<Rightarrow> host_status list" where
  "statuses cs = List.map_filter (\<lambda>c. case c of GuestStatus s \<Rightarrow> Some s | _ \<Rightarrow> None) cs"

lemma statuses_snoc [simp]:
  "statuses (cs @ [GuestStatus s]) = statuses cs @ [s]"
  "statuses (cs @ [GuestEnd e]) = statuses cs"
  "statuses (cs @ [GuestPerms p]) = statuses cs"
  by (simp_all add: statuses_def List.map_filter_def)

definition occupancy :: "registry \<Rightarrow> host_status" where
  "occupancy r = \<lparr>hst_guest_names = map gs_name (registry_sessions r)\<rparr>"

text \<open>The sessions have a channel each, and what an open one was last told is the occupancy.\<close>

definition registry_inv :: "registry \<Rightarrow> bool" where
  "registry_inv r \<longleftrightarrow> btree_sorted (gr_sessions r) \<and> distinct (session_channels r) \<and>
     (\<forall>ch \<in> set (session_channels r). ch < ch_next (gr_commands r) \<and>
        (\<not> ch_dropped (gr_commands r) ch \<longrightarrow>
           statuses (ch_sent (gr_commands r) ch) \<noteq> [] \<and>
           last (statuses (ch_sent (gr_commands r) ch)) = occupancy r))"

lemma registry_inv_cong:
  "gr_sessions r' = gr_sessions r \<Longrightarrow> ch_next (gr_commands r') = ch_next (gr_commands r) \<Longrightarrow>
   (\<And>ch. \<not> ch_dropped (gr_commands r') ch \<Longrightarrow> \<not> ch_dropped (gr_commands r) ch \<and>
      statuses (ch_sent (gr_commands r') ch) = statuses (ch_sent (gr_commands r) ch)) \<Longrightarrow>
   registry_inv r \<Longrightarrow> registry_inv r'"
  by (auto simp: registry_inv_def session_channels_def occupancy_def registry_sessions_def)

lemma publish_status_inv:
  assumes "btree_sorted (gr_sessions r)" "distinct (session_channels r)"
    and "\<And>ch. ch \<in> set (session_channels r) \<Longrightarrow> ch < ch_next (gr_commands r)"
  shows "registry_inv (publish_status r)"
  using assms
  by (auto simp: registry_inv_def publish_status_def Let_def session_channels_def occupancy_def
      registry_sessions_def mpsc_send_all_sent)

lemma session_channels_insert:
  assumes "btree_sorted m" "distinct (map (snd \<circ> snd) m)" "ch \<notin> set (map (snd \<circ> snd) m)"
  shows "distinct (map (snd \<circ> snd) (btree_insert k (g, ch) m))"
  using assms
proof (induction k "(g, ch)" m rule: btree_insert.induct)
  case (2 k k' v' m)
  then show ?case
    using set_btree_insert [of k "(g, ch)" m] by (fastforce simp: btree_sorted_def)
qed simp

lemma session_channels_alt: "session_channels r = map (snd \<circ> snd) (gr_sessions r)"
  by (simp add: session_channels_def case_prod_unfold comp_def)

lemma insert_fresh_channel:
  fixes n :: nat
  assumes "btree_sorted m" "distinct (map (snd \<circ> snd) m)" "\<forall>x \<in> set m. snd (snd x) < n"
  shows "btree_sorted (btree_insert k (g, n) m)" "distinct (map (snd \<circ> snd) (btree_insert k (g, n) m))"
    "\<forall>x \<in> set (btree_insert k (g, n) m). snd (snd x) < Suc n \<and> (snd (snd x) = n \<or> x \<in> set m)"
proof -
  from assms(3) have "n \<notin> set (map (snd \<circ> snd) m)" by auto
  with assms show "distinct (map (snd \<circ> snd) (btree_insert k (g, n) m))"
    by (intro session_channels_insert)
  show "btree_sorted (btree_insert k (g, n) m)" using assms(1) by (rule btree_sorted_insert)
  show "\<forall>x \<in> set (btree_insert k (g, n) m). snd (snd x) < Suc n \<and> (snd (snd x) = n \<or> x \<in> set m)"
    using set_btree_insert [of k "(g, n)" m] assms(3) by (auto simp: less_Suc_eq)
qed

lemma registry_join_inv:
  assumes "registry_inv r"
  shows "registry_inv (fst (registry_join g r))"
proof -
  let ?n = "ch_next (gr_commands r)"
  have m: "btree_sorted (gr_sessions r)" "distinct (map (snd \<circ> snd) (gr_sessions r))"
    "\<forall>x \<in> set (gr_sessions r). snd (snd x) < ?n"
    using assms by (auto simp: registry_inv_def session_channels_alt)
  from insert_fresh_channel [OF m, of "gs_id g" g] show ?thesis
    unfolding registry_join_def Let_def split_beta fst_conv
    by (intro publish_status_inv) (auto simp: session_channels_alt comp_def)
qed

lemma drop_guard_inv:
  assumes "registry_inv r"
  shows "registry_inv (drop_guard i r)"
proof (cases "map_of (gr_sessions r) i")
  case None
  then show ?thesis using assms by (simp add: drop_guard_def)
next
  case (Some x)
  then obtain guest ch where "map_of (gr_sessions r) i = Some (guest, ch)" by (cases x) auto
  moreover from assms have "registry_inv (publish_status (notify (GuestDisconnected guest)
      (r\<lparr>gr_sessions := AList.delete i (gr_sessions r)\<rparr>)))"
    by (intro publish_status_inv)
      (auto simp: registry_inv_def session_channels_alt AList.delete_eq distinct_map_filter
        intro: btree_sorted_delete [unfolded AList.delete_eq])
  ultimately show ?thesis by (simp add: drop_guard_def)
qed

lemma respond_fields [simp]:
  "gr_sessions (fst (respond now i t r)) = gr_sessions r"
  "gr_commands (fst (respond now i t r)) = gr_commands r"
  by (simp_all add: respond_def split_beta Let_def split: option.split)

lemma registry_apply_inv: "registry_inv r \<Longrightarrow> registry_inv (registry_apply op r)"
proof (induction op r rule: registry_apply.induct)
  case (6 g r)
  then show ?case by (simp add: registry_join_inv)
next
  case (7 i r)
  then show ?case by (simp add: drop_guard_inv)
next
  case (4 r)
  then have d: "distinct (session_channels r)" by (simp add: registry_inv_def)
  from 4 show ?case
    by (elim registry_inv_cong [rotated -1])
      (auto simp: kick_all_def split_beta Let_def mpsc_send_all_sent [OF d])
next
  case (5 i p r)
  have d: "distinct (map (\<lambda>(_, _, ch). ch) (filter P (gr_sessions r)))" for P
    using 5 by (auto simp: registry_inv_def session_channels_def intro: distinct_map_filter)
  from 5 show ?case
    by (elim registry_inv_cong [rotated -1])
      (auto simp: registry_permissions_def mpsc_send_all_sent [OF d])
qed (elim registry_inv_cong [rotated -1];
     auto simp: registry_subscribe_def kick_def registry_ask_def registry_request_def
       finish_request_def split_beta Let_def split: option.splits)+

lemma registry_run_inv: "registry_inv r \<Longrightarrow> registry_inv (registry_run ops r)"
  by (induction ops arbitrary: r) (simp_all add: registry_run_def registry_apply_inv)

lemma registry_default_inv: "registry_inv registry_default"
  by (simp add: registry_inv_def registry_default_def session_channels_def btree_sorted_def)

subsection \<open>Consent\<close>





lemma registry_join_answers [simp]:
  "gr_pending (fst (registry_join g r)) = gr_pending r" "gr_answers (fst (registry_join g r)) = gr_answers r"
  by (simp_all add: registry_join_def split_beta Let_def)

lemma drop_guard_answers [simp]:
  "gr_pending (drop_guard i r) = gr_pending r" "gr_answers (drop_guard i r) = gr_answers r"
  by (simp_all add: drop_guard_def split: option.splits prod.splits)

lemma kick_answers [simp]:
  "gr_pending (fst (kick i r)) = gr_pending r" "gr_answers (fst (kick i r)) = gr_answers r"
  "gr_pending (fst (kick_all r)) = gr_pending r" "gr_answers (fst (kick_all r)) = gr_answers r"
  "gr_pending (registry_permissions i p r) = gr_pending r" "gr_answers (registry_permissions i p r) = gr_answers r"
  "gr_pending (fst (registry_subscribe r)) = gr_pending r" "gr_answers (fst (registry_subscribe r)) = gr_answers r"
  by (simp_all add: kick_def kick_all_def registry_permissions_def registry_subscribe_def split_beta Let_def
      split: option.splits prod.splits)







section \<open>Properties\<close>

text \<open>C39. A guest is never shown a stale occupancy: after any sequence of joins, leaves, kicks,
  permission changes, receptions and thread ends, the last status sent to each registered session
  whose thread still listens lists the names of exactly the sessions registered now.\<close>

theorem guest_status_current:
  assumes "r = registry_run ops registry_default" and "(i, g, ch) \<in> set (gr_sessions r)"
    and "\<not> ch_dropped (gr_commands r) ch"
  shows "statuses (ch_sent (gr_commands r) ch) \<noteq> [] \<and>
    hst_guest_names (last (statuses (ch_sent (gr_commands r) ch))) = map gs_name (registry_sessions r)"
proof -
  from assms(2) have "ch \<in> set (session_channels r)" by (force simp: session_channels_def)
  with registry_run_inv [OF registry_default_inv, of ops] assms(1,3) show ?thesis
    by (auto simp: registry_inv_def occupancy_def)
qed

definition sample_guest :: guest_session where
  "sample_guest = \<lparr>gs_id = [1], gs_pairing_id = [2], gs_name = [65], gs_peer = (0, 0), gs_trust = Owner,
     gs_connected_at = 0\<rparr>"

lemma guest_status_current_witness:
  "hst_guest_names (last (statuses (ch_sent (gr_commands
     (registry_run [OpJoin sample_guest, OpJoin (sample_guest\<lparr>gs_id := [3], gs_name := [66]\<rparr>)] registry_default)) 0))) = [[65], [66]]"
proof -
  let ?r = "registry_run [OpJoin sample_guest, OpJoin (sample_guest\<lparr>gs_id := [3], gs_name := [66]\<rparr>)] registry_default"
  have s: "gr_sessions ?r = [([1], sample_guest, 0), ([3], sample_guest\<lparr>gs_id := [3], gs_name := [66]\<rparr>, 1)]"
    and d: "\<not> ch_dropped (gr_commands ?r) 0"
    by (simp_all add: registry_run_def registry_join_def registry_default_def sample_guest_def mpsc_new_def
        mpsc_channel_def notify_def publish_status_def Let_def)
  from guest_status_current [OF refl _ d, of "[1]" sample_guest] show ?thesis
    by (simp add: s registry_sessions_def) (simp add: sample_guest_def)
qed


end
