(* ===== verification/Host_Types.thy ===== *)
theory Host_Types
  imports Control Tls_Psk Udp_Gcm Guest_Registry
begin

text \<open>
  The types and the pure decisions of the host server, \<open>maho-host/src/session.rs\<close>: its errors,
  configuration, connection states, the stall watch, which displays it offers, which stream options
  it accepts and how it scales them, and the ceiling of what it lets a guest do.

  The operating system the code was compiled for (\<open>cfg!(target_os = ...)\<close>) is a value here.
\<close>

datatype host_os = Linux | Windows | Macos

definition HEARTBEAT_INTERVAL :: duration where "HEARTBEAT_INTERVAL = from_secs 2"
definition HEARTBEAT_TIMEOUT :: duration where "HEARTBEAT_TIMEOUT = from_secs 30"
definition SESSION_STALL_TIMEOUT :: duration where "SESSION_STALL_TIMEOUT = from_secs 30"
definition MAX_CONCURRENT_CONNECTIONS :: usize where "MAX_CONCURRENT_CONNECTIONS = 16"
definition PAIRING_WINDOW :: duration where "PAIRING_WINDOW = from_secs 300"

datatype host_error =
    HostIo io_error
  | HostTls tls_psk_error
  | HostCodec codec_error
  | HostCipher datagram_error
  | HostStore
  | InvalidPin
  | ConsentUnavailable
  | ConsentTimeout
  | NotAuthenticated
  | AlreadyAuthenticated
  | IdentityMismatch
  | UnknownPairing
  | MediaStopped
  | PeerLacksRegistration

text \<open>\<open>PairingRecord\<close>.\<close>

record host_pairing =
  hpr_id :: rstring
  hpr_name :: rstring
  hpr_key :: bytes
  hpr_added_at_unix_ms :: u64

text \<open>\<open>SessionState\<close> and the packets each state admits.\<close>

datatype host_state = PreAuth | PairingGranted | Authenticated | Closed

fun state_allows :: "host_state \<Rightarrow> packet_type \<Rightarrow> bool" where
  "state_allows PreAuth ty = (ty = PairingRequest_Pkt \<or> ty = Handshake_Pkt)"
| "state_allows PairingGranted ty = (ty = Handshake_Pkt)"
| "state_allows Authenticated ty = (ty = InputEvent_Pkt \<or> ty = Control_Pkt)"
| "state_allows Closed ty = False"

section \<open>The stall watch\<close>

text \<open>\<open>SessionWatch\<close>: the worker ticks it, the watchdog thread reads it.\<close>

record session_watch =
  sw_origin :: instant
  sw_progress_ms :: u64
  sw_timeout :: duration
  sw_aborted :: bool

definition watch_new :: "instant \<Rightarrow> duration \<Rightarrow> session_watch" where
  "watch_new now timeout = \<lparr>sw_origin = now, sw_progress_ms = 0, sw_timeout = timeout, sw_aborted = False\<rparr>"

text \<open>\<open>as_millis() as u64\<close>.\<close>

definition millis :: "duration \<Rightarrow> u64" where
  "millis d = word_of_nat (d div 1000000)"

definition watch_tick :: "instant \<Rightarrow> session_watch \<Rightarrow> session_watch" where
  "watch_tick now w = w\<lparr>sw_progress_ms := millis (now - sw_origin w)\<rparr>"

definition watch_idle :: "instant \<Rightarrow> session_watch \<Rightarrow> duration" where
  "watch_idle now w = unat (saturating_sub (millis (now - sw_origin w)) (sw_progress_ms w)) * 1000000"

definition watch_abort :: "session_watch \<Rightarrow> session_watch" where
  "watch_abort w = w\<lparr>sw_aborted := True\<rparr>"

definition watchdog_should_abort :: "bool \<Rightarrow> duration \<Rightarrow> duration \<Rightarrow> bool" where
  "watchdog_should_abort finished idle timeout \<longleftrightarrow> \<not> finished \<and> idle \<ge> timeout"

section \<open>Configuration\<close>

text \<open>The scale factor is a \<open>f32\<close> division in the source and a given value here.\<close>

record display_info =
  di_desktop_x :: i32
  di_desktop_y :: i32
  di_logical_width :: u32
  di_logical_height :: u32
  di_pixel_width :: u32
  di_pixel_height :: u32
  di_scale_factor :: f32

text \<open>\<open>HostConfig\<close>, less the addresses, the store and the two atomic switches, which a session
  reads anew each time.\<close>

record host_config =
  hcf_bootstrap_pin :: "rstring option"
  hcf_pairing_window :: duration
  hcf_host_name :: rstring
  hcf_display :: display_info
  hcf_frames_per_second :: u32
  hcf_bitrate :: u32
  hcf_capture_audio :: bool
  hcf_consent_sender :: bool
  hcf_output_name :: "rstring option"

text \<open>\<open>host_guest_capabilities\<close>: the platform probes are whether the gamepad device is available
  and whether the Linux clipboard backend is Wayland.\<close>

definition host_guest_capabilities :: "host_os \<Rightarrow> bool \<Rightarrow> bool \<Rightarrow> capabilities" where
  "host_guest_capabilities os gamepad wayland =
     (let c = foldl capabilities_bitor HOST_STATUS [SESSION_ENDED, GUEST_PERMISSIONS, PAIRING_TRUST, RTT_PROBE];
          c = (if os = Windows then capabilities_bitor c SECURE_ATTENTION else c);
          c = (if os \<noteq> Macos \<and> gamepad then capabilities_bitor c GAMEPAD else c);
          c = (if os \<noteq> Macos then capabilities_bitor c TEXT_CLIPBOARD_SYNC else c);
          c = (if os = Windows \<or> os = Linux \<and> wayland then capabilities_bitor c CLIPBOARD_IMAGE else c)
      in c)"

definition permission_ceiling ::
  "host_os \<Rightarrow> host_config \<Rightarrow> host_policy \<Rightarrow> capabilities \<Rightarrow> bool \<Rightarrow> guest_permissions" where
  "permission_ceiling os config policy host_caps clipboard =
     \<lparr>gp_keyboard = hp_allow_input policy, gp_mouse = hp_allow_input policy,
      gp_gamepad = (hp_allow_input policy \<and> capabilities_contains host_caps GAMEPAD),
      gp_clipboard = (hp_allow_clipboard policy \<and> clipboard \<and> os \<noteq> Macos),
      gp_audio = hcf_capture_audio config\<rparr>"

text \<open>What an old client is told of its permissions.\<close>

definition policy_of :: "guest_permissions \<Rightarrow> host_policy" where
  "policy_of p = \<lparr>hp_allow_input = (gp_keyboard p \<and> gp_mouse p), hp_allow_clipboard = gp_clipboard p\<rparr>"

definition session_end_message :: "capabilities \<Rightarrow> session_end_reason \<Rightarrow> control_message" where
  "session_end_message peer reason =
     (if capabilities_contains peer SESSION_ENDED then SessionEnded \<lparr>se_reason = reason\<rparr> else Disconnect)"

definition permissions_message :: "capabilities \<Rightarrow> guest_permissions \<Rightarrow> control_message option" where
  "permissions_message peer permissions =
     (if capabilities_contains peer GUEST_PERMISSIONS then Some (GuestPermissions permissions)
      else if capabilities_contains peer STREAM_OPTIONS then Some (HostPolicy (policy_of permissions))
      else None)"

section \<open>Displays\<close>

definition is_char_boundary :: "rstring \<Rightarrow> nat \<Rightarrow> bool" where
  "is_char_boundary s i \<longleftrightarrow> i = 0 \<or> i = length s \<or> i < length s \<and> \<not> utf8_cont (s ! i)"

fun char_floor :: "rstring \<Rightarrow> nat \<Rightarrow> nat" where
  "char_floor s 0 = 0"
| "char_floor s (Suc n) = (if is_char_boundary s (Suc n) then Suc n else char_floor s n)"

definition truncate_str_to_bytes :: "rstring \<Rightarrow> nat \<Rightarrow> rstring" where
  "truncate_str_to_bytes s max_bytes =
     (if length s \<le> max_bytes then s else take (char_floor s max_bytes) s)"

text \<open>A monitor as the compositor lists it, with the defaults of the absent fields and the casts of
  its numbers done.\<close>

record monitor =
  mon_disabled :: bool
  mon_name :: rstring
  mon_width :: u32
  mon_height :: u32
  mon_focused :: bool

fun monitor_displays :: "monitor list \<Rightarrow> host_display list \<Rightarrow> host_display list" where
  "monitor_displays [] displays = displays"
| "monitor_displays (item # items) displays =
     (if length displays \<ge> MAX_HOST_DISPLAYS then displays
      else if mon_disabled item then monitor_displays items displays
      else monitor_displays items (displays @
        [\<lparr>hd_index = word_of_nat (length displays), hd_width = mon_width item, hd_height = mon_height item,
          hd_primary = mon_focused item,
          hd_name = truncate_str_to_bytes (mon_name item) MAX_HOST_DISPLAY_NAME_BYTES\<rparr>]))"

text \<open>What the platform reports: the compositor's monitors on Linux, displays from the system calls
  on the other two.\<close>

datatype display_probe = Monitors "monitor list" | SystemDisplays "host_display list" | NoProbe

definition host_displays :: "host_config \<Rightarrow> display_probe \<Rightarrow> host_display list" where
  "host_displays config probe =
     (let displays = (case probe of Monitors ms \<Rightarrow> monitor_displays ms [] | SystemDisplays ds \<Rightarrow> ds | NoProbe \<Rightarrow> [])
      in if displays \<noteq> [] then displays
         else
         let raw_name = (if hcf_host_name config = [] then ascii ''primary'' else hcf_host_name config)
         in [\<lparr>hd_index = 0, hd_width = di_pixel_width (hcf_display config),
              hd_height = di_pixel_height (hcf_display config), hd_primary = True,
              hd_name = truncate_str_to_bytes raw_name MAX_HOST_DISPLAY_NAME_BYTES\<rparr>])"

text \<open>\<open>iter().find(|d| d.primary).or(first())\<close>.\<close>

definition primary_or_first :: "host_display list \<Rightarrow> host_display option" where
  "primary_or_first displays =
     (case find hd_primary displays of
        Some d \<Rightarrow> Some d
      | None \<Rightarrow> (case displays of [] \<Rightarrow> None | d # _ \<Rightarrow> Some d))"

section \<open>Stream options\<close>

definition validate_stream_options ::
  "stream_options_request \<Rightarrow> host_display list \<Rightarrow> stream_configuration_error_code \<times> rstring + unit" where
  "validate_stream_options request displays =
     (if \<not> (100 \<le> sor_scale_permille request \<and> sor_scale_permille request \<le> 1000)
      then Inl (UnsupportedDimensions, ascii ''unsupported scale '' @ decimal (unat (sor_scale_permille request)) @
                  ascii '' permille; must be 100..=1000'')
      else if \<not> (1 \<le> sor_fps request \<and> sor_fps request \<le> 240)
      then Inl (UnsupportedFps, ascii ''unsupported fps '' @ decimal (unat (sor_fps request)) @
                  ascii ''; must be 1..=240'')
      else if unat (sor_display_index request) \<ge> length displays
      then Inl (InvalidRequest, ascii ''display index '' @ decimal (unat (sor_display_index request)) @
                  ascii '' out of range; '' @ decimal (length displays) @ ascii '' displays available'')
      else Inr ())"

text \<open>The legacy request: what is refused, and with which message.\<close>

definition reject_stream_config ::
  "stream_configuration \<Rightarrow> (stream_configuration_error_code \<times> rstring) option" where
  "reject_stream_config desired =
     (if sc_width desired = 0 \<or> sc_height desired = 0 \<or> sc_width desired > 7680 \<or> sc_height desired > 4320
      then Some (UnsupportedDimensions, ascii ''unsupported dimensions'')
      else if sc_frames_per_second desired = 0 \<or> sc_frames_per_second desired > 240
      then Some (UnsupportedFps, ascii ''unsupported fps'')
      else if sc_bitrate desired < 100000 \<or> sc_bitrate desired > 300000000
      then Some (UnsupportedBitrate, ascii ''unsupported bitrate'')
      else None)"

text \<open>The two places that scale a dimension cast in a different order.\<close>

definition restart_dimension :: "u32 \<Rightarrow> u16 \<Rightarrow> u32" where
  "restart_dimension d scale =
     max (ucast ((ucast d :: u64) * ucast scale div 1000) AND NOT 1) 2"

definition options_dimension :: "u32 \<Rightarrow> u16 \<Rightarrow> u32" where
  "options_dimension d scale = ucast (max (((ucast d :: u64) * ucast scale div 1000) AND NOT 1) 2)"

record stream_restart =
  sr_width :: u32
  sr_height :: u32
  sr_scale_permille :: u16
  sr_fps :: u32
  sr_codec :: stream_codec_preference
  sr_output_name :: "rstring option"
  sr_bitrate :: u32

fun resolve_codec :: "stream_codec_preference \<Rightarrow> stream_codec_preference" where
  "resolve_codec Auto = Hevc"
| "resolve_codec Hevc = Hevc"
| "resolve_codec H264 = H264"

section \<open>Properties\<close>

end
