(* ===== verification/Host_Session.thy ===== *)
theory Host_Session
  imports Host_Types Clipboard_Image Pairing Handshake
begin

text \<open>
  One connection of the host, \<open>HostServer::handle_connection\<close> of \<open>maho-host/src/session.rs\<close>: the
  loop that reads a packet, keeps the house (stop requests, lost displays, kicks, expiry, permission
  changes, clipboard, heartbeats) and answers the packet, from the first byte after the TLS
  handshake to the teardown.

  The locals of the function are the record \<open>host_conn\<close>; its \<open>?\<close>, \<open>break\<close> and \<open>continue\<close> are the
  outcomes \<open>Fail\<close>, \<open>Break\<close> and \<open>Continue\<close> of the state monad \<open>hm\<close>. Everything the function asks of the
  outside (clock, socket, store, displays, media, clipboard, the user's consent, other threads)
  is a field of \<open>host_env\<close>, a function of the number of questions asked before, so that two
  readings of a clock differ as they may in reality. What it does to the outside is logged in
  \<open>hc_trace\<close> in order. \<open>SetEffective\<close> is the one entry that is no effect: it records an assignment
  of \<open>effective_permissions\<close>.

  Log lines and the \<open>input_disabled_warned\<close> flag that only silences them, the trace dump, and the
  flush of coalesced text of the Linux injector are left out. That the watchdog may take
  the media pipeline out of its slot shows as the \<open>aborted\<close> answer only.
\<close>

section \<open>The state\<close>

datatype host_effect =
    Sent bytes
  | Injected input_event bool
  | SetEffective guest_permissions
  | ConsentAsked pending_request
  | ConsentAnswered "pairing_trust option option"
  | AuthorizationStored rstring pairing_trust "guest_permissions option"
  | PairingStored host_pairing
  | GuestJoined guest_session
  | GuestLeft guest_session
  | MediaStarted
  | MediaRestarted stream_restart
  | MediaStop
  | KeyFrameForced
  | BitrateUpdated u32
  | SenderStarted "nat \<times> nat"
  | AppliedText rstring
  | AppliedImage bytes

datatype host_read = ReadPacket bytes | ReadNothing | ReadError tls_psk_error bool

datatype udp_read = Datagram "nat \<times> nat" bytes | UdpIgnored | UdpWouldBlock | UdpFailed io_error

text \<open>\<open>ReadError e syscall\<close>: the error, and whether its cause is OpenSSL's \<open>SYSCALL\<close>. \<open>UdpIgnored\<close>
  are the receive errors the code skips. A socket address is an IP and a port.\<close>

record host_env =
  he_os :: host_os
  he_config :: host_config
  he_identity :: rstring
  he_caps :: capabilities
  he_peer :: "nat \<times> nat"
  he_admission_deadline :: instant
  he_pairing_deadline :: "instant option"
  he_restart_factory :: bool
  he_clipboard :: bool
  he_open :: aead_dec
  he_hkdf :: hkdf
  he_png :: png_crate
  he_now :: "nat \<Rightarrow> instant"
  he_unix_ms :: "nat \<Rightarrow> u64"
  he_policy :: "nat \<Rightarrow> host_policy"
  he_stop :: "nat \<Rightarrow> bool"
  he_aborted :: "nat \<Rightarrow> bool"
  he_media_failed :: "nat \<Rightarrow> bool"
  he_read :: "nat \<Rightarrow> host_read"
  he_write :: "nat \<Rightarrow> bytes \<Rightarrow> tls_psk_error option"
  he_set_timeout :: "nat \<Rightarrow> io_error option"
  he_probe :: "nat \<Rightarrow> display_probe"
  he_media_start :: "nat \<Rightarrow> host_error option"
  he_swap :: "nat \<Rightarrow> bool"
  he_retarget :: "nat \<Rightarrow> io_error option"
  he_cpu_scaling :: "nat \<Rightarrow> bool"
  he_force_key :: "nat \<Rightarrow> host_error option"
  he_set_bitrate :: "nat \<Rightarrow> u32 \<Rightarrow> host_error option"
  he_inject :: "nat \<Rightarrow> input_event \<Rightarrow> bool"
  he_poll_text :: "nat \<Rightarrow> rstring option"
  he_poll_image :: "nat \<Rightarrow> bytes option"
  he_commands :: "nat \<Rightarrow> guest_command list"
  he_consent_send :: "nat \<Rightarrow> bool"
  he_consent :: "nat \<Rightarrow> duration \<Rightarrow> pairing_trust option option"
  he_lockout :: "nat \<Rightarrow> bootstrap_lockout"
  he_uuid :: "nat \<Rightarrow> rstring"
  he_random_key :: "nat \<Rightarrow> bytes"
  he_load :: "nat \<Rightarrow> rstring \<Rightarrow> host_error + host_pairing option"
  he_authorization :: "nat \<Rightarrow> rstring \<Rightarrow> host_error + pairing_trust \<times> guest_permissions option"
  he_set_authorization :: "nat \<Rightarrow> host_error option"
  he_save :: "nat \<Rightarrow> host_error option"
  he_registry :: "nat \<Rightarrow> registry"
  he_udp :: "nat \<Rightarrow> udp_read"
  he_clone_socket :: "nat \<Rightarrow> io_error option"
  he_error_text :: "host_error \<Rightarrow> rstring"

record host_conn =
  hc_tick :: nat
  hc_trace :: "host_effect list"
  hc_state :: host_state
  hc_granted :: "rstring option"
  hc_provisional :: "host_pairing option"
  hc_trust :: pairing_trust
  hc_peer_caps :: capabilities
  hc_guest :: "guest_session option"
  hc_grant :: guest_permissions
  hc_effective :: guest_permissions
  hc_audio_allowed :: bool
  hc_c2h :: "datagram_cipher option"
  hc_h2c :: "datagram_cipher option"
  hc_udp_peer :: "(nat \<times> nat) option"
  hc_media_receiver :: bool
  hc_pipeline :: bool
  hc_sender :: bool
  hc_stream_dims :: "u32 \<times> u32"
  hc_bitrate :: u32
  hc_topology :: "host_display list"
  hc_output :: "rstring option"
  hc_scale :: u16
  hc_fps :: u32
  hc_codec :: stream_codec_preference
  hc_topology_check :: instant
  hc_injected :: bool
  hc_sleep_guard :: bool
  hc_clipboard_sync :: bool
  hc_images :: host_assembly
  hc_image_id :: u32
  hc_next_image_poll :: instant
  hc_next_clipboard_poll :: instant
  hc_peer_stream_options :: bool
  hc_last_policy :: host_policy
  hc_last_pong :: instant
  hc_next_ping :: instant

section \<open>The monad\<close>

datatype 'a flow = Done 'a | Fail host_error | Break | Continue

type_synonym 'a hm = "host_conn \<Rightarrow> host_conn \<times> 'a flow"

definition hret :: "'a \<Rightarrow> 'a hm" where
  "hret x = (\<lambda>s. (s, Done x))"

definition hfail :: "host_error \<Rightarrow> 'a hm" where
  "hfail e = (\<lambda>s. (s, Fail e))"

definition hbreak :: "'a hm" where
  "hbreak = (\<lambda>s. (s, Break))"

definition hcontinue :: "'a hm" where
  "hcontinue = (\<lambda>s. (s, Continue))"

definition hbind :: "'a hm \<Rightarrow> ('a \<Rightarrow> 'b hm) \<Rightarrow> 'b hm" where
  "hbind m f = (\<lambda>s. case m s of
     (s', Done x) \<Rightarrow> f x s'
   | (s', Fail e) \<Rightarrow> (s', Fail e)
   | (s', Break) \<Rightarrow> (s', Break)
   | (s', Continue) \<Rightarrow> (s', Continue))"

definition hthen :: "'a hm \<Rightarrow> 'b hm \<Rightarrow> 'b hm" where
  "hthen m k = hbind m (\<lambda>_. k)"

definition hget :: "host_conn hm" where
  "hget = (\<lambda>s. (s, Done s))"

definition hmodify :: "(host_conn \<Rightarrow> host_conn) \<Rightarrow> unit hm" where
  "hmodify f = (\<lambda>s. (f s, Done ()))"

definition hwhen :: "bool \<Rightarrow> unit hm \<Rightarrow> unit hm" where
  "hwhen b m = (if b then m else hret ())"

text \<open>A question to the outside, and an effect on it.\<close>

definition hask :: "(nat \<Rightarrow> 'a) \<Rightarrow> 'a hm" where
  "hask q = (\<lambda>s. (s\<lparr>hc_tick := hc_tick s + 1\<rparr>, Done (q (hc_tick s))))"

definition hlog :: "host_effect \<Rightarrow> unit hm" where
  "hlog x = (\<lambda>s. (s\<lparr>hc_trace := hc_trace s @ [x]\<rparr>, Done ()))"

text \<open>\<open>if let Err(error) = ...\<close>: an error becomes a value.\<close>

definition htry :: "'a hm \<Rightarrow> (host_error + 'a) hm" where
  "htry m = (\<lambda>s. case m s of
     (s', Done x) \<Rightarrow> (s', Done (Inr x))
   | (s', Fail e) \<Rightarrow> (s', Done (Inl e))
   | (s', Break) \<Rightarrow> (s', Break)
   | (s', Continue) \<Rightarrow> (s', Continue))"

definition hresult :: "('e \<Rightarrow> host_error) \<Rightarrow> 'e + 'a \<Rightarrow> 'a hm" where
  "hresult wrap r = (case r of Inl e \<Rightarrow> hfail (wrap e) | Inr x \<Rightarrow> hret x)"

definition hcheck :: "('e \<Rightarrow> host_error) \<Rightarrow> 'e option \<Rightarrow> unit hm" where
  "hcheck wrap r = (case r of Some e \<Rightarrow> hfail (wrap e) | None \<Rightarrow> hret ())"

definition hok_or :: "host_error \<Rightarrow> 'a option \<Rightarrow> 'a hm" where
  "hok_or e r = (case r of None \<Rightarrow> hfail e | Some x \<Rightarrow> hret x)"

section \<open>Sending\<close>

definition split_packet :: "bytes \<Rightarrow> codec_error + packet_header \<times> bytes" where
  "split_packet packet =
     (if length packet < packet_header_SIZE
      then Inl (Truncated ''packet header'' packet_header_SIZE (length packet))
      else try_bind (decode_packet_header (take packet_header_SIZE packet)) (\<lambda>header.
           Inr (header, drop packet_header_SIZE packet)))"

definition send_tcp_packet :: "host_env \<Rightarrow> packet_type \<Rightarrow> bytes \<Rightarrow> unit hm" where
  "send_tcp_packet e ty payload =
     hbind (hask (he_unix_ms e)) (\<lambda>ms.
     hbind (hresult HostCodec (encode_packet_header (packet_header_new ty 0 (ucast ms) 0))) (\<lambda>header.
     let packet = header @ payload in
     hbind (hask (\<lambda>n. he_write e n packet)) (\<lambda>r.
     hthen (hcheck HostTls r) (hlog (Sent packet)))))"

definition send_tcp_control :: "host_env \<Rightarrow> control_message \<Rightarrow> unit hm" where
  "send_tcp_control e message =
     hbind (hresult HostCodec (encode_control_message message)) (\<lambda>payload.
     send_tcp_packet e Control_Pkt payload)"

definition send_pairing_reject :: "host_env \<Rightarrow> pairing_reject_reason \<Rightarrow> unit hm" where
  "send_pairing_reject e reason =
     hbind (hresult HostCodec (encode_pairing_reject \<lparr>prej_reason = reason\<rparr>)) (\<lambda>payload.
     send_tcp_packet e PairingReject_Pkt payload)"

definition send_session_end :: "host_env \<Rightarrow> capabilities \<Rightarrow> session_end_reason \<Rightarrow> unit hm" where
  "send_session_end e peer reason = send_tcp_control e (session_end_message peer reason)"

definition send_permissions :: "host_env \<Rightarrow> capabilities \<Rightarrow> guest_permissions \<Rightarrow> unit hm" where
  "send_permissions e peer permissions =
     (case permissions_message peer permissions of
        Some message \<Rightarrow> send_tcp_control e message
      | None \<Rightarrow> hret ())"

fun send_all_controls :: "host_env \<Rightarrow> control_message list \<Rightarrow> unit hm" where
  "send_all_controls e [] = hret ()"
| "send_all_controls e (m # ms) = hthen (send_tcp_control e m) (send_all_controls e ms)"

section \<open>Questions\<close>

definition now_m :: "host_env \<Rightarrow> instant hm" where
  "now_m e = hask (he_now e)"

definition ceiling_m :: "host_env \<Rightarrow> bool \<Rightarrow> guest_permissions hm" where
  "ceiling_m e clipboard =
     hbind (hask (he_policy e)) (\<lambda>policy.
     hret (permission_ceiling (he_os e) (he_config e) policy (he_caps e) clipboard))"

definition displays_m :: "host_env \<Rightarrow> host_display list hm" where
  "displays_m e = hbind (hask (he_probe e)) (\<lambda>probe. hret (host_displays (he_config e) probe))"

definition is_pairing_active :: "host_env \<Rightarrow> bool hm" where
  "is_pairing_active e =
     (case he_pairing_deadline e of
        None \<Rightarrow> hret False
      | Some deadline \<Rightarrow>
          hbind (now_m e) (\<lambda>now.
          if \<not> now < deadline then hret False
          else
          hbind (hask (he_lockout e)) (\<lambda>lockout.
          hbind (now_m e) (\<lambda>now.
          hret (lockout_is_allowed lockout now)))))"

text \<open>\<open>inject_input\<close>: a failed injection is a \<open>false\<close>.\<close>

definition inject_input :: "host_env \<Rightarrow> input_event \<Rightarrow> bool hm" where
  "inject_input e event =
     hbind (hask (\<lambda>n. he_inject e n event)) (\<lambda>success.
     hthen (hlog (Injected event success)) (hret success))"

definition host_reset_input :: input_event where
  "host_reset_input = \<lparr>ie_event_type = InputReset, ie_x = f32_zero, ie_y = f32_zero, ie_key_code = 0,
     ie_modifiers = modifiers_empty, ie_scroll_dx = f32_zero, ie_scroll_dy = f32_zero\<rparr>"

text \<open>The assignment of \<open>effective_permissions\<close>, on record.\<close>

definition set_effective :: "guest_permissions \<Rightarrow> unit hm" where
  "set_effective p = (\<lambda>s. (s\<lparr>hc_effective := p, hc_trace := hc_trace s @ [SetEffective p]\<rparr>, Done ()))"

section \<open>The start of a connection\<close>

text \<open>The locals before the loop. \<open>host_caps\<close> is \<open>he_caps\<close>; creating the input injector may fail,
  which \<open>he_retarget\<close> answers.\<close>

definition host_conn_blank :: "host_env \<Rightarrow> host_conn" where
  "host_conn_blank e = (let none = permission_ceiling (he_os e) (he_config e)
       \<lparr>hp_allow_input = False, hp_allow_clipboard = False\<rparr> 0 False in
     \<lparr>hc_tick = 0, hc_trace = [], hc_state = PreAuth, hc_granted = None, hc_provisional = None,
      hc_trust = GuestOnce, hc_peer_caps = capabilities_empty, hc_guest = None, hc_grant = none,
      hc_effective = none, hc_audio_allowed = False, hc_c2h = None, hc_h2c = None, hc_udp_peer = None,
      hc_media_receiver = False, hc_pipeline = False, hc_sender = False,
      hc_stream_dims = (di_pixel_width (hcf_display (he_config e)), di_pixel_height (hcf_display (he_config e))),
      hc_bitrate = hcf_bitrate (he_config e), hc_topology = [], hc_output = None, hc_scale = 1000,
      hc_fps = max (hcf_frames_per_second (he_config e)) 1, hc_codec = Auto, hc_topology_check = 0,
      hc_injected = False, hc_sleep_guard = False, hc_clipboard_sync = False,
      hc_images = host_assembly_default, hc_image_id = 0, hc_next_image_poll = 0,
      hc_next_clipboard_poll = 0, hc_peer_stream_options = False,
      hc_last_policy = \<lparr>hp_allow_input = False, hp_allow_clipboard = False\<rparr>, hc_last_pong = 0, hc_next_ping = 0\<rparr>)"

definition connection_start :: "host_env \<Rightarrow> unit hm" where
  "connection_start e =
     hbind (hask (he_set_timeout e)) (\<lambda>r. hthen (hcheck HostIo r) (
     hbind (ceiling_m e True) (\<lambda>grant.
     hbind (ceiling_m e False) (\<lambda>effective.
     hthen (hmodify (\<lambda>s. s\<lparr>hc_grant := grant\<rparr>)) (
     hthen (set_effective effective) (
     hbind (hask (he_retarget e)) (\<lambda>r. hthen (hcheck HostIo r) (
     hbind (now_m e) (\<lambda>pong.
     hbind (now_m e) (\<lambda>ping.
     hbind (displays_m e) (\<lambda>topology.
     hbind (now_m e) (\<lambda>check.
     hbind (now_m e) (\<lambda>image_poll.
     hbind (now_m e) (\<lambda>clipboard_poll.
     hbind (hask (he_policy e)) (\<lambda>policy.
     hmodify (\<lambda>s. s\<lparr>hc_last_pong := pong, hc_next_ping := ping + HEARTBEAT_INTERVAL,
       hc_topology := topology,
       hc_output := (case hcf_output_name (he_config e) of
           Some name \<Rightarrow> Some name
         | None \<Rightarrow> map_option hd_name (primary_or_first topology)),
       hc_topology_check := check + from_secs 2, hc_next_image_poll := image_poll,
       hc_next_clipboard_poll := clipboard_poll, hc_last_policy := policy\<rparr>))))))))))))))))"

section \<open>The head of an iteration\<close>

definition check_stop :: "host_env \<Rightarrow> unit hm" where
  "check_stop e =
     hbind (hask (he_aborted e)) (\<lambda>aborted.
     if aborted then hbreak
     else
     hbind (hask (he_stop e)) (\<lambda>stop.
     if \<not> stop then hret ()
     else
     hbind hget (\<lambda>s.
     hthen (hwhen (hc_state s = Authenticated) (send_session_end e (hc_peer_caps s) HostStopped)) hbreak)))"

definition classify_read :: "host_read \<Rightarrow> bytes option hm" where
  "classify_read r =
     (case r of
        ReadPacket packet \<Rightarrow> hret (Some packet)
      | ReadNothing \<Rightarrow> hret None
      | ReadError error syscall \<Rightarrow>
          if error = TlsIo IoWouldBlock \<or> error = TlsIo IoTimedOut then hret None
          else if error \<in> {TlsIo IoUnexpectedEof, TlsIo IoConnectionReset, TlsIo IoBrokenPipe} \<or>
                  (case error of TlsIo _ \<Rightarrow> syscall | _ \<Rightarrow> False)
          then hbreak
          else hfail (HostTls error))"

text \<open>An orderly goodbye wins over whatever else is pending.\<close>

definition check_goodbye :: "bytes option \<Rightarrow> unit hm" where
  "check_goodbye packet =
     hbind hget (\<lambda>s.
     case packet of
       None \<Rightarrow> hret ()
     | Some packet \<Rightarrow>
         if hc_state s \<noteq> Authenticated then hret ()
         else
         hbind (hresult HostCodec (split_packet packet)) (\<lambda>(header, payload).
         if ph_packet_type header \<noteq> Control_Pkt then hret ()
         else
         hbind (hresult HostCodec (decode_control_message payload)) (\<lambda>control.
         if control = Disconnect \<or> control = StopStream then hbreak else hret ())))"

text \<open>The new receiver goes to the sender thread, or waits for it in \<open>media_receiver\<close>.\<close>

definition hand_over :: "u32 \<Rightarrow> u32 \<Rightarrow> unit hm" where
  "hand_over width height =
     hbind hget (\<lambda>s.
     if hc_sender s then hret ()
     else hmodify (\<lambda>s. s\<lparr>hc_media_receiver := True, hc_stream_dims := (width, height)\<rparr>))"

definition stop_old_pipeline :: "unit hm" where
  "stop_old_pipeline = hbind hget (\<lambda>s. hwhen (hc_pipeline s) (hlog MediaStop))"

definition restart_on :: "host_env \<Rightarrow> host_display \<Rightarrow> unit hm" where
  "restart_on e display =
     hbind hget (\<lambda>s.
     let width = restart_dimension (hd_width display) (hc_scale s);
         height = restart_dimension (hd_height display) (hc_scale s);
         restart = \<lparr>sr_width = width, sr_height = height, sr_scale_permille = hc_scale s, sr_fps = hc_fps s,
                    sr_codec = hc_codec s, sr_output_name = Some (hd_name display), sr_bitrate = hc_bitrate s\<rparr>
     in
     hbind (hask (he_media_start e)) (\<lambda>started.
     hthen (hcheck (\<lambda>x. x) started) (
     hthen (hlog (MediaRestarted restart)) (
     hbind (hask (he_swap e)) (\<lambda>received.
     if hc_sender s \<and> \<not> received then hfail MediaStopped
     else
     hthen (hand_over width height) (
     hthen stop_old_pipeline (
     hthen (hmodify (\<lambda>s. s\<lparr>hc_pipeline := True, hc_output := Some (hd_name display)\<rparr>)) (
     hbind (hask (he_retarget e)) (\<lambda>r.
     hthen (hcheck HostIo (if he_os e = Macos then None else r)) (
     hwhen (hc_peer_stream_options s) (send_tcp_control e (StreamOptionsActive
       \<lparr>soa_request_id = 0, soa_width = width, soa_height = height, soa_fps = ucast (hc_fps s),
        soa_codec = hc_codec s, soa_display_index = hd_index display,
        soa_bitrate = hc_bitrate s\<rparr>))))))))))))"

definition check_media :: "host_env \<Rightarrow> bool \<Rightarrow> unit hm" where
  "check_media e media_failed =
     hbind hget (\<lambda>s.
     hbind (now_m e) (\<lambda>now.
     if \<not> (media_failed \<or> hc_state s = Authenticated \<and> now \<ge> hc_topology_check s) then hret ()
     else
     hbind (now_m e) (\<lambda>now.
     hthen (hmodify (\<lambda>s. s\<lparr>hc_topology_check := now + from_secs 2\<rparr>)) (
     hbind (displays_m e) (\<lambda>displays.
     let disappeared = (case hc_output s of Some name \<Rightarrow> name \<notin> set (map hd_name displays) | None \<Rightarrow> False)
     in if media_failed \<and> \<not> disappeared then hfail MediaStopped
     else
     hthen (hwhen (hc_peer_stream_options s \<and> displays \<noteq> hc_topology s)
              (send_tcp_control e (HostDisplayList \<lparr>hdl_displays = displays\<rparr>))) (
     hthen (hmodify (\<lambda>s. s\<lparr>hc_topology := displays\<rparr>)) (
     if \<not> (media_failed \<or> disappeared) then hret ()
     else if \<not> he_restart_factory e then (if media_failed then hfail MediaStopped else hcontinue)
     else case primary_or_first displays of
            None \<Rightarrow> hfail MediaStopped
          | Some display \<Rightarrow> restart_on e display)))))))"

text \<open>Before authentication every write is bounded by the admission deadline, and passing the
  deadline ends the connection.\<close>

definition check_admission :: "host_env \<Rightarrow> unit hm" where
  "check_admission e =
     hbind hget (\<lambda>s.
     if hc_state s = Authenticated then hret ()
     else
     hbind (now_m e) (\<lambda>now.
     if now \<ge> he_admission_deadline e then hfail (HostIo IoTimedOut)
     else hbind (hask (he_set_timeout e)) (hcheck HostIo)))"

section \<open>Housekeeping of an authenticated connection\<close>

fun drain_commands :: "host_env \<Rightarrow> guest_command list \<Rightarrow> session_end_reason option hm" where
  "drain_commands e [] = hret None"
| "drain_commands e (GuestEnd reason # commands) = hret (Some reason)"
| "drain_commands e (GuestStatus status # commands) =
     hbind hget (\<lambda>s.
     hthen (hwhen (capabilities_contains (hc_peer_caps s) HOST_STATUS) (send_tcp_control e (HostStatus status))) (
     drain_commands e commands))"
| "drain_commands e (GuestPerms permissions # commands) =
     hthen (hmodify (\<lambda>s. s\<lparr>hc_grant := permissions\<rparr>)) (drain_commands e commands)"

definition check_commands :: "host_env \<Rightarrow> unit hm" where
  "check_commands e =
     hbind (hask (he_commands e)) (\<lambda>commands.
     hbind (drain_commands e commands) (\<lambda>end_reason.
     hbind hget (\<lambda>s.
     hbind (case hc_trust s of
              GuestExpiring expires_at_unix_ms \<Rightarrow>
                hbind (hask (he_unix_ms e)) (\<lambda>ms.
                hret (if ms \<ge> expires_at_unix_ms then Some GuestExpired else end_reason))
            | _ \<Rightarrow> hret end_reason) (\<lambda>end_reason.
     case end_reason of
       None \<Rightarrow> hret ()
     | Some reason \<Rightarrow> hthen (send_session_end e (hc_peer_caps s) reason) hbreak))))"

definition input_revoked :: "guest_permissions \<Rightarrow> guest_permissions \<Rightarrow> bool" where
  "input_revoked old new \<longleftrightarrow> gp_keyboard old \<and> \<not> gp_keyboard new \<or> gp_mouse old \<and> \<not> gp_mouse new \<or>
     gp_gamepad old \<and> \<not> gp_gamepad new"

definition sync_permissions :: "host_env \<Rightarrow> unit hm" where
  "sync_permissions e =
     hbind hget (\<lambda>s.
     hbind (ceiling_m e (hc_clipboard_sync s)) (\<lambda>ceiling.
     let current = intersect (hc_grant s) ceiling
     in if current = hc_effective s then hret ()
     else
     hthen (hwhen (input_revoked (hc_effective s) current)
              (hbind (inject_input e host_reset_input) (\<lambda>_. hret ()))) (
     hthen (set_effective current) (
     hthen (hmodify (\<lambda>s. s\<lparr>hc_audio_allowed := gp_audio current\<rparr>)) (
     send_permissions e (hc_peer_caps s) current)))))"

text \<open>\<open>discover_udp_peer\<close>: at most 32 datagrams are read; only one that opens under the session's
  cipher and is an empty ping registers its sender.\<close>

definition MAX_UDP_DISCOVERY_BURST :: usize where "MAX_UDP_DISCOVERY_BURST = 32"

fun discover_burst :: "host_env \<Rightarrow> nat \<Rightarrow> unit hm" where
  "discover_burst e 0 = hret ()"
| "discover_burst e (Suc n) =
     hbind (hask (he_udp e)) (\<lambda>r.
     case r of
       UdpWouldBlock \<Rightarrow> hret ()
     | UdpFailed error \<Rightarrow> hfail (HostIo error)
     | UdpIgnored \<Rightarrow> discover_burst e n
     | Datagram peer datagram \<Rightarrow>
         hbind hget (\<lambda>s.
         case hc_c2h s of
           None \<Rightarrow> hret ()
         | Some cipher \<Rightarrow>
             if fst peer \<noteq> fst (he_peer e) \<or> hc_udp_peer s \<noteq> None \<or> length datagram < 40
             then discover_burst e n
             else case open_datagram (he_open e) cipher (take 2048 datagram) of
                    (cipher, Inl _) \<Rightarrow>
                      hthen (hmodify (\<lambda>s. s\<lparr>hc_c2h := Some cipher\<rparr>)) (discover_burst e n)
                  | (cipher, Inr (header, payload)) \<Rightarrow>
                      hthen (hmodify (\<lambda>s. s\<lparr>hc_c2h := Some cipher\<rparr>)) (
                      if ph_packet_type header = Ping_Pkt \<and> payload = []
                      then hmodify (\<lambda>s. s\<lparr>hc_udp_peer := Some peer\<rparr>)
                      else discover_burst e n)))"

definition discover_udp_peer :: "host_env \<Rightarrow> unit hm" where
  "discover_udp_peer e =
     hbind hget (\<lambda>s. hwhen (hc_c2h s \<noteq> None) (discover_burst e MAX_UDP_DISCOVERY_BURST))"

definition start_sender :: "host_env \<Rightarrow> unit hm" where
  "start_sender e =
     hbind hget (\<lambda>s.
     if hc_sender s then hret ()
     else case (hc_media_receiver s, hc_udp_peer s) of
       (True, Some peer) \<Rightarrow>
         hthen (hmodify (\<lambda>s. s\<lparr>hc_media_receiver := False\<rparr>)) (
         hbind (hask (he_clone_socket e)) (\<lambda>r. hthen (hcheck HostIo r) (
         hbind (hok_or NotAuthenticated (hc_h2c s)) (\<lambda>cipher.
         hthen (hmodify (\<lambda>s. s\<lparr>hc_h2c := None, hc_sender := True\<rparr>)) (hlog (SenderStarted peer))))))
     | _ \<Rightarrow> hret ())"

definition has_clipboard :: "host_env \<Rightarrow> bool" where
  "has_clipboard e \<longleftrightarrow> he_os e = Windows \<or> he_os e = Linux \<and> he_clipboard e"

definition poll_image :: "host_env \<Rightarrow> instant \<Rightarrow> unit hm" where
  "poll_image e now =
     hbind hget (\<lambda>s.
     if \<not> (he_os e \<noteq> Macos \<and> hc_clipboard_sync s \<and> gp_clipboard (hc_effective s) \<and>
           capabilities_contains (hc_peer_caps s) CLIPBOARD_IMAGE \<and>
           capabilities_contains (he_caps e) CLIPBOARD_IMAGE \<and> now \<ge> hc_next_image_poll s)
     then hret ()
     else
     hthen (hmodify (\<lambda>s. s\<lparr>hc_next_image_poll := now + 500 * 1000000\<rparr>)) (
     if \<not> has_clipboard e then hret ()
     else
     hbind (hask (he_poll_image e)) (\<lambda>polled.
     case polled of
       None \<Rightarrow> hret ()
     | Some bs \<Rightarrow>
         if hc_image_id s = - 1 then hfail MediaStopped
         else
         let image_id = hc_image_id s + 1
         in hthen (hmodify (\<lambda>s. s\<lparr>hc_image_id := image_id\<rparr>)) (
            send_all_controls e (map ClipboardImageChunk (image_chunks image_id bs))))))"

text \<open>A client without the permissions message is told the policy again whenever it changes; a
  failed send is tried again in the next iteration.\<close>

definition sync_policy :: "host_env \<Rightarrow> unit hm" where
  "sync_policy e =
     hbind hget (\<lambda>s.
     let current_policy = policy_of (hc_effective s)
     in if hc_peer_stream_options s \<and> \<not> capabilities_contains (hc_peer_caps s) GUEST_PERMISSIONS \<and>
           current_policy \<noteq> hc_last_policy s
        then hbind (htry (send_tcp_control e (HostPolicy current_policy))) (\<lambda>r.
             case r of
               Inl _ \<Rightarrow> hret ()
             | Inr _ \<Rightarrow> hmodify (\<lambda>s. s\<lparr>hc_last_policy := current_policy\<rparr>))
        else hret ())"

definition heartbeat :: "host_env \<Rightarrow> instant \<Rightarrow> unit hm" where
  "heartbeat e now =
     hbind hget (\<lambda>s.
     hthen (if now \<ge> hc_next_ping s
            then hthen (send_tcp_control e Ping) (hmodify (\<lambda>s. s\<lparr>hc_next_ping := now + HEARTBEAT_INTERVAL\<rparr>))
            else hret ()) (
     if now - hc_last_pong s \<ge> HEARTBEAT_TIMEOUT then hbreak else hret ()))"

definition DEFAULT_POLL_INTERVAL :: duration where "DEFAULT_POLL_INTERVAL = 500 * 1000000"

definition poll_text :: "host_env \<Rightarrow> instant \<Rightarrow> unit hm" where
  "poll_text e now =
     hbind hget (\<lambda>s.
     if \<not> (he_os e \<noteq> Macos \<and> hc_clipboard_sync s \<and> gp_clipboard (hc_effective s)) then hret ()
     else
     let clipboard_due = (he_os e = Linux \<longrightarrow> now \<ge> hc_next_clipboard_poll s)
     in
     hthen (hwhen (he_os e = Linux \<and> clipboard_due)
              (hmodify (\<lambda>s. s\<lparr>hc_next_clipboard_poll := now + DEFAULT_POLL_INTERVAL\<rparr>))) (
     if \<not> (clipboard_due \<and> has_clipboard e) then hret ()
     else
     hbind (hask (he_poll_text e)) (\<lambda>polled.
     case polled of
       None \<Rightarrow> hret ()
     | Some text \<Rightarrow> send_tcp_control e (ClipboardSyncUpdate
         \<lparr>csu_request_id = 0, csu_direction = clipboard_sync_direction.HostToClient,
          csu_origin = LocalPasteboard, csu_text = text\<rparr>))))"

definition housekeeping :: "host_env \<Rightarrow> unit hm" where
  "housekeeping e =
     hbind hget (\<lambda>s.
     if hc_state s \<noteq> Authenticated then hret ()
     else
     hthen (hwhen (he_os e \<noteq> Macos) (
       hthen (hwhen (\<not> gp_clipboard (hc_effective s))
                (hmodify (\<lambda>s. s\<lparr>hc_images := host_assembly_cancel (hc_images s)\<rparr>))) (
       hbind (now_m e) (\<lambda>now.
       hmodify (\<lambda>s. s\<lparr>hc_images := host_assembly_expire now (hc_images s)\<rparr>))))) (
     hthen (check_commands e) (
     hthen (sync_permissions e) (
     hthen (hbind hget (\<lambda>s. hwhen (hc_udp_peer s = None) (discover_udp_peer e))) (
     hthen (start_sender e) (
     hbind (now_m e) (\<lambda>now.
     hthen (poll_image e now) (
     hthen (sync_policy e) (
     hthen (heartbeat e now) (
     poll_text e now))))))))))"

section \<open>Pairing\<close>

definition ascii_upper :: "rstring \<Rightarrow> rstring" where
  "ascii_upper s = map (\<lambda>b. if 0x61 \<le> b \<and> b \<le> 0x7A then b - 0x20 else b) s"

text \<open>The wait of a consent request ends with the admission or the pairing window, whichever is first.\<close>

definition consent_deadline :: "host_env \<Rightarrow> instant hm" where
  "consent_deadline e =
     hbind (hok_or ConsentTimeout (he_pairing_deadline e)) (\<lambda>deadline.
     hret (min (he_admission_deadline e) deadline))"

definition ask_consent :: "host_env \<Rightarrow> rstring \<Rightarrow> pairing_trust option hm" where
  "ask_consent e name =
     hbind (hask (he_uuid e)) (\<lambda>request_id.
     hbind (consent_deadline e) (\<lambda>expires_at.
     hthen (hlog (ConsentAsked \<lparr>prq_id = request_id, prq_name = name, prq_expires_at = expires_at\<rparr>)) (
     hbind (hask (he_consent_send e)) (\<lambda>delivered.
     if hcf_consent_sender (he_config e) \<and> \<not> delivered then hfail ConsentUnavailable
     else
     hbind (now_m e) (\<lambda>now.
     hbind (hask (\<lambda>n. he_consent e n (expires_at - now))) (\<lambda>approval.
     hthen (hlog (ConsentAnswered approval)) (
     hok_or ConsentTimeout approval)))))))"

text \<open>An approval becomes a provisional record and a grant.\<close>

definition grant_pairing :: "host_env \<Rightarrow> rstring \<Rightarrow> pairing_trust \<Rightarrow> unit hm" where
  "grant_pairing e name trust =
     hthen (hresult HostCodec (encode_pairing_trust trust)) (
     hbind (hask (he_unix_ms e)) (\<lambda>ms.
     if trust \<noteq> GuestOnce \<and> \<not> valid_trust trust ms then hfail ConsentTimeout
     else
     hthen (hmodify (\<lambda>s. s\<lparr>hc_trust := trust\<rparr>)) (
     hbind (hask (he_uuid e)) (\<lambda>uuid.
     hbind (hask (he_random_key e)) (\<lambda>key.
     hbind (hask (he_unix_ms e)) (\<lambda>added.
     let record = \<lparr>hpr_id = ascii_upper uuid, hpr_name = name, hpr_key = key, hpr_added_at_unix_ms = added\<rparr>
     in
     hbind (hresult HostCodec (encode_pairing_grant
              \<lparr>pg_pairing_id = hpr_id record, pg_host_name = hcf_host_name (he_config e),
               pg_key = hpr_key record\<rparr>)) (\<lambda>grant.
     hthen (send_tcp_packet e PairingGrant_Pkt grant) (
     hmodify (\<lambda>s. s\<lparr>hc_granted := Some (hpr_id record), hc_provisional := Some record,
                hc_state := PairingGranted\<rparr>)))))))))"

definition handle_pairing_request :: "host_env \<Rightarrow> bytes \<Rightarrow> unit hm" where
  "handle_pairing_request e payload =
     hbind (if he_identity e \<noteq> BOOTSTRAP_IDENTITY then hret False else is_pairing_active e) (\<lambda>active.
     if \<not> active then hthen (send_pairing_reject e PairingDisabled) hcontinue
     else
     hbind (hresult HostCodec (decode_pairing_request payload)) (\<lambda>request.
     hbind (ask_consent e (preq_name request)) (\<lambda>approved.
     hbind (now_m e) (\<lambda>now.
     hbind (if now \<ge> he_admission_deadline e then hret False else is_pairing_active e) (\<lambda>still_active.
     if \<not> still_active then hfail ConsentTimeout
     else case approved of
       None \<Rightarrow> hthen (send_pairing_reject e DeniedByHost) hbreak
     | Some trust \<Rightarrow> grant_pairing e (preq_name request) trust)))))"

section \<open>The handshake\<close>

text \<open>Which pairing the peer claims, and whether it may: \<open>fresh\<close> is a pairing granted on this very
  connection.\<close>

definition claimed_record :: "host_env \<Rightarrow> handshake \<Rightarrow> (bool \<times> host_pairing) hm" where
  "claimed_record e h =
     hbind hget (\<lambda>s.
     case hc_provisional s of
       Some record \<Rightarrow> hret (True, record)
     | None \<Rightarrow>
         hbind (hask (\<lambda>n. he_load e n (hs_pairing_id h))) (\<lambda>loaded.
         hbind (hresult (\<lambda>x. x) loaded) (\<lambda>found.
         hbind (hok_or UnknownPairing found) (\<lambda>record.
         hret (False, record)))))"

definition stored_rights :: "host_env \<Rightarrow> host_pairing \<Rightarrow> unit hm" where
  "stored_rights e record =
     hbind (hask (\<lambda>n. he_authorization e n (hpr_id record))) (\<lambda>authorization.
     hbind (hresult (\<lambda>x. x) authorization) (\<lambda>(trust, permissions).
     hbind (hask (he_unix_ms e)) (\<lambda>ms.
     if \<not> valid_trust trust ms then hfail UnknownPairing
     else
     hmodify (\<lambda>s. s\<lparr>hc_trust := trust,
       hc_grant := (case permissions of Some p \<Rightarrow> p | None \<Rightarrow> hc_grant s)\<rparr>))))"

text \<open>The pairing the handshake names must be the one the TLS identity proved, or the one just
  granted to the bootstrap identity. \<open>strip_prefix\<close>.\<close>

definition strip_prefix :: "rstring \<Rightarrow> rstring \<Rightarrow> rstring option" where
  "strip_prefix prefix s = (if starts_with s prefix then Some (drop (length prefix) s) else None)"

definition check_identity :: "host_env \<Rightarrow> handshake \<Rightarrow> unit hm" where
  "check_identity e h =
     hbind hget (\<lambda>s.
     case strip_prefix PAIRING_IDENTITY_PREFIX (he_identity e) of
       Some identity_pairing_id \<Rightarrow>
         if identity_pairing_id \<noteq> hs_pairing_id h then hfail IdentityMismatch else hret ()
     | None \<Rightarrow>
         if he_identity e = BOOTSTRAP_IDENTITY
         then case hc_granted s of
                None \<Rightarrow> hfail NotAuthenticated
              | Some expected_id \<Rightarrow>
                  if expected_id \<noteq> hs_pairing_id h then hfail IdentityMismatch else hret ()
         else hfail IdentityMismatch)"

definition start_media :: "host_env \<Rightarrow> unit hm" where
  "start_media e =
     hbind (hask (he_media_start e)) (\<lambda>started.
     hthen (hcheck (\<lambda>x. x) started) (
     hthen (hlog MediaStarted) (
     hmodify (\<lambda>s. s\<lparr>hc_sleep_guard := True, hc_pipeline := True, hc_media_receiver := True\<rparr>))))"

definition to_u16_saturating :: "u32 \<Rightarrow> u16" where
  "to_u16_saturating n = ucast (min n 0xFFFF)"

definition handshake_ack :: "host_env \<Rightarrow> handshake" where
  "handshake_ack e =
     \<lparr>hs_name = hcf_host_name (he_config e),
      hs_width = to_u16_saturating (di_logical_width (hcf_display (he_config e))),
      hs_height = to_u16_saturating (di_logical_height (hcf_display (he_config e))),
      hs_scale = di_scale_factor (hcf_display (he_config e)), hs_version = PROTOCOL_VERSION,
      hs_capabilities = foldl capabilities_bitor STREAM_CONFIGURATION
        [AUTHENTICATED_UDP_REGISTRATION, STREAM_OPTIONS, he_caps e],
      hs_pairing_id = [], hs_session_salt = replicate 16 0\<rparr>"

text \<open>The keys and capabilities of the session, once the peer has shown who it is.\<close>

definition negotiate :: "host_env \<Rightarrow> handshake \<Rightarrow> host_pairing \<Rightarrow> unit hm" where
  "negotiate e h record =
     (if hs_version h \<noteq> PROTOCOL_VERSION then hfail (HostCodec (UnsupportedVersion (hs_version h)))
      else
      let clipboard_sync = (capabilities_contains (he_caps e) TEXT_CLIPBOARD_SYNC \<and>
            capabilities_contains (hs_capabilities h) TEXT_CLIPBOARD_SYNC)
      in
      hthen (hmodify (\<lambda>s. s\<lparr>hc_clipboard_sync := clipboard_sync\<rparr>)) (
      if \<not> capabilities_contains (hs_capabilities h) AUTHENTICATED_UDP_REGISTRATION
      then hfail PeerLacksRegistration
      else
      hbind (hresult HostCipher (derive (he_hkdf e) (hpr_key record) (hs_session_salt h) direction.ClientToHost)) (\<lambda>c2h.
      hthen (hmodify (\<lambda>s. s\<lparr>hc_c2h := Some c2h\<rparr>)) (
      hbind (hresult HostCipher (derive (he_hkdf e) (hpr_key record) (hs_session_salt h) direction.HostToClient)) (\<lambda>h2c.
      hthen (hmodify (\<lambda>s. s\<lparr>hc_h2c := Some h2c, hc_peer_caps := hs_capabilities h\<rparr>)) (
      hbind (hask (he_set_timeout e)) (\<lambda>r.
      hthen (hcheck HostIo r) (
      hmodify (\<lambda>s. s\<lparr>hc_peer_stream_options := capabilities_contains (hs_capabilities h) STREAM_OPTIONS\<rparr>)))))))))"

text \<open>The second half of a pairing with a client that knows about trust: it asks, and is told.\<close>

definition exchange_trust :: "host_env \<Rightarrow> bool \<Rightarrow> unit hm" where
  "exchange_trust e fresh =
     hbind hget (\<lambda>s.
     if \<not> capabilities_contains (hc_peer_caps s) PAIRING_TRUST then hret ()
     else
     hthen (hwhen fresh (
       hbind (hask (he_read e)) (\<lambda>r.
       hbind (case r of
                ReadError error _ \<Rightarrow> hfail (HostTls error)
              | ReadNothing \<Rightarrow> hfail ConsentTimeout
              | ReadPacket packet \<Rightarrow> hret packet) (\<lambda>packet.
       hbind (hresult HostCodec (split_packet packet)) (\<lambda>(header, payload).
       if ph_packet_type header \<noteq> Control_Pkt then hfail NotAuthenticated
       else
       hbind (hresult HostCodec (decode_control_message payload)) (\<lambda>control.
       case control of PairingTrustRequest _ \<Rightarrow> hret () | _ \<Rightarrow> hfail NotAuthenticated)))))) (
     send_tcp_control e (PairingTrustGrant \<lparr>ptg_trust = hc_trust s\<rparr>)))"

text \<open>A fresh pairing outlives the connection only if it was granted for longer.\<close>

definition remember_pairing :: "host_env \<Rightarrow> bool \<Rightarrow> host_pairing \<Rightarrow> unit hm" where
  "remember_pairing e fresh record =
     hbind hget (\<lambda>s.
     if \<not> (fresh \<and> hc_trust s \<noteq> GuestOnce) then hret ()
     else
     hbind (hask (he_unix_ms e)) (\<lambda>ms.
     if \<not> valid_trust (hc_trust s) ms
     then hthen (send_session_end e (hc_peer_caps s) GuestExpired) hbreak
     else
     hbind (hask (he_set_authorization e)) (\<lambda>r.
     hthen (hcheck (\<lambda>x. x) r) (
     hthen (hlog (AuthorizationStored (hpr_id record) (hc_trust s) (Some (hc_grant s)))) (
     hbind (hask (he_save e)) (\<lambda>r.
     hthen (hcheck (\<lambda>x. x) r) (
     hlog (PairingStored record))))))))"

definition admit :: "host_env \<Rightarrow> host_pairing \<Rightarrow> unit hm" where
  "admit e record =
     hthen (hmodify (\<lambda>s. s\<lparr>hc_provisional := None\<rparr>)) (
     hbind hget (\<lambda>s.
     hbind (ceiling_m e (hc_clipboard_sync s)) (\<lambda>ceiling.
     let effective = intersect (hc_grant s) ceiling in
     hthen (set_effective effective) (
     hthen (send_permissions e (hc_peer_caps s) effective) (
     hthen (hmodify (\<lambda>s. s\<lparr>hc_audio_allowed := gp_audio effective\<rparr>)) (
     hbind (hask (he_uuid e)) (\<lambda>session_id.
     hbind (now_m e) (\<lambda>now.
     let guest = \<lparr>gs_id = session_id, gs_pairing_id = hpr_id record, gs_name = hpr_name record,
                  gs_peer = he_peer e, gs_trust = hc_trust s, gs_connected_at = now\<rparr>
     in
     hthen (hlog (GuestJoined guest)) (
     hmodify (\<lambda>s. s\<lparr>hc_guest := Some guest, hc_state := Authenticated\<rparr>))))))))))"

definition handle_handshake :: "host_env \<Rightarrow> bytes \<Rightarrow> unit hm" where
  "handle_handshake e payload =
     hbind hget (\<lambda>s.
     if hc_state s = Authenticated then hfail AlreadyAuthenticated
     else
     hbind (hresult HostCodec (decode_handshake payload)) (\<lambda>h.
     hbind (claimed_record e h) (\<lambda>(fresh, record).
     hthen (hwhen (\<not> fresh) (stored_rights e record)) (
     hthen (check_identity e h) (
     hthen (negotiate e h record) (
     hthen (hwhen (\<not> capabilities_contains (hs_capabilities h) PAIRING_TRUST) (start_media e)) (
     hbind (hresult HostCodec (encode_handshake (handshake_ack e))) (\<lambda>ack.
     hthen (send_tcp_packet e HandshakeAck_Pkt ack) (
     hthen (exchange_trust e fresh) (
     hthen (remember_pairing e fresh record) (
     hthen (admit e record) (
     hthen (hwhen (capabilities_contains (hs_capabilities h) PAIRING_TRUST) (start_media e)) (
     hthen (hwhen (capabilities_contains (hs_capabilities h) STREAM_OPTIONS) (
       hthen (hmodify (\<lambda>s. s\<lparr>hc_last_policy := policy_of (hc_effective s)\<rparr>)) (
       hbind (displays_m e) (\<lambda>displays.
       send_tcp_control e (HostDisplayList \<lparr>hdl_displays = displays\<rparr>))))) (
     hbind (now_m e) (\<lambda>pong.
     hbind (now_m e) (\<lambda>ping.
     hmodify (\<lambda>s. s\<lparr>hc_last_pong := pong, hc_next_ping := ping + HEARTBEAT_INTERVAL\<rparr>)))))))))))))))))"

section \<open>Input\<close>

definition is_gamepad_event :: "input_event_type \<Rightarrow> bool" where
  "is_gamepad_event ty \<longleftrightarrow> ty \<in> {GamepadAxis, GamepadButtonDown, GamepadButtonUp}"

definition send_input_ack :: "host_env \<Rightarrow> u32 \<Rightarrow> bool \<Rightarrow> u8 \<Rightarrow> unit hm" where
  "send_input_ack e sequence success error_code =
     hbind (htry (send_tcp_control e (InputAck
       \<lparr>ia_sequence = sequence, ia_success = success, ia_error_code = error_code\<rparr>))) (\<lambda>_. hret ())"

definition deliver_input :: "host_env \<Rightarrow> u32 \<Rightarrow> input_event \<Rightarrow> unit hm" where
  "deliver_input e sequence event =
     hbind (inject_input e event) (\<lambda>success.
     hthen (hmodify (\<lambda>s. s\<lparr>hc_injected := (hc_injected s \<or> success)\<rparr>)) (
     send_input_ack e sequence success (if success then 0 else 1)))"

definition handle_input :: "host_env \<Rightarrow> packet_header \<Rightarrow> bytes \<Rightarrow> unit hm" where
  "handle_input e header payload =
     hbind (hresult HostCodec (decode_input_event payload)) (\<lambda>event.
     hbind hget (\<lambda>s.
     let event = (if \<not> gp_keyboard (hc_effective s) then event\<lparr>ie_modifiers := modifiers_empty\<rparr> else event)
     in if \<not> allows (hc_effective s) (ie_event_type event) \<or>
           is_gamepad_event (ie_event_type event) \<and> \<not> capabilities_contains (hc_peer_caps s) GAMEPAD
        then hthen (send_input_ack e (ph_sequence header) False 2) hcontinue
        else deliver_input e (ph_sequence header) event))"

section \<open>Control messages\<close>

definition send_reject :: "host_env \<Rightarrow> u32 \<Rightarrow> stream_configuration_error_code \<times> rstring \<Rightarrow> unit hm" where
  "send_reject e request_id r =
     send_tcp_control e (StreamConfigReject
       \<lparr>scrj_request_id = request_id, scrj_reason = fst r, scrj_message = snd r\<rparr>)"

definition handle_image_chunk :: "host_env \<Rightarrow> clipboard_image_chunk \<Rightarrow> unit hm" where
  "handle_image_chunk e chunk =
     hbind hget (\<lambda>s.
     if he_os e = Macos then hret ()
     else if hc_clipboard_sync s \<and> gp_clipboard (hc_effective s) \<and>
             capabilities_contains (hc_peer_caps s) CLIPBOARD_IMAGE \<and> capabilities_contains (he_caps e) CLIPBOARD_IMAGE
     then
       hbind (now_m e) (\<lambda>now.
       let (images, r) = host_assembly_push (he_png e) chunk now (hc_images s)
       in hthen (hmodify (\<lambda>s. s\<lparr>hc_images := images\<rparr>)) (
          case r of
            Inr (Some bs) \<Rightarrow> hwhen (has_clipboard e) (hlog (AppliedImage bs))
          | _ \<Rightarrow> hret ()))
     else hmodify (\<lambda>s. s\<lparr>hc_images := host_assembly_cancel (hc_images s)\<rparr>))"

definition handle_clipboard_update :: "host_env \<Rightarrow> clipboard_sync_update \<Rightarrow> unit hm" where
  "handle_clipboard_update e update =
     hwhen (he_os e \<noteq> Macos) (
       hthen (hmodify (\<lambda>s. s\<lparr>hc_images := host_assembly_cancel (hc_images s)\<rparr>)) (
       hbind hget (\<lambda>s.
       hwhen (hc_clipboard_sync s \<and> gp_clipboard (hc_effective s) \<and>
              csu_direction update \<in> {clipboard_sync_direction.ClientToHost, Bidirectional} \<and> has_clipboard e)
         (hlog (AppliedText (csu_text update))))))"

definition request_key_frame :: "host_env \<Rightarrow> unit hm" where
  "request_key_frame e =
     hbind hget (\<lambda>s.
     hwhen (hc_pipeline s) (
       hbind (hask (he_force_key e)) (\<lambda>r.
       hthen (hcheck (\<lambda>x. x) r) (hlog KeyFrameForced))))"

definition adjust_bitrate :: "host_env \<Rightarrow> i32 \<Rightarrow> unit hm" where
  "adjust_bitrate e target_bitrate =
     hbind hget (\<lambda>s.
     hwhen (hc_pipeline s) (
       hbind (hask (\<lambda>n. he_set_bitrate e n target_bitrate)) (\<lambda>r.
       case r of
         Some _ \<Rightarrow> hret ()
       | None \<Rightarrow>
           hthen (hlog (BitrateUpdated target_bitrate)) (
           hmodify (\<lambda>s. s\<lparr>hc_bitrate := target_bitrate\<rparr>)))))"

definition handle_stream_config :: "host_env \<Rightarrow> stream_configuration_request \<Rightarrow> unit hm" where
  "handle_stream_config e req =
     (case reject_stream_config (screq_desired req) of
        Some r \<Rightarrow> send_reject e (screq_request_id req) r
      | None \<Rightarrow>
          hbind hget (\<lambda>s.
          hbind (if hc_pipeline s
                 then hbind (hask (\<lambda>n. he_set_bitrate e n (sc_bitrate (screq_desired req)))) (\<lambda>r.
                      case r of
                        Some _ \<Rightarrow> hret None
                      | None \<Rightarrow> hthen (hlog (BitrateUpdated (sc_bitrate (screq_desired req))))
                                  (hret (Some (sc_bitrate (screq_desired req)))))
                 else hret (Some (hc_bitrate s))) (\<lambda>applied.
          case applied of
            Some bitrate \<Rightarrow>
              hthen (hmodify (\<lambda>s. s\<lparr>hc_bitrate := bitrate\<rparr>)) (
              send_tcp_control e (StreamConfigResponse
                \<lparr>scres_request_id = screq_request_id req,
                 scres_active = \<lparr>sc_width = di_pixel_width (hcf_display (he_config e)),
                   sc_height = di_pixel_height (hcf_display (he_config e)), sc_bitrate = bitrate,
                   sc_frames_per_second = ucast (hcf_frames_per_second (he_config e))\<rparr>\<rparr>))
          | None \<Rightarrow> send_reject e (screq_request_id req)
                      (UnsupportedBitrate, ascii ''bitrate update was not applied''))))"

text \<open>The new pipeline is started before anything of the old one is touched. The text of an error is
  a parameter.\<close>

definition apply_stream_options :: "host_env \<Rightarrow> stream_options_request \<Rightarrow> host_display \<Rightarrow> unit hm" where
  "apply_stream_options e request selected =
     hbind hget (\<lambda>s.
     let w = options_dimension (hd_width selected) (sor_scale_permille request);
         h = options_dimension (hd_height selected) (sor_scale_permille request);
         codec = resolve_codec (sor_codec request);
         bitrate = (if sor_bitrate request \<noteq> 0 then sor_bitrate request else hc_bitrate s);
         restart = \<lparr>sr_width = w, sr_height = h, sr_scale_permille = sor_scale_permille request,
                    sr_fps = ucast (sor_fps request), sr_codec = codec, sr_output_name = Some (hd_name selected),
                    sr_bitrate = bitrate\<rparr>
     in
     hbind (hask (he_cpu_scaling e)) (\<lambda>scales.
     if he_os e = Windows \<and> sor_scale_permille request \<noteq> 1000 \<and> \<not> scales
     then hthen (send_reject e (sor_request_id request)
            (UnsupportedDimensions, ascii ''Windows CPU capture does not support scaling'')) hcontinue
     else
     hbind (hask (he_media_start e)) (\<lambda>started.
     case started of
       Some error \<Rightarrow>
         hthen (send_reject e (sor_request_id request)
           (RejectedByPeer, ascii ''pipeline start error: '' @ he_error_text e error)) hcontinue
     | None \<Rightarrow>
     hthen (hlog (MediaRestarted restart)) (
     hthen (hand_over w h) (
     hthen stop_old_pipeline (
     hthen (hmodify (\<lambda>s. s\<lparr>hc_pipeline := False\<rparr>)) (
     hbind (hask (he_force_key e)) (\<lambda>forced.
     hthen (hwhen (forced = None) (hlog KeyFrameForced)) (
     hthen (hmodify (\<lambda>s. s\<lparr>hc_pipeline := True\<rparr>)) (
     hbind (if he_os e = Linux then hask (he_retarget e) else hret None) (\<lambda>r.
     hthen (hcheck HostIo r) (
     hthen (hmodify (\<lambda>s. s\<lparr>hc_bitrate := bitrate, hc_output := Some (hd_name selected),
              hc_scale := sor_scale_permille request, hc_fps := ucast (sor_fps request), hc_codec := codec\<rparr>)) (
     hbind (if he_os e = Windows then hask (he_retarget e) else hret None) (\<lambda>r.
     hthen (hcheck HostIo r) (
     send_tcp_control e (StreamOptionsActive
       \<lparr>soa_request_id = sor_request_id request, soa_width = w, soa_height = h, soa_fps = sor_fps request,
        soa_codec = codec, soa_display_index = sor_display_index request, soa_bitrate = bitrate\<rparr>))))))))))))))))"

definition handle_stream_options :: "host_env \<Rightarrow> stream_options_request \<Rightarrow> unit hm" where
  "handle_stream_options e request =
     hbind (displays_m e) (\<lambda>displays.
     case validate_stream_options request displays of
       Inl r \<Rightarrow> hthen (send_reject e (sor_request_id request) r) hcontinue
     | Inr _ \<Rightarrow>
         if \<not> he_restart_factory e
         then hthen (send_reject e (sor_request_id request)
                (RejectedByPeer, ascii ''stream options are not supported on this host platform yet'')) hcontinue
         else if he_os e = Macos \<and> sor_codec request = H264
         then hthen (send_reject e (sor_request_id request)
                (RejectedByPeer, ascii ''macOS VideoToolbox source supports HEVC only'')) hcontinue
         else apply_stream_options e request (displays ! unat (sor_display_index request)))"

text \<open>The messages only a host may send.\<close>

definition host_only :: "control_message \<Rightarrow> bool" where
  "host_only control = (case control of
     PairingTrustRequest _ \<Rightarrow> True | PairingTrustGrant _ \<Rightarrow> True | GuestPermissions _ \<Rightarrow> True
   | HostStatus _ \<Rightarrow> True | SessionEnded _ \<Rightarrow> True | RttPong _ \<Rightarrow> True
   | SecureAttentionResponse _ \<Rightarrow> True | _ \<Rightarrow> False)"

definition answer_control :: "host_env \<Rightarrow> control_message \<Rightarrow> unit hm" where
  "answer_control e control =
     (if host_only control then hfail NotAuthenticated
      else case control of
        RttPing probe \<Rightarrow> send_tcp_control e (RttPong probe)
      | SecureAttentionRequest request \<Rightarrow>
          hbind hget (\<lambda>s.
          hbind (hok_or NotAuthenticated (hc_guest s)) (\<lambda>guest.
          hbind (hask (he_registry e)) (\<lambda>registry.
          send_tcp_control e (SecureAttentionResponse
            \<lparr>sares_request_id = sareq_request_id request,
             sares_result = secure_attention (he_os e = Windows) guest registry\<rparr>))))
      | ClipboardImageChunk chunk \<Rightarrow> handle_image_chunk e chunk
      | RequestKeyFrame \<Rightarrow> request_key_frame e
      | BitrateAdjust b \<Rightarrow> if 0 <s ba_target_bitrate b then adjust_bitrate e (ba_target_bitrate b) else hret ()
      | StreamConfigRequest req \<Rightarrow> handle_stream_config e req
      | StreamOptionsRequest request \<Rightarrow> handle_stream_options e request
      | Ping \<Rightarrow> send_tcp_control e Pong
      | Pong \<Rightarrow> hbind (now_m e) (\<lambda>now. hmodify (\<lambda>s. s\<lparr>hc_last_pong := now\<rparr>))
      | ClipboardSyncUpdate update \<Rightarrow> handle_clipboard_update e update
      | Disconnect \<Rightarrow> hbreak
      | StopStream \<Rightarrow> hbreak
      | _ \<Rightarrow> hret ())"

definition handle_control_packet :: "host_env \<Rightarrow> bytes \<Rightarrow> unit hm" where
  "handle_control_packet e payload =
     hbind (hresult HostCodec (decode_control_message payload)) (\<lambda>control.
     hbind hget (\<lambda>s.
     if \<not> supported_by (message_type control)
            (foldl capabilities_bitor (he_caps e) [STREAM_OPTIONS, STREAM_CONFIGURATION]) (hc_peer_caps s)
     then hfail NotAuthenticated
     else answer_control e control))"

section \<open>One iteration, and the connection\<close>

definition dispatch :: "host_env \<Rightarrow> packet_header \<Rightarrow> bytes \<Rightarrow> unit hm" where
  "dispatch e header payload =
     hbind hget (\<lambda>s.
     if \<not> state_allows (hc_state s) (ph_packet_type header)
     then if hc_state s = Authenticated \<and> ph_packet_type header = Handshake_Pkt
          then hfail AlreadyAuthenticated else hcontinue
     else case ph_packet_type header of
       PairingRequest_Pkt \<Rightarrow> handle_pairing_request e payload
     | Handshake_Pkt \<Rightarrow> handle_handshake e payload
     | InputEvent_Pkt \<Rightarrow> handle_input e header payload
     | Control_Pkt \<Rightarrow> handle_control_packet e payload
     | _ \<Rightarrow> hret ())"

definition iteration :: "host_env \<Rightarrow> unit hm" where
  "iteration e =
     hthen (check_stop e) (
     hbind (hask (he_media_failed e)) (\<lambda>media_failed.
     hbind (hask (he_read e)) (\<lambda>read.
     hbind (classify_read read) (\<lambda>packet.
     hthen (check_goodbye packet) (
     hthen (check_media e media_failed) (
     hthen (check_admission e) (
     hthen (housekeeping e) (
     case packet of
       None \<Rightarrow> hcontinue
     | Some packet \<Rightarrow>
         hbind (hresult HostCodec (split_packet packet)) (\<lambda>(header, payload).
         dispatch e header payload)))))))))"

text \<open>The loop, with as many iterations as the fuel; \<open>None\<close> means that it is still running.\<close>

primrec session_loop :: "host_env \<Rightarrow> nat \<Rightarrow> host_conn \<Rightarrow> host_conn \<times> (host_error + unit) option" where
  "session_loop e 0 s = (s, None)"
| "session_loop e (Suc n) s =
     (case iteration e s of
        (s', Done _) \<Rightarrow> session_loop e n s'
      | (s', Continue) \<Rightarrow> session_loop e n s'
      | (s', Break) \<Rightarrow> (s', Some (Inr ()))
      | (s', Fail error) \<Rightarrow> (s', Some (Inl error)))"

definition connection_teardown :: "host_env \<Rightarrow> unit hm" where
  "connection_teardown e =
     hthen (hmodify (\<lambda>s. s\<lparr>hc_media_receiver := False, hc_audio_allowed := False\<rparr>)) (
     hthen stop_old_pipeline (
     hthen (hmodify (\<lambda>s. s\<lparr>hc_pipeline := False, hc_sender := False\<rparr>)) (
     hbind hget (\<lambda>s.
     hthen (hwhen (hc_injected s) (hbind (inject_input e host_reset_input) (\<lambda>_. hret ()))) (
     hthen (hmodify (\<lambda>s. s\<lparr>hc_state := Closed, hc_sleep_guard := False\<rparr>)) (
     case hc_guest s of
       Some guest \<Rightarrow> hlog (GuestLeft guest)
     | None \<Rightarrow> hret ()))))))"

definition handle_connection :: "host_env \<Rightarrow> nat \<Rightarrow> host_conn \<times> (host_error + unit) option" where
  "handle_connection e fuel =
     (case connection_start e (host_conn_blank e) of
        (s, Fail error) \<Rightarrow> (s, Some (Inl error))
      | (s, _) \<Rightarrow>
          (case session_loop e fuel s of
             (s, None) \<Rightarrow> (s, None)
           | (s, Some result) \<Rightarrow> (fst (connection_teardown e s), Some result)))"

end
