(* ===== verification/Host_Logic.thy ===== *)
theory Host_Logic
  imports Host_Session
begin

text \<open>
  A small program logic for the monad of the host connection: \<open>hoare P m Q F C\<close> says that \<open>m\<close>, run in
  a state with \<open>P\<close>, ends in \<open>Q x\<close> when it returns \<open>x\<close>, in \<open>F\<close> when it fails or breaks, and in \<open>C\<close> when
  it continues. \<open>keeps P m\<close> is the special case of an invariant; the collection \<open>keep\<close> has a rule for
  every construct and every helper that only asks, sends or logs, so that the invariant of a handler
  is proved by \<open>(intro keep)\<close> up to the steps that change what the invariant speaks of.
\<close>

named_theorems keep \<open>invariants of the host's operations\<close>

definition hoare :: "(host_conn \<Rightarrow> bool) \<Rightarrow> 'a hm \<Rightarrow> ('a \<Rightarrow> host_conn \<Rightarrow> bool) \<Rightarrow> (host_conn \<Rightarrow> bool) \<Rightarrow>
    (host_conn \<Rightarrow> bool) \<Rightarrow> bool" where
  "hoare P m Q F C \<longleftrightarrow> (\<forall>s. P s \<longrightarrow> (case m s of
     (s', Done x) \<Rightarrow> Q x s' | (s', Continue) \<Rightarrow> C s' | (s', _) \<Rightarrow> F s'))"

definition keeps :: "(host_conn \<Rightarrow> bool) \<Rightarrow> 'a hm \<Rightarrow> bool" where
  "keeps P m \<longleftrightarrow> (\<forall>s. P s \<longrightarrow> P (fst (m s)))"

section \<open>Rules\<close>

lemma hoare_iff:
  "hoare P m Q F C \<longleftrightarrow> (\<forall>s. P s \<longrightarrow> (\<forall>s' x. m s = (s', Done x) \<longrightarrow> Q x s') \<and>
     (\<forall>s' e. m s = (s', Fail e) \<longrightarrow> F s') \<and> (\<forall>s'. m s = (s', Break) \<longrightarrow> F s') \<and>
     (\<forall>s'. m s = (s', Continue) \<longrightarrow> C s'))"
  unfolding hoare_def by (auto split: prod.split flow.split)

lemma hoare_conseq:
  "hoare P m Q F C \<Longrightarrow> (\<And>s. P' s \<Longrightarrow> P s) \<Longrightarrow> (\<And>x s. Q x s \<Longrightarrow> Q' x s) \<Longrightarrow> (\<And>s. F s \<Longrightarrow> F' s) \<Longrightarrow>
   (\<And>s. C s \<Longrightarrow> C' s) \<Longrightarrow> hoare P' m Q' F' C'"
  unfolding hoare_iff by blast

lemma hoare_bind:
  assumes "hoare P m R F C" "\<And>x. hoare (R x) (f x) Q F C"
  shows "hoare P (hbind m f) Q F C"
  unfolding hoare_def
proof (intro allI impI)
  fix s assume "P s"
  obtain s' r where m: "m s = (s', r)" by (cases "m s")
  have r: "case r of Done x \<Rightarrow> R x s' | Continue \<Rightarrow> C s' | _ \<Rightarrow> F s'"
    using assms(1) [unfolded hoare_def, rule_format, OF \<open>P s\<close>] m by simp
  from r assms(2) m show "case hbind m f s of (s', Done x) \<Rightarrow> Q x s' | (s', Continue) \<Rightarrow> C s' | (s', _) \<Rightarrow> F s'"
    by (cases r) (simp_all add: hoare_def hbind_def)
qed

lemma hoare_then: "hoare P m (\<lambda>_. R) F C \<Longrightarrow> hoare R k Q F C \<Longrightarrow> hoare P (hthen m k) Q F C"
  unfolding hthen_def by (rule hoare_bind)

lemma hoare_get: "(\<And>t. hoare (\<lambda>s. P s \<and> s = t) (f t) Q F C) \<Longrightarrow> hoare P (hbind hget f) Q F C"
  unfolding hoare_def hbind_def hget_def by (auto split: prod.splits flow.splits)

lemma hoare_ret: "(\<And>s. P s \<Longrightarrow> Q x s) \<Longrightarrow> hoare P (hret x) Q F C"
  by (auto simp: hoare_def hret_def)

lemma hoare_fail: "(\<And>s. P s \<Longrightarrow> F s) \<Longrightarrow> hoare P (hfail e) Q F C"
  by (auto simp: hoare_def hfail_def)

lemma hoare_break: "(\<And>s. P s \<Longrightarrow> F s) \<Longrightarrow> hoare P hbreak Q F C"
  by (auto simp: hoare_def hbreak_def)

lemma hoare_continue: "(\<And>s. P s \<Longrightarrow> C s) \<Longrightarrow> hoare P hcontinue Q F C"
  by (auto simp: hoare_def hcontinue_def)

lemma hoare_modify: "(\<And>s. P s \<Longrightarrow> Q () (f s)) \<Longrightarrow> hoare P (hmodify f) Q F C"
  by (auto simp: hoare_def hmodify_def)

lemma hoare_log: "(\<And>s. P s \<Longrightarrow> Q () (s\<lparr>hc_trace := hc_trace s @ [x]\<rparr>)) \<Longrightarrow> hoare P (hlog x) Q F C"
  by (auto simp: hoare_def hlog_def)

lemma hoare_ask:
  "(\<And>s. P s \<Longrightarrow> Q (q (hc_tick s)) (s\<lparr>hc_tick := hc_tick s + 1\<rparr>)) \<Longrightarrow> hoare P (hask q) Q F C"
  by (auto simp: hoare_def hask_def)

lemma hoare_when:
  "(b \<Longrightarrow> hoare P m Q F C) \<Longrightarrow> (\<And>s. \<not> b \<Longrightarrow> P s \<Longrightarrow> Q () s) \<Longrightarrow> hoare P (hwhen b m) Q F C"
  by (auto simp: hoare_def hwhen_def hret_def)

lemma hoare_if:
  "(b \<Longrightarrow> hoare P m Q F C) \<Longrightarrow> (\<not> b \<Longrightarrow> hoare P m' Q F C) \<Longrightarrow> hoare P (if b then m else m') Q F C"
  by simp

lemma hoare_option:
  "(r = None \<Longrightarrow> hoare P m Q F C) \<Longrightarrow> (\<And>x. r = Some x \<Longrightarrow> hoare P (f x) Q F C) \<Longrightarrow>
   hoare P (case r of None \<Rightarrow> m | Some x \<Rightarrow> f x) Q F C"
  by (cases r) auto

lemma hoare_result:
  "(\<And>s x. r = Inr x \<Longrightarrow> P s \<Longrightarrow> Q x s) \<Longrightarrow> (\<And>s. P s \<Longrightarrow> F s) \<Longrightarrow> hoare P (hresult w r) Q F C"
  by (cases r) (auto simp: hresult_def hoare_def hret_def hfail_def)

lemma hoare_ok_or:
  "(\<And>s x. r = Some x \<Longrightarrow> P s \<Longrightarrow> Q x s) \<Longrightarrow> (\<And>s. P s \<Longrightarrow> F s) \<Longrightarrow> hoare P (hok_or e r) Q F C"
  by (cases r) (auto simp: hok_or_def hoare_def hret_def hfail_def)

lemma hoare_check:
  "(\<And>s. r = None \<Longrightarrow> P s \<Longrightarrow> Q () s) \<Longrightarrow> (\<And>s. P s \<Longrightarrow> F s) \<Longrightarrow> hoare P (hcheck w r) Q F C"
  by (cases r) (auto simp: hcheck_def hoare_def hret_def hfail_def)

lemma hoare_keeps: "keeps P m \<Longrightarrow> (\<And>s. P s \<Longrightarrow> F s) \<Longrightarrow> (\<And>s. P s \<Longrightarrow> C s) \<Longrightarrow> hoare P m (\<lambda>_. P) F C"
  unfolding hoare_iff keeps_def by (metis fst_conv)

lemma hoare_keepsI:
  assumes "hoare P m (\<lambda>_. P) P P"
  shows "keeps P m"
  unfolding keeps_def
proof (intro allI impI)
  fix s assume "P s"
  from assms [unfolded hoare_def, rule_format, OF this] show "P (fst (m s))"
    by (cases "m s"; cases "snd (m s)") simp_all
qed

lemma keeps_iff_hoare: "keeps P m \<longleftrightarrow> hoare P m (\<lambda>_. P) P P"
  using hoare_keeps hoare_keepsI by blast

lemma hoare_conj:
  "hoare P m Q F C \<Longrightarrow> hoare P m Q' F' C' \<Longrightarrow>
   hoare P m (\<lambda>x s. Q x s \<and> Q' x s) (\<lambda>s. F s \<and> F' s) (\<lambda>s. C s \<and> C' s)"
  unfolding hoare_iff by blast

lemma hoare_pure:
  assumes "\<And>x. R x \<Longrightarrow> hoare P (f x) Q F C"
  shows "hoare (\<lambda>s. P s \<and> R x) (f x) Q F C"
  using assms [of x] by (cases "R x") (auto simp: hoare_def)

lemma hoare_get_keeps:
  assumes "\<And>t. hoare P (f t) Q F C"
  shows "hoare P (hbind hget f) Q F C"
  by (rule hoare_get) (rule hoare_conseq [OF assms], auto)

section \<open>Invariants\<close>

lemma keeps_bind [keep]: "keeps P m \<Longrightarrow> (\<And>x. keeps P (f x)) \<Longrightarrow> keeps P (hbind m f)"
  unfolding keeps_iff_hoare by (rule hoare_bind)

lemma keeps_then [keep]: "keeps P m \<Longrightarrow> keeps P k \<Longrightarrow> keeps P (hthen m k)"
  unfolding hthen_def by (rule keeps_bind)

lemma keeps_leaf [keep]:
  "keeps P (hret x)" "keeps P (hfail e)" "keeps P hbreak" "keeps P hcontinue" "keeps P hget"
  by (simp_all add: keeps_def hret_def hfail_def hbreak_def hcontinue_def hget_def)

lemma keeps_results [keep]: "keeps P (hresult w r)" "keeps P (hok_or e x)" "keeps P (hcheck u y)"
  by (simp_all add: hresult_def hok_or_def hcheck_def keeps_leaf split: sum.split option.split)

lemma keeps_when [keep]: "(b \<Longrightarrow> keeps P m) \<Longrightarrow> keeps P (hwhen b m)"
  by (simp add: hwhen_def keeps_leaf)

lemma keeps_if [keep]: "(b \<Longrightarrow> keeps P m) \<Longrightarrow> (\<not> b \<Longrightarrow> keeps P m') \<Longrightarrow> keeps P (if b then m else m')"
  by simp

lemma keeps_option [keep]:
  "keeps P m \<Longrightarrow> (\<And>x. r = Some x \<Longrightarrow> keeps P (f x)) \<Longrightarrow> keeps P (case r of None \<Rightarrow> m | Some x \<Rightarrow> f x)"
  by (cases r) auto

lemma keeps_sum [keep]:
  "(\<And>x. keeps P (g x)) \<Longrightarrow> (\<And>x. keeps P (f x)) \<Longrightarrow> keeps P (case r of Inl x \<Rightarrow> g x | Inr x \<Rightarrow> f x)"
  by (cases r) auto

lemma keeps_prod [keep]: "(\<And>x y. r = (x, y) \<Longrightarrow> keeps P (f x y)) \<Longrightarrow> keeps P (case r of (x, y) \<Rightarrow> f x y)"
  by (cases r) auto

lemma keeps_let [keep]: "(\<And>x. keeps P (f x)) \<Longrightarrow> keeps P (let x = v in f x)"
  by simp

lemma fst_htry: "fst (htry m s) = fst (m s)"
  by (simp add: htry_def split: prod.split flow.split)

lemma keeps_try [keep]: "keeps P m \<Longrightarrow> keeps P (htry m)"
  by (simp add: keeps_def fst_htry)

lemma keeps_modify: "(\<And>s. P s \<Longrightarrow> P (f s)) \<Longrightarrow> keeps P (hmodify f)"
  by (simp add: keeps_def hmodify_def)

lemma keeps_log: "(\<And>s. P s \<Longrightarrow> P (s\<lparr>hc_trace := hc_trace s @ [x]\<rparr>)) \<Longrightarrow> keeps P (hlog x)"
  by (simp add: keeps_def hlog_def)

lemma keeps_weaken_failure:
  "keeps P m \<Longrightarrow> (\<And>s. P s \<Longrightarrow> F s) \<Longrightarrow> hoare P m (\<lambda>_. P) F P"
  by (rule hoare_keeps)

lemma hoare_keeps_fact:
  assumes "keeps P m" "hoare P m (\<lambda>x _. R x) (\<lambda>_. True) (\<lambda>_. True)"
    and "\<And>s. P s \<Longrightarrow> F s" "\<And>s. P s \<Longrightarrow> C s"
    and "\<And>x. R x \<Longrightarrow> hoare P (f x) Q F C"
  shows "hoare P (hbind m f) Q F C"
proof (rule hoare_bind)
  show "hoare P m (\<lambda>x s. P s \<and> R x) F C"
    by (rule hoare_conseq [OF hoare_conj [OF hoare_keeps [OF assms(1)] assms(2)]]) (auto intro: assms(3,4))
  show "hoare (\<lambda>s. P s \<and> R x) (f x) Q F C" for x
    by (rule hoare_pure) (rule assms(5))
qed

lemma hoare_keeps_bind:
  assumes "keeps P m" "\<And>s. P s \<Longrightarrow> F s" "\<And>s. P s \<Longrightarrow> C s" "\<And>x. hoare P (f x) Q F C"
  shows "hoare P (hbind m f) Q F C"
  by (rule hoare_bind [OF hoare_keeps [OF assms(1)]]) (use assms in auto)

lemma hoare_keeps_then:
  assumes "keeps P m" "\<And>s. P s \<Longrightarrow> F s" "\<And>s. P s \<Longrightarrow> C s" "hoare P k Q F C"
  shows "hoare P (hthen m k) Q F C"
  unfolding hthen_def by (rule hoare_keeps_bind) (use assms in auto)

section \<open>The whole connection\<close>

text \<open>What one iteration maintains while the loop runs, and what it leaves behind when it ends it.\<close>

lemma session_loop_hoare:
  assumes "hoare P (iteration e) (\<lambda>_. P) F P" and "P s"
  shows "case session_loop e n s of (s', None) \<Rightarrow> P s' | (s', Some _) \<Rightarrow> F s'"
  using assms(2)
proof (induction n arbitrary: s)
  case (Suc n)
  obtain s' r where "iteration e s = (s', r)" by (cases "iteration e s")
  with assms(1) [unfolded hoare_def, rule_format, OF Suc.prems] Suc.IH show ?case
    by (cases r) auto
qed simp

lemma handle_connection_hoare:
  assumes "P (host_conn_blank e)" and start: "keeps P (connection_start e)"
    and step: "hoare P (iteration e) (\<lambda>_. P) F P" and stop: "keeps F (connection_teardown e)"
    and weaker: "\<And>s. P s \<Longrightarrow> F s"
  shows "case handle_connection e fuel of (s', None) \<Rightarrow> P s' | (s', Some _) \<Rightarrow> F s'"
proof -
  obtain s r where m: "connection_start e (host_conn_blank e) = (s, r)"
    by (cases "connection_start e (host_conn_blank e)")
  with start assms(1) have s: "P s" by (auto simp: keeps_def dest: spec [of _ "host_conn_blank e"])
  from session_loop_hoare [OF step s, of fuel] m stop weaker [OF s] show ?thesis
    by (cases r) (auto simp: handle_connection_def keeps_def split: prod.splits option.splits)
qed

lemma handle_connection_keeps:
  assumes "P (host_conn_blank e)" "keeps P (connection_start e)" "keeps P (iteration e)" "keeps P (connection_teardown e)"
  shows "P (fst (handle_connection e fuel))"
  using handle_connection_hoare [OF assms(1,2) keeps_weaken_failure [OF assms(3)] assms(4), of fuel]
  by (auto split: prod.splits option.splits)

section \<open>Predicates that asking and sending cannot change\<close>

locale quiet_invariant =
  fixes P :: "host_conn \<Rightarrow> bool"
  assumes tick: "\<And>s n. P s \<Longrightarrow> P (s\<lparr>hc_tick := n\<rparr>)"
    and sent: "\<And>s bs. P s \<Longrightarrow> P (s\<lparr>hc_trace := hc_trace s @ [Sent bs]\<rparr>)"
begin

lemma keeps_ask [keep]: "keeps P (hask q)"
  by (simp add: keeps_def hask_def tick)

lemma keeps_sent [keep]: "keeps P (hlog (Sent bs))"
  by (rule keeps_log) (rule sent)

lemma keeps_packet [keep]: "keeps P (send_tcp_packet e ty payload)"
  unfolding send_tcp_packet_def by (intro keep keeps_ask keeps_sent)

lemma keeps_control [keep]: "keeps P (send_tcp_control e m)"
  unfolding send_tcp_control_def by (intro keep keeps_packet)

lemma keeps_controls [keep]: "keeps P (send_all_controls e ms)"
  by (induction ms) (auto intro!: keep keeps_control)

lemma keeps_sends [keep]:
  "keeps P (send_pairing_reject e r)" "keeps P (send_session_end e c x)" "keeps P (send_permissions e c p)"
  "keeps P (send_input_ack e n b k)" "keeps P (send_reject e i j)"
  unfolding send_pairing_reject_def send_session_end_def send_permissions_def send_input_ack_def send_reject_def
  by (intro keep keeps_packet keeps_control)+

lemma keeps_questions [keep]:
  "keeps P (now_m e)" "keeps P (ceiling_m e b)" "keeps P (displays_m e)" "keeps P (is_pairing_active e)"
  "keeps P (consent_deadline e)" "keeps P (classify_read r)"
  unfolding now_m_def ceiling_m_def displays_m_def is_pairing_active_def consent_deadline_def
  by (intro keep keeps_ask)+ (auto simp: classify_read_def keeps_leaf split: host_read.split)

lemmas quiet_keep = keeps_ask keeps_sent keeps_packet keeps_control keeps_controls keeps_sends keeps_questions

lemma keeps_check_stop [keep]: "keeps P (check_stop e)"
  unfolding check_stop_def by (intro keep quiet_keep)

lemma keeps_check_goodbye [keep]: "keeps P (check_goodbye p)"
  unfolding check_goodbye_def by (intro keep)

lemma keeps_check_admission [keep]: "keeps P (check_admission e)"
  unfolding check_admission_def by (intro keep quiet_keep)

end

end
