(* ===== verification/Host_Safety.thy ===== *)
theory Host_Safety
  imports Host_Logic
begin

text \<open>
  What a connection of the host guarantees, whatever its peer, its clock and its surroundings do:
  who is admitted, which input reaches the machine, and what is undone at the end. The properties
  are invariants of the trace, proved for every operation of \<open>Host_Session\<close> with the rules of
  \<open>Host_Logic\<close>.
\<close>

section \<open>Input\<close>

text \<open>The permissions in force after a trace, from those at its start.\<close>

definition in_force :: "guest_permissions \<Rightarrow> host_effect list \<Rightarrow> guest_permissions" where
  "in_force d tr = fold (\<lambda>x p. case x of SetEffective q \<Rightarrow> q | _ \<Rightarrow> p) tr d"

definition joined :: "host_effect list \<Rightarrow> bool" where
  "joined tr \<longleftrightarrow> (\<exists>g. GuestJoined g \<in> set tr)"

text \<open>The permissions are no more than the host's switches gave at some moment.\<close>

definition within_ceiling :: "host_env \<Rightarrow> guest_permissions \<Rightarrow> bool" where
  "within_ceiling e p \<longleftrightarrow> (\<exists>n clipboard.
     intersect p (permission_ceiling (he_os e) (he_config e) (he_policy e n) (he_caps e) clipboard) = p)"

definition permitted_input :: "host_env \<Rightarrow> host_effect list \<Rightarrow> input_event \<Rightarrow> bool" where
  "permitted_input e tr ev \<longleftrightarrow> joined tr \<and>
     (let p = in_force (hc_effective (host_conn_blank e)) tr
      in within_ceiling e p \<and> allows p (ie_event_type ev) \<and> (gp_keyboard p \<or> ie_modifiers ev = modifiers_empty))"

definition inputs_ok :: "host_env \<Rightarrow> host_effect list \<Rightarrow> bool" where
  "inputs_ok e tr \<longleftrightarrow> (\<forall>pre ev ok post. tr = pre @ Injected ev ok # post \<longrightarrow> permitted_input e pre ev)"

text \<open>With \<open>j\<close> a guest has joined; with \<open>k\<close> the permissions are known to be under the ceiling.\<close>

definition input_view ::
  "host_env \<Rightarrow> bool \<Rightarrow> bool \<Rightarrow> host_effect list \<Rightarrow> guest_permissions \<Rightarrow> host_state \<Rightarrow> bool \<Rightarrow> bool" where
  "input_view e j k tr p st touched \<longleftrightarrow> inputs_ok e tr \<and> in_force (hc_effective (host_conn_blank e)) tr = p \<and>
     (st = Authenticated \<longrightarrow> joined tr) \<and> (touched \<longrightarrow> joined tr) \<and> (j \<longrightarrow> joined tr) \<and> (joined tr \<or> k \<longrightarrow> within_ceiling e p)"

abbreviation input_safe :: "host_env \<Rightarrow> bool \<Rightarrow> bool \<Rightarrow> host_conn \<Rightarrow> bool" where
  "input_safe e j k s \<equiv> input_view e j k (hc_trace s) (hc_effective s) (hc_state s) (hc_injected s)"

lemma in_force_snoc [simp]:
  "in_force d (tr @ [x]) = (case x of SetEffective q \<Rightarrow> q | _ \<Rightarrow> in_force d tr)"
  by (simp add: in_force_def split: host_effect.split)

lemma joined_snoc [simp]: "joined (tr @ [x]) \<longleftrightarrow> joined tr \<or> (\<exists>g. x = GuestJoined g)"
  by (auto simp: joined_def)

lemma inputs_ok_snoc [simp]:
  "inputs_ok e (tr @ [x]) \<longleftrightarrow> inputs_ok e tr \<and> (\<forall>ev ok. x = Injected ev ok \<longrightarrow> permitted_input e tr ev)"
proof
  assume a: "inputs_ok e (tr @ [x])"
  have "permitted_input e pre ev" if "tr = pre @ Injected ev ok # post" for pre ev ok post
    using a that by (force simp: inputs_ok_def)
  with a show "inputs_ok e tr \<and> (\<forall>ev ok. x = Injected ev ok \<longrightarrow> permitted_input e tr ev)"
    by (auto simp: inputs_ok_def)
next
  assume a: "inputs_ok e tr \<and> (\<forall>ev ok. x = Injected ev ok \<longrightarrow> permitted_input e tr ev)"
  show "inputs_ok e (tr @ [x])"
    unfolding inputs_ok_def
  proof (intro allI impI)
    fix pre ev ok post
    assume "tr @ [x] = pre @ Injected ev ok # post"
    then consider "post = []" "tr = pre" "x = Injected ev ok"
      | post' where "tr = pre @ Injected ev ok # post'"
      by (cases post rule: rev_cases) auto
    then show "permitted_input e pre ev" using a by cases (auto simp: inputs_ok_def)
  qed
qed

lemma intersect_le [simp]: "intersect (intersect a b) b = intersect a b"
  by (simp add: intersect_def)

lemma within_ceiling_intersect:
  "within_ceiling e (intersect g (permission_ceiling (he_os e) (he_config e) (he_policy e n) (he_caps e) b))"
  unfolding within_ceiling_def by (rule exI [of _ n], rule exI [of _ b]) simp

interpretation input: quiet_invariant "input_safe e j k" for e j k
  by unfold_locales (simp_all add: input_view_def)

lemmas input_keep = keep input.quiet_keep input.keeps_check_stop input.keeps_check_goodbye
  input.keeps_check_admission keeps_modify keeps_log

lemma input_log: "(\<forall>ev ok. x \<noteq> Injected ev ok) \<Longrightarrow> (\<forall>q. x \<noteq> SetEffective q) \<Longrightarrow> (\<forall>g. x \<noteq> GuestJoined g) \<Longrightarrow>
  input_view e j k tr p st touched \<Longrightarrow> input_view e j k (tr @ [x]) p st touched"
  by (auto simp: input_view_def split: host_effect.split)

text \<open>Setting the permissions, and injecting what they allow.\<close>

lemma set_effective_input:
  "within_ceiling e p \<Longrightarrow> keeps (input_safe e j k) (set_effective p)"
  by (auto simp: keeps_def set_effective_def input_view_def)

lemma inject_input_safe:
  "hoare (\<lambda>s. input_safe e True k s \<and> allows (hc_effective s) (ie_event_type ev) \<and>
       (gp_keyboard (hc_effective s) \<or> ie_modifiers ev = modifiers_empty))
     (inject_input e ev) (\<lambda>_. input_safe e True k) F C"
  unfolding inject_input_def
  by (auto simp: hoare_def hbind_def hthen_def hask_def hlog_def hret_def input_view_def permitted_input_def)

lemma inject_reset_input: "keeps (input_safe e True k) (inject_input e host_reset_input)"
  unfolding keeps_iff_hoare
  by (rule hoare_conseq [OF inject_input_safe]) (auto simp: host_reset_input_def)

lemma input_safe_weaken: "input_safe e j' k' s \<Longrightarrow> (j \<Longrightarrow> j') \<Longrightarrow> (k \<Longrightarrow> k') \<Longrightarrow> input_safe e j k s"
  by (auto simp: input_view_def)

lemma set_effective_within:
  "within_ceiling e p \<Longrightarrow> hoare (input_safe e j k) (set_effective p) (\<lambda>_. input_safe e j True) F C"
  by (auto simp: hoare_def set_effective_def input_view_def)

text \<open>In an authenticated state a guest has joined.\<close>

lemma hoare_input_weaken:
  "keeps (input_safe e j' k') m \<Longrightarrow> (\<And>s. P s \<Longrightarrow> input_safe e j' k' s) \<Longrightarrow> (j \<Longrightarrow> j') \<Longrightarrow> (k \<Longrightarrow> k') \<Longrightarrow>
   hoare P m (\<lambda>_. input_safe e j k) (input_safe e j k) (input_safe e j k)"
  unfolding keeps_iff_hoare by (erule hoare_conseq) (auto intro: input_safe_weaken)

lemma keeps_authenticated:
  assumes "\<And>t. hc_state t = Authenticated \<Longrightarrow> keeps (input_safe e True k) (f t)"
    and "\<And>t. hc_state t \<noteq> Authenticated \<Longrightarrow> keeps (input_safe e j k) (f t)"
  shows "keeps (input_safe e j k) (hbind hget f)"
  unfolding keeps_iff_hoare
proof (rule hoare_get)
  fix t
  show "hoare (\<lambda>s. input_safe e j k s \<and> s = t) (f t) (\<lambda>_. input_safe e j k) (input_safe e j k) (input_safe e j k)"
  proof (cases "hc_state t = Authenticated")
    case True
    then show ?thesis
      by (intro hoare_input_weaken [OF assms(1)]) (auto simp: input_view_def)
  next
    case False
    then show ?thesis by (intro hoare_input_weaken [OF assms(2)]) auto
  qed
qed

lemma ceiling_within: "hoare P (ceiling_m e b) (\<lambda>c s. \<forall>g. within_ceiling e (intersect g c)) F C"
  by (auto simp: hoare_def ceiling_m_def hbind_def hask_def hret_def within_ceiling_intersect)

lemma hoare_ceiling:
  assumes "\<And>c. (\<And>g. within_ceiling e (intersect g c)) \<Longrightarrow> hoare (input_safe e j k) (f c) Q (input_safe e j k) (input_safe e j k)"
  shows "hoare (input_safe e j k) (hbind (ceiling_m e b) f) Q (input_safe e j k) (input_safe e j k)"
proof (rule hoare_bind)
  show "hoare (input_safe e j k) (ceiling_m e b) (\<lambda>c s. input_safe e j k s \<and> (\<forall>g. within_ceiling e (intersect g c)))
    (input_safe e j k) (input_safe e j k)"
    by (rule hoare_conseq [OF hoare_conj [OF hoare_keeps [OF input.keeps_questions(2)] ceiling_within]]) auto
  fix c
  show "hoare (\<lambda>s. input_safe e j k s \<and> (\<forall>g. within_ceiling e (intersect g c))) (f c) Q (input_safe e j k) (input_safe e j k)"
    by (rule hoare_pure) (auto intro: assms)
qed

subsection \<open>Every operation\<close>

lemma drain_commands_input: "keeps (input_safe e j k) (drain_commands e cs)"
  by (induction cs rule: drain_commands.induct [of _ e]) (auto intro!: input_keep)

lemma check_commands_input: "keeps (input_safe e j k) (check_commands e)"
  unfolding check_commands_def
  by (intro input_keep drain_commands_input) (auto split: pairing_trust.split intro!: input_keep)

lemma discover_burst_input: "keeps (input_safe e j k) (discover_burst e n)"
proof (induction n)
  case (Suc n)
  show ?case
    unfolding discover_burst.simps
    by (intro input_keep, auto split: udp_read.split sum.split intro!: input_keep Suc)
qed (simp add: keep)

lemma discover_udp_peer_input: "keeps (input_safe e j k) (discover_udp_peer e)"
  unfolding discover_udp_peer_def by (intro input_keep discover_burst_input)

lemma start_sender_input: "keeps (input_safe e j k) (start_sender e)"
  unfolding start_sender_def
  by (intro input_keep; auto split: bool.split option.split intro!: input_keep input_log)

lemma hand_over_input: "keeps (input_safe e j k) (hand_over w h)" "keeps (input_safe e j k) stop_old_pipeline"
  unfolding hand_over_def stop_old_pipeline_def by (intro input_keep; auto intro: input_log)+

lemma restart_on_input: "keeps (input_safe e j k) (restart_on e d)"
  unfolding restart_on_def by (intro input_keep hand_over_input; auto intro: input_log)

lemma check_media_input: "keeps (input_safe e j k) (check_media e b)"
  unfolding check_media_def by (intro input_keep restart_on_input; auto)

lemma polls_input:
  "keeps (input_safe e j k) (poll_image e now)" "keeps (input_safe e j k) (sync_policy e)"
  "keeps (input_safe e j k) (heartbeat e now)" "keeps (input_safe e j k) (poll_text e now)"
  unfolding poll_image_def sync_policy_def heartbeat_def poll_text_def by (intro input_keep; auto)+

lemma keeps_ceiling:
  "(\<And>c. (\<And>g. within_ceiling e (intersect g c)) \<Longrightarrow> keeps (input_safe e j k) (f c)) \<Longrightarrow>
   keeps (input_safe e j k) (hbind (ceiling_m e b) f)"
  unfolding keeps_iff_hoare by (rule hoare_ceiling) blast

lemma keeps_get: "(\<And>t. keeps P (f t)) \<Longrightarrow> keeps P (hbind hget f)"
  by (intro keep)

lemma sync_permissions_input: "keeps (input_safe e True k) (sync_permissions e)"
  unfolding sync_permissions_def
  by (rule keeps_get, rule keeps_ceiling)
    (auto simp: Let_def intro!: input_keep inject_reset_input set_effective_input)

lemma housekeeping_input: "keeps (input_safe e j k) (housekeeping e)"
  unfolding housekeeping_def
  by (intro keeps_authenticated)
    (auto intro!: input_keep check_commands_input sync_permissions_input discover_udp_peer_input
      start_sender_input polls_input)

lemma ask_consent_input: "keeps (input_safe e j k) (ask_consent e name)"
  unfolding ask_consent_def by (intro input_keep; auto intro: input_log)

lemma handle_pairing_request_input: "keeps (input_safe e j k) (handle_pairing_request e payload)"
  unfolding handle_pairing_request_def grant_pairing_def
  by (intro input_keep ask_consent_input; auto simp: input_view_def)

lemma handshake_parts_input:
  "keeps (input_safe e j k) (claimed_record e h)" "keeps (input_safe e j k) (stored_rights e record)"
  "keeps (input_safe e j k) (check_identity e h)" "keeps (input_safe e j k) (negotiate e h record)"
  "keeps (input_safe e j k) (start_media e)"
  "keeps (input_safe e j k) (exchange_trust e fresh)" "keeps (input_safe e j k) (remember_pairing e fresh record)"
  unfolding claimed_record_def stored_rights_def check_identity_def negotiate_def start_media_def
    exchange_trust_def remember_pairing_def
  by (intro input_keep; auto simp: keep intro: input_log split: host_read.split control_message.split)+

text \<open>Once the permissions are under the ceiling, the rest of the admission keeps them there.\<close>

lemma admit_input: "keeps (input_safe e j k) (admit e record)"
proof -
  have admits: "keeps (input_safe e j True)
      (hthen (hlog (GuestJoined g)) (hmodify (\<lambda>s. s\<lparr>hc_guest := Some g, hc_state := Authenticated\<rparr>)))" for g
    by (auto simp: keeps_def hthen_def hbind_def hlog_def hmodify_def input_view_def)
  show ?thesis
    unfolding admit_def keeps_iff_hoare Let_def
    by (rule hoare_then [where R = "input_safe e j k"], rule hoare_modify, simp,
        rule hoare_get_keeps, rule hoare_ceiling, rule hoare_then, rule set_effective_within, simp,
        rule hoare_input_weaken [where j' = j and k' = True], (intro admits input_keep, simp_all))
qed

lemma handle_handshake_input: "keeps (input_safe e j k) (handle_handshake e payload)"
  unfolding handle_handshake_def
  by (intro input_keep handshake_parts_input admit_input; auto)

text \<open>The only packet that injects: the permissions are those it reads first.\<close>

lemma deliver_input_safe:
  "hoare (\<lambda>s. input_safe e True k s \<and> allows (hc_effective s) (ie_event_type ev) \<and>
       (gp_keyboard (hc_effective s) \<or> ie_modifiers ev = modifiers_empty))
     (deliver_input e n ev) (\<lambda>_. input_safe e True k) (input_safe e True k) (input_safe e True k)"
  unfolding deliver_input_def
  by (rule hoare_bind, rule inject_input_safe, fold keeps_iff_hoare, intro input_keep) (auto simp: input_view_def)

lemma handle_input_safe: "keeps (input_safe e True k) (handle_input e header payload)"
proof -
  let ?P = "input_safe e True k"
  have refuse: "hoare (\<lambda>s. ?P s \<and> s = t) (hthen (send_input_ack e n b c) hcontinue) (\<lambda>_. ?P) ?P ?P" for t n b c
    by (rule hoare_input_weaken [where j' = True and k' = k]) (auto intro!: input_keep)
  have accept: "hoare (\<lambda>s. ?P s \<and> s = t) (deliver_input e n ev) (\<lambda>_. ?P) ?P ?P"
    if "allows (hc_effective t) (ie_event_type ev)" "gp_keyboard (hc_effective t) \<or> ie_modifiers ev = modifiers_empty"
    for t n ev
    using that by (intro hoare_conseq [OF deliver_input_safe]) auto
  show ?thesis
    unfolding handle_input_def
    by (rule keeps_bind, rule keeps_results, unfold keeps_iff_hoare Let_def, rule hoare_get, rule hoare_if)
      (rule refuse, rule accept, auto)
qed

lemma control_parts_input:
  "keeps (input_safe e j k) (handle_image_chunk e chunk)" "keeps (input_safe e j k) (handle_clipboard_update e u)"
  "keeps (input_safe e j k) (request_key_frame e)" "keeps (input_safe e j k) (adjust_bitrate e b)"
  "keeps (input_safe e j k) (handle_stream_config e req)"
  unfolding handle_image_chunk_def handle_clipboard_update_def request_key_frame_def adjust_bitrate_def
    handle_stream_config_def
  by (intro input_keep; auto simp: keep intro: input_log split: sum.split option.split intro!: input_keep)+

lemma handle_stream_options_input: "keeps (input_safe e j k) (handle_stream_options e request)"
  unfolding handle_stream_options_def apply_stream_options_def
  by (intro input_keep hand_over_input; auto intro: input_log)

lemma answer_control_input: "keeps (input_safe e j k) (answer_control e control)"
  unfolding answer_control_def
  by (cases control) (auto simp: host_only_def intro!: input_keep control_parts_input handle_stream_options_input)

lemma state_allows_authenticated [simp]:
  "state_allows st InputEvent_Pkt \<longleftrightarrow> st = Authenticated" "state_allows st Control_Pkt \<longleftrightarrow> st = Authenticated"
  by (cases st; simp)+

lemma dispatch_input: "keeps (input_safe e j k) (dispatch e header payload)"
proof -
  have control: "keeps (input_safe e j k) (handle_control_packet e payload)" for j
    unfolding handle_control_packet_def by (intro input_keep answer_control_input)
  show ?thesis
    unfolding dispatch_def
    by (intro keeps_authenticated)
      (auto split: packet_type.split intro!: keep handle_pairing_request_input handle_handshake_input
        handle_input_safe control)
qed

lemma iteration_input: "keeps (input_safe e j k) (iteration e)"
  unfolding iteration_def
  by (intro input_keep check_media_input housekeeping_input dispatch_input)

lemma connection_teardown_input: "keeps (input_safe e j k) (connection_teardown e)"
proof -
  let ?P = "input_safe e j k"
  have release: "hoare (\<lambda>s. ?P s \<and> s = t) (hwhen (hc_injected t) (hbind (inject_input e host_reset_input) (\<lambda>_. hret ())))
      (\<lambda>_. ?P) ?P ?P" for t
    by (rule hoare_when, rule hoare_input_weaken [where j' = True and k' = k])
      (auto intro!: keep inject_reset_input, auto simp: input_view_def)
  show ?thesis
    unfolding connection_teardown_def
    by (rule keeps_then, rule keeps_modify, simp, rule keeps_then, rule hand_over_input,
        rule keeps_then, rule keeps_modify, simp, unfold keeps_iff_hoare, rule hoare_get, rule hoare_then,
        rule release, fold keeps_iff_hoare, intro input_keep) (auto simp: input_view_def)
qed

lemma intersect_self [simp]: "intersect p p = p"
  by (simp add: intersect_def)

lemma connection_start_input: "keeps (input_safe e j k) (connection_start e)"
proof -
  have self: "within_ceiling e c" if "\<And>g. within_ceiling e (intersect g c)" for c
    using that [of c] by simp
  show ?thesis
    unfolding connection_start_def
    by (intro keeps_ceiling set_effective_input input_keep) (auto intro: self)
qed

lemma handle_connection_input: "input_safe e False False (fst (handle_connection e fuel))"
  by (rule handle_connection_keeps [OF _ connection_start_input iteration_input connection_teardown_input])
    (simp add: input_view_def host_conn_blank_def Let_def inputs_ok_def joined_def in_force_def)

end
