(* ===== verification/Host_Admission.thy ===== *)
theory Host_Admission
  imports Host_Logic
begin

text \<open>
  The connection state of the host is well typed in every iteration, and nobody is admitted without
  the evidence the protocol asks for: a pairing in the store whose trust is valid and whose
  identifier the TLS handshake proved, or, for the bootstrap identity, an answer of the user while
  the pairing window was open and the lockout was not.

  The handshake takes the typed state apart and puts it together again; in between it maintains
  \<open>claim_view\<close> (whose pairing it is, and that it may be used) and \<open>ready_view\<close> (that the session's
  keys are there).
\<close>

section \<open>Evidence\<close>

definition consented :: "host_env \<Rightarrow> pairing_trust \<Rightarrow> bool" where
  "consented e trust \<longleftrightarrow> he_identity e = BOOTSTRAP_IDENTITY \<and>
     (\<exists>n d. he_consent e n d = Some (Some trust)) \<and>
     (\<exists>deadline n k m. he_pairing_deadline e = Some deadline \<and> he_now e n < deadline \<and>
        lockout_is_allowed (he_lockout e k) (he_now e m)) \<and>
     (trust \<noteq> GuestOnce \<longrightarrow> (\<exists>n. valid_trust trust (he_unix_ms e n)))"

definition stored_pairing :: "host_env \<Rightarrow> rstring \<Rightarrow> pairing_trust \<Rightarrow> bool" where
  "stored_pairing e pairing_id trust \<longleftrightarrow> (\<exists>claimed record n m k permissions.
     he_identity e = PAIRING_IDENTITY_PREFIX @ claimed \<and> he_load e n claimed = Inr (Some record) \<and>
     hpr_id record = pairing_id \<and> he_authorization e m pairing_id = Inr (trust, permissions) \<and>
     valid_trust trust (he_unix_ms e k))"

definition admissible :: "host_env \<Rightarrow> rstring \<Rightarrow> pairing_trust \<Rightarrow> bool" where
  "admissible e pairing_id trust \<longleftrightarrow> stored_pairing e pairing_id trust \<or> consented e trust"

definition joins_ok :: "host_env \<Rightarrow> host_effect list \<Rightarrow> bool" where
  "joins_ok e tr \<longleftrightarrow> (\<forall>g. GuestJoined g \<in> set tr \<longrightarrow> admissible e (gs_pairing_id g) (gs_trust g))"

section \<open>The typed state\<close>

definition conn_view :: "host_env \<Rightarrow> bool \<Rightarrow> host_effect list \<Rightarrow> host_state \<Rightarrow> host_pairing option \<Rightarrow> rstring option \<Rightarrow>
    pairing_trust \<Rightarrow> guest_session option \<Rightarrow> capabilities \<Rightarrow> datagram_cipher option \<Rightarrow> datagram_cipher option \<Rightarrow>
    (nat \<times> nat) option \<Rightarrow> bool \<Rightarrow> u16 \<Rightarrow> u32 \<Rightarrow> bool" where
  "conn_view e j tr st prov granted trust guest caps c2h h2c udp sender scale fps \<longleftrightarrow> (j \<longrightarrow> st = Authenticated) \<and>
     joins_ok e tr \<and> 100 \<le> scale \<and> scale \<le> 1000 \<and> 1 \<le> fps \<and> (sender \<longrightarrow> udp \<noteq> None) \<and>
     (case st of
        PreAuth \<Rightarrow> prov = None \<and> granted = None \<and> guest = None \<and> udp = None \<and> \<not> sender
      | PairingGranted \<Rightarrow> (\<exists>r. prov = Some r \<and> granted = Some (hpr_id r)) \<and> consented e trust \<and>
          guest = None \<and> udp = None \<and> \<not> sender
      | Authenticated \<Rightarrow> prov = None \<and> (\<exists>g. guest = Some g \<and> gs_trust g = trust \<and> GuestJoined g \<in> set tr) \<and>
          c2h \<noteq> None \<and> (h2c = None \<longleftrightarrow> sender) \<and> capabilities_contains caps AUTHENTICATED_UDP_REGISTRATION
      | Closed \<Rightarrow> False)"

abbreviation conn_ok :: "host_env \<Rightarrow> bool \<Rightarrow> host_conn \<Rightarrow> bool" where
  "conn_ok e j s \<equiv> conn_view e j (hc_trace s) (hc_state s) (hc_provisional s) (hc_granted s) (hc_trust s) (hc_guest s)
     (hc_peer_caps s) (hc_c2h s) (hc_h2c s) (hc_udp_peer s) (hc_sender s) (hc_scale s) (hc_fps s)"

lemma joins_ok_snoc [simp]:
  "joins_ok e (tr @ [x]) \<longleftrightarrow> joins_ok e tr \<and> (\<forall>g. x = GuestJoined g \<longrightarrow> admissible e (gs_pairing_id g) (gs_trust g))"
  by (auto simp: joins_ok_def)

lemma conn_log: "(\<forall>g. x \<noteq> GuestJoined g) \<Longrightarrow>
  conn_view e j tr st prov granted trust guest caps c2h h2c udp sender scale fps \<Longrightarrow>
  conn_view e j (tr @ [x]) st prov granted trust guest caps c2h h2c udp sender scale fps"
  by (auto simp: conn_view_def split: host_state.splits)

interpretation conn: quiet_invariant "conn_ok e j" for e j
  by unfold_locales (auto intro: conn_log)

lemmas conn_keep = keep conn.quiet_keep conn.keeps_check_stop conn.keeps_check_goodbye
  conn.keeps_check_admission keeps_modify keeps_log

lemma small_conn:
  "keeps (conn_ok e j) (inject_input e ev)" "keeps (conn_ok e j) (hand_over w h)" "keeps (conn_ok e j) stop_old_pipeline"
  unfolding inject_input_def hand_over_def stop_old_pipeline_def by (intro conn_keep; auto intro: conn_log)+

lemma set_effective_conn: "keeps (conn_ok e j) (set_effective p)"
  by (auto simp: keeps_def set_effective_def intro: conn_log)

lemma drain_commands_conn: "keeps (conn_ok e j) (drain_commands e cs)"
  by (induction cs rule: drain_commands.induct [of _ e]) (auto intro!: conn_keep)

lemma check_commands_conn: "keeps (conn_ok e j) (check_commands e)"
  unfolding check_commands_def
  by (intro conn_keep drain_commands_conn) (auto split: pairing_trust.split intro!: conn_keep)

lemma sync_permissions_conn: "keeps (conn_ok e j) (sync_permissions e)"
  unfolding sync_permissions_def by (intro conn_keep small_conn set_effective_conn; auto)

lemma discover_burst_conn: "keeps (conn_ok e True) (discover_burst e n)"
proof (induction n)
  case (Suc n)
  show ?case
    unfolding discover_burst.simps
    by (intro conn_keep, auto split: udp_read.split sum.split intro!: conn_keep Suc, auto simp: conn_view_def)
qed (simp add: keep)

lemma discover_udp_peer_conn: "keeps (conn_ok e True) (discover_udp_peer e)"
  unfolding discover_udp_peer_def by (intro conn_keep discover_burst_conn)

lemma start_sender_conn: "keeps (conn_ok e True) (start_sender e)"
  by (auto simp: keeps_def start_sender_def hbind_def hthen_def hget_def hmodify_def hask_def hcheck_def hok_or_def
      hlog_def hret_def hfail_def conn_view_def split: option.split bool.split)

lemma restart_on_conn: "keeps (conn_ok e j) (restart_on e d)"
  unfolding restart_on_def by (intro conn_keep small_conn; auto intro: conn_log)

lemma check_media_conn: "keeps (conn_ok e j) (check_media e b)"
  unfolding check_media_def by (intro conn_keep restart_on_conn; auto)

lemma polls_conn:
  "keeps (conn_ok e j) (poll_image e now)" "keeps (conn_ok e j) (sync_policy e)"
  "keeps (conn_ok e j) (heartbeat e now)" "keeps (conn_ok e j) (poll_text e now)"
  unfolding poll_image_def sync_policy_def heartbeat_def poll_text_def by (intro conn_keep; auto)+

lemma conn_weaken: "conn_ok e True s \<Longrightarrow> conn_ok e j s"
  by (auto simp: conn_view_def)

lemma conn_authenticated: "conn_ok e j s \<Longrightarrow> hc_state s = Authenticated \<Longrightarrow> conn_ok e True s"
  by (auto simp: conn_view_def)

lemma keeps_conn_authenticated:
  assumes "\<And>t. hc_state t = Authenticated \<Longrightarrow> keeps (conn_ok e True) (f t)"
    and "\<And>t. hc_state t \<noteq> Authenticated \<Longrightarrow> keeps (conn_ok e False) (f t)"
  shows "keeps (conn_ok e False) (hbind hget f)"
  unfolding keeps_iff_hoare
proof (rule hoare_get)
  fix t
  let ?P = "conn_ok e False"
  show "hoare (\<lambda>s. ?P s \<and> s = t) (f t) (\<lambda>_. ?P) ?P ?P"
  proof (cases "hc_state t = Authenticated")
    case True
    from assms(1) [OF this, unfolded keeps_iff_hoare] show ?thesis
      by (rule hoare_conseq) (metis True conn_authenticated, (erule conn_weaken)+)
  next
    case False
    from assms(2) [OF this, unfolded keeps_iff_hoare] show ?thesis
      by (rule hoare_conseq) auto
  qed
qed

lemma housekeeping_conn: "keeps (conn_ok e False) (housekeeping e)"
  unfolding housekeeping_def
  by (intro keeps_conn_authenticated)
    (auto intro!: conn_keep check_commands_conn sync_permissions_conn discover_udp_peer_conn
      start_sender_conn polls_conn)

section \<open>Input and control\<close>

lemma handle_input_conn: "keeps (conn_ok e j) (handle_input e header payload)"
  unfolding handle_input_def deliver_input_def by (intro conn_keep small_conn; auto)

lemma control_parts_conn:
  "keeps (conn_ok e j) (handle_image_chunk e chunk)" "keeps (conn_ok e j) (handle_clipboard_update e u)"
  "keeps (conn_ok e j) (request_key_frame e)" "keeps (conn_ok e j) (adjust_bitrate e b)"
  "keeps (conn_ok e j) (handle_stream_config e req)"
  unfolding handle_image_chunk_def handle_clipboard_update_def request_key_frame_def adjust_bitrate_def
    handle_stream_config_def
  by (intro conn_keep; auto simp: keep intro: conn_log split: sum.split option.split intro!: conn_keep)+

lemma valid_stream_options:
  assumes "validate_stream_options r ds = Inr u"
  shows "100 \<le> sor_scale_permille r" "sor_scale_permille r \<le> 1000" "1 \<le> (ucast (sor_fps r) :: u32)"
    "unat (sor_display_index r) < length ds"
proof -
  show "1 \<le> (ucast (sor_fps r) :: u32)"
    using assms unfolding word_le_nat_alt by (auto simp: validate_stream_options_def word_le_nat_alt unsigned_ucast_eq take_bit_nat_eq_self split: if_splits)
qed (use assms in \<open>auto simp: validate_stream_options_def split: if_splits\<close>)

lemma conn_scale:
  "conn_view e j tr st prov granted trust guest caps c2h h2c udp sender scale fps \<Longrightarrow>
   100 \<le> scale' \<Longrightarrow> scale' \<le> 1000 \<Longrightarrow> 1 \<le> fps' \<Longrightarrow>
   conn_view e j tr st prov granted trust guest caps c2h h2c udp sender scale' fps'"
  by (simp add: conn_view_def)

lemma handle_stream_options_conn: "keeps (conn_ok e j) (handle_stream_options e request)"
proof -
  have apply_options: "keeps (conn_ok e j) (apply_stream_options e request d)"
    if "validate_stream_options request ds = Inr u" for d ds u
    using valid_stream_options [OF that] unfolding apply_stream_options_def
    by (intro conn_keep small_conn; simp add: conn_log conn_scale)
  have body: "keeps (conn_ok e j) (case validate_stream_options request ds of Inl r \<Rightarrow> f r | Inr u \<Rightarrow> g u)"
    if "\<And>r. keeps (conn_ok e j) (f r)" "\<And>u. validate_stream_options request ds = Inr u \<Longrightarrow> keeps (conn_ok e j) (g u)"
    for f g ds
    using that by (cases "validate_stream_options request ds") auto
  show ?thesis
    unfolding handle_stream_options_def
    by (intro keeps_bind conn_keep body) (erule apply_options)
qed

lemma answer_control_conn: "keeps (conn_ok e j) (answer_control e control)"
  unfolding answer_control_def
  by (cases control) (auto simp: host_only_def intro!: conn_keep control_parts_conn handle_stream_options_conn)

lemma handle_control_packet_conn: "keeps (conn_ok e j) (handle_control_packet e payload)"
  unfolding handle_control_packet_def by (intro conn_keep answer_control_conn)

section \<open>Pairing\<close>

text \<open>What the questions of the pairing code find out.\<close>

lemma is_pairing_active_open:
  "hoare P (is_pairing_active e) (\<lambda>b _. b \<longrightarrow> (\<exists>deadline n k m. he_pairing_deadline e = Some deadline \<and>
     he_now e n < deadline \<and> lockout_is_allowed (he_lockout e k) (he_now e m))) F C"
  by (auto simp: hoare_def is_pairing_active_def now_m_def hbind_def hask_def hret_def split: option.split)

lemma ask_consent_answer:
  "hoare P (ask_consent e name) (\<lambda>a _. \<exists>n d. he_consent e n d = Some a) (\<lambda>_. True) (\<lambda>_. True)"
  by (auto simp: hoare_def ask_consent_def consent_deadline_def now_m_def hbind_def hthen_def hask_def hret_def hfail_def
      hlog_def hok_or_def split: option.split prod.split flow.split if_splits)

text \<open>A pairing request is handled in \<open>PreAuth\<close>; \<open>T\<close> is the trust once the user has given it.\<close>

abbreviation pre_ok :: "host_env \<Rightarrow> pairing_trust option \<Rightarrow> host_conn \<Rightarrow> bool" where
  "pre_ok e T s \<equiv> conn_ok e False s \<and> hc_state s = PreAuth \<and> (T = None \<or> T = Some (hc_trust s))"

interpretation pre: quiet_invariant "pre_ok e T" for e T
  by unfold_locales (auto intro: conn_log)

lemmas pre_keep = keep pre.quiet_keep keeps_modify keeps_log

lemma ask_consent_pre: "keeps (pre_ok e T) (ask_consent e name)"
  unfolding ask_consent_def by (intro pre_keep; auto intro: conn_log)

definition window_open :: "host_env \<Rightarrow> bool" where
  "window_open e \<longleftrightarrow> he_identity e = BOOTSTRAP_IDENTITY \<and> (\<exists>deadline n k m. he_pairing_deadline e = Some deadline \<and>
     he_now e n < deadline \<and> lockout_is_allowed (he_lockout e k) (he_now e m))"

lemma pairing_granted_ok:
  "pre_ok e (Some trust) s \<Longrightarrow> consented e trust \<Longrightarrow>
   conn_ok e False (s\<lparr>hc_granted := Some (hpr_id r), hc_provisional := Some r, hc_state := PairingGranted\<rparr>)"
  by (auto simp: conn_view_def)

lemma pre_trust: "pre_ok e T s \<Longrightarrow> pre_ok e (Some t) (s\<lparr>hc_trust := t\<rparr>)"
  by (auto simp: conn_view_def)

lemma hoare_keeps_weaken:
  "keeps P m \<Longrightarrow> (\<And>s. P s \<Longrightarrow> R s) \<Longrightarrow> hoare P m (\<lambda>_. R) R R"
  unfolding keeps_iff_hoare by (erule hoare_conseq) auto

lemma grant_pairing_conn:
  assumes consent: "\<exists>n d. he_consent e n d = Some (Some trust)" and w: "window_open e"
  shows "hoare (pre_ok e None) (grant_pairing e name trust) (\<lambda>_. conn_ok e False) (conn_ok e False) (conn_ok e False)"
proof -
  have clock: "hoare P (hask (he_unix_ms e)) (\<lambda>ms _. \<exists>n. ms = he_unix_ms e n) (\<lambda>_. True) (\<lambda>_. True)" for P
    by (rule hoare_ask) blast
  have final: "consented e trust" if "trust = GuestOnce \<or> valid_trust trust ms" "\<exists>n. ms = he_unix_ms e n" for ms
    using consent w that by (auto simp: consented_def window_open_def)
  show ?thesis
    unfolding grant_pairing_def Let_def
    apply (rule hoare_keeps_then)
    apply (intro keep, erule conjunct1, erule conjunct1)
    apply (rule hoare_keeps_fact [OF _ clock], intro pre_keep, erule conjunct1, erule conjunct1)
    apply (rule hoare_if, rule hoare_fail, erule conjunct1)
    apply (rule hoare_then [where R = "pre_ok e (Some trust)"], rule hoare_modify, erule pre_trust)
    apply (rule hoare_keeps_bind, intro pre_keep, erule conjunct1, erule conjunct1)+
    apply (rule hoare_keeps_then, intro pre_keep, erule conjunct1, erule conjunct1)
    apply (rule hoare_modify, rule pairing_granted_ok, assumption, rule final, auto)
    done
qed

lemma handle_pairing_request_conn:
  "hoare (pre_ok e None) (handle_pairing_request e payload) (\<lambda>_. conn_ok e False) (conn_ok e False) (conn_ok e False)"
proof -
  let ?P = "pre_ok e None" and ?C = "conn_ok e False"
  have opened: "hoare ?P (if he_identity e \<noteq> BOOTSTRAP_IDENTITY then hret False else is_pairing_active e)
      (\<lambda>b _. b \<longrightarrow> window_open e) (\<lambda>_. True) (\<lambda>_. True)"
    by (rule hoare_if, rule hoare_ret, simp, rule hoare_conseq [OF is_pairing_active_open])
      (auto simp: window_open_def)
  show ?thesis
    unfolding handle_pairing_request_def
    apply (rule hoare_keeps_fact [OF _ opened], intro pre_keep, erule conjunct1, erule conjunct1)
    apply (rule hoare_if, rule hoare_keeps_weaken [where P = ?P], intro pre_keep, erule conjunct1)
    apply (rule hoare_keeps_bind, intro pre_keep, erule conjunct1, erule conjunct1)
    apply (rule hoare_keeps_fact [OF ask_consent_pre ask_consent_answer], erule conjunct1, erule conjunct1)
    apply (rule hoare_keeps_bind, intro pre_keep, erule conjunct1, erule conjunct1)+
    apply (rule hoare_if, rule hoare_fail, erule conjunct1)
    apply (rule hoare_option, rule hoare_keeps_weaken [where P = ?P], intro pre_keep, erule conjunct1)
    apply (rule grant_pairing_conn, auto)
    done
qed

section \<open>The handshake\<close>

abbreviation nonauth_ok :: "host_env \<Rightarrow> host_conn \<Rightarrow> bool" where
  "nonauth_ok e s \<equiv> conn_ok e False s \<and> hc_state s \<noteq> Authenticated"

text \<open>The peer has shown that it may use the pairing; with \<open>c\<close> the keys are derived.\<close>

abbreviation claim_ok :: "host_env \<Rightarrow> rstring \<Rightarrow> bool \<Rightarrow> host_conn \<Rightarrow> bool" where
  "claim_ok e i c s \<equiv> nonauth_ok e s \<and> admissible e i (hc_trust s) \<and>
     (c \<longrightarrow> hc_c2h s \<noteq> None \<and> hc_h2c s \<noteq> None \<and>
        capabilities_contains (hc_peer_caps s) AUTHENTICATED_UDP_REGISTRATION)"

interpretation claim: quiet_invariant "claim_ok e i c" for e i c
  by unfold_locales (auto intro: conn_log)

lemmas claim_keep = keep claim.quiet_keep keeps_modify keeps_log

lemma conn_nonauth:
  "conn_view e j tr st prov granted trust guest caps c2h h2c udp sender scale fps \<Longrightarrow> st \<noteq> Authenticated \<Longrightarrow>
   conn_view e j tr st prov granted trust guest caps' c2h' h2c' udp sender scale fps"
  by (auto simp: conn_view_def split: host_state.splits)

lemma nonauth_cases:
  assumes "nonauth_ok e s"
  obtains "hc_state s = PreAuth" "hc_provisional s = None" "hc_granted s = None"
  | r where "hc_state s = PairingGranted" "hc_provisional s = Some r" "consented e (hc_trust s)"
  using assms by (auto simp: conn_view_def split: host_state.splits)

definition claimed_by :: "host_env \<Rightarrow> handshake \<Rightarrow> bool \<times> host_pairing \<Rightarrow> host_conn \<Rightarrow> bool" where
  "claimed_by e h x s \<longleftrightarrow> nonauth_ok e s \<and> hc_provisional s = (if fst x then Some (snd x) else None) \<and>
     (\<not> fst x \<longrightarrow> (\<exists>n. he_load e n (hs_pairing_id h) = Inr (Some (snd x))))"

definition authorized_by :: "host_env \<Rightarrow> handshake \<Rightarrow> bool \<times> host_pairing \<Rightarrow> host_conn \<Rightarrow> bool" where
  "authorized_by e h x s \<longleftrightarrow> claimed_by e h x s \<and>
     (\<not> fst x \<longrightarrow> (\<exists>n m permissions. he_authorization e n (hpr_id (snd x)) = Inr (hc_trust s, permissions) \<and>
        valid_trust (hc_trust s) (he_unix_ms e m)))"

lemma claimed_record_spec:
  "hoare (nonauth_ok e) (claimed_record e h) (claimed_by e h) (conn_ok e False) (conn_ok e False)"
  by (auto simp: hoare_def claimed_record_def claimed_by_def hbind_def hget_def hask_def hresult_def hok_or_def
      hret_def hfail_def split: option.split sum.split)

lemma conn_unpaired:
  "conn_view e j tr st None granted trust guest caps c2h h2c udp sender scale fps \<Longrightarrow> st \<noteq> Authenticated \<Longrightarrow>
   conn_view e j tr st None granted trust' guest caps c2h h2c udp sender scale fps"
  by (auto simp: conn_view_def split: host_state.splits)

lemma stored_rights_spec:
  "hoare (claimed_by e h (False, record)) (stored_rights e record) (\<lambda>_. authorized_by e h (False, record))
     (conn_ok e False) (conn_ok e False)"
  unfolding stored_rights_def
  by (auto simp: hoare_def hbind_def hask_def hresult_def hret_def hfail_def hmodify_def authorized_by_def
      claimed_by_def split: sum.split dest: conn_unpaired)

lemma rights_spec:
  "hoare (claimed_by e h x) (hwhen (\<not> fst x) (stored_rights e (snd x))) (\<lambda>_. authorized_by e h x)
     (conn_ok e False) (conn_ok e False)"
proof (cases x)
  case (Pair fresh r)
  show ?thesis
  proof (cases fresh)
    case True
    with Pair show ?thesis by (auto simp: hoare_def hwhen_def hret_def authorized_by_def)
  next
    case False
    with Pair show ?thesis using stored_rights_spec by (simp add: hwhen_def)
  qed
qed

lemma strip_prefix_Some: "strip_prefix prefix s = Some r \<Longrightarrow> s = prefix @ r"
  unfolding strip_prefix_def starts_with_def by (metis append_take_drop_id option.discI option.inject)

lemma authorized_admissible:
  assumes "authorized_by e h x s" and "\<not> fst x \<Longrightarrow> he_identity e = PAIRING_IDENTITY_PREFIX @ hs_pairing_id h"
  shows "admissible e (hpr_id (snd x)) (hc_trust s)"
proof (cases "fst x")
  case True
  with assms(1) have "nonauth_ok e s" "hc_provisional s \<noteq> None" by (auto simp: authorized_by_def claimed_by_def)
  then show ?thesis by (cases rule: nonauth_cases) (auto simp: admissible_def)
next
  case False
  with assms show ?thesis
    by (auto simp: authorized_by_def claimed_by_def admissible_def stored_pairing_def)
qed

lemma check_identity_spec:
  "hoare (authorized_by e h x) (check_identity e h) (\<lambda>_. claim_ok e (hpr_id (snd x)) False)
     (conn_ok e False) (conn_ok e False)"
  unfolding hoare_def
proof (intro allI impI)
  fix s assume s: "authorized_by e h x s"
  then have n: "nonauth_ok e s" and p: "hc_provisional s = (if fst x then Some (snd x) else None)"
    by (auto simp: authorized_by_def claimed_by_def)
  have "he_identity e = PAIRING_IDENTITY_PREFIX @ hs_pairing_id h" if "check_identity e h s = (s', Done u)" "\<not> fst x" for s' u
  proof -
    from n p that(2) have "hc_granted s = None" by (cases rule: nonauth_cases) auto
    with that(1) show ?thesis
      by (auto simp: check_identity_def hbind_def hget_def hfail_def hret_def dest!: strip_prefix_Some
          split: option.splits if_splits)
  qed
  with authorized_admissible [OF s] have "admissible e (hpr_id (snd x)) (hc_trust s)" if "check_identity e h s = (s', Done u)" for s' u
    using that by blast
  moreover have "fst (check_identity e h s) = s"
    by (simp add: check_identity_def hbind_def hget_def hfail_def hret_def split: option.split)
  ultimately show "case check_identity e h s of (s', Done u) \<Rightarrow> claim_ok e (hpr_id (snd x)) False s'
      | (s', Continue) \<Rightarrow> conn_ok e False s' | (s', _) \<Rightarrow> conn_ok e False s'"
    using n by (cases "check_identity e h s"; cases "snd (check_identity e h s)") auto
qed

lemma negotiate_spec:
  "hoare (claim_ok e i False) (negotiate e h record) (\<lambda>_. claim_ok e i True) (conn_ok e False) (conn_ok e False)"
  unfolding negotiate_def
  by (auto simp: hoare_def hbind_def hthen_def hask_def hresult_def hcheck_def hret_def hfail_def hmodify_def Let_def
      split: sum.split option.split elim: conn_nonauth)

lemma start_media_keeps: "keeps (claim_ok e i c) (start_media e)" "keeps (conn_ok e j) (start_media e)"
  unfolding start_media_def by (intro claim_keep; auto intro: conn_log) (intro conn_keep; auto intro: conn_log)

lemma exchange_trust_claim: "keeps (claim_ok e i c) (exchange_trust e fresh)"
  unfolding exchange_trust_def
  by (intro claim_keep) (auto simp: keep split: host_read.split control_message.split)

lemma remember_pairing_claim: "keeps (claim_ok e i c) (remember_pairing e fresh r)"
  unfolding remember_pairing_def by (intro claim_keep; auto intro: conn_log)

subsection \<open>Admission\<close>

text \<open>Between dropping the provisional record and joining the directory.\<close>

definition ready_view :: "host_env \<Rightarrow> rstring \<Rightarrow> pairing_trust \<Rightarrow> host_effect list \<Rightarrow> host_pairing option \<Rightarrow>
    pairing_trust \<Rightarrow> capabilities \<Rightarrow> datagram_cipher option \<Rightarrow> datagram_cipher option \<Rightarrow> bool \<Rightarrow> u16 \<Rightarrow> u32 \<Rightarrow> bool" where
  "ready_view e i T tr prov trust caps c2h h2c sender scale fps \<longleftrightarrow>
     joins_ok e tr \<and> 100 \<le> scale \<and> scale \<le> 1000 \<and> 1 \<le> fps \<and> \<not> sender \<and> prov = None \<and> trust = T \<and>
     admissible e i T \<and> c2h \<noteq> None \<and> h2c \<noteq> None \<and> capabilities_contains caps AUTHENTICATED_UDP_REGISTRATION"

abbreviation ready_ok :: "host_env \<Rightarrow> rstring \<Rightarrow> pairing_trust \<Rightarrow> host_conn \<Rightarrow> bool" where
  "ready_ok e i T s \<equiv> ready_view e i T (hc_trace s) (hc_provisional s) (hc_trust s) (hc_peer_caps s) (hc_c2h s)
     (hc_h2c s) (hc_sender s) (hc_scale s) (hc_fps s)"

abbreviation joined_ok :: "host_env \<Rightarrow> host_conn \<Rightarrow> bool" where
  "joined_ok e s \<equiv> joins_ok e (hc_trace s)"

lemma ready_log: "(\<forall>g. x \<noteq> GuestJoined g) \<Longrightarrow> ready_view e i T tr prov trust caps c2h h2c sender scale fps \<Longrightarrow>
  ready_view e i T (tr @ [x]) prov trust caps c2h h2c sender scale fps"
  by (auto simp: ready_view_def)

interpretation ready: quiet_invariant "ready_ok e i T" for e i T
  by unfold_locales (auto intro: ready_log)

lemmas ready_keep = keep ready.quiet_keep keeps_modify keeps_log

lemma claim_ready: "claim_ok e i True s \<Longrightarrow> ready_ok e i (hc_trust s) (s\<lparr>hc_provisional := None\<rparr>)"
  by (auto simp: conn_view_def ready_view_def split: host_state.splits)

lemma ready_joined: "ready_ok e i T s \<Longrightarrow> joined_ok e s"
  by (simp add: ready_view_def)

lemma conn_joined: "conn_ok e j s \<Longrightarrow> joined_ok e s"
  by (simp add: conn_view_def)

lemma join_spec:
  assumes "gs_pairing_id g = i" "gs_trust g = T"
  shows "hoare (ready_ok e i T) (hthen (hlog (GuestJoined g)) (hmodify (\<lambda>s. s\<lparr>hc_guest := Some g, hc_state := Authenticated\<rparr>)))
    (\<lambda>_. conn_ok e False) (joined_ok e) (conn_ok e False)"
  using assms by (auto simp: hoare_def hthen_def hbind_def hlog_def hmodify_def ready_view_def conn_view_def)

lemma admit_spec:
  "hoare (claim_ok e (hpr_id r) True) (admit e r) (\<lambda>_. conn_ok e False) (joined_ok e) (\<lambda>_. True)"
proof -
  have set_eff: "keeps (ready_ok e i T) (set_effective p)" for i T p
    by (auto simp: keeps_def set_effective_def intro: ready_log)
  have body: "hoare (\<lambda>s. \<exists>T. ready_ok e (hpr_id r) T s) (hbind hget (\<lambda>s. f s)) (\<lambda>_. conn_ok e False) (joined_ok e) (\<lambda>_. True)"
    if "\<And>t. hoare (ready_ok e (hpr_id r) (hc_trust t)) (f t) (\<lambda>_. conn_ok e False) (joined_ok e) (\<lambda>_. True)" for f
    by (rule hoare_get, rule hoare_conseq [OF that]) (auto simp: ready_view_def)
  show ?thesis
    unfolding admit_def Let_def
    apply (rule hoare_then [where R = "\<lambda>s. \<exists>T. ready_ok e (hpr_id r) T s"])
     apply (rule hoare_modify, rule exI, erule claim_ready)
    apply (rule body)
    apply (rule hoare_keeps_bind, intro ready_keep, erule ready_joined, rule TrueI)
    apply (rule hoare_keeps_then, rule set_eff, erule ready_joined, rule TrueI)
    apply (rule hoare_keeps_then, intro ready_keep, erule ready_joined, rule TrueI)
    apply (rule hoare_keeps_then, rule keeps_modify, simp, erule ready_joined, rule TrueI)
    apply (rule hoare_keeps_bind, intro ready_keep, erule ready_joined, rule TrueI)+
    apply (rule hoare_conseq [OF join_spec], simp_all)
    done
qed

text \<open>The admission has no \<open>continue\<close>.\<close>

definition no_continue :: "'a hm \<Rightarrow> bool" where
  "no_continue m \<longleftrightarrow> (\<forall>s. snd (m s) \<noteq> Continue)"

lemma no_continue_bind: "no_continue m \<Longrightarrow> (\<And>x. no_continue (f x)) \<Longrightarrow> no_continue (hbind m f)"
  unfolding no_continue_def hbind_def by (auto split: prod.split flow.split) (metis snd_conv)

lemma no_continue_then: "no_continue m \<Longrightarrow> no_continue k \<Longrightarrow> no_continue (hthen m k)"
  unfolding hthen_def by (rule no_continue_bind)

lemma no_continue_leaf:
  "no_continue (hret x)" "no_continue (hfail e)" "no_continue hget" "no_continue (hask q)" "no_continue (hmodify f)"
  "no_continue (hlog y)" "no_continue (set_effective p)" "no_continue (hresult w r)" "no_continue (hcheck u z)"
  by (simp_all add: no_continue_def hret_def hfail_def hget_def hask_def hmodify_def hlog_def set_effective_def
      hresult_def hcheck_def split: sum.split option.split)

lemma no_continue_send: "no_continue (send_tcp_control e m)"
  unfolding send_tcp_control_def send_tcp_packet_def Let_def
  by (intro no_continue_bind no_continue_then no_continue_leaf)

lemma no_continue_admit: "no_continue (admit e r)"
  unfolding admit_def ceiling_m_def send_permissions_def now_m_def Let_def
  by (intro no_continue_bind no_continue_then no_continue_leaf) (auto intro: no_continue_leaf no_continue_send split: option.split)

lemma hoare_no_continue: "no_continue m \<Longrightarrow> hoare P m Q F C \<Longrightarrow> hoare P m Q F C'"
  unfolding hoare_iff no_continue_def by (metis snd_conv)

lemma handle_handshake_conn:
  "hoare (conn_ok e False) (handle_handshake e payload) (\<lambda>_. conn_ok e False) (joined_ok e) (conn_ok e False)"
proof -
  have c: "claim_ok e i c s \<Longrightarrow> joined_ok e s" "claim_ok e i c s \<Longrightarrow> conn_ok e False s" for i c s
    by (auto intro: conn_joined)
  have n: "nonauth_ok e s \<Longrightarrow> joined_ok e s" "nonauth_ok e s \<Longrightarrow> conn_ok e False s" for s
    by (auto intro: conn_joined)
  have weaken: "hoare P m Q (conn_ok e False) (conn_ok e False) \<Longrightarrow> hoare P m Q (joined_ok e) (conn_ok e False)"
    for P Q and m :: "'a hm"
    by (erule hoare_conseq) (auto intro: conn_joined)
  show ?thesis
    unfolding handle_handshake_def split_beta
    apply (rule hoare_get)
    apply (rule hoare_if, rule hoare_fail, simp add: conn_joined)
    apply (rule hoare_bind [where R = "\<lambda>_. nonauth_ok e"], rule hoare_result, simp, simp add: conn_joined)
    apply (rule hoare_bind, rule weaken, rule claimed_record_spec)
    apply (rule hoare_then, rule weaken, rule rights_spec)
    apply (rule hoare_then, rule weaken, rule check_identity_spec)
    apply (rule hoare_then, rule weaken, rule negotiate_spec)
    apply (rule hoare_keeps_then, intro keep start_media_keeps, erule c, erule c)
    apply (rule hoare_keeps_bind, intro keep, erule c, erule c)
    apply (rule hoare_keeps_then, intro claim_keep, erule c, erule c)
    apply (rule hoare_keeps_then, rule exchange_trust_claim, erule c, erule c)
    apply (rule hoare_keeps_then, rule remember_pairing_claim, erule c, erule c)
    apply (rule hoare_then, rule hoare_no_continue [OF no_continue_admit admit_spec])
    apply (rule weaken, fold keeps_iff_hoare, intro start_media_keeps conn_keep, simp_all)
    done
qed

section \<open>The connection\<close>

lemma dispatch_conn:
  "hoare (conn_ok e False) (dispatch e header payload) (\<lambda>_. conn_ok e False) (joined_ok e) (conn_ok e False)"
proof -
  have k: "hoare (conn_ok e False) m (\<lambda>_. conn_ok e False) (joined_ok e) (conn_ok e False)"
    if "keeps (conn_ok e False) m" for m :: "unit hm"
    by (rule hoare_keeps [OF that]) (auto intro: conn_joined)
  have request: "hoare (\<lambda>s. conn_ok e False s \<and> s = t) (handle_pairing_request e payload) (\<lambda>_. conn_ok e False)
      (joined_ok e) (conn_ok e False)" if "hc_state t = PreAuth" for t
    by (rule hoare_conseq [OF handle_pairing_request_conn]) (use that in \<open>auto intro: conn_joined\<close>)
  have at: "hoare P m Q F C \<Longrightarrow> hoare (\<lambda>s. P s \<and> s = t) m Q F C" for P Q F C t and m :: "unit hm"
    by (erule hoare_conseq) auto
  show ?thesis
    unfolding dispatch_def
    apply (rule hoare_get)
    apply (rule hoare_if)
     apply (rule at, rule k, intro keep)
    apply (case_tac "ph_packet_type header"; simp)
               apply (rule at, rule handle_handshake_conn)
              apply (rule at, rule k, intro keep)
             apply (rule at, rule k, intro keep)
            apply (rule at, rule k, intro keep)
           apply (rule at, rule k, intro keep)
          apply (rule at, rule k, rule handle_input_conn)
         apply (rule at, rule k, rule handle_control_packet_conn)
        apply (rule at, rule k, intro keep)
       apply (rule at, rule k, intro keep)
      apply (rule request, case_tac "hc_state t"; simp)
     apply (rule at, rule k, intro keep)
    apply (rule at, rule k, intro keep)
    done
qed

lemma iteration_conn:
  "hoare (conn_ok e False) (iteration e) (\<lambda>_. conn_ok e False) (joined_ok e) (conn_ok e False)"
proof -
  have c: "conn_ok e False s \<Longrightarrow> joined_ok e s" for s by (rule conn_joined)
  show ?thesis
    unfolding iteration_def split_beta
    apply (rule hoare_keeps_then, rule conn.keeps_check_stop, erule c, assumption)
    apply (rule hoare_keeps_bind, intro conn_keep, erule c, assumption)+
    apply (rule hoare_keeps_then, rule conn.keeps_check_goodbye, erule c, assumption)
    apply (rule hoare_keeps_then, rule check_media_conn, erule c, assumption)
    apply (rule hoare_keeps_then, rule conn.keeps_check_admission, erule c, assumption)
    apply (rule hoare_keeps_then, rule housekeeping_conn, erule c, assumption)
    apply (rule hoare_option, rule hoare_continue, assumption)
    apply (rule hoare_keeps_bind, intro keep, erule c, assumption)
    apply (rule dispatch_conn)
    done
qed

interpretation joins: quiet_invariant "joined_ok e" for e
  by unfold_locales simp_all

lemma connection_teardown_joined: "keeps (joined_ok e) (connection_teardown e)"
  unfolding connection_teardown_def stop_old_pipeline_def inject_input_def
  by (intro keep joins.quiet_keep keeps_modify keeps_log; simp)

lemma connection_start_conn: "keeps (conn_ok e False) (connection_start e)"
  unfolding connection_start_def by (intro conn_keep set_effective_conn; auto)

lemma host_conn_blank_ok: "conn_ok e False (host_conn_blank e)"
  by (simp add: conn_view_def host_conn_blank_def Let_def joins_ok_def)

lemma handle_connection_conn:
  "case handle_connection e fuel of (s, None) \<Rightarrow> conn_ok e False s | (s, Some _) \<Rightarrow> joined_ok e s"
  by (rule handle_connection_hoare [where P = "conn_ok e False" and F = "joined_ok e"])
    (auto intro: host_conn_blank_ok connection_start_conn iteration_conn connection_teardown_joined conn_joined)

end
