(* ===== verification/Host_Sample.thy ===== *)
theory Host_Sample
  imports Host_Logic
begin

text \<open>
  A concrete connection, evaluated by the simplifier: a client with a stored pairing says hello,
  is admitted, presses a key and hangs up. It shows that the properties of the host speak of runs that
  exist.
\<close>

definition sample_config :: host_config where
  "sample_config = \<lparr>hcf_bootstrap_pin = None, hcf_pairing_window = PAIRING_WINDOW, hcf_host_name = ascii ''host'',
     hcf_display = \<lparr>di_desktop_x = 0, di_desktop_y = 0, di_logical_width = 1920, di_logical_height = 1080,
       di_pixel_width = 1920, di_pixel_height = 1080, di_scale_factor = f32_one\<rparr>,
     hcf_frames_per_second = 60, hcf_bitrate = 8000000, hcf_capture_audio = True, hcf_consent_sender = False,
     hcf_output_name = None\<rparr>"

definition sample_hello :: handshake where
  "sample_hello = \<lparr>hs_name = ascii ''laptop'', hs_width = 800, hs_height = 600, hs_scale = f32_one,
     hs_version = PROTOCOL_VERSION, hs_capabilities = AUTHENTICATED_UDP_REGISTRATION,
     hs_pairing_id = ascii ''P'', hs_session_salt = replicate 16 7\<rparr>"

definition sample_key :: input_event where
  "sample_key = \<lparr>ie_event_type = KeyDown, ie_x = f32_zero, ie_y = f32_zero, ie_key_code = 4,
     ie_modifiers = modifiers_empty, ie_scroll_dx = f32_zero, ie_scroll_dy = f32_zero\<rparr>"

definition packet_of :: "packet_type \<Rightarrow> codec_error + bytes \<Rightarrow> bytes" where
  "packet_of ty r = packet_header_to_bytes (packet_header_new ty 0 0 0) @ (case r of Inr bs \<Rightarrow> bs | Inl _ \<Rightarrow> [])"

definition sample_record :: host_pairing where
  "sample_record = \<lparr>hpr_id = ascii ''P'', hpr_name = ascii ''laptop'', hpr_key = replicate 32 9, hpr_added_at_unix_ms = 0\<rparr>"

text \<open>The client's first packet is read until the admission, the key press afterwards, and then the end of the stream.\<close>

definition sample_env :: host_env where
  "sample_env = \<lparr>he_os = Linux, he_config = sample_config, he_identity = PAIRING_IDENTITY_PREFIX @ ascii ''P'',
     he_caps = host_guest_capabilities Linux False False, he_peer = (0, 1), he_admission_deadline = 10,
     he_pairing_deadline = None, he_restart_factory = True, he_clipboard = False,
     he_open = (\<lambda>_ _ _ _. None), he_hkdf = (\<lambda>_ _ _ n. replicate n 0),
     he_png = \<lparr>png_read_info = (\<lambda>_ _. None), png_next_frame = (\<lambda>_ _. False)\<rparr>,
     he_now = (\<lambda>_. 0), he_unix_ms = (\<lambda>_. 1), he_policy = (\<lambda>_. \<lparr>hp_allow_input = True, hp_allow_clipboard = True\<rparr>),
     he_stop = (\<lambda>_. False), he_aborted = (\<lambda>_. False), he_media_failed = (\<lambda>_. False),
     he_read = (\<lambda>n. if n < 18 then ReadPacket (packet_of Handshake_Pkt (encode_handshake sample_hello))
                    else if n < 34 then ReadPacket (packet_of InputEvent_Pkt (encode_input_event sample_key))
                    else ReadError (TlsIo IoUnexpectedEof) False),
     he_write = (\<lambda>_ _. None), he_set_timeout = (\<lambda>_. None), he_probe = (\<lambda>_. NoProbe),
     he_media_start = (\<lambda>_. None), he_swap = (\<lambda>_. True), he_retarget = (\<lambda>_. None),
     he_cpu_scaling = (\<lambda>_. True), he_force_key = (\<lambda>_. None), he_set_bitrate = (\<lambda>_ _. None), he_inject = (\<lambda>_ _. True),
     he_poll_text = (\<lambda>_. None), he_poll_image = (\<lambda>_. None), he_commands = (\<lambda>_. []), he_consent_send = (\<lambda>_. True),
     he_consent = (\<lambda>_ _. None), he_lockout = (\<lambda>_. bootstrap_lockout_default), he_uuid = (\<lambda>_. ascii ''u''),
     he_random_key = (\<lambda>_. replicate 32 1), he_load = (\<lambda>_ _. Inr (Some sample_record)),
     he_authorization = (\<lambda>_ _. Inr (Owner, None)), he_set_authorization = (\<lambda>_. None), he_save = (\<lambda>_. None),
     he_registry = (\<lambda>_. registry_default), he_udp = (\<lambda>_. UdpWouldBlock), he_clone_socket = (\<lambda>_. None),
     he_error_text = (\<lambda>_. [])\<rparr>"

definition sample_grant :: guest_permissions where
  "sample_grant = \<lparr>gp_keyboard = True, gp_mouse = True, gp_gamepad = False, gp_clipboard = True, gp_audio = True\<rparr>"

definition sample_effective :: guest_permissions where
  "sample_effective = \<lparr>gp_keyboard = True, gp_mouse = True, gp_gamepad = False, gp_clipboard = False, gp_audio = True\<rparr>"

definition sample_joiner :: guest_session where
  "sample_joiner = \<lparr>gs_id = ascii ''u'', gs_pairing_id = ascii ''P'', gs_name = ascii ''laptop'', gs_peer = (0, 1),
     gs_trust = Owner, gs_connected_at = 0\<rparr>"

section \<open>Evaluation\<close>

lemmas hm_eval = hbind_def hthen_def hret_def hfail_def hbreak_def hcontinue_def hget_def hmodify_def hwhen_def
  hask_def hlog_def hcheck_def hresult_def hok_or_def set_effective_def htry_def

lemma sample_fields [simp]:
  "he_os sample_env = Linux" "he_identity sample_env = PAIRING_IDENTITY_PREFIX @ ascii ''P''"
  "he_caps sample_env = host_guest_capabilities Linux False False" "he_aborted sample_env n = False"
  "he_stop sample_env n = False" "he_media_failed sample_env n = False" "he_now sample_env n = 0"
  "he_admission_deadline sample_env = 10" "he_set_timeout sample_env n = None"
  "he_load sample_env n i = Inr (Some sample_record)" "he_authorization sample_env n i = Inr (Owner, None)"
  "he_unix_ms sample_env n = 1" "he_hkdf sample_env = (\<lambda>_ _ _ n. replicate n 0)" "he_media_start sample_env n = None"
  "he_write sample_env n x = None" "he_policy sample_env n = \<lparr>hp_allow_input = True, hp_allow_clipboard = True\<rparr>"
  "he_config sample_env = sample_config" "he_uuid sample_env n = ascii ''u''" "he_peer sample_env = (0, 1)"
  "he_retarget sample_env n = None" "he_probe sample_env n = NoProbe" "he_commands sample_env n = []"
  "he_udp sample_env n = UdpWouldBlock" "he_inject sample_env n ev = True"
  by (simp_all add: sample_env_def)

lemma sample_read:
  "he_read sample_env n = (if n < 18 then ReadPacket (packet_of Handshake_Pkt (encode_handshake sample_hello))
     else if n < 34 then ReadPacket (packet_of InputEvent_Pkt (encode_input_event sample_key))
     else ReadError (TlsIo IoUnexpectedEof) False)"
  by (simp add: sample_env_def)

lemmas caps_eval = capabilities_contains_def host_guest_capabilities_def capabilities_bitor_def GAMEPAD_def
  HOST_STATUS_def SESSION_ENDED_def GUEST_PERMISSIONS_def PAIRING_TRUST_def RTT_PROBE_def TEXT_CLIPBOARD_SYNC_def
  AUTHENTICATED_UDP_REGISTRATION_def STREAM_OPTIONS_def CLIPBOARD_IMAGE_def

lemma sample_caps [simp]:
  "capabilities_contains (host_guest_capabilities Linux False False) TEXT_CLIPBOARD_SYNC"
  "\<not> capabilities_contains (host_guest_capabilities Linux False False) GAMEPAD"
  "capabilities_contains AUTHENTICATED_UDP_REGISTRATION AUTHENTICATED_UDP_REGISTRATION"
  "\<not> capabilities_contains AUTHENTICATED_UDP_REGISTRATION TEXT_CLIPBOARD_SYNC"
  "\<not> capabilities_contains AUTHENTICATED_UDP_REGISTRATION GAMEPAD"
  "\<not> capabilities_contains AUTHENTICATED_UDP_REGISTRATION PAIRING_TRUST"
  "\<not> capabilities_contains AUTHENTICATED_UDP_REGISTRATION STREAM_OPTIONS"
  "\<not> capabilities_contains AUTHENTICATED_UDP_REGISTRATION GUEST_PERMISSIONS"
  "\<not> capabilities_contains AUTHENTICATED_UDP_REGISTRATION CLIPBOARD_IMAGE"
  by (simp_all add: caps_eval Let_def)

lemma sample_hello_fields [simp]:
  "hs_version sample_hello = PROTOCOL_VERSION" "hs_capabilities sample_hello = AUTHENTICATED_UDP_REGISTRATION"
  "hs_pairing_id sample_hello = ascii ''P''" "hs_session_salt sample_hello = replicate 16 7"
  by (simp_all add: sample_hello_def)

lemma split_packet_of: "split_packet (packet_of ty (Inr bs)) = Inr (packet_header_new ty 0 0 0, bs)"
  by (simp add: split_packet_def packet_of_def packet_header_SIZE_def decode_packet_header_Inr)

definition sample_started :: "host_conn \<Rightarrow> bool" where
  "sample_started s \<longleftrightarrow> hc_tick s = 11 \<and> hc_state s = PreAuth \<and> hc_provisional s = None \<and> hc_granted s = None \<and>
     \<not> hc_sender s \<and> hc_trace s = [SetEffective (hc_effective s)] \<and> \<not> hc_injected s \<and> hc_udp_peer s = None \<and>
     hc_grant s = sample_grant \<and> hc_topology_check s = from_secs 2"

lemma sample_start: "\<exists>s. connection_start sample_env (host_conn_blank sample_env) = (s, Done ()) \<and> sample_started s"
  unfolding connection_start_def
  by (simp add: hm_eval ceiling_m_def now_m_def displays_m_def host_conn_blank_def host_displays_def
      primary_or_first_def permission_ceiling_def truncate_str_to_bytes_def MAX_HOST_DISPLAY_NAME_BYTES_def
      HEARTBEAT_INTERVAL_def sample_config_def sample_started_def sample_grant_def Let_def)

definition sample_admitted :: "host_conn \<Rightarrow> bool" where
  "sample_admitted s \<longleftrightarrow> hc_tick s = 30 \<and> hc_state s = Authenticated \<and> \<not> hc_sender s \<and> hc_udp_peer s = None \<and>
     hc_effective s = sample_effective \<and> hc_grant s = sample_grant \<and> hc_peer_caps s = AUTHENTICATED_UDP_REGISTRATION \<and>
     hc_clipboard_sync s = False \<and> hc_peer_stream_options s = False \<and> hc_trust s = Owner \<and>
     hc_topology_check s = from_secs 2 \<and> hc_guest s = Some sample_joiner \<and> hc_next_ping s = from_secs 2 \<and> hc_last_pong s = 0 \<and> hc_c2h s \<noteq> None \<and>
     (\<exists>p b. hc_trace s = [SetEffective p, MediaStarted, Sent b, SetEffective sample_effective, GuestJoined sample_joiner])"

lemma sample_hello_encodes: "\<exists>bs. encode_handshake sample_hello = Inr bs \<and> decode_handshake bs = Inr sample_hello"
proof -
  obtain bs where bs: "encode_handshake sample_hello = Inr bs"
    using encode_handshake_defined [of sample_hello] by (auto simp: sample_hello_def handshake_limits)
  moreover have "handshake_inv sample_hello"
    by (simp add: handshake_inv_def sample_hello_def SESSION_SALT_SIZE_def)
  ultimately show ?thesis by (auto simp: decode_handshake_Inr sample_hello_def)
qed

lemma sample_admission:
  assumes "sample_started s"
  shows "\<exists>s'. iteration sample_env s = (s', Done ()) \<and> sample_admitted s'"
proof -
  obtain body where b: "encode_handshake sample_hello = Inr body" "decode_handshake body = Inr sample_hello"
    using sample_hello_encodes by blast
  obtain ack where a: "encode_handshake (handshake_ack sample_env) = Inr ack"
    using encode_handshake_defined [of "handshake_ack sample_env"]
    by (auto simp: handshake_ack_def sample_config_def handshake_limits)
  note s = assms [unfolded sample_started_def]
  show ?thesis
    by (simp add: iteration_def check_stop_def hm_eval classify_read_def check_goodbye_def check_media_def
        check_admission_def housekeeping_def now_m_def s sample_read b split_packet_of dispatch_def packet_header_new_def
        handle_handshake_def claimed_record_def stored_rights_def check_identity_def strip_prefix_def starts_with_def
        negotiate_def a start_media_def exchange_trust_def remember_pairing_def admit_def derive_def send_permissions_def
        permissions_message_def ceiling_m_def send_tcp_packet_def encode_packet_header_def
        sample_record_def Let_def permission_ceiling_def intersect_def sample_grant_def sample_effective_def
        sample_config_def sample_admitted_def sample_joiner_def HEARTBEAT_INTERVAL_def)
qed

lemma sample_burst:
  "discover_burst sample_env MAX_UDP_DISCOVERY_BURST s = (s\<lparr>hc_tick := hc_tick s + 1\<rparr>, Done ())"
proof -
  have m: "MAX_UDP_DISCOVERY_BURST = Suc 31" by (simp add: MAX_UDP_DISCOVERY_BURST_def)
  show ?thesis unfolding m discover_burst.simps by (simp add: hm_eval)
qed

lemma sample_press:
  assumes "sample_admitted s"
  shows "\<exists>s' p b b'. iteration sample_env s = (s', Done ()) \<and>
    hc_trace s' = [SetEffective p, MediaStarted, Sent b, SetEffective sample_effective, GuestJoined sample_joiner] @
      Injected sample_key True # [Sent b'] \<and>
    34 \<le> hc_tick s' \<and> hc_injected s' \<and> hc_guest s' = Some sample_joiner"
proof -
  obtain body where b: "encode_input_event sample_key = Inr body"
    by (auto simp: encode_input_event_def sample_key_def)
  then have d: "decode_input_event body = Inr sample_key" by (simp add: decode_input_event_Inr)
  note s = assms [unfolded sample_admitted_def]
  from s obtain p c where t: "hc_trace s = [SetEffective p, MediaStarted, Sent c, SetEffective sample_effective, GuestJoined sample_joiner]"
    by blast
  have k: "ie_event_type sample_key = KeyDown" "ie_modifiers sample_key = modifiers_empty" by (simp_all add: sample_key_def)
  have ack: "\<exists>bs. encode_control_message (InputAck m) = Inr bs" for m
    by (simp add: encode_control_message_def encode_input_ack_message_def)
  then obtain ab where ab: "encode_control_message (InputAck \<lparr>ia_sequence = 0, ia_success = True, ia_error_code = 0\<rparr>) = Inr ab" by blast
  show ?thesis
    by (cases "hc_media_receiver s") (simp_all add: iteration_def check_stop_def hm_eval classify_read_def check_goodbye_def
        check_media_def check_admission_def housekeeping_def now_m_def s sample_read b d t k ab split_packet_of dispatch_def packet_header_new_def
        check_commands_def sync_permissions_def discover_udp_peer_def start_sender_def poll_image_def sync_policy_def
        heartbeat_def poll_text_def HEARTBEAT_TIMEOUT_def handle_input_def deliver_input_def inject_input_def send_input_ack_def
        is_gamepad_event_def send_tcp_control_def send_tcp_packet_def encode_packet_header_def Let_def ceiling_m_def
        permission_ceiling_def intersect_def sample_grant_def sample_effective_def sample_config_def
        sample_burst)
qed

lemma sample_hangup:
  assumes "34 \<le> hc_tick s"
  shows "\<exists>s'. iteration sample_env s = (s', Break) \<and> hc_trace s' = hc_trace s \<and> hc_injected s' = hc_injected s \<and>
    hc_guest s' = hc_guest s"
  using assms by (simp add: iteration_def check_stop_def hm_eval classify_read_def sample_read)

lemma host_sample_steps:
  obtains s s1 s2 p b b' where
    "connection_start sample_env (host_conn_blank sample_env) = (s, Done ())" "iteration sample_env s = (s1, Done ())"
    "iteration sample_env s1 = (s2, Done ())" "hc_trace s2 =
      [SetEffective p, MediaStarted, Sent b, SetEffective sample_effective, GuestJoined sample_joiner] @
        Injected sample_key True # [Sent b']"
    "34 \<le> hc_tick s2" "hc_injected s2" "hc_guest s2 = Some sample_joiner"
  using sample_start sample_admission sample_press by metis

lemma host_sample_run:
  "\<exists>s p b b'. handle_connection sample_env 2 = (s, None) \<and> hc_trace s =
    [SetEffective p, MediaStarted, Sent b, SetEffective sample_effective, GuestJoined sample_joiner] @
      Injected sample_key True # [Sent b']"
proof (rule host_sample_steps)
  fix s s1 s2 p b b'
  assume s: "connection_start sample_env (host_conn_blank sample_env) = (s, Done ())" "iteration sample_env s = (s1, Done ())"
    "iteration sample_env s1 = (s2, Done ())" "hc_trace s2 =
      [SetEffective p, MediaStarted, Sent b, SetEffective sample_effective, GuestJoined sample_joiner] @
        Injected sample_key True # [Sent b']"
  have "handle_connection sample_env 2 = (s2, None)"
    by (simp add: handle_connection_def s numeral_2_eq_2)
  with s(4) show ?thesis by blast
qed

lemma host_sample_end:
  "\<exists>s pre. handle_connection sample_env 3 = (s, Some (Inr ())) \<and> Injected sample_key True \<in> set pre \<and>
     hc_trace s = pre @ [Injected host_reset_input True, GuestLeft sample_joiner]"
proof (rule host_sample_steps)
  fix s s1 s2 p b b'
  assume s: "connection_start sample_env (host_conn_blank sample_env) = (s, Done ())" "iteration sample_env s = (s1, Done ())"
    "iteration sample_env s1 = (s2, Done ())" "hc_trace s2 =
      [SetEffective p, MediaStarted, Sent b, SetEffective sample_effective, GuestJoined sample_joiner] @
        Injected sample_key True # [Sent b']"
    "34 \<le> hc_tick s2" "hc_injected s2" "hc_guest s2 = Some sample_joiner"
  from sample_hangup [OF s(5)] obtain s3 where s3: "iteration sample_env s2 = (s3, Break)"
    "hc_trace s3 = hc_trace s2" "hc_injected s3" "hc_guest s3 = Some sample_joiner"
    using s(6,7) by auto
  have "handle_connection sample_env 3 = (fst (connection_teardown sample_env s3), Some (Inr ()))"
    by (simp add: handle_connection_def s(1-3) s3 numeral_3_eq_3)
  moreover have "\<exists>pre. Injected sample_key True \<in> set pre \<and>
      hc_trace (fst (connection_teardown sample_env s3)) = pre @ [Injected host_reset_input True, GuestLeft sample_joiner]"
    by (cases "hc_pipeline s3")
      (auto simp: connection_teardown_def hm_eval stop_old_pipeline_def inject_input_def s3 s(4))
  ultimately show ?thesis by auto
qed

end
