(* ===== verification/Host_Properties.thy ===== *)
theory Host_Properties
  imports Host_Safety Host_Admission Host_Sample
begin

text \<open>
  The properties of a host connection, with the sample run as their witness. Every one speaks of
  all environments: any peer, any clock, any answer of the store, the sockets and the user.
\<close>

text \<open>C4. No input reaches the machine unless its sender may send it. Whenever a connection injects
  an event, a guest has been admitted on it before, the permissions in force at that moment allow the
  event's kind and (for its modifiers) the keyboard, and those permissions are no more than what the
  host's own switches gave at some moment.\<close>

theorem host_input_authorized:
  assumes "hc_trace (fst (handle_connection e fuel)) = pre @ Injected ev ok # post"
  shows "permitted_input e pre ev"
  using handle_connection_input [of e fuel] assms by (auto simp: input_view_def inputs_ok_def)

lemma host_input_authorized_witness:
  "\<exists>pre. permitted_input sample_env pre sample_key \<and> joined pre \<and> ie_event_type sample_key = KeyDown"
proof -
  obtain s p b b' where s: "handle_connection sample_env 2 = (s, None)" "hc_trace s =
      [SetEffective p, MediaStarted, Sent b, SetEffective sample_effective, GuestJoined sample_joiner] @
        Injected sample_key True # [Sent b']"
    using host_sample_run by blast
  have "permitted_input sample_env
      [SetEffective p, MediaStarted, Sent b, SetEffective sample_effective, GuestJoined sample_joiner] sample_key"
    by (rule host_input_authorized [where fuel = 2 and ok = True and post = "[Sent b']"]) (simp add: s)
  then show ?thesis by (auto simp: permitted_input_def sample_key_def)
qed

text \<open>C3. Nobody joins the guest directory without evidence: either the TLS identity proves a pairing
  that the store holds and whose trust is valid, or it is the bootstrap identity, the user gave this very
  trust, the pairing window was open and not locked out, and the trust is of use. Each of these was so when
  the connection looked, at some tick of its clock, and not necessarily still at the join.\<close>

theorem host_admission:
  assumes "GuestJoined g \<in> set (hc_trace (fst (handle_connection e fuel)))"
  shows "stored_pairing e (gs_pairing_id g) (gs_trust g) \<or> consented e (gs_trust g)"
proof -
  have "joined_ok e (fst (handle_connection e fuel))"
    using handle_connection_conn [of e fuel] by (auto split: prod.splits option.splits intro: conn_joined)
  with assms show ?thesis by (auto simp: joins_ok_def admissible_def)
qed

lemma host_admission_witness:
  "stored_pairing sample_env (gs_pairing_id sample_joiner) (gs_trust sample_joiner) \<and>
   \<not> consented sample_env (gs_trust sample_joiner)"
proof -
  obtain s p b b' where s: "handle_connection sample_env 2 = (s, None)" "hc_trace s =
      [SetEffective p, MediaStarted, Sent b, SetEffective sample_effective, GuestJoined sample_joiner] @
        Injected sample_key True # [Sent b']"
    using host_sample_run by blast
  have "stored_pairing sample_env (gs_pairing_id sample_joiner) (gs_trust sample_joiner) \<or>
      consented sample_env (gs_trust sample_joiner)"
    by (rule host_admission [where fuel = 2]) (simp add: s)
  moreover have "\<not> consented sample_env (gs_trust sample_joiner)" by (simp add: consented_def sample_env_def)
  ultimately show ?thesis by simp
qed

text \<open>C5. While a connection runs, its state is well typed: before the handshake there is no guest, no
  registered address and no sender; a granted pairing has its provisional record and the user's consent;
  an authenticated connection has a guest who joined with the trust the session uses, a receiving cipher,
  a sending cipher unless the sender thread owns it, and a peer that can register its datagrams. The
  stream settings stay in their ranges and \<open>Closed\<close> never occurs inside the loop.\<close>

theorem host_state_typed:
  assumes "handle_connection e fuel = (s, None)"
  shows "conn_view e False (hc_trace s) (hc_state s) (hc_provisional s) (hc_granted s) (hc_trust s) (hc_guest s)
    (hc_peer_caps s) (hc_c2h s) (hc_h2c s) (hc_udp_peer s) (hc_sender s) (hc_scale s) (hc_fps s)"
  using handle_connection_conn [of e fuel] assms by simp

lemma host_state_typed_witness:
  "\<exists>s. handle_connection sample_env 2 = (s, None) \<and> 100 \<le> hc_scale s \<and> hc_scale s \<le> 1000 \<and> hc_state s \<noteq> Closed"
proof -
  obtain s where s: "handle_connection sample_env 2 = (s, None)" using host_sample_run by blast
  from host_state_typed [OF this] s show ?thesis by (auto simp: conn_view_def split: host_state.splits)
qed

end
