(* ===== verification/F64.thy ===== *)
theory F64
  imports Maho_Prelude "HOL-Library.Log_Nat"
begin

text \<open>
  The \<open>f64\<close> arithmetic the sources use on finite values, infinities and NaN: a finite value is the
  rational it denotes, and an operation rounds its exact result to 53 significant bits, to the even
  one of two nearest, with the gradual underflow and the overflow of IEEE-754. The sign of zero,
  which the modelled code cannot observe, is not kept. The lemmas bound the rounding error.
\<close>

datatype f64 = Finite rat | Infinite bool | NaN

section \<open>Rounding\<close>

text \<open>\<open>binary_exponent x\<close> is the \<open>e\<close> with \<open>2^e \<le> x < 2^(e+1)\<close>, for a positive \<open>x\<close>.\<close>

definition binary_exponent :: "rat \<Rightarrow> int" where
  "binary_exponent x =
     (let (p, q) = quotient_of x; e = int (floorlog 2 (nat p)) - int (floorlog 2 (nat q))
      in if 2 powi e \<le> x then e else e - 1)"

definition round_half_even :: "rat \<Rightarrow> int" where
  "round_half_even x =
     (let f = \<lfloor>x\<rfloor>; d = x - of_int f
      in if d < 1 / 2 then f else if d > 1 / 2 then f + 1 else if even f then f else f + 1)"

text \<open>The unit in the last place of a value with binary exponent \<open>e\<close>.\<close>

definition f64_ulp :: "rat \<Rightarrow> rat" where
  "f64_ulp x = 2 powi (max (binary_exponent \<bar>x\<bar>) (- 1022) - 52)"

definition f64_nearest :: "rat \<Rightarrow> rat" where
  "f64_nearest x = (if x = 0 then 0 else of_int (round_half_even (x / f64_ulp x)) * f64_ulp x)"

definition f64_round :: "rat \<Rightarrow> f64" where
  "f64_round x = (let y = f64_nearest x in if \<bar>y\<bar> < 2 powi 1024 then Finite y else Infinite (x < 0))"

section \<open>Operations\<close>

definition f64_of_u64 :: "u64 \<Rightarrow> f64" where
  "f64_of_u64 n = f64_round (of_nat (unat n))"

text \<open>Addition, and multiplication and division by a positive finite constant.\<close>

fun f64_add :: "f64 \<Rightarrow> f64 \<Rightarrow> f64" where
  "f64_add (Finite x) (Finite y) = f64_round (x + y)"
| "f64_add (Infinite s) (Infinite t) = (if s = t then Infinite s else NaN)"
| "f64_add (Infinite s) (Finite y) = Infinite s"
| "f64_add (Finite x) (Infinite t) = Infinite t"
| "f64_add NaN y = NaN"
| "f64_add x NaN = NaN"

fun f64_scale :: "rat \<Rightarrow> f64 \<Rightarrow> f64" where
  "f64_scale c (Finite x) = f64_round (x * c)"
| "f64_scale c (Infinite s) = Infinite s"
| "f64_scale c NaN = NaN"

text \<open>\<open>max(0.0)\<close> takes a NaN for absent; \<open>round\<close> goes half away from zero; \<open>as u64\<close> saturates.\<close>

fun f64_max_zero :: "f64 \<Rightarrow> f64" where
  "f64_max_zero (Finite x) = Finite (max x 0)"
| "f64_max_zero (Infinite s) = (if s then Finite 0 else Infinite s)"
| "f64_max_zero NaN = Finite 0"

fun f64_round_int :: "f64 \<Rightarrow> f64" where
  "f64_round_int (Finite x) =
     Finite (of_int (if x < 0 then - \<lfloor>- x + 1 / 2\<rfloor> else \<lfloor>x + 1 / 2\<rfloor>))"
| "f64_round_int x = x"

fun f64_as_u64 :: "f64 \<Rightarrow> u64" where
  "f64_as_u64 (Finite x) = word_of_int (max 0 (min (2 ^ 64 - 1) (if x < 0 then 0 else \<lfloor>x\<rfloor>)))"
| "f64_as_u64 (Infinite s) = (if s then 0 else 2 ^ 64 - 1)"
| "f64_as_u64 NaN = 0"

section \<open>The rounding error\<close>

lemma round_half_even_error: "\<bar>of_int (round_half_even x) - x\<bar> \<le> 1 / 2"
proof -
  define d where "d = x - of_int \<lfloor>x\<rfloor>"
  have "0 \<le> d" "d < 1" unfolding d_def by linarith+
  moreover have "of_int \<lfloor>x\<rfloor> - x = - d" "of_int \<lfloor>x\<rfloor> + 1 - x = 1 - d" by (simp_all add: d_def)
  ultimately show ?thesis unfolding round_half_even_def Let_def d_def [symmetric] by auto
qed

lemma round_half_even_of_int: "round_half_even (of_int n) = n"
  by (simp add: round_half_even_def)

lemma floorlog_pow: "0 < n \<Longrightarrow> 2 ^ (floorlog 2 n - 1) \<le> n \<and> n < 2 ^ floorlog 2 n"
  using floorlog_bounds [of n 2] by simp

lemma binary_exponent_le:
  assumes "0 < x" and "x < 2 ^ k"
  shows "binary_exponent x < int k"
proof (rule ccontr)
  assume neg: "\<not> binary_exponent x < int k"
  obtain p q where pq: "quotient_of x = (p, q)" by (cases "quotient_of x")
  have q: "0 < q" using quotient_of_denom_pos [OF pq] .
  have x: "x = of_int p / of_int q" using quotient_of_div [OF pq] .
  have p: "0 < p" using assms(1) x q by (simp add: zero_less_divide_iff)
  let ?e = "int (floorlog 2 (nat p)) - int (floorlog 2 (nat q))"
  have be: "binary_exponent x = (if 2 powi ?e \<le> x then ?e else ?e - 1)"
    by (simp add: binary_exponent_def pq)
  have low: "2 powi (?e - 1) \<le> x"
  proof -
    have P: "2 ^ (floorlog 2 (nat p) - 1) \<le> nat p" using floorlog_pow [of "nat p"] p by simp
    have Q: "nat q < 2 ^ floorlog 2 (nat q)" using floorlog_pow [of "nat q"] q by simp
    have fp: "0 < floorlog 2 (nat p)" using p by (simp add: floorlog_def)
    have P': "2 ^ (floorlog 2 (nat p) - 1) \<le> (of_int p :: rat)"
    proof -
      have "(of_nat (2 ^ (floorlog 2 (nat p) - 1)) :: rat) \<le> of_nat (nat p)" using P by (subst of_nat_le_iff)
      then show ?thesis using p by simp
    qed
    have Q': "(of_int q :: rat) < 2 ^ floorlog 2 (nat q)"
    proof -
      have "(of_nat (nat q) :: rat) < of_nat (2 ^ floorlog 2 (nat q))" using Q by (subst of_nat_less_iff)
      then show ?thesis using q by simp
    qed
    have "(2 :: rat) powi (?e - 1) = 2 ^ (floorlog 2 (nat p) - 1) / 2 ^ floorlog 2 (nat q)"
    proof -
      have "?e - 1 = int (floorlog 2 (nat p) - 1) - int (floorlog 2 (nat q))" using fp by simp
      then have "(2 :: rat) powi (?e - 1) = 2 powi (int (floorlog 2 (nat p) - 1) - int (floorlog 2 (nat q)))"
        by (simp only:)
      also have "\<dots> = 2 powi int (floorlog 2 (nat p) - 1) / 2 powi int (floorlog 2 (nat q))"
        by (rule power_int_diff) simp
      finally show ?thesis by (simp only: power_int_of_nat)
    qed
    also have "\<dots> \<le> of_int p / of_int q" using P' Q' q p by (intro frac_le) auto
    finally show ?thesis using x by simp
  qed
  have "(2 :: rat) powi binary_exponent x \<le> x" using be low by (simp split: if_splits)
  moreover have "(2 :: rat) ^ k \<le> 2 powi binary_exponent x"
    using neg power_int_increasing [of "int k" "binary_exponent x" "2 :: rat"] by simp
  ultimately show False using assms(2) by linarith
qed

lemma f64_ulp_le:
  assumes "x \<noteq> 0" and "\<bar>x\<bar> < 2 ^ k"
  shows "f64_ulp x \<le> 2 ^ k / 2 ^ 53"
proof -
  have "binary_exponent \<bar>x\<bar> < int k" using assms by (intro binary_exponent_le) auto
  then have "max (binary_exponent \<bar>x\<bar>) (- 1022) - 52 \<le> int k - 53" by auto
  then have "f64_ulp x \<le> 2 powi (int k - 53)" unfolding f64_ulp_def by (intro power_int_increasing) auto
  also have "\<dots> = 2 ^ k / 2 ^ 53" by (simp add: power_int_diff)
  finally show ?thesis .
qed

lemma f64_ulp_pos: "0 < f64_ulp x"
  by (simp add: f64_ulp_def)

lemma f64_nearest_error:
  assumes "\<bar>x\<bar> < 2 ^ k"
  shows "\<bar>f64_nearest x - x\<bar> \<le> 2 ^ k / 2 ^ 54"
proof (cases "x = 0")
  case False
  have "f64_nearest x - x = (of_int (round_half_even (x / f64_ulp x)) - x / f64_ulp x) * f64_ulp x"
    using False f64_ulp_pos [of x] by (simp add: f64_nearest_def field_simps)
  then have "\<bar>f64_nearest x - x\<bar> = \<bar>of_int (round_half_even (x / f64_ulp x)) - x / f64_ulp x\<bar> * f64_ulp x"
    using f64_ulp_pos [of x] by (simp add: abs_mult)
  also have "\<dots> \<le> 1 / 2 * (2 ^ k / 2 ^ 53)"
    using round_half_even_error f64_ulp_le [OF False assms] f64_ulp_pos [of x] by (intro mult_mono) auto
  finally show ?thesis by simp
qed (simp add: f64_nearest_def)

text \<open>Below \<open>2^k\<close> with a moderate \<open>k\<close> the rounding neither overflows nor errs by more than \<open>2^(k-54)\<close>.\<close>

lemma f64_round_close:
  assumes "\<bar>x\<bar> < 2 ^ k" and "k \<le> 1000"
  shows "\<exists>y. f64_round x = Finite y \<and> \<bar>y - x\<bar> \<le> 2 ^ k / 2 ^ 54"
proof -
  have e: "\<bar>f64_nearest x - x\<bar> \<le> 2 ^ k / 2 ^ 54" by (rule f64_nearest_error [OF assms(1)])
  have "(2 :: rat) ^ k / 2 ^ 54 \<le> 2 ^ k" by simp
  then have "\<bar>f64_nearest x\<bar> < 2 ^ k + 2 ^ k" using e assms(1) by linarith
  also have "\<dots> \<le> (2 :: rat) ^ 1001" using power_increasing [of "k + 1" 1001 "2 :: rat"] assms(2) by simp
  also have "\<dots> < 2 ^ 1024" by (rule power_strict_increasing) auto
  finally have "\<bar>f64_nearest x\<bar> < (2 :: rat) powi 1024" by (simp only: power_int_numeral)
  then show ?thesis using e by (auto simp: f64_round_def Let_def)
qed

text \<open>An integer below \<open>2^53\<close> is itself a \<open>f64\<close>.\<close>

lemma f64_round_int_below:
  assumes "\<bar>n\<bar> < 2 ^ 53"
  shows "f64_round (of_int n) = Finite (of_int n)"
proof (cases "n = 0")
  case False
  define x :: rat where "x = of_int n"
  have ax: "\<bar>x\<bar> < 2 ^ 53"
  proof -
    have "(of_int \<bar>n\<bar> :: rat) < of_int (2 ^ 53)" using assms by (subst of_int_less_iff)
    then show ?thesis by (simp add: x_def)
  qed
  have "binary_exponent \<bar>x\<bar> < int 53" using ax False by (intro binary_exponent_le) (auto simp: x_def)
  then have le: "max (binary_exponent \<bar>x\<bar>) (- 1022) - 52 \<le> 0" by simp
  define d where "d = nat (52 - max (binary_exponent \<bar>x\<bar>) (- 1022))"
  have d: "max (binary_exponent \<bar>x\<bar>) (- 1022) - 52 = - int d" using le unfolding d_def by linarith
  have u: "f64_ulp x = 1 / 2 ^ d" unfolding f64_ulp_def d by (simp add: power_int_minus inverse_eq_divide)
  have "x / f64_ulp x = of_int (n * 2 ^ d)" unfolding u by (simp add: x_def)
  then have "f64_nearest x = of_int (n * 2 ^ d) * f64_ulp x"
    using False by (simp only: f64_nearest_def round_half_even_of_int) (simp add: x_def)
  also have "\<dots> = x" unfolding u by (simp add: x_def)
  finally have y: "f64_nearest x = x" .
  have "\<bar>x\<bar> < 2 powi 1024" using ax power_strict_increasing [of 53 1024 "2 :: rat"] by simp
  then show ?thesis using y by (simp add: f64_round_def x_def)
qed (simp add: f64_round_def f64_nearest_def)

section \<open>Exact rounding\<close>

lemma less_powi_exponent:
  assumes "0 < x"
  shows "x < 2 powi (binary_exponent x + 1)"
proof -
  obtain p q where pq: "quotient_of x = (p, q)" by (cases "quotient_of x")
  have q: "0 < q" using quotient_of_denom_pos [OF pq] .
  have x: "x = of_int p / of_int q" using quotient_of_div [OF pq] .
  have p: "0 < p" using assms(1) x q by (simp add: zero_less_divide_iff)
  let ?e = "int (floorlog 2 (nat p)) - int (floorlog 2 (nat q))"
  have P: "(of_int p :: rat) < 2 ^ floorlog 2 (nat p)"
  proof -
    have "(of_nat (nat p) :: rat) < of_nat (2 ^ floorlog 2 (nat p))"
      using floorlog_pow [of "nat p"] p by (subst of_nat_less_iff) simp
    then show ?thesis using p by simp
  qed
  have fq: "0 < floorlog 2 (nat q)" using q by (simp add: floorlog_def)
  have Q: "(2 :: rat) ^ (floorlog 2 (nat q) - 1) \<le> of_int q"
  proof -
    have "(of_nat (2 ^ (floorlog 2 (nat q) - 1)) :: rat) \<le> of_nat (nat q)"
      using floorlog_pow [of "nat q"] q by (subst of_nat_le_iff) simp
    then show ?thesis using q by simp
  qed
  have "?e + 1 = int (floorlog 2 (nat p)) - int (floorlog 2 (nat q) - 1)" using fq by simp
  then have "(2 :: rat) powi (?e + 1) = 2 powi (int (floorlog 2 (nat p)) - int (floorlog 2 (nat q) - 1))"
    by (simp only:)
  also have "\<dots> = 2 ^ floorlog 2 (nat p) / 2 ^ (floorlog 2 (nat q) - 1)"
    by (subst power_int_diff) (simp_all only: power_int_of_nat, simp)
  finally have "x < 2 powi (?e + 1)"
    using P Q p q unfolding x by (simp add: frac_less)
  then show ?thesis by (simp add: binary_exponent_def pq Let_def not_le)
qed

lemma binary_exponent_eq:
  assumes "2 ^ k \<le> x" and "x < 2 ^ (k + 1)"
  shows "binary_exponent x = int k"
proof -
  have x: "0 < x" using assms(1) by (rule less_le_trans [rotated]) simp
  have "binary_exponent x < int (k + 1)" using binary_exponent_le [OF x assms(2)] .
  moreover have "int k < binary_exponent x + 1"
  proof (rule ccontr)
    assume "\<not> ?thesis"
    then have "(2 :: rat) powi (binary_exponent x + 1) \<le> 2 powi int k" by (intro power_int_increasing) auto
    then show False using less_powi_exponent [OF x] assms(1) by simp
  qed
  ultimately show ?thesis by linarith
qed

lemma f64_nearest_at:
  assumes "2 ^ k \<le> x" and "x < 2 ^ (k + 1)" and "k \<le> 52"
  shows "f64_nearest x = of_int (round_half_even (x * 2 ^ (52 - k))) / 2 ^ (52 - k)"
proof -
  have x: "0 < x" using assms(1) by (rule less_le_trans [rotated]) simp
  have "max (binary_exponent \<bar>x\<bar>) (- 1022) - 52 = - int (52 - k)"
    using binary_exponent_eq [OF assms(1,2)] x assms(3) by simp
  then have "f64_ulp x = 1 / 2 ^ (52 - k)"
    by (simp only: f64_ulp_def) (simp add: power_int_minus inverse_eq_divide)
  then show ?thesis using x by (simp add: f64_nearest_def)
qed

lemma f64_round_at:
  assumes "2 ^ k \<le> x" and "x < 2 ^ (k + 1)" and "k \<le> 52"
  shows "f64_round x = Finite (of_int (round_half_even (x * 2 ^ (52 - k))) / 2 ^ (52 - k))"
proof -
  have x: "0 < x" using assms(1) by (rule less_le_trans [rotated]) simp
  have b: "\<bar>x\<bar> < 2 ^ (k + 1)" using x assms(2) by simp
  obtain y where "f64_round x = Finite y" using f64_round_close [OF b] assms(3) by auto
  then show ?thesis using f64_nearest_at [OF assms] by (auto simp: f64_round_def Let_def split: if_splits)
qed

lemma round_half_even_near:
  assumes "\<bar>x - of_int n\<bar> < 1 / 2"
  shows "round_half_even x = n"
proof -
  have "\<bar>of_int (round_half_even x) - (of_int n :: rat)\<bar> < 1"
    using round_half_even_error [of x] assms by linarith
  then have "\<bar>of_int (round_half_even x - n) :: rat\<bar> < 1" by simp
  then show ?thesis by linarith
qed

text \<open>Rationals with a power of two below are exact.\<close>

lemma f64_round_dyadic:
  assumes "2 ^ k \<le> of_int m / (2 ^ j :: rat)" and "of_int m / (2 ^ j :: rat) < 2 ^ (k + 1)" and "k \<le> 52" and "j \<le> 52 - k"
  shows "f64_round (of_int m / 2 ^ j) = Finite (of_int m / 2 ^ j)"
proof -
  obtain i where i: "52 - k = j + i" using assms(4) by (auto simp: le_iff_add)
  have "of_int m / 2 ^ j * 2 ^ (52 - k) = (of_int (m * 2 ^ i) :: rat)"
    unfolding i by (simp add: power_add)
  then have "round_half_even (of_int m / 2 ^ j * 2 ^ (52 - k)) = m * 2 ^ i"
    by (simp only: round_half_even_of_int)
  then show ?thesis using f64_round_at [OF assms(1-3)] unfolding i by (simp add: power_add)
qed

lemma u64_exact: "unat (v :: u64) < 2 ^ 53 \<Longrightarrow> f64_of_u64 v = Finite (of_nat (unat v))"
proof -
  assume "unat v < 2 ^ 53"
  then have "int (unat v) < int (2 ^ 53)" by (subst of_nat_less_iff)
  then have "\<bar>int (unat v)\<bar> < 2 ^ 53" by simp
  from f64_round_int_below [OF this] show ?thesis by (simp add: f64_of_u64_def)
qed

lemma as_u64_of_int: "0 \<le> n \<Longrightarrow> n < 2 ^ 64 \<Longrightarrow> f64_as_u64 (Finite (of_int n)) = word_of_int n"
  by simp

lemma as_u64_of_nat: "f64_as_u64 (Finite (of_nat (unat v))) = v"
proof -
  have "int (unat v) < 2 ^ 64" using unsigned_less [of v, where 'a = int] by simp
  then have "f64_as_u64 (Finite (of_int (int (unat v)))) = word_of_int (int (unat v))" by (intro as_u64_of_int) auto
  also have "\<dots> = v" by simp
  finally show ?thesis unfolding of_int_of_nat_eq .
qed

end
