(* ===== verification/File_Io.thy ===== *)
theory File_Io
  imports Tls_Psk
begin

text \<open>
  Programs over files: a state monad with errors in which every operation on the file system takes its
  outcome from a list of steps. An operation succeeds, fails with an error, or the process dies in it,
  having done a part of its work. The disk and the errors are type parameters; the stores of the host
  and of the client are programs of this kind.
\<close>

text \<open>The number tells how far a failing or dying operation got.\<close>

datatype io_step = IoFine | IoFails io_error nat | IoDies nat

record 'd disk_io =
  si_steps :: "io_step list"
  si_disk :: 'd

datatype ('e, 'a) io_flow = IoDone 'a | IoError 'e | IoDead

type_synonym ('d, 'e, 'a) fio = "'d disk_io \<Rightarrow> 'd disk_io \<times> ('e, 'a) io_flow"

definition sret :: "'a \<Rightarrow> ('d, 'e, 'a) fio" where
  "sret x = (\<lambda>s. (s, IoDone x))"

definition sfail :: "'e \<Rightarrow> ('d, 'e, 'a) fio" where
  "sfail error = (\<lambda>s. (s, IoError error))"

definition sbind :: "('d, 'e, 'a) fio \<Rightarrow> ('a \<Rightarrow> ('d, 'e, 'b) fio) \<Rightarrow> ('d, 'e, 'b) fio" where
  "sbind m f = (\<lambda>s. case m s of
       (s, IoDone x) \<Rightarrow> f x s
     | (s, IoError error) \<Rightarrow> (s, IoError error)
     | (s, IoDead) \<Rightarrow> (s, IoDead))"

definition sthen :: "('d, 'e, 'a) fio \<Rightarrow> ('d, 'e, 'b) fio \<Rightarrow> ('d, 'e, 'b) fio" where
  "sthen m k = sbind m (\<lambda>_. k)"

definition sresult :: "'e + 'a \<Rightarrow> ('d, 'e, 'a) fio" where
  "sresult r = (case r of Inl error \<Rightarrow> sfail error | Inr x \<Rightarrow> sret x)"

definition swhen :: "bool \<Rightarrow> ('d, 'e, unit) fio \<Rightarrow> ('d, 'e, unit) fio" where
  "swhen b m = (if b then m else sret ())"

definition next_step :: "'d disk_io \<Rightarrow> 'd disk_io \<times> io_step" where
  "next_step s = (case si_steps s of [] \<Rightarrow> (s, IoFine) | x # xs \<Rightarrow> (s\<lparr>si_steps := xs\<rparr>, x))"

text \<open>A write that may stop half way; an operation whose effect is not modelled; one that happens at once or
  not at all; and a read. \<open>wrap\<close> turns an \<open>io::Error\<close> into the program's error.\<close>

definition fs_write :: "(io_error \<Rightarrow> 'e) \<Rightarrow> (nat \<Rightarrow> 'd \<Rightarrow> 'd) \<Rightarrow> ('d \<Rightarrow> 'd) \<Rightarrow> ('d, 'e, unit) fio" where
  "fs_write wrap part full = (\<lambda>s. case next_step s of
       (s, IoFine) \<Rightarrow> (s\<lparr>si_disk := full (si_disk s)\<rparr>, IoDone ())
     | (s, IoFails error n) \<Rightarrow> (s\<lparr>si_disk := part n (si_disk s)\<rparr>, IoError (wrap error))
     | (s, IoDies n) \<Rightarrow> (s\<lparr>si_disk := part n (si_disk s)\<rparr>, IoDead))"

definition fs_other :: "(io_error \<Rightarrow> 'e) \<Rightarrow> ('d, 'e, unit) fio" where
  "fs_other wrap = fs_write wrap (\<lambda>_ d. d) (\<lambda>d. d)"

definition fs_once :: "(io_error \<Rightarrow> 'e) \<Rightarrow> ('d \<Rightarrow> 'd) \<Rightarrow> ('d, 'e, unit) fio" where
  "fs_once wrap full = fs_write wrap (\<lambda>n d. if n = 0 then d else full d) full"

text \<open>\<open>fs::read\<close>, with \<open>None\<close> for \<open>NotFound\<close>.\<close>

definition fs_read :: "(io_error \<Rightarrow> 'e) \<Rightarrow> ('d \<Rightarrow> bytes option) \<Rightarrow> ('d, 'e, bytes option) fio" where
  "fs_read wrap file = (\<lambda>s. case next_step s of
       (s, IoFine) \<Rightarrow> (s, IoDone (file (si_disk s)))
     | (s, IoFails error _) \<Rightarrow> (s, IoError (wrap error))
     | (s, IoDies _) \<Rightarrow> (s, IoDead))"

lemmas sm_defs = sbind_def sthen_def sret_def sfail_def sresult_def swhen_def next_step_def

lemma fs_read_outcome:
  "fs_read wrap file s = (s', r) \<Longrightarrow> si_disk s' = si_disk s \<and> (\<forall>x. r = IoDone x \<longrightarrow> x = file (si_disk s))"
  by (auto simp: fs_read_def next_step_def split: list.splits io_step.splits)

text \<open>Results of a list of conversions, up to the first error.\<close>

fun collect_results :: "('e + 'a) list \<Rightarrow> 'e + 'a list" where
  "collect_results [] = Inr []"
| "collect_results (r # rs) = try_bind r (\<lambda>x. try_bind (collect_results rs) (\<lambda>xs. Inr (x # xs)))"

lemma collect_results_Inr: "collect_results rs = Inr xs \<longleftrightarrow> rs = map Inr xs"
proof (induction rs arbitrary: xs)
  case (Cons r rs)
  then show ?case by (cases r) (auto simp: try_bind_eq_Inr Cons_eq_map_conv)
qed auto

end
