(* ===== verification/Host_Store.thy ===== *)
theory Host_Store
  imports Host_Types F64 File_Io
begin

text \<open>
  The pairing store of the host, \<open>PairingStore\<close> of \<open>maho-host/src/session.rs\<close>, and the rights of a
  guest that \<open>guests.rs\<close> writes to it. Two JSON files hold the keys and the authorizations of the
  paired clients; each is replaced by writing a temporary file and renaming it.

  \<open>serde_json\<close> and the base64 of OpenSSL are parameters (\<open>serde\<close>). The operations are programs of \<open>File_Io\<close>,
  whose file operations may fail or be the last of a dying process; a rename is done or not. The store
  has a parent directory, file modes are not modelled, and the mutex makes each operation atomic among
  threads.
\<close>

section \<open>The files\<close>

record disk_pairing =
  dp_id :: rstring
  dp_name :: rstring
  dp_key :: rstring
  dp_added_at :: f64

type_synonym right_flags = "bool \<times> bool \<times> bool \<times> bool \<times> bool"
type_synonym host_grants = "(rstring, bytes \<times> right_flags option) btree_map"

record serde =
  sd_parse_pairings :: "bytes \<Rightarrow> disk_pairing list option"
  sd_print_pairings :: "disk_pairing list \<Rightarrow> bytes option"
  sd_parse_grants :: "bytes \<Rightarrow> host_grants option"
  sd_print_grants :: "host_grants \<Rightarrow> bytes option"
  sd_decode_block :: "rstring \<Rightarrow> bytes option"
  sd_encode_block :: "bytes \<Rightarrow> rstring"

record store_disk =
  sf_pairings :: "bytes option"
  sf_grants :: "bytes option"
  sf_pairings_tmp :: "bytes option"
  sf_grants_tmp :: "bytes option"

definition no_files :: store_disk where
  "no_files = \<lparr>sf_pairings = None, sf_grants = None, sf_pairings_tmp = None, sf_grants_tmp = None\<rparr>"

type_synonym store_io = "store_disk disk_io"
type_synonym 'a sm = "(store_disk, host_error, 'a) fio"

section \<open>Authorizations\<close>

definition flags_of :: "guest_permissions \<Rightarrow> right_flags" where
  "flags_of p = (gp_keyboard p, gp_mouse p, gp_gamepad p, gp_clipboard p, gp_audio p)"

fun rights_of :: "right_flags \<Rightarrow> guest_permissions" where
  "rights_of (keyboard, mouse, gamepad, clipboard, audio) =
     \<lparr>gp_keyboard = keyboard, gp_mouse = mouse, gp_gamepad = gamepad, gp_clipboard = clipboard, gp_audio = audio\<rparr>"

definition read_grants :: "serde \<Rightarrow> host_grants sm" where
  "read_grants sd =
     sbind (fs_read HostIo sf_grants) (\<lambda>contents.
     case contents of
       None \<Rightarrow> sret []
     | Some bs \<Rightarrow> (case sd_parse_grants sd bs of None \<Rightarrow> sfail HostStore | Some grants \<Rightarrow> sret grants))"

definition authorization :: "serde \<Rightarrow> rstring \<Rightarrow> (pairing_trust \<times> guest_permissions option) sm" where
  "authorization sd i =
     sbind (read_grants sd) (\<lambda>records.
     case map_of records i of
       None \<Rightarrow> sret (Owner, None)
     | Some (trust, permissions) \<Rightarrow>
         (case decode_pairing_trust trust of
            Inl error \<Rightarrow> sfail (HostCodec error)
          | Inr trust \<Rightarrow> sret (trust, map_option rights_of permissions)))"

definition write_grants_unlocked :: "serde \<Rightarrow> host_grants \<Rightarrow> unit sm" where
  "write_grants_unlocked sd records =
     sthen (fs_other HostIo) (
     sthen (fs_once HostIo (\<lambda>d. d\<lparr>sf_grants_tmp := Some []\<rparr>)) (
     case sd_print_grants sd records of
       None \<Rightarrow> sfail HostStore
     | Some bs \<Rightarrow>
         sthen (fs_write HostIo (\<lambda>n d. d\<lparr>sf_grants_tmp := Some (take n bs)\<rparr>) (\<lambda>d. d\<lparr>sf_grants_tmp := Some bs\<rparr>)) (
         sthen (fs_other HostIo) (
         fs_once HostIo (\<lambda>d. d\<lparr>sf_grants := sf_grants_tmp d, sf_grants_tmp := None\<rparr>)))))"

definition set_authorization :: "serde \<Rightarrow> rstring \<Rightarrow> pairing_trust \<Rightarrow> guest_permissions option \<Rightarrow> unit sm" where
  "set_authorization sd i trust permissions =
     sbind (read_grants sd) (\<lambda>records.
     case encode_pairing_trust trust of
       Inl error \<Rightarrow> sfail (HostCodec error)
     | Inr bs \<Rightarrow> write_grants_unlocked sd (btree_insert i (bs, map_option flags_of permissions) records))"

section \<open>Keys\<close>

definition SWIFT_REFERENCE_DATE_OFFSET :: rat where "SWIFT_REFERENCE_DATE_OFFSET = 978307200"

text \<open>The conversions of the date between milliseconds of Unix time and seconds of the Apple epoch.\<close>

definition date_to_disk :: "u64 \<Rightarrow> f64" where
  "date_to_disk ms = f64_add (f64_scale (1 / 1000) (f64_of_u64 ms)) (Finite (- SWIFT_REFERENCE_DATE_OFFSET))"

definition date_of_disk :: "f64 \<Rightarrow> u64" where
  "date_of_disk added_at =
     (let unix_seconds = f64_add added_at (Finite SWIFT_REFERENCE_DATE_OFFSET)
      in f64_as_u64 (f64_round_int (f64_scale 1000 (f64_max_zero unix_seconds))))"

definition pairing_to_disk :: "serde \<Rightarrow> host_pairing \<Rightarrow> disk_pairing" where
  "pairing_to_disk sd r = \<lparr>dp_id = hpr_id r, dp_name = hpr_name r, dp_key = sd_encode_block sd (hpr_key r),
     dp_added_at = date_to_disk (hpr_added_at_unix_ms r)\<rparr>"

definition pairing_of_disk :: "serde \<Rightarrow> disk_pairing \<Rightarrow> host_error + host_pairing" where
  "pairing_of_disk sd d =
     (case sd_decode_block sd (dp_key d) of
        None \<Rightarrow> Inl HostStore
      | Some key \<Rightarrow>
          if length key \<noteq> 32 then Inl HostStore
          else Inr \<lparr>hpr_id = dp_id d, hpr_name = dp_name d, hpr_key = key,
                 hpr_added_at_unix_ms = date_of_disk (dp_added_at d)\<rparr>)"

definition load_all_unlocked :: "serde \<Rightarrow> host_pairing list sm" where
  "load_all_unlocked sd =
     sbind (fs_read HostIo sf_pairings) (\<lambda>contents.
     case contents of
       None \<Rightarrow> sret []
     | Some bs \<Rightarrow>
         (case sd_parse_pairings sd bs of
            None \<Rightarrow> sfail HostStore
          | Some disk \<Rightarrow> sresult (collect_results (map (pairing_of_disk sd) disk))))"

definition load_all :: "serde \<Rightarrow> host_pairing list sm" where
  "load_all sd = load_all_unlocked sd"

definition load :: "serde \<Rightarrow> rstring \<Rightarrow> host_pairing option sm" where
  "load sd i = sbind (load_all sd) (\<lambda>records. sret (find (\<lambda>r. hpr_id r = i) records))"

definition write_unlocked :: "serde \<Rightarrow> host_os \<Rightarrow> host_pairing list \<Rightarrow> unit sm" where
  "write_unlocked sd os records =
     sthen (fs_other HostIo) (
     case sd_print_pairings sd (map (pairing_to_disk sd) records) of
       None \<Rightarrow> sfail HostStore
     | Some bs \<Rightarrow>
         sthen (fs_once HostIo (\<lambda>d. d\<lparr>sf_pairings_tmp := Some []\<rparr>)) (
         sthen (fs_write HostIo (\<lambda>n d. d\<lparr>sf_pairings_tmp := Some (take n bs)\<rparr>) (\<lambda>d. d\<lparr>sf_pairings_tmp := Some bs\<rparr>)) (
         sthen (fs_other HostIo) (
         sthen (swhen (os \<noteq> Windows) (fs_other HostIo)) (
         sthen (fs_once HostIo (\<lambda>d. d\<lparr>sf_pairings := sf_pairings_tmp d, sf_pairings_tmp := None\<rparr>)) (
         swhen (os \<noteq> Windows) (fs_other HostIo)))))))"

definition save :: "serde \<Rightarrow> host_os \<Rightarrow> host_pairing \<Rightarrow> unit sm" where
  "save sd os r =
     sbind (load_all_unlocked sd) (\<lambda>records.
     write_unlocked sd os (filter (\<lambda>existing. hpr_id existing \<noteq> hpr_id r) records @ [r]))"

definition revoke :: "serde \<Rightarrow> host_os \<Rightarrow> rstring \<Rightarrow> bool sm" where
  "revoke sd os i =
     sbind (load_all_unlocked sd) (\<lambda>records.
     let remaining = filter (\<lambda>r. hpr_id r \<noteq> i) records; removed = (length remaining \<noteq> length records) in
     sthen (swhen removed (write_unlocked sd os remaining)) (
     sbind (read_grants sd) (\<lambda>grants.
     sthen (swhen (map_of grants i \<noteq> None) (write_grants_unlocked sd (AList.delete i grants))) (
     sret removed))))"

section \<open>The rights of a guest\<close>

text \<open>\<open>GuestRegistry::set_guest_permissions\<close> without its last call, which changes the registry.\<close>

definition store_guest_permissions :: "serde \<Rightarrow> rstring \<Rightarrow> guest_permissions \<Rightarrow> unit sm" where
  "store_guest_permissions sd i permissions =
     sbind (load sd i) (\<lambda>known.
     swhen (known \<noteq> None) (
     sbind (authorization sd i) (\<lambda>(trust, _).
     set_authorization sd i trust (Some permissions))))"

definition set_guest_permissions ::
  "serde \<Rightarrow> rstring \<Rightarrow> guest_permissions \<Rightarrow> store_io \<times> registry \<Rightarrow> (store_io \<times> registry) \<times> (host_error, unit) io_flow" where
  "set_guest_permissions sd i permissions = (\<lambda>(s, r).
     case store_guest_permissions sd i permissions s of
       (s, IoDone _) \<Rightarrow> ((s, registry_permissions i permissions r), IoDone ())
     | (s, flow) \<Rightarrow> ((s, r), flow))"

end
