(* ===== verification/Store_Safety.thy ===== *)
theory Store_Safety
  imports Host_Store "HOL-Library.Countable"
begin

text \<open>
  What the pairing store keeps through failures and crashes. A view abstracts the two files to the list
  of paired clients and the map of authorizations; every call goes through a list of views
  (\<open>call_views\<close>), and whatever fails, the files show one of them. From this follows that no crash makes
  an authorization fall back to the default of an unknown client, which is the owner.
\<close>

section \<open>Views\<close>

definition pairing_core :: "host_pairing \<Rightarrow> rstring \<times> rstring \<times> bytes" where
  "pairing_core r = (hpr_id r, hpr_name r, hpr_key r)"

definition stored_grants :: "serde \<Rightarrow> store_disk \<Rightarrow> host_grants option" where
  "stored_grants sd d = (case sf_grants d of None \<Rightarrow> Some [] | Some bs \<Rightarrow> sd_parse_grants sd bs)"

definition stored_pairings :: "serde \<Rightarrow> store_disk \<Rightarrow> host_pairing list option" where
  "stored_pairings sd d =
     (case sf_pairings d of
        None \<Rightarrow> Some []
      | Some bs \<Rightarrow> Option.bind (sd_parse_pairings sd bs) (\<lambda>ds.
          case collect_results (map (pairing_of_disk sd) ds) of Inl _ \<Rightarrow> None | Inr rs \<Rightarrow> Some rs))"

type_synonym store_view = "(rstring \<times> rstring \<times> bytes) list \<times> host_grants"

definition store_view :: "serde \<Rightarrow> store_disk \<Rightarrow> store_view option" where
  "store_view sd d =
     Option.bind (stored_pairings sd d) (\<lambda>rs.
     map_option (\<lambda>g. (map pairing_core rs, g)) (stored_grants sd d))"

definition same_pairing :: "disk_pairing \<Rightarrow> disk_pairing \<Rightarrow> bool" where
  "same_pairing a b \<longleftrightarrow> dp_id a = dp_id b \<and> dp_name a = dp_name b \<and> dp_key a = dp_key b"

text \<open>JSON and base64 return what was written, the date perhaps with another rounding.\<close>

definition serde_ok :: "serde \<Rightarrow> bool" where
  "serde_ok sd \<longleftrightarrow>
     (\<forall>g bs. sd_print_grants sd g = Some bs \<longrightarrow> sd_parse_grants sd bs = Some g) \<and>
     (\<forall>ds bs. sd_print_pairings sd ds = Some bs \<longrightarrow>
        (\<exists>ds'. sd_parse_pairings sd bs = Some ds' \<and> list_all2 same_pairing ds ds')) \<and>
     (\<forall>key. sd_decode_block sd (sd_encode_block sd key) = Some key)"

section \<open>The calls\<close>

datatype store_call =
    CallSave host_pairing
  | CallRevoke rstring
  | CallAuthorize rstring pairing_trust "guest_permissions option"

fun run_call :: "serde \<Rightarrow> host_os \<Rightarrow> store_call \<Rightarrow> unit sm" where
  "run_call sd os (CallSave r) = save sd os r"
| "run_call sd os (CallRevoke i) = sbind (revoke sd os i) (\<lambda>_. sret ())"
| "run_call sd os (CallAuthorize i trust permissions) = set_authorization sd i trust permissions"

fun call_ok :: "store_call \<Rightarrow> bool" where
  "call_ok (CallSave r) = (length (hpr_key r) = 32)"
| "call_ok c = True"

text \<open>The views a call goes through, the present one first.\<close>

fun call_views :: "store_call \<Rightarrow> store_view \<Rightarrow> store_view list" where
  "call_views (CallSave r) (k, g) = [(k, g), (filter (\<lambda>p. fst p \<noteq> hpr_id r) k @ [pairing_core r], g)]"
| "call_views (CallRevoke i) (k, g) =
     (let k' = filter (\<lambda>p. fst p \<noteq> i) k in [(k, g), (k', g), (k', AList.delete i g)])"
| "call_views (CallAuthorize i trust permissions) (k, g) =
     (case encode_pairing_trust trust of
        Inl _ \<Rightarrow> [(k, g)]
      | Inr bs \<Rightarrow> [(k, g), (k, btree_insert i (bs, map_option flags_of permissions) g)])"

section \<open>Reading\<close>

lemma read_grants_outcome:
  assumes "read_grants sd s = (s', r)"
  shows "si_disk s' = si_disk s \<and> (\<forall>g. r = IoDone g \<longrightarrow> stored_grants sd (si_disk s) = Some g)"
proof -
  obtain s1 r1 where f: "fs_read HostIo sf_grants s = (s1, r1)" by (cases "fs_read HostIo sf_grants s")
  from assms f fs_read_outcome [OF f] show ?thesis
    by (auto simp: read_grants_def stored_grants_def sm_defs split: io_flow.splits option.splits)
qed

lemma load_all_outcome:
  assumes "load_all_unlocked sd s = (s', r)"
  shows "si_disk s' = si_disk s \<and> (\<forall>rs. r = IoDone rs \<longrightarrow> stored_pairings sd (si_disk s) = Some rs)"
proof -
  obtain s1 r1 where f: "fs_read HostIo sf_pairings s = (s1, r1)" by (cases "fs_read HostIo sf_pairings s")
  from assms f fs_read_outcome [OF f] show ?thesis
    by (auto simp: load_all_unlocked_def stored_pairings_def sm_defs split: io_flow.splits option.splits sum.splits)
qed

lemma load_outcome:
  assumes "load sd i s = (s', r)"
  shows "si_disk s' = si_disk s \<and> (\<forall>x. r = IoDone x \<longrightarrow>
    (\<exists>rs. stored_pairings sd (si_disk s) = Some rs \<and> x = find (\<lambda>r. hpr_id r = i) rs))"
proof -
  obtain s1 r1 where f: "load_all_unlocked sd s = (s1, r1)" by (cases "load_all_unlocked sd s")
  from assms f load_all_outcome [OF f] show ?thesis
    by (auto simp: load_def load_all_def sm_defs split: io_flow.splits)
qed

lemma authorization_outcome:
  assumes "authorization sd i s = (s', r)"
  shows "si_disk s' = si_disk s \<and> (\<forall>t p. r = IoDone (t, p) \<longrightarrow>
    (\<exists>g. stored_grants sd (si_disk s) = Some g \<and>
      (map_of g i = None \<and> t = Owner \<or> (\<exists>bs f. map_of g i = Some (bs, f) \<and> decode_pairing_trust bs = Inr t))))"
proof -
  obtain s1 r1 where f: "read_grants sd s = (s1, r1)" by (cases "read_grants sd s")
  from assms f read_grants_outcome [OF f] show ?thesis
    by (auto simp: authorization_def sm_defs split: io_flow.splits option.splits sum.splits)
qed

section \<open>Writing\<close>

text \<open>A file is replaced as a whole or not at all.\<close>

lemma write_grants_outcome:
  assumes "write_grants_unlocked sd g s = (s', r)"
  shows "sf_pairings (si_disk s') = sf_pairings (si_disk s) \<and>
    (sf_grants (si_disk s') = sf_grants (si_disk s) \<and> (\<forall>x. r \<noteq> IoDone x) \<or>
     (\<exists>bs. sd_print_grants sd g = Some bs \<and> sf_grants (si_disk s') = Some bs))"
  using assms
  by (cases "sd_print_grants sd g")
    (auto simp: write_grants_unlocked_def fs_other_def fs_once_def fs_write_def sm_defs
      split: list.splits io_step.splits if_splits)

lemma write_unlocked_outcome:
  assumes "write_unlocked sd os rs s = (s', r)"
  shows "sf_grants (si_disk s') = sf_grants (si_disk s) \<and>
    (sf_pairings (si_disk s') = sf_pairings (si_disk s) \<and> (\<forall>x. r \<noteq> IoDone x) \<or>
     (\<exists>bs. sd_print_pairings sd (map (pairing_to_disk sd) rs) = Some bs \<and> sf_pairings (si_disk s') = Some bs))"
  using assms
  by (cases "sd_print_pairings sd (map (pairing_to_disk sd) rs)")
    (auto simp: write_unlocked_def fs_other_def fs_once_def fs_write_def sm_defs
      split: list.splits io_step.splits if_splits)

section \<open>What is read back\<close>

lemma stored_pairings_keys:
  assumes "stored_pairings sd d = Some rs" and "r \<in> set rs"
  shows "length (hpr_key r) = 32"
proof -
  obtain ds where "map (pairing_of_disk sd) ds = map Inr rs"
    using assms by (auto simp: stored_pairings_def collect_results_Inr split: option.splits bind_splits sum.splits)
  then have "(Inr r :: host_error + host_pairing) \<in> set (map (pairing_of_disk sd) ds)" using assms(2) by simp
  then obtain x where "pairing_of_disk sd x = Inr r" by auto
  then show ?thesis by (auto simp: pairing_of_disk_def split: option.splits if_splits)
qed

lemma written_pairings:
  assumes ok: "serde_ok sd" and keys: "\<forall>r\<in>set rs. length (hpr_key r) = 32"
    and w: "sd_print_pairings sd (map (pairing_to_disk sd) rs) = Some bs" "sf_pairings d = Some bs"
  shows "\<exists>rs'. stored_pairings sd d = Some rs' \<and> map pairing_core rs' = map pairing_core rs"
proof -
  obtain ds where ds: "sd_parse_pairings sd bs = Some ds" "list_all2 same_pairing (map (pairing_to_disk sd) rs) ds"
    using ok w(1) unfolding serde_ok_def by blast
  have "\<exists>rs'. map (pairing_of_disk sd) ds = map Inr rs' \<and> map pairing_core rs' = map pairing_core rs"
    using ds(2) keys
  proof (induction rs arbitrary: ds)
    case (Cons r rs)
    then obtain x ds' where x: "ds = x # ds'" "same_pairing (pairing_to_disk sd r) x"
      "list_all2 same_pairing (map (pairing_to_disk sd) rs) ds'" by (auto simp: list_all2_Cons1)
    with Cons obtain rs' where "map (pairing_of_disk sd) ds' = map Inr rs'" "map pairing_core rs' = map pairing_core rs"
      by fastforce
    moreover have "dp_key x = sd_encode_block sd (hpr_key r)"
      using x(2) by (simp add: same_pairing_def pairing_to_disk_def)
    then have "sd_decode_block sd (dp_key x) = Some (hpr_key r)" using ok by (simp add: serde_ok_def)
    then have "\<exists>r'. pairing_of_disk sd x = Inr r' \<and> pairing_core r' = pairing_core r"
      using x(2) Cons.prems(2) by (auto simp: pairing_of_disk_def same_pairing_def pairing_to_disk_def pairing_core_def)
    ultimately show ?case using x(1) by (metis (no_types, lifting) list.simps(9))
  qed simp
  then obtain rs' where rs': "map (pairing_of_disk sd) ds = map Inr rs'" "map pairing_core rs' = map pairing_core rs"
    by blast
  have "collect_results (map Inr rs' :: (host_error + host_pairing) list) = Inr rs'" by (simp add: collect_results_Inr)
  then show ?thesis using ds(1) w(2) rs' by (simp add: stored_pairings_def)
qed

lemma written_grants:
  "serde_ok sd \<Longrightarrow> sd_print_grants sd g = Some bs \<Longrightarrow> sf_grants d = Some bs \<Longrightarrow> stored_grants sd d = Some g"
  by (auto simp: stored_grants_def serde_ok_def)

lemma store_view_Some:
  "store_view sd d = Some (k, g) \<longleftrightarrow>
     (\<exists>rs. stored_pairings sd d = Some rs \<and> k = map pairing_core rs) \<and> stored_grants sd d = Some g"
  by (auto simp: store_view_def split: bind_splits)

lemma same_pairings_file: "sf_pairings d = sf_pairings d' \<Longrightarrow> stored_pairings sd d = stored_pairings sd d'"
  by (simp add: stored_pairings_def)

lemma same_grants_file: "sf_grants d = sf_grants d' \<Longrightarrow> stored_grants sd d = stored_grants sd d'"
  by (simp add: stored_grants_def)

section \<open>Every call goes through its views\<close>

lemma write_grants_view:
  assumes "serde_ok sd" "store_view sd (si_disk s) = Some (k, g)" "write_grants_unlocked sd g' s = (s', r)"
  shows "store_view sd (si_disk s') \<in> {Some (k, g), Some (k, g')} \<and>
    (r = IoDone () \<longrightarrow> store_view sd (si_disk s') = Some (k, g'))"
  using write_grants_outcome [OF assms(3)] assms(1,2)
  by (auto simp: store_view_Some written_grants
      dest: same_pairings_file [of _ _ sd] same_grants_file [of _ _ sd])

lemma write_pairings_view:
  assumes "serde_ok sd" "store_view sd (si_disk s) = Some (k, g)" "write_unlocked sd os rs s = (s', r)"
    and keys: "\<forall>r\<in>set rs. length (hpr_key r) = 32"
  shows "store_view sd (si_disk s') \<in> {Some (k, g), Some (map pairing_core rs, g)} \<and>
    (r = IoDone () \<longrightarrow> store_view sd (si_disk s') = Some (map pairing_core rs, g))"
proof -
  note out = write_unlocked_outcome [OF assms(3)]
  then have g: "stored_grants sd (si_disk s') = Some g"
    using assms(2) same_grants_file [of "si_disk s'" "si_disk s" sd] by (simp add: store_view_Some)
  from out consider (old) "sf_pairings (si_disk s') = sf_pairings (si_disk s)" "\<forall>x. r \<noteq> IoDone x"
    | (new) bs where "sd_print_pairings sd (map (pairing_to_disk sd) rs) = Some bs" "sf_pairings (si_disk s') = Some bs"
    by auto
  then show ?thesis
  proof cases
    case old
    then show ?thesis using g assms(2) same_pairings_file [OF old(1), of sd] by (auto simp: store_view_Some)
  next
    case new
    from written_pairings [OF assms(1) keys new] g
    have "store_view sd (si_disk s') = Some (map pairing_core rs, g)" by (auto simp: store_view_Some)
    then show ?thesis by simp
  qed
qed

lemma map_core_filter:
  "map pairing_core (filter (\<lambda>r. hpr_id r \<noteq> i) rs) = filter (\<lambda>p. fst p \<noteq> i) (map pairing_core rs)"
  by (induction rs) (auto simp: pairing_core_def)

lemma save_view:
  assumes "serde_ok sd" "store_view sd (si_disk s) = Some (k, g)" "save sd os r s = (s', f)"
    and key: "length (hpr_key r) = 32"
  shows "store_view sd (si_disk s') \<in> Some ` set (call_views (CallSave r) (k, g)) \<and>
    (f = IoDone () \<longrightarrow> store_view sd (si_disk s') = Some (last (call_views (CallSave r) (k, g))))"
proof -
  obtain s1 f1 where l: "load_all_unlocked sd s = (s1, f1)" by (cases "load_all_unlocked sd s")
  note out = load_all_outcome [OF l]
  show ?thesis
  proof (cases f1)
    case (IoDone rs)
    with out assms(2) have rs: "stored_pairings sd (si_disk s) = Some rs" "k = map pairing_core rs"
      and v: "store_view sd (si_disk s1) = Some (k, g)" by (auto simp: store_view_Some)
    let ?rs = "filter (\<lambda>x. hpr_id x \<noteq> hpr_id r) rs @ [r]"
    have w: "write_unlocked sd os ?rs s1 = (s', f)" using assms(3) l IoDone by (simp add: save_def sbind_def)
    have keys: "\<forall>x\<in>set ?rs. length (hpr_key x) = 32" using stored_pairings_keys [OF rs(1)] key by auto
    have "map pairing_core ?rs = filter (\<lambda>p. fst p \<noteq> hpr_id r) k @ [pairing_core r]"
      by (simp add: map_core_filter rs(2))
    with write_pairings_view [OF assms(1) v w keys] show ?thesis by auto
  qed (use assms l out in \<open>auto simp: save_def sbind_def\<close>)
qed

lemma set_authorization_view:
  assumes "serde_ok sd" "store_view sd (si_disk s) = Some (k, g)" "set_authorization sd i t p s = (s', f)"
  shows "store_view sd (si_disk s') \<in> Some ` set (call_views (CallAuthorize i t p) (k, g)) \<and>
    (f = IoDone () \<longrightarrow> store_view sd (si_disk s') = Some (last (call_views (CallAuthorize i t p) (k, g)))
       \<and> (\<exists>bs. encode_pairing_trust t = Inr bs))"
proof -
  obtain s1 f1 where l: "read_grants sd s = (s1, f1)" by (cases "read_grants sd s")
  note out = read_grants_outcome [OF l]
  show ?thesis
  proof (cases f1)
    case (IoDone g')
    with out assms(2) have g: "g' = g" and v: "store_view sd (si_disk s1) = Some (k, g)" by (auto simp: store_view_Some)
    show ?thesis
    proof (cases "encode_pairing_trust t")
      case (Inl e)
      then show ?thesis using assms(3) l IoDone v by (auto simp: set_authorization_def sbind_def sfail_def)
    next
      case (Inr bs)
      then have "write_grants_unlocked sd (btree_insert i (bs, map_option flags_of p) g) s1 = (s', f)"
        using assms(3) l IoDone g by (simp add: set_authorization_def sbind_def)
      from write_grants_view [OF assms(1) v this] Inr show ?thesis by auto
    qed
  qed (use assms l out in \<open>auto simp: set_authorization_def sbind_def split: sum.splits\<close>)
qed

lemma revoke_view:
  assumes "serde_ok sd" "store_view sd (si_disk s) = Some (k, g)" "revoke sd os i s = (s', f)"
  shows "store_view sd (si_disk s') \<in> Some ` set (call_views (CallRevoke i) (k, g)) \<and>
    (\<forall>b. f = IoDone b \<longrightarrow> store_view sd (si_disk s') = Some (last (call_views (CallRevoke i) (k, g))) \<and>
       (b \<longleftrightarrow> i \<in> fst ` set k))"
proof -
  let ?k = "filter (\<lambda>p. fst p \<noteq> i) k"
  obtain s1 f1 where l: "load_all_unlocked sd s = (s1, f1)" by (cases "load_all_unlocked sd s")
  note out = load_all_outcome [OF l]
  show ?thesis
  proof (cases f1)
    case (IoDone rs)
    with out assms(2) have rs: "stored_pairings sd (si_disk s) = Some rs" "k = map pairing_core rs"
      and v: "store_view sd (si_disk s1) = Some (k, g)" by (auto simp: store_view_Some)
    let ?rs = "filter (\<lambda>r. hpr_id r \<noteq> i) rs" and ?removed = "length (filter (\<lambda>r. hpr_id r \<noteq> i) rs) \<noteq> length rs"
    have k: "map pairing_core ?rs = ?k" by (simp add: map_core_filter rs(2))
    have removed: "?removed \<longleftrightarrow> i \<in> fst ` set k"
    proof -
      have "length ?rs = length rs \<longleftrightarrow> ?rs = rs" by (metis filter_id_conv length_filter_less less_irrefl)
      then show ?thesis by (force simp: rs(2) filter_id_conv pairing_core_def)
    qed
    then have same: "\<not> ?removed \<Longrightarrow> ?k = k" by (force simp: filter_id_conv)
    obtain s2 f2 where w: "swhen ?removed (write_unlocked sd os ?rs) s1 = (s2, f2)"
      by (cases "swhen ?removed (write_unlocked sd os ?rs) s1")
    have keys: "\<forall>x\<in>set ?rs. length (hpr_key x) = 32" using stored_pairings_keys [OF rs(1)] by auto
    have v2: "store_view sd (si_disk s2) \<in> {Some (k, g), Some (?k, g)} \<and>
        (f2 = IoDone () \<longrightarrow> store_view sd (si_disk s2) = Some (?k, g))"
    proof (cases ?removed)
      case True
      then have "write_unlocked sd os ?rs s1 = (s2, f2)" using w by (simp add: swhen_def)
      from write_pairings_view [OF assms(1) v this keys] k show ?thesis by simp
    next
      case False
      then have "s2 = s1" using w by (simp add: swhen_def sret_def)
      with v same False show ?thesis by simp
    qed
    have rest: "(case f2 of IoDone _ \<Rightarrow> sbind (read_grants sd) (\<lambda>grants.
        sthen (swhen (map_of grants i \<noteq> None) (write_grants_unlocked sd (AList.delete i grants))) (sret ?removed)) s2
      | IoError e \<Rightarrow> (s2, IoError e) | IoDead \<Rightarrow> (s2, IoDead)) = (s', f)"
      using assms(3) l IoDone w by (simp add: revoke_def sbind_def sthen_def Let_def split: io_flow.splits)
    show ?thesis
    proof (cases f2)
      case (IoDone u)
      then have v2': "store_view sd (si_disk s2) = Some (?k, g)" using v2 by simp
      obtain s3 f3 where r: "read_grants sd s2 = (s3, f3)" by (cases "read_grants sd s2")
      note out3 = read_grants_outcome [OF r]
      show ?thesis
      proof (cases f3)
        case (IoDone g')
        with out3 v2' have g: "g' = g" and v3: "store_view sd (si_disk s3) = Some (?k, g)" by (auto simp: store_view_Some)
        show ?thesis
        proof (cases "map_of g i")
          case None
          then have del: "AList.delete i g = g"
            by (auto simp: AList.delete_eq filter_id_conv map_of_eq_None_iff image_iff case_prod_unfold)
          have "s' = s3 \<and> f = IoDone ?removed"
            using rest \<open>f2 = IoDone u\<close> r IoDone g None by (simp add: sbind_def sthen_def swhen_def sret_def)
          with v3 del removed show ?thesis by (simp add: Let_def)
        next
          case (Some a)
          obtain s4 f4 where w4: "write_grants_unlocked sd (AList.delete i g) s3 = (s4, f4)"
            by (cases "write_grants_unlocked sd (AList.delete i g) s3")
          have fin: "s' = s4" "\<And>b. f = IoDone b \<Longrightarrow> f4 = IoDone () \<and> b = ?removed"
            using rest \<open>f2 = IoDone u\<close> r IoDone g Some w4
            by (auto simp: sbind_def sthen_def swhen_def sret_def split: io_flow.splits)
          note v4 = write_grants_view [OF assms(1) v3 w4]
          have "store_view sd (si_disk s') \<in> Some ` set (call_views (CallRevoke i) (k, g))"
            using v4 fin(1) by (auto simp: Let_def)
          moreover have "store_view sd (si_disk s') = Some (last (call_views (CallRevoke i) (k, g))) \<and>
              (b \<longleftrightarrow> i \<in> fst ` set k)" if "f = IoDone b" for b
            using fin(2) [OF that] v4 fin(1) unfolding removed by (simp add: Let_def)
          ultimately show ?thesis by blast
        qed
      qed (use rest \<open>f2 = IoDone u\<close> r out3 v2' in \<open>auto simp: sbind_def Let_def\<close>)
    qed (use rest v2 in \<open>auto simp: Let_def\<close>)
  qed (use assms l out in \<open>auto simp: revoke_def sbind_def Let_def\<close>)
qed

text \<open>C13. The store is atomic. Whatever fails or wherever the process dies in a call, the files show
  one of the states the call goes through by its specification (for a revocation: nothing done, the key
  gone, key and authorization gone); a call that returns success has reached the last of them. A file
  cut short or half written is never seen.\<close>

theorem store_refines_spec:
  assumes "serde_ok sd" and "store_view sd (si_disk s) = Some v" and "call_ok c"
    and "run_call sd os c s = (s', f)"
  shows "store_view sd (si_disk s') \<in> Some ` set (call_views c v) \<and>
    (f = IoDone () \<longrightarrow> store_view sd (si_disk s') = Some (last (call_views c v)))"
proof (cases v)
  case (Pair k g)
  note view = assms(2) [unfolded Pair]
  show ?thesis
  proof (cases c)
    case (CallSave r)
    then have "save sd os r s = (s', f)" "length (hpr_key r) = 32" using assms(3,4) by simp_all
    from save_view [OF assms(1) view this] show ?thesis unfolding CallSave Pair .
  next
    case (CallRevoke i)
    obtain s1 f1 where r: "revoke sd os i s = (s1, f1)" by (cases "revoke sd os i s")
    then have "s' = s1" and "f = IoDone () \<Longrightarrow> \<exists>b. f1 = IoDone b"
      using assms(4) CallRevoke by (auto simp: sbind_def sret_def split: io_flow.splits)
    with revoke_view [OF assms(1) view r] show ?thesis unfolding CallRevoke Pair by blast
  next
    case (CallAuthorize i t p)
    then have "set_authorization sd i t p s = (s', f)" using assms(4) by simp
    from set_authorization_view [OF assms(1) view this] show ?thesis unfolding CallAuthorize Pair by blast
  qed
qed

section \<open>Nobody becomes the owner by a crash\<close>

text \<open>
  What the sessions and the embedding program do with the store, in any order, each call with its own
  steps of the file system. \<open>StoreAdmit\<close> is the \<open>set_authorization\<close> of a session that pairs a client,
  with the trust the user gave; its id is a new UUID. When it has succeeded, the session goes on to
  \<open>StoreSave\<close>. \<open>RightsLoad\<close>, \<open>RightsRead\<close> and \<open>RightsWrite\<close> are the three calls of
  \<open>set_guest_permissions\<close>, between which other threads run. A pairing can be revoked once it is saved, for
  its id is shown to nobody before. \<open>stw_granted\<close> remembers the trust given to each id; a process that
  dies loses what its threads were doing.
\<close>

datatype store_op =
    StoreAdmit host_pairing pairing_trust "guest_permissions option"
  | StoreSave host_pairing
  | StoreRevoke rstring
  | RightsLoad rstring guest_permissions
  | RightsRead rstring guest_permissions
  | RightsWrite rstring guest_permissions pairing_trust

record store_world =
  stw_disk :: store_disk
  stw_granted :: "(rstring \<times> pairing_trust) list"
  stw_pairing :: "host_pairing list"
  stw_rights :: "(rstring \<times> guest_permissions \<times> pairing_trust option) list"

definition store_world_new :: store_world where
  "store_world_new = \<lparr>stw_disk = no_files, stw_granted = [], stw_pairing = [], stw_rights = []\<rparr>"

definition io_of :: "store_world \<Rightarrow> io_step list \<Rightarrow> store_io" where
  "io_of w steps = \<lparr>si_steps = steps, si_disk = stw_disk w\<rparr>"

text \<open>The world after a call: its files, and for a success its effect on the threads.\<close>

definition after_io :: "store_io \<times> (host_error, 'a) io_flow \<Rightarrow> ('a \<Rightarrow> store_world \<Rightarrow> store_world) \<Rightarrow> store_world \<Rightarrow> store_world" where
  "after_io = (\<lambda>(s, f) continue w. case f of
       IoDone x \<Rightarrow> continue x (w\<lparr>stw_disk := si_disk s\<rparr>)
     | IoError _ \<Rightarrow> w\<lparr>stw_disk := si_disk s\<rparr>
     | IoDead \<Rightarrow> w\<lparr>stw_disk := si_disk s, stw_pairing := [], stw_rights := []\<rparr>)"

fun store_apply :: "serde \<Rightarrow> host_os \<Rightarrow> store_op \<times> io_step list \<Rightarrow> store_world \<Rightarrow> store_world" where
  "store_apply sd os (StoreAdmit r trust permissions, steps) w =
     (if map_of (stw_granted w) (hpr_id r) \<noteq> None \<or> length (hpr_key r) \<noteq> 32 then w
      else after_io (set_authorization sd (hpr_id r) trust permissions (io_of w steps))
             (\<lambda>_ w. w\<lparr>stw_pairing := r # stw_pairing w\<rparr>)
             (w\<lparr>stw_granted := (hpr_id r, trust) # stw_granted w\<rparr>))"
| "store_apply sd os (StoreSave r, steps) w =
     (if r \<notin> set (stw_pairing w) then w
      else after_io (save sd os r (io_of w steps)) (\<lambda>_ w. w) (w\<lparr>stw_pairing := removeAll r (stw_pairing w)\<rparr>))"
| "store_apply sd os (StoreRevoke i, steps) w =
     (if i \<in> hpr_id ` set (stw_pairing w) then w
      else after_io (revoke sd os i (io_of w steps)) (\<lambda>_ w. w) w)"
| "store_apply sd os (RightsLoad i permissions, steps) w =
     after_io (load sd i (io_of w steps))
       (\<lambda>known w. if known = None then w else w\<lparr>stw_rights := (i, permissions, None) # stw_rights w\<rparr>) w"
| "store_apply sd os (RightsRead i permissions, steps) w =
     (if (i, permissions, None) \<notin> set (stw_rights w) then w
      else after_io (authorization sd i (io_of w steps))
             (\<lambda>(trust, _) w. w\<lparr>stw_rights := (i, permissions, Some trust) # stw_rights w\<rparr>) w)"
| "store_apply sd os (RightsWrite i permissions trust, steps) w =
     (if (i, permissions, Some trust) \<notin> set (stw_rights w) then w
      else after_io (set_authorization sd i trust (Some permissions) (io_of w steps)) (\<lambda>_ w. w) w)"

text \<open>The authorization of an id is on file, with the trust it was given.\<close>

definition on_file :: "(rstring \<times> pairing_trust) list \<Rightarrow> host_grants \<Rightarrow> rstring \<Rightarrow> bool" where
  "on_file granted g i \<longleftrightarrow>
     (\<exists>t bs f. map_of granted i = Some t \<and> encode_pairing_trust t = Inr bs \<and> map_of g i = Some (bs, f))"

text \<open>The ids with a key, those being paired, and those whose rights are being changed.\<close>

definition ids_ok ::
  "(rstring \<times> pairing_trust) list \<Rightarrow> host_grants \<Rightarrow> rstring set \<Rightarrow> rstring set \<Rightarrow>
   (rstring \<times> pairing_trust option) set \<Rightarrow> bool" where
  "ids_ok granted g K P R \<longleftrightarrow>
     (\<forall>i. i \<in> K \<or> i \<in> P \<longrightarrow> on_file granted g i) \<and> K \<inter> P = {} \<and>
     (\<forall>i t. (i, t) \<in> R \<longrightarrow> map_of granted i \<noteq> None \<and> i \<notin> P) \<and>
     (\<forall>i t. (i, Some t) \<in> R \<longrightarrow> i \<in> K \<longrightarrow> map_of granted i = Some t)"

definition pairing_ids :: "host_pairing list \<Rightarrow> rstring set" where
  "pairing_ids pr = hpr_id ` set pr"

definition right_ids :: "(rstring \<times> guest_permissions \<times> pairing_trust option) list \<Rightarrow> (rstring \<times> pairing_trust option) set" where
  "right_ids ri = (\<lambda>(i, p, t). (i, t)) ` set ri"

definition threads_ok ::
  "(rstring \<times> pairing_trust) list \<Rightarrow> host_pairing list \<Rightarrow>
   (rstring \<times> guest_permissions \<times> pairing_trust option) list \<Rightarrow> store_view \<Rightarrow> bool" where
  "threads_ok granted pairing rights = (\<lambda>(k, g).
     btree_sorted g \<and> (\<forall>r\<in>set pairing. length (hpr_key r) = 32) \<and> distinct (map hpr_id pairing) \<and>
     ids_ok granted g (fst ` set k) (pairing_ids pairing) (right_ids rights))"

definition world_ok :: "serde \<Rightarrow> store_world \<Rightarrow> bool" where
  "world_ok sd w \<longleftrightarrow> (\<exists>v. store_view sd (stw_disk w) = Some v \<and>
     threads_ok (stw_granted w) (stw_pairing w) (stw_rights w) v)"

lemma on_file_granted: "on_file granted g i \<Longrightarrow> map_of granted i \<noteq> None"
  by (auto simp: on_file_def)

lemma on_file_new_id: "map_of granted i = None \<Longrightarrow> on_file granted g j \<Longrightarrow> on_file ((i, t) # granted) g j"
  by (auto simp: on_file_def)

lemma on_file_insert:
  "btree_sorted g \<Longrightarrow> on_file granted g j \<Longrightarrow>
   (i = j \<Longrightarrow> map_of granted i = Some t \<and> encode_pairing_trust t = Inr bs) \<Longrightarrow>
   on_file granted (btree_insert i (bs, f) g) j"
  by (auto simp: on_file_def map_of_btree_insert)

lemma on_file_delete: "on_file granted g j \<Longrightarrow> i \<noteq> j \<Longrightarrow> on_file granted (AList.delete i g) j"
  by (auto simp: on_file_def delete_conv)

lemma ids_granted:
  "map_of granted i = None \<Longrightarrow> ids_ok granted g K P R \<Longrightarrow>
   ids_ok ((i, t) # granted) g K P R \<and> i \<notin> K \<and> i \<notin> P \<and> (\<forall>t. (i, t) \<notin> R)"
  unfolding ids_ok_def on_file_def by (intro conjI) (auto split: if_splits)

lemma ids_grants:
  assumes "btree_sorted g" "ids_ok granted g K P R"
    and "i \<in> K \<or> i \<in> P \<Longrightarrow> map_of granted i = Some t \<and> encode_pairing_trust t = Inr bs"
  shows "ids_ok granted (btree_insert i (bs, f) g) K P R"
proof -
  have "on_file granted (btree_insert i (bs, f) g) j" if "on_file granted g j" "j \<in> K \<or> j \<in> P" for j
    using assms that by (intro on_file_insert) auto
  then show ?thesis using assms(2) unfolding ids_ok_def by blast
qed

lemma ids_pair:
  "ids_ok granted g K P R \<Longrightarrow> on_file granted g i \<Longrightarrow> i \<notin> K \<Longrightarrow> \<forall>t. (i, t) \<notin> R \<Longrightarrow> ids_ok granted g K (insert i P) R"
  unfolding ids_ok_def by blast

lemma ids_save:
  "ids_ok granted g K P R \<Longrightarrow> i \<in> P \<Longrightarrow> ids_ok granted g (insert i (K - {i})) (P - {i}) R"
  unfolding ids_ok_def by blast

lemma ids_fewer:
  "ids_ok granted g K P R \<Longrightarrow> K' \<subseteq> K \<Longrightarrow> P' \<subseteq> P \<Longrightarrow> R' \<subseteq> R \<Longrightarrow> ids_ok granted g K' P' R'"
  unfolding ids_ok_def by blast

lemma ids_revoke:
  assumes "ids_ok granted g K P R" "i \<notin> P"
  shows "ids_ok granted (AList.delete i g) (K - {i}) P R"
proof -
  have "on_file granted (AList.delete i g) j" if "on_file granted g j" "j \<noteq> i" for j
    using on_file_delete that by auto
  then show ?thesis using assms unfolding ids_ok_def by blast
qed

lemma ids_right:
  "ids_ok granted g K P R \<Longrightarrow> map_of granted i \<noteq> None \<Longrightarrow> i \<notin> P \<Longrightarrow>
   (\<And>t'. t = Some t' \<Longrightarrow> i \<in> K \<Longrightarrow> map_of granted i = Some t') \<Longrightarrow> ids_ok granted g K P (insert (i, t) R)"
  unfolding ids_ok_def by blast

lemma id_sets [simp]:
  "pairing_ids [] = {}" "right_ids [] = {}"
  "pairing_ids (r # pr) = insert (hpr_id r) (pairing_ids pr)"
  "right_ids ((i, p, t) # ri) = insert (i, t) (right_ids ri)"
  by (simp_all add: pairing_ids_def right_ids_def)

lemma filter_ids: "fst ` {p \<in> set k. fst p \<noteq> i} = fst ` set k - {i}"
  by auto

lemma removeAll_ids:
  "distinct (map hpr_id pr) \<Longrightarrow> r \<in> set pr \<Longrightarrow>
   pairing_ids (removeAll r pr) = pairing_ids pr - {hpr_id r} \<and> distinct (map hpr_id (removeAll r pr))"
  by (auto simp: pairing_ids_def distinct_map inj_on_def distinct_removeAll)

lemma threads_gone: "threads_ok granted pr ri v \<Longrightarrow> threads_ok granted [] [] v"
  by (auto simp: threads_ok_def elim: ids_fewer split: prod.splits)

text \<open>A call leaves the world in order when each of its views does, and its success the last.\<close>

lemma after_io_ok:
  assumes "store_view sd (si_disk s) \<in> Some ` set vs"
    and "\<And>v. v \<in> set vs \<Longrightarrow> threads_ok (stw_granted w) (stw_pairing w) (stw_rights w) v"
    and "\<And>x. f = IoDone x \<Longrightarrow> world_ok sd (c x (w\<lparr>stw_disk := si_disk s\<rparr>))"
  shows "world_ok sd (after_io (s, f) c w)"
proof -
  obtain v where v: "store_view sd (si_disk s) = Some v" "v \<in> set vs" using assms(1) by auto
  note t = assms(2) [OF v(2)]
  show ?thesis
  proof (cases f)
    case IoDead
    then show ?thesis using v(1) threads_gone [OF t] by (simp add: after_io_def world_ok_def)
  next
    case (IoError e)
    then show ?thesis using v(1) t by (simp add: after_io_def world_ok_def)
  qed (use assms(3) in \<open>simp add: after_io_def\<close>)
qed

lemma threads_okD:
  assumes "threads_ok granted pr ri (k, g)"
  shows "btree_sorted g" "distinct (map hpr_id pr)" "r \<in> set pr \<Longrightarrow> length (hpr_key r) = 32"
    "ids_ok granted g (fst ` set k) (pairing_ids pr) (right_ids ri)"
  using assms by (auto simp: threads_ok_def)

lemma admit_ok:
  assumes ok: "serde_ok sd" and w: "world_ok sd w"
  shows "world_ok sd (store_apply sd os (StoreAdmit r t p, steps) w)"
proof (cases "map_of (stw_granted w) (hpr_id r) \<noteq> None \<or> length (hpr_key r) \<noteq> 32")
  case False
  then have new: "map_of (stw_granted w) (hpr_id r) = None" and key: "length (hpr_key r) = 32" by simp_all
  from w obtain k g where v: "store_view sd (stw_disk w) = Some (k, g)"
    and th: "threads_ok (stw_granted w) (stw_pairing w) (stw_rights w) (k, g)" by (auto simp: world_ok_def)
  note td = threads_okD [OF th]
  let ?granted = "(hpr_id r, t) # stw_granted w" and ?w = "w\<lparr>stw_granted := (hpr_id r, t) # stw_granted w\<rparr>"
  note fresh = ids_granted [OF new td(4), of t]
  obtain s f where out: "set_authorization sd (hpr_id r) t p (io_of w steps) = (s, f)"
    by (cases "set_authorization sd (hpr_id r) t p (io_of w steps)")
  have "store_view sd (si_disk (io_of w steps)) = Some (k, g)" using v by (simp add: io_of_def)
  note sv = set_authorization_view [OF ok this out]
  have old: "threads_ok ?granted (stw_pairing w) (stw_rights w) (k, g)"
    using th fresh by (simp add: threads_ok_def)
  have new': "threads_ok ?granted (stw_pairing w) (stw_rights w) (k, btree_insert (hpr_id r) (bs, fl) g) \<and>
      threads_ok ?granted (r # stw_pairing w) (stw_rights w) (k, btree_insert (hpr_id r) (bs, fl) g)"
    if "encode_pairing_trust t = Inr bs" for bs fl
  proof -
    let ?g = "btree_insert (hpr_id r) (bs, fl) g"
    have ids: "ids_ok ?granted ?g (fst ` set k) (pairing_ids (stw_pairing w)) (right_ids (stw_rights w))"
      by (rule ids_grants [OF td(1), where t = t]) (use fresh that in auto)
    have "on_file ?granted ?g (hpr_id r)" using that td(1) by (simp add: on_file_def map_of_btree_insert)
    with ids ids_pair [OF ids] fresh have "ids_ok ?granted ?g (fst ` set k) (insert (hpr_id r) (pairing_ids (stw_pairing w)))
      (right_ids (stw_rights w))" by blast
    moreover have "hpr_id r \<notin> hpr_id ` set (stw_pairing w)" using fresh by (simp add: pairing_ids_def)
    ultimately show ?thesis using ids td(1,2) th key by (auto simp: threads_ok_def btree_sorted_insert)
  qed
  have "world_ok sd (after_io (s, f) (\<lambda>_ w. w\<lparr>stw_pairing := r # stw_pairing w\<rparr>) ?w)"
  proof (rule after_io_ok [OF sv [THEN conjunct1]])
    show "threads_ok (stw_granted ?w) (stw_pairing ?w) (stw_rights ?w) v"
      if "v \<in> set (call_views (CallAuthorize (hpr_id r) t p) (k, g))" for v
      using that old new' by (auto split: sum.splits)
    show "world_ok sd ((?w\<lparr>stw_disk := si_disk s\<rparr>)\<lparr>stw_pairing := r # stw_pairing (?w\<lparr>stw_disk := si_disk s\<rparr>)\<rparr>)"
      if "f = IoDone x" for x
      using sv that new' by (auto simp: world_ok_def)
  qed
  then show ?thesis using False out by simp
qed (use w in auto)

lemma save_ok:
  assumes ok: "serde_ok sd" and w: "world_ok sd w"
  shows "world_ok sd (store_apply sd os (StoreSave r, steps) w)"
proof (cases "r \<in> set (stw_pairing w)")
  case True
  from w obtain k g where v: "store_view sd (stw_disk w) = Some (k, g)"
    and th: "threads_ok (stw_granted w) (stw_pairing w) (stw_rights w) (k, g)" by (auto simp: world_ok_def)
  note td = threads_okD [OF th]
  let ?pr = "removeAll r (stw_pairing w)" and ?w = "w\<lparr>stw_pairing := removeAll r (stw_pairing w)\<rparr>"
  let ?k = "filter (\<lambda>p. fst p \<noteq> hpr_id r) k @ [pairing_core r]"
  obtain s f where out: "save sd os r (io_of w steps) = (s, f)" by (cases "save sd os r (io_of w steps)")
  have "store_view sd (si_disk (io_of w steps)) = Some (k, g)" using v by (simp add: io_of_def)
  note sv = save_view [OF ok this out td(3) [OF True]]
  note rm = removeAll_ids [OF td(2) True]
  have i: "hpr_id r \<in> pairing_ids (stw_pairing w)" using True by (simp add: pairing_ids_def)
  have "fst ` set ?k = insert (hpr_id r) (fst ` set k - {hpr_id r})" by (auto simp: pairing_core_def)
  then have new: "threads_ok (stw_granted w) ?pr (stw_rights w) (?k, g)"
    using td(1,3) rm ids_save [OF td(4) i] by (simp add: threads_ok_def)
  have old: "threads_ok (stw_granted w) ?pr (stw_rights w) (k, g)"
    using td(1,3) rm ids_fewer [OF td(4), of "fst ` set k" "pairing_ids (stw_pairing w) - {hpr_id r}"]
    by (simp add: threads_ok_def)
  have "world_ok sd (after_io (s, f) (\<lambda>_ w. w) ?w)"
  proof (rule after_io_ok [OF sv [THEN conjunct1]])
    show "threads_ok (stw_granted ?w) (stw_pairing ?w) (stw_rights ?w) v"
      if "v \<in> set (call_views (CallSave r) (k, g))" for v
      using that old new by auto
    show "world_ok sd (?w\<lparr>stw_disk := si_disk s\<rparr>)" if "f = IoDone x" for x
      using sv that new by (simp add: world_ok_def)
  qed
  then show ?thesis using True out by simp
qed (use w in simp)

lemma revoke_ok:
  assumes ok: "serde_ok sd" and w: "world_ok sd w"
  shows "world_ok sd (store_apply sd os (StoreRevoke i, steps) w)"
proof (cases "i \<in> hpr_id ` set (stw_pairing w)")
  case False
  from w obtain k g where v: "store_view sd (stw_disk w) = Some (k, g)"
    and th: "threads_ok (stw_granted w) (stw_pairing w) (stw_rights w) (k, g)" by (auto simp: world_ok_def)
  note td = threads_okD [OF th]
  obtain s f where out: "revoke sd os i (io_of w steps) = (s, f)" by (cases "revoke sd os i (io_of w steps)")
  have "store_view sd (si_disk (io_of w steps)) = Some (k, g)" using v by (simp add: io_of_def)
  note sv = revoke_view [OF ok this out]
  have i: "i \<notin> pairing_ids (stw_pairing w)" using False by (simp add: pairing_ids_def)
  have new: "threads_ok (stw_granted w) (stw_pairing w) (stw_rights w) v"
    if "v \<in> set (call_views (CallRevoke i) (k, g))" for v
  proof -
    note fewer = ids_fewer [OF td(4), of "fst ` set k - {i}" "pairing_ids (stw_pairing w)" "right_ids (stw_rights w)"]
    from that consider "v = (k, g)" | "v = (filter (\<lambda>p. fst p \<noteq> i) k, g)"
      | "v = (filter (\<lambda>p. fst p \<noteq> i) k, AList.delete i g)" by (auto simp: Let_def)
    then show ?thesis
      using th td fewer ids_revoke [OF td(4) i]
      by cases (auto simp: threads_ok_def filter_ids btree_sorted_delete)
  qed
  have "world_ok sd (after_io (s, f) (\<lambda>_ w. w) w)"
  proof (rule after_io_ok [OF sv [THEN conjunct1] new])
    show "world_ok sd (w\<lparr>stw_disk := si_disk s\<rparr>)" if "f = IoDone x" for x
      using sv that new [OF last_in_set] by (fastforce simp: world_ok_def Let_def)
  qed
  then show ?thesis using False out by simp
qed (use w in simp)

lemma keep_ok: "world_ok sd w \<Longrightarrow> world_ok sd (w\<lparr>stw_disk := stw_disk w\<rparr>)"
  by (simp add: world_ok_def)

lemma read_ok:
  assumes "world_ok sd w" and "si_disk s = stw_disk w" and "\<And>x. f = IoDone x \<Longrightarrow> world_ok sd (c x w)"
  shows "world_ok sd (after_io (s, f) c w)"
proof -
  obtain v where v: "store_view sd (stw_disk w) = Some v" "threads_ok (stw_granted w) (stw_pairing w) (stw_rights w) v"
    using assms(1) by (auto simp: world_ok_def)
  have "w\<lparr>stw_disk := si_disk s\<rparr> = w" using assms(2) by simp
  then show ?thesis using v assms(2,3) by (intro after_io_ok [where vs = "[v]"]) auto
qed

lemma right_ok:
  assumes "world_ok sd w" and "map_of (stw_granted w) i \<noteq> None" "i \<notin> pairing_ids (stw_pairing w)"
    and "\<And>trust k g. store_view sd (stw_disk w) = Some (k, g) \<Longrightarrow> t = Some trust \<Longrightarrow> i \<in> fst ` set k \<Longrightarrow>
      map_of (stw_granted w) i = Some trust"
  shows "world_ok sd (w\<lparr>stw_rights := (i, p, t) # stw_rights w\<rparr>)"
proof -
  obtain k g where v: "store_view sd (stw_disk w) = Some (k, g)"
    and th: "threads_ok (stw_granted w) (stw_pairing w) (stw_rights w) (k, g)" using assms(1) by (auto simp: world_ok_def)
  have "ids_ok (stw_granted w) g (fst ` set k) (pairing_ids (stw_pairing w)) (insert (i, t) (right_ids (stw_rights w)))"
    by (rule ids_right [OF threads_okD(4) [OF th] assms(2,3)]) (rule assms(4) [OF v])
  then have "threads_ok (stw_granted w) (stw_pairing w) ((i, p, t) # stw_rights w) (k, g)"
    using th by (simp add: threads_ok_def)
  then show ?thesis using v by (auto simp: world_ok_def)
qed

lemma rights_load_ok:
  assumes w: "world_ok sd w"
  shows "world_ok sd (store_apply sd os (RightsLoad i p, steps) w)"
proof -
  obtain s f where out: "load sd i (io_of w steps) = (s, f)" by (cases "load sd i (io_of w steps)")
  note lo = load_outcome [OF out]
  have known: "world_ok sd (w\<lparr>stw_rights := (i, p, None) # stw_rights w\<rparr>)" if x: "f = IoDone x" "x \<noteq> None" for x
  proof -
    obtain rs where rs: "stored_pairings sd (stw_disk w) = Some rs" "x = find (\<lambda>r. hpr_id r = i) rs"
      using lo x(1) by (auto simp: io_of_def)
    then obtain r where "r \<in> set rs" "hpr_id r = i"
      using x(2) find_None_iff [of "\<lambda>r. hpr_id r = i" rs] by auto
    moreover obtain k g where v: "store_view sd (stw_disk w) = Some (k, g)"
      and th: "threads_ok (stw_granted w) (stw_pairing w) (stw_rights w) (k, g)" using w by (auto simp: world_ok_def)
    moreover have "k = map pairing_core rs" using v rs(1) by (auto simp: store_view_Some)
    ultimately have "i \<in> fst ` set k" by (force simp: pairing_core_def)
    then have "on_file (stw_granted w) g i" "i \<notin> pairing_ids (stw_pairing w)"
      using threads_okD(4) [OF th] unfolding ids_ok_def by blast+
    then show ?thesis using on_file_granted by (intro right_ok [OF w]) auto
  qed
  show ?thesis unfolding store_apply.simps out
    by (rule read_ok [OF w]) (use lo known w in \<open>auto simp: io_of_def\<close>)
qed

lemma authorization_granted:
  assumes "store_view sd d = Some (k, g)" "on_file granted g i" "authorization sd i s = (s', IoDone (t, p))" "si_disk s = d"
  shows "map_of granted i = Some t"
proof -
  obtain g' where g': "stored_grants sd d = Some g'"
    "map_of g' i = None \<and> t = Owner \<or> (\<exists>bs f. map_of g' i = Some (bs, f) \<and> decode_pairing_trust bs = Inr t)"
    using authorization_outcome [OF assms(3)] assms(4) by auto
  moreover have "g' = g" using g'(1) assms(1) by (simp add: store_view_Some)
  ultimately show ?thesis using assms(2) by (auto simp: on_file_def simp flip: decode_pairing_trust_Inr)
qed

lemma rights_read_ok:
  assumes w: "world_ok sd w"
  shows "world_ok sd (store_apply sd os (RightsRead i p, steps) w)"
proof (cases "(i, p, None) \<in> set (stw_rights w)")
  case True
  obtain s f where out: "authorization sd i (io_of w steps) = (s, f)" by (cases "authorization sd i (io_of w steps)")
  have disk: "si_disk s = stw_disk w" using authorization_outcome [OF out] by (simp add: io_of_def)
  have read: "world_ok sd (w\<lparr>stw_rights := (i, p, Some t) # stw_rights w\<rparr>)" if f: "f = IoDone (t, q)" for t q
  proof (rule right_ok [OF w])
    obtain k g where v: "store_view sd (stw_disk w) = Some (k, g)"
      and th: "threads_ok (stw_granted w) (stw_pairing w) (stw_rights w) (k, g)" using w by (auto simp: world_ok_def)
    have "(i, None) \<in> right_ids (stw_rights w)" using True by (force simp: right_ids_def)
    then show "map_of (stw_granted w) i \<noteq> None" "i \<notin> pairing_ids (stw_pairing w)"
      using threads_okD(4) [OF th] unfolding ids_ok_def by blast+
    show "map_of (stw_granted w) i = Some trust"
      if "store_view sd (stw_disk w) = Some (k', g')" "Some t = Some trust" "i \<in> fst ` set k'" for trust k' g'
    proof -
      have "on_file (stw_granted w) g i" using threads_okD(4) [OF th] that v unfolding ids_ok_def by auto
      from authorization_granted [OF v this, of "io_of w steps" s t q] out f that(2) show ?thesis by (simp add: io_of_def)
    qed
  qed
  have "world_ok sd (after_io (s, f) (\<lambda>(trust, _) w. w\<lparr>stw_rights := (i, p, Some trust) # stw_rights w\<rparr>) w)"
    by (rule read_ok [OF w disk]) (use read in auto)
  then show ?thesis using True out by simp
qed (use w in simp)

lemma rights_write_ok:
  assumes ok: "serde_ok sd" and w: "world_ok sd w"
  shows "world_ok sd (store_apply sd os (RightsWrite i p t, steps) w)"
proof (cases "(i, p, Some t) \<in> set (stw_rights w)")
  case True
  from w obtain k g where v: "store_view sd (stw_disk w) = Some (k, g)"
    and th: "threads_ok (stw_granted w) (stw_pairing w) (stw_rights w) (k, g)" by (auto simp: world_ok_def)
  note td = threads_okD [OF th]
  obtain s f where out: "set_authorization sd i t (Some p) (io_of w steps) = (s, f)"
    by (cases "set_authorization sd i t (Some p) (io_of w steps)")
  have "store_view sd (si_disk (io_of w steps)) = Some (k, g)" using v by (simp add: io_of_def)
  note sv = set_authorization_view [OF ok this out]
  have "(i, Some t) \<in> right_ids (stw_rights w)" using True by (force simp: right_ids_def)
  then have i: "i \<in> fst ` set k \<or> i \<in> pairing_ids (stw_pairing w) \<Longrightarrow> map_of (stw_granted w) i = Some t"
    using td(4) unfolding ids_ok_def by blast
  have new: "threads_ok (stw_granted w) (stw_pairing w) (stw_rights w) v"
    if "v \<in> set (call_views (CallAuthorize i t (Some p)) (k, g))" for v
    using that th td(1,2) ids_grants [OF td(1,4), of i t] i
    by (auto simp: threads_ok_def btree_sorted_insert split: sum.splits)
  have "world_ok sd (after_io (s, f) (\<lambda>_ w. w) w)"
  proof (rule after_io_ok [OF sv [THEN conjunct1] new])
    show "world_ok sd (w\<lparr>stw_disk := si_disk s\<rparr>)" if "f = IoDone x" for x
    proof -
      have "call_views (CallAuthorize i t (Some p)) (k, g) \<noteq> []" by (simp split: sum.splits)
      then show ?thesis using sv that new [OF last_in_set] by (auto simp: world_ok_def)
    qed
  qed
  then show ?thesis using True out by simp
qed (use w in simp)

lemma store_apply_ok:
  "serde_ok sd \<Longrightarrow> world_ok sd w \<Longrightarrow> world_ok sd (store_apply sd os x w)"
  by (cases x; cases "fst x")
    (use admit_ok save_ok revoke_ok rights_load_ok rights_read_ok rights_write_ok in auto)

lemma store_run_ok:
  "serde_ok sd \<Longrightarrow> world_ok sd w \<Longrightarrow> world_ok sd (fold (store_apply sd os) xs w)"
  by (induction xs arbitrary: w) (auto intro: store_apply_ok)

lemma world_new_ok: "world_ok sd store_world_new"
  by (simp add: world_ok_def store_world_new_def store_view_def stored_pairings_def stored_grants_def
      no_files_def threads_ok_def ids_ok_def btree_sorted_def)

text \<open>A key once saved stays until it is revoked.\<close>

definition world_keys :: "serde \<Rightarrow> store_world \<Rightarrow> rstring set" where
  "world_keys sd w = (case store_view sd (stw_disk w) of Some (k, g) \<Rightarrow> fst ` set k | None \<Rightarrow> {})"

lemma after_io_disk: "(\<And>x w. stw_disk (c x w) = stw_disk w) \<Longrightarrow> stw_disk (after_io (s, f) c w) = si_disk s"
  by (simp add: after_io_def split: io_flow.split)

lemma keys_kept:
  assumes "serde_ok sd" "world_ok sd w" "i \<in> world_keys sd w" "fst x \<noteq> StoreRevoke i"
  shows "i \<in> world_keys sd (store_apply sd os x w)"
proof -
  obtain op steps where x: "x = (op, steps)" by (cases x)
  obtain k g where v: "store_view sd (stw_disk w) = Some (k, g)" and i: "i \<in> fst ` set k"
    using assms(3) by (auto simp: world_keys_def split: option.splits)
  have vio: "store_view sd (si_disk (io_of w steps)) = Some (k, g)" "\<And>p. store_view sd (si_disk (io_of (w\<lparr>stw_granted := p\<rparr>) steps)) = Some (k, g)"
    "\<And>p. store_view sd (si_disk (io_of (w\<lparr>stw_pairing := p\<rparr>) steps)) = Some (k, g)" using v by (simp_all add: io_of_def)
  have lens: "r \<in> set (stw_pairing w) \<Longrightarrow> length (hpr_key r) = 32" for r
    using assms(2) by (auto simp: world_ok_def threads_ok_def)
  have kept: "i \<in> world_keys sd w'" if "stw_disk w' = d" "store_view sd d \<in> Some ` set (call_views c (k, g))"
    "\<And>v. v \<in> set (call_views c (k, g)) \<Longrightarrow> i \<in> fst ` set (fst v)" for w' d c
    using that by (auto simp: world_keys_def split: option.splits prod.splits)
  have authorize: "i \<in> fst ` set (fst v)" if "v \<in> set (call_views (CallAuthorize j t p) (k, g))" for v j t p
    using that i by (auto split: sum.splits)
  show ?thesis
  proof (cases op)
    case (StoreAdmit r t p)
    show ?thesis
    proof (cases "map_of (stw_granted w) (hpr_id r) \<noteq> None \<or> length (hpr_key r) \<noteq> 32")
      case False
      obtain s f where out: "set_authorization sd (hpr_id r) t p (io_of w steps) = (s, f)"
        by (cases "set_authorization sd (hpr_id r) t p (io_of w steps)")
      note sv = conjunct1 [OF set_authorization_view [OF assms(1) vio(1) out]]
      have "stw_disk (store_apply sd os x w) = si_disk s"
        using False by (simp add: x StoreAdmit out after_io_disk)
      from kept [OF this sv authorize] show ?thesis .
    qed (use assms(3) in \<open>auto simp: x StoreAdmit\<close>)
  next
    case (StoreSave r)
    show ?thesis
    proof (cases "r \<in> set (stw_pairing w)")
      case True
      obtain s f where out: "save sd os r (io_of w steps) = (s, f)" by (cases "save sd os r (io_of w steps)")
      note sv = conjunct1 [OF save_view [OF assms(1) vio(1) out lens [OF True]]]
      have "stw_disk (store_apply sd os x w) = si_disk s" using True by (simp add: x StoreSave out after_io_disk)
      from kept [OF this sv] i show ?thesis by (force simp: pairing_core_def)
    qed (use assms(3) in \<open>simp add: x StoreSave\<close>)
  next
    case (StoreRevoke j)
    show ?thesis
    proof (cases "j \<in> hpr_id ` set (stw_pairing w)")
      case False
      obtain s f where out: "revoke sd os j (io_of w steps) = (s, f)" by (cases "revoke sd os j (io_of w steps)")
      note sv = conjunct1 [OF revoke_view [OF assms(1) vio(1) out]]
      have "stw_disk (store_apply sd os x w) = si_disk s" using False by (simp add: x StoreRevoke out after_io_disk)
      from kept [OF this sv] i assms(4) show ?thesis by (force simp: x StoreRevoke Let_def)
    qed (use assms(3) in \<open>simp add: x StoreRevoke\<close>)
  next
    case (RightsLoad j p)
    obtain s f where out: "load sd j (io_of w steps) = (s, f)" by (cases "load sd j (io_of w steps)")
    have "stw_disk (store_apply sd os x w) = stw_disk w"
      using conjunct1 [OF load_outcome [OF out]] by (simp add: x RightsLoad out after_io_disk) (simp add: io_of_def)
    then show ?thesis using assms(3) by (simp add: world_keys_def)
  next
    case (RightsRead j p)
    obtain s f where out: "authorization sd j (io_of w steps) = (s, f)" by (cases "authorization sd j (io_of w steps)")
    have "stw_disk (store_apply sd os x w) = stw_disk w"
      using conjunct1 [OF authorization_outcome [OF out]]
      by (simp add: x RightsRead out after_io_disk split: prod.split) (simp add: io_of_def)
    then show ?thesis using assms(3) by (simp add: world_keys_def)
  next
    case (RightsWrite j p t)
    show ?thesis
    proof (cases "(j, p, Some t) \<in> set (stw_rights w)")
      case True
      obtain s f where out: "set_authorization sd j t (Some p) (io_of w steps) = (s, f)"
        by (cases "set_authorization sd j t (Some p) (io_of w steps)")
      note sv = conjunct1 [OF set_authorization_view [OF assms(1) vio(1) out]]
      have "stw_disk (store_apply sd os x w) = si_disk s" using True by (simp add: x RightsWrite out after_io_disk)
      from kept [OF this sv authorize] show ?thesis .
    qed (use assms(3) in \<open>simp add: x RightsWrite\<close>)
  qed
qed

lemma keys_kept_run:
  assumes "serde_ok sd" "world_ok sd w" "i \<in> world_keys sd w" "\<forall>steps. (StoreRevoke i, steps) \<notin> set xs"
  shows "i \<in> world_keys sd (fold (store_apply sd os) xs w)"
  using assms
proof (induction xs arbitrary: w)
  case (Cons x xs)
  have "fst x \<noteq> StoreRevoke i" using Cons.prems(4) by (cases x) auto
  from Cons.IH [OF Cons.prems(1) store_apply_ok [OF Cons.prems(1,2)] keys_kept [OF Cons.prems(1-3) this]] Cons.prems(4)
  show ?case by simp
qed simp

lemma loaded_key:
  assumes "world_ok sd w" "stored_pairings sd (stw_disk w) = Some rs" "r \<in> set rs"
  shows "hpr_id r \<in> world_keys sd w"
proof -
  obtain k g where "store_view sd (stw_disk w) = Some (k, g)" using assms(1) by (auto simp: world_ok_def)
  moreover from this assms(2) have "k = map pairing_core rs" by (auto simp: store_view_Some)
  ultimately show ?thesis using assms(3) by (force simp: world_keys_def pairing_core_def)
qed

text \<open>What a thread reads for a client whose key was on file some operations ago.\<close>

lemma later_trust:
  assumes "serde_ok sd" "world_ok sd w" "i \<in> world_keys sd w" "w' = fold (store_apply sd os) later w"
    and "authorization sd i (io_of w' b) = (s', IoDone (t, p))"
  shows "map_of (stw_granted w') i = Some t \<or>
    i \<notin> world_keys sd w' \<and> (\<exists>steps. (StoreRevoke i, steps) \<in> set later)"
proof (cases "i \<in> world_keys sd w'")
  case True
  have "world_ok sd w'" unfolding assms(4) by (rule store_run_ok [OF assms(1,2)])
  then obtain k g where v: "store_view sd (stw_disk w') = Some (k, g)"
    and th: "threads_ok (stw_granted w') (stw_pairing w') (stw_rights w') (k, g)" by (auto simp: world_ok_def)
  with True have "on_file (stw_granted w') g i"
    using threads_okD(4) [OF th] unfolding ids_ok_def by (auto simp: world_keys_def)
  from authorization_granted [OF v this assms(5)] show ?thesis by (simp add: io_of_def)
next
  case False
  with keys_kept_run [OF assms(1-3), of later os] show ?thesis unfolding assms(4) by auto
qed

text \<open>C6. A crash makes nobody the owner. Threads run the operations of the store in whatever order, and any
  of their file operations may fail or be the last of a dying process. A session that reads a client's
  key first and its authorization later, with any operations of others in between, gets exactly the
  trust the user granted when the client was paired; unless the client was revoked in between and its
  key is gone by then, for the source reads the two under two locks. (Then the authorization
  may be gone, too, which counts as the owner's: the witness has such a run.)\<close>

theorem store_never_escalates:
  assumes "serde_ok sd"
    and "w = fold (store_apply sd os) ops store_world_new" and "w' = fold (store_apply sd os) later w"
    and "load sd i (io_of w a) = (s, IoDone (Some r))"
    and "authorization sd i (io_of w' b) = (s', IoDone (t, p))"
  shows "map_of (stw_granted w') i = Some t \<or>
    i \<notin> world_keys sd w' \<and> (\<exists>steps. (StoreRevoke i, steps) \<in> set later)"
proof -
  have ok: "world_ok sd w" unfolding assms(2) by (rule store_run_ok [OF assms(1) world_new_ok])
  obtain rs where rs: "stored_pairings sd (stw_disk w) = Some rs" "Some r = find (\<lambda>r. hpr_id r = i) rs"
    using load_outcome [OF assms(4)] by (auto simp: io_of_def)
  then have "r \<in> set rs" "hpr_id r = i" by (auto simp: find_Some_iff dest!: sym [of "Some r"])
  with loaded_key [OF ok rs(1)] have "i \<in> world_keys sd w" by auto
  from later_trust [OF assms(1) ok this assms(3,5)] show ?thesis .
qed

text \<open>The store as a thread sees it that looks at it several times, the operations \<open>ops n\<close> coming before
  its look \<open>n\<close>.\<close>

fun world_at :: "serde \<Rightarrow> host_os \<Rightarrow> (nat \<Rightarrow> (store_op \<times> io_step list) list) \<Rightarrow> nat \<Rightarrow> store_world" where
  "world_at sd os ops 0 = fold (store_apply sd os) (ops 0) store_world_new"
| "world_at sd os ops (Suc n) = fold (store_apply sd os) (ops (Suc n)) (world_at sd os ops n)"

lemma world_at_later:
  "world_at sd os ops n = fold (store_apply sd os) (concat (map ops [1..<Suc n])) (world_at sd os ops 0)"
  by (induction n) auto

lemma later_op: "x \<in> set (concat (map ops [1..<Suc n])) \<Longrightarrow> \<exists>j. 0 < j \<and> j \<le> n \<and> x \<in> set (ops j)"
proof -
  assume "x \<in> set (concat (map ops [1..<Suc n]))"
  then obtain j where "j \<in> set [1..<Suc n]" "x \<in> set (ops j)" by (auto simp del: upt_Suc set_upt)
  then show ?thesis by (intro exI [where x = j]) auto
qed

lemma world_at_ok: "serde_ok sd \<Longrightarrow> world_ok sd (world_at sd os ops n)"
  by (induction n) (auto intro: store_run_ok world_new_ok)

section \<open>A sample\<close>

text \<open>A serializer that keeps everything: a value is written as a file of as many zeros as its number.\<close>

instance f64 :: countable
  by countable_datatype

definition disk_tuple :: "disk_pairing \<Rightarrow> rstring \<times> rstring \<times> rstring \<times> f64" where
  "disk_tuple d = (dp_id d, dp_name d, dp_key d, dp_added_at d)"

definition tuple_disk :: "rstring \<times> rstring \<times> rstring \<times> f64 \<Rightarrow> disk_pairing" where
  "tuple_disk = (\<lambda>(i, name, key, added_at). \<lparr>dp_id = i, dp_name = name, dp_key = key, dp_added_at = added_at\<rparr>)"

definition sample_serde :: serde where
  "sample_serde =
     \<lparr>sd_parse_pairings = (\<lambda>bs. Some (map tuple_disk (from_nat (length bs)))),
      sd_print_pairings = (\<lambda>ds. Some (replicate (to_nat (map disk_tuple ds)) 0)),
      sd_parse_grants = (\<lambda>bs. Some (from_nat (length bs))),
      sd_print_grants = (\<lambda>g. Some (replicate (to_nat g) 0)),
      sd_decode_block = Some, sd_encode_block = (\<lambda>key. key)\<rparr>"

lemma sample_serde_simps [simp]:
  "sd_parse_pairings sample_serde bs = Some (map tuple_disk (from_nat (length bs)))"
  "sd_print_pairings sample_serde ds = Some (replicate (to_nat (map disk_tuple ds)) 0)"
  "sd_parse_grants sample_serde bs = Some (from_nat (length bs))"
  "sd_print_grants sample_serde g = Some (replicate (to_nat g) 0)"
  "sd_decode_block sample_serde key = Some key" "sd_encode_block sample_serde key = key"
  by (simp_all add: sample_serde_def)

lemma tuple_disk_tuple [simp]: "tuple_disk (disk_tuple d) = d"
  by (simp add: tuple_disk_def disk_tuple_def)

lemma sample_serde_ok: "serde_ok sample_serde"
  by (auto simp: serde_ok_def same_pairing_def list.rel_refl comp_def)

definition sample_pairing :: host_pairing where
  "sample_pairing = \<lparr>hpr_id = [0x41], hpr_name = [0x62], hpr_key = replicate 32 7, hpr_added_at_unix_ms = 1700000000000\<rparr>"

text \<open>The process dies while it renames the file of the keys, before the rename is done.\<close>

lemma store_refines_spec_witness:
  "\<exists>s'. run_call sample_serde Linux (CallSave sample_pairing)
        \<lparr>si_steps = replicate 6 IoFine @ [IoDies 0], si_disk = no_files\<rparr> = (s', IoDead) \<and>
     sf_pairings_tmp (si_disk s') \<noteq> None \<and>
     store_view sample_serde (si_disk s') \<in> Some ` set (call_views (CallSave sample_pairing) ([], []))"
proof -
  let ?s = "\<lparr>si_steps = replicate 6 IoFine @ [IoDies 0], si_disk = no_files\<rparr>"
  obtain s' where r: "run_call sample_serde Linux (CallSave sample_pairing) ?s = (s', IoDead)"
    "sf_pairings_tmp (si_disk s') \<noteq> None"
    by (simp add: save_def load_all_unlocked_def write_unlocked_def fs_read_def fs_write_def fs_once_def
        fs_other_def sm_defs no_files_def numeral_eq_Suc)
  have "store_view sample_serde (si_disk ?s) = Some ([], [])"
    by (simp add: store_view_def stored_pairings_def stored_grants_def no_files_def)
  from store_refines_spec [OF sample_serde_ok this _ r(1)] r show ?thesis by (auto simp: sample_pairing_def)
qed

text \<open>A guest with an expiring trust is paired and its rights are then changed.\<close>

definition sample_store_ops :: "(store_op \<times> io_step list) list" where
  "sample_store_ops = [(StoreAdmit sample_pairing (GuestExpiring 9) None, []), (StoreSave sample_pairing, [])]"

definition sample_disk :: store_disk where
  "sample_disk =
     \<lparr>sf_pairings = Some (replicate (to_nat (map disk_tuple [pairing_to_disk sample_serde sample_pairing])) 0),
      sf_grants = Some (replicate (to_nat ([([0x41], 2 # le_bytes 8 (9 :: u64), None)] :: host_grants)) 0),
      sf_pairings_tmp = None, sf_grants_tmp = None\<rparr>"

lemma sample_trust: "encode_pairing_trust (GuestExpiring 9) = Inr (2 # le_bytes 8 (9 :: u64))"
  by (simp add: encode_pairing_trust_def push_def push_u64_def extend_from_slice_def)

lemma sample_trust_decoded: "decode_pairing_trust (2 # le_bytes 8 (9 :: u64)) = Inr (GuestExpiring 9)"
  by (simp only: decode_pairing_trust_Inr sample_trust)

lemma sample_store: "stw_disk (fold (store_apply sample_serde Linux) sample_store_ops store_world_new) = sample_disk"
  by (simp add: sample_store_ops_def store_world_new_def no_files_def io_of_def after_io_def set_authorization_def
      read_grants_def write_grants_unlocked_def save_def load_all_unlocked_def write_unlocked_def fs_read_def
      fs_write_def fs_once_def fs_other_def sm_defs sample_trust sample_pairing_def sample_disk_def)

lemma sample_load:
  "load_all_unlocked sample_serde \<lparr>si_steps = [], si_disk = sample_disk\<rparr> = (\<lparr>si_steps = [], si_disk = sample_disk\<rparr>,
     IoDone [sample_pairing\<lparr>hpr_added_at_unix_ms := date_of_disk (date_to_disk 1700000000000)\<rparr>])"
  by (simp add: sample_disk_def load_all_unlocked_def fs_read_def sm_defs
      pairing_of_disk_def pairing_to_disk_def tuple_disk_def disk_tuple_def sample_pairing_def try_bind_def)

lemma sample_authorization:
  "authorization sample_serde [0x41] \<lparr>si_steps = [], si_disk = sample_disk\<rparr> =
     (\<lparr>si_steps = [], si_disk = sample_disk\<rparr>, IoDone (GuestExpiring 9, None))"
  by (simp add: sample_disk_def authorization_def read_grants_def fs_read_def sm_defs sample_trust_decoded)

text \<open>The same client is revoked between the two reads.\<close>

definition revoked_disk :: store_disk where
  "revoked_disk = \<lparr>sf_pairings = Some (replicate (to_nat ([] :: (rstring \<times> rstring \<times> rstring \<times> f64) list)) 0),
     sf_grants = Some (replicate (to_nat ([] :: host_grants)) 0), sf_pairings_tmp = None, sf_grants_tmp = None\<rparr>"

lemma sample_revoke:
  "stw_disk (store_apply sample_serde Linux (StoreRevoke [0x41], [])
     \<lparr>stw_disk = sample_disk, stw_granted = g, stw_pairing = [], stw_rights = []\<rparr>) = revoked_disk"
  by (simp add: io_of_def after_io_def revoke_def sample_load sbind_def sample_pairing_def)
    (simp add: sm_defs write_unlocked_def read_grants_def write_grants_unlocked_def fs_read_def fs_write_def fs_once_def
      fs_other_def sample_disk_def revoked_disk_def)

lemma revoked_authorization:
  "authorization sample_serde [0x41] \<lparr>si_steps = [], si_disk = revoked_disk\<rparr> =
     (\<lparr>si_steps = [], si_disk = revoked_disk\<rparr>, IoDone (Owner, None))"
  by (simp add: revoked_disk_def authorization_def read_grants_def fs_read_def sm_defs)

lemma sample_world:
  "fold (store_apply sample_serde Linux) sample_store_ops store_world_new =
     \<lparr>stw_disk = sample_disk, stw_granted = [([0x41], GuestExpiring 9)], stw_pairing = [], stw_rights = []\<rparr>"
proof -
  have "stw_granted (fold (store_apply sample_serde Linux) sample_store_ops store_world_new) = [([0x41], GuestExpiring 9)]"
    "stw_pairing (fold (store_apply sample_serde Linux) sample_store_ops store_world_new) = []"
    "stw_rights (fold (store_apply sample_serde Linux) sample_store_ops store_world_new) = []"
    by (simp_all add: sample_store_ops_def store_world_new_def no_files_def io_of_def after_io_def set_authorization_def
      read_grants_def write_grants_unlocked_def save_def load_all_unlocked_def write_unlocked_def fs_read_def
      fs_write_def fs_once_def fs_other_def sm_defs sample_trust sample_pairing_def)
  with sample_store show ?thesis by simp
qed

lemma store_never_escalates_witness:
  "\<exists>w s r s' s'' b. w = fold (store_apply sample_serde Linux) sample_store_ops store_world_new \<and>
     load sample_serde [0x41] (io_of w []) = (s, IoDone (Some r)) \<and>
     authorization sample_serde [0x41] (io_of w []) = (s', IoDone (GuestExpiring 9, None)) \<and>
     map_of (stw_granted w) [0x41] = Some (GuestExpiring 9) \<and>
     authorization sample_serde [0x41] (io_of (store_apply sample_serde Linux (StoreRevoke [0x41], []) w) b) =
       (s'', IoDone (Owner, None))"
proof -
  define w where "w = fold (store_apply sample_serde Linux) sample_store_ops store_world_new"
  note world = sample_world [folded w_def]
  obtain s r where l: "load sample_serde [0x41] (io_of w []) = (s, IoDone (Some r))"
    by (simp add: world io_of_def load_def load_all_def sample_load sbind_def sret_def sample_pairing_def)
  obtain s' where a: "authorization sample_serde [0x41] (io_of w []) = (s', IoDone (GuestExpiring 9, None))"
    by (simp add: world io_of_def sample_authorization)
  have "w = fold (store_apply sample_serde Linux) [] w" by simp
  from store_never_escalates [OF sample_serde_ok w_def this l a] have "map_of (stw_granted w) [0x41] = Some (GuestExpiring 9)"
    by simp
  moreover have "\<exists>s''. authorization sample_serde [0x41] (io_of (store_apply sample_serde Linux (StoreRevoke [0x41], []) w) []) =
      (s'', IoDone (Owner, None))"
    by (simp add: io_of_def world sample_revoke revoked_authorization del: store_apply.simps)
  ultimately show ?thesis using l a unfolding w_def [symmetric] by blast
qed

section \<open>Dates\<close>

text \<open>The date goes through the file as seconds since 2001 in a \<open>f64\<close> and comes back to the millisecond,
  until the year 2248, provided that JSON keeps the number.\<close>

lemma round_near:
  assumes "\<bar>y - of_int n\<bar> < 1 / 2"
  shows "f64_round_int (Finite y) = Finite (of_int n)"
proof -
  have "y - of_int n < 1 / 2" "- (y - of_int n) < 1 / 2" using assms by (simp_all only: abs_less_iff)
  then have "of_int n \<le> y + 1 / 2" "y + 1 / 2 < of_int n + 1" "of_int (- n) \<le> - y + 1 / 2" "- y + 1 / 2 < of_int (- n) + 1"
    by (simp_all add: field_simps)
  then have "\<lfloor>y + 1 / 2\<rfloor> = n \<and> \<lfloor>- y + 1 / 2\<rfloor> = - n" by (intro conjI floor_unique)
  then show ?thesis by simp
qed

lemma date_roundtrip:
  assumes "unat ms < 2 ^ 43"
  shows "date_of_disk (date_to_disk ms) = ms"
proof -
  define N :: rat where "N = of_nat (unat ms)"
  have N: "0 \<le> N" "N < 2 ^ 43"
  proof -
    have "(of_nat (unat ms) :: rat) < of_nat (2 ^ 43)" using assms by (subst of_nat_less_iff)
    then show "N < 2 ^ 43" by (simp add: N_def)
    show "0 \<le> N" unfolding N_def by (rule of_nat_0_le_iff)
  qed
  have "f64_round (of_int (int (unat ms))) = Finite (of_int (int (unat ms)))"
  proof (rule f64_round_int_below)
    have "int (unat ms) < int (2 ^ 43)" using assms by (subst of_nat_less_iff)
    also have "int (2 ^ 43) < 2 ^ 53" by simp
    finally show "\<bar>int (unat ms)\<bar> < 2 ^ 53" unfolding abs_of_nat .
  qed
  then have x1: "f64_of_u64 ms = Finite N" by (simp add: f64_of_u64_def N_def)
  have "\<bar>N * (1 / 1000)\<bar> < 2 ^ 34" using N by simp
  from f64_round_close [OF this] obtain a where a: "f64_round (N * (1 / 1000)) = Finite a"
    "\<bar>a - N * (1 / 1000)\<bar> \<le> 2 ^ 34 / 2 ^ 54" by auto
  have a': "a - N / 1000 \<le> 1 / 1048576" "- (a - N / 1000) \<le> 1 / 1048576"
    using a(2) unfolding abs_le_iff by simp_all
  have "\<bar>a + - SWIFT_REFERENCE_DATE_OFFSET\<bar> < 2 ^ 34"
    using a' N unfolding SWIFT_REFERENCE_DATE_OFFSET_def abs_less_iff by simp
  from f64_round_close [OF this] obtain b where b: "f64_round (a + - SWIFT_REFERENCE_DATE_OFFSET) = Finite b"
    "\<bar>b - (a + - SWIFT_REFERENCE_DATE_OFFSET)\<bar> \<le> 2 ^ 34 / 2 ^ 54" by auto
  have b': "b - (a - 978307200) \<le> 1 / 1048576" "- (b - (a - 978307200)) \<le> 1 / 1048576"
    using b(2) unfolding SWIFT_REFERENCE_DATE_OFFSET_def abs_le_iff by simp_all
  have "\<bar>b + SWIFT_REFERENCE_DATE_OFFSET\<bar> < 2 ^ 34"
    using a' b' N unfolding SWIFT_REFERENCE_DATE_OFFSET_def abs_less_iff by simp
  from f64_round_close [OF this] obtain c where c: "f64_round (b + SWIFT_REFERENCE_DATE_OFFSET) = Finite c"
    "\<bar>c - (b + SWIFT_REFERENCE_DATE_OFFSET)\<bar> \<le> 2 ^ 34 / 2 ^ 54" by auto
  have c': "c - (b + 978307200) \<le> 1 / 1048576" "- (c - (b + 978307200)) \<le> 1 / 1048576"
    using c(2) unfolding SWIFT_REFERENCE_DATE_OFFSET_def abs_le_iff by simp_all
  have near: "max c 0 - N / 1000 \<le> 3 / 1048576" "- (max c 0 - N / 1000) \<le> 3 / 1048576"
    using a' b' c' N(1) by (simp_all add: max_def)
  have "\<bar>max c 0 * 1000\<bar> < 2 ^ 44" using near N unfolding abs_less_iff by simp
  from f64_round_close [OF this] obtain d where d: "f64_round (max c 0 * 1000) = Finite d"
    "\<bar>d - max c 0 * 1000\<bar> \<le> 2 ^ 44 / 2 ^ 54" by auto
  have d': "d - max c 0 * 1000 \<le> 1 / 1024" "- (d - max c 0 * 1000) \<le> 1 / 1024"
    using d(2) unfolding abs_le_iff by simp_all
  have "\<bar>d - N\<bar> < 1 / 2" using d' near unfolding abs_less_iff by simp
  then have "\<bar>d - of_int (int (unat ms))\<bar> < 1 / 2" by (simp add: N_def)
  then have r: "f64_round_int (Finite d) = Finite (of_int (int (unat ms)))" by (rule round_near)
  have "int (unat ms) < 2 ^ 64" using unsigned_less [of ms, where 'a = int] by simp
  then have "f64_as_u64 (Finite (of_int (int (unat ms)))) = word_of_int (int (unat ms))" by (intro as_u64_of_int) auto
  also have "\<dots> = ms" by simp
  finally have "f64_as_u64 (Finite (of_int (int (unat ms)))) = ms" .
  then show ?thesis
    by (simp only: date_of_disk_def date_to_disk_def Let_def x1 f64_scale.simps f64_add.simps f64_max_zero.simps a(1) b(1) c(1) d(1) r)
qed

end
