(* ===== verification/Host_Serve.thy ===== *)
theory Host_Serve
  imports Store_Safety
begin

text \<open>
  The server of the host, \<open>maho-host/src/session.rs\<close>: how \<open>bind\<close> arms the pairing window, which keys
  a new connection is offered (\<open>current_psks\<close>), and the accept loop with its session threads.

  The threads are a state machine: every step of \<open>serve_connection\<close> that looks at what other threads
  can change is an event of its own, and events come in any order. The clock advances between them. Only the
  reading of the stored clients is one event for several looks at the store, and takes the files as they
  are at each of them, for nothing else is shared meanwhile. An
  established session is one phase, whose inside \<open>Host_Session\<close> models. Counters for the recycle watchdog
  of the service are left out.
\<close>

section \<open>Arming the pairing window\<close>

text \<open>\<open>bind\<close>: the PIN is eight digits, the lockout starts a window, and the deadline is set. The sockets and
  the discovery advertisement are left out.\<close>

record pairing_setup =
  ps_lockout :: bootstrap_lockout
  ps_deadline :: "instant option"
  ps_bootstrap :: "psk_identity option"

definition bind_pairing :: "key_derivation \<Rightarrow> host_config \<Rightarrow> instant \<Rightarrow> host_error + pairing_setup" where
  "bind_pairing kd config now =
     (case hcf_bootstrap_pin config of
        None \<Rightarrow> Inr \<lparr>ps_lockout = bootstrap_lockout_default, ps_deadline = None, ps_bootstrap = None\<rparr>
      | Some pin \<Rightarrow>
          if length pin \<noteq> 8 \<or> \<not> list_all (\<lambda>b. 0x30 \<le> b \<and> b \<le> 0x39) pin then Inl InvalidPin
          else case psk_identity_bootstrap kd pin of
                 Inl error \<Rightarrow> Inl (HostTls error)
               | Inr psk \<Rightarrow> Inr \<lparr>ps_lockout = begin_pairing bootstrap_lockout_default,
                     ps_deadline = Some (now + hcf_pairing_window config), ps_bootstrap = Some psk\<rparr>)"

section \<open>The keys on offer\<close>

text \<open>\<open>current_psks\<close> looks at the store once for the list of clients and then once for each of them, and other
  threads may change the files between the looks: \<open>looks n\<close> are the files at its look \<open>n\<close>, which \<open>clock n\<close>
  follows. The list is look 0. A client whose authorization cannot be read is left out; the iterator is
  lazy, so that the first identity that is refused ends it.\<close>

fun flow_bind :: "('e, 'a) io_flow \<Rightarrow> ('a \<Rightarrow> ('e, 'b) io_flow) \<Rightarrow> ('e, 'b) io_flow" where
  "flow_bind (IoDone x) f = f x"
| "flow_bind (IoError e) f = IoError e"
| "flow_bind IoDead f = IoDead"

definition flow_result :: "'e + 'a \<Rightarrow> ('e, 'a) io_flow" where
  "flow_result r = (case r of Inl e \<Rightarrow> IoError e | Inr x \<Rightarrow> IoDone x)"

definition record_valid :: "serde \<Rightarrow> u64 \<Rightarrow> host_pairing \<Rightarrow> bool sm" where
  "record_valid sd unix_ms r = (\<lambda>s. case authorization sd (hpr_id r) s of
       (s, IoDone (trust, _)) \<Rightarrow> (s, IoDone (valid_trust trust unix_ms))
     | (s, IoError _) \<Rightarrow> (s, IoDone False)
     | (s, IoDead) \<Rightarrow> (s, IoDead))"

fun valid_psks ::
  "serde \<Rightarrow> (nat \<Rightarrow> u64) \<Rightarrow> (nat \<Rightarrow> store_io) \<Rightarrow> nat \<Rightarrow> host_pairing list \<Rightarrow> (host_error, psk_identity list) io_flow"
where
  "valid_psks sd clock looks n [] = IoDone []"
| "valid_psks sd clock looks n (r # rs) =
     flow_bind (snd (record_valid sd (clock n) r (looks n))) (\<lambda>valid.
       if \<not> valid then valid_psks sd clock looks (n + 1) rs
       else (case psk_identity_pairing (hpr_id r) (hpr_key r) of
               Inl error \<Rightarrow> IoError (HostTls error)
             | Inr psk \<Rightarrow> flow_bind (valid_psks sd clock looks (n + 1) rs) (\<lambda>psks. IoDone (psk # psks))))"

definition stored_psks ::
  "serde \<Rightarrow> (nat \<Rightarrow> u64) \<Rightarrow> (nat \<Rightarrow> store_io) \<Rightarrow> (host_error, psk_identity list) io_flow" where
  "stored_psks sd clock looks = flow_bind (snd (load_all sd (looks 0))) (valid_psks sd clock looks 1)"

definition deadline_open :: "instant option \<Rightarrow> instant \<Rightarrow> bool" where
  "deadline_open pairing_deadline now \<longleftrightarrow>
     (case pairing_deadline of None \<Rightarrow> False | Some deadline \<Rightarrow> now < deadline)"

definition DISABLED_IDENTITY :: rstring where "DISABLED_IDENTITY = ascii ''maho-disabled''"

definition finish_psks ::
  "bool \<Rightarrow> psk_identity option \<Rightarrow> bytes \<Rightarrow> psk_identity list \<Rightarrow> host_error + psk_identity list" where
  "finish_psks pairing_active bootstrap disabled_key psks =
     (let psks = (if pairing_active then psks @ (case bootstrap of None \<Rightarrow> [] | Some identity \<Rightarrow> [identity]) else psks)
      in if psks = []
         then (case psk_identity_new DISABLED_IDENTITY disabled_key of
                 Inl error \<Rightarrow> Inl (HostTls error)
               | Inr psk \<Rightarrow> Inr [psk])
         else Inr psks)"

definition current_psks ::
  "serde \<Rightarrow> pairing_setup \<Rightarrow> (nat \<Rightarrow> u64) \<Rightarrow> (nat \<Rightarrow> store_io) \<Rightarrow> instant \<Rightarrow> instant \<Rightarrow> bytes \<Rightarrow>
   (host_error, psk_identity list) io_flow" where
  "current_psks sd setup clock looks now now' disabled_key =
     flow_bind (stored_psks sd clock looks) (\<lambda>psks.
     flow_result (finish_psks (deadline_open (ps_deadline setup) now \<and> lockout_is_allowed (ps_lockout setup) now')
       (ps_bootstrap setup) disabled_key psks))"

section \<open>The accept loop and its threads\<close>

datatype thread_phase =
    Started
  | HasKeys "psk_identity list"
  | DeadlinePassed "psk_identity list"
  | PairingChecked bool "psk_identity list"
  | Handshaking bool "(rstring, bytes) hash_map"
  | Serving

text \<open>\<open>Handshaking offered keys\<close>: whether the bootstrap identity is among the keys. \<open>DeadlinePassed\<close> is a
  thread that has found the pairing window open and has yet to ask the lockout. \<open>srv_guesses\<close> counts
  the handshakes that failed with the bootstrap identity on offer; no code reads it.\<close>

record server =
  srv_now :: instant
  srv_deadline :: "instant option"
  srv_bootstrap :: "psk_identity option"
  srv_lockout :: bootstrap_lockout
  srv_active :: usize
  srv_threads :: "(nat \<times> thread_phase) list"
  srv_next :: nat
  srv_guesses :: nat

definition server_start :: "pairing_setup \<Rightarrow> instant \<Rightarrow> server" where
  "server_start setup now = \<lparr>srv_now = now, srv_deadline = ps_deadline setup, srv_bootstrap = ps_bootstrap setup,
     srv_lockout = ps_lockout setup, srv_active = 0, srv_threads = [], srv_next = 0, srv_guesses = 0\<rparr>"

datatype serve_event =
    Accept bool
  | ReadKeys nat "nat \<Rightarrow> store_io" "nat \<Rightarrow> u64"
  | CheckDeadline nat
  | CheckLockout nat
  | StartTls nat bytes
  | TlsEstablished nat
  | TlsFailed nat
  | SessionOver nat

text \<open>A thread that ends drops its permit.\<close>

definition thread_end :: "nat \<Rightarrow> server \<Rightarrow> server" where
  "thread_end c s = s\<lparr>srv_active := srv_active s - 1, srv_threads := AList.delete c (srv_threads s)\<rparr>"

definition thread_to :: "nat \<Rightarrow> thread_phase \<Rightarrow> server \<Rightarrow> server" where
  "thread_to c phase s = s\<lparr>srv_threads := AList.update c phase (srv_threads s)\<rparr>"

text \<open>\<open>Accept spawned\<close>: above the limit the connection is dropped; when the thread cannot be spawned its
  permit is dropped with its closure.\<close>

definition serve_accept :: "bool \<Rightarrow> server \<Rightarrow> server" where
  "serve_accept spawned s =
     (if \<not> srv_active s < MAX_CONCURRENT_CONNECTIONS then s
      else if \<not> spawned then s
      else s\<lparr>srv_active := srv_active s + 1, srv_threads := (srv_next s, Started) # srv_threads s,
             srv_next := srv_next s + 1\<rparr>)"

fun serve_thread :: "serde \<Rightarrow> serve_event \<Rightarrow> thread_phase \<Rightarrow> server \<Rightarrow> server" where
  "serve_thread sd (ReadKeys c looks clock) Started s =
     (case stored_psks sd clock looks of
        IoDone psks \<Rightarrow> thread_to c (HasKeys psks) s
      | _ \<Rightarrow> thread_end c s)"
| "serve_thread sd (CheckDeadline c) (HasKeys psks) s =
     thread_to c (if deadline_open (srv_deadline s) (srv_now s) then DeadlinePassed psks else PairingChecked False psks) s"
| "serve_thread sd (CheckLockout c) (DeadlinePassed psks) s =
     thread_to c (PairingChecked (lockout_is_allowed (srv_lockout s) (srv_now s)) psks) s"
| "serve_thread sd (StartTls c disabled_key) (PairingChecked active psks) s =
     (case finish_psks active (srv_bootstrap s) disabled_key psks of
        Inl _ \<Rightarrow> thread_end c s
      | Inr psks \<Rightarrow>
          (case psk_server_new psks of
             Inl _ \<Rightarrow> thread_end c s
           | Inr keys \<Rightarrow> thread_to c (Handshaking (active \<and> srv_bootstrap s \<noteq> None) keys) s))"
| "serve_thread sd (TlsEstablished c) (Handshaking offered keys) s = thread_to c Serving s"
| "serve_thread sd (TlsFailed c) (Handshaking offered keys) s =
     thread_end c (s\<lparr>srv_lockout := fst (record_failure (srv_lockout s) (srv_now s)),
       srv_guesses := srv_guesses s + (if offered then 1 else 0)\<rparr>)"
| "serve_thread sd (SessionOver c) Serving s = thread_end c s"
| "serve_thread sd _ _ s = s"

fun event_thread :: "serve_event \<Rightarrow> nat option" where
  "event_thread (Accept _) = None"
| "event_thread (ReadKeys c _ _) = Some c"
| "event_thread (CheckDeadline c) = Some c"
| "event_thread (CheckLockout c) = Some c"
| "event_thread (StartTls c _) = Some c"
| "event_thread (TlsEstablished c) = Some c"
| "event_thread (TlsFailed c) = Some c"
| "event_thread (SessionOver c) = Some c"

definition serve_step :: "serde \<Rightarrow> duration \<times> serve_event \<Rightarrow> server \<Rightarrow> server" where
  "serve_step sd = (\<lambda>(passed, event) s.
     let s = s\<lparr>srv_now := srv_now s + passed\<rparr> in
     case event of
       Accept spawned \<Rightarrow> serve_accept spawned s
     | _ \<Rightarrow>
         (case Option.bind (event_thread event) (map_of (srv_threads s)) of
            None \<Rightarrow> s
          | Some phase \<Rightarrow> serve_thread sd event phase s))"

section \<open>The keys are those of valid clients\<close>

lemma flow_bind_IoDone: "flow_bind m f = IoDone x \<longleftrightarrow> (\<exists>y. m = IoDone y \<and> f y = IoDone x)"
  by (cases m) auto

lemma flow_result_IoDone: "flow_result r = IoDone x \<longleftrightarrow> r = Inr x"
  by (cases r) (auto simp: flow_result_def)

lemma valid_psks_outcome:
  assumes "valid_psks sd clock looks n rs = IoDone psks" and "psk \<in> set psks"
  shows "\<exists>m t p s'. m < length rs \<and> hpr_id (rs ! m) \<noteq> [] \<and>
    psk = \<lparr>pi_identity = PAIRING_IDENTITY_PREFIX @ hpr_id (rs ! m), pi_key = hpr_key (rs ! m)\<rparr> \<and>
    authorization sd (hpr_id (rs ! m)) (looks (n + m)) = (s', IoDone (t, p)) \<and> valid_trust t (clock (n + m))"
  using assms
proof (induction rs arbitrary: n psks)
  case (Cons r rs)
  obtain valid where v: "snd (record_valid sd (clock n) r (looks n)) = IoDone valid"
    using Cons.prems(1) by (auto simp: flow_bind_IoDone)
  have later: ?case if "valid_psks sd clock looks (n + 1) rs = IoDone psks'" "psk \<in> set psks'" for psks'
    using Cons.IH [OF that] by (elim exE) (rule exI [where x = "Suc _"], auto)
  show ?case
  proof (cases valid)
    case False
    then show ?thesis using Cons.prems v later by simp
  next
    case True
    then obtain p1 psks' where p: "psk_identity_pairing (hpr_id r) (hpr_key r) = Inr p1"
      "valid_psks sd clock looks (n + 1) rs = IoDone psks'" "psks = p1 # psks'"
      using Cons.prems(1) v by (auto simp: flow_bind_IoDone split: sum.splits)
    show ?thesis
    proof (cases "psk = p1")
      case True
      then have "hpr_id r \<noteq> [] \<and> psk = \<lparr>pi_identity = PAIRING_IDENTITY_PREFIX @ hpr_id r, pi_key = hpr_key r\<rparr>"
        using p(1) by (auto simp: psk_identity_pairing_def psk_identity_new_def split: if_splits)
      moreover obtain s' t q where "authorization sd (hpr_id r) (looks n) = (s', IoDone (t, q))" "valid_trust t (clock n)"
        using v \<open>valid\<close> by (auto simp: record_valid_def split: prod.splits io_flow.splits)
      ultimately show ?thesis by (intro exI [where x = 0] exI [where x = t] exI [where x = q] exI [where x = s']) simp
    next
      case False
      then show ?thesis using later [OF p(2)] Cons.prems(2) p(3) by simp
    qed
  qed
qed simp

lemma stored_psks_outcome:
  assumes "stored_psks sd clock looks = IoDone psks" and "psk \<in> set psks"
  shows "\<exists>rs m t p s'. stored_pairings sd (si_disk (looks 0)) = Some rs \<and> m < length rs \<and> hpr_id (rs ! m) \<noteq> [] \<and>
    psk = \<lparr>pi_identity = PAIRING_IDENTITY_PREFIX @ hpr_id (rs ! m), pi_key = hpr_key (rs ! m)\<rparr> \<and>
    authorization sd (hpr_id (rs ! m)) (looks (Suc m)) = (s', IoDone (t, p)) \<and> valid_trust t (clock (Suc m))"
proof -
  obtain s1 f1 where a: "load_all_unlocked sd (looks 0) = (s1, f1)" by (cases "load_all_unlocked sd (looks 0)")
  with assms(1) obtain rs where rs: "f1 = IoDone rs" "valid_psks sd clock looks 1 rs = IoDone psks"
    by (auto simp: stored_psks_def load_all_def flow_bind_IoDone)
  from load_all_outcome [OF a] rs(1) have "stored_pairings sd (si_disk (looks 0)) = Some rs" by simp
  with valid_psks_outcome [OF rs(2) assms(2)] show ?thesis by auto
qed

lemma server_keys:
  assumes "psk_server_new psks = Inr keys" "map_of keys i = Some key"
  shows "\<exists>psk\<in>set psks. pi_identity psk = i \<and> pi_key psk = key"
proof -
  have "map_of (fold (\<lambda>psk. AList.update (pi_identity psk) (pi_key psk)) psks m) i = Some key \<Longrightarrow>
      map_of m i = Some key \<or> (\<exists>psk\<in>set psks. pi_identity psk = i \<and> pi_key psk = key)" for m
  proof (induction psks arbitrary: m)
    case (Cons psk psks)
    then have "map_of (AList.update (pi_identity psk) (pi_key psk) m) i = Some key \<or>
        (\<exists>psk\<in>set psks. pi_identity psk = i \<and> pi_key psk = key)" by simp
    then show ?case by (auto simp: update_conv' split: if_splits)
  qed simp
  from this [of "[]"] assms show ?thesis by (auto simp: psk_server_new_def Let_def split: if_splits)
qed

lemma psk_server_callback_key:
  "psk_server_callback keys (Some i) n = Some key \<Longrightarrow> key \<noteq> [] \<Longrightarrow> map_of keys i = Some key"
  by (auto simp: psk_server_callback_def split: option.splits if_splits)

text \<open>C15. Which clients get a key. The thread of a new connection looks at the store once for the list of
  clients and once more for each, while other threads run any operations of the store between the looks.
  When its TLS server answers an identity with a key, the identity is that of a client whose key, this very
  one, was on file at the first look; and the trust read for this client is valid by the clock read right
  after, and is the trust the user granted when the client was paired, unless the client was revoked between
  the two looks and its key is gone (the trust read may then be the owner's: the witness has an expired
  guest that gets its key this way). Or the identity is the bootstrap one, with the pairing window open and not
  locked out; or it is the placeholder, when nobody may come. So an expired guest, a guest for one
  session and a client revoked before the first look are refused by OpenSSL already.\<close>

theorem offered_keys_valid:
  assumes "serde_ok sd"
    and "current_psks sd setup clock (\<lambda>n. io_of (world_at sd os ops n) (steps n)) now now' disabled_key = IoDone psks"
    and "psk_server_new psks = Inr keys"
    and "psk_server_callback keys (Some i) n = Some key" and "key \<noteq> []"
  shows "(\<exists>rs m t. stored_pairings sd (stw_disk (world_at sd os ops 0)) = Some rs \<and> m < length rs \<and>
        i = PAIRING_IDENTITY_PREFIX @ hpr_id (rs ! m) \<and> key = hpr_key (rs ! m) \<and> valid_trust t (clock (Suc m)) \<and>
        (map_of (stw_granted (world_at sd os ops (Suc m))) (hpr_id (rs ! m)) = Some t \<or>
         hpr_id (rs ! m) \<notin> world_keys sd (world_at sd os ops (Suc m)) \<and>
         (\<exists>j x. 0 < j \<and> j \<le> Suc m \<and> (StoreRevoke (hpr_id (rs ! m)), x) \<in> set (ops j))))
    \<or> (\<exists>psk. ps_bootstrap setup = Some psk \<and> i = pi_identity psk \<and> key = pi_key psk \<and>
        deadline_open (ps_deadline setup) now \<and> lockout_is_allowed (ps_lockout setup) now')
    \<or> i = DISABLED_IDENTITY \<and> key = disabled_key \<and> length psks = 1"
proof -
  let ?looks = "\<lambda>n. io_of (world_at sd os ops n) (steps n)"
  obtain psk where psk: "psk \<in> set psks" "i = pi_identity psk" "key = pi_key psk"
    using server_keys [OF assms(3) psk_server_callback_key [OF assms(4,5)]] by blast
  let ?active = "deadline_open (ps_deadline setup) now \<and> lockout_is_allowed (ps_lockout setup) now'"
  obtain stored where st: "stored_psks sd clock ?looks = IoDone stored"
    and fin: "finish_psks ?active (ps_bootstrap setup) disabled_key stored = Inr psks"
    using assms(2) by (auto simp: current_psks_def flow_bind_IoDone flow_result_IoDone)
  consider (stored) "psk \<in> set stored" | (bootstrap) "?active" "ps_bootstrap setup = Some psk"
    | (disabled) "pi_identity psk = DISABLED_IDENTITY" "pi_key psk = disabled_key" "length psks = 1"
    using fin psk(1)
    by (auto simp: finish_psks_def Let_def psk_identity_new_def split: if_splits sum.splits option.splits)
  then show ?thesis
  proof cases
    case stored
    from stored_psks_outcome [OF st this] obtain rs m t p s' where
      rs: "stored_pairings sd (stw_disk (world_at sd os ops 0)) = Some rs" "m < length rs" and
      id: "i = PAIRING_IDENTITY_PREFIX @ hpr_id (rs ! m)" "key = hpr_key (rs ! m)" and
      t: "authorization sd (hpr_id (rs ! m)) (?looks (Suc m)) = (s', IoDone (t, p))" "valid_trust t (clock (Suc m))"
      using psk(2,3) by (auto simp: io_of_def)
    have ok: "world_ok sd (world_at sd os ops 0)" by (rule world_at_ok [OF assms(1)])
    let ?id = "hpr_id (rs ! m)" and ?w = "world_at sd os ops (Suc m)"
    from later_trust [OF assms(1) ok loaded_key [OF ok rs(1) nth_mem [OF rs(2)]] world_at_later t(1)] later_op
    have "map_of (stw_granted ?w) ?id = Some t \<or>
      ?id \<notin> world_keys sd ?w \<and> (\<exists>j x. 0 < j \<and> j \<le> Suc m \<and> (StoreRevoke ?id, x) \<in> set (ops j))" by meson
    with rs id t(2) show ?thesis by blast
  qed (use psk in auto)
qed

section \<open>Guesses at the PIN\<close>

text \<open>A thread that may still guess: the bootstrap identity is among its keys or will be, unless the
  lockout closes first.\<close>

fun may_guess :: "bool \<Rightarrow> thread_phase \<Rightarrow> bool" where
  "may_guess active (DeadlinePassed _) = active"
| "may_guess active (PairingChecked allowed _) = allowed"
| "may_guess active (Handshaking offered _) = offered"
| "may_guess active _ = False"

definition guessing :: "server \<Rightarrow> nat" where
  "guessing s = length (filter (\<lambda>(c, phase). may_guess (bl_pairing_active (srv_lockout s)) phase) (srv_threads s))"

definition threads_inv :: "server \<Rightarrow> bool" where
  "threads_inv s \<longleftrightarrow> keys_distinct (srv_threads s) \<and> (\<forall>c\<in>fst ` set (srv_threads s). c < srv_next s) \<and>
     srv_active s = length (srv_threads s) \<and> srv_active s \<le> MAX_CONCURRENT_CONNECTIONS"

text \<open>While the lockout is open: its count is below five, its windows begin more than a minute apart, and
  no more guesses than four in each have failed.\<close>

definition lockout_inv :: "instant \<Rightarrow> server \<Rightarrow> bool" where
  "lockout_inv t0 s \<longleftrightarrow> t0 \<le> srv_now s \<and>
     (bl_pairing_active (srv_lockout s) \<longrightarrow>
        (case bl_failure_window_start (srv_lockout s) of
           None \<Rightarrow> srv_guesses s = 0
         | Some start \<Rightarrow> \<exists>k. t0 + k * PAIRING_ATTEMPT_WINDOW \<le> start \<and> start \<le> srv_now s \<and>
             bl_failure_count (srv_lockout s) \<le> 4 \<and> srv_guesses s \<le> 4 * k + bl_failure_count (srv_lockout s)))"

definition guesses_inv :: "instant \<Rightarrow> server \<Rightarrow> bool" where
  "guesses_inv t0 s \<longleftrightarrow> threads_inv s \<and> lockout_inv t0 s \<and> srv_guesses s + guessing s \<le> 36 \<and>
     (\<forall>deadline. srv_deadline s = Some deadline \<longrightarrow> deadline \<le> t0 + PAIRING_WINDOW)"

lemma filter_length_update:
  assumes "keys_distinct m" "map_of m c = Some old"
  shows "length (filter (\<lambda>(c, v). P v) (AList.update c new m)) + (if P old then 1 else 0) =
    length (filter (\<lambda>(c, v). P v) m) + (if P new then 1 else 0)"
  using assms
proof (induction m)
  case (Cons x m)
  show ?case
  proof (cases "fst x = c")
    case True
    then show ?thesis using Cons.prems by (cases x) auto
  next
    case False
    then have "keys_distinct m" "map_of m c = Some old" using Cons.prems by (cases x; simp add: keys_distinct_def)+
    from Cons.IH [OF this] False show ?thesis by (cases x) auto
  qed
qed simp

lemma filter_length_delete:
  assumes "keys_distinct m" "map_of m c = Some old"
  shows "length (filter (\<lambda>(c, v). P v) (AList.delete c m)) + (if P old then 1 else 0) =
    length (filter (\<lambda>(c, v). P v) m)"
  using assms
proof (induction m)
  case (Cons x m)
  show ?case
  proof (cases "fst x = c")
    case True
    then have "c \<notin> fst ` set m" using Cons.prems by (auto simp: keys_distinct_def)
    then have "AList.delete c m = m" by (force simp: AList.delete_eq filter_id_conv)
    then show ?thesis using True Cons.prems by (cases x) auto
  next
    case False
    then have "keys_distinct m" "map_of m c = Some old" using Cons.prems by (cases x; simp add: keys_distinct_def)+
    from Cons.IH [OF this] False show ?thesis by (cases x) auto
  qed
qed simp

lemma threads_inv_to:
  assumes "threads_inv s" "map_of (srv_threads s) c = Some old"
  shows "threads_inv (thread_to c phase s)"
proof -
  have "c \<in> fst ` set (srv_threads s)" using assms(2) by (force dest: map_of_SomeD)
  then show ?thesis using assms by (auto simp: threads_inv_def thread_to_def length_update dom_update)
qed

lemma threads_inv_end:
  assumes "threads_inv s" "map_of (srv_threads s) c = Some old"
  shows "threads_inv (thread_end c s)"
proof -
  have sub: "fst ` set (AList.delete c (srv_threads s)) \<subseteq> fst ` set (srv_threads s)" by (auto simp: AList.delete_eq)
  then have "\<forall>x\<in>fst ` set (AList.delete c (srv_threads s)). x < srv_next s" using assms(1) unfolding threads_inv_def by blast
  then show ?thesis
    using assms length_delete_present [of "srv_threads s" c old] by (auto simp: threads_inv_def thread_end_def)
qed

lemma guessing_to:
  assumes "threads_inv s" "map_of (srv_threads s) c = Some old"
  shows "guessing (thread_to c phase s) + (if may_guess (bl_pairing_active (srv_lockout s)) old then 1 else 0) =
    guessing s + (if may_guess (bl_pairing_active (srv_lockout s)) phase then 1 else 0)"
  using filter_length_update [of "srv_threads s" c old "may_guess (bl_pairing_active (srv_lockout s))" phase] assms
  by (simp add: guessing_def thread_to_def threads_inv_def)

lemma guessing_end:
  assumes "threads_inv s" "map_of (srv_threads s) c = Some old"
  shows "guessing (thread_end c s) + (if may_guess (bl_pairing_active (srv_lockout s)) old then 1 else 0) = guessing s"
  using filter_length_delete [of "srv_threads s" c old "may_guess (bl_pairing_active (srv_lockout s))"] assms
  by (simp add: guessing_def thread_end_def threads_inv_def)

lemma guessing_le: "threads_inv s \<Longrightarrow> guessing s \<le> 16"
  unfolding guessing_def threads_inv_def MAX_CONCURRENT_CONNECTIONS_def
  by (metis (no_types, lifting) length_filter_le order_trans)

text \<open>While the pairing window is open at most twenty guesses have failed without locking it.\<close>

lemma open_window_guesses:
  assumes inv: "guesses_inv t0 s" and "bl_pairing_active (srv_lockout s)" "deadline_open (srv_deadline s) (srv_now s)"
  shows "srv_guesses s \<le> 20"
proof (cases "bl_failure_window_start (srv_lockout s)")
  case None
  then show ?thesis using assms by (simp add: guesses_inv_def lockout_inv_def)
next
  case (Some start)
  then obtain k where k: "t0 + k * PAIRING_ATTEMPT_WINDOW \<le> start" "start \<le> srv_now s"
    "srv_guesses s \<le> 4 * k + bl_failure_count (srv_lockout s)" "bl_failure_count (srv_lockout s) \<le> 4"
    using assms by (auto simp: guesses_inv_def lockout_inv_def)
  obtain deadline where "srv_now s < deadline" "deadline \<le> t0 + PAIRING_WINDOW"
    using assms by (auto simp: deadline_open_def guesses_inv_def split: option.splits)
  then have "k * PAIRING_ATTEMPT_WINDOW < PAIRING_WINDOW" using k by linarith
  then have "k < 5" by (simp add: PAIRING_ATTEMPT_WINDOW_def PAIRING_WINDOW_def)
  then show ?thesis using k by simp
qed

text \<open>What a failure does to the lockout.\<close>

lemma lockout_inv_failure:
  assumes "lockout_inv t0 s" and "g \<le> srv_guesses s + 1"
  shows "lockout_inv t0 (s\<lparr>srv_lockout := fst (record_failure (srv_lockout s) (srv_now s)), srv_guesses := g\<rparr>)"
proof (cases "bl_pairing_active (fst (record_failure (srv_lockout s) (srv_now s)))")
  case False
  then show ?thesis using assms(1) by (simp add: lockout_inv_def)
next
  case active: True
  then have was: "bl_pairing_active (srv_lockout s)" and unlocked: "\<not> snd (record_failure (srv_lockout s) (srv_now s))"
    by (simp_all add: record_failure_active)
  have t0: "t0 \<le> srv_now s" using assms(1) by (simp add: lockout_inv_def)
  show ?thesis
  proof (cases "bl_failure_window_start (srv_lockout s)")
    case None
    then have "srv_guesses s = 0" using assms(1) was by (simp add: lockout_inv_def)
    then show ?thesis using None t0 assms(2)
      by (auto simp: lockout_inv_def record_failure_def Let_def MAX_PAIRING_ATTEMPTS_def intro!: exI [of _ 0])
  next
    case (Some start)
    then obtain k where k: "t0 + k * PAIRING_ATTEMPT_WINDOW \<le> start" "start \<le> srv_now s"
      "bl_failure_count (srv_lockout s) \<le> 4" "srv_guesses s \<le> 4 * k + bl_failure_count (srv_lockout s)"
      using assms(1) was by (auto simp: lockout_inv_def)
    show ?thesis
    proof (cases "srv_now s - start > PAIRING_ATTEMPT_WINDOW")
      case True
      then have "t0 + (k + 1) * PAIRING_ATTEMPT_WINDOW \<le> srv_now s" using k by simp
      then show ?thesis using True Some k assms(2) t0
        by (auto simp: lockout_inv_def record_failure_def Let_def MAX_PAIRING_ATTEMPTS_def intro!: exI [of _ "k + 1"])
    next
      case False
      then have "bl_failure_count (srv_lockout s) + 1 \<le> 4"
        using unlocked Some by (simp add: record_failure_def Let_def MAX_PAIRING_ATTEMPTS_def split: if_splits)
      then show ?thesis using False Some k assms(2) t0
        by (auto simp: lockout_inv_def record_failure_def Let_def MAX_PAIRING_ATTEMPTS_def intro!: exI [of _ k])
    qed
  qed
qed

lemma thread_fields [simp]:
  "srv_guesses (thread_to c phase s) = srv_guesses s" "srv_guesses (thread_end c s) = srv_guesses s"
  "srv_deadline (thread_to c phase s) = srv_deadline s" "srv_deadline (thread_end c s) = srv_deadline s"
  "srv_lockout (thread_to c phase s) = srv_lockout s" "srv_lockout (thread_end c s) = srv_lockout s"
  "srv_now (thread_to c phase s) = srv_now s" "srv_now (thread_end c s) = srv_now s"
  by (simp_all add: thread_to_def thread_end_def)

lemma lockout_inv_threads [simp]:
  "lockout_inv t0 (thread_to c phase s) = lockout_inv t0 s"
  "lockout_inv t0 (thread_end c s) = lockout_inv t0 s"
  unfolding lockout_inv_def thread_fields by (rule refl)+

lemma guesses_inv_end:
  "guesses_inv t0 s \<Longrightarrow> map_of (srv_threads s) c = Some old \<Longrightarrow> guesses_inv t0 (thread_end c s)"
  using guessing_end [of s c old] threads_inv_end [of s c old] by (auto simp: guesses_inv_def)

text \<open>A phase that may guess no more than the one before keeps the bound.\<close>

lemma guesses_inv_to:
  assumes "guesses_inv t0 s" "map_of (srv_threads s) c = Some old"
    and "may_guess (bl_pairing_active (srv_lockout s)) phase \<Longrightarrow> may_guess (bl_pairing_active (srv_lockout s)) old"
  shows "guesses_inv t0 (thread_to c phase s)"
  using guessing_to [of s c old phase] threads_inv_to [of s c old phase] assms
  by (auto simp: guesses_inv_def split: if_splits)

lemma guessing_mono:
  assumes "\<And>phase. may_guess (bl_pairing_active l) phase \<Longrightarrow> may_guess (bl_pairing_active (srv_lockout s)) phase"
  shows "guessing (s\<lparr>srv_lockout := l, srv_guesses := g\<rparr>) \<le> guessing s"
proof -
  have "length (filter (\<lambda>(c, phase). may_guess (bl_pairing_active l) phase) m) \<le>
      length (filter (\<lambda>(c, phase). may_guess (bl_pairing_active (srv_lockout s)) phase) m)" for m :: "(nat \<times> thread_phase) list"
    using assms by (induction m) auto
  then show ?thesis by (simp add: guessing_def)
qed

lemma may_guess_mono: "(a \<Longrightarrow> b) \<Longrightarrow> may_guess a phase \<Longrightarrow> may_guess b phase"
  by (cases phase) auto

lemma failed_inv:
  assumes inv: "guesses_inv t0 s" and c: "map_of (srv_threads s) c = Some (Handshaking offered keys)"
  shows "guesses_inv t0 (thread_end c (s\<lparr>srv_lockout := fst (record_failure (srv_lockout s) (srv_now s)),
    srv_guesses := srv_guesses s + (if offered then 1 else 0)\<rparr>))" (is "guesses_inv t0 (thread_end c ?s)")
proof -
  have th: "threads_inv ?s" using inv by (simp add: guesses_inv_def threads_inv_def)
  have c': "map_of (srv_threads ?s) c = Some (Handshaking offered keys)" using c by simp
  have "guessing (thread_end c ?s) + (if offered then 1 else 0) = guessing ?s"
    using guessing_end [OF th c'] by simp
  moreover have "guessing ?s \<le> guessing s"
    by (rule guessing_mono, erule may_guess_mono [rotated]) (simp add: record_failure_active)
  moreover have "lockout_inv t0 ?s"
    using inv by (intro lockout_inv_failure) (auto simp: guesses_inv_def)
  ultimately show ?thesis using inv threads_inv_end [OF th c'] by (auto simp: guesses_inv_def)
qed

lemma deadline_inv:
  assumes inv: "guesses_inv t0 s" and c: "map_of (srv_threads s) c = Some (HasKeys psks)"
    and "deadline_open (srv_deadline s) (srv_now s)"
  shows "guesses_inv t0 (thread_to c (DeadlinePassed psks) s)"
proof (cases "bl_pairing_active (srv_lockout s)")
  case True
  have th: "threads_inv (thread_to c (DeadlinePassed psks) s)"
    using inv threads_inv_to [OF _ c] by (simp add: guesses_inv_def)
  from guessing_le [OF th] open_window_guesses [OF inv True assms(3)] inv th show ?thesis
    by (simp add: guesses_inv_def)
next
  case False
  then show ?thesis by (intro guesses_inv_to [OF inv c]) simp
qed

lemma thread_inv:
  assumes inv: "guesses_inv t0 s" and c: "map_of (srv_threads s) c = Some phase" and "event_thread event = Some c"
  shows "guesses_inv t0 (serve_thread sd event phase s)"
proof -
  note to = guesses_inv_to [OF inv c] and over = guesses_inv_end [OF inv c]
  have allowed: "lockout_is_allowed l now \<Longrightarrow> bl_pairing_active l" for l now by (simp add: lockout_is_allowed_def)
  consider (deadline) psks where "event = CheckDeadline c" "phase = HasKeys psks"
    | (failed) offered keys where "event = TlsFailed c" "phase = Handshaking offered keys"
    | (other) "\<And>psks. \<not> (event = CheckDeadline c \<and> phase = HasKeys psks)"
      "\<And>offered keys. \<not> (event = TlsFailed c \<and> phase = Handshaking offered keys)" by blast
  then show ?thesis
  proof cases
    case deadline
    then show ?thesis using deadline_inv [OF inv] to [of "PairingChecked False psks"] c by simp
  next
    case failed
    then show ?thesis using failed_inv [OF inv] c by simp
  next
    case other
    then show ?thesis
      using assms(3) inv c over allowed
      by (cases "(sd, event, phase, s)" rule: serve_thread.cases)
        (auto split: io_flow.splits sum.splits intro!: to)
  qed
qed

lemma accept_inv: "guesses_inv t0 s \<Longrightarrow> guesses_inv t0 (serve_accept spawned s)"
  by (auto simp: serve_accept_def guesses_inv_def threads_inv_def lockout_inv_def guessing_def keys_distinct_def
      split: option.splits)

lemma time_inv: "guesses_inv t0 s \<Longrightarrow> guesses_inv t0 (s\<lparr>srv_now := srv_now s + passed\<rparr>)"
  by (fastforce simp: guesses_inv_def threads_inv_def lockout_inv_def guessing_def split: option.splits)

lemma serve_step_inv:
  assumes "guesses_inv t0 s"
  shows "guesses_inv t0 (serve_step sd x s)"
proof -
  obtain passed event where x: "x = (passed, event)" by (cases x)
  let ?s = "s\<lparr>srv_now := srv_now s + passed\<rparr>"
  have inv: "guesses_inv t0 ?s" using time_inv [OF assms] .
  show ?thesis
  proof (cases "Option.bind (event_thread event) (map_of (srv_threads ?s))")
    case None
    then show ?thesis using accept_inv [OF inv] inv x
      by (cases event) (simp_all add: serve_step_def Let_def)
  next
    case (Some phase)
    then obtain c where c: "event_thread event = Some c" "map_of (srv_threads ?s) c = Some phase"
      by (auto split: bind_splits)
    then have "serve_step sd x s = serve_thread sd event phase ?s"
      using x by (cases event) (simp_all add: serve_step_def Let_def)
    then show ?thesis using thread_inv [OF inv c(2,1)] by simp
  qed
qed

lemma serve_run_inv: "guesses_inv t0 s \<Longrightarrow> guesses_inv t0 (fold (serve_step sd) xs s)"
  by (induction xs arbitrary: s) (auto intro: serve_step_inv)

lemma server_start_inv:
  assumes "bind_pairing kd config t0 = Inr setup" and "hcf_pairing_window config \<le> PAIRING_WINDOW"
  shows "guesses_inv t0 (server_start setup t0)"
  using assms
  by (auto simp: bind_pairing_def guesses_inv_def threads_inv_def lockout_inv_def guessing_def server_start_def
      begin_pairing_def bootstrap_lockout_default_def keys_distinct_def split: option.splits sum.splits if_splits)

text \<open>C7. Guessing the PIN is hopeless. Whatever clients do and however the threads of the server are
  scheduled, in the five minutes of a pairing window at most 36 handshakes that had the PIN on offer fail:
  at most four in each of five counting minutes, and those still running when the window closes or the
  lockout falls, of which there are at most sixteen. At no time are there more threads than permits.\<close>

theorem pin_guesses_bounded:
  assumes "bind_pairing kd config t0 = Inr setup" and "hcf_pairing_window config \<le> PAIRING_WINDOW"
  shows "srv_guesses (fold (serve_step sd) events (server_start setup t0)) \<le> 36 \<and>
    length (srv_threads (fold (serve_step sd) events (server_start setup t0))) \<le> MAX_CONCURRENT_CONNECTIONS"
  using serve_run_inv [OF server_start_inv [OF assms], of sd events] by (auto simp: guesses_inv_def threads_inv_def)

section \<open>Samples\<close>

definition sample_kd :: key_derivation where
  "sample_kd = \<lparr>kd_pbkdf2_hmac = (\<lambda>pin salt rounds n. Some (replicate n 3)), kd_hkdf_sha256 = (\<lambda>ikm salt info n. replicate n 5)\<rparr>"

definition sample_setup :: pairing_setup where
  "sample_setup = \<lparr>ps_lockout = begin_pairing bootstrap_lockout_default, ps_deadline = Some (1000 + PAIRING_WINDOW),
     ps_bootstrap = Some \<lparr>pi_identity = BOOTSTRAP_IDENTITY, pi_key = replicate 32 5\<rparr>\<rparr>"

definition sample_server_config :: host_config where
  "sample_server_config = \<lparr>hcf_bootstrap_pin = Some (ascii ''12345678''), hcf_pairing_window = PAIRING_WINDOW,
     hcf_host_name = ascii ''host'',
     hcf_display = \<lparr>di_desktop_x = 0, di_desktop_y = 0, di_logical_width = 1, di_logical_height = 1,
       di_pixel_width = 1, di_pixel_height = 1, di_scale_factor = f32_one\<rparr>,
     hcf_frames_per_second = 60, hcf_bitrate = 8000000, hcf_capture_audio = False, hcf_consent_sender = False,
     hcf_output_name = None\<rparr>"

lemma sample_bind: "bind_pairing sample_kd sample_server_config 1000 = Inr sample_setup"
  by (simp add: bind_pairing_def sample_server_config_def sample_setup_def psk_identity_bootstrap_def bootstrap_psk_def
      sample_kd_def try_bind_def)

text \<open>A wrong guess is counted.\<close>

definition sample_serve_events :: "(duration \<times> serve_event) list" where
  "sample_serve_events = [(1, Accept True), (1, ReadKeys 0 (\<lambda>_. \<lparr>si_steps = [], si_disk = no_files\<rparr>) (\<lambda>_. 5)),
     (1, CheckDeadline 0), (1, CheckLockout 0), (1, StartTls 0 [1]), (1, TlsFailed 0)]"

lemma pin_guesses_bounded_witness:
  "srv_guesses (fold (serve_step sample_serde) sample_serve_events (server_start sample_setup 1000)) = 1 \<and>
   length (srv_threads (fold (serve_step sample_serde) sample_serve_events (server_start sample_setup 1000))) \<le> 16"
proof -
  have "srv_guesses (fold (serve_step sample_serde) sample_serve_events (server_start sample_setup 1000)) = 1"
    by (simp add: sample_serve_events_def serve_step_def server_start_def sample_setup_def serve_accept_def
        thread_to_def thread_end_def stored_psks_def load_all_def load_all_unlocked_def fs_read_def sm_defs no_files_def
        deadline_open_def PAIRING_WINDOW_def lockout_is_allowed_def begin_pairing_def bootstrap_lockout_default_def
        finish_psks_def psk_server_new_def MAX_CONCURRENT_CONNECTIONS_def)
  moreover have "hcf_pairing_window sample_server_config \<le> PAIRING_WINDOW" by (simp add: sample_server_config_def)
  from pin_guesses_bounded [OF sample_bind this, of sample_serde sample_serve_events]
  have "length (srv_threads (fold (serve_step sample_serde) sample_serve_events (server_start sample_setup 1000))) \<le> 16"
    by (simp add: MAX_CONCURRENT_CONNECTIONS_def)
  ultimately show ?thesis by blast
qed

text \<open>The paired guest of the sample store comes back when its trust has expired, and is revoked between the
  two looks: it gets its key. Without the revocation it would not have got it, and in time it does.\<close>

definition sample_looks :: "(store_op \<times> io_step list) list \<Rightarrow> nat \<Rightarrow> (store_op \<times> io_step list) list" where
  "sample_looks between n = (if n = 0 then sample_store_ops else if n = 1 then between else [])"

lemma sample_looks_io:
  "io_of (world_at sample_serde Linux (sample_looks between) 0) [] = \<lparr>si_steps = [], si_disk = sample_disk\<rparr>"
  "io_of (world_at sample_serde Linux (sample_looks [(StoreRevoke [0x41], [])]) (Suc 0)) [] =
     \<lparr>si_steps = [], si_disk = revoked_disk\<rparr>"
  "io_of (world_at sample_serde Linux (sample_looks []) (Suc 0)) [] = \<lparr>si_steps = [], si_disk = sample_disk\<rparr>"
  by (simp_all add: sample_looks_def sample_world sample_revoke io_of_def del: store_apply.simps)

lemma offered_keys_valid_witness:
  "(\<exists>psks keys. current_psks sample_serde sample_setup (\<lambda>_. 50)
       (\<lambda>n. io_of (world_at sample_serde Linux (sample_looks [(StoreRevoke [0x41], [])]) n) []) (1000 + PAIRING_WINDOW) 0 [1]
         = IoDone psks \<and> psk_server_new psks = Inr keys \<and>
       psk_server_callback keys (Some (PAIRING_IDENTITY_PREFIX @ [0x41])) 256 = Some (replicate 32 7)) \<and>
   \<not> valid_trust (GuestExpiring 9) 50 \<and>
   (\<exists>rs m t. stored_pairings sample_serde sample_disk = Some rs \<and> m < length rs \<and>
     PAIRING_IDENTITY_PREFIX @ [0x41] = PAIRING_IDENTITY_PREFIX @ hpr_id (rs ! m) \<and> replicate 32 7 = hpr_key (rs ! m) \<and>
     valid_trust t 5 \<and>
     map_of (stw_granted (world_at sample_serde Linux (sample_looks []) (Suc m))) (hpr_id (rs ! m)) = Some t)"
proof -
  let ?i = "PAIRING_IDENTITY_PREFIX @ [0x41]"
  let ?late = "\<lambda>n. io_of (world_at sample_serde Linux (sample_looks [(StoreRevoke [0x41], [])]) n) []"
  let ?looks = "\<lambda>n. io_of (world_at sample_serde Linux (sample_looks []) n) []"
  have keys: "psk_server_new [\<lparr>pi_identity = ?i, pi_key = replicate 32 7\<rparr>] = Inr [(?i, replicate 32 7)]"
    by (simp add: psk_server_new_def)
  have key: "psk_server_callback [(?i, replicate 32 7)] (Some ?i) 256 = Some (replicate 32 7)"
    by (simp add: psk_server_callback_def)
  note defs = current_psks_def stored_psks_def load_all_def sample_looks_io sample_load record_valid_def
    sample_authorization revoked_authorization sample_pairing_def psk_identity_pairing_def psk_identity_new_def
    PAIRING_IDENTITY_PREFIX_def try_bind_def finish_psks_def flow_result_def deadline_open_def sample_setup_def
  have "current_psks sample_serde sample_setup (\<lambda>_. 50) ?late (1000 + PAIRING_WINDOW) 0 [1] =
      IoDone [\<lparr>pi_identity = ?i, pi_key = replicate 32 7\<rparr>]"
    by (simp add: defs del: world_at.simps)
  moreover have psks: "current_psks sample_serde sample_setup (\<lambda>_. 5) ?looks (1000 + PAIRING_WINDOW) 0 [1] =
      IoDone [\<lparr>pi_identity = ?i, pi_key = replicate 32 7\<rparr>]"
    by (simp add: defs del: world_at.simps)
  have "?i \<noteq> DISABLED_IDENTITY" by (simp add: PAIRING_IDENTITY_PREFIX_def DISABLED_IDENTITY_def)
  with offered_keys_valid [OF sample_serde_ok psks keys key] 
  have "\<exists>rs m t. stored_pairings sample_serde sample_disk = Some rs \<and> m < length rs \<and>
     ?i = PAIRING_IDENTITY_PREFIX @ hpr_id (rs ! m) \<and> replicate 32 7 = hpr_key (rs ! m) \<and> valid_trust t 5 \<and>
     map_of (stw_granted (world_at sample_serde Linux (sample_looks []) (Suc m))) (hpr_id (rs ! m)) = Some t"
    using sample_store
    by (auto simp: deadline_open_def sample_setup_def sample_looks_def simp del: store_apply.simps split: if_splits)
  ultimately show ?thesis using keys key by auto
qed

end
