(* ===== verification/Host_Sender.thy ===== *)
theory Host_Sender
  imports Udp_Sender
begin

text \<open>
  The thread that sends a session's media, spawned in \<open>handle_connection\<close> of
  \<open>maho-host/src/session.rs\<close>, with the channels between it, the session and the media pipelines: the
  events of each pipeline, the hand-over of a new pipeline with its picture size, the stop signal, the
  switch for audio, and the one slot in which the thread reports that its media failed.

  The thread is a state machine; a step is one operation on a channel. The session and the pipelines
  act between its steps in any order. Sending is a part of the step that received: it touches nothing
  that others see. Blocking is a step that changes nothing. Pipelines are numbered in the order of
  their hand-over. Log lines are left out.
\<close>

section \<open>State\<close>

text \<open>\<open>NativeAudio\<close> carries what \<open>take_fresh\<close> finds in the slot when it is asked.\<close>

datatype media_event =
    Video video_frame
  | Audio bytes
  | NativeAudio "bytes option"
  | Cursor cursor_update
  | MediaError

record media_channel =
  mc_queue :: "media_event list"
  mc_open :: bool

definition media_channel_new :: media_channel where
  "media_channel_new = \<lparr>mc_queue = [], mc_open = True\<rparr>"

definition MEDIA_CHANNEL_BOUND :: usize where "MEDIA_CHANNEL_BOUND = 16"

datatype sender_phase = AtTop | AtStop | AtReceive | MediaLost | AwaitingSwap | Exited

record media_world =
  mw_pipelines :: "media_channel list"
  mw_sizes :: "(u32 \<times> u32) list"
  mw_swaps :: "(nat \<times> u32 \<times> u32) list"
  mw_swap_open :: bool
  mw_stop :: bool
  mw_audio_allowed :: bool
  mw_status :: bool
  mw_phase :: sender_phase
  mw_receiver :: nat
  mw_width :: u32
  mw_height :: u32
  mw_link :: sender_link
  mw_frames :: "(nat \<times> u32 \<times> u32) list"

text \<open>\<open>mw_sizes\<close> remembers the size each pipeline was handed over with, \<open>mw_frames\<close> the pipeline of each
  frame sent and the size it was sent with.\<close>

definition sender_spawn :: "datagram_cipher \<Rightarrow> u32 \<Rightarrow> u32 \<Rightarrow> media_channel \<Rightarrow> bool \<Rightarrow> media_world" where
  "sender_spawn cipher width height channel audio_allowed =
     \<lparr>mw_pipelines = [channel], mw_sizes = [(width, height)], mw_swaps = [], mw_swap_open = True, mw_stop = False,
      mw_audio_allowed = audio_allowed, mw_status = False, mw_phase = AtTop, mw_receiver = 0, mw_width = width,
      mw_height = height, mw_link = \<lparr>sl_sender = udp_sender_default, sl_cipher = cipher, sl_sent = []\<rparr>,
      mw_frames = []\<rparr>"

section \<open>The thread\<close>

definition take_swap :: "media_world \<Rightarrow> media_world" where
  "take_swap w = (case mw_swaps w of
       [] \<Rightarrow> w
     | (r, width, height) # swaps \<Rightarrow>
         w\<lparr>mw_swaps := swaps, mw_receiver := r, mw_width := width, mw_height := height, mw_phase := AtTop\<rparr>)"

fun send_media :: "sender_env \<Rightarrow> instant \<Rightarrow> instant \<Rightarrow> media_event \<Rightarrow> media_world \<Rightarrow> media_world" where
  "send_media env origin send_at (Video frame) w =
     w\<lparr>mw_link := fst (send_frame env (mw_width w) (mw_height w) frame origin send_at (mw_link w)),
       mw_frames := mw_frames w @ [(mw_receiver w, mw_width w, mw_height w)], mw_phase := AtTop\<rparr>"
| "send_media env origin send_at (Audio bs) w =
     (if \<not> mw_audio_allowed w then w\<lparr>mw_phase := AtTop\<rparr>
      else w\<lparr>mw_link := fst (send_audio env bs (mw_link w)), mw_phase := AtTop\<rparr>)"
| "send_media env origin send_at (NativeAudio slot) w =
     (if \<not> mw_audio_allowed w then w\<lparr>mw_phase := AtTop\<rparr>
      else case slot of
             None \<Rightarrow> w\<lparr>mw_phase := AtTop\<rparr>
           | Some pcm \<Rightarrow> w\<lparr>mw_link := fst (send_audio env pcm (mw_link w)), mw_phase := AtTop\<rparr>)"
| "send_media env origin send_at (Cursor cursor) w =
     w\<lparr>mw_link := fst (send_cursor env cursor (mw_link w)), mw_phase := AtTop\<rparr>"
| "send_media env origin send_at MediaError w = w\<lparr>mw_phase := MediaLost\<rparr>"

text \<open>A stop is a message or a dropped sender. An empty open channel is a timeout.\<close>

definition sender_step :: "sender_env \<Rightarrow> instant \<Rightarrow> instant \<Rightarrow> media_world \<Rightarrow> media_world" where
  "sender_step env origin send_at w = (case mw_phase w of
       AtTop \<Rightarrow> if mw_swaps w = [] then w\<lparr>mw_phase := AtStop\<rparr> else take_swap w
     | AtStop \<Rightarrow> if mw_stop w then w\<lparr>mw_phase := Exited\<rparr> else w\<lparr>mw_phase := AtReceive\<rparr>
     | AtReceive \<Rightarrow>
         let channel = mw_pipelines w ! mw_receiver w in
         (case mc_queue channel of
            event # later \<Rightarrow>
              send_media env origin send_at event
                (w\<lparr>mw_pipelines := (mw_pipelines w)[mw_receiver w := channel\<lparr>mc_queue := later\<rparr>]\<rparr>)
          | [] \<Rightarrow> if mc_open channel then w\<lparr>mw_phase := AtTop\<rparr> else w\<lparr>mw_phase := MediaLost\<rparr>)
     | MediaLost \<Rightarrow>
         if mw_swaps w \<noteq> [] then take_swap w
         else w\<lparr>mw_status := True, mw_phase := AwaitingSwap\<rparr>
     | AwaitingSwap \<Rightarrow>
         if mw_swaps w \<noteq> [] then take_swap w
         else if mw_swap_open w then w
         else w\<lparr>mw_phase := Exited\<rparr>
     | Exited \<Rightarrow> w)"

section \<open>The others\<close>

text \<open>\<open>HandOver\<close> is the session's \<open>send\<close> of a new receiver, which fails once the thread is gone;
  \<open>Finish p\<close> the end of a pipeline, stopped or failed; \<open>TakeStatus\<close> the session's \<open>try_recv\<close>.\<close>

datatype world_event =
    SenderRuns instant
  | Produce nat media_event
  | Finish nat
  | HandOver u32 u32
  | AllowAudio bool
  | SignalStop
  | CloseSwaps
  | TakeStatus

fun world_apply :: "sender_env \<Rightarrow> instant \<Rightarrow> world_event \<Rightarrow> media_world \<Rightarrow> media_world" where
  "world_apply env origin (SenderRuns send_at) w = sender_step env origin send_at w"
| "world_apply env origin (Produce p event) w =
     (if p < length (mw_pipelines w) \<and> mc_open (mw_pipelines w ! p) \<and>
         length (mc_queue (mw_pipelines w ! p)) < MEDIA_CHANNEL_BOUND
      then w\<lparr>mw_pipelines := (mw_pipelines w)[p := (mw_pipelines w ! p)\<lparr>mc_queue := mc_queue (mw_pipelines w ! p) @ [event]\<rparr>]\<rparr>
      else w)"
| "world_apply env origin (Finish p) w =
     (if p < length (mw_pipelines w)
      then w\<lparr>mw_pipelines := (mw_pipelines w)[p := (mw_pipelines w ! p)\<lparr>mc_open := False\<rparr>]\<rparr>
      else w)"
| "world_apply env origin (HandOver width height) w =
     (if \<not> mw_swap_open w \<or> mw_phase w = Exited then w
      else w\<lparr>mw_pipelines := mw_pipelines w @ [media_channel_new], mw_sizes := mw_sizes w @ [(width, height)],
             mw_swaps := mw_swaps w @ [(length (mw_pipelines w), width, height)]\<rparr>)"
| "world_apply env origin (AllowAudio allowed) w = w\<lparr>mw_audio_allowed := allowed\<rparr>"
| "world_apply env origin SignalStop w = w\<lparr>mw_stop := True\<rparr>"
| "world_apply env origin CloseSwaps w = w\<lparr>mw_swap_open := False\<rparr>"
| "world_apply env origin TakeStatus w = w\<lparr>mw_status := False\<rparr>"

definition world_run :: "sender_env \<Rightarrow> instant \<Rightarrow> world_event list \<Rightarrow> media_world \<Rightarrow> media_world" where
  "world_run env origin = fold (world_apply env origin)"

section \<open>Sizes\<close>

definition sizes_ok :: "media_world \<Rightarrow> bool" where
  "sizes_ok w \<longleftrightarrow> length (mw_sizes w) = length (mw_pipelines w) \<and> mw_receiver w < length (mw_sizes w) \<and>
     mw_sizes w ! mw_receiver w = (mw_width w, mw_height w) \<and>
     (\<forall>(p, dims)\<in>set (mw_swaps w). p < length (mw_sizes w) \<and> mw_sizes w ! p = dims) \<and>
     (\<forall>(p, dims)\<in>set (mw_frames w). p < length (mw_sizes w) \<and> mw_sizes w ! p = dims)"

lemma sizes_take_swap: "sizes_ok w \<Longrightarrow> sizes_ok (take_swap w)"
  by (auto simp: sizes_ok_def take_swap_def split: list.splits)

lemma sizes_send_media: "sizes_ok w \<Longrightarrow> sizes_ok (send_media env origin send_at event w)"
  by (cases event) (auto simp: sizes_ok_def split: option.splits)

lemma sizes_sender_step: "sizes_ok w \<Longrightarrow> sizes_ok (sender_step env origin send_at w)"
  unfolding sender_step_def Let_def
  by (auto simp: sizes_take_swap split: sender_phase.splits list.splits intro!: sizes_send_media)
    (auto simp: sizes_ok_def)

lemma sizes_apply: "sizes_ok w \<Longrightarrow> sizes_ok (world_apply env origin event w)"
  by (cases event) (simp add: sizes_sender_step, auto simp: sizes_ok_def nth_append)

lemma sizes_run: "sizes_ok w \<Longrightarrow> sizes_ok (world_run env origin events w)"
  unfolding world_run_def by (induction events arbitrary: w) (auto intro: sizes_apply)

lemma sizes_spawn: "sizes_ok (sender_spawn cipher width height channel audio_allowed)"
  by (simp add: sizes_ok_def sender_spawn_def)

text \<open>Every frame is announced with the picture size of the pipeline that made it, also while pipelines are
  exchanged.\<close>

lemma frames_sized:
  "(p, dims) \<in> set (mw_frames (world_run env origin events (sender_spawn cipher width height channel audio_allowed))) \<Longrightarrow>
   mw_sizes (world_run env origin events (sender_spawn cipher width height channel audio_allowed)) ! p = dims"
  using sizes_run [OF sizes_spawn, of env origin events cipher width height channel audio_allowed]
  by (auto simp: sizes_ok_def)

section \<open>Restarts\<close>

text \<open>An event keeps to the order in which the session restarts pipelines: only a pipeline that has been
  replaced ends or reports an error.\<close>

definition newest :: "media_world \<Rightarrow> nat" where
  "newest w = length (mw_pipelines w) - 1"

fun orderly :: "world_event \<Rightarrow> media_world \<Rightarrow> bool" where
  "orderly (Finish p) w = (p < newest w)"
| "orderly (Produce p MediaError) w = (p < newest w)"
| "orderly _ w = True"

fun orderly_run :: "sender_env \<Rightarrow> instant \<Rightarrow> world_event list \<Rightarrow> media_world \<Rightarrow> bool" where
  "orderly_run env origin [] w = True"
| "orderly_run env origin (event # events) w =
     (orderly event w \<and> orderly_run env origin events (world_apply env origin event w))"

definition failing :: "media_channel \<Rightarrow> bool" where
  "failing channel \<longleftrightarrow> \<not> mc_open channel \<or> MediaError \<in> set (mc_queue channel)"

definition seamless :: "media_world \<Rightarrow> bool" where
  "seamless w \<longleftrightarrow> \<not> mw_status w \<and> mw_phase w \<noteq> AwaitingSwap \<and> mw_pipelines w \<noteq> [] \<and>
     mw_receiver w < length (mw_pipelines w) \<and> (\<forall>(p, dims)\<in>set (mw_swaps w). p < length (mw_pipelines w)) \<and>
     last (mw_receiver w # map fst (mw_swaps w)) = newest w \<and>
     (\<forall>p<length (mw_pipelines w). failing (mw_pipelines w ! p) \<longrightarrow> p < newest w) \<and>
     (mw_phase w = MediaLost \<longrightarrow> mw_receiver w < newest w)"

lemma seamless_take_swap: "seamless w \<Longrightarrow> mw_swaps w \<noteq> [] \<Longrightarrow> seamless (take_swap w)"
  by (auto simp: seamless_def take_swap_def newest_def split: list.splits if_splits)

lemma seamless_receive:
  assumes w: "seamless w" and c: "mc_queue (mw_pipelines w ! mw_receiver w) = event # later"
  shows "seamless (send_media env origin send_at event
    (w\<lparr>mw_pipelines := (mw_pipelines w)[mw_receiver w := (mw_pipelines w ! mw_receiver w)\<lparr>mc_queue := later\<rparr>]\<rparr>))"
    (is "seamless (send_media env origin send_at event ?w)")
proof -
  have "failing (mw_pipelines ?w ! p) \<Longrightarrow> failing (mw_pipelines w ! p)" for p
    using w c by (cases "p = mw_receiver w") (auto simp: failing_def seamless_def)
  then have w': "seamless (?w\<lparr>mw_phase := AtTop\<rparr>)" using w by (auto simp: seamless_def newest_def)
  have "event = MediaError \<Longrightarrow> mw_receiver w < newest w"
    using w c by (auto simp: seamless_def failing_def)
  with w' show ?thesis by (cases event) (auto simp: seamless_def newest_def split: option.splits)
qed

lemma seamless_step:
  assumes w: "seamless w"
  shows "seamless (sender_step env origin send_at w)"
proof (cases "mw_phase w")
  case AtReceive
  show ?thesis
  proof (cases "mc_queue (mw_pipelines w ! mw_receiver w)")
    case Nil
    have "\<not> mc_open (mw_pipelines w ! mw_receiver w) \<Longrightarrow> mw_receiver w < newest w"
      using w by (auto simp: seamless_def failing_def)
    then show ?thesis using w AtReceive Nil by (auto simp: sender_step_def seamless_def newest_def)
  next
    case (Cons event later)
    from seamless_receive [OF w this] AtReceive Cons show ?thesis by (simp add: sender_step_def Let_def)
  qed
next
  case AtTop
  then show ?thesis using w seamless_take_swap [OF w] by (auto simp: sender_step_def seamless_def newest_def)
next
  case MediaLost
  then have "mw_swaps w \<noteq> []" using w by (auto simp: seamless_def)
  then show ?thesis using MediaLost seamless_take_swap [OF w] by (simp add: sender_step_def)
qed (use w in \<open>auto simp: sender_step_def seamless_def newest_def\<close>)

lemma seamless_apply:
  assumes w: "seamless w" and o: "orderly event w"
  shows "seamless (world_apply env origin event w)"
proof (cases event)
  case (Produce p x)
  have "x = MediaError \<Longrightarrow> p < newest w" using o Produce by auto
  then show ?thesis using w Produce
    by (auto simp: seamless_def newest_def failing_def nth_list_update split: if_splits)
next
  case (Finish p)
  then show ?thesis using w o by (auto simp: seamless_def newest_def failing_def nth_list_update split: if_splits)
next
  case (HandOver a b)
  have "p < length (mw_pipelines w)" if "failing ((mw_pipelines w @ [media_channel_new]) ! p)"
    "p < Suc (length (mw_pipelines w))" for p
    using that by (cases "p = length (mw_pipelines w)") (auto simp: failing_def media_channel_new_def)
  then show ?thesis using w HandOver by (auto simp: seamless_def newest_def)
qed (use w seamless_step in \<open>auto simp: seamless_def newest_def\<close>)

lemma seamless_run: "seamless w \<Longrightarrow> orderly_run env origin events w \<Longrightarrow> seamless (world_run env origin events w)"
  unfolding world_run_def by (induction events arbitrary: w) (auto intro: seamless_apply)

lemma seamless_spawn: "\<not> failing channel \<Longrightarrow> seamless (sender_spawn cipher width height channel audio_allowed)"
  by (simp add: seamless_def sender_spawn_def newest_def)

text \<open>C10. A restart is seamless. The session hands the new pipeline over before it stops the old one. In
  every interleaving in which only replaced pipelines end or report errors, the sender thread never
  reports a media failure and never waits for a replacement, so a change of the display or of the
  stream options does not end the session.\<close>

theorem restart_seamless:
  assumes "\<not> failing channel"
    and "orderly_run env origin events (sender_spawn cipher width height channel audio_allowed)"
  shows "\<not> mw_status (world_run env origin events (sender_spawn cipher width height channel audio_allowed)) \<and>
    mw_phase (world_run env origin events (sender_spawn cipher width height channel audio_allowed)) \<noteq> AwaitingSwap"
  using seamless_run [OF seamless_spawn [OF assms(1)] assms(2)] by (simp add: seamless_def)

section \<open>The end\<close>

text \<open>How many steps the thread has left once it is told to stop and no pipeline can be handed over.\<close>

definition steps_left :: "media_world \<Rightarrow> nat" where
  "steps_left w = (case mw_phase w of
       AtTop \<Rightarrow> length (mw_swaps w) + 2
     | AtStop \<Rightarrow> 1
     | AtReceive \<Rightarrow> length (mw_swaps w) + 3
     | MediaLost \<Rightarrow> length (mw_swaps w) + 2
     | AwaitingSwap \<Rightarrow> length (mw_swaps w) + 2 - (if mw_swaps w = [] then 1 else 0)
     | Exited \<Rightarrow> 0)"

definition told_to_stop :: "media_world \<Rightarrow> bool" where
  "told_to_stop w \<longleftrightarrow> mw_stop w \<and> \<not> mw_swap_open w"

lemma send_media_fields:
  "mw_stop (send_media env origin send_at event w) = mw_stop w"
  "mw_swap_open (send_media env origin send_at event w) = mw_swap_open w"
  "mw_swaps (send_media env origin send_at event w) = mw_swaps w"
  "mw_phase (send_media env origin send_at event w) \<in> {AtTop, MediaLost}"
  by (cases event; simp split: option.splits)+

lemma steps_left_step:
  assumes "told_to_stop w"
  shows "told_to_stop (sender_step env origin send_at w) \<and> steps_left (sender_step env origin send_at w) \<le> steps_left w - 1"
proof (cases "mw_phase w")
  case AtReceive
  show ?thesis
  proof (cases "mc_queue (mw_pipelines w ! mw_receiver w)")
    case Nil
    then show ?thesis using assms AtReceive by (simp add: sender_step_def told_to_stop_def steps_left_def)
  next
    case (Cons event later)
    define w' where "w' = sender_step env origin send_at w"
    have "w' = send_media env origin send_at event
        (w\<lparr>mw_pipelines := (mw_pipelines w)[mw_receiver w := (mw_pipelines w ! mw_receiver w)\<lparr>mc_queue := later\<rparr>]\<rparr>)"
      using AtReceive Cons by (simp add: w'_def sender_step_def Let_def)
    then have "mw_stop w' = mw_stop w" "mw_swap_open w' = mw_swap_open w" "mw_swaps w' = mw_swaps w"
      "mw_phase w' \<in> {AtTop, MediaLost}" using send_media_fields by simp_all
    then show ?thesis using assms AtReceive unfolding w'_def [symmetric] by (auto simp: told_to_stop_def steps_left_def)
  qed
qed (use assms in \<open>auto simp: sender_step_def told_to_stop_def steps_left_def take_swap_def split: list.splits\<close>)

fun is_run :: "world_event \<Rightarrow> bool" where
  "is_run (SenderRuns _) = True"
| "is_run _ = False"

lemma steps_left_apply:
  assumes "told_to_stop w"
  shows "told_to_stop (world_apply env origin event w) \<and>
    steps_left (world_apply env origin event w) \<le> steps_left w - (if is_run event then 1 else 0)"
  using assms steps_left_step [OF assms]
  by (cases event) (auto simp: told_to_stop_def steps_left_def split: sender_phase.splits)

lemma steps_left_run:
  "told_to_stop w \<Longrightarrow> steps_left (world_run env origin events w) \<le> steps_left w - length (filter is_run events)"
proof (induction events arbitrary: w)
  case (Cons event events)
  note s = steps_left_apply [OF Cons.prems, of env origin event]
  from Cons.IH [OF conjunct1 [OF s]] s show ?case by (auto simp: world_run_def)
qed (simp add: world_run_def)

text \<open>C21. The sender ends. Once the session has signalled the stop and dropped the hand-over channel, the
  thread exits after at most three of its own steps and one for each pipeline still to be handed over,
  whatever it was doing, whatever the pipelines still produce and whether they end or hang.\<close>

theorem sender_exits:
  assumes "mw_stop w" and "\<not> mw_swap_open w" and "length (mw_swaps w) + 3 \<le> length (filter is_run events)"
  shows "mw_phase (world_run env origin events w) = Exited"
proof -
  have "steps_left w \<le> length (mw_swaps w) + 3" by (auto simp: steps_left_def split: sender_phase.splits)
  then have "steps_left (world_run env origin events w) = 0"
    using steps_left_run [of w env origin events] assms by (simp add: told_to_stop_def)
  then show ?thesis by (auto simp: steps_left_def split: sender_phase.splits if_splits)
qed

text \<open>A sample: a pipeline is replaced by a smaller one, then the session ends.\<close>

definition sample_media_env :: sender_env where
  "sample_media_env = \<lparr>se_enc = (\<lambda>_ _ _ _. None), se_unix_ms = (\<lambda>_. 0), se_socket = (\<lambda>_. True)\<rparr>"

definition sample_restart :: "world_event list" where
  "sample_restart = [SenderRuns 0, SenderRuns 0, HandOver 640 480, Finish 0, SenderRuns 0, SenderRuns 0]"

lemma restart_seamless_witness:
  "\<exists>w. w = world_run sample_media_env 0 sample_restart (sender_spawn sample_cipher 1280 720 media_channel_new False) \<and>
     mw_receiver w = 1 \<and> mw_width w = 640 \<and> \<not> mw_status w \<and> mw_phase w \<noteq> AwaitingSwap"
proof -
  let ?w = "sender_spawn sample_cipher 1280 720 media_channel_new False"
  have o: "orderly_run sample_media_env 0 sample_restart ?w"
    by (simp add: sample_restart_def sender_spawn_def sender_step_def newest_def media_channel_new_def)
  have r: "mw_receiver (world_run sample_media_env 0 sample_restart ?w) = 1 \<and>
      mw_width (world_run sample_media_env 0 sample_restart ?w) = 640"
    by (simp add: world_run_def sample_restart_def sender_spawn_def sender_step_def media_channel_new_def take_swap_def)
  have "\<not> failing media_channel_new" by (simp add: failing_def media_channel_new_def)
  from restart_seamless [OF this o] r show ?thesis by simp
qed

lemma sender_exits_witness:
  "mw_phase (world_run sample_media_env 0 [SenderRuns 0, Finish 0, SenderRuns 0, SenderRuns 0]
     (world_run sample_media_env 0 [SenderRuns 0, SignalStop, CloseSwaps]
       (sender_spawn sample_cipher 1280 720 media_channel_new False))) = Exited"
proof -
  let ?w = "world_run sample_media_env 0 [SenderRuns 0, SignalStop, CloseSwaps]
      (sender_spawn sample_cipher 1280 720 media_channel_new False)"
  have "mw_stop ?w \<and> \<not> mw_swap_open ?w \<and> mw_swaps ?w = []"
    by (simp add: world_run_def sender_spawn_def sender_step_def)
  then show ?thesis
    by (intro sender_exits) simp_all
qed

section \<open>Audio\<close>

lemma audio_id_packet: "us_audio_frame_id (sl_sender (fst (send_packet env ty payload l))) = us_audio_frame_id (sl_sender l)"
  by (simp add: send_packet_def Let_def split: prod.splits sum.splits)

lemma audio_id_packets: "us_audio_frame_id (sl_sender (fst (send_packets env ty ps l))) = us_audio_frame_id (sl_sender l)"
proof (induction ps arbitrary: l)
  case (Cons p ps)
  obtain l1 r where s: "send_packet env ty p l = (l1, r)" by (cases "send_packet env ty p l")
  then have "us_audio_frame_id (sl_sender l1) = us_audio_frame_id (sl_sender l)"
    using audio_id_packet [of env ty p l] by simp
  with s Cons show ?case by (simp split: sum.splits)
qed simp

lemma audio_id_frame:
  "us_audio_frame_id (sl_sender (fst (send_frame env width height frame origin send_at l))) = us_audio_frame_id (sl_sender l)"
proof -
  have "send_packet env ty p l = (l', r) \<Longrightarrow> us_audio_frame_id (sl_sender l') = us_audio_frame_id (sl_sender l)" for ty p l l' r
    using audio_id_packet [of env ty p l] by simp
  moreover have "send_packets env ty ps l = (l', r) \<Longrightarrow> us_audio_frame_id (sl_sender l') = us_audio_frame_id (sl_sender l)"
    for ty ps l l' r using audio_id_packets [of env ty ps l] by simp
  ultimately show ?thesis
    by (auto simp: send_frame_def Let_def audio_id_packet split: sum.splits prod.splits)
qed

lemma audio_id_cursor:
  "us_audio_frame_id (sl_sender (fst (send_cursor env cursor l))) = us_audio_frame_id (sl_sender l)"
  by (simp add: send_cursor_def audio_id_packet split: sum.splits)

definition audio_id :: "media_world \<Rightarrow> u32" where
  "audio_id w = us_audio_frame_id (sl_sender (mw_link w))"

lemma audio_id_send: "\<not> mw_audio_allowed w \<Longrightarrow> audio_id (send_media env origin send_at event w) = audio_id w \<and>
    \<not> mw_audio_allowed (send_media env origin send_at event w)"
  by (cases event) (simp_all add: audio_id_def audio_id_frame audio_id_cursor)

lemma audio_id_step: "\<not> mw_audio_allowed w \<Longrightarrow> audio_id (sender_step env origin send_at w) = audio_id w \<and>
    \<not> mw_audio_allowed (sender_step env origin send_at w)"
  using audio_id_send [of "w\<lparr>mw_pipelines := p\<rparr>" for p]
  by (auto simp: sender_step_def Let_def take_swap_def audio_id_def split: sender_phase.splits list.splits)

text \<open>No audio frame is begun between the moment the permission is withdrawn and the next in which it is
  given.\<close>

lemma audio_silent:
  "\<not> mw_audio_allowed w \<Longrightarrow> AllowAudio True \<notin> set events \<Longrightarrow> audio_id (world_run env origin events w) = audio_id w"
proof (induction events arbitrary: w)
  case (Cons event events)
  have "audio_id (world_apply env origin event w) = audio_id w \<and> \<not> mw_audio_allowed (world_apply env origin event w)"
    using Cons.prems audio_id_step [OF Cons.prems(1)] by (cases event) (auto simp: audio_id_def)
  with Cons show ?case by (simp add: world_run_def)
qed (simp add: world_run_def)

end
