(* ===== verification/Host_Cleanup.thy ===== *)
theory Host_Cleanup
  imports Host_Safety Host_Sample
begin

text \<open>
  What a connection undoes at its end: input the guest may still hold down is released, and the guest
  leaves the directory. The locale \<open>view_invariant\<close> collects what holds of every predicate that looks
  only at the input and the guests in the trace, the state, the guest and the mark of injected input.
\<close>

section \<open>Predicates of a view\<close>

fun notable :: "host_effect \<Rightarrow> bool" where
  "notable (Injected _ _) = True"
| "notable (GuestJoined _) = True"
| "notable (GuestLeft _) = True"
| "notable _ = False"

locale view_invariant =
  fixes P :: "host_conn \<Rightarrow> bool"
  assumes same_view: "\<And>s s'. P s \<Longrightarrow> filter notable (hc_trace s') = filter notable (hc_trace s) \<Longrightarrow>
    hc_state s' = hc_state s \<Longrightarrow> hc_guest s' = hc_guest s \<Longrightarrow> hc_injected s' = hc_injected s \<Longrightarrow> P s'"

sublocale view_invariant \<subseteq> quiet_invariant
  by unfold_locales (auto elim: same_view)

context view_invariant
begin

lemma keeps_boring_modify:
  "(\<And>s. hc_trace (f s) = hc_trace s \<and> hc_state (f s) = hc_state s \<and> hc_guest (f s) = hc_guest s \<and>
     hc_injected (f s) = hc_injected s) \<Longrightarrow> keeps P (hmodify f)"
  by (rule keeps_modify) (auto elim: same_view)

lemma keeps_boring_log: "\<not> notable x \<Longrightarrow> keeps P (hlog x)"
  by (rule keeps_log) (auto elim: same_view)

lemmas view_keep = keep quiet_keep keeps_check_stop keeps_check_goodbye keeps_check_admission
  keeps_boring_modify keeps_boring_log

lemma view_set_effective: "keeps P (set_effective p)"
  by (auto simp: keeps_def set_effective_def elim: same_view)

lemma view_drain: "keeps P (drain_commands e cs)"
  by (induction cs rule: drain_commands.induct [of _ e]) (auto intro!: view_keep)

lemma view_check_commands: "keeps P (check_commands e)"
  unfolding check_commands_def
  by (intro view_keep view_drain) (auto split: pairing_trust.split intro!: view_keep)

lemma view_discover_burst: "keeps P (discover_burst e n)"
proof (induction n)
  case (Suc n)
  show ?case
    unfolding discover_burst.simps
    by (intro view_keep, auto split: udp_read.split sum.split intro!: view_keep Suc)
qed (simp add: keep)

lemma view_discover: "keeps P (discover_udp_peer e)"
  unfolding discover_udp_peer_def by (intro view_keep view_discover_burst)

lemma view_start_sender: "keeps P (start_sender e)"
  unfolding start_sender_def
  by (intro view_keep; auto split: bool.split option.split intro!: view_keep)

lemma view_hand_over: "keeps P (hand_over w h)" "keeps P stop_old_pipeline"
  unfolding hand_over_def stop_old_pipeline_def by (intro view_keep; simp)+

lemma view_restart_on: "keeps P (restart_on e d)"
  unfolding restart_on_def by (intro view_keep view_hand_over; simp)

lemma view_check_media: "keeps P (check_media e b)"
  unfolding check_media_def by (intro view_keep view_restart_on; simp)

lemma view_polls:
  "keeps P (poll_image e now)" "keeps P (sync_policy e)" "keeps P (heartbeat e now)" "keeps P (poll_text e now)"
  unfolding poll_image_def sync_policy_def heartbeat_def poll_text_def by (intro view_keep; simp)+

lemma view_ask_consent: "keeps P (ask_consent e name)"
  unfolding ask_consent_def by (intro view_keep; simp)

lemma view_handshake_parts:
  "keeps P (claimed_record e h)" "keeps P (stored_rights e record)" "keeps P (check_identity e h)"
  "keeps P (negotiate e h record)" "keeps P (start_media e)" "keeps P (exchange_trust e fresh)"
  "keeps P (remember_pairing e fresh record)"
  unfolding claimed_record_def stored_rights_def check_identity_def negotiate_def start_media_def
    exchange_trust_def remember_pairing_def
  by (intro view_keep; auto simp: keep split: host_read.split control_message.split)+

lemma view_control_parts:
  "keeps P (handle_image_chunk e chunk)" "keeps P (handle_clipboard_update e u)"
  "keeps P (request_key_frame e)" "keeps P (adjust_bitrate e b)" "keeps P (handle_stream_config e req)"
  unfolding handle_image_chunk_def handle_clipboard_update_def request_key_frame_def adjust_bitrate_def
    handle_stream_config_def
  by (intro view_keep; auto simp: keep split: sum.split option.split intro!: view_keep)+

lemma view_stream_options: "keeps P (handle_stream_options e request)"
  unfolding handle_stream_options_def apply_stream_options_def
  by (intro view_keep view_hand_over; simp)

lemma view_answer_control: "keeps P (answer_control e control)"
  unfolding answer_control_def
  by (cases control) (auto simp: host_only_def intro!: view_keep view_control_parts view_stream_options)

lemma view_control_packet: "keeps P (handle_control_packet e payload)"
  unfolding handle_control_packet_def by (intro view_keep view_answer_control)

lemma view_connection_start: "keeps P (connection_start e)"
  unfolding connection_start_def by (intro view_keep view_set_effective) simp_all

lemma view_sync_permissions:
  "keeps P (inject_input e host_reset_input) \<Longrightarrow> keeps P (sync_permissions e)"
  unfolding sync_permissions_def by (intro view_keep view_set_effective; simp)

lemma view_housekeeping: "keeps P (inject_input e host_reset_input) \<Longrightarrow> keeps P (housekeeping e)"
  unfolding housekeeping_def
  by (intro view_keep view_check_commands view_sync_permissions view_discover view_start_sender view_polls; simp)

end

section \<open>What is left to undo\<close>

text \<open>With \<open>j\<close> the connection is not authenticated yet.\<close>

definition held :: "host_effect list \<Rightarrow> input_event \<Rightarrow> bool" where
  "held tr ev \<longleftrightarrow> Injected ev True \<in> set tr \<and> ev \<noteq> host_reset_input"

definition undo_view :: "bool \<Rightarrow> host_effect list \<Rightarrow> host_state \<Rightarrow> guest_session option \<Rightarrow> bool \<Rightarrow> bool" where
  "undo_view j tr st guest touched \<longleftrightarrow> (j \<longrightarrow> st \<noteq> Authenticated) \<and> (\<forall>ev. held tr ev \<longrightarrow> touched) \<and>
     (\<forall>g. GuestJoined g \<in> set tr \<longrightarrow> guest = Some g \<and> st = Authenticated)"

abbreviation undo_ok :: "bool \<Rightarrow> host_conn \<Rightarrow> bool" where
  "undo_ok j s \<equiv> undo_view j (hc_trace s) (hc_state s) (hc_guest s) (hc_injected s)"

lemma notable_in:
  "filter notable tr' = filter notable tr \<Longrightarrow> notable x \<Longrightarrow> x \<in> set tr' \<longleftrightarrow> x \<in> set tr"
proof -
  assume a: "filter notable tr' = filter notable tr" "notable x"
  then have "x \<in> set (filter notable tr') \<longleftrightarrow> x \<in> set (filter notable tr)" by simp
  with a(2) show ?thesis by simp
qed

lemma undo_view_same:
  "undo_view j tr st guest touched \<Longrightarrow> filter notable tr' = filter notable tr \<Longrightarrow> undo_view j tr' st guest touched"
  using notable_in [of tr' tr] by (simp add: undo_view_def held_def)

interpretation undo: view_invariant "undo_ok j" for j
  by unfold_locales (simp add: undo_view_same)

lemma inject_reset_undo: "keeps (undo_ok j) (inject_input e host_reset_input)"
  by (auto simp: keeps_def inject_input_def hbind_def hthen_def hask_def hlog_def hret_def undo_view_def held_def)

lemma deliver_input_undo: "keeps (undo_ok j) (deliver_input e n ev)"
proof -
  let ?P = "undo_ok j"
  have inject: "hoare ?P (inject_input e ev) (\<lambda>ok s. ?P (s\<lparr>hc_injected := (hc_injected s \<or> ok)\<rparr>)) ?P ?P"
    by (auto simp: hoare_def inject_input_def hbind_def hthen_def hask_def hlog_def hret_def undo_view_def held_def)
  show ?thesis
    unfolding deliver_input_def keeps_iff_hoare
    by (rule hoare_bind, rule inject, rule hoare_then, rule hoare_modify, assumption, fold keeps_iff_hoare)
      (rule undo.keeps_sends)
qed

lemma handle_input_undo: "keeps (undo_ok j) (handle_input e header payload)"
  unfolding handle_input_def by (intro keep undo.quiet_keep deliver_input_undo)

lemma undo_weaken: "undo_ok True s \<Longrightarrow> undo_ok False s"
  by (simp add: undo_view_def)

lemma undo_start: "undo_ok False s \<Longrightarrow> hc_state s \<noteq> Authenticated \<Longrightarrow> undo_ok True s"
  by (simp add: undo_view_def)

lemma grant_pairing_undo: "keeps (undo_ok True) (grant_pairing e name trust)"
  unfolding grant_pairing_def
  by (intro undo.view_keep keeps_modify) (auto simp: undo_view_def)

lemma handle_pairing_request_undo: "keeps (undo_ok True) (handle_pairing_request e payload)"
  unfolding handle_pairing_request_def
  by (intro undo.view_keep undo.view_ask_consent grant_pairing_undo)

text \<open>The one join, of a connection without a guest.\<close>

abbreviation undo_step :: "unit hm \<Rightarrow> bool" where
  "undo_step m \<equiv> hoare (undo_ok True) m (\<lambda>_. undo_ok False) (undo_ok False) (undo_ok False)"

lemma undo_first:
  "keeps (undo_ok True) m \<Longrightarrow> undo_step k \<Longrightarrow> undo_step (hthen m k)"
  "keeps (undo_ok True) n \<Longrightarrow> (\<And>x. undo_step (f x)) \<Longrightarrow> undo_step (hbind n f)"
  by (auto intro: hoare_keeps_then hoare_keeps_bind undo_weaken)

lemma undo_last: "undo_step m \<Longrightarrow> keeps (undo_ok False) k \<Longrightarrow> undo_step (hthen m k)"
  by (auto intro: hoare_then simp: keeps_iff_hoare)

lemma undo_keeps: "keeps (undo_ok True) m \<Longrightarrow> undo_step m"
  unfolding keeps_iff_hoare by (erule hoare_conseq) (auto intro: undo_weaken)

lemma undo_leaf: "undo_step (hfail x)"
  by (rule hoare_fail) (rule undo_weaken)

lemma join_undo:
  "undo_step (hthen (hlog (GuestJoined g)) (hmodify (\<lambda>s. s\<lparr>hc_guest := Some g, hc_state := Authenticated\<rparr>)))"
  by (auto simp: hoare_def hthen_def hbind_def hlog_def hmodify_def undo_view_def held_def)

lemma admit_undo: "undo_step (admit e record)"
  unfolding admit_def Let_def
  by (intro undo_first join_undo undo.view_keep undo.view_set_effective) auto

lemma handle_handshake_undo: "undo_step (handle_handshake e payload)"
proof -
  have rest: "undo_step (hthen (admit e r) k)" if "keeps (undo_ok False) k" for r k
    using admit_undo that by (rule undo_last)
  show ?thesis
    unfolding handle_handshake_def
    by (rule undo_first, rule keep, rule hoare_if, rule undo_leaf, rule undo_first, rule keep, rule undo_first,
        rule undo.view_handshake_parts, clarify)
      (intro undo_first rest undo.view_keep undo.view_handshake_parts; simp)
qed


lemma dispatch_undo: "keeps (undo_ok False) (dispatch e header payload)"
proof -
  have start: "hoare (\<lambda>s. undo_ok False s \<and> s = t) m (\<lambda>_. undo_ok False) (undo_ok False) (undo_ok False)"
    if "hc_state t \<noteq> Authenticated" "undo_step m" for t m
    using that by (auto intro: hoare_conseq [OF that(2)] undo_start)
  have any: "hoare (\<lambda>s. undo_ok False s \<and> s = t) m (\<lambda>_. undo_ok False) (undo_ok False) (undo_ok False)"
    if "keeps (undo_ok False) m" for t m
    using that by (auto intro: hoare_conseq simp: keeps_iff_hoare)
  show ?thesis
    unfolding dispatch_def keeps_iff_hoare
  proof (rule hoare_get)
    fix t
    show "hoare (\<lambda>s. undo_ok False s \<and> s = t) (if \<not> state_allows (hc_state t) (ph_packet_type header)
        then if hc_state t = Authenticated \<and> ph_packet_type header = Handshake_Pkt
             then hfail AlreadyAuthenticated else hcontinue
        else case ph_packet_type header of
          PairingRequest_Pkt \<Rightarrow> handle_pairing_request e payload
        | Handshake_Pkt \<Rightarrow> handle_handshake e payload
        | InputEvent_Pkt \<Rightarrow> handle_input e header payload
        | Control_Pkt \<Rightarrow> handle_control_packet e payload
        | _ \<Rightarrow> hret ()) (\<lambda>_. undo_ok False) (undo_ok False) (undo_ok False)"
      by (cases "hc_state t"; cases "ph_packet_type header")
        (simp_all add: any keep start undo_keeps handle_pairing_request_undo handle_handshake_undo handle_input_undo
          undo.view_control_packet)
  qed
qed

lemma iteration_undo: "keeps (undo_ok False) (iteration e)"
  unfolding iteration_def
  by (intro undo.view_keep undo.view_check_media undo.view_housekeeping inject_reset_undo dispatch_undo)

section \<open>The end\<close>

text \<open>After the trace nothing of it is held down: the last injection is a reset.\<close>

definition input_released :: "host_effect list \<Rightarrow> bool" where
  "input_released tr \<longleftrightarrow> (\<forall>ev. held tr ev \<longrightarrow> (\<exists>pre ok post. tr = pre @ Injected host_reset_input ok # post \<and>
     (\<forall>ev ok. Injected ev ok \<notin> set post)))"

definition guests_left :: "host_effect list \<Rightarrow> bool" where
  "guests_left tr \<longleftrightarrow> (\<forall>g. GuestJoined g \<in> set tr \<longrightarrow> (\<exists>pre. tr = pre @ [GuestLeft g]))"

lemma teardown_runs:
  "\<exists>reset gone s'. fst (connection_teardown e s) = s' \<and>
     hc_trace s' = hc_trace s @ (if hc_pipeline s then [MediaStop] else []) @ reset @ gone \<and>
     (if hc_injected s then \<exists>ok. reset = [Injected host_reset_input ok] else reset = []) \<and>
     gone = (case hc_guest s of Some g \<Rightarrow> [GuestLeft g] | None \<Rightarrow> []) \<and>
     hc_state s' = Closed \<and> \<not> hc_audio_allowed s' \<and> \<not> hc_media_receiver s' \<and> \<not> hc_pipeline s' \<and> \<not> hc_sender s' \<and>
     \<not> hc_sleep_guard s'"
  by (cases "hc_pipeline s"; cases "hc_injected s"; cases "hc_guest s")
    (simp_all add: connection_teardown_def hthen_def hbind_def hmodify_def stop_old_pipeline_def hget_def hwhen_def
      hlog_def hret_def inject_input_def hask_def)


interpretation silent: view_invariant "\<lambda>s. filter notable (hc_trace s) = []"
  by unfold_locales simp

lemma handle_connection_undo:
  fixes e :: host_env
  assumes "handle_connection e fuel = (s, Some r)"
  obtains (start) "filter notable (hc_trace s) = []" "hc_state s \<noteq> Authenticated"
    | (loop) t where "undo_ok False t" "s = fst (connection_teardown e t)"
proof -
  obtain s0 r0 where m: "connection_start e (host_conn_blank e) = (s0, r0)"
    by (cases "connection_start e (host_conn_blank e)")
  have blank: "undo_ok True (host_conn_blank e)" "filter notable (hc_trace (host_conn_blank e)) = []"
    by (simp_all add: host_conn_blank_def undo_view_def held_def Let_def)
  have s0: "undo_ok True s0" "filter notable (hc_trace s0) = []"
    using undo.view_connection_start [of True e] silent.view_connection_start [of e] m blank
    unfolding keeps_def by (metis fst_conv)+
  have "case session_loop e fuel s0 of (s', _) \<Rightarrow> undo_ok False s'"
    using session_loop_hoare [OF iteration_undo [unfolded keeps_iff_hoare] undo_weaken [OF s0(1)], where n = fuel and e = e]
    by (auto split: prod.splits option.splits)
  with assms m s0 start loop show thesis
    by (cases r0) (auto simp: handle_connection_def undo_view_def split: prod.splits option.splits)
qed

lemma quiet_trace: "filter notable tr = [] \<Longrightarrow> input_released tr \<and> guests_left tr"
  by (auto simp: filter_empty_conv input_released_def guests_left_def held_def)

lemma teardown_released:
  assumes "undo_ok False t"
  shows "input_released (hc_trace (fst (connection_teardown e t))) \<and> guests_left (hc_trace (fst (connection_teardown e t))) \<and>
    hc_state (fst (connection_teardown e t)) = Closed"
proof -
  define stop where "stop = (if hc_pipeline t then [MediaStop] else [])"
  then have stop: "set stop \<subseteq> {MediaStop}" by auto
  obtain reset gone where run: "hc_trace (fst (connection_teardown e t)) = hc_trace t @ stop @ reset @ gone"
      "hc_state (fst (connection_teardown e t)) = Closed"
      and reset: "if hc_injected t then \<exists>ok. reset = [Injected host_reset_input ok] else reset = []"
      and gone: "gone = (case hc_guest t of Some g \<Rightarrow> [GuestLeft g] | None \<Rightarrow> [])"
    using teardown_runs [of e t, folded stop_def] by metis
  have "input_released (hc_trace t @ stop @ reset @ gone)"
  proof (cases "hc_injected t")
    case True
    with reset obtain ok where "reset = [Injected host_reset_input ok]" by auto
    moreover have "Injected ev ok \<notin> set gone" for ev ok using gone by (auto split: option.splits)
    ultimately show ?thesis
      unfolding input_released_def
      by (intro allI impI exI [of _ "hc_trace t @ stop"] exI [of _ ok] exI [of _ gone]) auto
  next
    case False
    with reset gone stop assms have "\<not> held (hc_trace t @ stop @ reset @ gone) ev" for ev
      by (auto simp: undo_view_def held_def split: option.splits)
    then show ?thesis by (simp add: input_released_def)
  qed
  moreover have "guests_left (hc_trace t @ stop @ reset @ gone)"
    using assms gone reset stop by (auto simp: guests_left_def undo_view_def split: option.splits if_splits)
  ultimately show ?thesis using run by simp
qed

text \<open>C9. A connection that ends leaves nothing behind, however it ends. If its input has moved the
  machine, the last thing injected is a reset, which releases every key and button still down; a
  guest who joined the directory has left it, as the last effect of all; and the connection is no
  longer authenticated.\<close>

theorem host_releases_input:
  assumes "handle_connection e fuel = (s, Some r)"
  shows "input_released (hc_trace s) \<and> guests_left (hc_trace s) \<and> hc_state s \<noteq> Authenticated"
  using assms
proof (cases rule: handle_connection_undo)
  case start
  then show ?thesis by (simp add: quiet_trace)
next
  case (loop t)
  then show ?thesis using teardown_released [of t e] by simp
qed

lemma host_releases_input_witness:
  "\<exists>s pre. handle_connection sample_env 3 = (s, Some (Inr ())) \<and> held (hc_trace s) sample_key \<and>
     hc_trace s = pre @ [Injected host_reset_input True, GuestLeft sample_joiner] \<and> input_released (hc_trace s)"
proof -
  obtain s pre where s: "handle_connection sample_env 3 = (s, Some (Inr ()))" "Injected sample_key True \<in> set pre"
      "hc_trace s = pre @ [Injected host_reset_input True, GuestLeft sample_joiner]"
    using host_sample_end by blast
  from host_releases_input [OF s(1)] have "input_released (hc_trace s)" by simp
  moreover have "sample_key \<noteq> host_reset_input" by (simp add: sample_key_def host_reset_input_def)
  ultimately show ?thesis using s by (auto simp: held_def)
qed

end
