(* ===== verification/Client_Store.thy ===== *)
theory Client_Store
  imports Client_Session File_Io F64 Relay_Wire
begin

text \<open>
  The pairing store of the client, \<open>maho-app/src/pairing.rs\<close>: a JSON file of the hosts it is paired with,
  or a list in memory. The file is replaced through a temporary file of a name of its own; a file of the
  time before the rename is taken over when there is none.

  JSON and base64 are parameters (\<open>client_serde\<close>); what the code's own (de)serializers do to a key, a date
  and a trust is modelled. The operations are programs of \<open>File_Io\<close> over a map from paths to contents; a
  path is the list of its components. File modes are not modelled, \<open>Path::exists\<close> answers truthfully, and
  no other process writes during a call, which the lock file is for. The keychain of Apple's systems is
  left out.
\<close>

section \<open>Records\<close>

record pairing_endpoint =
  pe_host :: rstring
  pe_tcp_port :: u16
  pe_udp_port :: u16

record client_record = pairing_record +
  cr_added_at_unix_ms :: u64
  cr_last_endpoint :: "pairing_endpoint option"
  cr_endpoint_aliases :: "pairing_endpoint list"
  cr_relay_url :: "rstring option"
  cr_relay_host_id :: "rstring option"

text \<open>What \<open>serde_json\<close> makes of a record before the deserializers of the source see it.\<close>

datatype json_key = KeyString rstring | KeyBytes bytes

datatype json_number = JsonI64 u64 | JsonU64 u64 | JsonF64 f64

record json_pairing =
  jp_id :: rstring
  jp_name :: rstring
  jp_key :: json_key
  jp_added_at :: "json_number option"
  jp_last_endpoint :: "pairing_endpoint option"
  jp_endpoint_aliases :: "pairing_endpoint list"
  jp_relay_url :: "rstring option"
  jp_relay_host_id :: "rstring option"
  jp_trust :: "bytes option"

record client_serde =
  js_parse :: "bytes \<Rightarrow> json_pairing list option"
  js_print :: "json_pairing list \<Rightarrow> bytes option"
  js_base64_decode :: "rstring \<Rightarrow> bytes option"
  js_base64_encode :: "bytes \<Rightarrow> rstring"

text \<open>\<open>str::trim\<close>: the white space of Unicode in UTF-8.\<close>

definition WHITESPACE :: "bytes list" where
  "WHITESPACE = map (\<lambda>b. [b]) [9, 10, 11, 12, 13, 32] @ [[0xC2, 0x85], [0xC2, 0xA0], [0xE1, 0x9A, 0x80]] @
     map (\<lambda>b. [0xE2, 0x80, b]) ([0x80, 0x81, 0x82, 0x83, 0x84, 0x85, 0x86, 0x87, 0x88, 0x89, 0x8A] @ [0xA8, 0xA9, 0xAF]) @
     [[0xE2, 0x81, 0x9F], [0xE3, 0x80, 0x80]]"

function trim_start :: "bytes list \<Rightarrow> bytes \<Rightarrow> bytes" where
  "trim_start ws bs =
     (case find (\<lambda>w. w \<noteq> [] \<and> starts_with bs w) ws of
        None \<Rightarrow> bs
      | Some w \<Rightarrow> trim_start ws (drop (length w) bs))"
  by pat_completeness auto
termination
proof (relation "measure (\<lambda>(ws, bs). length bs)", goal_cases)
  case (2 ws bs w)
  then have "w \<noteq> []" "starts_with bs w" by (auto simp: find_Some_iff)
  then show ?case by (cases bs; cases w) (auto simp: starts_with_def)
qed simp

declare trim_start.simps [simp del]

definition trim :: "rstring \<Rightarrow> rstring" where
  "trim s = rev (trim_start (map rev WHITESPACE) (rev (trim_start WHITESPACE s)))"

definition deserialize_key :: "client_serde \<Rightarrow> json_key \<Rightarrow> bytes option" where
  "deserialize_key js k = (case k of
       KeyString value \<Rightarrow> js_base64_decode js (trim value)
     | KeyBytes bs \<Rightarrow> Some bs)"

text \<open>Seconds from 1970 to 2001, the reference date of Swift.\<close>

definition SWIFT_REFERENCE_OFFSET :: rat where "SWIFT_REFERENCE_OFFSET = 978307200"

fun f64_above :: "rat \<Rightarrow> f64 \<Rightarrow> bool" where
  "f64_above c (Finite x) = (c < x)"
| "f64_above c (Infinite negative) = (\<not> negative)"
| "f64_above c NaN = False"

definition deserialize_added_at :: "json_number \<Rightarrow> u64" where
  "deserialize_added_at n = (case n of
       JsonI64 value \<Rightarrow> if value <s 0 then 0 else value
     | JsonU64 value \<Rightarrow> value
     | JsonF64 value \<Rightarrow>
         if f64_above 1000000000000 value then f64_as_u64 value
         else if f64_above 1000000000 value then f64_as_u64 (f64_scale 1000 value)
         else f64_as_u64 (f64_scale 1000 (f64_max_zero (f64_add value (Finite SWIFT_REFERENCE_OFFSET)))))"

definition serialize_added_at :: "u64 \<Rightarrow> f64" where
  "serialize_added_at value = f64_add (f64_scale (1 / 1000) (f64_of_u64 value)) (Finite (- SWIFT_REFERENCE_OFFSET))"

definition record_of_json :: "client_serde \<Rightarrow> json_pairing \<Rightarrow> client_record option" where
  "record_of_json js j =
     Option.bind (deserialize_key js (jp_key j)) (\<lambda>key.
     Option.bind (case jp_trust j of
         None \<Rightarrow> Some pairing_trust_default
       | Some bs \<Rightarrow> (case decode_pairing_trust bs of Inl _ \<Rightarrow> None | Inr trust \<Rightarrow> Some trust)) (\<lambda>trust.
     Some \<lparr>pr_id = jp_id j, pr_name = jp_name j, pr_key = key, pr_trust = trust,
       cr_added_at_unix_ms = (case jp_added_at j of None \<Rightarrow> 0 | Some n \<Rightarrow> deserialize_added_at n),
       cr_last_endpoint = jp_last_endpoint j, cr_endpoint_aliases = jp_endpoint_aliases j,
       cr_relay_url = jp_relay_url j, cr_relay_host_id = jp_relay_host_id j\<rparr>))"

definition json_of_record :: "client_serde \<Rightarrow> client_record \<Rightarrow> json_pairing option" where
  "json_of_record js r = (case encode_pairing_trust (pr_trust r) of
       Inl _ \<Rightarrow> None
     | Inr trust \<Rightarrow> Some \<lparr>jp_id = pr_id r, jp_name = pr_name r, jp_key = KeyString (js_base64_encode js (pr_key r)),
         jp_added_at = Some (JsonF64 (serialize_added_at (cr_added_at_unix_ms r))),
         jp_last_endpoint = cr_last_endpoint r, jp_endpoint_aliases = cr_endpoint_aliases r,
         jp_relay_url = cr_relay_url r, jp_relay_host_id = cr_relay_host_id r, jp_trust = Some trust\<rparr>)"

definition key_array :: "client_record \<Rightarrow> pairing_store_error + bytes" where
  "key_array r =
     (if length (pr_key r) = PAIRING_KEY_SIZE then Inr (pr_key r) else Inl (StoreInvalidKeyLength (length (pr_key r))))"

section \<open>Paths and files\<close>

type_synonym path = "rstring list"

definition path_parent :: "path \<Rightarrow> path option" where
  "path_parent p = (if p = [] then None else Some (butlast p))"

definition path_file_name :: "path \<Rightarrow> rstring option" where
  "path_file_name p = (if p = [] then None else Some (last p))"

definition with_file_name :: "path \<Rightarrow> rstring \<Rightarrow> path" where
  "with_file_name p name = butlast p @ [name]"

type_synonym client_disk = "path \<Rightarrow> bytes option"
type_synonym 'a cm = "(client_disk, pairing_store_error, 'a) fio"

text \<open>Questions that cannot fail, a new file, its removal, and the value of an error.\<close>

definition fs_exists :: "path \<Rightarrow> bool cm" where
  "fs_exists p = (\<lambda>s. (s, IoDone (si_disk s p \<noteq> None)))"

definition open_private_new :: "path \<Rightarrow> unit cm" where
  "open_private_new p = (\<lambda>s. case next_step s of
       (s, IoFine) \<Rightarrow> if si_disk s p = None then (s\<lparr>si_disk := (si_disk s)(p \<mapsto> [])\<rparr>, IoDone ())
                     else (s, IoError (StoreIo IoAlreadyExists))
     | (s, IoFails error _) \<Rightarrow> (s, IoError (StoreIo error))
     | (s, IoDies n) \<Rightarrow> (if n = 0 \<or> si_disk s p \<noteq> None then s else s\<lparr>si_disk := (si_disk s)(p \<mapsto> [])\<rparr>, IoDead))"

definition remove_file :: "path \<Rightarrow> unit cm" where
  "remove_file p = fs_once StoreIo (\<lambda>d. d(p := None))"

definition stry :: "'a cm \<Rightarrow> (pairing_store_error + 'a) cm" where
  "stry m = (\<lambda>s. case m s of
       (s, IoDone x) \<Rightarrow> (s, IoDone (Inr x))
     | (s, IoError error) \<Rightarrow> (s, IoDone (Inl error))
     | (s, IoDead) \<Rightarrow> (s, IoDead))"

definition write_private_and_swap :: "path \<Rightarrow> bytes \<Rightarrow> path \<Rightarrow> unit cm" where
  "write_private_and_swap temporary bs p =
     sthen (fs_write StoreIo (\<lambda>n d. d(temporary \<mapsto> take n bs)) (\<lambda>d. d(temporary \<mapsto> bs))) (
     sthen (fs_other StoreIo) (
     sthen (fs_once StoreIo (\<lambda>d. d(p := d temporary, temporary := None))) (
     fs_other StoreIo)))"

text \<open>The first candidate that does not exist yet.\<close>

fun open_temporary :: "path list \<Rightarrow> path cm" where
  "open_temporary [] = sfail (StoreIo IoAlreadyExists)"
| "open_temporary (candidate # candidates) =
     sbind (stry (open_private_new candidate)) (\<lambda>r.
     case r of
       Inr _ \<Rightarrow> sret candidate
     | Inl error \<Rightarrow> if error = StoreIo IoAlreadyExists then open_temporary candidates else sfail error)"

definition file_stem :: "path \<Rightarrow> rstring" where
  "file_stem p = (case path_file_name p of None \<Rightarrow> ascii ''pairings'' | Some name \<Rightarrow> name)"

text \<open>\<open>rnd\<close> has the random numbers of the eight attempts.\<close>

definition write_records :: "client_serde \<Rightarrow> (nat \<Rightarrow> u32) \<Rightarrow> path \<Rightarrow> client_record list \<Rightarrow> unit cm" where
  "write_records js rnd p records =
     (case path_parent p of
        None \<Rightarrow> sfail (StoreIo IoInvalidInput)
      | Some parent \<Rightarrow>
          sthen (fs_other StoreIo) (
          case Option.bind (those (map (json_of_record js) records)) (js_print js) of
            None \<Rightarrow> sfail StoreJson
          | Some bs \<Rightarrow>
              sbind (open_temporary (map (\<lambda>n. parent @ [ascii ''.'' @ file_stem p @ ascii ''.'' @
                  decimal (unat (rnd n)) @ ascii ''.tmp'']) [0..<8])) (\<lambda>temporary.
              sbind (stry (write_private_and_swap temporary bs p)) (\<lambda>r.
              case r of
                Inr _ \<Rightarrow> sret ()
              | Inl error \<Rightarrow> sbind (stry (remove_file temporary)) (\<lambda>_. sfail error)))))"

definition read_file_records :: "client_serde \<Rightarrow> path \<Rightarrow> client_record list cm" where
  "read_file_records js p =
     sbind (fs_read StoreIo (\<lambda>d. d p)) (\<lambda>contents.
     case contents of
       None \<Rightarrow> sret []
     | Some bs \<Rightarrow>
         (case Option.bind (js_parse js bs) (\<lambda>records. those (map (record_of_json js) records)) of
            None \<Rightarrow> sfail StoreJson
          | Some records \<Rightarrow> sret (filter (\<lambda>r. \<exists>key. key_array r = Inr key) records)))"

definition legacy_migration_candidates :: "path \<Rightarrow> path list" where
  "legacy_migration_candidates p =
     with_file_name p (ascii ''pairing-keys.json'') #
     (case path_parent p of
        None \<Rightarrow> []
      | Some parent \<Rightarrow>
          let legacy_dir = with_file_name parent (ascii ''EclipticRD'')
          in if legacy_dir = parent then []
             else (case path_file_name p of None \<Rightarrow> [] | Some name \<Rightarrow> [legacy_dir @ [name]]) @
                  [legacy_dir @ [ascii ''pairing-keys.json'']])"

section \<open>The store\<close>

fun migrate :: "client_serde \<Rightarrow> (nat \<Rightarrow> u32) \<Rightarrow> path \<Rightarrow> path list \<Rightarrow> client_record list cm" where
  "migrate js rnd p [] = read_file_records js p"
| "migrate js rnd p (legacy_path # later) =
     sbind (fs_exists legacy_path) (\<lambda>found.
     if \<not> found \<or> legacy_path = p then migrate js rnd p later
     else
     sbind (read_file_records js legacy_path) (\<lambda>records.
     if records = [] then migrate js rnd p later
     else sthen (write_records js rnd p records) (sret records)))"

definition load_file :: "client_serde \<Rightarrow> (nat \<Rightarrow> u32) \<Rightarrow> path \<Rightarrow> client_record list cm" where
  "load_file js rnd p =
     sbind (fs_exists p) (\<lambda>found.
     if found then read_file_records js p else migrate js rnd p (legacy_migration_candidates p))"

text \<open>\<open>StoreFileLock::acquire\<close>: making the directory, opening the file, locking it.\<close>

definition acquire_lock :: "unit cm" where
  "acquire_lock = sthen (fs_other StoreIo) (sthen (fs_other StoreIo) (fs_other StoreIo))"

definition load_record :: "client_serde \<Rightarrow> (nat \<Rightarrow> u32) \<Rightarrow> path \<Rightarrow> rstring \<Rightarrow> client_record option cm" where
  "load_record js rnd p i = sbind (load_file js rnd p) (\<lambda>records. sret (find (\<lambda>r. pr_id r = i) records))"

definition eq_ignore_ascii_case :: "rstring \<Rightarrow> rstring \<Rightarrow> bool" where
  "eq_ignore_ascii_case a b \<longleftrightarrow> map to_ascii_lowercase a = map to_ascii_lowercase b"

definition find_by_host :: "client_serde \<Rightarrow> (nat \<Rightarrow> u32) \<Rightarrow> path \<Rightarrow> rstring \<Rightarrow> client_record option cm" where
  "find_by_host js rnd p host_name =
     sbind (load_file js rnd p) (\<lambda>records.
     sret (find (\<lambda>r. eq_ignore_ascii_case (pr_name r) host_name \<or> pr_id r = host_name) (rev records)))"

text \<open>\<open>rnd\<close> are the numbers drawn by a migration, \<open>rnd'\<close> those of the write after it.\<close>

definition save_record :: "client_serde \<Rightarrow> (nat \<Rightarrow> u32) \<Rightarrow> (nat \<Rightarrow> u32) \<Rightarrow> path \<Rightarrow> client_record \<Rightarrow> unit cm" where
  "save_record js rnd rnd' p r =
     sbind (sresult (key_array r)) (\<lambda>_.
     sthen acquire_lock (
     sbind (load_file js rnd p) (\<lambda>records.
     write_records js rnd' p (filter (\<lambda>existing. pr_id existing \<noteq> pr_id r) records @ [r]))))"

definition delete_record :: "client_serde \<Rightarrow> (nat \<Rightarrow> u32) \<Rightarrow> (nat \<Rightarrow> u32) \<Rightarrow> path \<Rightarrow> rstring \<Rightarrow> unit cm" where
  "delete_record js rnd rnd' p i =
     sthen acquire_lock (
     sbind (load_file js rnd p) (\<lambda>records.
     write_records js rnd' p (filter (\<lambda>r. pr_id r \<noteq> i) records)))"

definition MAX_ENDPOINT_ALIASES :: usize where "MAX_ENDPOINT_ALIASES = 16"

definition update_record_endpoint :: "pairing_endpoint \<Rightarrow> client_record \<Rightarrow> client_record" where
  "update_record_endpoint endpoint r =
     (let aliases = filter (\<lambda>a. a \<noteq> endpoint) (cr_endpoint_aliases r);
          aliases = (case cr_last_endpoint r of
              Some prev \<Rightarrow> if prev \<noteq> endpoint \<and> prev \<notin> set aliases then aliases @ [prev] else aliases
            | None \<Rightarrow> aliases);
          aliases = drop (length aliases - MAX_ENDPOINT_ALIASES) aliases
      in r\<lparr>cr_endpoint_aliases := aliases, cr_last_endpoint := Some endpoint\<rparr>)"

text \<open>The first record of an identifier is changed in place.\<close>

fun update_first :: "('a \<Rightarrow> bool) \<Rightarrow> ('a \<Rightarrow> 'a) \<Rightarrow> 'a list \<Rightarrow> 'a list" where
  "update_first P f [] = []"
| "update_first P f (x # xs) = (if P x then f x # xs else x # update_first P f xs)"

definition remember_in :: "rstring \<Rightarrow> bytes \<Rightarrow> pairing_endpoint \<Rightarrow> client_record list \<Rightarrow> client_record list option" where
  "remember_in i expected_key endpoint records = (case find (\<lambda>r. pr_id r = i) records of
       None \<Rightarrow> None
     | Some r \<Rightarrow> if pr_key r \<noteq> expected_key then None
                else Some (update_first (\<lambda>r. pr_id r = i) (update_record_endpoint endpoint) records))"

definition remember_endpoint ::
  "client_serde \<Rightarrow> (nat \<Rightarrow> u32) \<Rightarrow> (nat \<Rightarrow> u32) \<Rightarrow> path \<Rightarrow> rstring \<Rightarrow> bytes \<Rightarrow> pairing_endpoint \<Rightarrow> bool cm" where
  "remember_endpoint js rnd rnd' p i expected_key endpoint =
     sthen acquire_lock (
     sbind (load_file js rnd p) (\<lambda>records.
     case remember_in i expected_key endpoint records of
       None \<Rightarrow> sret False
     | Some records \<Rightarrow> sthen (write_records js rnd' p records) (sret True)))"

section \<open>The store in memory\<close>

definition ephemeral_save :: "client_record \<Rightarrow> client_record list \<Rightarrow> client_record list \<times> (pairing_store_error + unit)" where
  "ephemeral_save r records = (case key_array r of
       Inl error \<Rightarrow> (records, Inl error)
     | Inr _ \<Rightarrow> (filter (\<lambda>existing. pr_id existing \<noteq> pr_id r) records @ [r], Inr ()))"

definition ephemeral_delete :: "rstring \<Rightarrow> client_record list \<Rightarrow> client_record list" where
  "ephemeral_delete i records = filter (\<lambda>r. pr_id r \<noteq> i) records"

definition ephemeral_remember ::
  "rstring \<Rightarrow> bytes \<Rightarrow> pairing_endpoint \<Rightarrow> client_record list \<Rightarrow> client_record list \<times> bool" where
  "ephemeral_remember i expected_key endpoint records = (case remember_in i expected_key endpoint records of
       None \<Rightarrow> (records, False)
     | Some records \<Rightarrow> (records, True))"

end
