(* ===== verification/Client_Store_Safety.thy ===== *)
theory Client_Store_Safety
  imports Client_Store "HOL-Library.Countable"
begin

text \<open>
  The pairing store of the client keeps its promises through failures and crashes: the view of a disk,
  the list of hosts a load returns, changes only from the one before a call to the one after it, and the
  take-over of an older file does not change it. Dates are exact until 2032.
\<close>

section \<open>Views\<close>

definition record_core :: "client_record \<Rightarrow> client_record" where
  "record_core r = r\<lparr>cr_added_at_unix_ms := 0\<rparr>"

definition key_ok :: "client_record \<Rightarrow> bool" where
  "key_ok r \<longleftrightarrow> length (pr_key r) = PAIRING_KEY_SIZE"

definition file_content :: "client_serde \<Rightarrow> path \<Rightarrow> client_disk \<Rightarrow> client_record list option" where
  "file_content js p d = (case d p of
       None \<Rightarrow> Some []
     | Some bs \<Rightarrow> map_option (filter key_ok)
         (Option.bind (js_parse js bs) (\<lambda>records. those (map (record_of_json js) records))))"

fun legacy_content :: "client_serde \<Rightarrow> path \<Rightarrow> path list \<Rightarrow> client_disk \<Rightarrow> client_record list option" where
  "legacy_content js p [] d = Some []"
| "legacy_content js p (l # ls) d =
     (if d l = None \<or> l = p then legacy_content js p ls d
      else case file_content js l d of
             None \<Rightarrow> None
           | Some rs \<Rightarrow> if rs = [] then legacy_content js p ls d else Some rs)"

definition client_view :: "client_serde \<Rightarrow> path \<Rightarrow> client_disk \<Rightarrow> client_record list option" where
  "client_view js p d =
     map_option (map record_core)
       (if d p \<noteq> None then file_content js p d else legacy_content js p (legacy_migration_candidates p) d)"

section \<open>JSON and base64\<close>

definition is_base64_char :: "u8 \<Rightarrow> bool" where
  "is_base64_char b \<longleftrightarrow> is_ascii_alphanumeric b \<or> b \<in> {0x2B, 0x2F, 0x3D}"

definition same_json :: "json_pairing \<Rightarrow> json_pairing \<Rightarrow> bool" where
  "same_json a b \<longleftrightarrow> b\<lparr>jp_added_at := None\<rparr> = a\<lparr>jp_added_at := None\<rparr>"

text \<open>What is written is read, the date perhaps with another rounding; base64 uses its alphabet.\<close>

definition js_ok :: "client_serde \<Rightarrow> bool" where
  "js_ok js \<longleftrightarrow>
     (\<forall>ps bs. js_print js ps = Some bs \<longrightarrow> (\<exists>ps'. js_parse js bs = Some ps' \<and> list_all2 same_json ps ps')) \<and>
     (\<forall>key. js_base64_decode js (js_base64_encode js key) = Some key \<and>
        list_all is_base64_char (js_base64_encode js key))"

lemma trim_start_none: "(\<And>w. w \<in> set ws \<Longrightarrow> w \<noteq> [] \<Longrightarrow> \<not> starts_with bs w) \<Longrightarrow> trim_start ws bs = bs"
proof (subst trim_start.simps)
  assume a: "\<And>w. w \<in> set ws \<Longrightarrow> w \<noteq> [] \<Longrightarrow> \<not> starts_with bs w"
  then have "find (\<lambda>w. w \<noteq> [] \<and> starts_with bs w) ws = None" by (auto simp: find_None_iff)
  then show "(case find (\<lambda>w. w \<noteq> [] \<and> starts_with bs w) ws of None \<Rightarrow> bs
      | Some w \<Rightarrow> trim_start ws (drop (length w) bs)) = bs"
    by simp
qed

lemma whitespace_no_base64:
  "w \<in> set WHITESPACE \<Longrightarrow> w \<noteq> [] \<and> \<not> is_base64_char (hd w) \<and> \<not> is_base64_char (hd (rev w))"
  by (auto simp: WHITESPACE_def is_base64_char_def is_ascii_alphanumeric_def is_ascii_digit_def
      is_ascii_uppercase_def is_ascii_lowercase_def)

lemma starts_with_hd: "starts_with bs w \<Longrightarrow> w \<noteq> [] \<Longrightarrow> bs \<noteq> [] \<and> hd bs = hd w"
  by (cases bs; cases w) (auto simp: starts_with_def)

lemma trim_base64:
  assumes "list_all is_base64_char s"
  shows "trim s = s"
proof -
  have "trim_start WHITESPACE s = s"
    using assms whitespace_no_base64 starts_with_hd
    by (intro trim_start_none) (metis list.set_sel(1) list_all_iff)
  moreover have "trim_start (map rev WHITESPACE) (rev s) = rev s"
  proof (rule trim_start_none)
    fix w assume w: "w \<in> set (map rev WHITESPACE)" "w \<noteq> []"
    then have "\<not> is_base64_char (hd w)" using whitespace_no_base64 by auto
    then show "\<not> starts_with (rev s) w"
      using assms w(2) starts_with_hd [of "rev s" w] by (metis list.set_sel(1) list_all_iff set_rev)
  qed
  ultimately show ?thesis by (simp add: trim_def)
qed

lemma record_json:
  assumes "js_ok js" and "json_of_record js r = Some j" and "same_json j j'"
  shows "\<exists>r'. record_of_json js j' = Some r' \<and> record_core r' = record_core r"
proof -
  obtain trust where t: "encode_pairing_trust (pr_trust r) = Inr trust"
    and j: "j = \<lparr>jp_id = pr_id r, jp_name = pr_name r, jp_key = KeyString (js_base64_encode js (pr_key r)),
      jp_added_at = Some (JsonF64 (serialize_added_at (cr_added_at_unix_ms r))),
      jp_last_endpoint = cr_last_endpoint r, jp_endpoint_aliases = cr_endpoint_aliases r,
      jp_relay_url = cr_relay_url r, jp_relay_host_id = cr_relay_host_id r, jp_trust = Some trust\<rparr>"
    using assms(2) by (auto simp: json_of_record_def split: sum.splits)
  have "decode_pairing_trust trust = Inr (pr_trust r)" using t by (simp add: decode_pairing_trust_Inr)
  moreover have "deserialize_key js (KeyString (js_base64_encode js (pr_key r))) = Some (pr_key r)"
    using assms(1) by (simp add: deserialize_key_def js_ok_def trim_base64)
  ultimately show ?thesis
    using assms(3) unfolding j same_json_def
    by (cases j'; cases r) (simp add: record_of_json_def record_core_def)
qed

lemma those_Some: "those xs = Some ys \<longleftrightarrow> xs = map Some ys"
proof (induction xs arbitrary: ys)
  case (Cons x xs)
  then show ?case by (cases x) (auto simp: Cons_eq_map_conv)
qed auto

lemma records_json:
  assumes "js_ok js" and "those (map (json_of_record js) rs) = Some ps" and "list_all2 same_json ps ps'"
  shows "\<exists>rs'. those (map (record_of_json js) ps') = Some rs' \<and> map record_core rs' = map record_core rs"
  using assms(2,3)
proof (induction rs arbitrary: ps ps')
  case (Cons r rs)
  from Cons.prems(1) obtain j qs where j: "json_of_record js r = Some j" "ps = j # qs" "map (json_of_record js) rs = map Some qs"
    unfolding those_Some by (auto simp: Cons_eq_map_conv map_eq_Cons_conv)
  with Cons.prems(2) obtain j' qs' where j': "ps' = j' # qs'" "same_json j j'" "list_all2 same_json qs qs'"
    by (auto simp: list_all2_Cons1)
  from Cons.IH [of qs qs'] j(3) j'(3)
  obtain rs' where "map (record_of_json js) qs' = map Some rs'" "map record_core rs' = map record_core rs"
    by (auto simp: those_Some)
  moreover obtain r' where "record_of_json js j' = Some r'" "record_core r' = record_core r"
    using record_json [OF assms(1) j(1) j'(2)] by blast
  ultimately show ?case unfolding j'(1) those_Some by (intro exI [of _ "r' # rs'"]) simp
qed auto

lemma key_ok_core [simp]: "key_ok (record_core r) = key_ok r"
  by (simp add: key_ok_def record_core_def)

lemma core_keys: "map record_core rs' = map record_core rs \<Longrightarrow> list_all key_ok rs \<Longrightarrow> list_all key_ok rs'"
  by (induction rs arbitrary: rs') (auto simp: map_eq_Cons_conv, metis key_ok_core)

lemma written_content:
  assumes "js_ok js" and "list_all key_ok rs"
    and "Option.bind (those (map (json_of_record js) rs)) (js_print js) = Some bs" and "d p = Some bs"
  shows "\<exists>rs'. file_content js p d = Some rs' \<and> map record_core rs' = map record_core rs"
proof -
  obtain ps where ps: "those (map (json_of_record js) rs) = Some ps" "js_print js ps = Some bs"
    using assms(3) by (auto simp: bind_eq_Some_conv)
  obtain ps' where ps': "js_parse js bs = Some ps'" "list_all2 same_json ps ps'"
    using assms(1) ps(2) unfolding js_ok_def by blast
  obtain rs' where rs': "those (map (record_of_json js) ps') = Some rs'" "map record_core rs' = map record_core rs"
    using records_json [OF assms(1) ps(1) ps'(2)] by blast
  have "filter key_ok rs' = rs'"
    using core_keys [OF rs'(2) assms(2)] by (simp add: list_all_iff filter_id_conv)
  then show ?thesis using assms(4) ps'(1) rs' by (simp add: file_content_def)
qed

section \<open>Writing\<close>

definition temporary_of :: "path \<Rightarrow> path \<Rightarrow> bool" where
  "temporary_of p q \<longleftrightarrow>
     (\<exists>n. q = butlast p @ [ascii ''.'' @ file_stem p @ ascii ''.'' @ decimal n @ ascii ''.tmp''])"

lemma temporary_apart:
  assumes "temporary_of p q" and "p \<noteq> []"
  shows "q \<noteq> p" and "q \<notin> set (legacy_migration_candidates p)"
proof -
  obtain n where q: "q = butlast p @ [ascii ''.'' @ file_stem p @ ascii ''.'' @ decimal n @ ascii ''.tmp'']"
    using assms(1) by (auto simp: temporary_of_def)
  have "length (last q) \<noteq> length (last p)" using assms(2) by (simp add: q file_stem_def path_file_name_def)
  then show "q \<noteq> p" by auto
  show "q \<notin> set (legacy_migration_candidates p)"
    using assms(2) by (auto simp: q legacy_migration_candidates_def with_file_name_def path_parent_def path_file_name_def Let_def)
qed

text \<open>A call touches the file and temporary files only; the file is left alone or has its new content.\<close>

definition store_only :: "path \<Rightarrow> client_disk \<Rightarrow> client_disk \<Rightarrow> bool" where
  "store_only p d d' \<longleftrightarrow> (\<forall>q. \<not> temporary_of p q \<and> q \<noteq> p \<longrightarrow> d' q = d q)"

lemma store_only_trans: "store_only p d d' \<Longrightarrow> store_only p d' d'' \<Longrightarrow> store_only p d d''"
  by (simp add: store_only_def)

lemma open_temporary_outcome:
  "open_temporary cs s = (s', r) \<Longrightarrow> (\<forall>q. q \<notin> set cs \<longrightarrow> si_disk s' q = si_disk s q) \<and> (\<forall>t. r = IoDone t \<longrightarrow> t \<in> set cs)"
proof (induction cs arbitrary: s)
  case Nil
  then show ?case by (auto simp: sfail_def)
next
  case (Cons c cs)
  obtain s1 r1 where o: "open_private_new c s = (s1, r1)" by (cases "open_private_new c s")
  have s1: "si_disk s1 q = si_disk s q" if "q \<noteq> c" for q
    using o that by (auto simp: open_private_new_def next_step_def split: list.splits io_step.splits if_splits)
  show ?case
    using Cons.prems Cons.IH [of s1] o s1
    by (auto simp: sbind_def stry_def sret_def sfail_def split: io_flow.splits if_splits)
qed

lemma swap_outcome:
  assumes "write_private_and_swap temporary bs p s = (s', r)" and "temporary \<noteq> p"
  shows "(\<forall>q. q \<noteq> temporary \<longrightarrow> q \<noteq> p \<longrightarrow> si_disk s' q = si_disk s q) \<and>
    (si_disk s' p = si_disk s p \<and> (\<forall>x. r \<noteq> IoDone x) \<or> si_disk s' p = Some bs)"
  using assms unfolding write_private_and_swap_def
  by (auto simp: fs_other_def fs_once_def fs_write_def sm_defs split: list.splits io_step.splits if_splits)

lemma remove_outcome: "remove_file q s = (s', r) \<Longrightarrow> q' \<noteq> q \<Longrightarrow> si_disk s' q' = si_disk s q'"
  by (auto simp: remove_file_def fs_once_def fs_write_def next_step_def split: list.splits io_step.splits if_splits)

lemma fs_other_outcome: "fs_other wrap s = (s', r) \<Longrightarrow> si_disk s' = si_disk s"
  by (auto simp: fs_other_def fs_write_def next_step_def split: list.splits io_step.splits)

lemma write_records_outcome:
  assumes "write_records js rnd p rs s = (s', r)" and "p \<noteq> []"
  shows "store_only p (si_disk s) (si_disk s') \<and>
    (si_disk s' p = si_disk s p \<and> (\<forall>x. r \<noteq> IoDone x) \<or>
     (\<exists>bs. Option.bind (those (map (json_of_record js) rs)) (js_print js) = Some bs \<and> si_disk s' p = Some bs))"
proof -
  let ?cs = "map (\<lambda>n. butlast p @ [ascii ''.'' @ file_stem p @ ascii ''.'' @ decimal (unat (rnd n)) @ ascii ''.tmp'']) [0..<8]"
  have tmp: "temporary_of p q" if "q \<in> set ?cs" for q using that by (auto simp: temporary_of_def)
  obtain s1 r1 where d: "fs_other StoreIo s = (s1, r1)" "si_disk s1 = si_disk s"
    using fs_other_outcome by (cases "fs_other StoreIo s" rule: prod.exhaust) blast
  show ?thesis
  proof (cases "Option.bind (those (map (json_of_record js) rs)) (js_print js)")
    case None
    then show ?thesis
      using assms d by (cases r1) (auto simp: write_records_def path_parent_def sthen_def sbind_def sfail_def store_only_def)
  next
    case (Some bs)
    obtain s2 r2 where o: "open_temporary ?cs s1 = (s2, r2)" by (cases "open_temporary ?cs s1")
    have s2: "store_only p (si_disk s1) (si_disk s2) \<and> si_disk s2 p = si_disk s1 p"
      using open_temporary_outcome [OF o] tmp temporary_apart(1) [OF _ assms(2)] unfolding store_only_def by blast
    have other: "store_only p (si_disk s) (si_disk s') \<and> si_disk s' p = si_disk s p \<and> (\<forall>x. r \<noteq> IoDone x)"
      if "r1 \<noteq> IoDone () \<or> (\<forall>t. r2 \<noteq> IoDone t)"
      using assms d o Some s2 that
      by (cases r1; cases r2) (auto simp: write_records_def path_parent_def sthen_def sbind_def store_only_def)
    show ?thesis
    proof (cases "r1 = IoDone () \<and> (\<exists>t. r2 = IoDone t)")
      case True
      then obtain t where t: "r1 = IoDone ()" "r2 = IoDone t" by blast
      have tt: "temporary_of p t" using open_temporary_outcome [OF o] t(2) tmp by blast
      note tp = temporary_apart(1) [OF tt assms(2)]
      obtain s3 r3 where w: "write_private_and_swap t bs p s2 = (s3, r3)" by (cases "write_private_and_swap t bs p s2")
      have s3: "store_only p (si_disk s2) (si_disk s3)"
        using swap_outcome [OF w tp] tt by (auto simp: store_only_def)
      obtain s4 r4 where v: "remove_file t s3 = (s4, r4)" by (cases "remove_file t s3")
      have s4: "store_only p (si_disk s3) (si_disk s4) \<and> si_disk s4 p = si_disk s3 p"
        using remove_outcome [OF v] tt tp unfolding store_only_def by metis
      have "s' = s3 \<and> (r3 = IoDone () \<longleftrightarrow> r = IoDone ()) \<or> s' = s4 \<and> r3 \<noteq> IoDone () \<and> r \<noteq> IoDone ()"
        using assms d o Some t w v
        by (cases r3; cases r4) (auto simp: write_records_def path_parent_def sthen_def sbind_def stry_def sret_def sfail_def)
      then show ?thesis
        using swap_outcome [OF w tp] s2 s3 s4 d(2) Some by (auto simp: store_only_def)
    next
      case False
      then show ?thesis using other by auto
    qed
  qed
qed

section \<open>Views and writes\<close>

lemma client_view_same:
  assumes "store_only p d d'" and "d' p = d p" and "p \<noteq> []"
  shows "client_view js p d' = client_view js p d"
proof -
  have same: "d' q = d q" if "q \<in> set (legacy_migration_candidates p)" for q
    using assms(1,2) temporary_apart(2) [OF _ assms(3)] that unfolding store_only_def by metis
  have "legacy_content js p ls d' = legacy_content js p ls d" if "set ls \<subseteq> set (legacy_migration_candidates p)" for ls
    using that
  proof (induction ls)
    case (Cons l ls)
    then have "d' l = d l" using same by simp
    with Cons show ?case by (simp add: file_content_def split: option.split)
  qed simp
  then show ?thesis using assms(2) by (simp add: client_view_def file_content_def)
qed

lemma client_view_written:
  assumes "js_ok js" and "list_all key_ok rs"
    and "Option.bind (those (map (json_of_record js) rs)) (js_print js) = Some bs" and "d p = Some bs"
  shows "client_view js p d = Some (map record_core rs)"
  using written_content [of js rs bs d p] assms by (auto simp: client_view_def)

text \<open>So a write changes the view at once or not at all.\<close>

lemma write_view:
  assumes "js_ok js" and "list_all key_ok rs" and "p \<noteq> []" and "write_records js rnd p rs s = (s', r)"
  shows "store_only p (si_disk s) (si_disk s') \<and>
    (client_view js p (si_disk s') = client_view js p (si_disk s) \<and> (\<forall>x. r \<noteq> IoDone x) \<or>
     client_view js p (si_disk s') = Some (map record_core rs))"
  using write_records_outcome [OF assms(4,3)] client_view_same [OF _ _ assms(3)] client_view_written [OF assms(1,2)]
  by metis

section \<open>Loading\<close>

lemma file_content_keys: "file_content js p d = Some rs \<Longrightarrow> list_all key_ok rs"
  by (auto simp: file_content_def list_all_iff split: option.splits)

lemma key_array_ok: "(\<exists>key. key_array r = Inr key) \<longleftrightarrow> key_ok r"
  by (simp add: key_array_def key_ok_def)

lemma read_file_outcome:
  assumes "read_file_records js p s = (s', r)"
  shows "si_disk s' = si_disk s \<and> (\<forall>rs. r = IoDone rs \<longrightarrow> file_content js p (si_disk s) = Some rs)"
proof -
  obtain s1 r1 where f: "fs_read StoreIo (\<lambda>d. d p) s = (s1, r1)" by (cases "fs_read StoreIo (\<lambda>d. d p) s")
  from assms f fs_read_outcome [OF f] show ?thesis
    by (auto simp: read_file_records_def file_content_def sm_defs key_array_ok split: io_flow.splits option.splits)
qed

text \<open>The take-over of an older file shows the records that were visible before.\<close>

lemma migrate_outcome:
  assumes ok: "js_ok js" "p \<noteq> []"
    and "migrate js rnd p ls s = (s', r)" and "si_disk s p = None"
    and "client_view js p (si_disk s) = map_option (map record_core) (legacy_content js p ls (si_disk s))"
    and "set ls \<subseteq> set (legacy_migration_candidates p)"
  shows "client_view js p (si_disk s') = client_view js p (si_disk s) \<and>
    (\<forall>rs. r = IoDone rs \<longrightarrow> list_all key_ok rs \<and> client_view js p (si_disk s) = Some (map record_core rs))"
  using assms(3-)
proof (induction ls arbitrary: s)
  case Nil
  then show ?case
    using read_file_outcome [of js p s s' r] file_content_keys by (auto simp: file_content_def)
next
  case (Cons l ls)
  show ?case
  proof (cases "si_disk s l = None \<or> l = p")
    case True
    then have "migrate js rnd p ls s = (s', r)"
      using Cons.prems(1) by (auto simp: fs_exists_def sbind_def)
    from Cons.IH [OF this] show ?thesis using Cons.prems True by auto
  next
    case False
    obtain s1 r1 where f: "read_file_records js l s = (s1, r1)" by (cases "read_file_records js l s")
    note rd = read_file_outcome [OF f]
    show ?thesis
    proof (cases r1)
      case (IoDone rs)
      then have c: "file_content js l (si_disk s) = Some rs" and d1: "si_disk s1 = si_disk s" using rd by auto
      show ?thesis
      proof (cases "rs = []")
        case True
        then have "migrate js rnd p ls s1 = (s', r)"
          using Cons.prems(1) f IoDone False by (auto simp: fs_exists_def sbind_def)
        from Cons.IH [OF this] show ?thesis using Cons.prems c True False d1 by auto
      next
        case rs: False
        have v: "client_view js p (si_disk s) = Some (map record_core rs)" using Cons.prems(3) False c rs by simp
        obtain s2 r2 where w: "write_records js rnd p rs s1 = (s2, r2)" by (cases "write_records js rnd p rs s1")
        have "s' = s2 \<and> (\<forall>x. r = IoDone x \<longrightarrow> x = rs)"
          using Cons.prems(1) f IoDone False rs w
          by (cases r2) (auto simp: fs_exists_def sbind_def sthen_def sret_def)
        then show ?thesis
          using write_view [OF ok(1) file_content_keys [OF c] ok(2) w] v d1 file_content_keys [OF c] by auto
      qed
    next
      case (IoError e)
      then show ?thesis using Cons.prems(1) f False rd by (auto simp: fs_exists_def sbind_def)
    next
      case IoDead
      then show ?thesis using Cons.prems(1) f False rd by (auto simp: fs_exists_def sbind_def)
    qed
  qed
qed

lemma load_file_outcome:
  assumes "js_ok js" and "p \<noteq> []" and "load_file js rnd p s = (s', r)"
  shows "client_view js p (si_disk s') = client_view js p (si_disk s) \<and>
    (\<forall>rs. r = IoDone rs \<longrightarrow> list_all key_ok rs \<and> client_view js p (si_disk s) = Some (map record_core rs))"
proof (cases "si_disk s p")
  case None
  then have "migrate js rnd p (legacy_migration_candidates p) s = (s', r)"
    using assms(3) by (simp add: load_file_def fs_exists_def sbind_def)
  from migrate_outcome [OF assms(1,2) this None] show ?thesis using None by (simp add: client_view_def)
next
  case (Some bs)
  then have "read_file_records js p s = (s', r)"
    using assms(3) by (simp add: load_file_def fs_exists_def sbind_def)
  from read_file_outcome [OF this] show ?thesis
    using Some file_content_keys by (auto simp: client_view_def)
qed

section \<open>Calls\<close>

datatype client_call =
    SaveRecord client_record
  | DeleteRecord rstring
  | RememberEndpoint rstring bytes pairing_endpoint

fun run_client_call :: "client_serde \<Rightarrow> (nat \<Rightarrow> u32) \<Rightarrow> (nat \<Rightarrow> u32) \<Rightarrow> path \<Rightarrow> client_call \<Rightarrow> unit cm" where
  "run_client_call js rnd rnd' p (SaveRecord r) = save_record js rnd rnd' p r"
| "run_client_call js rnd rnd' p (DeleteRecord i) = delete_record js rnd rnd' p i"
| "run_client_call js rnd rnd' p (RememberEndpoint i key endpoint) =
     sbind (remember_endpoint js rnd rnd' p i key endpoint) (\<lambda>_. sret ())"

text \<open>What a call makes of the hosts on file.\<close>

fun client_call_view :: "client_call \<Rightarrow> client_record list \<Rightarrow> client_record list" where
  "client_call_view (SaveRecord r) k = filter (\<lambda>x. pr_id x \<noteq> pr_id r) k @ [record_core r]"
| "client_call_view (DeleteRecord i) k = filter (\<lambda>x. pr_id x \<noteq> i) k"
| "client_call_view (RememberEndpoint i key endpoint) k =
     (case remember_in i key endpoint k of None \<Rightarrow> k | Some k' \<Rightarrow> k')"

lemma core_fields [simp]:
  "pr_id (record_core r) = pr_id r" "pr_key (record_core r) = pr_key r"
  "update_record_endpoint e (record_core r) = record_core (update_record_endpoint e r)"
  by (simp_all add: record_core_def update_record_endpoint_def Let_def)

lemma filter_core: "filter (\<lambda>x. pr_id x \<noteq> i) (map record_core rs) = map record_core (filter (\<lambda>x. pr_id x \<noteq> i) rs)"
  by (simp add: filter_map comp_def)

lemma remember_core:
  "remember_in i key e (map record_core rs) = map_option (map record_core) (remember_in i key e rs)"
proof -
  have "find (\<lambda>r. pr_id r = i) (map record_core rs) = map_option record_core (find (\<lambda>r. pr_id r = i) rs)"
    by (induction rs) auto
  moreover have "update_first (\<lambda>r. pr_id r = i) (update_record_endpoint e) (map record_core rs) =
      map record_core (update_first (\<lambda>r. pr_id r = i) (update_record_endpoint e) rs)"
    by (induction rs) auto
  ultimately show ?thesis by (simp add: remember_in_def split: option.split)
qed

lemma remember_keys: "list_all key_ok rs \<Longrightarrow> remember_in i key e rs = Some rs' \<Longrightarrow> list_all key_ok rs'"
proof -
  have "list_all key_ok rs \<Longrightarrow> list_all key_ok (update_first (\<lambda>r. pr_id r = i) (update_record_endpoint e) rs)"
    by (induction rs) (auto simp: key_ok_def update_record_endpoint_def Let_def)
  then show "list_all key_ok rs \<Longrightarrow> remember_in i key e rs = Some rs' \<Longrightarrow> list_all key_ok rs'"
    by (auto simp: remember_in_def split: option.splits if_splits)
qed

lemma acquire_lock_outcome: "acquire_lock s = (s', r) \<Longrightarrow> si_disk s' = si_disk s"
  by (auto simp: acquire_lock_def fs_other_def fs_write_def sm_defs split: list.splits io_step.splits)

text \<open>The part common to the calls: under the lock the file is loaded, and perhaps written.\<close>

lemma locked_outcome:
  assumes ok: "js_ok js" "p \<noteq> []" and view: "client_view js p (si_disk s) = Some k"
    and run: "sthen acquire_lock (sbind (load_file js rnd p) f) s = (s', r)"
    and step: "\<And>rs t t' x. list_all key_ok rs \<Longrightarrow> map record_core rs = k \<Longrightarrow> client_view js p (si_disk t) = Some k \<Longrightarrow>
      f rs t = (t', x) \<Longrightarrow> Q (client_view js p (si_disk t')) x"
    and fails: "\<And>x. (\<forall>y. x \<noteq> IoDone y) \<Longrightarrow> Q (Some k) x"
  shows "Q (client_view js p (si_disk s')) r"
proof -
  obtain s1 r1 where l: "acquire_lock s = (s1, r1)" by (cases "acquire_lock s")
  obtain s2 r2 where d: "load_file js rnd p s1 = (s2, r2)" by (cases "load_file js rnd p s1")
  note d1 = acquire_lock_outcome [OF l] and d2 = load_file_outcome [OF ok d]
  show ?thesis
  proof (cases "r1 = IoDone () \<and> (\<exists>rs. r2 = IoDone rs)")
    case True
    then obtain rs where rs: "r1 = IoDone ()" "r2 = IoDone rs" by blast
    have "f rs s2 = (s', r)" using run l d rs by (simp add: sthen_def sbind_def)
    then show ?thesis using step [of rs s2 s' r] d1 d2 rs(2) view by simp
  next
    case False
    then have "(s' = s1 \<or> s' = s2) \<and> (\<forall>y. r \<noteq> IoDone y)"
      using run l d by (cases r1; cases r2) (auto simp: sthen_def sbind_def)
    then show ?thesis using d1 d2 view fails by auto
  qed
qed

text \<open>C14. The client's store is atomic, too. Whatever fails or wherever the process dies in a call, the
  hosts on file are those before the call or those after it, with their keys, trust, addresses and
  relays (nothing is said of the date of a pairing); a call that returns success has reached the latter.
  Records taken over from a file of an older version count as on file before they are.\<close>

theorem client_store_refines_spec:
  assumes "js_ok js" and "p \<noteq> []" and "client_view js p (si_disk s) = Some k"
    and "run_client_call js rnd rnd' p c s = (s', f)"
  shows "client_view js p (si_disk s') \<in> {Some k, Some (client_call_view c k)} \<and>
    (f = IoDone () \<longrightarrow> client_view js p (si_disk s') = Some (client_call_view c k))"
proof (cases c)
  case (SaveRecord r)
  show ?thesis
  proof (cases "key_ok r")
    case True
    then have key: "key_array r = Inr (pr_key r)" by (simp add: key_array_def key_ok_def)
    have "sthen acquire_lock (sbind (load_file js rnd p) (\<lambda>records.
        write_records js rnd' p (filter (\<lambda>x. pr_id x \<noteq> pr_id r) records @ [r]))) s = (s', f)"
      using assms(4) SaveRecord key by (simp add: save_record_def sresult_def sbind_def sret_def)
    then show ?thesis unfolding SaveRecord
    proof (rule locked_outcome [OF assms(1-3)])
      fix rs t t' x
      assume rs: "list_all key_ok rs" "map record_core rs = k" "client_view js p (si_disk t) = Some k"
        and w: "write_records js rnd' p (filter (\<lambda>x. pr_id x \<noteq> pr_id r) rs @ [r]) t = (t', x)"
      have "list_all key_ok (filter (\<lambda>x. pr_id x \<noteq> pr_id r) rs @ [r])" using rs(1) True by (simp add: list_all_iff)
      from write_view [OF assms(1) this assms(2) w] rs show "client_view js p (si_disk t') \<in> {Some k, Some (client_call_view (SaveRecord r) k)} \<and>
          (x = IoDone () \<longrightarrow> client_view js p (si_disk t') = Some (client_call_view (SaveRecord r) k))"
        by (auto simp: filter_core)
    qed simp
  next
    case False
    then have "s' = s \<and> f \<noteq> IoDone ()"
      using assms(4) SaveRecord by (auto simp: save_record_def key_array_def key_ok_def sresult_def sbind_def sfail_def)
    then show ?thesis using assms(3) by simp
  qed
next
  case (DeleteRecord i)
  have "sthen acquire_lock (sbind (load_file js rnd p) (\<lambda>records.
      write_records js rnd' p (filter (\<lambda>x. pr_id x \<noteq> i) records))) s = (s', f)"
    using assms(4) DeleteRecord by (simp add: delete_record_def)
  then show ?thesis unfolding DeleteRecord
  proof (rule locked_outcome [OF assms(1-3)])
    fix rs t t' x
    assume rs: "list_all key_ok rs" "map record_core rs = k" "client_view js p (si_disk t) = Some k"
      and w: "write_records js rnd' p (filter (\<lambda>x. pr_id x \<noteq> i) rs) t = (t', x)"
    have "list_all key_ok (filter (\<lambda>x. pr_id x \<noteq> i) rs)" using rs(1) by (simp add: list_all_iff)
    from write_view [OF assms(1) this assms(2) w] rs show "client_view js p (si_disk t') \<in> {Some k, Some (client_call_view (DeleteRecord i) k)} \<and>
        (x = IoDone () \<longrightarrow> client_view js p (si_disk t') = Some (client_call_view (DeleteRecord i) k))"
      by (auto simp: filter_core)
  qed simp
next
  case (RememberEndpoint i key e)
  let ?V = "client_call_view (RememberEndpoint i key e) k"
  obtain f' where run: "remember_endpoint js rnd rnd' p i key e s = (s', f')" and f: "f = IoDone () \<Longrightarrow> \<exists>b. f' = IoDone b"
    using assms(4) RememberEndpoint by (auto simp: sbind_def sret_def split: prod.splits io_flow.splits)
  have "client_view js p (si_disk s') \<in> {Some k, Some ?V} \<and>
      ((\<exists>b. f' = IoDone b) \<longrightarrow> client_view js p (si_disk s') = Some ?V)"
    using run unfolding remember_endpoint_def
  proof (rule locked_outcome [OF assms(1-3)])
    fix rs t t' x
    assume rs: "list_all key_ok rs" "map record_core rs = k" "client_view js p (si_disk t) = Some k"
      and m: "(case remember_in i key e rs of None \<Rightarrow> sret False
        | Some records \<Rightarrow> sthen (write_records js rnd' p records) (sret True)) t = (t', x)"
    show "client_view js p (si_disk t') \<in> {Some k, Some ?V} \<and>
        ((\<exists>b. x = IoDone b) \<longrightarrow> client_view js p (si_disk t') = Some ?V)"
    proof (cases "remember_in i key e rs")
      case None
      then have "remember_in i key e k = None" using rs(2) remember_core [of i key e rs] by simp
      then show ?thesis using m None rs(3) by (auto simp: sret_def)
    next
      case (Some rs')
      obtain t1 y where w: "write_records js rnd' p rs' t = (t1, y)" by (cases "write_records js rnd' p rs' t")
      have "t' = t1 \<and> ((\<exists>b. x = IoDone b) \<longrightarrow> y = IoDone ())"
        using m Some w by (cases y) (auto simp: sthen_def sbind_def sret_def)
      moreover have "remember_in i key e k = Some (map record_core rs')"
        using rs(2) remember_core [of i key e rs] Some by simp
      ultimately show ?thesis
        using write_view [OF assms(1) remember_keys [OF rs(1) Some] assms(2) w] rs(3) by auto
    qed
  qed simp
  then show ?thesis using f RememberEndpoint by auto
qed

section \<open>The history of addresses\<close>

definition history_ok :: "client_record \<Rightarrow> bool" where
  "history_ok r \<longleftrightarrow> distinct (cr_endpoint_aliases r) \<and> length (cr_endpoint_aliases r) \<le> MAX_ENDPOINT_ALIASES \<and>
     (\<forall>e. cr_last_endpoint r = Some e \<longrightarrow> e \<notin> set (cr_endpoint_aliases r))"

lemma update_history: "history_ok r \<Longrightarrow> history_ok (update_record_endpoint e r)"
  by (auto simp: history_ok_def update_record_endpoint_def Let_def distinct_drop dest!: in_set_dropD split: option.splits)

section \<open>A sample\<close>

definition json_tuple :: "json_pairing \<Rightarrow> rstring \<times> rstring \<times> (bytes + bytes) \<times> (rstring \<times> u16 \<times> u16) option \<times>
    (rstring \<times> u16 \<times> u16) list \<times> rstring option \<times> rstring option \<times> bytes option" where
  "json_tuple j = (jp_id j, jp_name j, (case jp_key j of KeyString s \<Rightarrow> Inl s | KeyBytes bs \<Rightarrow> Inr bs),
     map_option (\<lambda>e. (pe_host e, pe_tcp_port e, pe_udp_port e)) (jp_last_endpoint j),
     map (\<lambda>e. (pe_host e, pe_tcp_port e, pe_udp_port e)) (jp_endpoint_aliases j),
     jp_relay_url j, jp_relay_host_id j, jp_trust j)"

definition tuple_endpoint :: "rstring \<times> u16 \<times> u16 \<Rightarrow> pairing_endpoint" where
  "tuple_endpoint = (\<lambda>(host, tcp, udp). \<lparr>pe_host = host, pe_tcp_port = tcp, pe_udp_port = udp\<rparr>)"

definition tuple_json :: "rstring \<times> rstring \<times> (bytes + bytes) \<times> (rstring \<times> u16 \<times> u16) option \<times>
    (rstring \<times> u16 \<times> u16) list \<times> rstring option \<times> rstring option \<times> bytes option \<Rightarrow> json_pairing" where
  "tuple_json = (\<lambda>(i, name, key, endpoint, aliases, url, relay, trust). \<lparr>jp_id = i, jp_name = name,
     jp_key = (case key of Inl s \<Rightarrow> KeyString s | Inr bs \<Rightarrow> KeyBytes bs), jp_added_at = None,
     jp_last_endpoint = map_option tuple_endpoint endpoint, jp_endpoint_aliases = map tuple_endpoint aliases,
     jp_relay_url = url, jp_relay_host_id = relay, jp_trust = trust\<rparr>)"

definition sample_js :: client_serde where
  "sample_js = \<lparr>js_parse = (\<lambda>bs. Some (map tuple_json (from_nat (length bs)))),
     js_print = (\<lambda>ps. Some (replicate (to_nat (map json_tuple ps)) 0)),
     js_base64_decode = (\<lambda>s. Some (from_nat (length s))), js_base64_encode = (\<lambda>key. replicate (to_nat key) 0x41)\<rparr>"

lemma tuple_endpoints [simp]:
  "tuple_endpoint (pe_host e, pe_tcp_port e, pe_udp_port e) = e"
  by (simp add: tuple_endpoint_def)

lemma tuple_json_same: "same_json j (tuple_json (json_tuple j))"
  by (cases j) (auto simp: same_json_def tuple_json_def json_tuple_def option.map_comp comp_def option.map_ident
      split: json_key.split)

lemma sample_js_ok: "js_ok sample_js"
  by (auto simp: js_ok_def sample_js_def list_all2_map2 list_all2_same tuple_json_same comp_def list_all_iff
      is_base64_char_def is_ascii_alphanumeric_def is_ascii_uppercase_def)

definition sample_client_record :: client_record where
  "sample_client_record = \<lparr>pr_id = [0x41], pr_name = [0x62], pr_key = replicate 32 7, pr_trust = Owner,
     cr_added_at_unix_ms = 1790000000000, cr_last_endpoint = None, cr_endpoint_aliases = [], cr_relay_url = None,
     cr_relay_host_id = None\<rparr>"

lemma sample_client_encodes: "\<exists>bs. Option.bind (those (map (json_of_record sample_js) [sample_client_record])) (js_print sample_js) = Some bs"
  by (simp add: json_of_record_def sample_client_record_def encode_pairing_trust_def sample_js_def)

text \<open>The process dies while it renames the file, before the rename is done.\<close>

lemma client_store_refines_spec_witness:
  "\<exists>s'. run_client_call sample_js (\<lambda>_. 0) (\<lambda>_. 0) [[0x61], [0x73]] (SaveRecord sample_client_record)
        \<lparr>si_steps = replicate 8 IoFine @ [IoDies 0], si_disk = (\<lambda>_. None)\<rparr> = (s', IoDead) \<and>
     client_view sample_js [[0x61], [0x73]] (si_disk s') \<in> {Some [], Some [record_core sample_client_record]}"
proof -
  let ?s = "\<lparr>si_steps = replicate 8 IoFine @ [IoDies 0], si_disk = (\<lambda>_. None)\<rparr> :: client_disk disk_io"
  let ?p = "[[0x61], [0x73]] :: path"
  obtain bs where bs: "Option.bind (those (map (json_of_record sample_js) [sample_client_record])) (js_print sample_js) = Some bs"
    using sample_client_encodes by blast
  have key: "key_array sample_client_record = Inr (replicate 32 7)"
    by (simp add: key_array_def sample_client_record_def PAIRING_KEY_SIZE_def)
  obtain s' where r: "run_client_call sample_js (\<lambda>_. 0) (\<lambda>_. 0) ?p (SaveRecord sample_client_record) ?s = (s', IoDead)"
    using bs
    by (simp add: save_record_def key acquire_lock_def load_file_def fs_exists_def legacy_migration_candidates_def
        path_parent_def path_file_name_def with_file_name_def Let_def read_file_records_def write_records_def
        write_private_and_swap_def fs_read_def fs_other_def fs_once_def fs_write_def open_private_new_def stry_def
        sm_defs numeral_eq_Suc upt_rec)
  have "client_view sample_js ?p (si_disk ?s) = Some []"
    by (simp add: client_view_def legacy_migration_candidates_def path_parent_def path_file_name_def with_file_name_def Let_def)
  from client_store_refines_spec [OF sample_js_ok _ this r] r show ?thesis by auto
qed

end
