(* ===== verification/Client_Dates.thy ===== *)
theory Client_Dates
  imports Client_Store
begin

text \<open>
  The date of a pairing in the client's file: seconds since 2001 in a \<open>f64\<close>, told apart from seconds and
  milliseconds since 1970 by their size. A date between November 2004 and September 2032 comes back exactly
  if JSON keeps the number, and at most a millisecond early if JSON rounds it; later ones are taken for
  seconds since 1970 and read as dates 31 years earlier.
\<close>

section \<open>The dates\<close>

definition date_limit :: "u64 \<Rightarrow> bool" where
  "date_limit v \<longleftrightarrow> 2 ^ 40 < unat v \<and> unat v \<le> 1978307200000"

lemma client_date_kept:
  assumes "date_limit v"
  shows "deserialize_added_at (JsonF64 (serialize_added_at v)) = v"
proof -
  define N :: rat where "N = of_nat (unat v)"
  have Nint: "N = of_int (int (unat v))" by (simp add: N_def)
  have N: "1099511627777 \<le> N" "N \<le> 1978307200000"
  proof -
    have "1099511627777 \<le> unat v" using assms by (simp add: date_limit_def)
    then have "(of_nat 1099511627777 :: rat) \<le> of_nat (unat v)" by (subst of_nat_le_iff)
    then show "1099511627777 \<le> N" by (simp add: N_def)
    have "(of_nat (unat v) :: rat) \<le> of_nat 1978307200000" using assms by (subst of_nat_le_iff) (simp add: date_limit_def)
    then show "N \<le> 1978307200000" by (simp add: N_def)
  qed
  define M where "M = round_half_even (N * (1 / 1000) * 2 ^ 22)"
  have u: "f64_of_u64 v = Finite N" using u64_exact [of v] assms by (simp add: date_limit_def N_def)
  have s: "f64_round (N * (1 / 1000)) = Finite (of_int M / 2 ^ 22)"
    using f64_round_at [of 30 "N * (1 / 1000)"] N by (simp add: M_def)
  have M: "\<bar>of_int M - N * (1 / 1000) * 2 ^ 22\<bar> \<le> 1 / 2"
    unfolding M_def by (rule round_half_even_error)
  have M': "of_int M - N * 4194304 / 1000 \<le> 1 / 2" "N * 4194304 / 1000 - of_int M \<le> 1 / 2"
    using M unfolding abs_le_iff by simp_all
  have top: "of_int M \<le> (of_int (1978307200 * 4194304) :: rat)"
  proof -
    have "(of_int M :: rat) < of_int (1978307200 * 4194304 + 1)" using M'(1) N(2) by simp
    then have "M < 1978307200 * 4194304 + 1" by (simp only: of_int_less_iff)
    then show ?thesis by (subst of_int_le_iff) simp
  qed
  have bottom: "1099511627 * 4194304 \<le> (of_int M :: rat)" using M'(2) N(1) by simp
  define D where "D = M - 978307200 * 4194304"
  have D: "of_int M / 2 ^ 22 + - SWIFT_REFERENCE_OFFSET = (of_int D / 2 ^ 22 :: rat)"
    by (simp add: D_def SWIFT_REFERENCE_OFFSET_def field_simps)
  have Db: "(of_int D :: rat) \<le> 1000000000 * 4194304" "121204427 * 4194304 \<le> (of_int D :: rat)"
    using top bottom by (simp_all add: D_def)
  have "\<exists>k. 2 ^ k \<le> of_int D / (2 ^ 22 :: rat) \<and> of_int D / (2 ^ 22 :: rat) < 2 ^ (k + 1) \<and> k \<le> 30"
  proof -
    consider "of_int D / (2 ^ 22 :: rat) < 2 ^ 27" | "2 ^ 27 \<le> of_int D / (2 ^ 22 :: rat)" "of_int D / (2 ^ 22 :: rat) < 2 ^ 28"
      | "2 ^ 28 \<le> of_int D / (2 ^ 22 :: rat)" "of_int D / (2 ^ 22 :: rat) < 2 ^ 29" | "2 ^ 29 \<le> of_int D / (2 ^ 22 :: rat)"
      by linarith
    then show ?thesis
    proof cases
      case 1 then show ?thesis using Db by (intro exI [of _ 26]) simp
    next
      case 2 then show ?thesis by (intro exI [of _ 27]) simp
    next
      case 3 then show ?thesis by (intro exI [of _ 28]) simp
    next
      case 4 then show ?thesis using Db by (intro exI [of _ 29]) simp
    qed
  qed
  then obtain k where "2 ^ k \<le> of_int D / (2 ^ 22 :: rat)" "of_int D / (2 ^ 22 :: rat) < 2 ^ (k + 1)" "k \<le> 30"
    by blast
  then have b: "f64_round (of_int D / 2 ^ 22) = Finite (of_int D / 2 ^ 22)" by (intro f64_round_dyadic) auto
  have ser: "serialize_added_at v = Finite (of_int D / 2 ^ 22)"
    by (simp only: serialize_added_at_def u f64_scale.simps s f64_add.simps D b)
  have low: "\<not> f64_above 1000000000 (Finite (of_int D / 2 ^ 22))" "\<not> f64_above 1000000000000 (Finite (of_int D / 2 ^ 22))"
    using Db by simp_all
  have "of_int D / 2 ^ 22 + SWIFT_REFERENCE_OFFSET = (of_int M / 2 ^ 22 :: rat)"
    by (simp add: D_def SWIFT_REFERENCE_OFFSET_def field_simps)
  moreover have "f64_round (of_int M / 2 ^ 22) = Finite (of_int M / 2 ^ 22)"
    using f64_round_dyadic [of 30 M 22] top bottom by simp
  ultimately have c: "f64_add (Finite (of_int D / 2 ^ 22)) (Finite SWIFT_REFERENCE_OFFSET) = Finite (of_int M / 2 ^ 22)"
    by (simp only: f64_add.simps)
  have pos: "f64_max_zero (Finite (of_int M / 2 ^ 22)) = Finite (of_int M / 2 ^ 22)" using bottom by simp
  have near: "round_half_even (of_int M / 2 ^ 22 * 1000 * 2 ^ (52 - 40)) = int (unat v) * 2 ^ 12"
  proof (rule round_half_even_near)
    show "\<bar>of_int M / 2 ^ 22 * 1000 * 2 ^ (52 - 40) - of_int (int (unat v) * 2 ^ 12)\<bar> < (1 / 2 :: rat)"
      using M' unfolding abs_less_iff of_int_mult Nint [symmetric] by simp
  qed
  have "f64_round (of_int M / 2 ^ 22 * 1000) = Finite (of_int (int (unat v) * 2 ^ 12) / 2 ^ (52 - 40))"
    using f64_round_at [of 40 "of_int M / 2 ^ 22 * 1000"] near top M' N by simp
  then have d: "f64_scale 1000 (Finite (of_int M / 2 ^ 22)) = Finite (of_nat (unat v))" by simp
  show ?thesis
    unfolding deserialize_added_at_def ser json_number.case using low c pos d as_u64_of_nat by simp
qed

lemma client_date_lost:
  assumes "1978307200 < n" and "n \<le> 1000000000000"
  shows "deserialize_added_at (JsonF64 (serialize_added_at (word_of_nat (1000 * n)))) = word_of_nat (1000 * (n - 978307200))"
proof -
  have v: "unat (word_of_nat (1000 * n) :: u64) = 1000 * n" using assms(2) by (intro unat_of_nat_bounded) simp
  have whole: "f64_round (of_nat m) = Finite (of_nat m)" if "m \<le> 1000000000000000" for m
  proof -
    have "int m < int (2 ^ 53)" using that by (subst of_nat_less_iff) simp
    then show ?thesis using f64_round_int_below [of "int m"] by simp
  qed
  have rat_le: "(of_nat a :: rat) < of_nat b" if "a < b" for a b using that by (subst of_nat_less_iff)
  have a: "f64_of_u64 (word_of_nat (1000 * n)) = Finite (of_nat (1000 * n))"
    unfolding f64_of_u64_def v by (rule whole) (use assms in simp)
  have "of_nat (1000 * n) * (1 / 1000) = (of_nat n :: rat)" by simp
  then have b: "f64_scale (1 / 1000) (Finite (of_nat (1000 * n))) = Finite (of_nat n)"
    using whole [of n] assms(2) by (simp only: f64_scale.simps)
  have "of_nat n + - SWIFT_REFERENCE_OFFSET = (of_nat (n - 978307200) :: rat)"
    using assms(1) by (simp add: SWIFT_REFERENCE_OFFSET_def of_nat_diff)
  then have c: "f64_add (Finite (of_nat n)) (Finite (- SWIFT_REFERENCE_OFFSET)) = Finite (of_nat (n - 978307200))"
    using whole [of "n - 978307200"] assms(2) by (simp only: f64_add.simps, simp?)
  have ser: "serialize_added_at (word_of_nat (1000 * n)) = Finite (of_nat (n - 978307200))"
    by (simp only: serialize_added_at_def a b c)
  have "1000000000 < n - 978307200" "\<not> 1000000000000 < n - 978307200" using assms by simp_all
  then have size: "f64_above 1000000000 (Finite (of_nat (n - 978307200)))" "\<not> f64_above 1000000000000 (Finite (of_nat (n - 978307200)))"
    using rat_le [of 1000000000 "n - 978307200"] rat_le [of "n - 978307200" 1000000000001] by (simp_all add: not_less)
  have "of_nat (n - 978307200) * 1000 = (of_nat (1000 * (n - 978307200)) :: rat)" by simp
  then have d: "f64_scale 1000 (Finite (of_nat (n - 978307200))) = Finite (of_nat (1000 * (n - 978307200)))"
    using whole [of "1000 * (n - 978307200)"] assms(2) by (simp only: f64_scale.simps, simp?)
  have w: "unat (word_of_nat (1000 * (n - 978307200)) :: u64) = 1000 * (n - 978307200)"
    using assms(2) by (intro unat_of_nat_bounded) simp
  have e: "f64_as_u64 (Finite (of_nat (1000 * (n - 978307200)))) = word_of_nat (1000 * (n - 978307200))"
    using as_u64_of_nat [of "word_of_nat (1000 * (n - 978307200))"] unfolding w .
  show ?thesis by (simp only: deserialize_added_at_def ser json_number.case size if_True if_False d e)
qed

text \<open>Every date, with the rounding of each operation.\<close>

lemma serialize_close:
  assumes "unat v < 2147483648000"
  obtains x where "serialize_added_at v = Finite x" "\<bar>x - (of_nat (unat v) / 1000 - 978307200)\<bar> \<le> 1 / 2 ^ 22"
proof -
  define N :: rat where "N = of_nat (unat v)"
  have N: "0 \<le> N" "N < 2147483648000"
  proof -
    have "(of_nat (unat v) :: rat) < of_nat 2147483648000" using assms by (subst of_nat_less_iff)
    then show "N < 2147483648000" by (simp add: N_def)
    show "0 \<le> N" unfolding N_def by (rule of_nat_0_le_iff)
  qed
  obtain a where a: "f64_round (N * (1 / 1000)) = Finite a" "\<bar>a - N * (1 / 1000)\<bar> \<le> 2 ^ 31 / 2 ^ 54"
    using f64_round_close [of "N * (1 / 1000)" 31] N by auto
  have "\<bar>a - 978307200\<bar> < 2 ^ 31" using a(2) N by (simp add: abs_if split: if_splits)
  then obtain x where x: "f64_round (a - 978307200) = Finite x" "\<bar>x - (a - 978307200)\<bar> \<le> 2 ^ 31 / 2 ^ 54"
    using f64_round_close [of "a - 978307200" 31] by auto
  have "f64_of_u64 v = Finite N" using assms unfolding N_def by (intro u64_exact) simp
  then have "serialize_added_at v = Finite x"
    using a(1) x(1) by (simp add: serialize_added_at_def SWIFT_REFERENCE_OFFSET_def)
  moreover have "\<bar>x - (N / 1000 - 978307200)\<bar> \<le> 1 / 2 ^ 22"
    using a(2) x(2) by (simp add: abs_if split: if_splits)
  ultimately show thesis unfolding N_def by (rule that)
qed

lemma f64_round_nonneg: "0 \<le> x \<Longrightarrow> f64_round x = Finite y \<Longrightarrow> 0 \<le> y"
proof -
  assume x: "0 \<le> x" "f64_round x = Finite y"
  have "0 \<le> x / f64_ulp x" using x(1) f64_ulp_pos [of x] by simp
  then have "0 \<le> round_half_even (x / f64_ulp x)" by (auto simp: round_half_even_def Let_def)
  then have "0 \<le> f64_nearest x" using f64_ulp_pos [of x] by (simp add: f64_nearest_def)
  then show "0 \<le> y" using x(2) by (auto simp: f64_round_def Let_def split: if_splits)
qed

lemma read_floor:
  assumes "0 \<le> q" "\<bar>q - of_nat n\<bar> < 1" "n < 2 ^ 63"
  shows "unat (f64_as_u64 (Finite q)) \<in> {n - 1, n}"
proof -
  have floor: "\<lfloor>q\<rfloor> = int n - 1 \<or> \<lfloor>q\<rfloor> = int n" "0 \<le> \<lfloor>q\<rfloor>"
    using assms(1,2) unfolding floor_eq_iff by (auto simp: abs_less_iff)
  have "int n < 2 ^ 63" using assms(3) by simp
  then have "f64_as_u64 (Finite q) = word_of_int \<lfloor>q\<rfloor>" using assms(1) floor by auto
  moreover obtain m where m: "\<lfloor>q\<rfloor> = int m" "m \<in> {n - 1, n}"
    using floor by (intro that [of "nat \<lfloor>q\<rfloor>"]) auto
  moreover have "unat (word_of_nat m :: u64) = m" using m(2) assms(3) by (intro unat_of_nat_bounded) auto
  ultimately show ?thesis by simp
qed

lemma date_read_low:
  assumes "y \<le> 1000000000" "\<bar>y + 978307200 - of_nat n / 1000\<bar> \<le> 1 / 2 ^ 18" "n \<le> 1978307200000"
  shows "unat (deserialize_added_at (JsonF64 (Finite y))) \<in> {n - 1, n}"
proof -
  have n: "(of_nat n :: rat) \<le> 1978307200000"
  proof -
    have "(of_nat n :: rat) \<le> of_nat 1978307200000" using assms(3) by (subst of_nat_le_iff)
    then show ?thesis by simp
  qed
  have n0: "(0 :: rat) \<le> of_nat n" by simp
  have "\<bar>y + 978307200\<bar> < 2 ^ 31" using assms(2) n n0 by (simp add: abs_if split: if_splits)
  then obtain a where a: "f64_round (y + 978307200) = Finite a" "\<bar>a - (y + 978307200)\<bar> \<le> 2 ^ 31 / 2 ^ 54"
    using f64_round_close [of "y + 978307200" 31] by auto
  define b where "b = max a 0"
  have b: "\<bar>b - of_nat n / 1000\<bar> \<le> 1 / 2 ^ 17" using a(2) assms(2) n0 unfolding b_def by (simp add: abs_if max_def split: if_splits)
  have b0: "0 \<le> b" by (simp add: b_def)
  have "\<bar>b * 1000\<bar> < 2 ^ 41" using b b0 n by (simp add: abs_if split: if_splits)
  then obtain q where q: "f64_round (b * 1000) = Finite q" "\<bar>q - b * 1000\<bar> \<le> 2 ^ 41 / 2 ^ 54"
    using f64_round_close [of "b * 1000" 41] by auto
  have "0 \<le> q" using f64_round_nonneg [OF _ q(1)] b0 by simp
  moreover have "\<bar>q - of_nat n\<bar> < 1" using q(2) b by (simp add: abs_if split: if_splits)
  ultimately have "unat (f64_as_u64 (Finite q)) \<in> {n - 1, n}" using assms(3) by (intro read_floor) auto
  moreover have "\<not> y > 1000000000000" "\<not> y > 1000000000" using assms(1) by auto
  ultimately show ?thesis
    using a(1) q(1) by (simp add: deserialize_added_at_def SWIFT_REFERENCE_OFFSET_def b_def)
qed

lemma date_read_high:
  assumes "1000000000 < y" "\<bar>y + 978307200 - of_nat n / 1000\<bar> \<le> 1 / 2 ^ 18" "n < 2147483648000"
  shows "unat (deserialize_added_at (JsonF64 (Finite y))) \<in> {n - 978307200000 - 1, n - 978307200000}"
proof -
  have n: "(of_nat n :: rat) < 2147483648000"
  proof -
    have "(of_nat n :: rat) < of_nat 2147483648000" using assms(3) by (subst of_nat_less_iff)
    then show ?thesis by simp
  qed
  have y: "y < 1300000000" using assms(2) n by (simp add: abs_if split: if_splits)
  have "978307200000 < n"
  proof -
    have "(of_nat 978307200000 :: rat) < of_nat n" using assms(1,2) by (simp add: abs_if split: if_splits)
    then show ?thesis by (simp only: of_nat_less_iff)
  qed
  then have m: "(of_nat (n - 978307200000) :: rat) = of_nat n - 978307200000" by (simp add: of_nat_diff)
  have "\<bar>y * 1000\<bar> < 2 ^ 41" using y assms(1) by simp
  then obtain q where q: "f64_round (y * 1000) = Finite q" "\<bar>q - y * 1000\<bar> \<le> 2 ^ 41 / 2 ^ 54"
    using f64_round_close [of "y * 1000" 41] by auto
  have "0 \<le> q" using f64_round_nonneg [OF _ q(1)] assms(1) by simp
  moreover have "\<bar>q - of_nat (n - 978307200000)\<bar> < 1"
    unfolding m using q(2) assms(2) by (simp add: abs_if split: if_splits)
  ultimately have "unat (f64_as_u64 (Finite q)) \<in> {n - 978307200000 - 1, n - 978307200000}"
    using assms(3) by (intro read_floor) auto
  moreover have "\<not> y > 1000000000000" using y by auto
  ultimately show ?thesis using q(1) assms(1) by (simp add: deserialize_added_at_def)
qed

text \<open>C33. The date of a pairing through \<open>serialize_added_at\<close> and \<open>deserialize_added_at\<close>, in milliseconds
  since 1970. A date after 3 November 2004 (\<open>2 ^ 40\<close>) and before 9 September 2032 comes back exactly if
  the number itself does. Between the two functions the number is JSON text, which serde_json may read
  back a little off: as long as it is off by no more than \<open>2 ^ -20\<close> seconds (eight units in the last place),
  every date before 9 September 2032 comes back as itself or one millisecond early. From then on the
  seconds since 2001 exceed \<open>10 ^ 9\<close> and are taken for seconds since 1970: every later date (until January
  2038) is read 978307200 seconds, that is 31 years, early, or one millisecond more; whole seconds exactly so,
  for 30000 years.\<close>

theorem client_date_roundtrip:
  "(2 ^ 40 < unat v \<and> unat v \<le> 1978307200000 \<longrightarrow> deserialize_added_at (JsonF64 (serialize_added_at v)) = v) \<and>
   (unat v < 1978307200000 \<and> serialize_added_at v = Finite x \<and> \<bar>y - x\<bar> \<le> 1 / 2 ^ 20 \<longrightarrow>
     unat (deserialize_added_at (JsonF64 (Finite y))) \<in> {unat v - 1, unat v}) \<and>
   (1978307200000 < unat v \<and> unat v < 2147483648000 \<longrightarrow>
     unat (deserialize_added_at (JsonF64 (serialize_added_at v))) \<in> {unat v - 978307200000 - 1, unat v - 978307200000}) \<and>
   (1978307200 < n \<and> n \<le> 1000000000000 \<longrightarrow>
     deserialize_added_at (JsonF64 (serialize_added_at (word_of_nat (1000 * n)))) = word_of_nat (1000 * (n - 978307200)))"
proof (intro conjI impI)
  assume "2 ^ 40 < unat v \<and> unat v \<le> 1978307200000"
  then show "deserialize_added_at (JsonF64 (serialize_added_at v)) = v"
    by (intro client_date_kept) (simp add: date_limit_def)
next
  assume a: "unat v < 1978307200000 \<and> serialize_added_at v = Finite x \<and> \<bar>y - x\<bar> \<le> 1 / 2 ^ 20"
  then obtain x' where "serialize_added_at v = Finite x'" "\<bar>x' - (of_nat (unat v) / 1000 - 978307200)\<bar> \<le> 1 / 2 ^ 22"
    using serialize_close [of v] by auto
  with a have x: "\<bar>x - (of_nat (unat v) / 1000 - 978307200)\<bar> \<le> 1 / 2 ^ 22" by simp
  have "(of_nat (unat v) :: rat) \<le> of_nat 1978307199999" using a by (subst of_nat_le_iff) auto
  then have v: "(of_nat (unat v) :: rat) \<le> 1978307199999" by simp
  show "unat (deserialize_added_at (JsonF64 (Finite y))) \<in> {unat v - 1, unat v}"
  proof (rule date_read_low)
    define N :: rat where "N = of_nat (unat v)"
    note near = a x v
    show "y \<le> 1000000000" using near unfolding N_def [symmetric] by (simp add: abs_if split: if_splits)
    show "\<bar>y + 978307200 - of_nat (unat v) / 1000\<bar> \<le> 1 / 2 ^ 18"
      using near unfolding N_def [symmetric] by (simp add: abs_if split: if_splits)
  qed (use a in simp)
next
  assume a: "1978307200000 < unat v \<and> unat v < 2147483648000"
  then obtain x where x: "serialize_added_at v = Finite x" "\<bar>x - (of_nat (unat v) / 1000 - 978307200)\<bar> \<le> 1 / 2 ^ 22"
    using serialize_close [of v] by auto
  have "(of_nat 1978307200001 :: rat) \<le> of_nat (unat v)" using a by (subst of_nat_le_iff) auto
  then have v: "1978307200001 \<le> (of_nat (unat v) :: rat)" by simp
  show "unat (deserialize_added_at (JsonF64 (serialize_added_at v))) \<in> {unat v - 978307200000 - 1, unat v - 978307200000}"
    unfolding x(1)
  proof (rule date_read_high)
    define N :: rat where "N = of_nat (unat v)"
    show "1000000000 < x" using x(2) v unfolding N_def [symmetric] by (simp add: abs_if split: if_splits)
    show "\<bar>x + 978307200 - of_nat (unat v) / 1000\<bar> \<le> 1 / 2 ^ 18"
      using x(2) unfolding N_def [symmetric] by (simp add: abs_if split: if_splits)
  qed (use a in simp)
next
  assume "1978307200 < n \<and> n \<le> 1000000000000"
  then show "deserialize_added_at (JsonF64 (serialize_added_at (word_of_nat (1000 * n)))) = word_of_nat (1000 * (n - 978307200))"
    by (intro client_date_lost) auto
qed

lemma client_date_roundtrip_witness:
  "deserialize_added_at (JsonF64 (serialize_added_at 1790000000123)) = 1790000000123 \<and>
   unat (deserialize_added_at (JsonF64 (serialize_added_at 1978307200777))) \<in> {1000000000776, 1000000000777} \<and>
   deserialize_added_at (JsonF64 (serialize_added_at 1978307201000)) = 1000000001000"
  using client_date_roundtrip [of 1790000000123 0 0 1978307201] client_date_roundtrip [of 1978307200777 0 0 0] by simp

end
