(* ===== verification/Client_Handshake.thy ===== *)
theory Client_Handshake
  imports Client_Store
begin

text \<open>
  How the client gets a session: pairing with a PIN, reconnecting with a stored pairing, the TLS
  connection and the handshake on it (\<open>pair_with_pin_as\<close>, \<open>connect_with_pairing\<close>, \<open>connect_with_psk\<close> and
  \<open>begin_handshake_with_trust\<close> of \<open>maho-app/src/session.rs\<close>).

  As in the model of the host, whatever the functions ask of the outside is a field of \<open>connect_env\<close>, a
  function of the number of questions asked before; \<open>cn_log\<close> records what they do. The session is that of
  \<open>Client_Session\<close>. Poisoned locks, trace records, socket buffers and the worker thread of the
  relay bridge (whose outcome \<open>nv_bridge\<close> gives) are left out.
\<close>

section \<open>State\<close>

datatype connect_effect =
    PacketOut bytes
  | DatagramOut bytes
  | TlsWith psk_identity
  | RecordSaved client_record

record connect_env =
  nv_host :: rstring
  nv_tcp_port :: u16
  nv_udp_port :: u16
  nv_kd :: key_derivation
  nv_hkdf :: hkdf
  nv_enc :: aead_enc
  nv_decode :: image_decode
  nv_salt :: "nat \<Rightarrow> bytes"
  nv_unix_ms :: "nat \<Rightarrow> u64"
  nv_now :: "nat \<Rightarrow> instant"
  nv_runtime :: bool
  nv_cancelled :: "nat \<Rightarrow> bool"
  nv_resolve :: "nat \<Rightarrow> rstring \<Rightarrow> u16 \<Rightarrow> session_error + nat \<times> nat"
  nv_connect :: "nat \<Rightarrow> session_error option"
  nv_io :: "nat \<Rightarrow> io_error option"
  nv_tls_new :: "nat \<Rightarrow> psk_identity \<Rightarrow> tls_psk_error option"
  nv_tls :: "nat \<Rightarrow> psk_identity \<Rightarrow> tls_psk_error option"
  nv_write :: "nat \<Rightarrow> bytes \<Rightarrow> tcp_outcome"
  nv_read :: "nat \<Rightarrow> tls_psk_error + bytes"
  nv_save :: "nat \<Rightarrow> client_record \<Rightarrow> pairing_store_error option"
  nv_load :: "nat \<Rightarrow> rstring \<Rightarrow> pairing_store_error + client_record option"
  nv_secret :: "nat \<Rightarrow> bytes option"
  nv_bridge :: "nat \<Rightarrow> rstring \<Rightarrow> rstring \<Rightarrow> bytes \<Rightarrow> (rstring \<times> u16 \<times> u16) option"

text \<open>\<open>cn_relay\<close> is the endpoint of the relay bridge, if the connection goes over one.\<close>

record connecting =
  cn_session :: client_session
  cn_tick :: nat
  cn_log :: "connect_effect list"
  cn_relay :: "(rstring \<times> u16 \<times> u16) option"

type_synonym 'a cn = "connecting \<Rightarrow> connecting \<times> (session_error + 'a)"

definition cret :: "'a \<Rightarrow> 'a cn" where
  "cret x = (\<lambda>c. (c, Inr x))"

definition cfail :: "session_error \<Rightarrow> 'a cn" where
  "cfail error = (\<lambda>c. (c, Inl error))"

definition cbind :: "'a cn \<Rightarrow> ('a \<Rightarrow> 'b cn) \<Rightarrow> 'b cn" where
  "cbind m f = (\<lambda>c. case m c of (c, Inl error) \<Rightarrow> (c, Inl error) | (c, Inr x) \<Rightarrow> f x c)"

definition cthen :: "'a cn \<Rightarrow> 'b cn \<Rightarrow> 'b cn" where
  "cthen m k = cbind m (\<lambda>_. k)"

definition cget :: "connecting cn" where
  "cget = (\<lambda>c. (c, Inr c))"

definition cask :: "(nat \<Rightarrow> 'a) \<Rightarrow> 'a cn" where
  "cask q = (\<lambda>c. (c\<lparr>cn_tick := cn_tick c + 1\<rparr>, Inr (q (cn_tick c))))"

definition clog :: "connect_effect \<Rightarrow> unit cn" where
  "clog x = (\<lambda>c. (c\<lparr>cn_log := cn_log c @ [x]\<rparr>, Inr ()))"

definition csession :: "(client_session \<Rightarrow> client_session) \<Rightarrow> unit cn" where
  "csession f = (\<lambda>c. (c\<lparr>cn_session := f (cn_session c)\<rparr>, Inr ()))"

definition cresult :: "('e \<Rightarrow> session_error) \<Rightarrow> 'e + 'a \<Rightarrow> 'a cn" where
  "cresult wrap r = (case r of Inl e \<Rightarrow> cfail (wrap e) | Inr x \<Rightarrow> cret x)"

definition ccheck :: "('e \<Rightarrow> session_error) \<Rightarrow> 'e option \<Rightarrow> unit cn" where
  "ccheck wrap r = (case r of Some e \<Rightarrow> cfail (wrap e) | None \<Rightarrow> cret ())"

definition cwhen :: "bool \<Rightarrow> unit cn \<Rightarrow> unit cn" where
  "cwhen b m = (if b then m else cret ())"

section \<open>Packets\<close>

definition io_m :: "connect_env \<Rightarrow> unit cn" where
  "io_m v = cbind (cask (nv_io v)) (ccheck SessionIo)"

text \<open>The flag \<open>cancelled\<close>, which another thread may set at any time.\<close>

definition is_cancelled_m :: "connect_env \<Rightarrow> bool cn" where
  "is_cancelled_m v = cbind (cask (nv_cancelled v)) (\<lambda>flag. cbind cget (\<lambda>c. cret (flag \<or> cs_cancelled (cn_session c))))"

definition check_cancelled :: "connect_env \<Rightarrow> unit cn" where
  "check_cancelled v = cbind (is_cancelled_m v) (\<lambda>cancelled. if cancelled then cfail CancelledError else cret ())"

text \<open>\<open>send_packet\<close> on the stream of this connection.\<close>

definition packet_m :: "connect_env \<Rightarrow> packet_type \<Rightarrow> bytes \<Rightarrow> unit cn" where
  "packet_m v ty payload = (\<lambda>c.
     let env = \<lparr>ce_unix_ms = nv_unix_ms v (cn_tick c), ce_now = nv_now v (cn_tick c),
                ce_tcp = Some (nv_write v (cn_tick c)), ce_image_decode = nv_decode v\<rparr>
     in case Client_Session.send_packet env ty payload (cn_session c) of
          (s, r, out) \<Rightarrow>
            (c\<lparr>cn_session := s, cn_tick := cn_tick c + 1, cn_log := cn_log c @ map PacketOut out\<rparr>, r))"

definition control_m :: "connect_env \<Rightarrow> control_message \<Rightarrow> unit cn" where
  "control_m v message =
     cbind (cresult ProtocolError (encode_control_message message)) (\<lambda>payload. packet_m v Control_Pkt payload)"

definition read_tcp_packet :: "connect_env \<Rightarrow> (packet_header \<times> bytes) cn" where
  "read_tcp_packet v =
     cthen (check_cancelled v) (
     cbind (cask (nv_read v)) (\<lambda>r.
     case r of
       Inl error \<Rightarrow>
         cbind (is_cancelled_m v) (\<lambda>cancelled. if cancelled then cfail CancelledError else cfail (TlsError error))
     | Inr frame \<Rightarrow>
         cthen (check_cancelled v) (
         if length frame < packet_header_SIZE then cfail (SessionIo IoInvalidData)
         else
         cbind (cresult ProtocolError (decode_packet_header (take packet_header_SIZE frame))) (\<lambda>header.
         cret (header, drop packet_header_SIZE frame)))))"

section \<open>The connection\<close>

definition resolve_one :: "connect_env \<Rightarrow> rstring \<Rightarrow> u16 \<Rightarrow> (nat \<times> nat) cn" where
  "resolve_one v host port = cbind (cask (\<lambda>n. nv_resolve v n host port)) (cresult (\<lambda>e. e))"

definition connect_with_psk :: "connect_env \<Rightarrow> psk_identity \<Rightarrow> session_state \<Rightarrow> unit cn" where
  "connect_with_psk v psk next_state =
     (if nv_runtime v then cfail TcpRuntimeAlreadyRunning
      else
      cthen (check_cancelled v) (
      cthen (csession connect_reset) (
      cbind cget (\<lambda>c.
      cbind (case cn_relay c of
               Some (host, tcp_port, _) \<Rightarrow> resolve_one v host tcp_port
             | None \<Rightarrow> resolve_one v (nv_host v) (nv_tcp_port v)) (\<lambda>_.
      cthen (check_cancelled v) (
      cthen (io_m v) (
      cbind (cask (nv_connect v)) (\<lambda>connected.
      cthen (ccheck (\<lambda>e. e) connected) (
      cthen (io_m v) (
      cthen (io_m v) (
      cthen (io_m v) (
      cthen (io_m v) (
      cthen (check_cancelled v) (
      cbind (cask (\<lambda>n. nv_tls_new v n psk)) (\<lambda>client.
      cthen (ccheck TlsError client) (
      cthen (clog (TlsWith psk)) (
      cbind (cask (\<lambda>n. nv_tls v n psk)) (\<lambda>tls.
      case tls of
        Some error \<Rightarrow>
          cbind (is_cancelled_m v) (\<lambda>cancelled. if cancelled then cfail CancelledError else cfail (TlsError error))
      | None \<Rightarrow>
          cthen (check_cancelled v) (
          csession (\<lambda>s. s\<lparr>cs_state := next_state\<rparr>))))))))))))))))))))"

text \<open>The fallible calls on the new datagram socket: binding, connecting, its timeout.\<close>

definition open_udp :: "connect_env \<Rightarrow> unit cn" where
  "open_udp v = cthen (io_m v) (cthen (io_m v) (io_m v))"

section \<open>The handshake\<close>

record ready_session =
  rds_pairing :: client_record
  rds_server :: handshake
  rds_session_salt :: bytes

definition client_hello :: "client_session \<Rightarrow> rstring \<Rightarrow> bytes \<Rightarrow> handshake" where
  "client_hello s pairing_id salt =
     \<lparr>hs_name = cs_client_name s, hs_width = 0, hs_height = 0, hs_scale = f32_one, hs_version = PROTOCOL_VERSION,
      hs_capabilities = and (cs_capabilities s) implemented_capabilities, hs_pairing_id = pairing_id,
      hs_session_salt = salt\<rparr>"

definition read_ack :: "connect_env \<Rightarrow> handshake cn" where
  "read_ack v = (\<lambda>c. case read_tcp_packet v c of
       (c, Inl error) \<Rightarrow>
         (c, Inl (if error = TlsError (TlsIo IoTimedOut) \<or> error = TlsError (TlsIo IoWouldBlock)
                  then HandshakeAckTimeout else error))
     | (c, Inr (header, payload)) \<Rightarrow>
         (if ph_packet_type header \<noteq> HandshakeAck_Pkt
          then cfail (UnexpectedPacket HandshakeAck_Pkt (ph_packet_type header))
          else cresult ProtocolError (decode_handshake payload)) c)"

text \<open>What the host says of the trust, which the client takes over.\<close>

definition negotiate_trust :: "connect_env \<Rightarrow> handshake \<Rightarrow> pairing_trust option \<Rightarrow> client_record \<Rightarrow> client_record cn" where
  "negotiate_trust v server preference pairing =
     cbind cget (\<lambda>c.
     let caps = cs_capabilities (cn_session c);
         negotiated = (capabilities_contains caps PAIRING_TRUST \<and> capabilities_contains (hs_capabilities server) PAIRING_TRUST)
     in if negotiated
        then
          cthen (case preference of
                   Some trust \<Rightarrow> control_m v (PairingTrustRequest \<lparr>ptr_trust = trust\<rparr>)
                 | None \<Rightarrow> cret ()) (
          cbind (read_tcp_packet v) (\<lambda>(header, payload).
          if ph_packet_type header \<noteq> Control_Pkt then cfail (UnexpectedPacket Control_Pkt (ph_packet_type header))
          else
          cbind (cresult ProtocolError (decode_control_message payload)) (\<lambda>message.
          case message of
            PairingTrustGrant grant \<Rightarrow> cret (pairing\<lparr>pr_trust := ptg_trust grant\<rparr>)
          | SessionEnded ended \<Rightarrow>
              if capabilities_contains (hs_capabilities server) SESSION_ENDED \<and> capabilities_contains caps SESSION_ENDED
              then
                cthen (csession (upd_info (\<lambda>i. i\<lparr>si_ended := Some (se_reason ended)\<rparr>))) (
                cthen (csession client_interrupt) (cfail PermissionDeniedError))
              else cfail PermissionDeniedError
          | _ \<Rightarrow> cfail PermissionDeniedError)))
        else if \<exists>trust. preference = Some trust \<and> trust \<noteq> Owner
        then cthen (csession client_interrupt) (cfail UnsupportedError)
        else cret pairing)"

definition save_m :: "connect_env \<Rightarrow> client_record \<Rightarrow> unit cn" where
  "save_m v r =
     cbind (cask (\<lambda>n. nv_save v n r)) (\<lambda>saved.
     cthen (ccheck PairingStoreError saved) (clog (RecordSaved r)))"

text \<open>A guest for one session is not stored; a reconnection changes nothing but the trust.\<close>

definition remember_trust :: "connect_env \<Rightarrow> handshake \<Rightarrow> pairing_trust option \<Rightarrow> client_record \<Rightarrow> unit cn" where
  "remember_trust v server preference pairing =
     cbind cget (\<lambda>c.
     if pr_trust pairing = GuestOnce then cret ()
     else if preference \<noteq> None then save_m v pairing
     else if capabilities_contains (cs_capabilities (cn_session c)) PAIRING_TRUST \<and>
             capabilities_contains (hs_capabilities server) PAIRING_TRUST
     then
       cbind (cask (\<lambda>n. nv_load v n (pr_id pairing))) (\<lambda>loaded.
       cbind (cresult PairingStoreError loaded) (\<lambda>found.
       case found of
         Some stored \<Rightarrow> cwhen (pr_trust stored \<noteq> pr_trust pairing) (save_m v (stored\<lparr>pr_trust := pr_trust pairing\<rparr>))
       | None \<Rightarrow> cret ()))
     else cret ())"

definition register_udp :: "connect_env \<Rightarrow> datagram_cipher \<Rightarrow> datagram_cipher cn" where
  "register_udp v cipher =
     cbind (cask (nv_unix_ms v)) (\<lambda>ms.
     case seal_datagram (nv_enc v) cipher (packet_header_new Ping_Pkt 0 (ucast ms) 0) [] of
       (cipher, Inl e) \<Rightarrow> cfail (DatagramError e)
     | (cipher, Inr datagram) \<Rightarrow> cthen (clog (DatagramOut datagram)) (cret cipher))"

text \<open>What follows the acknowledgement: the trust, the keys, the datagram socket and its registration.\<close>

definition finish_handshake ::
  "connect_env \<Rightarrow> client_record \<Rightarrow> pairing_trust option \<Rightarrow> bytes \<Rightarrow> handshake \<Rightarrow> ready_session cn" where
  "finish_handshake v pairing preference salt server =
     cbind (negotiate_trust v server preference pairing) (\<lambda>pairing.
     cthen (remember_trust v server preference pairing) (
     cthen (csession (\<lambda>s. upd_info (\<lambda>i. i\<lparr>si_pairing_trust := Some (pr_trust pairing)\<rparr>)
              (s\<lparr>cs_pairing := Some (pairing_record.truncate pairing)\<rparr>))) (
     if \<not> capabilities_contains (hs_capabilities server) AUTHENTICATED_UDP_REGISTRATION
     then cfail MissingAuthenticatedRegistration
     else
     cbind (cresult PairingStoreError (key_array pairing)) (\<lambda>key.
     cbind (cresult DatagramError (derive (nv_hkdf v) key salt direction.ClientToHost)) (\<lambda>udp_send.
     cbind (cresult DatagramError (derive (nv_hkdf v) key salt direction.HostToClient)) (\<lambda>udp_receive.
     cbind cget (\<lambda>c.
     cbind (case cn_relay c of
              Some (host, _, udp_port) \<Rightarrow> resolve_one v host udp_port
            | None \<Rightarrow> resolve_one v (nv_host v) (nv_udp_port v)) (\<lambda>_.
     cthen (open_udp v) (
     cthen (csession (\<lambda>s. s\<lparr>cs_udp_registered := False\<rparr>)) (
     cbind (register_udp v udp_send) (\<lambda>udp_send.
     cthen (io_m v) (
     cthen (io_m v) (
     cthen (csession (\<lambda>s. upd_stream (\<lambda>t. t\<lparr>ss_host_supports_stream_options :=
              capabilities_contains (cs_capabilities s) STREAM_OPTIONS \<and>
              capabilities_contains (hs_capabilities server) STREAM_OPTIONS\<rparr>)
              (s\<lparr>cs_udp_send := Some udp_send, cs_udp_receive := Some udp_receive, cs_server := Some server,
                 cs_state := Ready\<rparr>))) (
     cret \<lparr>rds_pairing = pairing, rds_server = server, rds_session_salt = salt\<rparr>))))))))))))))"

definition begin_handshake_with_trust ::
  "connect_env \<Rightarrow> client_record \<Rightarrow> pairing_trust option \<Rightarrow> ready_session cn" where
  "begin_handshake_with_trust v pairing preference =
     cbind (cask (nv_salt v)) (\<lambda>salt.
     cthen (csession (\<lambda>s. s\<lparr>cs_pairing := Some (pairing_record.truncate pairing), cs_session_salt := Some salt,
              cs_state := AwaitingHandshakeAck\<rparr>)) (
     cthen (io_m v) (
     cbind cget (\<lambda>c.
     cbind (cresult ProtocolError (encode_handshake (client_hello (cn_session c) (pr_id pairing) salt))) (\<lambda>hello.
     cthen (packet_m v Handshake_Pkt hello) (
     cbind (read_ack v) (\<lambda>server.
     finish_handshake v pairing preference salt server)))))))"

definition begin_handshake :: "connect_env \<Rightarrow> client_record \<Rightarrow> ready_session cn" where
  "begin_handshake v pairing = begin_handshake_with_trust v pairing None"

section \<open>Pairing and reconnecting\<close>

definition forget_end :: "unit cn" where
  "forget_end = csession (upd_info (\<lambda>i. i\<lparr>si_ended := None\<rparr>))"

definition granted_record :: "pairing_grant \<Rightarrow> u64 \<Rightarrow> client_record" where
  "granted_record grant ms = \<lparr>pr_id = pg_pairing_id grant, pr_name = pg_host_name grant, pr_key = pg_key grant,
     pr_trust = Owner, cr_added_at_unix_ms = ms, cr_last_endpoint = None, cr_endpoint_aliases = [],
     cr_relay_url = None, cr_relay_host_id = None\<rparr>"

definition pair_with_pin_as :: "connect_env \<Rightarrow> rstring \<Rightarrow> pairing_trust \<Rightarrow> ready_session cn" where
  "pair_with_pin_as v pin preference =
     cthen forget_end (
     cbind (cresult TlsError (psk_identity_bootstrap (nv_kd v) pin)) (\<lambda>psk.
     cthen (connect_with_psk v psk AwaitingPairing) (
     cbind cget (\<lambda>c.
     cbind (cresult ProtocolError (encode_pairing_request \<lparr>preq_name = cs_client_name (cn_session c)\<rparr>)) (\<lambda>request.
     cthen (packet_m v PairingRequest_Pkt request) (
     cbind (read_tcp_packet v) (\<lambda>(header, payload).
     if ph_packet_type header = PairingGrant_Pkt then
       cbind (cresult ProtocolError (decode_pairing_grant payload)) (\<lambda>grant.
       cbind (cask (nv_unix_ms v)) (\<lambda>ms.
       begin_handshake_with_trust v (granted_record grant ms) (Some preference)))
     else if ph_packet_type header = PairingReject_Pkt then
       cbind (cresult ProtocolError (decode_pairing_reject payload)) (\<lambda>reject.
       cfail (PairingRejected (prej_reason reject)))
     else cfail (UnexpectedPacket PairingGrant_Pkt (ph_packet_type header)))))))))"

definition pair_with_pin :: "connect_env \<Rightarrow> rstring \<Rightarrow> ready_session cn" where
  "pair_with_pin v pin = pair_with_pin_as v pin Owner"

text \<open>The name of the host at the relay, from its name when none is stored.\<close>

definition relay_host_of :: "client_record \<Rightarrow> rstring" where
  "relay_host_of r = (case cr_relay_host_id r of
       Some host_id \<Rightarrow> host_id
     | None \<Rightarrow> take 128 (filter (\<lambda>b. is_ascii_alphanumeric b \<or> b \<in> {0x2E, 0x5F, 0x2D}) (pr_name r)))"

definition open_relay_fallback :: "connect_env \<Rightarrow> client_record \<Rightarrow> (rstring \<times> u16 \<times> u16) option cn" where
  "open_relay_fallback v pairing =
     (case cr_relay_url pairing of
        None \<Rightarrow> cret None
      | Some url \<Rightarrow>
          cbind (cask (nv_secret v)) (\<lambda>secret.
          case secret of
            None \<Rightarrow> cret None
          | Some secret \<Rightarrow>
              if relay_host_of pairing = [] then cret None
              else cask (\<lambda>n. nv_bridge v n url (relay_host_of pairing) secret)))"

definition set_relay :: "(rstring \<times> u16 \<times> u16) option \<Rightarrow> unit cn" where
  "set_relay endpoint = (\<lambda>c. (c\<lparr>cn_relay := endpoint\<rparr>, Inr ()))"

definition ctry :: "'a cn \<Rightarrow> (session_error + 'a) cn" where
  "ctry m = (\<lambda>c. case m c of (c, r) \<Rightarrow> (c, Inr r))"

definition connect_with_pairing :: "connect_env \<Rightarrow> client_record \<Rightarrow> ready_session cn" where
  "connect_with_pairing v pairing =
     cthen (check_cancelled v) (
     cthen forget_end (
     cbind (cresult TlsError (psk_identity_pairing (pr_id pairing) (pr_key pairing))) (\<lambda>psk.
     cthen (set_relay None) (
     cbind (ctry (connect_with_psk v psk AwaitingHandshakeAck)) (\<lambda>r.
     case r of
       Inr _ \<Rightarrow> begin_handshake v pairing
     | Inl direct_error \<Rightarrow>
         cthen (check_cancelled v) (
         cbind (open_relay_fallback v pairing) (\<lambda>endpoint.
         case endpoint of
           Some endpoint \<Rightarrow>
             cthen (set_relay (Some endpoint)) (
             cthen (connect_with_psk v psk AwaitingHandshakeAck) (
             begin_handshake v pairing))
         | None \<Rightarrow> cfail direct_error)))))))"

definition reconnect :: "connect_env \<Rightarrow> rstring \<Rightarrow> ready_session cn" where
  "reconnect v pairing_id =
     cbind (cask (\<lambda>n. nv_load v n pairing_id)) (\<lambda>loaded.
     cbind (cresult PairingStoreError loaded) (\<lambda>found.
     case found of
       None \<Rightarrow> cfail (PairingNotFound pairing_id)
     | Some pairing \<Rightarrow> connect_with_pairing v pairing))"

end
