(* ===== verification/Handshake_Agreement.thy ===== *)
theory Handshake_Agreement
  imports Client_Handshake Host_Sample
begin

text \<open>
  The client's \<open>begin_handshake_with_trust\<close> (\<open>maho-app/src/session.rs\<close>) against the host's
  \<open>handle_handshake\<close> (\<open>maho-host/src/session.rs\<close>). The first section inverts a handshake that the host
  accepted, the second runs the client on a connection without faults, and the third joins the two.
\<close>

section \<open>A handshake that the host accepted\<close>

definition sent_packets :: "host_effect list \<Rightarrow> bytes list" where
  "sent_packets tr = List.map_filter (\<lambda>x. case x of Sent bs \<Rightarrow> Some bs | _ \<Rightarrow> None) tr"

lemma sent_packets_simps [simp]:
  "sent_packets [] = []" "sent_packets (x # tr) = (case x of Sent bs \<Rightarrow> [bs] | _ \<Rightarrow> []) @ sent_packets tr"
  "sent_packets (tr @ tr') = sent_packets tr @ sent_packets tr'"
  by (auto simp: sent_packets_def List.map_filter_def split: host_effect.split)

lemma hbind_Done: "hbind m f s = (s', Done y) \<longleftrightarrow> (\<exists>t x. m s = (t, Done x) \<and> f x t = (s', Done y))"
  by (auto simp: hbind_def split: prod.splits flow.splits)

lemma hthen_Done: "hthen m k s = (s', Done y) \<longleftrightarrow> (\<exists>t x. m s = (t, Done x) \<and> k t = (s', Done y))"
  by (simp add: hthen_def hbind_Done)

lemma leaf_Done [simp]:
  "hret x s = (s', Done y) \<longleftrightarrow> s' = s \<and> y = x" "hfail e s = (s', Done y) \<longleftrightarrow> False"
  "hbreak s = (s', Done y) \<longleftrightarrow> False" "hcontinue s = (s', Done y) \<longleftrightarrow> False"
  "hget s = (s', Done u) \<longleftrightarrow> s' = s \<and> u = s" "hmodify f s = (s', Done ()) \<longleftrightarrow> s' = f s"
  "hask q s = (s', Done z) \<longleftrightarrow> s' = s\<lparr>hc_tick := hc_tick s + 1\<rparr> \<and> z = q (hc_tick s)"
  "hlog ef s = (s', Done ()) \<longleftrightarrow> s' = s\<lparr>hc_trace := hc_trace s @ [ef]\<rparr>"
  "hresult w r s = (s', Done y) \<longleftrightarrow> s' = s \<and> r = Inr y" "hcheck w' o' s = (s', Done ()) \<longleftrightarrow> s' = s \<and> o' = None"
  "hok_or e p s = (s', Done y) \<longleftrightarrow> s' = s \<and> p = Some y"
  "hwhen b m s = (s', Done ()) \<longleftrightarrow> (if b then m s = (s', Done ()) else s' = s)"
  by (auto simp: hret_def hfail_def hbreak_def hcontinue_def hget_def hmodify_def hask_def hlog_def hresult_def
      hcheck_def hok_or_def hwhen_def split: sum.splits option.splits)

definition core :: "host_conn \<Rightarrow> datagram_cipher option \<times> datagram_cipher option \<times> capabilities \<times> pairing_trust" where
  "core s = (hc_c2h s, hc_h2c s, hc_peer_caps s, hc_trust s)"

lemma packet_Done:
  "send_tcp_packet e ty payload s = (s', Done ()) \<Longrightarrow>
   core s' = core s \<and> hc_state s' = hc_state s \<and> (\<exists>ms header. encode_packet_header (packet_header_new ty 0 (ucast (ms :: u64)) 0) = Inr header \<and>
     sent_packets (hc_trace s') = sent_packets (hc_trace s) @ [header @ payload])"
  by (auto simp: send_tcp_packet_def hbind_Done hthen_Done core_def Let_def)

lemma negotiate_Done:
  "negotiate e h record s = (s', Done ()) \<Longrightarrow>
   sent_packets (hc_trace s') = sent_packets (hc_trace s) \<and> hc_trust s' = hc_trust s \<and> hc_peer_caps s' = hs_capabilities h \<and>
   (\<exists>c2h h2c. hc_c2h s' = Some c2h \<and> hc_h2c s' = Some h2c \<and>
      derive (he_hkdf e) (hpr_key record) (hs_session_salt h) direction.ClientToHost = Inr c2h \<and>
      derive (he_hkdf e) (hpr_key record) (hs_session_salt h) direction.HostToClient = Inr h2c) \<and>
   capabilities_contains (hs_capabilities h) AUTHENTICATED_UDP_REGISTRATION"
  by (auto simp: negotiate_def hbind_Done hthen_Done Let_def split: if_splits)

lemma start_media_Done:
  "start_media e s = (s', Done ()) \<Longrightarrow> core s' = core s \<and> sent_packets (hc_trace s') = sent_packets (hc_trace s)"
  by (auto simp: start_media_def hbind_Done hthen_Done core_def)

lemma control_Done:
  "send_tcp_control e m s = (s', Done ()) \<Longrightarrow>
   core s' = core s \<and> hc_state s' = hc_state s \<and> (\<exists>ms header body. encode_packet_header (packet_header_new Control_Pkt 0 (ucast (ms :: u64)) 0) = Inr header \<and>
     encode_control_message m = Inr body \<and>
     sent_packets (hc_trace s') = sent_packets (hc_trace s) @ [header @ body])"
  by (auto simp: send_tcp_control_def hbind_Done dest!: packet_Done)

text \<open>The wait for the client's request, out of \<open>exchange_trust\<close>.\<close>

definition trust_request :: "host_env \<Rightarrow> unit hm" where
  "trust_request e =
     hbind (hask (he_read e)) (\<lambda>r.
     hbind (case r of
              ReadError error _ \<Rightarrow> hfail (HostTls error)
            | ReadNothing \<Rightarrow> hfail ConsentTimeout
            | ReadPacket packet \<Rightarrow> hret packet) (\<lambda>packet.
     hbind (hresult HostCodec (split_packet packet)) (\<lambda>(header, payload).
     if ph_packet_type header \<noteq> Control_Pkt then hfail NotAuthenticated
     else
     hbind (hresult HostCodec (decode_control_message payload)) (\<lambda>control.
     case control of PairingTrustRequest _ \<Rightarrow> hret () | _ \<Rightarrow> hfail NotAuthenticated))))"

lemma exchange_trust_eq:
  "exchange_trust e fresh = hbind hget (\<lambda>s.
     if \<not> capabilities_contains (hc_peer_caps s) PAIRING_TRUST then hret ()
     else hthen (hwhen fresh (trust_request e)) (send_tcp_control e (PairingTrustGrant \<lparr>ptg_trust = hc_trust s\<rparr>)))"
  unfolding exchange_trust_def trust_request_def ..

lemma trust_request_Done:
  assumes "trust_request e s = (s', Done ())"
  shows "core s' = core s \<and> sent_packets (hc_trace s') = sent_packets (hc_trace s)"
proof -
  have request: "(case control of PairingTrustRequest _ \<Rightarrow> hret () | _ \<Rightarrow> hfail NotAuthenticated) t = (t', Done ()) \<Longrightarrow> t' = t"
    for control t t' by (cases control) simp_all
  have reads: "(case r of ReadError error _ \<Rightarrow> hfail (HostTls error) | ReadNothing \<Rightarrow> hfail ConsentTimeout
      | ReadPacket packet \<Rightarrow> hret packet) t = (t', Done b) \<Longrightarrow> t' = t" for r t t' b
    by (cases r) simp_all
  have "s' = s\<lparr>hc_tick := hc_tick s + 1\<rparr>"
    using assms by (auto simp: trust_request_def hbind_Done split: if_splits prod.splits dest!: request reads)
  then show ?thesis by (simp add: core_def)
qed

lemma exchange_trust_Done:
  assumes "exchange_trust e fresh s = (s', Done ())"
  shows "core s' = core s \<and> (if capabilities_contains (hc_peer_caps s) PAIRING_TRUST
     then \<exists>ms header body. encode_packet_header (packet_header_new Control_Pkt 0 (ucast (ms :: u64)) 0) = Inr header \<and>
       encode_control_message (PairingTrustGrant \<lparr>ptg_trust = hc_trust s\<rparr>) = Inr body \<and>
       sent_packets (hc_trace s') = sent_packets (hc_trace s) @ [header @ body]
     else sent_packets (hc_trace s') = sent_packets (hc_trace s))"
proof (cases "capabilities_contains (hc_peer_caps s) PAIRING_TRUST")
  case True
  with assms obtain t where t: "hwhen fresh (trust_request e) s = (t, Done ())"
    "send_tcp_control e (PairingTrustGrant \<lparr>ptg_trust = hc_trust s\<rparr>) t = (s', Done ())"
    by (auto simp: exchange_trust_eq hbind_Done hthen_Done)
  moreover have "core t = core s \<and> sent_packets (hc_trace t) = sent_packets (hc_trace s)"
    using t(1) by (auto split: if_splits dest: trust_request_Done)
  ultimately show ?thesis using control_Done [OF t(2)] True by auto
next
  case False
  with assms show ?thesis by (simp add: exchange_trust_eq hbind_Done)
qed

lemma remember_pairing_Done:
  "remember_pairing e fresh record s = (s', Done ()) \<Longrightarrow> core s' = core s \<and> sent_packets (hc_trace s') = sent_packets (hc_trace s)"
  by (auto simp: remember_pairing_def hbind_Done hthen_Done core_def split: if_splits)

lemma permissions_Done:
  "send_permissions e peer p s = (s', Done ()) \<Longrightarrow>
   core s' = core s \<and> (\<exists>rest. sent_packets (hc_trace s') = sent_packets (hc_trace s) @ rest)"
  by (auto simp: send_permissions_def split: option.splits dest!: control_Done)

lemma admit_Done:
  "admit e record s = (s', Done ()) \<Longrightarrow>
   core s' = core s \<and> hc_state s' = Authenticated \<and> (\<exists>rest. sent_packets (hc_trace s') = sent_packets (hc_trace s) @ rest)"
  by (auto simp: admit_def hbind_Done hthen_Done Let_def ceiling_m_def set_effective_def now_m_def core_def
      dest!: permissions_Done)

lemma claimed_record_Done:
  "claimed_record e h s = (s', Done (fresh, record)) \<Longrightarrow>
   core s' = core s \<and> sent_packets (hc_trace s') = sent_packets (hc_trace s) \<and>
   (case hc_provisional s of Some r \<Rightarrow> record = r | None \<Rightarrow> \<exists>n. he_load e n (hs_pairing_id h) = Inr (Some record))"
  by (auto simp: claimed_record_def hbind_Done core_def split: option.splits)

lemma stored_rights_Done:
  "stored_rights e record s = (s', Done ()) \<Longrightarrow> sent_packets (hc_trace s') = sent_packets (hc_trace s)"
  by (auto simp: stored_rights_def hbind_Done split: if_splits)

lemma check_identity_Done: "check_identity e h s = (s', Done ()) \<Longrightarrow> s' = s"
  by (auto simp: check_identity_def hbind_Done split: option.splits if_splits)

text \<open>The steps of an accepted handshake, and what the host has agreed to and sent at its end.\<close>

lemma hbind_elim:
  "hbind m f s = (s', Done y) \<Longrightarrow> (\<And>t x. m s = (t, Done x) \<Longrightarrow> f x t = (s', Done y) \<Longrightarrow> P) \<Longrightarrow> P"
  by (auto simp: hbind_Done)

lemma hthen_elim:
  "hthen (m :: unit hm) k s = (s', Done y) \<Longrightarrow> (\<And>t. m s = (t, Done ()) \<Longrightarrow> k t = (s', Done y) \<Longrightarrow> P) \<Longrightarrow> P"
  by (auto simp: hthen_Done)

lemma if_fail_elim:
  "(if b then hfail e else m) s = (s', Done y) \<Longrightarrow> (\<not> b \<Longrightarrow> m s = (s', Done y) \<Longrightarrow> P) \<Longrightarrow> P"
  by (cases b) auto

lemma prod_elim:
  "(case p of (a, b) \<Rightarrow> f a b) t = r \<Longrightarrow> (\<And>a b. p = (a, b) \<Longrightarrow> f a b t = r \<Longrightarrow> P) \<Longrightarrow> P"
  by (cases p) auto

lemmas done_elims = hbind_elim hthen_elim if_fail_elim prod_elim

lemma hmodify_Done: "hmodify f s = (s', Done ()) \<Longrightarrow> s' = f s"
  by simp

lemma handle_handshake_steps:
  assumes "handle_handshake e payload s = (s', Done ())"
  obtains h fresh r t1 t2 t3 t4 t5 ack t6 t7 t8 t9 t10 t11 t12 t13 pong ping where
    "decode_handshake payload = Inr h" "encode_handshake (handshake_ack e) = Inr ack"
    "claimed_record e h s = (t1, Done (fresh, r))"
    "hwhen (\<not> fresh) (stored_rights e r) t1 = (t2, Done ())" "check_identity e h t2 = (t3, Done ())"
    "negotiate e h r t3 = (t4, Done ())"
    "hwhen (\<not> capabilities_contains (hs_capabilities h) PAIRING_TRUST) (start_media e) t4 = (t5, Done ())"
    "send_tcp_packet e HandshakeAck_Pkt ack t5 = (t6, Done ())"
    "exchange_trust e fresh t6 = (t7, Done ())" "remember_pairing e fresh r t7 = (t8, Done ())"
    "admit e r t8 = (t9, Done ())"
    "hwhen (capabilities_contains (hs_capabilities h) PAIRING_TRUST) (start_media e) t9 = (t10, Done ())"
    "hwhen (capabilities_contains (hs_capabilities h) STREAM_OPTIONS) (
       hthen (hmodify (\<lambda>s. s\<lparr>hc_last_policy := policy_of (hc_effective s)\<rparr>)) (
       hbind (displays_m e) (\<lambda>displays.
       send_tcp_control e (HostDisplayList \<lparr>hdl_displays = displays\<rparr>)))) t10 = (t11, Done ())"
    "now_m e t11 = (t12, Done pong)" "now_m e t12 = (t13, Done ping)"
    "s' = t13\<lparr>hc_last_pong := pong, hc_next_ping := ping + HEARTBEAT_INTERVAL\<rparr>"
  using assms unfolding handle_handshake_def
  apply (elim done_elims)
  apply (simp only: leaf_Done(5,9))
  apply (elim conjE)
  apply hypsubst
  apply (rule that)
  apply assumption+
  apply (drule hmodify_Done)
  apply assumption
  done

lemma core_state:
  "hwhen b (start_media e) s = (s', Done ()) \<Longrightarrow> core s' = core s \<and> sent_packets (hc_trace s') = sent_packets (hc_trace s) \<and>
     hc_state s' = hc_state s"
  by (auto simp: start_media_def hbind_Done hthen_Done core_def split: if_splits)

lemma displays_Done:
  "hwhen b (hthen (hmodify (\<lambda>s. s\<lparr>hc_last_policy := policy_of (hc_effective s)\<rparr>)) (
       hbind (displays_m e) (\<lambda>displays. send_tcp_control e (HostDisplayList \<lparr>hdl_displays = displays\<rparr>)))) s = (s', Done ()) \<Longrightarrow>
   core s' = core s \<and> (\<exists>rest. sent_packets (hc_trace s') = sent_packets (hc_trace s) @ rest) \<and> hc_state s' = hc_state s"
  by (auto simp: hbind_Done hthen_Done displays_m_def core_def split: if_splits dest!: control_Done)

lemma handle_handshake_Done:
  assumes "handle_handshake e payload s = (s', Done ())"
  obtains h r c2h h2c ms header ack more where
    "decode_handshake payload = Inr h" "hc_state s' = Authenticated" "hc_peer_caps s' = hs_capabilities h"
    "case hc_provisional s of Some r0 \<Rightarrow> r = r0 | None \<Rightarrow> \<exists>n. he_load e n (hs_pairing_id h) = Inr (Some r)"
    "hc_c2h s' = Some c2h" "hc_h2c s' = Some h2c"
    "derive (he_hkdf e) (hpr_key r) (hs_session_salt h) direction.ClientToHost = Inr c2h"
    "derive (he_hkdf e) (hpr_key r) (hs_session_salt h) direction.HostToClient = Inr h2c"
    "encode_packet_header (packet_header_new HandshakeAck_Pkt 0 (ucast (ms :: u64)) 0) = Inr header"
    "encode_handshake (handshake_ack e) = Inr ack"
    "sent_packets (hc_trace s') = sent_packets (hc_trace s) @ [header @ ack] @ more"
    "capabilities_contains (hs_capabilities h) PAIRING_TRUST \<longrightarrow>
       (\<exists>ms header body rest. encode_packet_header (packet_header_new Control_Pkt 0 (ucast (ms :: u64)) 0) = Inr header \<and>
         encode_control_message (PairingTrustGrant \<lparr>ptg_trust = hc_trust s'\<rparr>) = Inr body \<and> more = (header @ body) # rest)"
  using assms
proof (rule handle_handshake_steps)
  fix h fresh r t1 t2 t3 t4 t5 ack t6 t7 t8 t9 t10 t11 t12 t13 pong ping
  assume s: "decode_handshake payload = Inr h" "encode_handshake (handshake_ack e) = Inr ack"
    "claimed_record e h s = (t1, Done (fresh, r))"
    "hwhen (\<not> fresh) (stored_rights e r) t1 = (t2, Done ())" "check_identity e h t2 = (t3, Done ())"
    "negotiate e h r t3 = (t4, Done ())"
    "hwhen (\<not> capabilities_contains (hs_capabilities h) PAIRING_TRUST) (start_media e) t4 = (t5, Done ())"
    "send_tcp_packet e HandshakeAck_Pkt ack t5 = (t6, Done ())"
    "exchange_trust e fresh t6 = (t7, Done ())" "remember_pairing e fresh r t7 = (t8, Done ())"
    "admit e r t8 = (t9, Done ())"
    "hwhen (capabilities_contains (hs_capabilities h) PAIRING_TRUST) (start_media e) t9 = (t10, Done ())"
    "hwhen (capabilities_contains (hs_capabilities h) STREAM_OPTIONS) (
       hthen (hmodify (\<lambda>s. s\<lparr>hc_last_policy := policy_of (hc_effective s)\<rparr>)) (
       hbind (displays_m e) (\<lambda>displays.
       send_tcp_control e (HostDisplayList \<lparr>hdl_displays = displays\<rparr>)))) t10 = (t11, Done ())"
    "now_m e t11 = (t12, Done pong)" "now_m e t12 = (t13, Done ping)"
    "s' = t13\<lparr>hc_last_pong := pong, hc_next_ping := ping + HEARTBEAT_INTERVAL\<rparr>"
  note c1 = claimed_record_Done [OF s(3)]
  have c2: "sent_packets (hc_trace t2) = sent_packets (hc_trace t1)"
    using s(4) by (auto split: if_splits dest: stored_rights_Done)
  note c3 = check_identity_Done [OF s(5)] and c4 = negotiate_Done [OF s(6)] and c5 = core_state [OF s(7)]
    and c6 = packet_Done [OF s(8)] and c7 = exchange_trust_Done [OF s(9)] and c8 = remember_pairing_Done [OF s(10)]
    and c9 = admit_Done [OF s(11)] and c10 = core_state [OF s(12)] and c11 = displays_Done [OF s(13)]
  have c12: "core s' = core t11 \<and> hc_trace s' = hc_trace t11 \<and> hc_state s' = hc_state t11"
    using s(14-16) by (auto simp: now_m_def core_def)
  obtain c2h h2c where keys: "hc_c2h t4 = Some c2h" "hc_h2c t4 = Some h2c"
    "derive (he_hkdf e) (hpr_key r) (hs_session_salt h) direction.ClientToHost = Inr c2h"
    "derive (he_hkdf e) (hpr_key r) (hs_session_salt h) direction.HostToClient = Inr h2c" "hc_peer_caps t4 = hs_capabilities h"
    using c4 by blast
  have cores: "core t5 = core t4" "core t6 = core t4" "core t7 = core t4" "core s' = core t4"
    using c5 c6 c7 c8 c9 c10 c11 c12 by simp_all
  then have fields: "hc_c2h s' = Some c2h" "hc_h2c s' = Some h2c" "hc_peer_caps s' = hs_capabilities h"
    "hc_peer_caps t6 = hs_capabilities h" "hc_trust t6 = hc_trust s'"
    using keys by (simp_all add: core_def)
  obtain ms header where a: "encode_packet_header (packet_header_new HandshakeAck_Pkt 0 (ucast (ms :: u64)) 0) = Inr header"
    "sent_packets (hc_trace t6) = sent_packets (hc_trace s) @ [header @ ack]"
    using c1 c2 c3 c4 c5 c6 by auto
  obtain rest where rest: "sent_packets (hc_trace s') = sent_packets (hc_trace t7) @ rest"
    using c8 c9 c10 c11 c12 by auto
  obtain grant where grant: "sent_packets (hc_trace t7) = sent_packets (hc_trace t6) @ grant"
    "capabilities_contains (hs_capabilities h) PAIRING_TRUST \<longrightarrow>
       (\<exists>ms header body. encode_packet_header (packet_header_new Control_Pkt 0 (ucast (ms :: u64)) 0) = Inr header \<and>
         encode_control_message (PairingTrustGrant \<lparr>ptg_trust = hc_trust s'\<rparr>) = Inr body \<and> grant = [header @ body])"
    using c7 fields(4,5) by (cases "capabilities_contains (hs_capabilities h) PAIRING_TRUST") auto
  show thesis
  proof (rule that [OF s(1) _ fields(3) _ fields(1,2) keys(3,4) a(1) s(2), where more = "grant @ rest"])
    show "hc_state s' = Authenticated" using c9 c10 c11 c12 by simp
    show "case hc_provisional s of Some r0 \<Rightarrow> r = r0 | None \<Rightarrow> \<exists>n. he_load e n (hs_pairing_id h) = Inr (Some r)"
      using c1 by simp
    show "sent_packets (hc_trace s') = sent_packets (hc_trace s) @ [header @ ack] @ grant @ rest"
      using rest grant(1) a(2) by simp
    show "capabilities_contains (hs_capabilities h) PAIRING_TRUST \<longrightarrow>
       (\<exists>ms header body rest'. encode_packet_header (packet_header_new Control_Pkt 0 (ucast (ms :: u64)) 0) = Inr header \<and>
         encode_control_message (PairingTrustGrant \<lparr>ptg_trust = hc_trust s'\<rparr>) = Inr body \<and> grant @ rest = (header @ body) # rest')"
      using grant(2) by auto
  qed
qed

section \<open>The client on a connection without faults\<close>

definition faultless :: "connect_env \<Rightarrow> bool" where
  "faultless v \<longleftrightarrow> (\<forall>n. \<not> nv_cancelled v n \<and> nv_io v n = None \<and> (\<forall>h p. \<not> isl (nv_resolve v n h p)) \<and>
     (\<forall>bs. nv_write v n bs = Queued None) \<and> (\<forall>r. nv_save v n r = None) \<and> (\<forall>i. \<not> isl (nv_load v n i))) \<and>
     (\<forall>k n p a. nv_enc v k n p a \<noteq> None)"

lemma cbind_Inr: "m c = (c', Inr x) \<Longrightarrow> cbind m f c = f x c'"
  by (simp add: cbind_def)

lemma cthen_Inr: "m c = (c', Inr x) \<Longrightarrow> cthen m k c = k c'"
  by (simp add: cthen_def cbind_Inr)

lemma leaf_run [simp]:
  "cret x c = (c, Inr x)" "cfail error c = (c, Inl error)" "cget c = (c, Inr c)"
  "cask q c = (c\<lparr>cn_tick := cn_tick c + 1\<rparr>, Inr (q (cn_tick c)))" "clog ef c = (c\<lparr>cn_log := cn_log c @ [ef]\<rparr>, Inr ())"
  "csession f c = (c\<lparr>cn_session := f (cn_session c)\<rparr>, Inr ())" "cresult wrap (Inr y) = cret y" "ccheck wrap' None = cret ()"
  "cwhen b m = (if b then m else cret ())"
  by (simp_all add: cret_def cfail_def cget_def cask_def clog_def csession_def cresult_def ccheck_def cwhen_def)

lemma run_io [simp]: "faultless v \<Longrightarrow> io_m v c = (c\<lparr>cn_tick := cn_tick c + 1\<rparr>, Inr ())"
  by (simp add: io_m_def cbind_def faultless_def)

lemma run_resolve: "faultless v \<Longrightarrow> \<exists>a. resolve_one v h p c = (c\<lparr>cn_tick := cn_tick c + 1\<rparr>, Inr a)"
  by (auto simp: resolve_one_def cbind_def cresult_def faultless_def split: sum.splits)
     (metis isl_def old.sum.exhaust)

lemma run_check [simp]:
  "faultless v \<Longrightarrow> \<not> cs_cancelled (cn_session c) \<Longrightarrow> check_cancelled v c = (c\<lparr>cn_tick := cn_tick c + 1\<rparr>, Inr ())"
  by (simp add: check_cancelled_def is_cancelled_m_def cbind_def faultless_def)

lemma run_packet:
  assumes "faultless v"
  obtains packet where "packet_m v ty payload c =
    (c\<lparr>cn_session := cn_session c\<lparr>cs_next_tcp_sequence := cs_next_tcp_sequence (cn_session c) + 1\<rparr>,
       cn_tick := cn_tick c + 1, cn_log := cn_log c @ [PacketOut packet]\<rparr>, Inr ())"
  using assms
  by (simp add: packet_m_def Client_Session.send_packet_def Let_def encode_packet_header_def faultless_def)

lemma run_read:
  assumes "faultless v" "\<not> cs_cancelled (cn_session c)" "nv_read v (cn_tick c + 1) = Inr (header @ payload)"
    "encode_packet_header h = Inr header"
  shows "read_tcp_packet v c = (c\<lparr>cn_tick := cn_tick c + 3\<rparr>, Inr (h, payload))"
proof -
  have header: "length header = packet_header_SIZE" "decode_packet_header header = Inr h"
    using assms(4) by (auto simp: encode_packet_header_def decode_packet_header_Inr packet_header_SIZE_def)
  then show ?thesis
    using assms(1-3) by (simp add: read_tcp_packet_def cthen_def cbind_def)
qed

lemma run_register:
  assumes "faultless v" "derive hk key salt dir = Inr k"
  obtains d ms where "register_udp v k c =
    (c\<lparr>cn_tick := cn_tick c + 1, cn_log := cn_log c @ [DatagramOut d]\<rparr>, Inr (k\<lparr>dc_send_counter := 1\<rparr>))"
proof -
  have fresh: "dc_send_counter k = 0"
    using assms(2) by (auto simp: derive_def Let_def split: if_splits)
  let ?h = "packet_header_new Ping_Pkt 0 (ucast (nv_unix_ms v (cn_tick c))) 0"
  obtain d where "seal_datagram (nv_enc v) k ?h [] = (k\<lparr>dc_send_counter := 1\<rparr>, Inr d)"
    using assms(1) fresh by (fastforce simp: seal_datagram_def encode_packet_header_def seal_into_def Let_def
        faultless_def split: option.splits prod.splits)
  then show thesis by (intro that [of d]) (simp add: register_udp_def cbind_def cthen_def)
qed

lemma run_save [simp]:
  "faultless v \<Longrightarrow> save_m v r c = (c\<lparr>cn_tick := cn_tick c + 1, cn_log := cn_log c @ [RecordSaved r]\<rparr>, Inr ())"
  by (simp add: save_m_def cbind_def cthen_def faultless_def)

text \<open>Two stages of a connection on which the session and the route are the same.\<close>

definition same_session :: "connecting \<Rightarrow> connecting \<Rightarrow> bool" where
  "same_session c c' \<longleftrightarrow> cn_session c' = cn_session c \<and> cn_relay c' = cn_relay c"

lemma run_remember:
  assumes "faultless v"
  obtains c' where "remember_trust v server preference pairing c = (c', Inr ())" "same_session c c'"
proof -
  obtain found where "nv_load v (cn_tick c) (pr_id pairing) = Inr found"
    using assms unfolding faultless_def by (metis isl_def old.sum.exhaust)
  then have "\<exists>c'. remember_trust v server preference pairing c = (c', Inr ()) \<and> same_session c c'"
    using assms by (simp add: remember_trust_def cbind_def same_session_def split: option.split)
  then show thesis using that by blast
qed

lemma run_open_udp [simp]: "faultless v \<Longrightarrow> open_udp v c = (c\<lparr>cn_tick := cn_tick c + 3\<rparr>, Inr ())"
  by (simp add: open_udp_def cthen_Inr)

lemma run_ack:
  assumes "faultless v" "\<not> cs_cancelled (cn_session c)" "nv_read v (cn_tick c + 1) = Inr (header @ payload)"
    "encode_packet_header (packet_header_new HandshakeAck_Pkt sq ms fl) = Inr header" "decode_handshake payload = Inr server"
  shows "read_ack v c = (c\<lparr>cn_tick := cn_tick c + 3\<rparr>, Inr server)"
  using run_read [OF assms(1-4)] assms(5) by (simp add: read_ack_def packet_header_new_def)

lemma run_control:
  assumes "faultless v" "encode_control_message m = Inr body"
  obtains packet where "control_m v m c =
    (c\<lparr>cn_session := cn_session c\<lparr>cs_next_tcp_sequence := cs_next_tcp_sequence (cn_session c) + 1\<rparr>,
       cn_tick := cn_tick c + 1, cn_log := cn_log c @ [PacketOut packet]\<rparr>, Inr ())"
proof (rule run_packet [OF assms(1), of Control_Pkt body c])
  fix packet
  assume packet: "packet_m v Control_Pkt body c =
    (c\<lparr>cn_session := cn_session c\<lparr>cs_next_tcp_sequence := cs_next_tcp_sequence (cn_session c) + 1\<rparr>,
       cn_tick := cn_tick c + 1, cn_log := cn_log c @ [PacketOut packet]\<rparr>, Inr ())"
  have "control_m v m c = packet_m v Control_Pkt body c"
    by (simp add: control_m_def assms(2) cbind_def)
  then show thesis using packet by (intro that [of packet]) simp
qed

lemma decode_encoded_grant:
  assumes "encode_control_message (PairingTrustGrant \<lparr>ptg_trust = t\<rparr>) = Inr body"
  shows "decode_control_message body = Inr (PairingTrustGrant \<lparr>ptg_trust = t\<rparr>)"
proof -
  obtain rest where rest: "body_bytes (PairingTrustGrant \<lparr>ptg_trust = t\<rparr>) rest"
    "body = control_message_type_u8 (message_type (PairingTrustGrant \<lparr>ptg_trust = t\<rparr>)) # rest"
    using assms unfolding encode_control_message_Inr by blast
  show ?thesis
    unfolding decode_control_message_Inr
    using rest control_body_roundtrip [OF _ rest(1)] by auto
qed

lemma request_encodes: "r \<noteq> GuestExpiring 0 \<Longrightarrow> \<exists>body. encode_control_message (PairingTrustRequest \<lparr>ptr_trust = r\<rparr>) = Inr body"
  by (cases r) (simp_all add: encode_control_message_def encode_pairing_trust_request_def encode_pairing_trust_def codec_defs)

definition follows :: "connecting \<Rightarrow> connecting \<Rightarrow> bool" where
  "follows c c' \<longleftrightarrow> (\<exists>k. cn_session c' = cn_session c\<lparr>cs_next_tcp_sequence := k\<rparr>)"

lemma follows_same: "same_session c c' \<Longrightarrow> follows c c'"
  unfolding follows_def same_session_def by (rule exI [of _ "cs_next_tcp_sequence (cn_session c)"]) simp

lemma follows_trans: "follows a b \<Longrightarrow> follows b c \<Longrightarrow> follows a c"
  by (auto simp: follows_def)

lemma run_preference:
  assumes "faultless v" "preference \<noteq> Some (GuestExpiring 0)"
  obtains c' where "(case preference of Some trust \<Rightarrow> control_m v (PairingTrustRequest \<lparr>ptr_trust = trust\<rparr>) | None \<Rightarrow> cret ()) c =
      (c', Inr ())" "follows c c'" "cn_tick c \<le> cn_tick c'"
proof (cases preference)
  case None
  then show thesis by (intro that [of c]) (auto intro: follows_same simp: same_session_def)
next
  case (Some trust)
  then obtain body where "encode_control_message (PairingTrustRequest \<lparr>ptr_trust = trust\<rparr>) = Inr body"
    using request_encodes [of trust] assms(2) by blast
  from run_control [OF assms(1) this, of c] obtain packet where
    "control_m v (PairingTrustRequest \<lparr>ptr_trust = trust\<rparr>) c =
       (c\<lparr>cn_session := cn_session c\<lparr>cs_next_tcp_sequence := cs_next_tcp_sequence (cn_session c) + 1\<rparr>,
          cn_tick := cn_tick c + 1, cn_log := cn_log c @ [PacketOut packet]\<rparr>, Inr ())" .
  then show thesis using Some by (intro that) (auto simp: follows_def)
qed

text \<open>Whether the trust is negotiated is what both sides advertise.\<close>

definition trust_negotiated :: "capabilities \<Rightarrow> capabilities \<Rightarrow> bool" where
  "trust_negotiated mine theirs \<longleftrightarrow> capabilities_contains mine PAIRING_TRUST \<and> capabilities_contains theirs PAIRING_TRUST"

lemma run_trust:
  assumes v: "faultless v" and on: "\<not> cs_cancelled (cn_session c)"
    and preference: "preference \<noteq> Some (GuestExpiring 0)"
    and granted: "trust_negotiated (cs_capabilities (cn_session c)) (hs_capabilities server) \<Longrightarrow>
      (\<forall>n > cn_tick c. nv_read v n = Inr (gh @ body)) \<and> encode_packet_header h = Inr gh \<and> ph_packet_type h = Control_Pkt \<and>
        encode_control_message (PairingTrustGrant \<lparr>ptg_trust = t\<rparr>) = Inr body"
    and kept: "\<not> trust_negotiated (cs_capabilities (cn_session c)) (hs_capabilities server) \<Longrightarrow>
      preference \<in> {None, Some Owner} \<and> t = pr_trust pairing"
  obtains c' where "negotiate_trust v server preference pairing c = (c', Inr (pairing\<lparr>pr_trust := t\<rparr>))" "follows c c'"
proof (cases "trust_negotiated (cs_capabilities (cn_session c)) (hs_capabilities server)")
  case True
  have read: "\<And>n. n > cn_tick c \<Longrightarrow> nv_read v n = Inr (gh @ body)"
    "encode_packet_header h = Inr gh" "ph_packet_type h = Control_Pkt"
    "encode_control_message (PairingTrustGrant \<lparr>ptg_trust = t\<rparr>) = Inr body"
    using granted [OF True] by blast+
  obtain d where d: "(case preference of Some trust \<Rightarrow> control_m v (PairingTrustRequest \<lparr>ptr_trust = trust\<rparr>) | None \<Rightarrow> cret ()) c =
      (d, Inr ())" "follows c d" "cn_tick c \<le> cn_tick d"
    by (rule run_preference [OF v preference])
  have "\<not> cs_cancelled (cn_session d)" using on d(2) by (auto simp: follows_def)
  then have "read_tcp_packet v d = (d\<lparr>cn_tick := cn_tick d + 3\<rparr>, Inr (h, body))"
    using d(3) by (intro run_read [OF v _ _ read(2)] read(1)) simp_all
  moreover have "cthen (case preference of Some trust \<Rightarrow> control_m v (PairingTrustRequest \<lparr>ptr_trust = trust\<rparr>) | None \<Rightarrow> cret ()) k c = k d"
    for k :: "client_record cn" by (rule cthen_Inr) (rule d(1))
  ultimately have "negotiate_trust v server preference pairing c = (d\<lparr>cn_tick := cn_tick d + 3\<rparr>, Inr (pairing\<lparr>pr_trust := t\<rparr>))"
    using True by (simp add: negotiate_trust_def trust_negotiated_def cbind_Inr read(3)
        decode_encoded_grant [OF read(4)])
  then show thesis using d(2) by (intro that [of "d\<lparr>cn_tick := cn_tick d + 3\<rparr>"]) (auto simp: follows_def)
next
  case False
  with kept have "negotiate_trust v server preference pairing c = (c, Inr (pairing\<lparr>pr_trust := t\<rparr>))"
    by (auto simp: negotiate_trust_def trust_negotiated_def cbind_Inr Let_def)
  then show thesis by (rule that) (simp add: follows_same same_session_def)
qed

text \<open>The handshake up to the host's acknowledgement, whatever comes after it.\<close>

lemma run_until_ack:
  assumes v: "faultless v" and on: "\<not> cs_cancelled (cn_session c)"
    and hello: "encode_handshake (client_hello (cn_session c) (pr_id pairing) (nv_salt v (cn_tick c))) = Inr hello"
    and ack: "nv_read v (cn_tick c + 4) = Inr (header @ ack)"
      "encode_packet_header (packet_header_new HandshakeAck_Pkt 0 ms 0) = Inr header" "decode_handshake ack = Inr server"
  obtains c' where "begin_handshake_with_trust v pairing preference c =
      finish_handshake v pairing preference (nv_salt v (cn_tick c)) server c'"
    "cs_capabilities (cn_session c') = cs_capabilities (cn_session c)" "\<not> cs_cancelled (cn_session c')"
    "cn_tick c' = cn_tick c + 6"
proof -
  let ?salt = "nv_salt v (cn_tick c)"
  let ?s0 = "(cn_session c)\<lparr>cs_pairing := Some (pairing_record.truncate pairing), cs_session_salt := Some ?salt,
      cs_state := AwaitingHandshakeAck\<rparr>"
  let ?c0 = "c\<lparr>cn_session := ?s0, cn_tick := cn_tick c + 2\<rparr>"
  have hello': "encode_handshake (client_hello ?s0 (pr_id pairing) ?salt) = Inr hello"
    using hello by (simp add: client_hello_def)
  obtain packet where sent: "packet_m v Handshake_Pkt hello ?c0 =
    (?c0\<lparr>cn_session := ?s0\<lparr>cs_next_tcp_sequence := cs_next_tcp_sequence ?s0 + 1\<rparr>,
       cn_tick := cn_tick ?c0 + 1, cn_log := cn_log ?c0 @ [PacketOut packet]\<rparr>, Inr ())"
    by (rule run_packet [OF v, of Handshake_Pkt hello ?c0]) simp
  let ?c1 = "?c0\<lparr>cn_session := ?s0\<lparr>cs_next_tcp_sequence := cs_next_tcp_sequence ?s0 + 1\<rparr>,
       cn_tick := cn_tick ?c0 + 1, cn_log := cn_log ?c0 @ [PacketOut packet]\<rparr>"
  let ?c2 = "?c1\<lparr>cn_tick := cn_tick ?c1 + 3\<rparr>"
  have acked: "read_ack v ?c1 = (?c2, Inr server)"
    using v on ack by (intro run_ack) (simp_all add: eval_nat_numeral)
  have "begin_handshake_with_trust v pairing preference c = finish_handshake v pairing preference ?salt server ?c2"
    using sent acked by (simp add: begin_handshake_with_trust_def cthen_def cbind_def v hello')
  then show thesis using on by (intro that [of ?c2]) simp_all
qed

text \<open>The whole handshake, when the host's packets are an acknowledgement and, if it is negotiated, a grant.\<close>

lemma run_handshake:
  assumes v: "faultless v" and on: "\<not> cs_cancelled (cn_session c)"
    and preference: "preference \<noteq> Some (GuestExpiring 0)"
    and hello: "encode_handshake (client_hello (cn_session c) (pr_id pairing) (nv_salt v (cn_tick c))) = Inr hello"
    and ack: "nv_read v (cn_tick c + 4) = Inr (header @ ack)"
      "encode_packet_header (packet_header_new HandshakeAck_Pkt 0 ms 0) = Inr header" "decode_handshake ack = Inr server"
    and registration: "capabilities_contains (hs_capabilities server) AUTHENTICATED_UDP_REGISTRATION"
    and granted: "trust_negotiated (cs_capabilities (cn_session c)) (hs_capabilities server) \<Longrightarrow>
      (\<forall>n > cn_tick c + 4. nv_read v n = Inr (gh @ body)) \<and> encode_packet_header h = Inr gh \<and> ph_packet_type h = Control_Pkt \<and>
        encode_control_message (PairingTrustGrant \<lparr>ptg_trust = t\<rparr>) = Inr body"
    and kept: "\<not> trust_negotiated (cs_capabilities (cn_session c)) (hs_capabilities server) \<Longrightarrow>
      preference \<in> {None, Some Owner} \<and> t = pr_trust pairing"
    and keys: "derive (nv_hkdf v) (pr_key pairing) (nv_salt v (cn_tick c)) direction.ClientToHost = Inr c2h"
      "derive (nv_hkdf v) (pr_key pairing) (nv_salt v (cn_tick c)) direction.HostToClient = Inr h2c"
  obtains c' where "begin_handshake_with_trust v pairing preference c = (c', Inr \<lparr>rds_pairing = pairing\<lparr>pr_trust := t\<rparr>,
      rds_server = server, rds_session_salt = nv_salt v (cn_tick c)\<rparr>)"
    "cs_state (cn_session c') = Ready" "cs_udp_send (cn_session c') = Some (c2h\<lparr>dc_send_counter := 1\<rparr>)"
    "cs_udp_receive (cn_session c') = Some h2c" "si_pairing_trust (ps_info (cs_parity (cn_session c'))) = Some t"
proof -
  let ?salt = "nv_salt v (cn_tick c)"
  obtain c2 where start: "begin_handshake_with_trust v pairing preference c = finish_handshake v pairing preference ?salt server c2"
    "cs_capabilities (cn_session c2) = cs_capabilities (cn_session c)" "\<not> cs_cancelled (cn_session c2)" "cn_tick c2 = cn_tick c + 6"
    by (rule run_until_ack [OF v on hello ack])
  obtain c3 where trusted: "negotiate_trust v server preference pairing c2 = (c3, Inr (pairing\<lparr>pr_trust := t\<rparr>))"
    "follows c2 c3"
    by (rule run_trust [OF v start(3) preference, where server = server and t = t and pairing = pairing and gh = gh
        and body = body and h = h]) (use granted kept start(2,4) in auto)
  obtain c4 where remembered: "remember_trust v server preference (pairing\<lparr>pr_trust := t\<rparr>) c3 = (c4, Inr ())"
    "same_session c3 c4"
    by (rule run_remember [OF v])
  have key: "key_array (pairing\<lparr>pr_trust := t\<rparr>) = Inr (pr_key pairing)"
    using keys(1) by (auto simp: key_array_def derive_def PAIRING_KEY_SIZE_def split: if_splits)
  have route: "resolve_one v host port d = (d\<lparr>cn_tick := cn_tick d + 1\<rparr>, Inr (projr (nv_resolve v (cn_tick d) host port)))"
    for host port d
    using run_resolve [OF v, of host port d] by (auto simp: resolve_one_def cbind_def cresult_def split: sum.splits)
  have "\<exists>packet. register_udp v c2h d = (d\<lparr>cn_tick := cn_tick d + 1, cn_log := cn_log d @ [DatagramOut packet]\<rparr>,
      Inr (c2h\<lparr>dc_send_counter := 1\<rparr>))" for d
    by (rule run_register [OF v keys(1), of d]) blast
  then obtain packets where registered: "\<And>d. register_udp v c2h d =
      (d\<lparr>cn_tick := cn_tick d + 1, cn_log := cn_log d @ [DatagramOut (packets d)]\<rparr>, Inr (c2h\<lparr>dc_send_counter := 1\<rparr>))"
    by metis
  have "\<exists>c'. finish_handshake v pairing preference ?salt server c2 = (c', Inr \<lparr>rds_pairing = pairing\<lparr>pr_trust := t\<rparr>,
      rds_server = server, rds_session_salt = ?salt\<rparr>) \<and> cs_state (cn_session c') = Ready \<and>
      cs_udp_send (cn_session c') = Some (c2h\<lparr>dc_send_counter := 1\<rparr>) \<and>
      cs_udp_receive (cn_session c') = Some h2c \<and> si_pairing_trust (ps_info (cs_parity (cn_session c'))) = Some t"
    using trusted(1) remembered(1)
    by (simp add: finish_handshake_def cthen_def cbind_def v registration key keys route registered split: option.split)
  then show thesis using that start(1) by auto
qed

text \<open>A client that cannot negotiate the trust and is asked for less than the owner's breaks off.\<close>

lemma run_refused:
  assumes v: "faultless v" and on: "\<not> cs_cancelled (cn_session c)"
    and hello: "encode_handshake (client_hello (cn_session c) (pr_id pairing) (nv_salt v (cn_tick c))) = Inr hello"
    and ack: "nv_read v (cn_tick c + 4) = Inr (header @ ack)"
      "encode_packet_header (packet_header_new HandshakeAck_Pkt 0 ms 0) = Inr header" "decode_handshake ack = Inr server"
    and alone: "\<not> trust_negotiated (cs_capabilities (cn_session c)) (hs_capabilities server)"
    and guest: "preference \<notin> {None, Some Owner}"
  shows "\<exists>c'. begin_handshake_with_trust v pairing preference c = (c', Inl UnsupportedError) \<and> cs_cancelled (cn_session c')"
proof -
  obtain c2 where start: "begin_handshake_with_trust v pairing preference c =
      finish_handshake v pairing preference (nv_salt v (cn_tick c)) server c2"
    "cs_capabilities (cn_session c2) = cs_capabilities (cn_session c)"
    by (rule run_until_ack [OF v on hello ack])
  obtain trust where "preference = Some trust" "trust \<noteq> Owner" using guest by (cases preference) auto
  then show ?thesis
    using alone start(2) unfolding start(1) trust_negotiated_def
    by (auto simp: finish_handshake_def negotiate_trust_def cbind_def cthen_def Let_def client_interrupt_def)
qed

section \<open>Both sides\<close>

lemma implemented_bits:
  "capabilities_contains (and x implemented_capabilities) PAIRING_TRUST \<longleftrightarrow> capabilities_contains x PAIRING_TRUST"
  "capabilities_contains (and x implemented_capabilities) AUTHENTICATED_UDP_REGISTRATION \<longleftrightarrow>
     capabilities_contains x AUTHENTICATED_UDP_REGISTRATION"
  by (simp_all add: capabilities_contains_def implemented_capabilities_def capabilities_bitor_def STREAM_CONFIGURATION_def
      TEXT_CLIPBOARD_SYNC_def AUTHENTICATED_UDP_REGISTRATION_def STREAM_OPTIONS_def HOST_STATUS_def SESSION_ENDED_def
      GUEST_PERMISSIONS_def SECURE_ATTENTION_def RTT_PROBE_def CLIPBOARD_IMAGE_def PAIRING_TRUST_def and.assoc)

lemma ack_bits:
  "capabilities_contains (hs_capabilities (handshake_ack e)) AUTHENTICATED_UDP_REGISTRATION"
  "capabilities_contains (hs_capabilities (handshake_ack e)) PAIRING_TRUST \<longleftrightarrow> capabilities_contains (he_caps e) PAIRING_TRUST"
proof -
  have "and (or (or (or 1 128) 256) (he_caps e)) 8192 = and (he_caps e) (8192 :: u64)"
    by (simp add: bit.conj_disj_distrib2)
  then show "capabilities_contains (hs_capabilities (handshake_ack e)) PAIRING_TRUST \<longleftrightarrow>
      capabilities_contains (he_caps e) PAIRING_TRUST"
    by (simp add: handshake_ack_def capabilities_contains_def capabilities_bitor_def STREAM_CONFIGURATION_def
        AUTHENTICATED_UDP_REGISTRATION_def STREAM_OPTIONS_def PAIRING_TRUST_def)
  have "and (or (or (or 1 128) 256) (he_caps e)) 128 = (128 :: u64)"
    by (simp add: bit.conj_disj_distrib2 word_ao_absorbs)
  then show "capabilities_contains (hs_capabilities (handshake_ack e)) AUTHENTICATED_UDP_REGISTRATION"
    by (simp add: handshake_ack_def capabilities_contains_def capabilities_bitor_def STREAM_CONFIGURATION_def
        AUTHENTICATED_UDP_REGISTRATION_def STREAM_OPTIONS_def)
qed

section \<open>Properties\<close>

text \<open>C8. The handshake, run by both sides: let the client's hello be what the host's \<open>handle_handshake\<close> is given, and
  the host's first packets what the client reads; both know the same pairing key, nothing fails on the
  client's side, and an expiry that the client asks for is not zero (which has no encoding). If the host
  admits the client, then the client gets ready, and both have the same two keys: what the client seals
  with is what the host opens with and the other way round (the client has used one counter, for its
  registration). The host has the capabilities that the client advertises, and a client that negotiates
  the trust has the trust the host granted. The one exception is a client without the capability to
  negotiate the trust which asks for less than the owner's: it breaks off with \<open>Unsupported\<close>, although
  the host has admitted it.\<close>

theorem handshake_agreement:
  assumes "handle_handshake e payload s = (s', Done ())"
    and "encode_handshake (client_hello (cn_session c) (pr_id pairing) (nv_salt v (cn_tick c))) = Inr payload"
    and "utf8_valid (cs_client_name (cn_session c))" and "utf8_valid (pr_id pairing)"
    and "length (nv_salt v (cn_tick c)) = 16" and "utf8_valid (hcf_host_name (he_config e))"
    and "nv_hkdf v = he_hkdf e" and "capabilities_contains (he_caps e) PAIRING_TRUST"
    and "case hc_provisional s of Some r \<Rightarrow> hpr_key r = pr_key pairing
         | None \<Rightarrow> \<forall>n r. he_load e n (pr_id pairing) = Inr (Some r) \<longrightarrow> hpr_key r = pr_key pairing"
    and "sent_packets (hc_trace s') = sent_packets (hc_trace s) @ p # q"
    and "\<And>n. nv_read v n = Inr (if n \<le> cn_tick c + 4 then p else hd q)"
    and "faultless v" and "\<not> cs_cancelled (cn_session c)"
    and "preference \<noteq> Some (GuestExpiring 0)"
  shows "hc_state s' = Authenticated \<and>
    (if \<not> capabilities_contains (cs_capabilities (cn_session c)) PAIRING_TRUST \<and> preference \<notin> {None, Some Owner}
     then \<exists>c'. begin_handshake_with_trust v pairing preference c = (c', Inl UnsupportedError) \<and> cs_cancelled (cn_session c')
     else \<exists>c' ready c2h h2c. begin_handshake_with_trust v pairing preference c = (c', Inr ready) \<and>
       cs_state (cn_session c') = Ready \<and>
       hc_c2h s' = Some c2h \<and> cs_udp_send (cn_session c') = Some (c2h\<lparr>dc_send_counter := 1\<rparr>) \<and>
       hc_h2c s' = Some h2c \<and> cs_udp_receive (cn_session c') = Some h2c \<and>
       hc_peer_caps s' = and (cs_capabilities (cn_session c)) implemented_capabilities \<and>
       rds_server ready = handshake_ack e \<and>
       (capabilities_contains (cs_capabilities (cn_session c)) PAIRING_TRUST \<longrightarrow>
          pr_trust (rds_pairing ready) = hc_trust s' \<and>
          si_pairing_trust (ps_info (cs_parity (cn_session c'))) = Some (hc_trust s')))"
  using assms(1)
proof (rule handle_handshake_Done)
  fix h r c2h h2c ms header ack more
  assume host: "decode_handshake payload = Inr h" "hc_state s' = Authenticated" "hc_peer_caps s' = hs_capabilities h"
    "case hc_provisional s of Some r0 \<Rightarrow> r = r0 | None \<Rightarrow> \<exists>n. he_load e n (hs_pairing_id h) = Inr (Some r)"
    "hc_c2h s' = Some c2h" "hc_h2c s' = Some h2c"
    "derive (he_hkdf e) (hpr_key r) (hs_session_salt h) direction.ClientToHost = Inr c2h"
    "derive (he_hkdf e) (hpr_key r) (hs_session_salt h) direction.HostToClient = Inr h2c"
    "encode_packet_header (packet_header_new HandshakeAck_Pkt 0 (ucast (ms :: u64)) 0) = Inr header"
    "encode_handshake (handshake_ack e) = Inr ack"
    "sent_packets (hc_trace s') = sent_packets (hc_trace s) @ [header @ ack] @ more"
    "capabilities_contains (hs_capabilities h) PAIRING_TRUST \<longrightarrow>
       (\<exists>ms header body rest. encode_packet_header (packet_header_new Control_Pkt 0 (ucast (ms :: u64)) 0) = Inr header \<and>
         encode_control_message (PairingTrustGrant \<lparr>ptg_trust = hc_trust s'\<rparr>) = Inr body \<and> more = (header @ body) # rest)"
  let ?hello = "client_hello (cn_session c) (pr_id pairing) (nv_salt v (cn_tick c))"
  have "decode_handshake payload = Inr ?hello"
    using assms(2-5) by (simp add: decode_handshake_Inr handshake_inv_def client_hello_def SESSION_SALT_SIZE_def)
  with host(1) have h: "hs_capabilities h = and (cs_capabilities (cn_session c)) implemented_capabilities"
    "hs_pairing_id h = pr_id pairing" "hs_session_salt h = nv_salt v (cn_tick c)"
    by (auto simp: client_hello_def)
  have key: "hpr_key r = pr_key pairing"
    using assms(9) host(4) by (auto simp: h split: option.splits)
  have server: "decode_handshake ack = Inr (handshake_ack e)"
    using host(10) assms(6) by (simp add: decode_handshake_Inr handshake_inv_def handshake_ack_def SESSION_SALT_SIZE_def)
  have reads: "p = header @ ack" "q = more" using assms(10) host(11) by simp_all
  have caps: "trust_negotiated (cs_capabilities (cn_session c)) (hs_capabilities (handshake_ack e)) \<longleftrightarrow>
      capabilities_contains (cs_capabilities (cn_session c)) PAIRING_TRUST"
    using assms(8) by (simp add: trust_negotiated_def ack_bits)
  let ?trust = "if capabilities_contains (cs_capabilities (cn_session c)) PAIRING_TRUST then hc_trust s' else pr_trust pairing"
  obtain gms gh body where granted: "capabilities_contains (cs_capabilities (cn_session c)) PAIRING_TRUST \<Longrightarrow>
      encode_packet_header (packet_header_new Control_Pkt 0 (ucast (gms :: u64)) 0) = Inr gh \<and>
      encode_control_message (PairingTrustGrant \<lparr>ptg_trust = hc_trust s'\<rparr>) = Inr body \<and> hd q = gh @ body"
    using host(12) by (force simp: h implemented_bits reads)
  have read: "nv_read v (cn_tick c + 4) = Inr (header @ ack)" by (simp add: assms(11) reads)
  show ?thesis
  proof (cases "\<not> capabilities_contains (cs_capabilities (cn_session c)) PAIRING_TRUST \<and> preference \<notin> {None, Some Owner}")
    case True
    then show ?thesis
      using run_refused [OF assms(12,13,2) read host(9) server, of preference] caps host(2) by simp
  next
    case False
    show ?thesis
    proof (rule run_handshake [OF assms(12-14,2) read host(9) server ack_bits(1), where t = ?trust and gh = gh and body = body
          and h = "packet_header_new Control_Pkt 0 (ucast gms) 0" and c2h = c2h and h2c = h2c])
      assume "trust_negotiated (cs_capabilities (cn_session c)) (hs_capabilities (handshake_ack e))"
      then show "(\<forall>n > cn_tick c + 4. nv_read v n = Inr (gh @ body)) \<and>
          encode_packet_header (packet_header_new Control_Pkt 0 (ucast gms) 0) = Inr gh \<and>
          ph_packet_type (packet_header_new Control_Pkt 0 (ucast gms) 0) = Control_Pkt \<and>
          encode_control_message (PairingTrustGrant \<lparr>ptg_trust = ?trust\<rparr>) = Inr body"
        using granted caps by (simp add: assms(11) packet_header_new_def)
    next
      assume "\<not> trust_negotiated (cs_capabilities (cn_session c)) (hs_capabilities (handshake_ack e))"
      then show "preference \<in> {None, Some Owner} \<and> ?trust = pr_trust pairing"
        using False caps by simp
    next
      fix c'
      assume "begin_handshake_with_trust v pairing preference c = (c', Inr \<lparr>rds_pairing = pairing\<lparr>pr_trust := ?trust\<rparr>,
          rds_server = handshake_ack e, rds_session_salt = nv_salt v (cn_tick c)\<rparr>)"
        "cs_state (cn_session c') = Ready" "cs_udp_send (cn_session c') = Some (c2h\<lparr>dc_send_counter := 1\<rparr>)"
        "cs_udp_receive (cn_session c') = Some h2c" "si_pairing_trust (ps_info (cs_parity (cn_session c'))) = Some ?trust"
      with False show ?thesis using host(2,3,5,6) h(1) by auto
    qed (use host(7,8) in \<open>simp_all add: h key assms(7)\<close>)
  qed
qed

subsection \<open>A handshake that both sides accept\<close>

definition agreeing_client :: connecting where
  "agreeing_client = \<lparr>cn_session = Client_Session.sample_session\<lparr>
       cs_capabilities := capabilities_bitor AUTHENTICATED_UDP_REGISTRATION PAIRING_TRUST, cs_client_name := ascii ''laptop''\<rparr>,
     cn_tick = 0, cn_log = [], cn_relay = None\<rparr>"

definition agreeing_record :: client_record where
  "agreeing_record = \<lparr>pr_id = ascii ''P'', pr_name = ascii ''host'', pr_key = replicate 32 9, pr_trust = GuestOnce,
     cr_added_at_unix_ms = 0, cr_last_endpoint = None, cr_endpoint_aliases = [], cr_relay_url = None,
     cr_relay_host_id = None\<rparr>"

definition agreeing_env :: "bytes \<Rightarrow> bytes list \<Rightarrow> connect_env" where
  "agreeing_env p q = \<lparr>nv_host = ascii ''host'', nv_tcp_port = 1, nv_udp_port = 2, nv_kd = \<lparr>kd_pbkdf2_hmac = (\<lambda>_ _ _ _. None), kd_hkdf_sha256 = (\<lambda>_ _ _ n. replicate n 0)\<rparr>,
     nv_hkdf = he_hkdf Host_Sample.sample_env, nv_enc = (\<lambda>_ _ _ bs. Some (bs, replicate 16 0)), nv_decode = (\<lambda>_ _ _ _. True),
     nv_salt = (\<lambda>_. replicate 16 7), nv_unix_ms = (\<lambda>_. 0), nv_now = (\<lambda>_. 0), nv_runtime = False, nv_cancelled = (\<lambda>_. False),
     nv_resolve = (\<lambda>_ _ _. Inr (0, 0)), nv_connect = (\<lambda>_. None), nv_io = (\<lambda>_. None), nv_tls_new = (\<lambda>_ _. None),
     nv_tls = (\<lambda>_ _. None), nv_write = (\<lambda>_ _. Queued None), nv_read = (\<lambda>n. Inr (if n \<le> 4 then p else hd q)),
     nv_save = (\<lambda>_ _. None), nv_load = (\<lambda>_ _. Inr None), nv_secret = (\<lambda>_. None), nv_bridge = (\<lambda>_ _ _ _. None)\<rparr>"

abbreviation agreeing_hello :: handshake where
  "agreeing_hello \<equiv> client_hello (cn_session agreeing_client) (ascii ''P'') (replicate 16 7)"

lemma agreeing_hello_caps:
  "hs_capabilities agreeing_hello = 8320" "hs_pairing_id agreeing_hello = ascii ''P''"
  "hs_session_salt agreeing_hello = replicate 16 7" "hs_version agreeing_hello = PROTOCOL_VERSION"
  by (simp_all add: client_hello_def agreeing_client_def implemented_capabilities_def capabilities_bitor_def
      STREAM_CONFIGURATION_def TEXT_CLIPBOARD_SYNC_def AUTHENTICATED_UDP_REGISTRATION_def STREAM_OPTIONS_def HOST_STATUS_def
      SESSION_ENDED_def GUEST_PERMISSIONS_def SECURE_ATTENTION_def RTT_PROBE_def CLIPBOARD_IMAGE_def PAIRING_TRUST_def)

lemma agreeing_hello_encodes:
  obtains payload where "encode_handshake agreeing_hello = Inr payload" "decode_handshake payload = Inr agreeing_hello"
proof -
  obtain payload where payload: "encode_handshake agreeing_hello = Inr payload"
    using encode_handshake_defined [of agreeing_hello]
    by (auto simp: client_hello_def agreeing_client_def handshake_limits)
  moreover have "handshake_inv agreeing_hello"
    by (simp add: handshake_inv_def client_hello_def agreeing_client_def SESSION_SALT_SIZE_def)
  ultimately show thesis by (intro that [of payload]) (simp_all add: decode_handshake_Inr)
qed

lemma agreeing_host:
  assumes "decode_handshake payload = Inr h" "hs_capabilities h = 8320" "hs_pairing_id h = ascii ''P''"
    "hs_session_salt h = replicate 16 7" "hs_version h = PROTOCOL_VERSION"
  shows "\<exists>s'. handle_handshake Host_Sample.sample_env payload (host_conn_blank Host_Sample.sample_env) = (s', Done ()) \<and>
    hc_trust s' = Owner"
proof -
  obtain ack where a: "encode_handshake (handshake_ack Host_Sample.sample_env) = Inr ack"
    using encode_handshake_defined [of "handshake_ack Host_Sample.sample_env"]
    by (auto simp: handshake_ack_def sample_config_def handshake_limits)
  obtain grant where g: "encode_control_message (PairingTrustGrant \<lparr>ptg_trust = Owner\<rparr>) = Inr grant"
    by (auto simp: encode_control_message_def encode_pairing_trust_grant_def encode_pairing_trust_def codec_defs)
  have bits: "capabilities_contains 8320 PAIRING_TRUST" "capabilities_contains 8320 AUTHENTICATED_UDP_REGISTRATION"
    "\<not> capabilities_contains 8320 STREAM_OPTIONS" "\<not> capabilities_contains 8320 GUEST_PERMISSIONS"
    "\<not> capabilities_contains 8320 TEXT_CLIPBOARD_SYNC"
    by (simp_all add: capabilities_contains_def PAIRING_TRUST_def AUTHENTICATED_UDP_REGISTRATION_def STREAM_OPTIONS_def
        GUEST_PERMISSIONS_def TEXT_CLIPBOARD_SYNC_def)
  show ?thesis
    by (simp add: assms hm_eval bits a g
        handle_handshake_def claimed_record_def stored_rights_def check_identity_def strip_prefix_def starts_with_def
        negotiate_def start_media_def exchange_trust_def remember_pairing_def admit_def derive_def send_permissions_def
        permissions_message_def ceiling_m_def now_m_def send_tcp_packet_def send_tcp_control_def encode_packet_header_def
        sample_record_def Let_def permission_ceiling_def host_conn_blank_def sample_config_def)
qed

theorem handshake_agreement_witness:
  "\<exists>payload s' p q c' ready c2h.
     encode_handshake agreeing_hello = Inr payload \<and>
     handle_handshake Host_Sample.sample_env payload (host_conn_blank Host_Sample.sample_env) = (s', Done ()) \<and>
     begin_handshake_with_trust (agreeing_env p q) agreeing_record (Some Owner) agreeing_client = (c', Inr ready) \<and>
     cs_state (cn_session c') = Ready \<and> hc_state s' = Authenticated \<and>
     hc_c2h s' = Some c2h \<and> cs_udp_send (cn_session c') = Some (c2h\<lparr>dc_send_counter := 1\<rparr>) \<and>
     pr_trust (rds_pairing ready) = Owner"
proof -
  obtain payload where payload: "encode_handshake agreeing_hello = Inr payload" "decode_handshake payload = Inr agreeing_hello"
    by (rule agreeing_hello_encodes)
  obtain s' where s': "handle_handshake Host_Sample.sample_env payload (host_conn_blank Host_Sample.sample_env) = (s', Done ())"
    "hc_trust s' = Owner"
    using agreeing_host [OF payload(2) agreeing_hello_caps] by blast
  obtain p q where pq: "sent_packets (hc_trace s') = sent_packets (hc_trace (host_conn_blank Host_Sample.sample_env)) @ p # q"
    by (rule handle_handshake_Done [OF s'(1)]) auto
  have caps: "capabilities_contains (cs_capabilities (cn_session agreeing_client)) PAIRING_TRUST"
    "capabilities_contains (he_caps Host_Sample.sample_env) PAIRING_TRUST"
    by (simp_all add: agreeing_client_def caps_eval Let_def)
  let ?run = "begin_handshake_with_trust (agreeing_env p q) agreeing_record (Some Owner) agreeing_client"
  let ?caps = "cs_capabilities (cn_session agreeing_client)"
  have "hc_state s' = Authenticated \<and>
    (if \<not> capabilities_contains ?caps PAIRING_TRUST \<and> Some Owner \<notin> {None, Some Owner}
     then \<exists>c'. ?run = (c', Inl UnsupportedError) \<and> cs_cancelled (cn_session c')
     else \<exists>c' ready c2h h2c. ?run = (c', Inr ready) \<and> cs_state (cn_session c') = Ready \<and>
       hc_c2h s' = Some c2h \<and> cs_udp_send (cn_session c') = Some (c2h\<lparr>dc_send_counter := 1\<rparr>) \<and>
       hc_h2c s' = Some h2c \<and> cs_udp_receive (cn_session c') = Some h2c \<and>
       hc_peer_caps s' = and ?caps implemented_capabilities \<and>
       rds_server ready = handshake_ack Host_Sample.sample_env \<and>
       (capabilities_contains ?caps PAIRING_TRUST \<longrightarrow>
          pr_trust (rds_pairing ready) = hc_trust s' \<and>
          si_pairing_trust (ps_info (cs_parity (cn_session c'))) = Some (hc_trust s')))"
  proof (rule handshake_agreement [OF s'(1) _ _ _ _ _ _ caps(2) _ pq])
    show "encode_handshake (client_hello (cn_session agreeing_client) (pr_id agreeing_record)
        (nv_salt (agreeing_env p q) (cn_tick agreeing_client))) = Inr payload"
      using payload(1) by (simp add: agreeing_record_def agreeing_env_def)
    show "Some Owner \<noteq> Some (GuestExpiring 0)" by simp
    show "faultless (agreeing_env p q)" by (simp add: faultless_def agreeing_env_def)
    show "\<And>n. nv_read (agreeing_env p q) n = Inr (if n \<le> cn_tick agreeing_client + 4 then p else hd q)"
      by (simp add: agreeing_env_def agreeing_client_def)
    show "case hc_provisional (host_conn_blank Host_Sample.sample_env) of
        Some r \<Rightarrow> hpr_key r = pr_key agreeing_record
      | None \<Rightarrow> \<forall>n r. he_load Host_Sample.sample_env n (pr_id agreeing_record) = Inr (Some r) \<longrightarrow>
          hpr_key r = pr_key agreeing_record"
      by (simp add: host_conn_blank_def sample_record_def agreeing_record_def Let_def)
  qed (simp_all add: agreeing_client_def agreeing_record_def agreeing_env_def sample_config_def Client_Session.sample_session_def)
  then show ?thesis using payload(1) s' caps(1) by metis
qed

end
