(* ===== verification/Spec2Isabelle.thy ===== *)
theory Spec2Isabelle
  imports Maho_Prelude Codec Packet Framing F32 Input_Event Handshake Pairing Media_Wire Parity_Wire
    Control_Body Control Relay_Wire Udp_Gcm Std_Collections Chunk_Sets Frame_Assembler Frame_Order
    Frame_Queue Audio_Reassembly Relay_Server Relay_Tasks Relay_Isolation Relay_Exec Relay_Safety
    Udp_Sender Tls_Psk Tls_Stream Client_Types Clipboard_Image Client_Session Client_Threads
    Udp_Delivery End_To_End Guest_Registry Host_Types Host_Session Host_Logic Host_Safety
    Host_Admission Host_Sample Host_Properties F64 Host_Store Store_Safety Host_Serve Host_Sender
    Host_Cleanup File_Io Client_Store Client_Store_Safety Client_Dates Client_Handshake
    Handshake_Agreement
begin

text \<open>
  MahoRD is a remote desktop in Rust (\<open>clients/rust\<close>). A host captures its screen and sound and sends
  them to a client as encrypted datagrams; the client sends input and control messages over a TCP
  connection secured with TLS and a pre-shared key; a relay carries both when the two cannot reach
  each other. This development models the protocol and the state machines of all three.

  The wire format (\<open>maho-proto\<close>). \<open>Codec\<close> has the reader and writer of \<open>codec.rs\<close> and its errors,
  \<open>Packet\<close> the packet header, \<open>Framing\<close> the length-prefixed TCP frames and their incremental reader,
  \<open>Input_Event\<close>, \<open>Handshake\<close>, \<open>Pairing\<close>, \<open>Media_Wire\<close>, \<open>Parity_Wire\<close> and \<open>Control_Body\<close> the messages,
  \<open>Control\<close> the control message over all its bodies with the capability each type needs,
  \<open>Relay_Wire\<close> the relay's frames, host ids and tokens. For each message a lemma \<open>decode_x_Inr\<close> says
  which bytes decode to which value; the round trips and the canonicity of the encoding follow from
  it through the interpretations of the locale \<open>wire_codec\<close> of \<open>Codec\<close> and its extension \<open>canonical_codec\<close>.

  The datagrams. \<open>Udp_Gcm\<close> models \<open>maho-net/src/udp_gcm.rs\<close>: key derivation, sealing, opening and
  the replay window, over parameters for AES-GCM and HKDF. The window is proved to refine a set of
  accepted counters. \<open>Udp_Sender\<close> is the host's \<open>UdpSender\<close> (\<open>maho-host/src/session.rs\<close>): packets,
  video frames cut into chunks, cursor updates, audio fragments.

  The media on the client (\<open>maho-app\<close>). \<open>Frame_Assembler\<close> and \<open>Frame_Order\<close> model \<open>media.rs\<close>: the
  assembler with its orphan chunks, expiry, eviction and loss samples, and the proof that a frame is
  completed with its own bytes whatever the order of arrival. \<open>Audio_Reassembly\<close> is \<open>audio.rs\<close>;
  both rest on \<open>Chunk_Sets\<close>. \<open>Frame_Queue\<close> is the queue between receiver and decoder with its key
  frame recovery. \<open>Std_Collections\<close> models the maps of the standard library that they use.

  The TLS connection (\<open>maho-net/src/tls_psk.rs\<close>). \<open>Tls_Psk\<close> has the identities, the derivation of
  the bootstrap key, the PSK callbacks and the lockout of the pairing window; \<open>Tls_Stream\<close> the
  outbound queue, its write and flush steps over the possible answers of OpenSSL, and the read step.

  The client (\<open>maho-app/src/session.rs\<close>). \<open>Client_Types\<close> has the errors, which of them are worth a
  reconnection, and the reconnection loop; \<open>Clipboard_Image\<close> both image assemblies, the host's and
  the client's, as interpretations of one locale; \<open>Client_Session\<close> the state of a session, every
  send operation with its permission and capability checks, and the dispatch of received packets, each as one thread
  runs it. \<open>Client_Threads\<close> cuts the same operations into the sections between two releases of a lock, as
  tasks of a system in which the sections of many threads come in any order; there the permissions are proved to be
  obeyed up to the race that the source's separate locks leave open, and that race is shown. \<open>Client_Handshake\<close>
  has what comes before: pairing with a PIN, reconnecting, the relay fallback, the TLS connection and the
  handshake. \<open>Handshake_Agreement\<close> runs it against the host's \<open>handle_handshake\<close>: both end with the same
  keys, capabilities and trust.

  The client's pairings (\<open>maho-app/src/pairing.rs\<close>). \<open>Client_Store\<close> has the file and the in-memory store,
  with the migration of older files, and \<open>Client_Store_Safety\<close> proves each call atomic whatever fails.
  \<open>Client_Dates\<close> follows the date of a pairing through the file in exact f64 arithmetic, with a bound on what the
  JSON text may lose.

  The relay (\<open>maho-relay/src/lib.rs\<close>). \<open>Relay_Server\<close> has the shared state and one definition per
  operation on it, \<open>Relay_Tasks\<close> the connections as a step relation over it, \<open>Relay_Isolation\<close> the
  invariant of provenance, \<open>Relay_Exec\<close> an executable version of the relation for the witnesses and
  \<open>Relay_Safety\<close> the properties.

  The pieces together. \<open>Udp_Delivery\<close> joins sealing, the sender's packets and opening to the delivery of
  whole packets; \<open>End_To_End\<close> runs the host's \<open>send_frame\<close> against the client's \<open>receive_udp_event\<close> over a
  network that loses, repeats and reorders datagrams.

  The host (\<open>maho-host/src\<close>). \<open>Guest_Registry\<close> is \<open>guests.rs\<close>: live guests, their command channels, the
  consent requests and the status broadcasts. \<open>Host_Types\<close> has the types and pure functions of
  \<open>session.rs\<close>, \<open>Host_Session\<close> its \<open>handle_connection\<close>: one definition per step of the loop, in a monad
  over \<open>host_conn\<close>, the locals of the function. What the code asks of the outside (clock, socket, user,
  stores, platform) is an oracle of \<open>host_env\<close>, indexed by a counter that every question advances, so the
  theorems hold for all behaviours of the outside; what it does is logged in \<open>hc_trace\<close>. The fuel of
  \<open>session_loop\<close> is its number of iterations; a session may run forever, and the properties hold for every
  fuel, of running sessions too. \<open>Host_Logic\<close> is a Hoare logic for the monad with the locale \<open>quiet_invariant\<close>:
  what the effects a step may log preserve, the step preserves. \<open>Host_Safety\<close> and \<open>Host_Admission\<close>
  interpret it for the audit of injected input and for the typed state with its evidence of admission,
  \<open>Host_Sample\<close> evaluates a sample run and \<open>Host_Properties\<close> states the results.

  The pairing store (\<open>session.rs\<close>). \<open>Host_Store\<close> has the operations of \<open>PairingStore\<close> over a disk of four files,
  in the monad of \<open>File_Io\<close>, which both stores share: every file operation may succeed, fail or be the last of a dying process; the JSON
  and base64 libraries are the parameter \<open>serde\<close>, and the dates on disk go through the f64 arithmetic of
  \<open>F64\<close>. \<open>Store_Safety\<close> proves that the store refines a specification with one atomic state after another,
  and that no crash turns a guest into an owner. A session reads a client's key and its authorization under
  two locks, and the theorem says so: only a client revoked between the two reads may pass for an owner.

  The server (\<open>session.rs\<close>). \<open>Host_Serve\<close> has the set-up of the pairing window, the keys each connection is
  offered (each look at the store sees files of its own, since other threads may change them between two looks),
  and the accept loop with its threads as a step function over events in any order; it bounds
  the guesses of the PIN over all schedules. \<open>Host_Sender\<close> is the thread that sends the media, interleaved
  with the pipelines that feed it and the session that replaces them. \<open>Host_Cleanup\<close> proves what the end of
  a connection undoes, with the locale \<open>view_invariant\<close> for predicates of a part of the state.

  Bytes and the integers of the source are words of their width; \<open>usize\<close> is \<open>nat\<close>, since every sum of
  lengths here stays far below 64 bits. An \<open>Instant\<close> or \<open>Duration\<close> is a \<open>nat\<close> of nanoseconds. A
  \<open>Result\<close> is a sum with the error on the left. Loops are recursive functions; the flush loop, which
  need not end, is a \<open>partial_function (option)\<close> with a theorem that it returns.

  Not modelled: capture, encoding, decoding, injection, clipboards and audio devices of the
  platforms, user interfaces, the keychain of Apple systems, mDNS discovery, the agent servers, and the
  OpenSSL, tokio and serde libraries beyond what is passed as a parameter. Of the client session the loops of
  the worker threads with their event slots, the traces and the statistics are not modelled.
\<close>

end
